(* ===== verification/CBase.thy ===== *)
theory CBase
  imports Main "HOL-Library.Word" "HOL-Library.Signed_Division" "HOL-Library.Monad_Syntax"
begin

text \<open>
  Prelude of the development: the machine types of the Nios II target (\<open>int\<close>,
  \<open>unsigned int\<close> and \<open>unsigned long\<close> have 32 bits, \<open>unsigned long long\<close> has 64),
  the C operations on them whose meaning is not that of a HOL operation, the collections
  of facts the component theories fill, and generic lemmas on words, bit lists and
  the \<open>option\<close> monad that several components use.

  \<open>None\<close> as the result of a pure C function means that the C standard leaves the
  execution undefined: a shift by the width of the type or more, or an array access outside
  the array.  A left shift of a signed value into or past the sign bit is defined as
  nios2-elf-gcc documents it (two's complement, high bits lost).
\<close>

unbundle bit_operations_syntax

named_theorems config_defs \<open>the constants of config.h\<close>
named_theorems command_defs \<open>the constants and builders of helpers/commands\<close>
named_theorems validate_defs \<open>the validators of helpers/commands\<close>
named_theorems bus_simps \<open>reads and writes of the peripheral, as rewrite rules\<close>

section \<open>Machine types\<close>

type_synonym cint = "32 word"
type_synonym u8 = "8 word"
type_synonym u16 = "16 word"
type_synonym u64 = "64 word"

section \<open>C operations\<close>

text \<open>\<open>x << n\<close> and \<open>x >> n\<close> on \<open>int\<close>: undefined when the count reaches the width.\<close>

definition c_shl :: "cint \<Rightarrow> nat \<Rightarrow> cint option" where
  "c_shl x n = (if n < 32 then Some (push_bit n x) else None)"

definition c_sar :: "cint \<Rightarrow> nat \<Rightarrow> cint" where
  "c_sar x n = signed_drop_bit n x"

text \<open>Integer promotion of the small unsigned types, and the conversion of \<open>int\<close> to
  \<open>unsigned long long\<close>, which extends the sign.\<close>

abbreviation int_of_u8 :: "u8 \<Rightarrow> cint" where
  "int_of_u8 x \<equiv> ucast x"

abbreviation int_of_u16 :: "u16 \<Rightarrow> cint" where
  "int_of_u16 x \<equiv> ucast x"

abbreviation u64_of_int :: "cint \<Rightarrow> u64" where
  "u64_of_int x \<equiv> scast x"

text \<open>An array read: undefined outside the array.\<close>

definition arr_get :: "'a list \<Rightarrow> nat \<Rightarrow> 'a option" where
  "arr_get xs i = (if i < length xs then Some (xs ! i) else None)"

definition arr_set :: "'a list \<Rightarrow> nat \<Rightarrow> 'a \<Rightarrow> 'a list option" where
  "arr_set xs i v = (if i < length xs then Some (xs[i := v]) else None)"

lemma c_shl_defined [simp]: "n < 32 \<Longrightarrow> c_shl x n = Some (push_bit n x)"
  by (simp add: c_shl_def)

lemma c_shl_undefined [simp]: "32 \<le> n \<Longrightarrow> c_shl x n = None"
  by (simp add: c_shl_def)

lemma arr_get_Some [simp]: "i < length xs \<Longrightarrow> arr_get xs i = Some (xs ! i)"
  by (simp add: arr_get_def)

lemma arr_get_None [simp]: "length xs \<le> i \<Longrightarrow> arr_get xs i = None"
  by (simp add: arr_get_def)

lemma arr_set_Some [simp]: "i < length xs \<Longrightarrow> arr_set xs i v = Some (xs[i := v])"
  by (simp add: arr_set_def)

lemma arr_set_None [simp]: "length xs \<le> i \<Longrightarrow> arr_set xs i v = None"
  by (simp add: arr_set_def)

section \<open>Words and bits\<close>

lemma word_eqI_bits:
  fixes x y :: "'a::len word"
  assumes "\<And>n. n < LENGTH('a) \<Longrightarrow> bit x n = bit y n"
  shows "x = y"
  using assms by (rule bit_word_eqI)

lemma xor_eq_cancel_left [simp]:
  fixes a b c :: "'a::len word"
  shows "a XOR b = a XOR c \<longleftrightarrow> b = c"
proof
  assume "a XOR b = a XOR c"
  then have "a XOR (a XOR b) = a XOR (a XOR c)" by simp
  then show "b = c" by (simp flip: xor.assoc)
qed simp

lemma xor_eq_0_iff: "a XOR b = 0 \<longleftrightarrow> a = b" for a b :: "'a::len word"
  by (metis xor_eq_cancel_left xor_self_eq)

text \<open>The simplifier turns a shift by one into a product; these read its bits.\<close>

lemma bit_times_2 [simp]:
  fixes x :: "'a::len word"
  shows "bit (x * 2) n \<longleftrightarrow> n < LENGTH('a) \<and> 0 < n \<and> bit x (n - 1)"
proof -
  have "x * 2 = push_bit 1 x" by (simp add: push_bit_eq_mult)
  then show ?thesis by (auto simp: bit_push_bit_iff simp del: push_bit_Suc)
qed

lemma of_nat_eq_iff_unat:
  fixes i :: "'a::len word"
  assumes "d < 2 ^ LENGTH('a)"
  shows "of_nat d = i \<longleftrightarrow> unat i = d"
proof
  assume "of_nat d = i"
  then have "i = of_nat d" by simp
  then show "unat i = d" using assms by (simp add: unat_of_nat)
next
  assume "unat i = d"
  then show "of_nat d = i" by auto
qed

lemma unat_bound: "unat w < 2 ^ LENGTH('a)" for w :: "'a::len word"
  by (rule unsigned_less)

lemma sint_of_nat_small: "n < 2 ^ 31 \<Longrightarrow> sint (of_nat n :: cint) = int n"
  by (simp add: signed_of_nat signed_take_bit_int_eq_self)

lemma uint_sint_nonneg:
  assumes "0 \<le> sint (x :: cint)"
  shows "uint x = sint x"
proof -
  have "uint x = take_bit 32 (sint x)" by (simp only: uint_sint[of x]) simp
  also have "\<dots> = sint x"
    using assms sint_lt[of x] by (simp add: take_bit_int_eq_self)
  finally show ?thesis .
qed

lemma negated:
  fixes v :: cint
  assumes "sint v < 0"
  shows "unat (NOT v + 1) = nat (- sint v)"
proof -
  have "NOT v + 1 = - v" by (simp add: minus_eq_not_plus_1)
  also have "- v = of_int (- sint v)" by simp
  finally have "uint (NOT v + 1) = take_bit 32 (- sint v)" by (simp only: uint_word_of_int) (simp add: take_bit_eq_mod)
  also have "\<dots> = - sint v" using assms sint_ge[of v] by (simp add: take_bit_int_eq_self)
  finally show ?thesis by (simp add: unat_eq_nat_uint)
qed

lemma and_exp:
  fixes x :: "'a::len word"
  shows "x AND 2 ^ n = (if bit x n then 2 ^ n else 0)"
  by (rule word_eqI_bits) (auto simp: bit_and_iff bit_exp_iff)

text \<open>The masks of the code, as truncations.\<close>

lemma and_low_mask:
  fixes x :: "'a::len word"
  assumes "m = 2 ^ n - 1"
  shows "x AND m = take_bit n x"
  by (simp add: assms take_bit_eq_mask mask_eq_exp_minus_1)

lemma and_masks:
  fixes x :: "'a::len word"
  shows "x AND 0x1 = take_bit 1 x" and "x AND 0x3 = take_bit 2 x" and "x AND 0x7 = take_bit 3 x"
    and "x AND 0xF = take_bit 4 x" and "x AND 0x1F = take_bit 5 x" and "x AND 0x3F = take_bit 6 x"
    and "x AND 0xFF = take_bit 8 x" and "x AND 0x3FF = take_bit 10 x"
    and "x AND 0xFFFF = take_bit 16 x" and "x AND 0x3FFFFFF = take_bit 26 x"
  by (rule and_low_mask, simp)+

end
