(* ===== verification/Config.thy ===== *)
theory Config
  imports CBase
begin

text \<open>
  helpers/config.h and the two addresses of the BSP's system.h: register numbers, bit masks
  and package constants.  The object-like macros without parentheses
  (\<open>MASK_CLR_FINISHED 1 << 1\<close> and its kin) only occur as operands of \<open>|\<close>, which
  binds less than \<open><<\<close>, so their value is the value of the macro body.
\<close>

section \<open>Status register\<close>

definition BASE_IS_FIFO_FULL :: cint where [config_defs]: "BASE_IS_FIFO_FULL = push_bit 0 1"
definition MASK_EMPTY_RECEIVER :: cint where [config_defs]: "MASK_EMPTY_RECEIVER = push_bit 13 1"
definition MASK_FINISH_SEND :: cint where [config_defs]: "MASK_FINISH_SEND = push_bit 3 1"

section \<open>Settings register\<close>

definition BASE_REG_SET :: cint where [config_defs]: "BASE_REG_SET = 0"
definition MASK_RST :: cint where [config_defs]: "MASK_RST = push_bit 0 1"
definition MASK_EN :: cint where [config_defs]: "MASK_EN = push_bit 1 1"
definition MASK_RST_RECEIVER :: cint where [config_defs]: "MASK_RST_RECEIVER = push_bit 10 1"
definition MASK_EN_RECEIVER :: cint where [config_defs]: "MASK_EN_RECEIVER = push_bit 4 1"
definition MASK_CLR_FIFO :: cint where [config_defs]: "MASK_CLR_FIFO = push_bit 2 1"
definition MASK_LOOPBACK :: cint where [config_defs]: "MASK_LOOPBACK = push_bit 8 1"
definition MASK_CLR_FINISHED :: cint where [config_defs]: "MASK_CLR_FINISHED = push_bit 1 1"
definition SENDER_HAS_GEN :: cint where [config_defs]: "SENDER_HAS_GEN = push_bit 5 0"
definition SENDER_ENABLE_CTRL :: cint where [config_defs]: "SENDER_ENABLE_CTRL = push_bit 6 1"
definition SENDER_IS_PREAMBLE :: cint where [config_defs]: "SENDER_IS_PREAMBLE = push_bit 7 0"
definition MASK_READ_REQ :: cint where [config_defs]: "MASK_READ_REQ = push_bit 12 1"

section \<open>Registers written\<close>

definition BASE_REG_TARI :: cint where [config_defs]: "BASE_REG_TARI = 1"
definition BASE_REG_FIFO :: cint where [config_defs]: "BASE_REG_FIFO = 2"
definition BASE_REG_TARI_101 :: cint where [config_defs]: "BASE_REG_TARI_101 = 3"
definition BASE_REG_TARI_099 :: cint where [config_defs]: "BASE_REG_TARI_099 = 4"
definition BASE_REG_TARI_1616 :: cint where [config_defs]: "BASE_REG_TARI_1616 = 5"
definition BASE_REG_TARI_1584 :: cint where [config_defs]: "BASE_REG_TARI_1584 = 6"
definition BASE_REG_PW :: cint where [config_defs]: "BASE_REG_PW = 7"
definition BASE_REG_DELIMITER :: cint where [config_defs]: "BASE_REG_DELIMITER = 8"
definition BASE_REG_RTCAL :: cint where [config_defs]: "BASE_REG_RTCAL = 9"
definition BASE_REG_TRCAL :: cint where [config_defs]: "BASE_REG_TRCAL = 10"

section \<open>Registers read\<close>

definition BASE_REG_STATUS :: cint where [config_defs]: "BASE_REG_STATUS = 3"
definition BASE_RECEIVER_DATA :: cint where [config_defs]: "BASE_RECEIVER_DATA = 4"
definition BASE_SENDER_USEDW :: cint where [config_defs]: "BASE_SENDER_USEDW = 5"
definition BASE_RECEIVER_USEDW :: cint where [config_defs]: "BASE_RECEIVER_USEDW = 6"
definition BASE_ID :: cint where [config_defs]: "BASE_ID = 7"

section \<open>Packages\<close>

definition data_mask_size :: nat where [config_defs]: "data_mask_size = 6"
definition data_package_size :: nat where [config_defs]: "data_package_size = 26"
definition eop :: cint where [config_defs]: "eop = 0"
definition bits6 :: cint where [config_defs]: "bits6 = 0x3F"
definition bits26 :: cint where [config_defs]: "bits26 = 0x3FFFFFF"
definition bits32 :: cint where [config_defs]: "bits32 = 0xFFFFFFFF"

section \<open>Address of the peripheral (system.h)\<close>

definition NIOS_RFID_PERIPHERAL_0_BASE :: cint where
  [config_defs]: "NIOS_RFID_PERIPHERAL_0_BASE = 0x41000"

definition NIOS_RFID_PERIPHERAL_0_SPAN :: cint where
  [config_defs]: "NIOS_RFID_PERIPHERAL_0_SPAN = 64"

end
