(* ===== verification/Crc.thy ===== *)
theory Crc
  imports CBase
begin

text \<open>
  helpers/crc.c and crc.h: the table \<open>crc_table\<close> (a global of 256 entries indexed by an
  \<open>unsigned char\<close>, hence a function on 8-bit words), its initialisation, the table-driven
  CRC-16 and the CRC-5 routine, with the bit-serial CRC they are compared with.
\<close>

section \<open>Parameters (crc.h)\<close>

definition POLYNOMIAL_16 :: u16 where "POLYNOMIAL_16 = 0x1021"
definition INITIAL_REMAINDER_16 :: u16 where "INITIAL_REMAINDER_16 = 0xFFFF"
definition POLYNOMIAL_5 :: u8 where "POLYNOMIAL_5 = 0x29"
definition INITIAL_REMAINDER_5 :: u8 where "INITIAL_REMAINDER_5 = 0x9"

type_synonym crc_table = "u8 \<Rightarrow> u16"

text \<open>A global without initialiser is zero when the program starts.\<close>

definition crc_table_bss :: crc_table where
  "crc_table_bss = (\<lambda>_. 0)"

section \<open>The table\<close>

text \<open>One turn of the inner loop of \<open>crc_16_ccitt_init\<close>.\<close>

definition crc_divide_bit :: "u16 \<Rightarrow> u16" where
  "crc_divide_bit remainder =
     (if remainder AND 0x8000 \<noteq> 0 then push_bit 1 remainder XOR POLYNOMIAL_16
      else push_bit 1 remainder)"

fun crc_divide :: "nat \<Rightarrow> u16 \<Rightarrow> u16" where
  "crc_divide 0 remainder = remainder"
| "crc_divide (Suc n) remainder = crc_divide n (crc_divide_bit remainder)"

function crc_init_loop :: "nat \<Rightarrow> crc_table \<Rightarrow> crc_table" where
  "crc_init_loop dividend tbl =
     (if dividend < 256
      then crc_init_loop (Suc dividend)
             (tbl(of_nat dividend := crc_divide 8 (push_bit 8 (of_nat dividend))))
      else tbl)"
  by pat_completeness auto
termination by (relation "measure (\<lambda>(dividend, tbl). 256 - dividend)") auto

declare crc_init_loop.simps [simp del]

definition crc_16_ccitt_init :: "crc_table \<Rightarrow> crc_table" where
  "crc_16_ccitt_init tbl = crc_init_loop 0 tbl"

section \<open>CRC-16 by table\<close>

text \<open>
  \<open>message >> (byte * 8)\<close> shifts a 32-bit \<open>unsigned long\<close>, so a fifth byte is undefined.
\<close>

function crc_16_loop :: "crc_table \<Rightarrow> cint \<Rightarrow> int \<Rightarrow> nat \<Rightarrow> u16 \<Rightarrow> u16 option" where
  "crc_16_loop tbl message n_bytes byte remainder =
     (if int byte < n_bytes then
        if byte * 8 < 32 then
          (let tmp = ucast (drop_bit (byte * 8) message AND 0xFF) :: u8;
               data = tmp XOR ucast (drop_bit 8 remainder)
           in crc_16_loop tbl message n_bytes (Suc byte) (tbl data XOR push_bit 8 remainder))
        else None
      else Some remainder)"
  by pat_completeness auto
termination by (relation "measure (\<lambda>(tbl, m, n, byte, r). nat (n - int byte))") auto

declare crc_16_loop.simps [simp del]

definition crc_16_ccitt :: "crc_table \<Rightarrow> cint \<Rightarrow> cint \<Rightarrow> u16 option" where
  "crc_16_ccitt tbl message n_bytes =
     crc_16_loop tbl message (sint n_bytes) 0 INITIAL_REMAINDER_16"

section \<open>CRC-5\<close>

fun crc5_loop :: "nat \<Rightarrow> u8 \<Rightarrow> u8" where
  "crc5_loop 0 remainder = remainder"
| "crc5_loop (Suc n) remainder =
     (let remainder = (if remainder AND 0x80 \<noteq> 0 then remainder XOR POLYNOMIAL_5 else remainder)
      in crc5_loop n (push_bit 1 remainder))"

definition crc5 :: "u8 \<Rightarrow> u8" where
  "crc5 message = drop_bit 3 (crc5_loop 8 INITIAL_REMAINDER_5)"

lemma crc5_value: "crc5 message = 0xC"
  unfolding crc5_def by code_simp



section \<open>Linearity of the division step\<close>

lemma crc_bit15: "(x AND 0x8000 \<noteq> 0) \<longleftrightarrow> bit x 15" for x :: u16
proof -
  have "(0x8000 :: u16) = push_bit 15 1" by simp
  then show ?thesis
    by (metis and_exp_eq_0_iff_not_bit push_bit_of_1)
qed

lemma crc_divide_bit_alt:
  "crc_divide_bit x = push_bit 1 x XOR (if bit x 15 then POLYNOMIAL_16 else 0)"
  by (simp add: crc_divide_bit_def crc_bit15)

lemma crc_divide_bit_xor:
  "crc_divide_bit (x XOR y) = crc_divide_bit x XOR crc_divide_bit y"
  by (auto simp: crc_divide_bit_alt push_bit_xor bit_xor_iff xor.assoc xor.left_commute
      xor.commute)

lemma crc_divide_xor: "crc_divide n (x XOR y) = crc_divide n x XOR crc_divide n y"
  by (induction n arbitrary: x y) (simp_all add: crc_divide_bit_xor)

lemma crc_divide_bit_low: "\<not> bit x 15 \<Longrightarrow> crc_divide_bit x = push_bit 1 x"
  by (simp add: crc_divide_bit_alt)

text \<open>Dividing a word whose \<open>n\<close> top bits are clear only shifts it.\<close>

lemma crc_divide_low:
  assumes "\<And>k. 16 - n \<le> k \<Longrightarrow> k < 16 \<Longrightarrow> \<not> bit x k" and "n \<le> 16"
  shows "crc_divide n x = push_bit n x"
  using assms
proof (induction n arbitrary: x)
  case 0
  then show ?case by simp
next
  case (Suc n)
  from Suc.prems(1)[of 15] have "\<not> bit x 15" by simp
  moreover have "crc_divide n (push_bit 1 x) = push_bit n (push_bit 1 x)"
  proof (rule Suc.IH)
    fix k assume k: "16 - n \<le> k" "k < 16"
    then show "\<not> bit (push_bit 1 x) k"
      using Suc.prems(1)[of "k - 1"] Suc.prems(2)
      by (auto simp: bit_push_bit_iff)
  qed (use Suc.prems in simp)
  ultimately show ?case
    by (simp add: crc_divide_bit_low)
qed

text \<open>The step is injective because the polynomial has a constant term.\<close>

lemma crc_divide_bit_eq_0: "crc_divide_bit x = 0 \<Longrightarrow> x = 0"
proof (rule word_eqI_bits)
  fix k assume h: "crc_divide_bit x = 0" and k: "k < LENGTH(16)"
  have "\<not> bit (crc_divide_bit x) 0" using h by simp
  then have top: "\<not> bit x 15"
    by (auto simp: crc_divide_bit_alt bit_xor_iff bit_push_bit_iff POLYNOMIAL_16_def
        split: if_splits)
  then have "bit (push_bit 1 x) (Suc k) = bit 0 (Suc k)"
    using h by (simp add: crc_divide_bit_low)
  with k top show "bit x k = bit 0 k"
    by (cases "k = 15") (auto simp: bit_push_bit_iff)
qed

lemma crc_divide_inj: "crc_divide n x = crc_divide n y \<longleftrightarrow> x = y"
proof (induction n arbitrary: x y)
  case (Suc n)
  have "crc_divide_bit x = crc_divide_bit y \<longleftrightarrow> x = y"
    by (metis crc_divide_bit_eq_0 crc_divide_bit_xor xor_eq_0_iff)
  with Suc show ?case by simp
qed simp

section \<open>The table after initialisation\<close>

lemma crc_init_loop_entry:
  "d \<le> 256 \<Longrightarrow> crc_init_loop d tbl i =
     (if d \<le> unat i then crc_divide 8 (push_bit 8 (ucast i)) else tbl i)"
proof (induction d tbl rule: crc_init_loop.induct)
  case (1 d tbl)
  show ?case
  proof (cases "d < 256")
    case True
    have eq: "of_nat d = i \<longleftrightarrow> unat i = d"
      by (rule of_nat_eq_iff_unat) (use True in simp)
    show ?thesis
    proof (cases "unat i = d")
      case u: True
      then have d: "d = unat i" by simp
      from "1.IH"[OF True] True show ?thesis
        unfolding d by (simp add: crc_init_loop.simps[of "unat i" tbl] fun_upd_def)
    next
      case u: False
      then have "i \<noteq> of_nat d" using eq by metis
      with "1.IH"[OF True] True u show ?thesis
        by (simp add: crc_init_loop.simps[of d tbl] fun_upd_def Suc_le_eq nat_less_le)
    qed
  next
    case False
    then have "\<not> d \<le> unat i" using unat_bound[of i] "1.prems" by simp
    with False show ?thesis by (simp add: crc_init_loop.simps[of d tbl])
  qed
qed

lemma crc_16_ccitt_init_entry:
  "crc_16_ccitt_init tbl i = crc_divide 8 (push_bit 8 (ucast i))"
  by (simp add: crc_16_ccitt_init_def crc_init_loop_entry)


section \<open>The bit-serial CRC-16\<close>

text \<open>
  The textbook shift register: each message bit is added to the top bit of the
  remainder, which is then divided by one bit.  \<open>byte_bits\<close> lists a byte from its most
  significant bit, and \<open>message_bits\<close> takes the bytes as the routine does, from the least
  significant byte of the \<open>unsigned long\<close>.
\<close>

definition bit_top :: "bool \<Rightarrow> u16" where
  "bit_top b = (if b then 0x8000 else 0)"

fun crc_serial :: "u16 \<Rightarrow> bool list \<Rightarrow> u16" where
  "crc_serial r [] = r"
| "crc_serial r (b # bs) = crc_serial (crc_divide_bit (r XOR bit_top b)) bs"

definition byte_bits :: "u8 \<Rightarrow> bool list" where
  "byte_bits w = map (bit w) (rev [0..<8])"

definition message_byte :: "cint \<Rightarrow> nat \<Rightarrow> u8" where
  "message_byte m k = ucast (drop_bit (k * 8) m)"

definition message_bits :: "cint \<Rightarrow> nat \<Rightarrow> nat \<Rightarrow> bool list" where
  "message_bits m i n = concat (map (\<lambda>k. byte_bits (message_byte m k)) [i..<n])"

text \<open>Up to sixteen message bits can be added to the remainder at once, as the top bits.\<close>

fun bits_top :: "bool list \<Rightarrow> u16" where
  "bits_top [] = 0"
| "bits_top (b # bs) = bit_top b XOR drop_bit 1 (bits_top bs)"

lemma bit_bit_top: "bit (bit_top b) k \<longleftrightarrow> b \<and> k = 15"
proof -
  have "bit (2 ^ 15 :: u16) k \<longleftrightarrow> possible_bit TYPE(16 word) 15 \<and> k = 15"
    by (auto simp only: bit_exp_iff)
  then show ?thesis by (simp add: bit_top_def)
qed

lemma bit_bits_top:
  "length bs \<le> 16 \<Longrightarrow> k < 16 \<Longrightarrow> bit (bits_top bs) k \<longleftrightarrow> 15 - k < length bs \<and> bs ! (15 - k)"
proof (induction bs arbitrary: k)
  case (Cons b bs)
  show ?case
  proof (cases "k = 15")
    case True
    moreover have "\<not> bit (bits_top bs) 16"
      using bit_imp_le_length[of "bits_top bs" 16] by auto
    ultimately show ?thesis by (simp add: bit_xor_iff bit_bit_top bit_drop_bit_eq)
  next
    case False
    with Cons.prems have k: "Suc k < 16" by simp
    then have "bit (bits_top (b # bs)) k = bit (bits_top bs) (Suc k)"
      using False by (simp add: bit_xor_iff bit_bit_top bit_drop_bit_eq)
    also have "\<dots> = (15 - Suc k < length bs \<and> bs ! (15 - Suc k))"
      using Cons k by simp
    also have "\<dots> = (15 - k < length (b # bs) \<and> (b # bs) ! (15 - k))"
    proof -
      have "15 - k = Suc (15 - Suc k)" using k by simp
      then show ?thesis by simp
    qed
    finally show ?thesis .
  qed
qed simp

lemma bits_top_inj:
  assumes "length u = length v" "length u \<le> 16" "bits_top u = bits_top v"
  shows "u = v"
proof (rule nth_equalityI)
  fix i assume i: "i < length u"
  then have "bit (bits_top u) (15 - i) = u ! i" "bit (bits_top v) (15 - i) = v ! i"
    using assms(1,2) by (simp_all add: bit_bits_top)
  with assms(3) show "u ! i = v ! i" by simp
qed (use assms in simp)

lemma crc_serial_bits_top:
  "length bs \<le> 16 \<Longrightarrow> crc_serial r bs = crc_divide (length bs) (r XOR bits_top bs)"
proof (induction bs arbitrary: r)
  case (Cons b bs)
  have low: "crc_divide_bit (drop_bit 1 (bits_top bs)) = bits_top bs"
  proof (rule word_eqI_bits)
    fix k assume "k < LENGTH(16)"
    moreover have "\<not> bit (bits_top bs) 0"
      using Cons.prems by (simp add: bit_bits_top)
    ultimately show "bit (crc_divide_bit (drop_bit 1 (bits_top bs))) k = bit (bits_top bs) k"
      by (cases k) (auto simp: crc_divide_bit_alt bit_push_bit_iff bit_drop_bit_eq
          dest: bit_imp_le_length)
  qed
  show ?case
    using Cons by (simp add: crc_divide_bit_xor low[unfolded One_nat_def] xor.assoc)
qed simp

lemma crc_serial_append: "crc_serial r (xs @ ys) = crc_serial (crc_serial r xs) ys"
  by (induction xs arbitrary: r) simp_all

lemma crc_serial_inj: "crc_serial r bs = crc_serial s bs \<longleftrightarrow> r = s"
proof (induction bs arbitrary: r s)
  case (Cons b bs)
  have "crc_divide_bit (r XOR bit_top b) = crc_divide_bit (s XOR bit_top b) \<longleftrightarrow> r = s"
    using crc_divide_inj[of 1 "r XOR bit_top b" "s XOR bit_top b"]
    by (simp add: xor.commute[of _ "bit_top b"])
  with Cons show ?case by simp
qed simp

text \<open>Two messages that differ only inside a window of at most sixteen bits have
  different remainders, whatever the register held before the window.\<close>

lemma crc_serial_burst:
  assumes "length u = length v" "length u \<le> 16" "u \<noteq> v"
  shows "crc_serial r (xs @ u @ ys) \<noteq> crc_serial r (xs @ v @ ys)"
  using assms bits_top_inj
  by (auto simp: crc_serial_append crc_serial_inj crc_serial_bits_top crc_divide_inj)


section \<open>One byte by table is eight serial steps\<close>

lemma length_byte_bits: "length (byte_bits w) = 8"
  by (simp add: byte_bits_def)

lemma byte_bits_nth: "i < 8 \<Longrightarrow> byte_bits w ! i = bit w (7 - i)"
  by (simp add: byte_bits_def rev_nth)

lemma byte_bits_inj: "byte_bits v = byte_bits w \<longleftrightarrow> v = w"
proof
  assume h: "byte_bits v = byte_bits w"
  show "v = w"
  proof (rule word_eqI_bits)
    fix k assume "k < LENGTH(8)"
    then show "bit v k = bit w k"
      using byte_bits_nth[of "7 - k" v] byte_bits_nth[of "7 - k" w] h by simp
  qed
qed simp

lemma bits_top_byte: "bits_top (byte_bits w) = push_bit 8 (ucast w)"
proof (rule word_eqI_bits)
  fix k assume "k < LENGTH(16)"
  then have k: "k < 16" by simp
  have "bit (bits_top (byte_bits w)) k \<longleftrightarrow> 15 - k < 8 \<and> byte_bits w ! (15 - k)"
    using bit_bits_top[of "byte_bits w" k] k by (simp add: length_byte_bits del: bits_top.simps)
  also have "\<dots> \<longleftrightarrow> 8 \<le> k \<and> bit w (k - 8)"
    using k by (auto simp: byte_bits_nth)
  also have "\<dots> \<longleftrightarrow> bit (push_bit 8 (ucast w) :: u16) k"
    using k by (auto simp: bit_push_bit_iff bit_ucast_iff)
  finally show "bit (bits_top (byte_bits w)) k = bit (push_bit 8 (ucast w) :: u16) k" .
qed

lemma crc_split_remainder:
  "r XOR push_bit 8 (ucast w) =
     push_bit 8 (ucast (w XOR ucast (drop_bit 8 r))) XOR take_bit 8 r" for r :: u16 and w :: u8
  by (rule word_eqI_bits)
     (auto simp: bit_xor_iff bit_push_bit_iff bit_ucast_iff bit_drop_bit_eq bit_take_bit_iff)

lemma crc_divide_low_byte: "crc_divide 8 (take_bit 8 r) = push_bit 8 r"
proof -
  have "crc_divide 8 (take_bit 8 r) = push_bit 8 (take_bit 8 r)"
    by (rule crc_divide_low) (auto simp: bit_take_bit_iff)
  also have "\<dots> = push_bit 8 r"
    by (rule word_eqI_bits) (auto simp: bit_push_bit_iff bit_take_bit_iff)
  finally show ?thesis .
qed

lemma crc_table_step:
  "crc_16_ccitt_init tbl (w XOR ucast (drop_bit 8 r)) XOR push_bit 8 r =
     crc_serial r (byte_bits w)"
proof -
  have "crc_serial r (byte_bits w) = crc_divide 8 (r XOR push_bit 8 (ucast w))"
    using crc_serial_bits_top[of "byte_bits w" r]
    by (simp only: length_byte_bits bits_top_byte)
  also have "\<dots> = crc_divide 8 (push_bit 8 (ucast (w XOR ucast (drop_bit 8 r))))
      XOR push_bit 8 r"
    by (simp only: crc_split_remainder crc_divide_xor crc_divide_low_byte)
  finally show ?thesis by (simp only: crc_16_ccitt_init_entry)
qed

lemma message_byte_and: "ucast (drop_bit (k * 8) m AND 0xFF) = message_byte m k" for m :: cint
  unfolding message_byte_def and_masks
  by (rule word_eqI_bits) (auto simp: bit_ucast_iff bit_take_bit_iff)

lemma crc_16_loop_serial:
  "n \<le> 4 \<Longrightarrow> crc_16_loop (crc_16_ccitt_init tbl) m n i r =
     Some (crc_serial r (message_bits m i (nat n)))"
proof (induction "crc_16_ccitt_init tbl" m n i r rule: crc_16_loop.induct)
  case (1 m n i r)
  show ?case
  proof (cases "int i < n")
    case True
    with "1.prems" have i: "i * 8 < 32" by linarith
    have "message_bits m i (nat n) = byte_bits (message_byte m i) @ message_bits m (Suc i) (nat n)"
      using True by (simp add: message_bits_def upt_conv_Cons)
    with "1.hyps"[OF True i refl refl] "1.prems" True i show ?thesis
      by (simp add: crc_16_loop.simps[of _ m n i r] Let_def message_byte_and crc_table_step
          crc_serial_append)
  next
    case False
    then show ?thesis
      by (simp add: crc_16_loop.simps[of _ m n i r] message_bits_def)
  qed
qed

text \<open>With a table of zeros two bytes empty the register.\<close>

lemma crc_16_loop_bss:
  "n \<le> 4 \<Longrightarrow> crc_16_loop crc_table_bss m n i r = Some (push_bit (8 * nat (n - int i)) r)"
proof (induction "crc_table_bss" m n i r rule: crc_16_loop.induct)
  case (1 m n i r)
  show ?case
  proof (cases "int i < n")
    case True
    with "1.prems" have i: "i * 8 < 32" by linarith
    have "nat (n - int i) = Suc (nat (n - int (Suc i)))" using True by linarith
    with "1.hyps"[OF True i refl refl] "1.prems" True i show ?thesis
      by (simp add: crc_16_loop.simps[of _ m n i r] Let_def crc_table_bss_def push_bit_push_bit add.commute)
  next
    case False
    then show ?thesis by (simp add: crc_16_loop.simps[of _ m n i r])
  qed
qed


section \<open>Properties of crc.c\<close>

lemma message_bits_3:
  "message_bits m 0 3 =
     byte_bits (message_byte m 0) @ byte_bits (message_byte m 1) @ byte_bits (message_byte m 2)"
  by (simp add: message_bits_def upt_rec eval_nat_numeral)

lemma crc_16_ccitt_serial:
  "sint n \<le> 4 \<Longrightarrow> crc_16_ccitt (crc_16_ccitt_init tbl) m n =
     Some (crc_serial INITIAL_REMAINDER_16 (message_bits m 0 (nat (sint n))))"
  by (simp add: crc_16_ccitt_def crc_16_loop_serial)

lemma crc_16_loop_undefined:
  "4 < n \<Longrightarrow> i \<le> 4 \<Longrightarrow> crc_16_loop tbl m n i r = None"
proof (induction tbl m n i r rule: crc_16_loop.induct)
  case (1 tbl m n i r)
  show ?case
  proof (cases "i = 4")
    case True
    with "1.prems" show ?thesis by (subst crc_16_loop.simps) simp
  next
    case False
    with "1.prems" have i: "int i < n" "i * 8 < 32" "Suc i \<le> 4" by linarith+
    with "1.IH"[OF i(1,2) refl refl "1.prems"(1) i(3)] show ?thesis
      by (simp add: crc_16_loop.simps[of tbl m n i r] Let_def)
  qed
qed

text \<open>The table entry of a byte after \<open>crc_16_ccitt_init\<close> is the bit-serial CRC of that
  byte started from 0, whatever the table held before.\<close>

theorem crc_init_table:
  "crc_16_ccitt_init tbl i = crc_serial 0 (byte_bits i)"
  using crc_table_step[of tbl i 0] by simp

text \<open>C6. Once the table is initialised the table-driven \<open>crc_16_ccitt\<close> is the bit-serial
  CRC-16 of the message bytes, least significant byte first, for every message and every
  byte count up to four (a negative count is an empty message); five bytes or more shift the
  32-bit message by its width, which is undefined.\<close>

theorem crc_16_ccitt_correct:
  "crc_16_ccitt (crc_16_ccitt_init tbl) m n =
     (if sint n \<le> 4
      then Some (crc_serial INITIAL_REMAINDER_16 (message_bits m 0 (nat (sint n))))
      else None)"
  by (simp add: crc_16_ccitt_def crc_16_loop_serial crc_16_loop_undefined)

text \<open>C14. Error detection, once the table is initialised (which no program of the repository does): two
  messages of at most four bytes whose bits differ only inside a window of sixteen consecutive bits have
  different CRCs.\<close>

theorem crc_16_ccitt_detects_burst:
  assumes "sint n \<le> 4"
    and "message_bits m 0 (nat (sint n)) = xs @ u @ ys"
    and "message_bits m' 0 (nat (sint n)) = xs @ v @ ys"
    and "length u = length v" and "length u \<le> 16" and "u \<noteq> v"
  shows "crc_16_ccitt (crc_16_ccitt_init tbl) m n \<noteq> crc_16_ccitt (crc_16_ccitt_init tbl) m' n"
  using crc_serial_burst[OF assms(4-6)] assms(1-3) by (simp add: crc_16_ccitt_serial)

theorem crc_16_ccitt_detects_burst_witness:
  "crc_16_ccitt (crc_16_ccitt_init crc_table_bss) 0x12 1 \<noteq>
   crc_16_ccitt (crc_16_ccitt_init crc_table_bss) 0x13 1"
  by (rule crc_16_ccitt_detects_burst[where xs = "[]" and ys = "[]"
        and u = "byte_bits 0x12" and v = "byte_bits 0x13"])
     (simp_all add: message_bits_def message_byte_def length_byte_bits byte_bits_inj)

lemma crc_16_bss:
  assumes "2 \<le> sint n" and "sint n \<le> 4"
  shows "crc_16_ccitt crc_table_bss m n = Some 0"
proof -
  have "16 \<le> 8 * nat (sint n)" using assms(1) by linarith
  then have "push_bit (8 * nat (sint n)) r = 0" for r :: u16
    by (intro word_eqI_bits) (auto simp: bit_push_bit_iff)
  then show ?thesis using assms(2) by (simp add: crc_16_ccitt_def crc_16_loop_bss)
qed

text \<open>No program of the repository calls \<open>crc_16_ccitt_init\<close>: with the zero table of the
  program start every message of two to four bytes has the CRC 0.\<close>

theorem crc_16_ccitt_uninitialised:
  assumes "2 \<le> sint n" and "sint n \<le> 4"
  shows "crc_16_ccitt crc_table_bss m n = Some 0"
  using assms by (rule crc_16_bss)

theorem crc_16_ccitt_uninitialised_witness:
  "crc_16_ccitt crc_table_bss 0xC10024 3 = Some 0"
  by (rule crc_16_ccitt_uninitialised) simp_all

text \<open>\<open>crc5\<close> never shifts its message into the register: the result is the constant 12
  for every message.\<close>

theorem crc5_constant: "crc5 message = 0xC"
  by (rule crc5_value)

text \<open>Two 24-bit messages that differ in their low sixteen bits only have different CRCs.\<close>

lemma crc_16_low_half_inj:
  assumes "message_byte m 2 = message_byte m' 2"
    and "crc_16_ccitt (crc_16_ccitt_init tbl) m 3 = crc_16_ccitt (crc_16_ccitt_init tbl) m' 3"
  shows "message_byte m 0 = message_byte m' 0 \<and> message_byte m 1 = message_byte m' 1"
proof -
  let ?bs = "\<lambda>m. byte_bits (message_byte m 0) @ byte_bits (message_byte m 1)"
  have "crc_serial INITIAL_REMAINDER_16 ([] @ ?bs m @ byte_bits (message_byte m 2)) =
      crc_serial INITIAL_REMAINDER_16 ([] @ ?bs m' @ byte_bits (message_byte m 2))"
    using assms by (simp add: crc_16_ccitt_serial message_bits_3)
  then have "?bs m = ?bs m'"
    using crc_serial_burst[of "?bs m" "?bs m'" _ "[]"] by (auto simp: length_byte_bits)
  then have "byte_bits (message_byte m 0) = byte_bits (message_byte m' 0)"
    "byte_bits (message_byte m 1) = byte_bits (message_byte m' 1)"
    by (simp_all add: length_byte_bits)
  then show ?thesis by (simp add: byte_bits_inj)
qed

end
