(* ===== verification/Bus.thy ===== *)
theory Bus
  imports Config Crc
begin

text \<open>
  What the firmware runs on: the Avalon bus behind \<open>IORD_32DIRECT\<close> and
  \<open>IOWR_32DIRECT\<close> of the BSP's io.h, the standard output and the global variable of crc.c.
  The peripheral is hardware: its state type and its answers to \<open>ldwio\<close> and
  \<open>stwio\<close> are a parameter (\<open>'d bus\<close>), and a read may change its state, because time passes.

  A run has one of three outcomes: \<open>None\<close> when a polling loop never ends,
  \<open>Some (Inl Undefined)\<close> when the C standard leaves it undefined, \<open>Some (Inr x)\<close>
  when it returns.
\<close>

section \<open>The machine\<close>

record 'd bus =
  ldwio :: "'d \<Rightarrow> cint \<Rightarrow> cint \<times> 'd"
  stwio :: "'d \<Rightarrow> cint \<Rightarrow> cint \<Rightarrow> 'd"

text \<open>A call of \<open>printf\<close>: its format and its integer arguments.\<close>

datatype print = Printf string "cint list"

record 'd machine =
  dev :: 'd
  stdout :: "print list"
  crc_table :: crc_table

definition c_printf :: "string \<Rightarrow> cint list \<Rightarrow> 'd machine \<Rightarrow> 'd machine" where
  "c_printf fmt args w = w\<lparr>stdout := stdout w @ [Printf fmt args]\<rparr>"

section \<open>io.h\<close>

definition IO_CALC_ADDRESS_DYNAMIC :: "cint \<Rightarrow> cint \<Rightarrow> cint" where
  "IO_CALC_ADDRESS_DYNAMIC base offset = base + offset"

definition IORD_32DIRECT :: "'d bus \<Rightarrow> cint \<Rightarrow> cint \<Rightarrow> 'd machine \<Rightarrow> cint \<times> 'd machine" where
  "IORD_32DIRECT b base offset w =
     (case ldwio b (dev w) (IO_CALC_ADDRESS_DYNAMIC base offset) of (v, d) \<Rightarrow> (v, w\<lparr>dev := d\<rparr>))"

definition IOWR_32DIRECT :: "'d bus \<Rightarrow> cint \<Rightarrow> cint \<Rightarrow> cint \<Rightarrow> 'd machine \<Rightarrow> 'd machine" where
  "IOWR_32DIRECT b base offset data w =
     w\<lparr>dev := stwio b (dev w) (IO_CALC_ADDRESS_DYNAMIC base offset) data\<rparr>"

section \<open>Outcomes\<close>

datatype trap = Undefined

type_synonym 'a outcome = "(trap + 'a) option"

definition returns :: "'a \<Rightarrow> 'a outcome" where
  "returns x = Some (Inr x)"

definition undefined_run :: "'a outcome" where
  "undefined_run = Some (Inl Undefined)"

definition and_then :: "'a outcome \<Rightarrow> ('a \<Rightarrow> 'b outcome) \<Rightarrow> 'b outcome" where
  "and_then r f = (case r of None \<Rightarrow> None | Some (Inl e) \<Rightarrow> Some (Inl e) | Some (Inr x) \<Rightarrow> f x)"

text \<open>A pure computation that may be undefined, and a loop that may not end.\<close>

definition defined_or_trap :: "'a option \<Rightarrow> 'a outcome" where
  "defined_or_trap r = (case r of None \<Rightarrow> undefined_run | Some x \<Rightarrow> returns x)"

lemma and_then_simps [simp]:
  "and_then None f = None"
  "and_then undefined_run f = undefined_run"
  "and_then (returns x) f = f x"
  by (simp_all add: and_then_def returns_def undefined_run_def)

text \<open>A loop may call itself on either side of \<open>and_then\<close>.\<close>

lemma and_then_mono [partial_function_mono]:
  assumes "mono_option F" and "\<And>y. mono_option (\<lambda>f. G y f)"
  shows "mono_option (\<lambda>f. and_then (F f) (\<lambda>y. G y f))"
proof -
  have "and_then (F f) (\<lambda>y. G y f) =
      Option.bind (F f) (\<lambda>z. case_sum (\<lambda>e. Some (Inl e)) (\<lambda>x. G x f) z)" for f
    by (simp add: and_then_def split: option.split sum.split)
  moreover have "mono_option (\<lambda>f. case_sum (\<lambda>e. Some (Inl e)) (\<lambda>x. G x f) z)" for z
    using assms(2) by (cases z) (auto simp: monotone_def flat_ord_def)
  ultimately show ?thesis
    using bind_mono[OF assms(1), of "\<lambda>z f. case_sum (\<lambda>e. Some (Inl e)) (\<lambda>x. G x f) z"] by simp
qed

lemma and_then_assoc: "and_then (and_then r f) g = and_then r (\<lambda>x. and_then (f x) g)"
  by (simp add: and_then_def split: option.split sum.split)

lemma and_then_right [simp]: "and_then r returns = r"
  by (auto simp: and_then_def returns_def split: option.split sum.split)

lemma and_then_returns_iff:
  "and_then r f = returns y \<longleftrightarrow> (\<exists>x. r = returns x \<and> f x = returns y)"
  by (auto simp: and_then_def returns_def split: option.splits sum.splits)

lemma returns_inject [simp]: "returns x = returns y \<longleftrightarrow> x = y"
  by (simp add: returns_def)

lemma returns_neq [simp]:
  "returns x \<noteq> None" "returns x \<noteq> undefined_run" "undefined_run \<noteq> returns x"
  "undefined_run \<noteq> None"
  by (simp_all add: returns_def undefined_run_def)

lemma defined_or_trap_simps [simp]:
  "defined_or_trap None = undefined_run"
  "defined_or_trap (Some x) = returns x"
  by (simp_all add: defined_or_trap_def)

lemma stdout_c_printf [simp]: "stdout (c_printf f a w) = stdout w @ [Printf f a]"
  by (simp add: c_printf_def)

lemma dev_c_printf [simp]: "dev (c_printf f a w) = dev w"
  by (simp add: c_printf_def)

lemma crc_table_c_printf [simp]: "crc_table (c_printf f a w) = crc_table w"
  by (simp add: c_printf_def)

lemma stdout_IOWR [simp]: "stdout (IOWR_32DIRECT b base off v w) = stdout w"
  by (simp add: IOWR_32DIRECT_def)

lemma crc_table_IOWR [simp]: "crc_table (IOWR_32DIRECT b base off v w) = crc_table w"
  by (simp add: IOWR_32DIRECT_def)

lemma dev_IOWR: "dev (IOWR_32DIRECT b base off v w) = stwio b (dev w) (base + off) v"
  by (simp add: IOWR_32DIRECT_def IO_CALC_ADDRESS_DYNAMIC_def)

lemma IORD_eq:
  "IORD_32DIRECT b base off w =
     (fst (ldwio b (dev w) (base + off)), w\<lparr>dev := snd (ldwio b (dev w) (base + off))\<rparr>)"
  by (simp add: IORD_32DIRECT_def IO_CALC_ADDRESS_DYNAMIC_def case_prod_beta)

end
