(* ===== verification/Commands.thy ===== *)
theory Commands
  imports Config Crc
begin

text \<open>
  helpers/commands: the command structure, the constants of each command's header, the
  builders and the validators.  A builder fills the structure its pointer argument names and
  nothing else, so it is a function to the new structure; a builder that shifts an
  \<open>int\<close> by 32 or more is undefined and yields \<open>None\<close>.  A validator reads
  \<open>packages\<close>, an array whose length the caller chose: \<open>None\<close> when it reads outside.
\<close>

section \<open>command_struct.h, commands.h and the command headers\<close>

record command =
  csize :: cint
  result_data :: u64

definition ACK_COMMAND :: cint where [command_defs]: "ACK_COMMAND = 0b01"
definition ACK_SIZE :: cint where [command_defs]: "ACK_SIZE = 18"
definition KILL_COMMAND :: cint where [command_defs]: "KILL_COMMAND = 0b11000100"
definition KILL_SIZE :: cint where [command_defs]: "KILL_SIZE = 59"
definition LOCK_COMMAND :: cint where [command_defs]: "LOCK_COMMAND = 0b11000101"
definition LOCK_SIZE :: cint where [command_defs]: "LOCK_SIZE = 60"
definition NAK_COMMAND :: cint where [command_defs]: "NAK_COMMAND = 0b11000000"
definition NAK_SIZE :: cint where [command_defs]: "NAK_SIZE = 8"
definition QUERY_COMMAND :: cint where [command_defs]: "QUERY_COMMAND = 0b1000"
definition QUERY_SIZE :: cint where [command_defs]: "QUERY_SIZE = 22"
definition QUERY_ADJUST_COMMAND :: cint where [command_defs]: "QUERY_ADJUST_COMMAND = 0b1001"
definition QUERY_ADJUST_SIZE :: cint where [command_defs]: "QUERY_ADJUST_SIZE = 9"
definition QUERY_REP_COMMAND :: cint where [command_defs]: "QUERY_REP_COMMAND = 0b00"
definition QUERY_REP_SIZE :: cint where [command_defs]: "QUERY_REP_SIZE = 4"
definition READ_COMMAND :: cint where [command_defs]: "READ_COMMAND = 0b11000010"
definition READ_SIZE :: cint where [command_defs]: "READ_SIZE = 57"
definition REQ_RN_COMMAND :: cint where [command_defs]: "REQ_RN_COMMAND = 0b11000001"
definition REQ_RN_SIZE :: cint where [command_defs]: "REQ_RN_SIZE = 40"
definition RN16_SIZE :: cint where [command_defs]: "RN16_SIZE = 16"
definition RN_CRC_SIZE :: cint where [command_defs]: "RN_CRC_SIZE = 32"
definition SELECT_COMMAND :: cint where [command_defs]: "SELECT_COMMAND = 0b1010"
definition SELECT_SIZE :: cint where [command_defs]: "SELECT_SIZE = 44"
definition WRITE_COMMAND :: cint where [command_defs]: "WRITE_COMMAND = 0b11000011"
definition WRITE_SIZE :: cint where [command_defs]: "WRITE_SIZE = 58"

definition ACK_LABEL :: cint where "ACK_LABEL = 0"
definition KILL_LABEL :: cint where "KILL_LABEL = 1"
definition LOCK_LABEL :: cint where "LOCK_LABEL = 2"
definition NAK_LABEL :: cint where "NAK_LABEL = 3"
definition QUERY_ADJUST_LABEL :: cint where "QUERY_ADJUST_LABEL = 4"
definition QUERY_REP_LABEL :: cint where "QUERY_REP_LABEL = 5"
definition QUERY_LABEL :: cint where "QUERY_LABEL = 6"
definition READ_LABEL :: cint where "READ_LABEL = 7"
definition REQ_RN_LABEL :: cint where "REQ_RN_LABEL = 8"
definition RN16_LABEL :: cint where "RN16_LABEL = 9"
definition SELECT_LABEL :: cint where "SELECT_LABEL = 10"
definition WRITE_LABEL :: cint where "WRITE_LABEL = 11"
definition RN_CRC_LABEL :: cint where "RN_CRC_LABEL = 12"

lemmas label_defs = ACK_LABEL_def KILL_LABEL_def LOCK_LABEL_def NAK_LABEL_def
  QUERY_ADJUST_LABEL_def QUERY_REP_LABEL_def QUERY_LABEL_def READ_LABEL_def REQ_RN_LABEL_def
  RN16_LABEL_def SELECT_LABEL_def WRITE_LABEL_def RN_CRC_LABEL_def

section \<open>Builders\<close>

definition ack_build :: "cint \<Rightarrow> command" where
  [command_defs]: "ack_build rn =
     \<lparr>csize = ACK_SIZE,
      result_data = u64_of_int (push_bit 16 (ACK_COMMAND AND 0b11) OR (rn AND 0xFFFF))\<rparr>"

definition nak_build :: command where
  [command_defs]: "nak_build = \<lparr>csize = NAK_SIZE, result_data = u64_of_int NAK_COMMAND\<rparr>"

definition query_build ::
  "u8 \<Rightarrow> u8 \<Rightarrow> u8 \<Rightarrow> u8 \<Rightarrow> u8 \<Rightarrow> u8 \<Rightarrow> u8 \<Rightarrow> command" where
  [command_defs]: "query_build dr m trext sel session target q =
     (let rd = 0;
          rd = rd OR u64_of_int (push_bit 13 QUERY_COMMAND);
          rd = rd OR u64_of_int (push_bit 12 (int_of_u8 dr));
          rd = rd OR u64_of_int (push_bit 10 (int_of_u8 m));
          rd = rd OR u64_of_int (push_bit 9 (int_of_u8 trext));
          rd = rd OR u64_of_int (push_bit 7 (int_of_u8 sel));
          rd = rd OR u64_of_int (push_bit 5 (int_of_u8 session));
          rd = rd OR u64_of_int (push_bit 4 (int_of_u8 target));
          rd = rd OR u64_of_int (int_of_u8 q);
          crc = int_of_u8 (crc5 (ucast rd));
          rd = push_bit 5 rd;
          rd = rd OR u64_of_int crc
      in \<lparr>csize = QUERY_SIZE, result_data = rd\<rparr>)"

text \<open>
  \<open>query_adjust.c\<close> defines \<open>query_adjust_command\<close>, not the \<open>query_adjust_build\<close> its
  header declares; it is declared \<open>int\<close> and returns nothing.
\<close>

definition query_adjust_command :: "u8 \<Rightarrow> u8 \<Rightarrow> command" where
  [command_defs]: "query_adjust_command session updn =
     (let rd = 0;
          rd = rd OR u64_of_int (push_bit 5 QUERY_ADJUST_COMMAND);
          rd = rd OR u64_of_int (push_bit 3 (int_of_u8 session));
          rd = rd OR u64_of_int (int_of_u8 updn)
      in \<lparr>csize = QUERY_ADJUST_SIZE, result_data = rd\<rparr>)"

definition query_rep_build :: "u8 \<Rightarrow> command" where
  [command_defs]: "query_rep_build session =
     (let rd = 0;
          rd = rd OR u64_of_int (push_bit 2 QUERY_REP_COMMAND);
          rd = rd OR u64_of_int (int_of_u8 session)
      in \<lparr>csize = QUERY_REP_SIZE, result_data = rd\<rparr>)"

definition req_rn_build :: "crc_table \<Rightarrow> cint \<Rightarrow> command option" where
  [command_defs]: "req_rn_build tbl rn =
     (let without_crc = u64_of_int (push_bit 16 (REQ_RN_COMMAND AND 0xFF) OR (rn AND 0xFFFF))
      in do {
        crc \<leftarrow> crc_16_ccitt tbl (ucast without_crc) 3;
        let without_crc = push_bit 16 without_crc;
        Some \<lparr>csize = REQ_RN_SIZE, result_data = without_crc OR u64_of_int (int_of_u16 crc)\<rparr>
      })"

definition rn16_build :: command where
  [command_defs]: "rn16_build = \<lparr>csize = RN16_SIZE, result_data = u64_of_int 0xFD24\<rparr>"

definition rn_crc_build :: "crc_table \<Rightarrow> cint \<Rightarrow> command option" where
  [command_defs]: "rn_crc_build tbl rn =
     do {
       crc \<leftarrow> crc_16_ccitt tbl rn 3;
       Some \<lparr>csize = RN_CRC_SIZE,
             result_data = u64_of_int (push_bit 16 (rn AND 0xFFFF) OR (int_of_u16 crc AND 0xFFFF))\<rparr>
     }"

definition kill_build :: "u16 \<Rightarrow> u8 \<Rightarrow> u16 \<Rightarrow> u16 \<Rightarrow> command option" where
  "kill_build password rfu rn crc =
     (let rd = 0 in do {
        t \<leftarrow> c_shl KILL_COMMAND 51;            let rd = rd OR u64_of_int t;
        t \<leftarrow> c_shl (int_of_u16 password) 35;   let rd = rd OR u64_of_int t;
        t \<leftarrow> c_shl (int_of_u8 rfu) 32;         let rd = rd OR u64_of_int t;
        t \<leftarrow> c_shl (int_of_u16 rn) 16;         let rd = rd OR u64_of_int t;
        let rd = rd OR u64_of_int (int_of_u16 crc);
        Some \<lparr>csize = KILL_SIZE, result_data = rd\<rparr>
      })"

text \<open>\<open>payload << 32\<close> is an \<open>unsigned int\<close>, so it is not sign extended.\<close>

definition lock_build :: "cint \<Rightarrow> u16 \<Rightarrow> u16 \<Rightarrow> command option" where
  "lock_build payload rn crc =
     (let rd = 0 in do {
        t \<leftarrow> c_shl LOCK_COMMAND 52;            let rd = rd OR u64_of_int t;
        t \<leftarrow> c_shl payload 32;                 let rd = rd OR ucast t;
        t \<leftarrow> c_shl (int_of_u16 rn) 16;         let rd = rd OR u64_of_int t;
        let rd = rd OR u64_of_int (int_of_u16 crc);
        Some \<lparr>csize = LOCK_SIZE, result_data = rd\<rparr>
      })"

definition read_build :: "u8 \<Rightarrow> u8 \<Rightarrow> u8 \<Rightarrow> u16 \<Rightarrow> u16 \<Rightarrow> command option" where
  "read_build mem_bank word_ptr word_count rn crc =
     (let rd = 0 in do {
        t \<leftarrow> c_shl READ_COMMAND 49;            let rd = rd OR u64_of_int t;
        t \<leftarrow> c_shl (int_of_u8 mem_bank) 47;    let rd = rd OR u64_of_int t;
        t \<leftarrow> c_shl (int_of_u8 word_ptr) 39;    let rd = rd OR u64_of_int t;
        t \<leftarrow> c_shl (int_of_u8 word_count) 32;  let rd = rd OR u64_of_int t;
        t \<leftarrow> c_shl (int_of_u16 rn) 16;         let rd = rd OR u64_of_int t;
        let rd = rd OR u64_of_int (int_of_u16 crc);
        Some \<lparr>csize = READ_SIZE, result_data = rd\<rparr>
      })"

definition select_build ::
  "u8 \<Rightarrow> u8 \<Rightarrow> u8 \<Rightarrow> u8 \<Rightarrow> u8 \<Rightarrow> u8 \<Rightarrow> u8 \<Rightarrow> u16 \<Rightarrow> command option" where
  "select_build target action mem_bank pointer length' mask' truncate' crc =
     (let rd = 0 in do {
        t \<leftarrow> c_shl SELECT_COMMAND 40;          let rd = rd OR u64_of_int t;
        t \<leftarrow> c_shl (int_of_u8 target) 37;      let rd = rd OR u64_of_int t;
        t \<leftarrow> c_shl (int_of_u8 action) 34;      let rd = rd OR u64_of_int t;
        t \<leftarrow> c_shl (int_of_u8 mem_bank) 32;    let rd = rd OR u64_of_int t;
        t \<leftarrow> c_shl (int_of_u8 pointer) 24;     let rd = rd OR u64_of_int t;
        t \<leftarrow> c_shl (int_of_u8 length') 16;     let rd = rd OR u64_of_int t;
        t \<leftarrow> c_shl (int_of_u8 mask') 2;        let rd = rd OR u64_of_int t;
        t \<leftarrow> c_shl (int_of_u8 truncate') 2;    let rd = rd OR u64_of_int t;
        let rd = rd OR u64_of_int (int_of_u16 crc);
        Some \<lparr>csize = SELECT_SIZE, result_data = rd\<rparr>
      })"

definition write_build :: "u8 \<Rightarrow> u8 \<Rightarrow> u16 \<Rightarrow> u16 \<Rightarrow> u16 \<Rightarrow> command option" where
  "write_build mem_bank word_ptr data rn crc =
     (let rd = 0 in do {
        t \<leftarrow> c_shl WRITE_COMMAND 49;           let rd = rd OR u64_of_int t;
        t \<leftarrow> c_shl (int_of_u8 mem_bank) 47;    let rd = rd OR u64_of_int t;
        t \<leftarrow> c_shl (int_of_u8 word_ptr) 39;    let rd = rd OR u64_of_int t;
        t \<leftarrow> c_shl (int_of_u16 data) 32;       let rd = rd OR u64_of_int t;
        t \<leftarrow> c_shl (int_of_u16 rn) 16;         let rd = rd OR u64_of_int t;
        let rd = rd OR u64_of_int (int_of_u16 crc);
        Some \<lparr>csize = WRITE_SIZE, result_data = rd\<rparr>
      })"

end
