(* ===== verification/Sender.thy ===== *)
theory Sender
  imports Bus Commands
begin

text \<open>
  helpers/functions/sender.c: register accesses of the sender, the splitting of a command
  into packages of 26 data bits and a 6-bit mask value, and \<open>sender_send_command\<close>.
\<close>

section \<open>Register accesses\<close>

definition sender_check_usedw :: "'d bus \<Rightarrow> 'd machine \<Rightarrow> cint \<times> 'd machine" where
  "sender_check_usedw b w =
     (case IORD_32DIRECT b NIOS_RFID_PERIPHERAL_0_BASE (push_bit 2 BASE_SENDER_USEDW) w of
        (v, w) \<Rightarrow> (v AND 0xFF, w))"

definition sender_check_fifo_full :: "'d bus \<Rightarrow> 'd machine \<Rightarrow> cint \<times> 'd machine" where
  "sender_check_fifo_full b w =
     (case IORD_32DIRECT b NIOS_RFID_PERIPHERAL_0_BASE (push_bit 2 BASE_REG_STATUS) w of
        (v, w) \<Rightarrow> (v AND BASE_IS_FIFO_FULL, w))"

definition sender_enable :: "'d bus \<Rightarrow> 'd machine \<Rightarrow> 'd machine" where
  "sender_enable b w =
     IOWR_32DIRECT b NIOS_RFID_PERIPHERAL_0_BASE (push_bit 2 BASE_REG_SET) (MASK_LOOPBACK OR MASK_EN) w"

definition sender_send_package :: "'d bus \<Rightarrow> cint \<Rightarrow> 'd machine \<Rightarrow> 'd machine" where
  "sender_send_package b package w =
     IOWR_32DIRECT b NIOS_RFID_PERIPHERAL_0_BASE (push_bit 2 BASE_REG_FIFO) package w"

definition sender_send_end_of_package :: "'d bus \<Rightarrow> 'd machine \<Rightarrow> 'd machine" where
  "sender_send_end_of_package b w =
     IOWR_32DIRECT b NIOS_RFID_PERIPHERAL_0_BASE (push_bit 2 BASE_REG_FIFO) eop w"

definition sender_start_ctrl :: "'d bus \<Rightarrow> 'd machine \<Rightarrow> 'd machine" where
  "sender_start_ctrl b w =
     (let w = IOWR_32DIRECT b NIOS_RFID_PERIPHERAL_0_BASE (push_bit 2 BASE_REG_SET)
                (MASK_EN OR MASK_LOOPBACK OR MASK_EN_RECEIVER OR SENDER_IS_PREAMBLE
                  OR SENDER_HAS_GEN OR SENDER_ENABLE_CTRL) w
      in IOWR_32DIRECT b NIOS_RFID_PERIPHERAL_0_BASE (push_bit 2 BASE_REG_SET)
           (MASK_EN OR MASK_LOOPBACK OR MASK_EN_RECEIVER OR SENDER_IS_PREAMBLE OR SENDER_HAS_GEN) w)"

definition sender_write_clr_finished_sending :: "'d bus \<Rightarrow> 'd machine \<Rightarrow> 'd machine" where
  "sender_write_clr_finished_sending b w =
     (let w = IOWR_32DIRECT b NIOS_RFID_PERIPHERAL_0_BASE (push_bit 2 BASE_REG_SET)
                (MASK_CLR_FINISHED OR MASK_EN OR MASK_LOOPBACK OR MASK_EN_RECEIVER
                  OR SENDER_IS_PREAMBLE OR SENDER_HAS_GEN) w
      in IOWR_32DIRECT b NIOS_RFID_PERIPHERAL_0_BASE (push_bit 2 BASE_REG_SET)
           (MASK_EN OR MASK_LOOPBACK OR MASK_EN_RECEIVER OR SENDER_IS_PREAMBLE OR SENDER_HAS_GEN) w)"

definition sender_read_finished_send :: "'d bus \<Rightarrow> 'd machine \<Rightarrow> cint \<times> 'd machine" where
  "sender_read_finished_send b w =
     (case IORD_32DIRECT b NIOS_RFID_PERIPHERAL_0_BASE (push_bit 2 BASE_REG_STATUS) w of
        (v, w) \<Rightarrow> (v AND MASK_FINISH_SEND, w))"

definition sender_has_gen :: "'d bus \<Rightarrow> cint \<Rightarrow> 'd machine \<Rightarrow> 'd machine" where
  "sender_has_gen b usesPreorFrameSync w =
     (if usesPreorFrameSync \<noteq> 0 then
        IOWR_32DIRECT b NIOS_RFID_PERIPHERAL_0_BASE (push_bit 2 BASE_REG_SET)
          (MASK_EN OR MASK_EN_RECEIVER OR SENDER_HAS_GEN) w
      else w)"

definition sender_is_preamble :: "'d bus \<Rightarrow> 'd machine \<Rightarrow> 'd machine" where
  "sender_is_preamble b w =
     IOWR_32DIRECT b NIOS_RFID_PERIPHERAL_0_BASE (push_bit 2 BASE_REG_SET)
       (MASK_EN OR MASK_LOOPBACK OR MASK_EN_RECEIVER OR SENDER_IS_PREAMBLE OR SENDER_HAS_GEN) w"

section \<open>Splitting a command into packages\<close>

text \<open>C division rounds towards zero.\<close>

definition sender_get_command_ints_size :: "cint \<Rightarrow> cint" where
  "sender_get_command_ints_size size_of_command = word_of_int (sint size_of_command sdiv 26) + 1"

function sender_add_mask_loop ::
  "nat \<Rightarrow> nat \<Rightarrow> nat \<Rightarrow> cint list \<Rightarrow> u64 \<Rightarrow> (cint list \<times> u64) option" where
  "sender_add_mask_loop current_package quant_packages last_package_size vec rd =
     (if current_package \<le> quant_packages then
        (let quant_bits_this_package =
               (if current_package = quant_packages then last_package_size else 0x1A);
             unmasked_package = (ucast (rd AND ucast bits26) :: cint);
             masked_package = push_bit 6 unmasked_package OR of_nat quant_bits_this_package
         in do {
              vec \<leftarrow> arr_set vec (current_package - 1) masked_package;
              sender_add_mask_loop (Suc current_package) quant_packages last_package_size vec
                (drop_bit quant_bits_this_package rd)
            })
      else Some (vec, rd))"
  by pat_completeness auto
termination by (relation "measure (\<lambda>(c, q, _). Suc q - c)") auto

declare sender_add_mask_loop.simps [simp del]

text \<open>The array of \<open>n\<close> elements the caller passes is \<open>command_vector_masked\<close>;
  \<open>result_data_size\<close> is an \<open>unsigned int\<close>.\<close>

definition sender_add_mask :: "cint list \<Rightarrow> u64 \<Rightarrow> cint \<Rightarrow> (cint list \<times> u64) option" where
  "sender_add_mask command_vector_masked rd result_data_size =
     sender_add_mask_loop 1 (unat result_data_size div data_package_size + 1)
       (unat result_data_size mod data_package_size) command_vector_masked rd"

section \<open>Sending\<close>

partial_function (option) wait_fifo_not_full :: "'d bus \<Rightarrow> 'd machine \<Rightarrow> 'd machine option" where
  "wait_fifo_not_full b w =
     (case sender_check_fifo_full b w of
        (v, w) \<Rightarrow> if v \<noteq> 0 then wait_fifo_not_full b w else Some w)"

partial_function (option) wait_finished_send :: "'d bus \<Rightarrow> 'd machine \<Rightarrow> 'd machine option" where
  "wait_finished_send b w =
     (case sender_read_finished_send b w of
        (v, w) \<Rightarrow> if \<not> v \<noteq> 0 then wait_finished_send b w else Some w)"

fun sender_send_packages :: "'d bus \<Rightarrow> cint list \<Rightarrow> 'd machine \<Rightarrow> 'd machine option" where
  "sender_send_packages b [] w = Some w"
| "sender_send_packages b (package # packages) w = do {
     w \<leftarrow> wait_fifo_not_full b w;
     sender_send_packages b packages (sender_send_package b package w)
   }"

text \<open>
  The variable length array has \<open>size_with_mask\<close> elements of unspecified content
  (\<open>stack\<close>); a length that is not positive is undefined.
\<close>

definition sender_send_command ::
  "'d bus \<Rightarrow> (nat \<Rightarrow> cint) \<Rightarrow> command \<Rightarrow> 'd machine \<Rightarrow> 'd machine outcome" where
  "sender_send_command b stack c w =
     (let rd = result_data c;
          command_size = csize c;
          size_with_mask = sender_get_command_ints_size command_size
      in if sint size_with_mask \<le> 0 then undefined_run
         else
           (let command_vector = map stack [0..<nat (sint size_with_mask)] in
            and_then (defined_or_trap (sender_add_mask command_vector rd command_size)) (\<lambda>(vec, rd).
            case sender_send_packages b vec w of
              None \<Rightarrow> None
            | Some w \<Rightarrow>
                (let w = sender_send_end_of_package b w;
                     w = sender_start_ctrl b w
                 in case wait_finished_send b w of
                      None \<Rightarrow> None
                    | Some w \<Rightarrow> returns (sender_write_clr_finished_sending b w)))))"

end
