(* ===== verification/Validate.thy ===== *)
theory Validate
  imports Commands
begin

text \<open>
  The validators of helpers/commands and \<open>rfid_check_command\<close>, \<open>rfid_create_mask_from_value\<close>
  of helpers/functions/rfid.c.
\<close>

section \<open>Validators\<close>

definition ack_validate :: "cint list \<Rightarrow> cint \<Rightarrow> bool option" where
  [validate_defs]: "ack_validate packages command_size =
     (if command_size \<noteq> ACK_SIZE \<and> command_size \<noteq> ACK_SIZE + 1 then Some False
      else do {
        p0 \<leftarrow> arr_get packages 0;
        let command = c_sar p0 16 AND 0b11;
        if command \<noteq> ACK_COMMAND then Some False else Some True
      })"

definition kill_validate :: "cint list \<Rightarrow> cint \<Rightarrow> bool option" where
  [validate_defs]: "kill_validate packages command_size =
     (if command_size \<noteq> KILL_SIZE \<and> command_size \<noteq> KILL_SIZE + 1 then Some False
      else do {
        p2 \<leftarrow> arr_get packages 2;
        p1 \<leftarrow> arr_get packages 1;
        let command = push_bit 1 (p2 AND 0xEF) OR (c_sar p1 25 AND 0x01);
        if command \<noteq> KILL_COMMAND then Some False
        else do {
          p0 \<leftarrow> arr_get packages 0;
          let crc = p0 AND 0xFFFF;
          Some True
        }
      })"

definition lock_validate :: "cint list \<Rightarrow> cint \<Rightarrow> bool option" where
  [validate_defs]: "lock_validate packages_vector command_size = Some False"

definition nak_validate :: "cint list \<Rightarrow> cint \<Rightarrow> bool option" where
  [validate_defs]: "nak_validate packages command_size =
     (if command_size \<noteq> NAK_SIZE \<and> command_size \<noteq> NAK_SIZE + 1 then Some False
      else do {
        p0 \<leftarrow> arr_get packages 0;
        let command = p0 AND 0xFF;
        if command \<noteq> NAK_COMMAND then Some False else Some True
      })"

definition query_validate :: "cint list \<Rightarrow> cint \<Rightarrow> bool option" where
  [validate_defs]: "query_validate packages command_size =
     (if command_size \<noteq> QUERY_SIZE \<and> command_size \<noteq> QUERY_SIZE + 1 then Some False
      else do {
        p0 \<leftarrow> arr_get packages 0;
        let command = c_sar p0 18 AND 0xF;
        if command \<noteq> QUERY_COMMAND then Some False
        else
          (let crc = p0 AND 0x1F;
               without_crc = c_sar p0 5;
               crc_calculated = int_of_u8 (crc5 (ucast without_crc))
           in if crc \<noteq> crc_calculated then Some False else Some True)
      })"

definition query_adjust_validate :: "cint list \<Rightarrow> cint \<Rightarrow> bool option" where
  [validate_defs]: "query_adjust_validate packages command_size =
     (if command_size \<noteq> QUERY_ADJUST_SIZE \<and> command_size \<noteq> QUERY_ADJUST_SIZE + 1 then Some False
      else do {
        p0 \<leftarrow> arr_get packages 0;
        let command = c_sar p0 5 AND 0xF;
        if command \<noteq> QUERY_ADJUST_COMMAND then Some False else Some True
      })"

definition query_rep_validate :: "cint list \<Rightarrow> cint \<Rightarrow> bool option" where
  [validate_defs]: "query_rep_validate packages command_size =
     (if command_size \<noteq> QUERY_REP_SIZE \<and> command_size \<noteq> QUERY_REP_SIZE + 1 then Some False
      else do {
        p0 \<leftarrow> arr_get packages 0;
        let command = c_sar p0 2 AND 0x3;
        if command \<noteq> QUERY_REP_COMMAND then Some False else Some True
      })"

definition read_validate :: "cint list \<Rightarrow> cint \<Rightarrow> bool option" where
  [validate_defs]: "read_validate packages command_size =
     (if command_size \<noteq> READ_SIZE \<and> command_size \<noteq> READ_SIZE + 1 then Some False
      else do {
        p2 \<leftarrow> arr_get packages 2;
        p1 \<leftarrow> arr_get packages 1;
        let command = push_bit 5 (p2 AND 0b111) OR (p1 AND 0x1F);
        if command \<noteq> READ_COMMAND then Some False else Some True
      })"

definition req_rn_validate :: "crc_table \<Rightarrow> cint list \<Rightarrow> cint \<Rightarrow> bool option" where
  [validate_defs]: "req_rn_validate tbl packages command_size =
     (if command_size \<noteq> REQ_RN_SIZE \<and> command_size \<noteq> REQ_RN_SIZE + 1 then Some False
      else do {
        p1 \<leftarrow> arr_get packages 1;
        let command = c_sar p1 6 AND 0xFF;
        if command \<noteq> REQ_RN_COMMAND then Some False
        else do {
          p0 \<leftarrow> arr_get packages 0;
          let rn = c_sar p0 16 AND 0xFFFF;
          let without_crc = push_bit 16 command OR (rn AND 0xFFFF);
          let crc = p0 AND 0xFFFF;
          crc_calc \<leftarrow> crc_16_ccitt tbl without_crc 3;
          if crc \<noteq> int_of_u16 crc_calc then Some False else Some True
        }
      })"

definition rn16_validate :: "cint \<Rightarrow> bool option" where
  [validate_defs]: "rn16_validate command_size =
     (if command_size \<noteq> RN16_SIZE \<and> command_size \<noteq> RN16_SIZE + 1 then Some False else Some True)"

definition rn_crc_validate :: "crc_table \<Rightarrow> cint list \<Rightarrow> cint \<Rightarrow> bool option" where
  [validate_defs]: "rn_crc_validate tbl packages command_size =
     (if command_size \<noteq> RN_CRC_SIZE \<and> command_size \<noteq> RN_CRC_SIZE + 1 then Some False
      else do {
        p1 \<leftarrow> arr_get packages 1;
        p0 \<leftarrow> arr_get packages 0;
        let rn = push_bit 10 (p1 AND 0x3F) OR (c_sar p0 16 AND 0x3FF);
        let crc = p0 AND 0xFFFF;
        crc_calc \<leftarrow> crc_16_ccitt tbl rn 3;
        if crc \<noteq> int_of_u16 crc_calc then Some False else Some True
      })"

text \<open>\<open>command_size\<close> is a signed \<open>int\<close>.\<close>

definition select_validate :: "cint list \<Rightarrow> cint \<Rightarrow> bool option" where
  [validate_defs]: "select_validate packages command_size =
     (if sint command_size < sint SELECT_SIZE then Some False else Some False)"

definition write_validate :: "cint list \<Rightarrow> cint \<Rightarrow> bool option" where
  [validate_defs]: "write_validate packages command_size =
     (if command_size \<noteq> WRITE_SIZE \<and> command_size \<noteq> WRITE_SIZE + 1 then Some False
      else do {
        p2 \<leftarrow> arr_get packages 2;
        let command = c_sar p2 2 AND 0xFF;
        if command \<noteq> WRITE_COMMAND then Some False else Some True
      })"

section \<open>rfid.c: the classifier and the mask\<close>

definition rfid_check_command :: "crc_table \<Rightarrow> cint list \<Rightarrow> cint \<Rightarrow> cint option" where
  "rfid_check_command tbl packages command_size = do {
     v \<leftarrow> ack_validate packages command_size;
     if v then Some ACK_LABEL else do {
     v \<leftarrow> nak_validate packages command_size;
     if v then Some NAK_LABEL else do {
     v \<leftarrow> query_validate packages command_size;
     if v then Some QUERY_LABEL else do {
     v \<leftarrow> req_rn_validate tbl packages command_size;
     if v then Some REQ_RN_LABEL else do {
     v \<leftarrow> rn_crc_validate tbl packages command_size;
     if v then Some RN_CRC_LABEL else do {
     v \<leftarrow> kill_validate packages command_size;
     if v then Some KILL_LABEL else do {
     v \<leftarrow> lock_validate packages command_size;
     if v then Some LOCK_LABEL else do {
     v \<leftarrow> query_adjust_validate packages command_size;
     if v then Some QUERY_ADJUST_LABEL else do {
     v \<leftarrow> query_rep_validate packages command_size;
     if v then Some QUERY_REP_LABEL else do {
     v \<leftarrow> read_validate packages command_size;
     if v then Some READ_LABEL else do {
     v \<leftarrow> select_validate packages command_size;
     if v then Some SELECT_LABEL else do {
     v \<leftarrow> write_validate packages command_size;
     if v then Some WRITE_LABEL else do {
     v \<leftarrow> rn16_validate command_size;
     if v then Some RN16_LABEL else Some (- 1)
     }}}}}}}}}}}}}"

fun rfid_create_mask_loop :: "nat \<Rightarrow> cint \<Rightarrow> cint" where
  "rfid_create_mask_loop 0 msk = msk"
| "rfid_create_mask_loop (Suc n) msk =
     (let msk = push_bit 1 msk;
          msk = msk OR 1
      in rfid_create_mask_loop n msk)"

definition rfid_create_mask_from_value :: "cint \<Rightarrow> cint" where
  "rfid_create_mask_from_value value = rfid_create_mask_loop (nat (sint value)) 0"

section \<open>The mask\<close>

lemma rfid_create_mask_loop_mask:
  "rfid_create_mask_loop n (mask k) = (mask (k + n) :: cint)"
proof (induction n arbitrary: k)
  case (Suc n)
  have "push_bit 1 (mask k) OR 1 = (mask (Suc k) :: cint)"
    by (rule word_eqI_bits) (auto simp: bit_simps bit_1_iff less_Suc_eq_0_disj)
  with Suc[of "Suc k"] show ?case by (simp add: Let_def)
qed simp

lemma rfid_create_mask_from_value_mask:
  "rfid_create_mask_from_value v = mask (nat (sint v))"
  using rfid_create_mask_loop_mask[of "nat (sint v)" 0]
  by (simp add: rfid_create_mask_from_value_def)

end
