(* ===== verification/Receiver.thy ===== *)
theory Receiver
  imports Bus Validate
begin

text \<open>
  helpers/functions/receiver.c: register accesses of the receiver and \<open>receiver_get_package\<close>,
  which collects the data of packages until a package without data.
\<close>

section \<open>Register accesses\<close>

definition receiver_enable :: "'d bus \<Rightarrow> 'd machine \<Rightarrow> 'd machine" where
  "receiver_enable b w =
     IOWR_32DIRECT b NIOS_RFID_PERIPHERAL_0_BASE (push_bit 2 BASE_REG_SET)
       (MASK_EN OR MASK_LOOPBACK OR MASK_EN_RECEIVER) w"

definition receiver_check_usedw :: "'d bus \<Rightarrow> 'd machine \<Rightarrow> cint \<times> 'd machine" where
  "receiver_check_usedw b w =
     (case IORD_32DIRECT b NIOS_RFID_PERIPHERAL_0_BASE (push_bit 2 BASE_RECEIVER_USEDW) w of
        (v, w) \<Rightarrow> (v AND 0xFF, w))"

definition receiver_request_package :: "'d bus \<Rightarrow> 'd machine \<Rightarrow> cint \<times> 'd machine" where
  "receiver_request_package b w =
     IORD_32DIRECT b NIOS_RFID_PERIPHERAL_0_BASE (push_bit 2 BASE_RECEIVER_DATA) w"

definition receiver_empty :: "'d bus \<Rightarrow> 'd machine \<Rightarrow> cint \<times> 'd machine" where
  "receiver_empty b w =
     (case IORD_32DIRECT b NIOS_RFID_PERIPHERAL_0_BASE (push_bit 2 BASE_REG_STATUS) w of
        (v, w) \<Rightarrow> let is_empty = v AND MASK_EMPTY_RECEIVER in (c_sar is_empty 13, w))"

definition receiver_rdreq :: "'d bus \<Rightarrow> 'd machine \<Rightarrow> 'd machine" where
  "receiver_rdreq b w =
     (let w = IOWR_32DIRECT b NIOS_RFID_PERIPHERAL_0_BASE (push_bit 2 BASE_REG_SET)
                (MASK_READ_REQ OR MASK_EN OR MASK_LOOPBACK OR MASK_EN_RECEIVER
                  OR SENDER_IS_PREAMBLE OR SENDER_HAS_GEN) w
      in IOWR_32DIRECT b NIOS_RFID_PERIPHERAL_0_BASE (push_bit 2 BASE_REG_SET)
           (MASK_EN OR MASK_LOOPBACK OR MASK_EN_RECEIVER OR SENDER_IS_PREAMBLE OR SENDER_HAS_GEN) w)"

section \<open>Receiving\<close>

partial_function (option) wait_receiver_not_empty ::
  "'d bus \<Rightarrow> 'd machine \<Rightarrow> 'd machine option" where
  "wait_receiver_not_empty b w =
     (case receiver_empty b w of
        (v, w) \<Rightarrow> if v \<noteq> 0 then wait_receiver_not_empty b w else Some w)"

text \<open>What one turn of the loop takes out of a package: its mask value and its data.\<close>

definition package_mask_value :: "cint \<Rightarrow> cint" where
  "package_mask_value package = package AND bits6"

definition package_data :: "cint \<Rightarrow> cint" where
  "package_data package =
     (let mask_value = package_mask_value package;
          msk = rfid_create_mask_from_value mask_value;
          data = c_sar package 6
      in data AND msk)"

definition msg_too_big :: string where
  "msg_too_big = ''receiver_get_package: package size is bigger than expected\<newline>''"

definition msg_eop :: string where
  "msg_eop = ''receiver_get_package: received EOP\<newline>''"

partial_function (option) receiver_loop ::
  "'d bus \<Rightarrow> cint \<Rightarrow> cint \<Rightarrow> nat \<Rightarrow> cint list \<Rightarrow> cint \<Rightarrow> 'd machine \<Rightarrow>
   (cint \<times> cint list \<times> cint \<times> 'd machine) outcome" where
  "receiver_loop b quant_packages package i command_vector command_size w =
     (if package \<noteq> 0 then
        (case wait_receiver_not_empty b w of
           None \<Rightarrow> None
         | Some w \<Rightarrow>
             (case receiver_request_package b w of (package, w) \<Rightarrow>
              (let w = receiver_rdreq b w;
                   data = package_data package
               in if data \<noteq> 0 then
                    (case arr_set command_vector i data of
                       None \<Rightarrow> undefined_run
                     | Some command_vector \<Rightarrow>
                         (let command_size = command_size + package_mask_value package;
                              i = Suc i
                          in if sint quant_packages < int i
                             then returns (- 1, command_vector, command_size, c_printf msg_too_big [] w)
                             else receiver_loop b quant_packages package i command_vector command_size w))
                  else returns (0, command_vector, command_size, c_printf msg_eop [] w))))
      else returns (0, command_vector, command_size, w))"

text \<open>
  The result is the returned value, the array after the call, \<open>*command_size\<close> and
  the machine.
\<close>

definition receiver_get_package ::
  "'d bus \<Rightarrow> cint list \<Rightarrow> cint \<Rightarrow> 'd machine \<Rightarrow>
   (cint \<times> cint list \<times> cint \<times> 'd machine) outcome" where
  "receiver_get_package b command_vector quant_packages w =
     receiver_loop b quant_packages 1 0 command_vector 0 w"

end
