(* ===== verification/Packages.thy ===== *)
theory Packages
  imports Sender Receiver
begin

text \<open>
  What a package carries, independent of the loops that build and read it: the word
  \<open>package_of n rd k\<close> that the sender writes for the \<open>k\<close>-th package of a command of
  \<open>n\<close> bits, and the data \<open>chunk n rd k\<close> a receiver must get out of it.
\<close>

definition n_packages :: "nat \<Rightarrow> nat" where
  "n_packages n = n div 26 + 1"

definition nbits :: "nat \<Rightarrow> nat \<Rightarrow> nat" where
  "nbits n k = min 26 (n - 26 * k)"

definition package_of :: "nat \<Rightarrow> u64 \<Rightarrow> nat \<Rightarrow> cint" where
  "package_of n rd k = push_bit 6 (ucast (take_bit 26 (drop_bit (26 * k) rd))) OR of_nat (nbits n k)"

definition chunk :: "nat \<Rightarrow> u64 \<Rightarrow> nat \<Rightarrow> cint" where
  "chunk n rd k = ucast (take_bit (nbits n k) (drop_bit (26 * k) rd))"

definition chunks :: "nat \<Rightarrow> u64 \<Rightarrow> cint list" where
  "chunks n rd = map (chunk n rd) [0..<n_packages n]"

definition packages_of :: "nat \<Rightarrow> u64 \<Rightarrow> cint list" where
  "packages_of n rd = map (package_of n rd) [0..<n_packages n]"

lemma length_chunks [simp]: "length (chunks n rd) = n_packages n"
  by (simp add: chunks_def)

lemma length_packages_of [simp]: "length (packages_of n rd) = n_packages n"
  by (simp add: packages_of_def)

lemma n_packages_pos: "n_packages n \<noteq> 0"
  by (simp add: n_packages_def)

lemma nbits_bound: "nbits n k \<le> 26"
  by (simp add: nbits_def)

lemma nbits_last: "n div 26 = k \<Longrightarrow> nbits n k = n mod 26"
  by (auto simp: nbits_def minus_mult_div_eq_mod min_def)

lemma nbits_full: "k < n div 26 \<Longrightarrow> nbits n k = 26"
  unfolding nbits_def by (rule min_absorb1) (use div_times_less_eq_dividend[of n 26] in simp)

section \<open>The splitting loop computes the packages\<close>

lemma and_bits26: "rd AND ucast bits26 = take_bit 26 rd" for rd :: u64
  by (simp add: bits26_def and_masks)

lemma sender_add_mask_loop_packages:
  assumes "length vec = n_packages n" and "1 \<le> c" and "c \<le> Suc (n_packages n)"
  shows "sender_add_mask_loop c (n_packages n) (n mod 26) vec (drop_bit (min n (26 * (c - 1))) rd) =
     Some (take (c - 1) vec @ map (package_of n rd) [c - 1..<n_packages n], drop_bit n rd)"
  using assms
proof (induction "Suc (n_packages n) - c" arbitrary: c vec)
  case 0
  then have c: "c = Suc (n_packages n)" by simp
  have "n \<le> 26 * n_packages n"
    using div_mult_mod_eq[of n 26] mod_less_divisor[of 26 n] by (simp add: n_packages_def)
  with 0 c show ?case
    by (subst sender_add_mask_loop.simps) (simp add: min_absorb1)
next
  case (Suc x)
  then have c: "c \<le> n_packages n" by simp
  let ?k = "c - 1"
  have k: "?k \<le> n div 26" and ck: "c = Suc ?k" using c Suc.prems by (simp_all add: n_packages_def)
  have le: "26 * ?k \<le> n"
    using k div_times_less_eq_dividend[of n 26] by (metis le_trans mult.commute mult_le_mono1)
  have nb: "(if c = n_packages n then n mod 26 else 26) = nbits n ?k"
  proof (cases "c = n_packages n")
    case True
    then show ?thesis by (simp add: n_packages_def nbits_last)
  next
    case False
    then have "?k < n div 26" using c Suc.prems(2) by (simp add: n_packages_def)
    with False show ?thesis by (simp add: nbits_full)
  qed
  have pk: "push_bit 6 (ucast (drop_bit (min n (26 * ?k)) rd AND ucast bits26)) OR
      of_nat (nbits n ?k) = package_of n rd ?k"
    using le by (simp add: and_bits26 package_of_def min_absorb2)
  have step: "nbits n ?k + min n (26 * ?k) = min n (26 * c)"
    using le ck unfolding nbits_def by (cases "n \<le> 26 * c") auto
  have "sender_add_mask_loop (Suc c) (n_packages n) (n mod 26) (vec[?k := package_of n rd ?k])
      (drop_bit (min n (26 * (Suc c - 1))) rd) =
    Some (take (Suc c - 1) (vec[?k := package_of n rd ?k]) @
      map (package_of n rd) [Suc c - 1..<n_packages n], drop_bit n rd)"
    using Suc.hyps(2) Suc.prems c by (intro Suc.hyps(1)) auto
  moreover have "take c (vec[?k := package_of n rd ?k]) = take ?k vec @ [package_of n rd ?k]"
    using Suc.prems(1) c ck by (metis Suc_le_lessD length_list_update nth_list_update_eq
        take_Suc_conv_app_nth take_update_cancel order_refl)
  moreover have "[?k..<n_packages n] = ?k # [c..<n_packages n]"
    using c ck by (metis Suc_le_lessD upt_conv_Cons)
  ultimately show ?case
    using c Suc.prems(1) ck
    by (subst sender_add_mask_loop.simps)
       (simp add: Let_def nb pk[unfolded One_nat_def] step[unfolded One_nat_def])
qed

lemma sender_add_mask_packages:
  assumes "length vec = n_packages n" and "n < 2 ^ 31"
  shows "sender_add_mask vec rd (of_nat n) = Some (packages_of n rd, drop_bit n rd)"
proof -
  have "unat (of_nat n :: cint) = n"
    using assms(2) of_nat_eq_iff_unat[of n "of_nat n :: cint"] by simp
  then show ?thesis
    using sender_add_mask_loop_packages[of vec n 1 rd] assms(1)
    by (simp add: sender_add_mask_def data_package_size_def packages_of_def n_packages_def)
qed

lemma sender_get_command_ints_size_nat:
  assumes "n < 2 ^ 31"
  shows "sint (sender_get_command_ints_size (of_nat n)) = int (n_packages n)"
proof -
  have s: "sint (of_nat n :: cint) = int n"
    using assms by (simp add: signed_of_nat signed_take_bit_int_eq_self)
  have "int n sdiv 26 = int (n div 26)"
    by (simp add: signed_divide_int_def sgn_if zdiv_int)
  then have "sender_get_command_ints_size (of_nat n) = (of_nat (n_packages n) :: cint)"
    unfolding sender_get_command_ints_size_def s by (simp add: n_packages_def)
  moreover have "n_packages n < 2 ^ 31"
    using assms by (simp add: n_packages_def)
  ultimately show ?thesis
    by (simp add: signed_of_nat signed_take_bit_int_eq_self)
qed


section \<open>What a receiver gets out of a package\<close>

lemma bit_of_nat_low:
  assumes "m < 2 ^ j" and "j \<le> k"
  shows "\<not> bit (of_nat m :: 'a::len word) k"
proof -
  have "\<not> bit m k"
  proof -
    have "m < 2 ^ k" using assms by (meson le_less_trans less_le_trans one_le_numeral power_increasing)
    then show ?thesis by (simp add: bit_iff_odd)
  qed
  then show ?thesis by (simp add: bit_of_nat_iff)
qed

lemma package_mask_value_build:
  assumes "m < 64"
  shows "package_mask_value (push_bit 6 x OR of_nat m) = of_nat m"
proof (rule word_eqI_bits)
  fix k assume "k < LENGTH(32)"
  show "bit (package_mask_value (push_bit 6 x OR of_nat m)) k = bit (of_nat m :: cint) k"
    using bit_of_nat_low[of m 6 k, where 'a = 32] assms
    unfolding package_mask_value_def bits6_def and_masks
    by (auto simp: bit_take_bit_iff bit_or_iff bit_push_bit_iff)
qed

lemma package_data_build:
  assumes "m \<le> 26"
  shows "package_data (push_bit 6 x OR of_nat m) = take_bit m x"
proof (rule word_eqI_bits)
  fix k assume k: "k < LENGTH(32)"
  have low: "\<not> bit (of_nat m :: cint) (k + 6)"
    using bit_of_nat_low[of m 6 "k + 6", where 'a = 32] assms by simp
  show "bit (package_data (push_bit 6 x OR of_nat m)) k = bit (take_bit m x) k"
    unfolding package_data_def Let_def
    using assms k low
    by (simp add: package_mask_value_build rfid_create_mask_from_value_mask sint_of_nat_small
        bit_and_iff bit_mask_iff bit_take_bit_iff c_sar_def bit_signed_drop_bit_iff bit_or_iff
        bit_push_bit_iff add.commute) auto
qed

lemma package_mask_value_package_of:
  "package_mask_value (package_of n rd k) = of_nat (nbits n k)"
  unfolding package_of_def
  by (rule package_mask_value_build) (use nbits_bound[of n k] in linarith)

lemma package_data_package_of: "package_data (package_of n rd k) = chunk n rd k"
proof -
  have "take_bit (nbits n k) (ucast (take_bit 26 (drop_bit (26 * k) rd))) = chunk n rd k"
    using nbits_bound[of n k] unfolding chunk_def
    by (intro word_eqI_bits) (auto simp: bit_take_bit_iff bit_ucast_iff)
  then show ?thesis
    unfolding package_of_def by (simp add: package_data_build nbits_bound)
qed


text \<open>No package of a command is the end-of-package word 0.\<close>

lemma package_of_nonzero:
  assumes "n mod 26 \<noteq> 0" and "k < n_packages n"
  shows "package_of n rd k \<noteq> 0"
proof
  assume "package_of n rd k = 0"
  then have "package_mask_value 0 = of_nat (nbits n k)"
    using package_mask_value_package_of[of n rd k] by simp
  then have "(of_nat (nbits n k) :: cint) = 0" by (simp add: package_mask_value_def)
  then have "nbits n k = 0"
    using of_nat_eq_iff_unat[of "nbits n k" "0 :: cint"] nbits_bound[of n k] by simp
  moreover have "nbits n k \<noteq> 0"
  proof (cases "k = n div 26")
    case True
    then show ?thesis using assms(1) nbits_last[of n k] by simp
  next
    case False
    then show ?thesis using assms(2) nbits_full[of k n] by (simp add: n_packages_def)
  qed
  ultimately show False by simp
qed

lemma packages_of_nonzero: "n mod 26 \<noteq> 0 \<Longrightarrow> 0 \<notin> set (packages_of n rd)"
  by (auto simp: packages_of_def package_of_nonzero)

lemma packages_of_nonempty: "packages_of n rd \<noteq> []"
  by (simp add: packages_of_def n_packages_def)

section \<open>Splitting and reading back\<close>

lemma bit_chunks:
  assumes "i < n"
  shows "bit (chunks n rd ! (i div 26)) (i mod 26) = bit rd i"
proof -
  let ?k = "i div 26"
  have k: "?k < n_packages n" using assms by (simp add: n_packages_def div_le_mono le_imp_less_Suc)
  have i: "26 * ?k + i mod 26 = i" by simp
  have "i mod 26 < n - 26 * ?k" using i assms by linarith
  then have "i mod 26 < nbits n ?k" by (simp add: nbits_def)
  then show ?thesis
    using k i nbits_bound[of n ?k]
    by (simp add: chunks_def chunk_def bit_ucast_iff bit_take_bit_iff bit_drop_bit_eq)
qed

text \<open>C4. \<open>sender_add_mask\<close> fills the array with packages from which the receiver's data and
  mask values give the bits of the command back, in order.\<close>

theorem sender_add_mask_roundtrip:
  assumes "length vec = n_packages n" and "n < 2 ^ 31"
  shows "\<exists>ps. sender_add_mask vec rd (of_nat n) = Some (ps, drop_bit n rd) \<and>
    map package_mask_value ps = map (\<lambda>k. of_nat (nbits n k)) [0..<n_packages n] \<and>
    (\<forall>i < n. bit (package_data (ps ! (i div 26))) (i mod 26) = bit rd i)"
proof (intro exI conjI)
  show "sender_add_mask vec rd (of_nat n) = Some (packages_of n rd, drop_bit n rd)"
    using assms by (rule sender_add_mask_packages)
  show "map package_mask_value (packages_of n rd) = map (\<lambda>k. of_nat (nbits n k)) [0..<n_packages n]"
    by (simp add: packages_of_def package_mask_value_package_of)
  have "package_data (packages_of n rd ! (i div 26)) = chunks n rd ! (i div 26)" if "i < n" for i
  proof -
    have "i div 26 < n_packages n" using that by (simp add: n_packages_def div_le_mono le_imp_less_Suc)
    then show ?thesis by (simp add: packages_of_def chunks_def package_data_package_of)
  qed
  then show "\<forall>i < n. bit (package_data (packages_of n rd ! (i div 26))) (i mod 26) = bit rd i"
    by (simp add: bit_chunks)
qed

lemma sender_add_mask_roundtrip_witness:
  "\<exists>ps. sender_add_mask [7, 7] 0xFD241234 32 = Some (ps, 0) \<and>
     map package_mask_value ps = [26, 6] \<and>
     (\<forall>i < 32. bit (package_data (ps ! (i div 26))) (i mod 26) = bit (0xFD241234 :: u64) i)"
proof -
  have "n_packages 32 = 2" "nbits 32 0 = 26" "nbits 32 1 = 6" "drop_bit 32 (0xFD241234 :: u64) = 0"
    by (simp_all add: n_packages_def nbits_def)
  moreover have "[0..<2] = [0, 1]" by (simp add: upt_rec)
  ultimately show ?thesis
    using sender_add_mask_roundtrip[of "[7, 7]" 32 "0xFD241234"] by simp
qed

text \<open>A command whose size is a multiple of 26 gets one package more than it has bits for, and
  that package is the end-of-package word.\<close>

theorem sender_add_mask_void_package:
  assumes "n mod 26 = 0" and "drop_bit n rd = 0" and "length vec = n_packages n" and "n < 2 ^ 31"
  shows "\<exists>ps. sender_add_mask vec rd (of_nat n) = Some (ps @ [eop], 0) \<and> length ps = n div 26"
proof -
  let ?q = "n div 26"
  have q: "26 * ?q = n" using assms(1) by auto
  have "nbits n ?q = 0" using q by (simp add: nbits_def)
  then have "package_of n rd ?q = eop"
    using q assms(2) by (simp add: package_of_def eop_def)
  then have "packages_of n rd = map (package_of n rd) [0..<?q] @ [eop]"
    by (simp add: packages_of_def n_packages_def)
  then show ?thesis
    using sender_add_mask_packages[OF assms(3,4), of rd] assms(2) by simp
qed

lemma sender_add_mask_void_package_witness:
  "\<exists>ps. sender_add_mask [7, 7, 7] 0xFFFFFFFFFFFFF 52 = Some (ps @ [eop], 0) \<and> length ps = 2"
  using sender_add_mask_void_package[of 52 "0xFFFFFFFFFFFFF" "[7, 7, 7]"]
  by (simp add: n_packages_def)

text \<open>The mask of the receiver has as many ones as its argument says, none for a negative
  argument.\<close>

theorem rfid_create_mask_exact:
  "rfid_create_mask_from_value v = (if 0 < sint v then mask (nat (sint v)) else 0)"
  by (simp add: rfid_create_mask_from_value_mask)

end
