(* ===== verification/Rfid.thy ===== *)
theory Rfid
  imports Bus Validate
begin

text \<open>
  The register accesses of helpers/functions/rfid.c.  (\<open>rfid_create_mask_from_value\<close> and
  \<open>rfid_check_command\<close> of the same file are in Validate, next to the validators.)
\<close>

definition rfid_set_loopback :: "'d bus \<Rightarrow> 'd machine \<Rightarrow> 'd machine" where
  "rfid_set_loopback b w =
     IOWR_32DIRECT b NIOS_RFID_PERIPHERAL_0_BASE (push_bit 2 BASE_REG_SET) MASK_LOOPBACK w"

definition rfid_set_tari :: "'d bus \<Rightarrow> cint \<Rightarrow> 'd machine \<Rightarrow> 'd machine" where
  "rfid_set_tari b tari_value w =
     IOWR_32DIRECT b NIOS_RFID_PERIPHERAL_0_BASE (push_bit 2 BASE_REG_TARI) tari_value w"

definition rfid_set_tari_boundaries ::
  "'d bus \<Rightarrow> cint \<Rightarrow> cint \<Rightarrow> cint \<Rightarrow> cint \<Rightarrow> cint \<Rightarrow> cint \<Rightarrow> cint \<Rightarrow> cint \<Rightarrow>
   'd machine \<Rightarrow> 'd machine" where
  "rfid_set_tari_boundaries b tari_101 tari_099 tari_1616 tari_1584 pw delimiter RTcal TRcal w =
     (let base = NIOS_RFID_PERIPHERAL_0_BASE;
          w = IOWR_32DIRECT b base (push_bit 2 BASE_REG_TARI_101) tari_101 w;
          w = IOWR_32DIRECT b base (push_bit 2 BASE_REG_TARI_099) tari_099 w;
          w = IOWR_32DIRECT b base (push_bit 2 BASE_REG_TARI_1616) tari_1616 w;
          w = IOWR_32DIRECT b base (push_bit 2 BASE_REG_TARI_1584) tari_1584 w;
          w = IOWR_32DIRECT b base (push_bit 2 BASE_REG_PW) pw w;
          w = IOWR_32DIRECT b base (push_bit 2 BASE_REG_DELIMITER) delimiter w;
          w = IOWR_32DIRECT b base (push_bit 2 BASE_REG_RTCAL) RTcal w
      in IOWR_32DIRECT b base (push_bit 2 BASE_REG_TRCAL) TRcal w)"

definition rfid_get_ip_id :: "'d bus \<Rightarrow> 'd machine \<Rightarrow> cint \<times> 'd machine" where
  "rfid_get_ip_id b w =
     IORD_32DIRECT b NIOS_RFID_PERIPHERAL_0_BASE (push_bit 2 BASE_ID) w"

end
