(* ===== verification/Link.thy ===== *)
theory Link
  imports Packages Rfid
begin

text \<open>
  The interface between the firmware and the peripheral, as a locale: what
  sender.c and receiver.c rely on when they poll, write and read the registers.  \<open>txq\<close> are
  the words written to the sender FIFO and not yet started, \<open>arrivals\<close> the words the
  receiver FIFO holds or will hold once the transmission under way has ended, \<open>link ps\<close>
  what arrives after the packages \<open>ps\<close> and an end of package were started, and
  \<open>delay\<close> how long the peripheral can still keep a polling loop waiting.  The lemmas of
  the locale say what sending a command and receiving one do on any such peripheral.
\<close>

section \<open>The register accesses, evaluated\<close>

lemma sender_check_fifo_full_eq:
  "sender_check_fifo_full b w =
     (case ldwio b (dev w) 0x4100C of (v, d) \<Rightarrow> (v AND 1, w\<lparr>dev := d\<rparr>))"
  by (simp add: sender_check_fifo_full_def IORD_eq config_defs case_prod_beta)

lemma sender_read_finished_send_eq:
  "sender_read_finished_send b w =
     (case ldwio b (dev w) 0x4100C of (v, d) \<Rightarrow> (v AND 8, w\<lparr>dev := d\<rparr>))"
  by (simp add: sender_read_finished_send_def IORD_eq config_defs case_prod_beta)

lemma receiver_empty_eq:
  "receiver_empty b w =
     (case ldwio b (dev w) 0x4100C of (v, d) \<Rightarrow> (c_sar (v AND 0x2000) 13, w\<lparr>dev := d\<rparr>))"
  by (simp add: receiver_empty_def IORD_eq config_defs case_prod_beta)

lemma receiver_request_package_eq:
  "receiver_request_package b w =
     (case ldwio b (dev w) 0x41010 of (v, d) \<Rightarrow> (v, w\<lparr>dev := d\<rparr>))"
  by (simp add: receiver_request_package_def IORD_eq config_defs case_prod_beta)

lemma receiver_rdreq_eq:
  "receiver_rdreq b w =
     w\<lparr>dev := stwio b (stwio b (dev w) 0x41000 0x1112) 0x41000 0x112\<rparr>"
  by (simp add: receiver_rdreq_def IOWR_32DIRECT_def IO_CALC_ADDRESS_DYNAMIC_def config_defs)

lemma sender_start_ctrl_eq:
  "sender_start_ctrl b w =
     w\<lparr>dev := stwio b (stwio b (dev w) 0x41000 0x152) 0x41000 0x112\<rparr>"
  by (simp add: sender_start_ctrl_def IOWR_32DIRECT_def IO_CALC_ADDRESS_DYNAMIC_def config_defs)

lemma sender_write_clr_finished_sending_eq:
  "sender_write_clr_finished_sending b w =
     w\<lparr>dev := stwio b (stwio b (dev w) 0x41000 0x112) 0x41000 0x112\<rparr>"
  by (simp add: sender_write_clr_finished_sending_def IOWR_32DIRECT_def
      IO_CALC_ADDRESS_DYNAMIC_def config_defs)

lemma sender_send_package_eq:
  "sender_send_package b p w = w\<lparr>dev := stwio b (dev w) 0x41008 p\<rparr>"
  by (simp add: sender_send_package_def IOWR_32DIRECT_def IO_CALC_ADDRESS_DYNAMIC_def config_defs)

lemma sender_send_end_of_package_eq:
  "sender_send_end_of_package b w = w\<lparr>dev := stwio b (dev w) 0x41008 0\<rparr>"
  by (simp add: sender_send_end_of_package_def IOWR_32DIRECT_def IO_CALC_ADDRESS_DYNAMIC_def
      config_defs)

lemmas access_eqs = sender_check_fifo_full_eq sender_read_finished_send_eq receiver_empty_eq
  receiver_request_package_eq receiver_rdreq_eq sender_start_ctrl_eq
  sender_write_clr_finished_sending_eq sender_send_package_eq sender_send_end_of_package_eq

lemma and_single_bit:
  fixes v :: cint
  shows "v AND 1 = 0 \<longleftrightarrow> \<not> bit v 0" and "v AND 8 = 0 \<longleftrightarrow> \<not> bit v 3"
    and "v AND 0x2000 = 0 \<longleftrightarrow> \<not> bit v 13"
  using and_exp_eq_0_iff_not_bit[of v 0] and_exp_eq_0_iff_not_bit[of v 3]
    and_exp_eq_0_iff_not_bit[of v 13] by simp_all

lemma receiver_empty_bit: "c_sar (v AND 0x2000) 13 = 0 \<longleftrightarrow> \<not> bit v 13" for v :: cint
proof -
  have "v AND 0x2000 = (if bit v 13 then 0x2000 else 0)"
    using and_exp[of v 13] by simp
  then show ?thesis by (simp add: c_sar_def)
qed

section \<open>The interface\<close>

locale rfid_link =
  fixes b :: "'d bus"
    and inv :: "'d \<Rightarrow> bool"
    and txq :: "'d \<Rightarrow> cint list"
    and arrivals :: "'d \<Rightarrow> cint list"
    and ready :: "'d \<Rightarrow> bool"
    and started :: "'d \<Rightarrow> bool"
    and delay :: "'d \<Rightarrow> nat"
    and link :: "cint list \<Rightarrow> cint list"
    and depth :: nat
  assumes status_keeps: "inv d \<Longrightarrow> ldwio b d 0x4100C = (v, d') \<Longrightarrow>
      inv d' \<and> txq d' = txq d \<and> arrivals d' = arrivals d \<and>
      (ready d \<longrightarrow> ready d') \<and> (started d \<longrightarrow> started d')"
    and status_full: "inv d \<Longrightarrow> ldwio b d 0x4100C = (v, d') \<Longrightarrow>
      arrivals d = [] \<Longrightarrow> bit v 0 \<Longrightarrow> depth \<le> length (txq d)"
    and status_empty: "inv d \<Longrightarrow> ldwio b d 0x4100C = (v, d') \<Longrightarrow>
      arrivals d \<noteq> [] \<Longrightarrow> bit v 13 \<Longrightarrow> delay d' < delay d"
    and status_nonempty: "inv d \<Longrightarrow> ldwio b d 0x4100C = (v, d') \<Longrightarrow> \<not> bit v 13 \<Longrightarrow> ready d'"
    and status_finish: "inv d \<Longrightarrow> ldwio b d 0x4100C = (v, d') \<Longrightarrow>
      started d \<Longrightarrow> \<not> bit v 3 \<Longrightarrow> delay d' < delay d"
    and data_read: "inv d \<Longrightarrow> ready d \<Longrightarrow> ldwio b d 0x41010 = (v, d') \<Longrightarrow>
      inv d' \<and> txq d' = txq d \<and> arrivals d' = arrivals d \<and> ready d' \<and>
      arrivals d \<noteq> [] \<and> v = hd (arrivals d)"
    and read_request: "inv d \<Longrightarrow> ready d \<Longrightarrow>
      d' = stwio b (stwio b d 0x41000 0x1112) 0x41000 0x112 \<Longrightarrow>
      inv d' \<and> txq d' = txq d \<and> arrivals d' = tl (arrivals d)"
    and fifo_write: "inv d \<Longrightarrow> arrivals d = [] \<Longrightarrow> length (txq d) < depth \<Longrightarrow>
      d' = stwio b d 0x41008 p \<Longrightarrow>
      inv d' \<and> txq d' = txq d @ [p] \<and> arrivals d' = []"
    and start: "inv d \<Longrightarrow> arrivals d = [] \<Longrightarrow> txq d = ps @ [0] \<Longrightarrow> 0 \<notin> set ps \<Longrightarrow> ps \<noteq> [] \<Longrightarrow>
      length (link ps) \<le> depth \<Longrightarrow>
      d' = stwio b (stwio b d 0x41000 0x152) 0x41000 0x112 \<Longrightarrow>
      inv d' \<and> txq d' = [] \<and> arrivals d' = link ps \<and> started d'"
    and steady_write: "inv d \<Longrightarrow> d' = stwio b d 0x41000 0x112 \<Longrightarrow>
      inv d' \<and> txq d' = txq d \<and> arrivals d' = arrivals d"
begin

text \<open>The polling loops end.\<close>

lemma wait_fifo_not_full_returns:
  assumes "inv (dev w)" "arrivals (dev w) = []" "length (txq (dev w)) < depth"
  shows "\<exists>d. wait_fifo_not_full b w = Some (w\<lparr>dev := d\<rparr>) \<and>
    inv d \<and> txq d = txq (dev w) \<and> arrivals d = []"
proof -
  obtain v d where r: "ldwio b (dev w) 0x4100C = (v, d)" by (cases "ldwio b (dev w) 0x4100C")
  have "\<not> bit v 0" using status_full[OF assms(1) r assms(2)] assms(3) by linarith
  then show ?thesis
    using status_keeps[OF assms(1) r] assms(2)
    by (subst wait_fifo_not_full.simps) (auto simp: access_eqs r and_single_bit intro!: exI[of _ d])
qed

lemma wait_finished_send_returns:
  "inv (dev w) \<Longrightarrow> started (dev w) \<Longrightarrow>
    \<exists>d. wait_finished_send b w = Some (w\<lparr>dev := d\<rparr>) \<and>
      inv d \<and> txq d = txq (dev w) \<and> arrivals d = arrivals (dev w)"
proof (induction "delay (dev w)" arbitrary: w rule: less_induct)
  case less
  obtain v d where r: "ldwio b (dev w) 0x4100C = (v, d)" by (cases "ldwio b (dev w) 0x4100C")
  note k = status_keeps[OF less.prems(1) r]
  show ?case
  proof (cases "bit v 3")
    case True
    then show ?thesis
      using k by (subst wait_finished_send.simps) (auto simp: access_eqs r and_single_bit intro!: exI[of _ d])
  next
    case False
    then have "delay (dev (w\<lparr>dev := d\<rparr>)) < delay (dev w)"
      using status_finish[OF less.prems(1) r less.prems(2)] by simp
    from less.hyps[OF this] False k less.prems show ?thesis
      by (subst wait_finished_send.simps) (simp add: access_eqs r and_single_bit)
  qed
qed

lemma wait_receiver_not_empty_returns:
  "inv (dev w) \<Longrightarrow> arrivals (dev w) \<noteq> [] \<Longrightarrow>
    \<exists>d. wait_receiver_not_empty b w = Some (w\<lparr>dev := d\<rparr>) \<and>
      inv d \<and> txq d = txq (dev w) \<and> arrivals d = arrivals (dev w) \<and> ready d"
proof (induction "delay (dev w)" arbitrary: w rule: less_induct)
  case less
  obtain v d where r: "ldwio b (dev w) 0x4100C = (v, d)" by (cases "ldwio b (dev w) 0x4100C")
  note k = status_keeps[OF less.prems(1) r]
  show ?case
  proof (cases "bit v 13")
    case False
    then show ?thesis
      using k status_nonempty[OF less.prems(1) r]
      by (subst wait_receiver_not_empty.simps) (auto simp: access_eqs r receiver_empty_bit intro!: exI[of _ d])
  next
    case True
    then have "delay (dev (w\<lparr>dev := d\<rparr>)) < delay (dev w)"
      using status_empty[OF less.prems(1) r less.prems(2)] by simp
    from less.hyps[OF this] True k less.prems show ?thesis
      by (subst wait_receiver_not_empty.simps) (simp add: access_eqs r receiver_empty_bit)
  qed
qed

text \<open>With nothing to arrive the receiver's loop never ends: it has no time limit.\<close>

lemma status_starves:
  assumes "inv d" "arrivals d = []" "ldwio b d 0x4100C = (v, d')"
  shows "bit v 13"
proof (rule ccontr)
  assume "\<not> bit v 13"
  then have "ready d'" using status_nonempty[OF assms(1,3)] by simp
  moreover have "inv d'" "arrivals d' = []" using status_keeps[OF assms(1,3)] assms(2) by simp_all
  ultimately show False
    using data_read[of d' "fst (ldwio b d' 0x41010)" "snd (ldwio b d' 0x41010)"] by simp
qed

lemma wait_receiver_starves:
  assumes "wait_receiver_not_empty b' w = Some w'" "b' = b" "inv (dev w)"
  shows "arrivals (dev w) \<noteq> []"
  using assms
proof (induction b' w w' rule: wait_receiver_not_empty.raw_induct[rotated, consumes 1, case_names turn])
  case prems: (turn f b' w w')
  obtain v d where r: "ldwio b (dev w) 0x4100C = (v, d)" by (cases "ldwio b (dev w) 0x4100C")
  show ?case
  proof
    assume e: "arrivals (dev w) = []"
    have "bit v 13" using status_starves[OF prems(4) e r] .
    then have "f b (w\<lparr>dev := d\<rparr>) = Some w'"
      using prems(2,3) r by (simp add: access_eqs receiver_empty_bit)
    from prems(1)[OF this refl] show False
      using status_keeps[OF prems(4) r] e by simp
  qed
qed

lemma receiver_loop_starves:
  assumes "inv (dev w)" "arrivals (dev w) = []" "p0 \<noteq> 0"
  shows "receiver_loop b q p0 i vec sz w = None"
proof -
  have "wait_receiver_not_empty b w = None"
    using wait_receiver_starves[of b w] assms by (cases "wait_receiver_not_empty b w") auto
  then show ?thesis using assms(3) by (subst receiver_loop.simps) simp
qed

text \<open>Sending: the words of the command and the end of package are queued and started.\<close>

lemma sender_send_packages_returns:
  "inv (dev w) \<Longrightarrow> arrivals (dev w) = [] \<Longrightarrow> length (txq (dev w)) + length ps \<le> depth \<Longrightarrow>
    \<exists>d. sender_send_packages b ps w = Some (w\<lparr>dev := d\<rparr>) \<and>
      inv d \<and> txq d = txq (dev w) @ ps \<and> arrivals d = []"
proof (induction ps arbitrary: w)
  case Nil
  then show ?case by (auto intro!: exI[of _ "dev w"])
next
  case (Cons p ps)
  then obtain d where d: "wait_fifo_not_full b w = Some (w\<lparr>dev := d\<rparr>)"
      "inv d" "txq d = txq (dev w)" "arrivals d = []"
    using wait_fifo_not_full_returns[of w] by auto
  let ?w = "w\<lparr>dev := stwio b d 0x41008 p\<rparr>"
  from fifo_write[OF d(2,4) _ refl, of p] Cons.prems d(3)
  have "inv (dev ?w) \<and> txq (dev ?w) = txq (dev w) @ [p] \<and> arrivals (dev ?w) = []" by simp
  with Cons.IH[of ?w] Cons.prems(3) d show ?case by (auto simp: access_eqs)
qed

lemma sender_send_command_returns:
  assumes "inv (dev w)" "arrivals (dev w) = []" "txq (dev w) = []"
    and c: "csize c = of_nat n" "n mod 26 \<noteq> 0" "n < 2 ^ 31"
    and room: "n_packages n < depth" "length (link (packages_of n (result_data c))) \<le> depth"
  shows "\<exists>d. sender_send_command b stack c w = returns (w\<lparr>dev := d\<rparr>) \<and>
    inv d \<and> txq d = [] \<and> arrivals d = link (packages_of n (result_data c))"
proof -
  let ?ps = "packages_of n (result_data c)"
  have len: "sint (sender_get_command_ints_size (csize c)) = int (n_packages n)"
    using c by (simp add: sender_get_command_ints_size_nat)
  have mask: "sender_add_mask (map stack [0..<n_packages n]) (result_data c) (csize c) =
      Some (?ps, drop_bit n (result_data c))"
    using c by (simp add: sender_add_mask_packages)
  obtain d1 where d1: "sender_send_packages b ?ps w = Some (w\<lparr>dev := d1\<rparr>)"
      "inv d1" "txq d1 = ?ps" "arrivals d1 = []"
    using sender_send_packages_returns[of w ?ps] assms(1-3) room by auto
  let ?d2 = "stwio b d1 0x41008 0"
  have d2: "inv ?d2" "txq ?d2 = ?ps @ [0]" "arrivals ?d2 = []"
    using fifo_write[OF d1(2,4) _ refl, of 0] d1(3) room by auto
  let ?d3 = "stwio b (stwio b ?d2 0x41000 0x152) 0x41000 0x112"
  have d3: "inv ?d3" "txq ?d3 = []" "arrivals ?d3 = link ?ps" "started ?d3"
    using start[OF d2(1,3,2) packages_of_nonzero[OF c(2)] packages_of_nonempty room(2) refl] by auto
  obtain d4 where d4: "wait_finished_send b (w\<lparr>dev := ?d3\<rparr>) = Some (w\<lparr>dev := d4\<rparr>)"
      "inv d4" "txq d4 = []" "arrivals d4 = link ?ps"
    using wait_finished_send_returns[of "w\<lparr>dev := ?d3\<rparr>"] d3 by auto
  let ?d5 = "stwio b (stwio b d4 0x41000 0x112) 0x41000 0x112"
  have "inv ?d5 \<and> txq ?d5 = [] \<and> arrivals ?d5 = link ?ps"
    using steady_write[OF d4(2) refl] steady_write[of "stwio b d4 0x41000 0x112", OF _ refl] d4
    by simp
  moreover have "sender_send_command b stack c w = returns (w\<lparr>dev := ?d5\<rparr>)"
    using d4(1) unfolding sender_send_command_def
    by (simp add: len mask d1(1) access_eqs Let_def n_packages_pos)
  ultimately show ?thesis by blast
qed

text \<open>Receiving: one turn of the loop takes the next word that arrives.\<close>

lemma receiver_loop_step:
  assumes "inv (dev w)" "arrivals (dev w) = p # ps" "p0 \<noteq> 0"
  shows "\<exists>d. receiver_loop b q p0 i vec sz w =
      (if package_data p \<noteq> 0 then
         (case arr_set vec i (package_data p) of
            None \<Rightarrow> undefined_run
          | Some vec \<Rightarrow>
              if sint q < int (Suc i)
              then returns (- 1, vec, sz + package_mask_value p, c_printf msg_too_big [] (w\<lparr>dev := d\<rparr>))
              else receiver_loop b q p (Suc i) vec (sz + package_mask_value p) (w\<lparr>dev := d\<rparr>))
       else returns (0, vec, sz, c_printf msg_eop [] (w\<lparr>dev := d\<rparr>))) \<and>
    inv d \<and> txq d = txq (dev w) \<and> arrivals d = ps"
proof -
  obtain d where d: "wait_receiver_not_empty b w = Some (w\<lparr>dev := d\<rparr>)"
      "inv d" "txq d = txq (dev w)" "arrivals d = p # ps" "ready d"
    using wait_receiver_not_empty_returns[of w] assms by auto
  obtain v d' where r: "ldwio b d 0x41010 = (v, d')" by (cases "ldwio b d 0x41010")
  note dr = data_read[OF d(2,5) r]
  then have v: "v = p" using d(4) by simp
  let ?d = "stwio b (stwio b d' 0x41000 0x1112) 0x41000 0x112"
  from dr read_request[of d', OF _ _ refl] d
  have "inv ?d \<and> txq ?d = txq (dev w) \<and> arrivals ?d = ps" by simp
  moreover have "receiver_loop b q p0 i vec sz w =
      (if package_data p \<noteq> 0 then
         (case arr_set vec i (package_data p) of
            None \<Rightarrow> undefined_run
          | Some vec \<Rightarrow>
              if sint q < int (Suc i)
              then returns (- 1, vec, sz + package_mask_value p, c_printf msg_too_big [] (w\<lparr>dev := ?d\<rparr>))
              else receiver_loop b q p (Suc i) vec (sz + package_mask_value p) (w\<lparr>dev := ?d\<rparr>))
       else returns (0, vec, sz, c_printf msg_eop [] (w\<lparr>dev := ?d\<rparr>)))"
    using assms(3) d(1) r v
    by (subst receiver_loop.simps) (simp add: access_eqs Let_def split: option.split)
  ultimately show ?thesis by blast
qed

text \<open>Words with data up to the first word without data fill the array from \<open>i\<close> on.\<close>

lemma receiver_loop_returns:
  "inv (dev w) \<Longrightarrow> arrivals (dev w) = ws @ z # rest \<Longrightarrow>
    \<forall>p \<in> set ws. package_data p \<noteq> 0 \<Longrightarrow> package_data z = 0 \<Longrightarrow>
    i + length ws \<le> length vec \<Longrightarrow> int (i + length ws) \<le> sint q \<Longrightarrow> p0 \<noteq> 0 \<Longrightarrow>
    \<exists>d. receiver_loop b q p0 i vec sz w =
        returns (0, take i vec @ map package_data ws @ drop (i + length ws) vec,
                 sz + sum_list (map package_mask_value ws), c_printf msg_eop [] (w\<lparr>dev := d\<rparr>)) \<and>
      inv d \<and> txq d = txq (dev w) \<and> arrivals d = rest"
proof (induction ws arbitrary: i vec sz w p0)
  case Nil
  then show ?case
    using receiver_loop_step[of w z rest p0 q i vec sz] by auto
next
  case (Cons p ws)
  then obtain d where d: "inv d" "txq d = txq (dev w)" "arrivals d = ws @ z # rest"
    and eq: "receiver_loop b q p0 i vec sz w =
      receiver_loop b q p (Suc i) (vec[i := package_data p]) (sz + package_mask_value p) (w\<lparr>dev := d\<rparr>)"
    using receiver_loop_step[of w p "ws @ z # rest" p0 q i vec sz] by auto
  have "p \<noteq> 0" using Cons.prems(3) by (auto simp: package_data_def c_sar_def)
  with Cons.IH[of "w\<lparr>dev := d\<rparr>" "Suc i" "vec[i := package_data p]" p "sz + package_mask_value p"]
  show ?case
    unfolding eq using Cons.prems(3-6) d
    by (auto simp: take_Suc_conv_app_nth add.assoc)
qed

text \<open>One word with data too many is stored outside an array of \<open>quant_packages\<close> elements.\<close>

lemma receiver_loop_overflow:
  "inv (dev w) \<Longrightarrow> arrivals (dev w) = ws @ rest \<Longrightarrow>
    \<forall>p \<in> set ws. package_data p \<noteq> 0 \<Longrightarrow> i \<le> length vec \<Longrightarrow>
    i + length ws = Suc (length vec) \<Longrightarrow> sint q = int (length vec) \<Longrightarrow> p0 \<noteq> 0 \<Longrightarrow>
    receiver_loop b q p0 i vec sz w = undefined_run"
proof (induction ws arbitrary: i vec sz w p0)
  case (Cons p ws)
  from Cons.prems(3) have p: "package_data p \<noteq> 0" by simp
  then have p0: "p \<noteq> 0" by (auto simp: package_data_def c_sar_def)
  obtain d where d: "inv d" "arrivals d = ws @ rest"
    and eq: "receiver_loop b q p0 i vec sz w =
      (case arr_set vec i (package_data p) of
         None \<Rightarrow> undefined_run
       | Some vec \<Rightarrow>
           if sint q < int (Suc i)
           then returns (- 1, vec, sz + package_mask_value p, c_printf msg_too_big [] (w\<lparr>dev := d\<rparr>))
           else receiver_loop b q p (Suc i) vec (sz + package_mask_value p) (w\<lparr>dev := d\<rparr>))"
    using receiver_loop_step[of w p "ws @ rest" p0 q i vec sz] Cons.prems(1,2,7) p by auto
  show ?case
  proof (cases "i < length vec")
    case True
    then show ?thesis
      unfolding eq
      using Cons.IH[of "w\<lparr>dev := d\<rparr>" "Suc i" "vec[i := package_data p]" p "sz + package_mask_value p"]
        Cons.prems(3-6) d p0 by simp
  next
    case False
    then show ?thesis unfolding eq by simp
  qed
qed simp

end

end
