(* ===== verification/Ip_Core.thy ===== *)
theory Ip_Core
  imports Link
begin

text \<open>
  The peripheral of fpga/RTL in loopback, at the level of bus transactions: the register file
  of rfid.vhd with its write and read decoding, the two FIFOs of 256 words, the sender
  controller, the order in which FM0_encoder.vhd sends the bits of a package and the
  regrouping of received bits by package_constructor.vhd.  The line coding itself is taken as
  lossless, except that the decoder may append one bit 1 to a command (the extra bit the
  validators of the firmware allow for): the parameter \<open>dummy\<close> decides when; at the level of clock
  cycles Rfid_Vhd proves both and says when.  Between
  two bus accesses the transmitter moves on by one word.
\<close>

record ip =
  avs_readdata :: cint
  reg_settings :: cint
  reg_send_tari :: u16
  reg_send_tari_101 :: u16
  reg_send_tari_099 :: u16
  reg_send_tari_1616 :: u16
  reg_send_tari_1584 :: u16
  reg_send_pw :: u16
  reg_send_delimiter :: u16
  reg_send_RTcal :: u16
  reg_send_TRcal :: u16
  tx_fifo :: "cint list"
  tx_active :: bool
  tx_bits :: "bool list"
  finished_sending :: bool
  rx_fifo :: "cint list"
  already_read :: bool

definition fifo_depth :: nat where
  "fifo_depth = 256"

definition fifo_push :: "cint list \<Rightarrow> cint list \<Rightarrow> cint list" where
  "fifo_push q ws = take fifo_depth (q @ ws)"

section \<open>Bits on the line\<close>

text \<open>The encoder sends bit 0 of the data first, and at least one bit.\<close>

definition package_bits :: "cint \<Rightarrow> bool list" where
  "package_bits p = map (\<lambda>i. bit p (i + 6)) [0..<max 1 (unat (p AND 0x3F))]"

definition pack_bits :: "bool list \<Rightarrow> cint" where
  "pack_bits bs = push_bit 6 (horner_sum of_bool 2 bs) OR of_nat (length bs)"

text \<open>Packages of 26 bits, the rest, and the void package that ends a command.\<close>

function package_constructor :: "bool list \<Rightarrow> cint list" where
  "package_constructor bs =
     (if bs = [] then [0]
      else if length bs < 26 then [pack_bits bs, 0]
      else pack_bits (take 26 bs) # package_constructor (drop 26 bs))"
  by pat_completeness auto
termination by (relation "measure length") auto

declare package_constructor.simps [simp del]

definition line :: "(bool list \<Rightarrow> bool) \<Rightarrow> bool list \<Rightarrow> bool list" where
  "line dummy bs = bs @ (if dummy bs then [True] else [])"

definition ip_link :: "(bool list \<Rightarrow> bool) \<Rightarrow> cint list \<Rightarrow> cint list" where
  "ip_link dummy ps = package_constructor (line dummy (concat (map package_bits ps)))"

section \<open>Time\<close>

definition ip_tick :: "(bool list \<Rightarrow> bool) \<Rightarrow> ip \<Rightarrow> ip" where
  "ip_tick dummy s =
     (if tx_active s then
        (case tx_fifo s of
           [] \<Rightarrow> s
         | p # ps \<Rightarrow>
             if p = 0 then
               s\<lparr>tx_fifo := ps, tx_active := False, tx_bits := [],
                 finished_sending := \<not> bit (reg_settings s) 10,
                 rx_fifo :=
                   (if bit (reg_settings s) 4 \<and> bit (reg_settings s) 8
                    then fifo_push (rx_fifo s) (package_constructor (line dummy (tx_bits s)))
                    else rx_fifo s)\<rparr>
             else s\<lparr>tx_fifo := ps, tx_bits := tx_bits s @ package_bits p\<rparr>)
      else s)"

section \<open>Bus accesses (rfid.vhd)\<close>

definition ip_status :: "ip \<Rightarrow> cint" where
  "ip_status s =
     (if fifo_depth \<le> length (tx_fifo s) then 1 else 0) OR
     (if finished_sending s then 8 else 0) OR
     (if rx_fifo s = [] then 0x2000 else 0) OR
     (if fifo_depth \<le> length (rx_fifo s) then 0x4000 else 0)"

definition low_bits :: "nat \<Rightarrow> cint \<Rightarrow> cint \<Rightarrow> cint" where
  "low_bits n old new = (old AND NOT (mask n)) OR take_bit n new"

text \<open>Both processes see the low six address bits; the slave's address is the word index.\<close>

definition ip_selected :: "cint \<Rightarrow> bool" where
  "ip_selected a \<longleftrightarrow> NIOS_RFID_PERIPHERAL_0_BASE \<le> a \<and>
     a < NIOS_RFID_PERIPHERAL_0_BASE + NIOS_RFID_PERIPHERAL_0_SPAN"

definition avs_address :: "cint \<Rightarrow> nat" where
  "avs_address a = unat (a - NIOS_RFID_PERIPHERAL_0_BASE) div 4"

definition ip_readdata :: "ip \<Rightarrow> nat \<Rightarrow> cint" where
  "ip_readdata s a =
     (if a = 0 then reg_settings s
      else if a = 1 then low_bits 16 (avs_readdata s) (ucast (reg_send_tari s))
      else if a = 3 then ip_status s
      else if a = 4 then (case rx_fifo s of [] \<Rightarrow> avs_readdata s | p # _ \<Rightarrow> p)
      else if a = 5 then low_bits 8 (avs_readdata s) (of_nat (length (tx_fifo s)))
      else if a = 6 then low_bits 8 (avs_readdata s) (of_nat (length (rx_fifo s)))
      else if a = 7 then 0xFF0055FF
      else avs_readdata s)"

definition ip_read :: "(bool list \<Rightarrow> bool) \<Rightarrow> ip \<Rightarrow> cint \<Rightarrow> cint \<times> ip" where
  "ip_read dummy s a =
     (let s = ip_tick dummy s
      in if ip_selected a
         then (ip_readdata s (avs_address a), s\<lparr>avs_readdata := ip_readdata s (avs_address a)\<rparr>)
         else (0, s))"

text \<open>What the bits of a new settings word do.\<close>

definition ip_settings :: "ip \<Rightarrow> cint \<Rightarrow> ip" where
  "ip_settings s v =
     (let s = s\<lparr>reg_settings := v\<rparr>;
          s = (if bit v 0 then s\<lparr>tx_active := False, tx_bits := []\<rparr> else s);
          s = (if bit v 2 then s\<lparr>tx_fifo := []\<rparr> else s);
          s = (if bit v 10 then s\<lparr>finished_sending := False\<rparr> else s);
          s = (if bit v 6 \<and> bit v 1 \<and> \<not> bit v 0 \<and> \<not> tx_active s then s\<lparr>tx_active := True\<rparr> else s)
      in if bit v 12 \<and> \<not> bit v 11
         then (if already_read s then s else s\<lparr>already_read := True, rx_fifo := tl (rx_fifo s)\<rparr>)
         else s\<lparr>already_read := False\<rparr>)"

definition ip_write_reg :: "ip \<Rightarrow> nat \<Rightarrow> cint \<Rightarrow> ip" where
  "ip_write_reg s a v =
     (if a = 0 then ip_settings s v
      else if a = 1 then s\<lparr>reg_send_tari := ucast v\<rparr>
      else if a = 2 then s\<lparr>tx_fifo := fifo_push (tx_fifo s) [v]\<rparr>
      else if a = 3 then s\<lparr>reg_send_tari_101 := ucast v\<rparr>
      else if a = 4 then s\<lparr>reg_send_tari_099 := ucast v\<rparr>
      else if a = 5 then s\<lparr>reg_send_tari_1616 := ucast v\<rparr>
      else if a = 6 then s\<lparr>reg_send_tari_1584 := ucast v\<rparr>
      else if a = 7 then s\<lparr>reg_send_pw := ucast v\<rparr>
      else if a = 8 then s\<lparr>reg_send_delimiter := ucast v\<rparr>
      else if a = 9 then s\<lparr>reg_send_RTcal := ucast v\<rparr>
      else if a = 10 then s\<lparr>reg_send_TRcal := ucast v\<rparr>
      else s)"

definition ip_write :: "(bool list \<Rightarrow> bool) \<Rightarrow> ip \<Rightarrow> cint \<Rightarrow> cint \<Rightarrow> ip" where
  "ip_write dummy s a v =
     (let s = ip_tick dummy s in if ip_selected a then ip_write_reg s (avs_address a) v else s)"

definition ip_bus :: "(bool list \<Rightarrow> bool) \<Rightarrow> ip bus" where
  "ip_bus dummy = \<lparr>ldwio = ip_read dummy, stwio = ip_write dummy\<rparr>"

text \<open>After the reset all registers are 0 and both FIFOs empty.\<close>

definition ip_reset :: ip where
  "ip_reset = \<lparr>avs_readdata = 0, reg_settings = 0, reg_send_tari = 0, reg_send_tari_101 = 0,
     reg_send_tari_099 = 0, reg_send_tari_1616 = 0, reg_send_tari_1584 = 0, reg_send_pw = 0,
     reg_send_delimiter = 0, reg_send_RTcal = 0, reg_send_TRcal = 0, tx_fifo = [],
     tx_active = False, tx_bits = [], finished_sending = False, rx_fifo = [],
     already_read = False\<rparr>"

section \<open>What the peripheral promises\<close>

definition ip_on_air :: "(bool list \<Rightarrow> bool) \<Rightarrow> ip \<Rightarrow> cint list" where
  "ip_on_air dummy s =
     (if tx_active s
      then package_constructor (line dummy
             (tx_bits s @ concat (map package_bits (takeWhile (\<lambda>p. p \<noteq> 0) (tx_fifo s)))))
      else [])"

definition ip_arrivals :: "(bool list \<Rightarrow> bool) \<Rightarrow> ip \<Rightarrow> cint list" where
  "ip_arrivals dummy s = rx_fifo s @ ip_on_air dummy s"

definition ip_txq :: "ip \<Rightarrow> cint list" where
  "ip_txq s = (if tx_active s then tl (dropWhile (\<lambda>p. p \<noteq> 0) (tx_fifo s)) else tx_fifo s)"

definition ip_inv :: "(bool list \<Rightarrow> bool) \<Rightarrow> ip \<Rightarrow> bool" where
  "ip_inv dummy s \<longleftrightarrow> reg_settings s = 0x112 \<and> \<not> already_read s \<and>
     (tx_active s \<longrightarrow> 0 \<in> set (tx_fifo s)) \<and> (\<not> tx_active s \<longrightarrow> tx_bits s = []) \<and>
     length (ip_arrivals dummy s) \<le> fifo_depth"

definition ip_ready :: "ip \<Rightarrow> bool" where
  "ip_ready s \<longleftrightarrow> rx_fifo s \<noteq> []"

definition ip_started :: "ip \<Rightarrow> bool" where
  "ip_started s \<longleftrightarrow> tx_active s \<or> finished_sending s"

definition ip_delay :: "ip \<Rightarrow> nat" where
  "ip_delay s = (if tx_active s then length (tx_fifo s) else 0)"

lemma package_constructor_nonempty: "package_constructor bs \<noteq> []"
  by (simp add: package_constructor.simps[of bs])

lemma ip_tick_keeps:
  assumes "ip_inv dummy s"
  shows "ip_inv dummy (ip_tick dummy s) \<and> ip_txq (ip_tick dummy s) = ip_txq s \<and>
    ip_arrivals dummy (ip_tick dummy s) = ip_arrivals dummy s \<and>
    (ip_ready s \<longrightarrow> ip_ready (ip_tick dummy s)) \<and> (ip_started s \<longrightarrow> ip_started (ip_tick dummy s)) \<and>
    (tx_active s \<longrightarrow> ip_delay (ip_tick dummy s) < ip_delay s)"
proof (cases "tx_active s")
  case False
  then show ?thesis using assms by (simp add: ip_tick_def)
next
  case True
  then obtain p ps where f: "tx_fifo s = p # ps"
    using assms by (cases "tx_fifo s") (auto simp: ip_inv_def)
  have bits: "bit (0x112 :: cint) 4" "bit (0x112 :: cint) 8" "\<not> bit (0x112 :: cint) 10"
    by simp_all
  show ?thesis
  proof (cases "p = 0")
    case True
    with \<open>tx_active s\<close> f assms bits show ?thesis
      by (auto simp: ip_tick_def ip_inv_def ip_txq_def ip_arrivals_def ip_on_air_def ip_ready_def
          ip_started_def ip_delay_def fifo_push_def package_constructor_nonempty)
  next
    case False
    with \<open>tx_active s\<close> f assms show ?thesis
      by (auto simp: ip_tick_def ip_inv_def ip_txq_def ip_arrivals_def ip_on_air_def ip_ready_def
          ip_started_def ip_delay_def)
  qed
qed


lemma ip_status_bits:
  "bit (ip_status s) 0 \<longleftrightarrow> fifo_depth \<le> length (tx_fifo s)"
  "bit (ip_status s) 3 \<longleftrightarrow> finished_sending s"
  "bit (ip_status s) 13 \<longleftrightarrow> rx_fifo s = []"
  by (simp_all add: ip_status_def bit_or_iff)

lemma ip_addresses:
  "ip_selected 0x41000" "ip_selected 0x41008" "ip_selected 0x4100C" "ip_selected 0x41010"
  "avs_address 0x41000 = 0" "avs_address 0x41008 = 2" "avs_address 0x4100C = 3"
  "avs_address 0x41010 = 4"
  by (simp_all add: ip_selected_def avs_address_def config_defs)

text \<open>The abstraction does not depend on the last word read.\<close>

lemma ip_abs_readdata [simp]:
  "ip_inv dummy (s\<lparr>avs_readdata := v\<rparr>) = ip_inv dummy s"
  "ip_txq (s\<lparr>avs_readdata := v\<rparr>) = ip_txq s"
  "ip_arrivals dummy (s\<lparr>avs_readdata := v\<rparr>) = ip_arrivals dummy s"
  "ip_ready (s\<lparr>avs_readdata := v\<rparr>) = ip_ready s"
  "ip_started (s\<lparr>avs_readdata := v\<rparr>) = ip_started s"
  "ip_delay (s\<lparr>avs_readdata := v\<rparr>) = ip_delay s"
  by (simp_all add: ip_inv_def ip_txq_def ip_arrivals_def ip_on_air_def ip_ready_def
      ip_started_def ip_delay_def)

lemma ip_read_status:
  "ip_read dummy s 0x4100C =
     (ip_status (ip_tick dummy s), (ip_tick dummy s)\<lparr>avs_readdata := ip_status (ip_tick dummy s)\<rparr>)"
  by (simp add: ip_read_def Let_def ip_addresses ip_readdata_def)

lemma ip_read_data:
  "rx_fifo (ip_tick dummy s) = p # ps \<Longrightarrow>
   ip_read dummy s 0x41010 = (p, (ip_tick dummy s)\<lparr>avs_readdata := p\<rparr>)"
  by (simp add: ip_read_def Let_def ip_addresses ip_readdata_def)

lemma ip_write_fifo:
  "ip_write dummy s 0x41008 p =
     (ip_tick dummy s)\<lparr>tx_fifo := fifo_push (tx_fifo (ip_tick dummy s)) [p]\<rparr>"
  by (simp add: ip_write_def Let_def ip_addresses ip_write_reg_def)

lemma ip_write_settings:
  "ip_write dummy s 0x41000 v = ip_settings (ip_tick dummy s) v"
  by (simp add: ip_write_def Let_def ip_addresses ip_write_reg_def)

lemma ip_settings_steady: "ip_settings s 0x112 = s\<lparr>reg_settings := 0x112, already_read := False\<rparr>"
  by (simp add: ip_settings_def Let_def)

lemma ip_settings_start:
  "\<not> tx_active s \<Longrightarrow>
   ip_settings s 0x152 = s\<lparr>reg_settings := 0x152, tx_active := True, already_read := False\<rparr>"
  by (simp add: ip_settings_def Let_def)

lemma ip_settings_rdreq:
  "\<not> already_read s \<Longrightarrow>
   ip_settings s 0x1112 =
     s\<lparr>reg_settings := 0x1112, already_read := True, rx_fifo := tl (rx_fifo s)\<rparr>"
  by (simp add: ip_settings_def Let_def)

text \<open>A tick under other settings that leave the receiver enabled and in loopback.\<close>

lemma ip_tick_settings:
  assumes "bit v 4" "bit v 8" "\<not> bit v 10" and "reg_settings s = 0x112"
  shows "ip_tick dummy (s\<lparr>reg_settings := v, already_read := r\<rparr>) =
    (ip_tick dummy s)\<lparr>reg_settings := v, already_read := r\<rparr>"
  using assms by (auto simp: ip_tick_def split: list.split)

lemma ip_inv_steady: "ip_inv dummy s \<Longrightarrow> s\<lparr>reg_settings := 0x112, already_read := False\<rparr> = s"
  by (simp add: ip_inv_def)

lemma ip_quiet: "ip_arrivals dummy s = [] \<Longrightarrow> \<not> tx_active s \<and> rx_fifo s = []"
  by (auto simp: ip_arrivals_def ip_on_air_def package_constructor_nonempty split: if_splits)

lemma ip_quiet_tick: "ip_arrivals dummy s = [] \<Longrightarrow> ip_tick dummy s = s"
  using ip_quiet[of dummy s] by (simp add: ip_tick_def)

lemma ip_start:
  assumes inv: "ip_inv dummy s" and q: "ip_arrivals dummy s = []" and tx: "ip_txq s = ps @ [0]"
    and ps: "0 \<notin> set ps" "ps \<noteq> []" and len: "length (ip_link dummy ps) \<le> fifo_depth"
  defines "s' \<equiv> ip_write dummy (ip_write dummy s 0x41000 0x152) 0x41000 0x112"
  shows "ip_inv dummy s' \<and> ip_txq s' = [] \<and> ip_arrivals dummy s' = ip_link dummy ps \<and> ip_started s'"
proof -
  note quiet = ip_quiet[OF q]
  let ?a = "s\<lparr>tx_active := True\<rparr>"
  have s1: "ip_write dummy s 0x41000 0x152 = ?a\<lparr>reg_settings := 0x152, already_read := False\<rparr>"
    using quiet by (simp add: ip_write_settings ip_quiet_tick[OF q] ip_settings_start)
  have "s' = (ip_tick dummy ?a)\<lparr>reg_settings := 0x112, already_read := False\<rparr>"
  proof -
    have "s' = ip_settings (ip_tick dummy (ip_write dummy s 0x41000 0x152)) 0x112"
      unfolding s'_def by (rule ip_write_settings)
    then show ?thesis
      using inv by (simp add: s1 ip_settings_steady ip_tick_settings ip_inv_def)
  qed
  moreover have fifo: "tx_fifo s = ps @ [0]" using tx quiet by (simp add: ip_txq_def)
  have tw: "takeWhile (\<lambda>p. p \<noteq> 0) (ps @ [0]) = ps" "dropWhile (\<lambda>p. p \<noteq> 0) (ps @ [0]) = [0]"
    using ps(1) by (auto simp: takeWhile_append dropWhile_append)
  have bits: "tx_bits s = []" using inv quiet by (simp add: ip_inv_def)
  have a: "ip_arrivals dummy ?a = ip_link dummy ps" "ip_txq ?a = []"
    using quiet bits by (simp_all add: ip_arrivals_def ip_on_air_def ip_link_def ip_txq_def fifo tw)
  have "ip_inv dummy ?a" using inv a len fifo by (simp add: ip_inv_def)
  moreover have "ip_started ?a" by (simp add: ip_started_def)
  ultimately show ?thesis
    using ip_tick_keeps[of dummy ?a] ip_inv_steady[of dummy "ip_tick dummy ?a"] a by simp
qed

lemma ip_read_request:
  assumes inv: "ip_inv dummy s" and rdy: "ip_ready s"
  defines "s' \<equiv> ip_write dummy (ip_write dummy s 0x41000 0x1112) 0x41000 0x112"
  shows "ip_inv dummy s' \<and> ip_txq s' = ip_txq s \<and> ip_arrivals dummy s' = tl (ip_arrivals dummy s)"
proof -
  let ?t = "ip_tick dummy s"
  let ?p = "?t\<lparr>rx_fifo := tl (rx_fifo ?t)\<rparr>"
  note k = ip_tick_keeps[OF inv]
  have s1: "ip_write dummy s 0x41000 0x1112 = ?p\<lparr>reg_settings := 0x1112, already_read := True\<rparr>"
    using k by (simp add: ip_write_settings ip_settings_rdreq ip_inv_def)
  have "s' = (ip_tick dummy ?p)\<lparr>reg_settings := 0x112, already_read := False\<rparr>"
  proof -
    have "s' = ip_settings (ip_tick dummy (ip_write dummy s 0x41000 0x1112)) 0x112"
      unfolding s'_def by (rule ip_write_settings)
    then show ?thesis
      using k by (simp add: s1 ip_settings_steady ip_tick_settings ip_inv_def)
  qed
  moreover have p: "ip_arrivals dummy ?p = tl (ip_arrivals dummy ?t)" "ip_txq ?p = ip_txq ?t"
  proof -
    have "rx_fifo ?t \<noteq> []" using k rdy by (simp add: ip_ready_def)
    then show "ip_arrivals dummy ?p = tl (ip_arrivals dummy ?t)" "ip_txq ?p = ip_txq ?t"
      by (simp_all add: ip_arrivals_def ip_on_air_def ip_txq_def)
  qed
  then have "ip_inv dummy ?p" using k by (auto simp: ip_inv_def)
  ultimately show ?thesis
    using ip_tick_keeps[of dummy ?p] ip_inv_steady[of dummy "ip_tick dummy ?p"] p k by simp
qed

section \<open>The peripheral satisfies the interface\<close>

interpretation ip: rfid_link "ip_bus dummy" "ip_inv dummy" ip_txq "ip_arrivals dummy" ip_ready
  ip_started ip_delay "ip_link dummy" fifo_depth for dummy
proof unfold_locales
  fix d d' :: ip and v :: cint
  assume inv: "ip_inv dummy d" and r: "ldwio (ip_bus dummy) d 0x4100C = (v, d')"
  note k = ip_tick_keeps[OF inv]
  from r have v: "v = ip_status (ip_tick dummy d)" and d': "d' = (ip_tick dummy d)\<lparr>avs_readdata := v\<rparr>"
    by (auto simp: ip_bus_def ip_read_status)
  show "ip_inv dummy d' \<and> ip_txq d' = ip_txq d \<and> ip_arrivals dummy d' = ip_arrivals dummy d \<and>
      (ip_ready d \<longrightarrow> ip_ready d') \<and> (ip_started d \<longrightarrow> ip_started d')"
    using k by (simp add: d')
  show "fifo_depth \<le> length (ip_txq d)" if "ip_arrivals dummy d = []" "bit v 0"
    using that ip_quiet[OF that(1)] by (simp add: v ip_status_bits ip_quiet_tick ip_txq_def)
  show "ip_delay d' < ip_delay d" if "ip_arrivals dummy d \<noteq> []" "bit v 13"
  proof -
    have "tx_active (ip_tick dummy d)"
      using that k by (auto simp: v ip_status_bits ip_arrivals_def ip_on_air_def split: if_splits)
    then have "tx_active d" by (auto simp: ip_tick_def split: if_splits)
    then show ?thesis using k by (simp add: d')
  qed
  show "ip_ready d'" if "\<not> bit v 13"
    using that by (simp add: d') (simp add: v ip_status_bits ip_ready_def)
  show "ip_delay d' < ip_delay d" if "ip_started d" "\<not> bit v 3"
  proof -
    have "tx_active (ip_tick dummy d)"
      using that k by (auto simp: v ip_status_bits ip_started_def)
    then have "tx_active d" by (auto simp: ip_tick_def split: if_splits)
    then show ?thesis using k by (simp add: d')
  qed
next
  fix d d' :: ip and v :: cint
  assume inv: "ip_inv dummy d" and rdy: "ip_ready d"
    and r: "ldwio (ip_bus dummy) d 0x41010 = (v, d')"
  note k = ip_tick_keeps[OF inv]
  then obtain p ps where f: "rx_fifo (ip_tick dummy d) = p # ps"
    using rdy by (auto simp: ip_ready_def neq_Nil_conv)
  then have "v = p" "d' = (ip_tick dummy d)\<lparr>avs_readdata := p\<rparr>"
    using r by (auto simp: ip_bus_def ip_read_data)
  moreover have "ip_arrivals dummy d = p # ps @ ip_on_air dummy (ip_tick dummy d)"
    using k f by (metis append_Cons ip_arrivals_def)
  ultimately show "ip_inv dummy d' \<and> ip_txq d' = ip_txq d \<and>
      ip_arrivals dummy d' = ip_arrivals dummy d \<and> ip_ready d' \<and>
      ip_arrivals dummy d \<noteq> [] \<and> v = hd (ip_arrivals dummy d)"
    using k rdy by simp
next
  fix d d' :: ip
  assume "ip_inv dummy d" "ip_ready d"
    "d' = stwio (ip_bus dummy) (stwio (ip_bus dummy) d 0x41000 0x1112) 0x41000 0x112"
  then show "ip_inv dummy d' \<and> ip_txq d' = ip_txq d \<and> ip_arrivals dummy d' = tl (ip_arrivals dummy d)"
    using ip_read_request[of dummy d] by (simp add: ip_bus_def)
next
  fix d d' :: ip and p :: cint
  assume inv: "ip_inv dummy d" and q: "ip_arrivals dummy d = []" and len: "length (ip_txq d) < fifo_depth"
    and d': "d' = stwio (ip_bus dummy) d 0x41008 p"
  have "d' = d\<lparr>tx_fifo := tx_fifo d @ [p]\<rparr>"
    using d' len ip_quiet[OF q]
    by (simp add: ip_bus_def ip_write_fifo ip_quiet_tick[OF q] fifo_push_def ip_txq_def)
  then show "ip_inv dummy d' \<and> ip_txq d' = ip_txq d @ [p] \<and> ip_arrivals dummy d' = []"
    using inv q ip_quiet[OF q] by (simp add: ip_inv_def ip_txq_def ip_arrivals_def ip_on_air_def)
next
  fix d d' :: ip and ps
  assume "ip_inv dummy d" "ip_arrivals dummy d = []" "ip_txq d = ps @ [0]" "0 \<notin> set ps" "ps \<noteq> []"
    "length (ip_link dummy ps) \<le> fifo_depth"
    "d' = stwio (ip_bus dummy) (stwio (ip_bus dummy) d 0x41000 0x152) 0x41000 0x112"
  then show "ip_inv dummy d' \<and> ip_txq d' = [] \<and> ip_arrivals dummy d' = ip_link dummy ps \<and> ip_started d'"
    using ip_start[of dummy d ps] by (simp add: ip_bus_def)
next
  fix d d' :: ip
  assume "ip_inv dummy d" "d' = stwio (ip_bus dummy) d 0x41000 0x112"
  then show "ip_inv dummy d' \<and> ip_txq d' = ip_txq d \<and> ip_arrivals dummy d' = ip_arrivals dummy d"
    using ip_tick_keeps[of dummy d] ip_inv_steady[of dummy "ip_tick dummy d"]
    by (simp add: ip_bus_def ip_write_settings ip_settings_steady)
qed

end
