(* ===== verification/Loopback.thy ===== *)
theory Loopback
  imports Ip_Core
begin

text \<open>
  Sending a command and receiving it back through the peripheral in loopback: the bits on
  the line are the low bits of \<open>result_data\<close>, the packages that arrive carry the chunks of
  \<open>Packages\<close>, and the firmware's receiver returns them with the size of the command.
\<close>

section \<open>The packages of a command on the line\<close>

definition word_of :: "nat \<Rightarrow> u64 \<Rightarrow> nat \<Rightarrow> cint" where
  "word_of n rd k = push_bit 6 (chunk n rd k) OR of_nat (nbits n k)"

lemma nbits_pos: "n mod 26 \<noteq> 0 \<Longrightarrow> k < n_packages n \<Longrightarrow> 0 < nbits n k"
  using nbits_last[of n k] nbits_full[of k n] by (cases "k = n div 26") (auto simp: n_packages_def)

lemma mask_bits_package_of: "unat (package_of n rd k AND 0x3F) = nbits n k"
proof -
  have "package_of n rd k AND 0x3F = of_nat (nbits n k)"
    using package_mask_value_package_of[of n rd k] by (simp add: package_mask_value_def bits6_def)
  then show ?thesis
    using of_nat_eq_iff_unat[of "nbits n k" "of_nat (nbits n k) :: cint"] nbits_bound[of n k] by simp
qed

lemma package_bits_package_of:
  assumes "0 < nbits n k"
  shows "package_bits (package_of n rd k) = map (bit rd) [26 * k..<26 * k + nbits n k]"
proof -
  have m: "max 1 (unat (package_of n rd k AND 0x3F)) = nbits n k"
    using assms by (simp add: mask_bits_package_of)
  have "bit (package_of n rd k) (i + 6) = bit rd (26 * k + i)" if "i < nbits n k" for i
    using that nbits_bound[of n k] bit_of_nat_low[of "nbits n k" 6 "i + 6", where 'a = 32]
    by (simp add: package_of_def bit_or_iff bit_push_bit_iff bit_ucast_iff bit_take_bit_iff
        bit_drop_bit_eq)
  then show ?thesis
    unfolding package_bits_def m by (auto intro: nth_equalityI)
qed

lemma blocks_append: "26 * k + nbits n k \<le> n"  if "k < n_packages n"
proof -
  have "26 * k \<le> n" using that div_times_less_eq_dividend[of n 26]
    by (metis Suc_eq_plus1 le_trans less_Suc_eq_le mult.commute mult_le_mono1 n_packages_def)
  then show ?thesis by (simp add: nbits_def)
qed

lemma concat_full_blocks:
  "j \<le> n div 26 \<Longrightarrow>
   concat (map (\<lambda>k. map f [26 * k..<26 * k + nbits n k]) [0..<j]) = map f [0..<26 * j]"
proof (induction j)
  case (Suc j)
  have "map f [0..<26 * j] @ map f [26 * j..<26 * j + 26] = map f [0..<26 * Suc j]"
    using upt_add_eq_append[of 0 "26 * j" 26] by (simp add: add.commute flip: map_append)
  with Suc show ?case by (simp add: nbits_full)
qed simp

lemma line_of_packages:
  assumes "n mod 26 \<noteq> 0"
  shows "concat (map package_bits (packages_of n rd)) = map (bit rd) [0..<n]"
proof -
  let ?q = "n div 26"
  have "concat (map package_bits (packages_of n rd)) =
      concat (map (\<lambda>k. map (bit rd) [26 * k..<26 * k + nbits n k]) [0..<n_packages n])"
    unfolding packages_of_def map_map
    by (rule arg_cong[of _ _ concat], rule map_cong)
       (simp_all add: package_bits_package_of nbits_pos assms)
  also have "\<dots> = map (bit rd) ([0..<26 * ?q] @ [26 * ?q..<26 * ?q + n mod 26])"
    by (simp add: n_packages_def concat_full_blocks nbits_last)
  also have "[0..<26 * ?q] @ [26 * ?q..<26 * ?q + n mod 26] = [0..<n]"
    using upt_add_eq_append[of 0 "26 * ?q" "n mod 26"] by simp
  finally show ?thesis .
qed

lemma pack_bits_word_of:
  assumes "nb = nbits m k" and "26 * k + nb \<le> m"
  shows "pack_bits (map (bit rd) [26 * k..<26 * k + nb]) = word_of m rd k"
proof -
  have "horner_sum of_bool 2 (map (bit rd) [26 * k..<26 * k + nb]) = chunk m rd k"
    using nbits_bound[of m k] unfolding chunk_def assms(1)
    by (intro word_eqI_bits)
       (auto simp: bit_horner_sum_bit_word_iff bit_ucast_iff bit_take_bit_iff bit_drop_bit_eq
         dest: bit_imp_le_length)
  then show ?thesis by (simp add: pack_bits_def word_of_def assms(1))
qed

lemma package_constructor_line:
  assumes "m mod 26 \<noteq> 0"
  shows "j \<le> m div 26 \<Longrightarrow> package_constructor (map (bit rd) [26 * j..<m]) =
    map (word_of m rd) [j..<n_packages m] @ [0]"
proof (induction "m div 26 - j" arbitrary: j)
  case 0
  then have j: "j = m div 26" by simp
  have m: "m = 26 * j + m mod 26" "m mod 26 < 26" using j by simp_all
  have "pack_bits (map (bit rd) [26 * j..<26 * j + m mod 26]) = word_of m rd j"
    by (rule pack_bits_word_of) (use j in \<open>simp_all add: nbits_last\<close>)
  then have "pack_bits (map (bit rd) [26 * j..<m]) = word_of m rd j"
    using m(1) by simp
  moreover have "length (map (bit rd) [26 * j..<m]) < 26" using m by simp
  moreover have "26 * j < m" using m assms by linarith
  then have "map (bit rd) [26 * j..<m] \<noteq> []" by simp
  ultimately show ?case
    using j by (subst package_constructor.simps) (simp add: n_packages_def)
next
  case (Suc x)
  then have j: "j < m div 26" by simp
  have le: "26 * j + 26 \<le> m" using j div_times_less_eq_dividend[of m 26] by linarith
  have sp: "[26 * j..<m] = [26 * j..<26 * j + 26] @ [26 * Suc j..<m]"
    using upt_add_eq_append[of "26 * j" "26 * j + 26" "m - (26 * j + 26)"] le
    by (simp add: add.commute)
  have "pack_bits (map (bit rd) [26 * j..<26 * j + 26]) = word_of m rd j"
    by (rule pack_bits_word_of) (use j le in \<open>simp_all add: nbits_full\<close>)
  moreover have "package_constructor (map (bit rd) [26 * Suc j..<m]) =
      map (word_of m rd) [Suc j..<n_packages m] @ [0]"
    using Suc j by (intro Suc.hyps(1)) simp_all
  moreover have "[j..<n_packages m] = j # [Suc j..<n_packages m]"
    using j by (simp add: n_packages_def upt_conv_Cons)
  ultimately show ?case
    using le by (subst package_constructor.simps) (auto simp: sp not_less)
qed

section \<open>What the receiver gets\<close>

definition line_size :: "(bool list \<Rightarrow> bool) \<Rightarrow> nat \<Rightarrow> u64 \<Rightarrow> nat" where
  "line_size dummy n rd = (if dummy (map (bit rd) [0..<n]) then Suc n else n)"

definition line_data :: "(bool list \<Rightarrow> bool) \<Rightarrow> nat \<Rightarrow> u64 \<Rightarrow> u64" where
  "line_data dummy n rd = (if dummy (map (bit rd) [0..<n]) then set_bit n rd else rd)"

lemma line_bits:
  assumes "n < 64"
  shows "line dummy (map (bit rd) [0..<n]) =
    map (bit (line_data dummy n rd)) [0..<line_size dummy n rd]"
  using assms by (auto simp: line_def line_size_def line_data_def bit_set_bit_iff)

lemma ip_link_packages:
  assumes "n mod 26 \<noteq> 0" "n mod 26 \<noteq> 25" "n < 64"
  shows "ip_link dummy (packages_of n rd) =
    map (word_of (line_size dummy n rd) (line_data dummy n rd)) [0..<n_packages n] @ [0]"
proof -
  let ?m = "line_size dummy n rd"
  have m: "?m mod 26 \<noteq> 0" "n_packages ?m = n_packages n"
    using assms(1,2) by (auto simp: line_size_def n_packages_def mod_Suc div_Suc)
  show ?thesis
    using package_constructor_line[OF m(1), of 0] m(2)
    by (simp add: ip_link_def line_of_packages assms line_bits)
qed

lemma package_data_word_of: "package_data (word_of n rd k) = chunk n rd k"
  using nbits_bound[of n k] unfolding word_of_def
  by (simp add: package_data_build, simp add: chunk_def)
     (intro word_eqI_bits, auto simp: bit_take_bit_iff bit_ucast_iff)

lemma package_mask_value_word_of: "package_mask_value (word_of n rd k) = of_nat (nbits n k)"
  unfolding word_of_def by (rule package_mask_value_build) (use nbits_bound[of n k] in linarith)

lemma sum_nbits: "j \<le> n_packages n \<Longrightarrow> (\<Sum>k\<leftarrow>[0..<j]. nbits n k) = min n (26 * j)"
proof (induction j)
  case (Suc j)
  then have "j < n_packages n" by simp
  then have "26 * j \<le> n" using blocks_append[of j n] by simp
  with Suc show ?case by (auto simp: nbits_def)
qed simp

lemma sum_mask_values:
  "(\<Sum>p\<leftarrow>map (word_of n rd) [0..<n_packages n]. package_mask_value p) = of_nat n"
proof -
  have "n \<le> 26 * n_packages n"
    using div_mult_mod_eq[of n 26] mod_less_divisor[of 26 n] by (simp add: n_packages_def)
  then have "(\<Sum>k\<leftarrow>[0..<n_packages n]. nbits n k) = n" by (simp add: sum_nbits)
  then have "of_nat (\<Sum>k\<leftarrow>[0..<n_packages n]. nbits n k) = (of_nat n :: cint)" by simp
  moreover have "of_nat (\<Sum>k\<leftarrow>xs. nbits n k) =
      (\<Sum>p\<leftarrow>map (word_of n rd) xs. package_mask_value p)" for xs
    by (induction xs) (simp_all add: package_mask_value_word_of)
  ultimately show ?thesis by simp
qed

lemma chunk_line_nonzero:
  assumes "chunk n rd k \<noteq> 0" "n < 64"
  shows "chunk (line_size dummy n rd) (line_data dummy n rd) k \<noteq> 0"
proof -
  from assms(1) obtain i where i: "bit (chunk n rd k) i"
    by (auto simp: bit_eq_iff)
  then have "bit (chunk (line_size dummy n rd) (line_data dummy n rd) k) i"
    using assms(2) by (auto simp: chunk_def bit_ucast_iff bit_take_bit_iff bit_drop_bit_eq
        bit_set_bit_iff line_size_def line_data_def nbits_def)
  then show ?thesis by auto
qed

section \<open>Transport\<close>

definition ip_idle :: "(bool list \<Rightarrow> bool) \<Rightarrow> ip \<Rightarrow> bool" where
  "ip_idle dummy d \<longleftrightarrow> ip_inv dummy d \<and> ip_arrivals dummy d = [] \<and> ip_txq d = []"

lemma loopback_send:
  assumes "ip_idle dummy (dev w)" and "csize c = of_nat n" "n mod 26 \<noteq> 0" "n mod 26 \<noteq> 25" "n < 64"
  shows "\<exists>d. sender_send_command (ip_bus dummy) stack c w = returns (w\<lparr>dev := d\<rparr>) \<and>
    ip_inv dummy d \<and> ip_txq d = [] \<and>
    ip_arrivals dummy d = map (word_of (line_size dummy n (result_data c))
      (line_data dummy n (result_data c))) [0..<n_packages n] @ [0]"
proof -
  have "n_packages n < 4" using assms(5) by (simp add: n_packages_def)
  then show ?thesis
    using ip.sender_send_command_returns[where dummy = dummy and w = w and c = c and n = n and stack = stack]
      assms ip_link_packages[OF assms(3-5), of dummy "result_data c"]
    by (simp add: ip_idle_def fifo_depth_def)
qed

lemma n_packages_line_size:
  "n mod 26 \<noteq> 25 \<Longrightarrow> n_packages (line_size dummy n rd) = n_packages n"
  by (auto simp: line_size_def n_packages_def div_Suc mod_Suc)

lemma package_data_0 [simp]: "package_data 0 = 0"
  by (simp add: package_data_def c_sar_def)

text \<open>The peripheral after the reset and the write of \<open>sender_is_preamble\<close>.\<close>

definition ip_configured :: ip where
  "ip_configured = ip_reset\<lparr>reg_settings := 0x112\<rparr>"

definition booted :: "ip machine" where
  "booted = \<lparr>dev = ip_configured, stdout = [], crc_table = crc_table_bss\<rparr>"

lemma ip_idle_configured: "ip_idle dummy ip_configured"
  by (simp add: ip_idle_def ip_inv_def ip_arrivals_def ip_on_air_def ip_txq_def ip_configured_def
      ip_reset_def)

lemma dev_booted [simp]: "dev booted = ip_configured"
  by (simp add: booted_def)

lemma loopback_transported:
  assumes "ip_idle dummy (dev w)"
    and "csize c = of_nat n" and "n mod 26 \<noteq> 0" and "n mod 26 \<noteq> 25" and "n < 64"
    and "\<forall>k < n_packages n. chunk n (result_data c) k \<noteq> 0"
    and "n_packages n \<le> length vec" and "int (n_packages n) \<le> sint quant"
  shows "\<exists>d. and_then (sender_send_command (ip_bus dummy) stack c w)
      (receiver_get_package (ip_bus dummy) vec quant) =
    returns (0, chunks (line_size dummy n (result_data c)) (line_data dummy n (result_data c)) @
                drop (n_packages n) vec,
             of_nat (line_size dummy n (result_data c)), c_printf msg_eop [] (w\<lparr>dev := d\<rparr>)) \<and>
    ip_idle dummy d"
proof -
  let ?m = "line_size dummy n (result_data c)" and ?rd = "line_data dummy n (result_data c)"
  let ?ws = "map (word_of ?m ?rd) [0..<n_packages n]"
  note m = n_packages_line_size[OF assms(4), of dummy "result_data c"]
  obtain d where d: "sender_send_command (ip_bus dummy) stack c w = returns (w\<lparr>dev := d\<rparr>)"
      "ip_inv dummy d" "ip_txq d = []" "ip_arrivals dummy d = ?ws @ [0]"
    using loopback_send[OF assms(1-5), of stack] by blast
  have data: "map package_data ?ws = chunks ?m ?rd"
    by (simp add: chunks_def m package_data_word_of comp_def)
  have size: "sum_list (map package_mask_value ?ws) = of_nat ?m"
    using sum_mask_values[of ?m ?rd] by (simp only: m)
  have "\<forall>p \<in> set ?ws. package_data p \<noteq> 0"
    using assms(5,6) by (auto simp: package_data_word_of chunk_line_nonzero)
  then obtain d' where "receiver_get_package (ip_bus dummy) vec quant (w\<lparr>dev := d\<rparr>) =
      returns (0, chunks ?m ?rd @ drop (n_packages n) vec, of_nat ?m,
        c_printf msg_eop [] (w\<lparr>dev := d'\<rparr>))"
      "ip_inv dummy d'" "ip_txq d' = []" "ip_arrivals dummy d' = []"
    using ip.receiver_loop_returns[where w = "w\<lparr>dev := d\<rparr>" and dummy = dummy and ws = ?ws and z = 0
        and rest = "[]" and i = 0 and vec = vec and q = quant and ?p0.0 = 1 and sz = 0] assms(7,8) d
    unfolding receiver_get_package_def data size by auto
  with d(1) show ?thesis by (auto simp: ip_idle_def)
qed

text \<open>C2. A command of n < 64 bits, where n modulo 26 is neither 0 nor 25 and no chunk of 26 bits is zero, that is
  sent through the idle peripheral in loopback is received with status 0 when the array and
  \<open>quant_packages\<close> have room for its packages: the array holds the chunks of the bits on the line, the size is
  their number, and nothing else is left of the transmission.  What is on the line is the command, with one
  more bit 1 behind it where the line adds one (\<open>line_data\<close>, \<open>line_size\<close>).\<close>

theorem loopback_transport:
  assumes "ip_idle dummy (dev w)"
    and "csize c = of_nat n" and "n mod 26 \<noteq> 0" and "n mod 26 \<noteq> 25" and "n < 64"
    and "\<forall>k < n_packages n. chunk n (result_data c) k \<noteq> 0"
    and "n_packages n \<le> length vec" and "int (n_packages n) \<le> sint quant"
  shows "\<exists>d. and_then (sender_send_command (ip_bus dummy) stack c w)
      (receiver_get_package (ip_bus dummy) vec quant) =
    returns (0, chunks (line_size dummy n (result_data c)) (line_data dummy n (result_data c)) @
                drop (n_packages n) vec,
             of_nat (line_size dummy n (result_data c)), c_printf msg_eop [] (w\<lparr>dev := d\<rparr>)) \<and>
    ip_idle dummy d"
  using assms by (rule loopback_transported)

lemma loopback_transport_witness:
  "\<exists>d. and_then (sender_send_command (ip_bus (\<lambda>_. True)) (\<lambda>_. 0) \<lparr>csize = 32, result_data = 0x92345678\<rparr> booted)
      (receiver_get_package (ip_bus (\<lambda>_. True)) [7, 7, 7] 2) =
    returns (0, [0x2345678, 0x64, 7], 33, c_printf msg_eop [] (booted\<lparr>dev := d\<rparr>)) \<and>
    ip_idle (\<lambda>_. True) d"
proof -
  have "\<forall>k < n_packages 32. chunk 32 0x92345678 k \<noteq> 0" by code_simp
  moreover have "line_size (\<lambda>_. True) 32 0x92345678 = 33"
    "chunks 33 (line_data (\<lambda>_. True) 32 0x92345678) = [0x2345678, 0x64]" by code_simp+
  ultimately show ?thesis
    using loopback_transport[of "\<lambda>_. True" booted "\<lparr>csize = 32, result_data = 0x92345678\<rparr>" 32
        "[7, 7, 7]" 2 "\<lambda>_. 0"] ip_idle_configured[of "\<lambda>_. True"]
    by (simp add: n_packages_def)
qed

text \<open>C35. A receiver that expects one package too few stores outside its array.\<close>

theorem loopback_overflow:
  assumes "ip_idle dummy (dev w)"
    and "csize c = of_nat n" and "n mod 26 \<noteq> 0" and "n mod 26 \<noteq> 25" and "n < 64"
    and "\<forall>k < n_packages n. chunk n (result_data c) k \<noteq> 0"
    and "n_packages n = Suc (length vec)" and "sint quant = int (length vec)"
  shows "and_then (sender_send_command (ip_bus dummy) stack c w)
      (receiver_get_package (ip_bus dummy) vec quant) = undefined_run"
proof -
  let ?m = "line_size dummy n (result_data c)" and ?rd = "line_data dummy n (result_data c)"
  let ?ws = "map (word_of ?m ?rd) [0..<n_packages n]"
  obtain d where d: "sender_send_command (ip_bus dummy) stack c w = returns (w\<lparr>dev := d\<rparr>)"
      "ip_inv dummy d" "ip_arrivals dummy d = ?ws @ [0]"
    using loopback_send[OF assms(1-5), of stack] by blast
  have "\<forall>p \<in> set ?ws. package_data p \<noteq> 0"
    using assms(5,6) by (auto simp: package_data_word_of chunk_line_nonzero)
  then show ?thesis
    using ip.receiver_loop_overflow[where w = "w\<lparr>dev := d\<rparr>" and dummy = dummy and ws = ?ws
        and rest = "[0]" and i = 0 and vec = vec and q = quant and ?p0.0 = 1 and sz = 0] assms(7,8) d
    by (simp add: receiver_get_package_def)
qed

lemma loopback_overflow_witness:
  "and_then (sender_send_command (ip_bus (\<lambda>_. False)) (\<lambda>_. 0) \<lparr>csize = 32, result_data = 0x92345678\<rparr> booted)
      (receiver_get_package (ip_bus (\<lambda>_. False)) [7] 1) = undefined_run"
proof -
  have "\<forall>k < n_packages 32. chunk 32 0x92345678 k \<noteq> 0" by code_simp
  then show ?thesis
    using loopback_overflow[of "\<lambda>_. False" booted "\<lparr>csize = 32, result_data = 0x92345678\<rparr>" 32
        "[7]" 1 "\<lambda>_. 0"] ip_idle_configured[of "\<lambda>_. False"]
    by (simp add: n_packages_def)
qed

text \<open>A package without data ends the reception; what follows it stays in the FIFO.\<close>

theorem loopback_zero_package:
  assumes "ip_idle dummy (dev w)"
    and "csize c = of_nat n" and "n mod 26 \<noteq> 0" and "n mod 26 \<noteq> 25" and "n < 64"
    and "\<forall>j < k. chunk n (result_data c) j \<noteq> 0" and "k < n_packages n"
    and "chunk n (result_data c) k = 0"
    and "\<not> dummy (map (bit (result_data c)) [0..<n])"
    and "k \<le> length vec" and "int k \<le> sint quant"
  shows "\<exists>d. and_then (sender_send_command (ip_bus dummy) stack c w)
      (receiver_get_package (ip_bus dummy) vec quant) =
    returns (0, take k (chunks n (result_data c)) @ drop k vec, of_nat (26 * k),
             c_printf msg_eop [] (w\<lparr>dev := d\<rparr>)) \<and>
    ip_arrivals dummy d = map (word_of n (result_data c)) [Suc k..<n_packages n] @ [0]"
proof -
  let ?rd = "result_data c"
  let ?ws = "map (word_of n ?rd) [0..<k]"
  have l: "line_size dummy n ?rd = n" "line_data dummy n ?rd = ?rd"
    using assms(9) by (simp_all add: line_size_def line_data_def)
  have "[0..<n_packages n] = [0..<k] @ k # [Suc k..<n_packages n]"
    using assms(7) by (metis le0 upt_add_eq_append upt_conv_Cons less_imp_add_positive add_0)
  then obtain d where d: "sender_send_command (ip_bus dummy) stack c w = returns (w\<lparr>dev := d\<rparr>)"
      "ip_inv dummy d" "ip_arrivals dummy d =
        ?ws @ word_of n ?rd k # map (word_of n ?rd) [Suc k..<n_packages n] @ [0]"
    using loopback_send[OF assms(1-5), of stack] unfolding l by auto
  have data: "map package_data ?ws = take k (chunks n ?rd)"
    using assms(7) by (simp add: chunks_def package_data_word_of comp_def take_map min_absorb1)
  have full: "nbits n j = 26" if "j < k" for j
    using that assms(7) by (intro nbits_full) (simp add: n_packages_def)
  have size: "sum_list (map package_mask_value ?ws) = of_nat (26 * k)"
  proof -
    have "map package_mask_value ?ws = replicate k 26"
      by (rule nth_equalityI) (simp_all add: package_mask_value_word_of full)
    then show ?thesis by (simp add: sum_list_replicate mult.commute)
  qed
  have "\<forall>p \<in> set ?ws. package_data p \<noteq> 0"
    using assms(6) by (auto simp: package_data_word_of)
  then show ?thesis
    using ip.receiver_loop_returns[where w = "w\<lparr>dev := d\<rparr>" and dummy = dummy and ws = ?ws
        and z = "word_of n ?rd k" and rest = "map (word_of n ?rd) [Suc k..<n_packages n] @ [0]"
        and i = 0 and vec = vec and q = quant and ?p0.0 = 1 and sz = 0] assms(8,10,11) d
    unfolding receiver_get_package_def data size by (auto simp: package_data_word_of)
qed

lemma loopback_zero_package_witness:
  "\<exists>d. and_then (sender_send_command (ip_bus (\<lambda>_. False)) (\<lambda>_. 0) \<lparr>csize = 32, result_data = 0x90000000\<rparr> booted)
      (receiver_get_package (ip_bus (\<lambda>_. False)) [7, 7] 2) =
    returns (0, [7, 7], 0, c_printf msg_eop [] (booted\<lparr>dev := d\<rparr>)) \<and>
    ip_arrivals (\<lambda>_. False) d = [0x906, 0]"
proof -
  have "chunk 32 0x90000000 0 = 0" "word_of 32 0x90000000 1 = 0x906" "n_packages 32 = 2"
    by code_simp+
  then show ?thesis
    using loopback_zero_package[of "\<lambda>_. False" booted "\<lparr>csize = 32, result_data = 0x90000000\<rparr>" 32
        0 "[7, 7]" 2 "\<lambda>_. 0"] ip_idle_configured[of "\<lambda>_. False"]
    by (simp add: numeral_2_eq_2 upt_rec)
qed

end
