(* ===== verification/Classify.thy ===== *)
theory Classify
  imports Loopback
begin

text \<open>
  Which label \<open>rfid_check_command\<close> gives to what the receiver returns: for each builder of
  helpers/commands the label of the command it builds, with and without the extra bit the
  line may add, and for every message of a given size the headers the validators accept.
\<close>

section \<open>Bit fields of a command\<close>

text \<open>\<open>t\<close> bits of the message from bit \<open>j\<close> on.\<close>

definition field :: "u64 \<Rightarrow> nat \<Rightarrow> nat \<Rightarrow> cint" where
  "field rd j t = ucast (take_bit t (drop_bit j rd))"

lemma bit_field: "bit (field rd j t) i \<longleftrightarrow> i < 32 \<and> i < t \<and> bit rd (j + i)"
  by (auto simp: field_def bit_ucast_iff bit_take_bit_iff bit_drop_bit_eq dest: bit_imp_le_length)

lemma bit_chunk: "bit (chunk n rd k) i \<longleftrightarrow> i < nbits n k \<and> bit rd (26 * k + i)"
  using nbits_bound[of n k]
  by (auto simp: chunk_def bit_ucast_iff bit_take_bit_iff bit_drop_bit_eq)

lemma take_bit_chunk_min:
  "take_bit t (c_sar (chunk n rd k) s) = field rd (26 * k + s) (min t (nbits n k - s))"
proof (rule word_eqI_bits)
  fix i assume "i < LENGTH(32)"
  then show "bit (take_bit t (c_sar (chunk n rd k) s)) i =
      bit (field rd (26 * k + s) (min t (nbits n k - s))) i"
    using nbits_bound[of n k]
    by (auto simp: bit_take_bit_iff c_sar_def bit_signed_drop_bit_iff bit_chunk bit_field ac_simps)
qed

lemma take_bit_chunk:
  "s + t \<le> nbits n k \<Longrightarrow> take_bit t (c_sar (chunk n rd k) s) = field rd (26 * k + s) t"
  by (simp add: take_bit_chunk_min min_absorb1)

lemma field_line_data:
  "j + t \<le> n \<Longrightarrow> n < 64 \<Longrightarrow> field (line_data dummy n rd) j t = field rd j t"
  by (rule word_eqI_bits) (auto simp: bit_field line_data_def bit_set_bit_iff)

text \<open>The two possible sizes, and the chunks behind the array accesses of the validators.\<close>

lemma line_cases:
  assumes "n < 64" "n mod 26 \<noteq> 25"
  obtains m x where "line_size dummy n rd = m" "line_data dummy n rd = x" "m = n \<or> m = Suc n"
    "n_packages m = n_packages n" "\<And>j t. j + t \<le> n \<Longrightarrow> field x j t = field rd j t"
    "\<And>i. i < n \<Longrightarrow> bit x i = bit rd i"
proof
  show "line_size dummy n rd = n \<or> line_size dummy n rd = Suc n" by (simp add: line_size_def)
  show "n_packages (line_size dummy n rd) = n_packages n"
    using assms(2) by (rule n_packages_line_size)
  show "field (line_data dummy n rd) j t = field rd j t" if "j + t \<le> n" for j t
    using that assms(1) by (rule field_line_data)
  show "bit (line_data dummy n rd) i = bit rd i" if "i < n" for i
    using that assms(1) by (auto simp: line_data_def bit_set_bit_iff)
qed simp_all

lemma arr_get_chunks [simp]:
  "k < n_packages n \<Longrightarrow> arr_get (chunks n rd @ rest) k = Some (chunk n rd k)"
  by (simp add: nth_append chunks_def)

lemma nth_chunks [simp]: "k < n_packages n \<Longrightarrow> (chunks n rd @ rest) ! k = chunk n rd k"
  by (simp add: nth_append chunks_def)

lemma c_sar_0 [simp]: "c_sar x 0 = x"
  by (simp add: c_sar_def)

lemma crc_16_loop_defined: "n \<le> 4 \<Longrightarrow> \<exists>r'. crc_16_loop tbl m n i r = Some r'"
proof (induction tbl m n i r rule: crc_16_loop.induct)
  case (1 tbl m n i r)
  show ?case
  proof (cases "int i < n")
    case True
    then have "i * 8 < 32" using "1.prems" by linarith
    with "1.IH"[OF True this refl refl] "1.prems" True show ?thesis
      by (subst crc_16_loop.simps) (simp add: Let_def)
  next
    case False
    then show ?thesis by (subst crc_16_loop.simps) simp
  qed
qed

lemma crc_16_ccitt_defined: "sint n \<le> 4 \<Longrightarrow> \<exists>r. crc_16_ccitt tbl m n = Some r"
  by (simp add: crc_16_ccitt_def crc_16_loop_defined)

section \<open>The validators on a message of \<open>n\<close> bits\<close>

lemma of_nat_cint_eq_iff:
  "n < 2 ^ 31 \<Longrightarrow> k < 2 ^ 31 \<Longrightarrow> (of_nat n :: cint) = of_nat k \<longleftrightarrow> n = k"
  using of_nat_eq_iff_unat[of n "of_nat k :: cint"] of_nat_eq_iff_unat[of k "of_nat k :: cint"]
  by auto

lemma size_iff:
  assumes "n < 2 ^ 31" "s = of_nat k" "k < 2 ^ 31 - 1"
  shows "(of_nat n :: cint) \<noteq> s \<and> (of_nat n :: cint) \<noteq> s + 1 \<longleftrightarrow> n \<notin> {k, Suc k}"
proof -
  have "s + 1 = of_nat (Suc k)" using assms(2) by simp
  then show ?thesis using assms of_nat_cint_eq_iff[of n k] of_nat_cint_eq_iff[of n "Suc k"] by auto
qed

lemma size_guards:
  assumes "n < 2 ^ 31"
  shows "(of_nat n :: cint) \<noteq> ACK_SIZE \<and> (of_nat n :: cint) \<noteq> ACK_SIZE + 1 \<longleftrightarrow> n \<notin> {18, Suc 18}"
    and "(of_nat n :: cint) \<noteq> NAK_SIZE \<and> (of_nat n :: cint) \<noteq> NAK_SIZE + 1 \<longleftrightarrow> n \<notin> {8, Suc 8}"
    and "(of_nat n :: cint) \<noteq> QUERY_SIZE \<and> (of_nat n :: cint) \<noteq> QUERY_SIZE + 1 \<longleftrightarrow> n \<notin> {22, Suc 22}"
    and "(of_nat n :: cint) \<noteq> REQ_RN_SIZE \<and> (of_nat n :: cint) \<noteq> REQ_RN_SIZE + 1 \<longleftrightarrow> n \<notin> {40, Suc 40}"
    and "(of_nat n :: cint) \<noteq> RN_CRC_SIZE \<and> (of_nat n :: cint) \<noteq> RN_CRC_SIZE + 1 \<longleftrightarrow> n \<notin> {32, Suc 32}"
    and "(of_nat n :: cint) \<noteq> KILL_SIZE \<and> (of_nat n :: cint) \<noteq> KILL_SIZE + 1 \<longleftrightarrow> n \<notin> {59, Suc 59}"
    and "(of_nat n :: cint) \<noteq> QUERY_ADJUST_SIZE \<and> (of_nat n :: cint) \<noteq> QUERY_ADJUST_SIZE + 1 \<longleftrightarrow> n \<notin> {9, Suc 9}"
    and "(of_nat n :: cint) \<noteq> QUERY_REP_SIZE \<and> (of_nat n :: cint) \<noteq> QUERY_REP_SIZE + 1 \<longleftrightarrow> n \<notin> {4, Suc 4}"
    and "(of_nat n :: cint) \<noteq> READ_SIZE \<and> (of_nat n :: cint) \<noteq> READ_SIZE + 1 \<longleftrightarrow> n \<notin> {57, Suc 57}"
    and "(of_nat n :: cint) \<noteq> WRITE_SIZE \<and> (of_nat n :: cint) \<noteq> WRITE_SIZE + 1 \<longleftrightarrow> n \<notin> {58, Suc 58}"
    and "(of_nat n :: cint) \<noteq> RN16_SIZE \<and> (of_nat n :: cint) \<noteq> RN16_SIZE + 1 \<longleftrightarrow> n \<notin> {16, Suc 16}"
  by (rule size_iff[OF assms]; simp add: command_defs)+

definition ack_message :: "nat \<Rightarrow> u64 \<Rightarrow> bool" where
  "ack_message n x \<longleftrightarrow> n \<in> {18, 19} \<and> field x 16 2 = ACK_COMMAND"

definition nak_message :: "nat \<Rightarrow> u64 \<Rightarrow> bool" where
  "nak_message n x \<longleftrightarrow> n \<in> {8, 9} \<and> field x 0 8 = NAK_COMMAND"

definition query_message :: "nat \<Rightarrow> u64 \<Rightarrow> bool" where
  "query_message n x \<longleftrightarrow> n \<in> {22, 23} \<and> field x 18 4 = QUERY_COMMAND \<and> field x 0 5 = 12"

definition query_adjust_message :: "nat \<Rightarrow> u64 \<Rightarrow> bool" where
  "query_adjust_message n x \<longleftrightarrow> n \<in> {9, 10} \<and> field x 5 4 = QUERY_ADJUST_COMMAND"

definition query_rep_message :: "nat \<Rightarrow> u64 \<Rightarrow> bool" where
  "query_rep_message n x \<longleftrightarrow> n \<in> {4, 5} \<and> field x 2 2 = QUERY_REP_COMMAND"

text \<open>Of the sixteen bits of the random number only ten enter the CRC of a Req_RN.\<close>

definition req_rn_message :: "crc_table \<Rightarrow> nat \<Rightarrow> u64 \<Rightarrow> bool" where
  "req_rn_message tbl n x \<longleftrightarrow> n \<in> {40, 41} \<and> field x 32 8 = REQ_RN_COMMAND \<and>
     crc_16_ccitt tbl (push_bit 16 REQ_RN_COMMAND OR field x 16 10) 3 = Some (ucast (field x 0 16))"

definition rn_crc_message :: "crc_table \<Rightarrow> nat \<Rightarrow> u64 \<Rightarrow> bool" where
  "rn_crc_message tbl n x \<longleftrightarrow> n \<in> {32, 33} \<and>
     crc_16_ccitt tbl (field x 16 16) 3 = Some (ucast (field x 0 16))"

text \<open>The header of a Kill is compared without bit 5, and with the extra bit if there is one.\<close>

definition kill_message :: "nat \<Rightarrow> u64 \<Rightarrow> bool" where
  "kill_message n x \<longleftrightarrow> n \<in> {59, 60} \<and> field x 51 (n - 51) \<in> {0xC4, 0xE4}"

text \<open>The header of a Read is taken from bits 52 to 54 and 26 to 30.\<close>

definition read_message :: "nat \<Rightarrow> u64 \<Rightarrow> bool" where
  "read_message n x \<longleftrightarrow> n \<in> {57, 58} \<and> field x 52 3 = 6 \<and> field x 26 5 = 2"

lemma ack_validate_chunks:
  assumes "n < 2 ^ 31"
  shows "ack_validate (chunks n x @ rest) (of_nat n) = Some (ack_message n x)"
proof (cases "ack_message n x \<or> n \<in> {18, 19}")
  case True
  then have n: "n = 18 \<or> n = 19" by (auto simp: ack_message_def)
  then have "take_bit 2 (c_sar (chunk n x 0) 16) = field x 16 2"
    "0 < n_packages n"
    using take_bit_chunk[of 16 2 n 0 x] by (auto simp: nbits_def n_packages_def)
  with n show ?thesis
    by (auto simp: ack_validate_def size_guards[OF assms] and_masks ack_message_def)
next
  case False
  then show ?thesis by (simp add: ack_validate_def size_guards[OF assms] ack_message_def)
qed

lemma nak_validate_chunks:
  assumes "n < 2 ^ 31"
  shows "nak_validate (chunks n x @ rest) (of_nat n) = Some (nak_message n x)"
proof (cases "nak_message n x \<or> n \<in> {8, 9}")
  case True
  then have n: "n = 8 \<or> n = 9" by (auto simp: nak_message_def)
  then have "take_bit 8 (c_sar (chunk n x 0) 0) = field x 0 8"
    "0 < n_packages n"
    using take_bit_chunk[of 0 8 n 0 x] by (auto simp: nbits_def n_packages_def)
  with n show ?thesis
    by (auto simp: nak_validate_def size_guards[OF assms] and_masks nak_message_def)
next
  case False
  then show ?thesis by (simp add: nak_validate_def size_guards[OF assms] nak_message_def)
qed

lemma query_adjust_validate_chunks:
  assumes "n < 2 ^ 31"
  shows "query_adjust_validate (chunks n x @ rest) (of_nat n) = Some (query_adjust_message n x)"
proof (cases "query_adjust_message n x \<or> n \<in> {9, 10}")
  case True
  then have n: "n = 9 \<or> n = 10" by (auto simp: query_adjust_message_def)
  then have "take_bit 4 (c_sar (chunk n x 0) 5) = field x 5 4"
    "0 < n_packages n"
    using take_bit_chunk[of 5 4 n 0 x] by (auto simp: nbits_def n_packages_def)
  with n show ?thesis
    by (auto simp: query_adjust_validate_def size_guards[OF assms] and_masks query_adjust_message_def)
next
  case False
  then show ?thesis by (simp add: query_adjust_validate_def size_guards[OF assms] query_adjust_message_def)
qed

lemma query_rep_validate_chunks:
  assumes "n < 2 ^ 31"
  shows "query_rep_validate (chunks n x @ rest) (of_nat n) = Some (query_rep_message n x)"
proof (cases "query_rep_message n x \<or> n \<in> {4, 5}")
  case True
  then have n: "n = 4 \<or> n = 5" by (auto simp: query_rep_message_def)
  then have "take_bit 2 (c_sar (chunk n x 0) 2) = field x 2 2"
    "0 < n_packages n"
    using take_bit_chunk[of 2 2 n 0 x] by (auto simp: nbits_def n_packages_def simp flip: numeral_2_eq_2)
  with n show ?thesis
    by (auto simp: query_rep_validate_def size_guards[OF assms] and_masks query_rep_message_def)
next
  case False
  then show ?thesis by (simp add: query_rep_validate_def size_guards[OF assms] query_rep_message_def)
qed

text \<open>Fields joined by a validator.\<close>

lemma chunk_field: "chunk n x k = field x (26 * k) (nbits n k)"
  using nbits_bound[of n k] by (intro word_eqI_bits) (auto simp: bit_chunk bit_field)

lemma field_append:
  "s + t \<le> 32 \<Longrightarrow> push_bit s (field x (j + s) t) OR field x j s = field x j (s + t)"
  by (rule word_eqI_bits) (auto simp: bit_or_iff bit_push_bit_iff bit_field)

lemma field_eq_ucast: "field x j 16 = ucast r \<longleftrightarrow> r = ucast (field x j 16)" for r :: u16
proof
  assume "field x j 16 = ucast r"
  then have "ucast (field x j 16) = (ucast (ucast r :: cint) :: u16)" by simp
  also have "\<dots> = r" by (rule word_eqI_bits) (auto simp: bit_ucast_iff)
  finally show "r = ucast (field x j 16)" by simp
next
  assume "r = ucast (field x j 16)"
  then show "field x j 16 = ucast r"
    by (simp, intro word_eqI_bits) (auto simp: bit_field bit_ucast_iff)
qed

lemma and_kill_mask:
  fixes y :: cint
  assumes "take_bit 9 y = y"
  shows "y AND 0x1DF = 0xC4 \<longleftrightarrow> y \<in> {0xC4, 0xE4}"
proof -
  have "y = take_bit 9 y AND (0x1DF OR 0x20)" by (simp add: and_low_mask[of _ 9] assms)
  also have "\<dots> = (y AND 0x1DF) OR (y AND 0x20)" by (simp only: assms bit.conj_disj_distrib)
  finally have y: "y = (y AND 0x1DF) OR (y AND 0x20)" .
  have "y AND 0x20 = (if bit y 5 then 0x20 else 0)" using and_exp[of y 5] by simp
  then have "y AND 0x1DF = 0xC4 \<Longrightarrow> y \<in> {0xC4, 0xE4}" by (subst y) (auto split: if_splits)
  then show ?thesis by auto
qed

lemma join_masked:
  fixes a b m :: cint
  assumes "take_bit 1 b = b"
  shows "push_bit 1 (a AND m) OR b = (push_bit 1 a OR b) AND (push_bit 1 m OR 1)"
proof (rule word_eqI_bits)
  fix i assume i: "i < LENGTH(32)"
  have "bit b i \<longleftrightarrow> i = 0 \<and> bit b 0"
    by (subst assms[symmetric]) (auto simp: bit_take_bit_iff bit_0)
  then show "bit (push_bit 1 (a AND m) OR b) i = bit ((push_bit 1 a OR b) AND (push_bit 1 m OR 1)) i"
    using i by (auto simp: bit_and_iff bit_or_iff bit_push_bit_iff bit_1_iff simp del: push_bit_Suc)
qed

lemma join_3_5:
  "push_bit 5 (field x i 3) OR field x j 5 = 0xC2 \<longleftrightarrow> field x i 3 = 6 \<and> field x j 5 = 2"
proof
  let ?w = "push_bit 5 (field x i 3) OR field x j 5"
  assume w: "?w = 0xC2"
  have "take_bit 5 ?w = field x j 5"
    by (rule word_eqI_bits) (auto simp: bit_take_bit_iff bit_or_iff bit_push_bit_iff bit_field)
  moreover have "drop_bit 5 ?w = field x i 3"
    by (rule word_eqI_bits)
       (auto simp: bit_drop_bit_eq bit_or_iff bit_push_bit_iff bit_field dest: bit_imp_le_length)
  ultimately show "field x i 3 = 6 \<and> field x j 5 = 2" unfolding w by auto
qed simp

lemma query_validate_chunks:
  assumes "n < 2 ^ 31"
  shows "query_validate (chunks n x @ rest) (of_nat n) = Some (query_message n x)"
proof (cases "query_message n x \<or> n \<in> {22, 23}")
  case True
  then have n: "n = 22 \<or> n = 23" by (auto simp: query_message_def)
  then have "take_bit 4 (c_sar (chunk n x 0) 18) = field x 18 4" "take_bit 5 (c_sar (chunk n x 0) 0) = field x 0 5"
    "0 < n_packages n"
    using take_bit_chunk[of 18 4 n 0 x] take_bit_chunk[of 0 5 n 0 x] by (auto simp: nbits_def n_packages_def)
  with n show ?thesis
    by (auto simp: query_validate_def size_guards[OF assms] and_masks crc5_value query_message_def)
next
  case False
  then show ?thesis by (simp add: query_validate_def size_guards[OF assms] query_message_def)
qed

text \<open>The comparison of a received CRC with a calculated one.\<close>

lemma crc_compare:
  "(do { c \<leftarrow> crc_16_ccitt tbl m 3; if field x j 16 \<noteq> int_of_u16 c then Some False else Some True }) =
     Some (crc_16_ccitt tbl m 3 = Some (ucast (field x j 16)))"
  using crc_16_ccitt_defined[of 3 tbl m] by (auto simp: field_eq_ucast)

lemma rn_crc_validate_chunks:
  assumes "n < 2 ^ 31"
  shows "rn_crc_validate tbl (chunks n x @ rest) (of_nat n) = Some (rn_crc_message tbl n x)"
proof (cases "n \<in> {32, 33}")
  case True
  then have "take_bit 6 (c_sar (chunk n x 1) 0) = field x 26 6"
    "take_bit 10 (c_sar (chunk n x 0) 16) = field x 16 10"
    "take_bit 16 (c_sar (chunk n x 0) 0) = field x 0 16" "1 < n_packages n"
    using take_bit_chunk[of 0 6 n 1 x] take_bit_chunk[of 16 10 n 0 x] take_bit_chunk[of 0 16 n 0 x]
    by (auto simp: nbits_def n_packages_def)
  with True show ?thesis
    using field_append[of 10 6 x 16] crc_compare[of tbl "field x 16 16" x 0]
    by (auto simp: rn_crc_validate_def size_guards[OF assms] and_masks rn_crc_message_def)
next
  case False
  then show ?thesis by (simp add: rn_crc_validate_def size_guards[OF assms] rn_crc_message_def)
qed

lemma req_rn_validate_chunks:
  assumes "n < 2 ^ 31"
  shows "req_rn_validate tbl (chunks n x @ rest) (of_nat n) = Some (req_rn_message tbl n x)"
proof (cases "n \<in> {40, 41}")
  case True
  then have "take_bit 8 (c_sar (chunk n x 1) 6) = field x 32 8"
    "take_bit 16 (c_sar (chunk n x 0) 16) = field x 16 10"
    "take_bit 16 (c_sar (chunk n x 0) 0) = field x 0 16" "1 < n_packages n"
    using take_bit_chunk[of 6 8 n 1 x] take_bit_chunk_min[of 16 n x 0 16] take_bit_chunk[of 0 16 n 0 x]
    by (auto simp: nbits_def n_packages_def)
  moreover have "take_bit 16 (field x 16 10) = field x 16 10"
    by (rule word_eqI_bits) (auto simp: bit_field bit_take_bit_iff)
  ultimately show ?thesis
    using True crc_compare[of tbl "push_bit 16 REQ_RN_COMMAND OR field x 16 10" x 0]
    by (auto simp: req_rn_validate_def size_guards[OF assms] and_masks req_rn_message_def Let_def)
next
  case False
  then show ?thesis by (simp add: req_rn_validate_def size_guards[OF assms] req_rn_message_def)
qed

lemma read_validate_chunks:
  assumes "n < 2 ^ 31"
  shows "read_validate (chunks n x @ rest) (of_nat n) = Some (read_message n x)"
proof (cases "read_message n x \<or> n \<in> {57, 58}")
  case True
  then have n: "n = 57 \<or> n = 58" by (auto simp: read_message_def)
  then have "take_bit 3 (c_sar (chunk n x 2) 0) = field x 52 3" "take_bit 5 (c_sar (chunk n x 1) 0) = field x 26 5"
    "2 < n_packages n"
    using take_bit_chunk[of 0 3 n 2 x] take_bit_chunk[of 0 5 n 1 x] by (auto simp: nbits_def n_packages_def)
  with n show ?thesis
    by (auto simp: read_validate_def size_guards[OF assms] and_masks join_3_5 READ_COMMAND_def read_message_def)
next
  case False
  then show ?thesis by (simp add: read_validate_def size_guards[OF assms] read_message_def)
qed

lemma kill_validate_chunks:
  assumes "n < 2 ^ 31"
  shows "kill_validate (chunks n x @ rest) (of_nat n) = Some (kill_message n x)"
proof (cases "n \<in> {59, 60}")
  case True
  let ?y = "field x 51 (n - 51)"
  from True have c: "chunk n x 2 = field x 52 (n - 52)" "2 < n_packages n"
    "take_bit 1 (c_sar (chunk n x 1) 25) = field x 51 1"
    using chunk_field[of n x 2] take_bit_chunk[of 25 1 n 1 x] by (auto simp: nbits_def n_packages_def)
  have "take_bit 1 (field x 51 1) = field x 51 1"
    using bit_field[of x 51 1 0] by (intro word_eqI_bits) (auto simp: bit_field bit_take_bit_iff bit_0)
  moreover have "push_bit 1 (field x 52 (n - 52)) OR field x 51 1 = ?y"
    using True field_append[of 1 "n - 52" x 51] by auto
  ultimately have "push_bit 1 (field x 52 (n - 52) AND 0xEF) OR field x 51 1 = ?y AND 0x1DF"
    using join_masked[of "field x 51 1" "field x 52 (n - 52)" "0xEF"] by simp
  moreover have "take_bit 9 ?y = ?y"
    using True by (intro word_eqI_bits) (auto simp: bit_field bit_take_bit_iff)
  ultimately show ?thesis
    using c True and_kill_mask[of ?y] and_low_mask[of 1 1 "c_sar (chunk n x 1) 25"]
    by (simp add: kill_validate_def size_guards[OF assms] kill_message_def KILL_COMMAND_def)
next
  case False
  then show ?thesis by (simp add: kill_validate_def size_guards[OF assms] kill_message_def)
qed

text \<open>A Write is never recognised: what is left of its third package is too short.\<close>

lemma write_validate_chunks:
  assumes "n < 2 ^ 31"
  shows "write_validate (chunks n x @ rest) (of_nat n) = Some False"
proof (cases "n \<in> {58, 59}")
  case True
  then have "take_bit 8 (c_sar (chunk n x 2) 2) = field x 54 (n - 54)" "2 < n_packages n"
    using take_bit_chunk_min[of 8 n x 2 2] by (auto simp: nbits_def n_packages_def)
  moreover have "\<not> bit (field x 54 (n - 54)) 7" using True by (auto simp: bit_field)
  then have "field x 54 (n - 54) \<noteq> 0xC3" by auto
  ultimately show ?thesis
    using True by (auto simp: write_validate_def size_guards[OF assms] and_masks WRITE_COMMAND_def)
next
  case False
  then show ?thesis by (simp add: write_validate_def size_guards[OF assms])
qed

lemma rn16_validate_size: "n < 2 ^ 31 \<Longrightarrow> rn16_validate (of_nat n) = Some (n \<in> {16, 17})"
  by (simp add: rn16_validate_def size_guards)

lemmas validate_chunks = ack_validate_chunks nak_validate_chunks query_validate_chunks
  query_adjust_validate_chunks query_rep_validate_chunks req_rn_validate_chunks
  rn_crc_validate_chunks kill_validate_chunks read_validate_chunks write_validate_chunks
  rn16_validate_size

section \<open>What the classifier computes\<close>

definition label_of :: "crc_table \<Rightarrow> nat \<Rightarrow> u64 \<Rightarrow> cint" where
  "label_of tbl n x =
     (if ack_message n x then ACK_LABEL
      else if nak_message n x then NAK_LABEL
      else if query_message n x then QUERY_LABEL
      else if req_rn_message tbl n x then REQ_RN_LABEL
      else if rn_crc_message tbl n x then RN_CRC_LABEL
      else if kill_message n x then KILL_LABEL
      else if query_adjust_message n x then QUERY_ADJUST_LABEL
      else if query_rep_message n x then QUERY_REP_LABEL
      else if read_message n x then READ_LABEL
      else if n \<in> {16, 17} then RN16_LABEL
      else - 1)"

lemma rfid_check_command_label:
  assumes "n < 2 ^ 31"
  shows "rfid_check_command tbl (chunks n x @ rest) (of_nat n) = Some (label_of tbl n x)"
  unfolding rfid_check_command_def label_of_def
  by (simp add: validate_chunks[OF assms] lock_validate_def select_validate_def)

text \<open>C5. The classifier computes \<open>label_of\<close> on the packages of every message.\<close>

theorem rfid_check_command_refines:
  assumes "n < 2 ^ 31"
  shows "rfid_check_command tbl (chunks n x @ rest) (of_nat n) = Some (label_of tbl n x)"
  using assms by (rule rfid_check_command_label)

lemma rfid_check_command_refines_witness:
  "rfid_check_command crc_table_bss (chunks 8 0xC0 @ []) 8 = Some NAK_LABEL"
proof -
  have "label_of crc_table_bss 8 0xC0 = NAK_LABEL" by code_simp
  then show ?thesis
    using rfid_check_command_refines[of 8 crc_table_bss "0xC0" "[]"] by (simp only: of_nat_numeral) simp
qed

end
