(* ===== verification/Builders.thy ===== *)
theory Builders
  imports Classify
begin

text \<open>
  The commands the builders lay out, read back field by field, and what \<open>rfid_check_command\<close>
  says of them after the way through the line.
\<close>

section \<open>What arrives\<close>

definition received :: "(bool list \<Rightarrow> bool) \<Rightarrow> command \<Rightarrow> cint list" where
  "received dummy c =
     (let n = unat (csize c)
      in chunks (line_size dummy n (result_data c)) (line_data dummy n (result_data c)))"

definition received_size :: "(bool list \<Rightarrow> bool) \<Rightarrow> command \<Rightarrow> cint" where
  "received_size dummy c = of_nat (line_size dummy (unat (csize c)) (result_data c))"

text \<open>The label of what arrives depends on the fields of the command that was sent.\<close>

lemma received_label:
  assumes "csize c = of_nat n" "n < 64" "n mod 26 \<noteq> 25"
    and "\<And>m x. m = n \<or> m = Suc n \<Longrightarrow>
      (\<And>j t. j + t \<le> n \<Longrightarrow> field x j t = field (result_data c) j t) \<Longrightarrow> label_of tbl m x = l"
  shows "rfid_check_command tbl (received dummy c @ rest) (received_size dummy c) = Some l"
proof -
  have n: "unat (csize c) = n"
    using assms(1,2) of_nat_eq_iff_unat[of n "csize c"] by simp
  obtain m x where mx: "line_size dummy n (result_data c) = m" "line_data dummy n (result_data c) = x"
      "m = n \<or> m = Suc n" "\<And>j t. j + t \<le> n \<Longrightarrow> field x j t = field (result_data c) j t"
    using line_cases[of n dummy "result_data c" thesis] assms(2,3) by metis
  have "m < 2 ^ 31" using mx(3) assms(2) by auto
  then show ?thesis
    using rfid_check_command_label[of m tbl x rest] assms(4)[of m x] mx
    by (simp add: received_def received_size_def n)
qed

section \<open>Bits of the builders' expressions\<close>

lemma bit_u64_of_int:
  "bit (u64_of_int x) i \<longleftrightarrow> i < 64 \<and> bit x (min i 31)"
  by (auto simp: bit_signed_iff min_def)

lemma bit_imp_less_unat:
  fixes x :: "'a::len word"
  assumes "unat x < 2 ^ k" "bit x i"
  shows "i < k"
proof (rule ccontr)
  assume "\<not> i < k"
  then have "unat x < 2 ^ i"
    using assms(1) by (meson le_less_trans not_less less_le_trans one_le_numeral power_increasing)
  then have "\<not> bit (unat x) i" by (simp add: bit_iff_odd)
  then show False using assms(2) by (simp add: bit_unsigned_iff)
qed

lemma u64_of_int_or: "u64_of_int (x OR y) = u64_of_int x OR u64_of_int y"
  by (rule word_eqI_bits) (auto simp: bit_u64_of_int bit_or_iff)

lemma u64_of_int_low: "k < 32 \<Longrightarrow> u64_of_int (take_bit k x) = ucast (take_bit k x)"
  by (rule word_eqI_bits)
     (auto simp: bit_u64_of_int bit_take_bit_iff bit_ucast_iff min_def dest: bit_imp_le_length)

lemma u64_of_int_shift_u8:
  "s \<le> 23 \<Longrightarrow> u64_of_int (push_bit s (int_of_u8 y)) = push_bit s (ucast y)"
  by (rule word_eqI_bits)
     (auto simp: bit_u64_of_int bit_push_bit_iff bit_ucast_iff min_def dest: bit_imp_le_length)

lemma u64_of_int_u8: "u64_of_int (int_of_u8 y) = push_bit 0 (ucast y)"
  using u64_of_int_shift_u8[of 0 y] by simp

lemma u64_of_int_u16: "u64_of_int (int_of_u16 y) = push_bit 0 (ucast y)"
  by (rule word_eqI_bits)
     (auto simp: bit_u64_of_int bit_ucast_iff min_def dest: bit_imp_le_length)

lemma field_or: "field (a OR b) j t = field a j t OR field b j t"
  by (rule word_eqI_bits) (auto simp: bit_field bit_or_iff)

lemma field_above: "j + t \<le> s \<Longrightarrow> field (push_bit s z) j t = 0"
  by (rule word_eqI_bits) (auto simp: bit_field bit_push_bit_iff)

lemma field_below:
  "unat y < 2 ^ k \<Longrightarrow> s + k \<le> j \<Longrightarrow> field (push_bit s (ucast y)) j t = 0"
  by (rule word_eqI_bits)
     (auto simp: bit_field bit_push_bit_iff bit_ucast_iff dest: bit_imp_less_unat)

lemma field_exact:
  "unat y < 2 ^ t \<Longrightarrow> s + t \<le> 64 \<Longrightarrow> field (push_bit s (ucast y)) s t = ucast y"
  by (rule word_eqI_bits)
     (auto simp: bit_field bit_push_bit_iff bit_ucast_iff dest: bit_imp_less_unat)

lemmas builder_words = u64_of_int_or u64_of_int_shift_u8 u64_of_int_u8 u64_of_int_u16 push_bit_or
  push_bit_push_bit

section \<open>ACK, NAK and RN16\<close>

lemma ack_build_data: "result_data (ack_build rn) = 0x10000 OR push_bit 0 (ucast (take_bit 16 rn))"
  by (simp add: ack_build_def ACK_COMMAND_def and_masks u64_of_int_or u64_of_int_low)

lemma unat_take_bit_less: "unat (take_bit k x) < 2 ^ k" for x :: "'a::len word"
  by (simp add: unsigned_take_bit_eq)

lemma ack_build_fields:
  "field (result_data (ack_build rn)) 16 2 = ACK_COMMAND"
  "field (result_data (ack_build rn)) 0 16 = take_bit 16 rn"
  unfolding ack_build_data field_or
  using field_below[OF unat_take_bit_less[of 16 rn], of 0 16 2]
    field_exact[OF unat_take_bit_less[of 16 rn], of 0]
  by (simp_all add: field_def ACK_COMMAND_def)

section \<open>Query and its relatives\<close>

lemma query_build_data:
  "result_data (query_build dr m trext sel session target q) =
     0x200000 OR push_bit 17 (ucast dr) OR push_bit 15 (ucast m) OR push_bit 14 (ucast trext) OR
     push_bit 12 (ucast sel) OR push_bit 10 (ucast session) OR push_bit 9 (ucast target) OR
     push_bit 5 (ucast q) OR 12"
  by (simp add: query_build_def QUERY_COMMAND_def crc5_value builder_words) (simp add: ac_simps)

lemma query_adjust_data:
  "result_data (query_adjust_command session updn) =
     0x120 OR push_bit 3 (ucast session) OR push_bit 0 (ucast updn)"
  by (simp add: query_adjust_command_def QUERY_ADJUST_COMMAND_def builder_words or.assoc)

lemma query_rep_data: "result_data (query_rep_build session) = push_bit 0 (ucast session)"
  by (simp add: query_rep_build_def QUERY_REP_COMMAND_def u64_of_int_u8)

lemma query_build_header:
  assumes "unat dr < 2" "unat m < 4" "unat trext < 2" "unat sel < 4" "unat session < 4"
    "unat target < 2" "unat q < 16"
  shows "field (result_data (query_build dr m trext sel session target q)) 18 4 = QUERY_COMMAND"
    and "field (result_data (query_build dr m trext sel session target q)) 0 5 = 12"
  using field_below[of dr 1 17 18 4] field_below[of m 2 15 18 4] field_below[of trext 1 14 18 4]
    field_below[of sel 2 12 18 4] field_below[of session 2 10 18 4] field_below[of target 1 9 18 4]
    field_below[of q 4 5 18 4] assms
  unfolding query_build_data field_or
  by (simp_all add: field_above) (simp_all add: field_def QUERY_COMMAND_def)

text \<open>Every parameter of a Query can be read back from the command.\<close>

theorem query_build_fields:
  assumes "unat dr < 2" "unat m < 4" "unat trext < 2" "unat sel < 4" "unat session < 4"
    "unat target < 2" "unat q < 16"
  defines "x \<equiv> result_data (query_build dr m trext sel session target q)"
  shows "field x 17 1 = ucast dr \<and> field x 15 2 = ucast m \<and> field x 14 1 = ucast trext \<and>
    field x 12 2 = ucast sel \<and> field x 10 2 = ucast session \<and> field x 9 1 = ucast target \<and>
    field x 5 4 = ucast q"
proof -
  have "field x 17 1 = ucast dr"
    using field_below[of m 2 15 17 1] field_below[of trext 1 14 17 1] field_below[of sel 2 12 17 1]
      field_below[of session 2 10 17 1] field_below[of target 1 9 17 1] field_below[of q 4 5 17 1]
      field_exact[of dr 1 17] assms
    unfolding x_def query_build_data field_or by simp (simp add: field_def)
  moreover have "field x 15 2 = ucast m"
    using field_below[of trext 1 14 15 2] field_below[of sel 2 12 15 2]
      field_below[of session 2 10 15 2] field_below[of target 1 9 15 2] field_below[of q 4 5 15 2]
      field_exact[of m 2 15] assms
    unfolding x_def query_build_data field_or by (simp add: field_above) (simp add: field_def)
  moreover have "field x 14 1 = ucast trext"
    using field_below[of sel 2 12 14 1] field_below[of session 2 10 14 1]
      field_below[of target 1 9 14 1] field_below[of q 4 5 14 1] field_exact[of trext 1 14] assms
    unfolding x_def query_build_data field_or by (simp add: field_above) (simp add: field_def)
  moreover have "field x 12 2 = ucast sel"
    using field_below[of session 2 10 12 2] field_below[of target 1 9 12 2]
      field_below[of q 4 5 12 2] field_exact[of sel 2 12] assms
    unfolding x_def query_build_data field_or by (simp add: field_above) (simp add: field_def)
  moreover have "field x 10 2 = ucast session"
    using field_below[of target 1 9 10 2] field_below[of q 4 5 10 2] field_exact[of session 2 10] assms
    unfolding x_def query_build_data field_or by (simp add: field_above) (simp add: field_def)
  moreover have "field x 9 1 = ucast target"
    using field_below[of q 4 5 9 1] field_exact[of target 1 9] assms
    unfolding x_def query_build_data field_or by (simp add: field_above) (simp add: field_def)
  moreover have "field x 5 4 = ucast q"
    using field_exact[of q 4 5] assms
    unfolding x_def query_build_data field_or by (simp add: field_above) (simp add: field_def)
  ultimately show ?thesis by blast
qed

lemma query_build_fields_witness:
  "field (result_data (query_build 0 1 1 2 3 0 9)) 15 2 = 1 \<and>
   field (result_data (query_build 0 1 1 2 3 0 9)) 5 4 = 9"
  using query_build_fields[of 0 1 1 2 3 0 9] by simp

section \<open>Labels of what was built\<close>

lemma message_lengths:
  "n \<notin> {18, 19} \<Longrightarrow> \<not> ack_message n x" "n \<notin> {8, 9} \<Longrightarrow> \<not> nak_message n x"
  "n \<notin> {22, 23} \<Longrightarrow> \<not> query_message n x" "n \<notin> {9, 10} \<Longrightarrow> \<not> query_adjust_message n x"
  "n \<notin> {4, 5} \<Longrightarrow> \<not> query_rep_message n x" "n \<notin> {40, 41} \<Longrightarrow> \<not> req_rn_message tbl n x"
  "n \<notin> {32, 33} \<Longrightarrow> \<not> rn_crc_message tbl n x" "n \<notin> {59, 60} \<Longrightarrow> \<not> kill_message n x"
  "n \<notin> {57, 58} \<Longrightarrow> \<not> read_message n x"
  by (simp_all add: ack_message_def nak_message_def query_message_def query_adjust_message_def
      query_rep_message_def req_rn_message_def rn_crc_message_def kill_message_def read_message_def)

lemma label_of_rn16: "m \<in> {16, 17} \<Longrightarrow> label_of tbl m x = RN16_LABEL"
  unfolding label_of_def by (elim insertE; simp add: message_lengths)

lemma ack_nak_rn16_label:
  "rfid_check_command tbl (received dummy (ack_build rn) @ rest) (received_size dummy (ack_build rn))
     = Some ACK_LABEL \<and>
   rfid_check_command tbl (received dummy nak_build @ rest) (received_size dummy nak_build)
     = Some NAK_LABEL \<and>
   rfid_check_command tbl (received dummy rn16_build @ rest) (received_size dummy rn16_build)
     = Some RN16_LABEL"
proof -
  have "rfid_check_command tbl (received dummy (ack_build rn) @ rest)
      (received_size dummy (ack_build rn)) = Some ACK_LABEL"
  proof (rule received_label[where n = 18])
    show "label_of tbl m x = ACK_LABEL" if "m = 18 \<or> m = Suc 18"
      "\<And>j t. j + t \<le> 18 \<Longrightarrow> field x j t = field (result_data (ack_build rn)) j t" for m x
    proof -
      have "field x 16 2 = ACK_COMMAND" using that(2)[of 16 2] by (simp add: ack_build_fields)
      then show ?thesis using that(1) by (auto simp: label_of_def ack_message_def)
    qed
  qed (simp_all add: ack_build_def ACK_SIZE_def)
  moreover have "rfid_check_command tbl (received dummy nak_build @ rest)
      (received_size dummy nak_build) = Some NAK_LABEL"
  proof (rule received_label[where n = 8])
    show "label_of tbl m x = NAK_LABEL" if "m = 8 \<or> m = Suc 8"
      "\<And>j t. j + t \<le> 8 \<Longrightarrow> field x j t = field (result_data nak_build) j t" for m x
    proof -
      have "field x 0 8 = NAK_COMMAND" using that(2)[of 0 8] by (simp add: nak_build_def field_def NAK_COMMAND_def)
      then show ?thesis using that(1) by (auto simp: label_of_def message_lengths nak_message_def)
    qed
  qed (simp_all add: nak_build_def NAK_SIZE_def)
  moreover have "rfid_check_command tbl (received dummy rn16_build @ rest)
      (received_size dummy rn16_build) = Some RN16_LABEL"
  proof (rule received_label[where n = 16])
    show "label_of tbl m x = RN16_LABEL" if "m = 16 \<or> m = Suc 16" for m x
      using that label_of_rn16 by simp
  qed (simp_all add: rn16_build_def RN16_SIZE_def)
  ultimately show ?thesis by blast
qed

lemma query_label:
  assumes "unat dr < 2" "unat m < 4" "unat trext < 2" "unat sel < 4" "unat session < 4"
    "unat target < 2" "unat q < 16"
  defines "c \<equiv> query_build dr m trext sel session target q"
  shows "rfid_check_command tbl (received dummy c @ rest) (received_size dummy c) = Some QUERY_LABEL"
proof (rule received_label[where n = 22])
  show "label_of tbl k x = QUERY_LABEL" if "k = 22 \<or> k = Suc 22"
    "\<And>j t. j + t \<le> 22 \<Longrightarrow> field x j t = field (result_data c) j t" for k x
  proof -
    have "field x 18 4 = QUERY_COMMAND" "field x 0 5 = 12"
      using that(2)[of 18 4] that(2)[of 0 5] query_build_header[OF assms(1-7)] by (simp_all add: c_def)
    then show ?thesis using that(1) by (auto simp: label_of_def message_lengths query_message_def)
  qed
qed (simp_all add: c_def query_build_def QUERY_SIZE_def Let_def)

lemma query_adjust_rep_label:
  assumes "unat session < 4" "unat updn < 8"
  shows "rfid_check_command tbl (received dummy (query_adjust_command session updn) @ rest)
      (received_size dummy (query_adjust_command session updn)) = Some QUERY_ADJUST_LABEL \<and>
    rfid_check_command tbl (received dummy (query_rep_build session) @ rest)
      (received_size dummy (query_rep_build session)) = Some QUERY_REP_LABEL"
proof
  let ?a = "query_adjust_command session updn"
  show "rfid_check_command tbl (received dummy ?a @ rest) (received_size dummy ?a) = Some QUERY_ADJUST_LABEL"
  proof (rule received_label[where n = 9])
    show "label_of tbl k x = QUERY_ADJUST_LABEL" if "k = 9 \<or> k = Suc 9"
      "\<And>j t. j + t \<le> 9 \<Longrightarrow> field x j t = field (result_data ?a) j t" for k x
    proof -
      have "field (result_data ?a) 5 4 = QUERY_ADJUST_COMMAND" "field (result_data ?a) 7 1 = 0"
        using field_below[of session 2 3 5 4] field_below[of updn 3 0 5 4]
          field_below[of session 2 3 7 1] field_below[of updn 3 0 7 1] assms
        unfolding query_adjust_data field_or
        by (simp_all add: field_def QUERY_ADJUST_COMMAND_def)
      then have f: "field x 5 4 = QUERY_ADJUST_COMMAND" "field x 7 1 = 0"
        using that(2)[of 5 4] that(2)[of 7 1] by simp_all
      have "\<not> bit x 7" using f(2) bit_field[of x 7 1 0] by simp
      then have "\<not> bit (field x 0 8) 7" by (simp add: bit_field)
      then have "field x 0 8 \<noteq> NAK_COMMAND" by (auto simp: NAK_COMMAND_def)
      with f(1) show ?thesis
        using that(1) by (auto simp: label_of_def message_lengths nak_message_def query_adjust_message_def)
    qed
  qed (simp_all add: query_adjust_command_def QUERY_ADJUST_SIZE_def Let_def)
next
  let ?r = "query_rep_build session"
  show "rfid_check_command tbl (received dummy ?r @ rest) (received_size dummy ?r) = Some QUERY_REP_LABEL"
  proof (rule received_label[where n = 4])
    show "label_of tbl k x = QUERY_REP_LABEL" if "k = 4 \<or> k = Suc 4"
      "\<And>j t. j + t \<le> 4 \<Longrightarrow> field x j t = field (result_data ?r) j t" for k x
    proof -
      have "field x 2 2 = QUERY_REP_COMMAND"
        using that(2)[of 2 2] field_below[of session 2 0 2 2] assms
        by (simp add: query_rep_data QUERY_REP_COMMAND_def)
      then show ?thesis
        using that(1) by (auto simp: label_of_def message_lengths query_rep_message_def)
    qed
  qed (simp_all add: query_rep_build_def QUERY_REP_SIZE_def Let_def)
qed

section \<open>Commands with a CRC\<close>

lemma field_u64_of_int: "j + t \<le> 32 \<Longrightarrow> field (u64_of_int z) j t = take_bit t (drop_bit j z)"
  by (rule word_eqI_bits)
     (auto simp: bit_field bit_u64_of_int bit_take_bit_iff bit_drop_bit_eq min_def dest: bit_imp_le_length)

lemma field_shift: "s \<le> j \<Longrightarrow> j + t \<le> 64 \<Longrightarrow> field (push_bit s z) j t = field z (j - s) t"
  by (rule word_eqI_bits) (auto simp: bit_field bit_push_bit_iff)

lemma field_u16:
  fixes y :: u16
  shows "field (ucast y) 0 16 = ucast y" and "16 \<le> j \<Longrightarrow> field (ucast y) j t = 0"
  using unat_bound[of y] field_exact[of y 16 0] field_below[of y 16 0 j t] by simp_all

text \<open>The upper and the lower half of \<open>(x << 16) | y\<close>.\<close>

lemma halves:
  fixes x y :: cint
  shows "take_bit 16 (drop_bit 16 (push_bit 16 (take_bit 16 x) OR take_bit 16 y)) = take_bit 16 x"
    and "take_bit 16 (push_bit 16 (take_bit 16 x) OR take_bit 16 y) = take_bit 16 y"
  by (rule word_eqI_bits, force simp: bit_take_bit_iff bit_drop_bit_eq bit_or_iff bit_push_bit_iff)+

lemma take_bit_unat: "unat x < 2 ^ k \<Longrightarrow> take_bit k x = x" for x :: "'a::len word"
  by (rule word_eqI_bits) (auto simp: bit_take_bit_iff dest: bit_imp_less_unat)

lemma take_bit_u16: "take_bit 16 (int_of_u16 r) = int_of_u16 r"
  by (rule word_eqI_bits) (auto simp: bit_take_bit_iff bit_ucast_iff dest: bit_imp_le_length)

lemma rn_crc_label:
  assumes "rn_crc_build tbl rn = Some c" and "unat rn < 2 ^ 16"
  shows "rfid_check_command tbl (received dummy c @ rest) (received_size dummy c) = Some RN_CRC_LABEL"
proof -
  obtain r where r: "crc_16_ccitt tbl rn 3 = Some r"
    using assms(1) by (auto simp: rn_crc_build_def split: bind_splits)
  then have c: "csize c = RN_CRC_SIZE"
    "result_data c = u64_of_int (push_bit 16 (take_bit 16 rn) OR take_bit 16 (int_of_u16 r))"
    using assms(1) by (auto simp: rn_crc_build_def and_masks)
  have f: "field (result_data c) 16 16 = rn" "field (result_data c) 0 16 = ucast r"
    using halves[of rn "int_of_u16 r"] take_bit_unat[OF assms(2)] take_bit_u16[of r]
    by (simp_all add: c field_u64_of_int)
  show ?thesis
  proof (rule received_label[where n = 32])
    show "label_of tbl k x = RN_CRC_LABEL" if "k = 32 \<or> k = Suc 32"
      "\<And>j t. j + t \<le> 32 \<Longrightarrow> field x j t = field (result_data c) j t" for k x
    proof -
      have "field x 16 16 = rn" "field x 0 16 = ucast r"
        using that(2)[of 16 16] that(2)[of 0 16] f by simp_all
      then have "rn_crc_message tbl k x"
        using that(1) r by (auto simp: rn_crc_message_def field_eq_ucast)
      then show ?thesis using that(1) by (auto simp: label_of_def message_lengths)
    qed
  qed (simp_all add: c RN_CRC_SIZE_def)
qed

text \<open>What \<open>req_rn_build\<close> lays out, with the CRC over command and sixteen random bits.\<close>

definition req_rn_word :: "cint \<Rightarrow> cint" where
  "req_rn_word y = push_bit 16 REQ_RN_COMMAND OR y"

lemma req_rn_build_fields:
  assumes "req_rn_build tbl rn = Some c"
  shows "csize c = REQ_RN_SIZE" and "field (result_data c) 32 8 = REQ_RN_COMMAND"
    and "field (result_data c) 16 10 = take_bit 10 rn"
    and "crc_16_ccitt tbl (req_rn_word (take_bit 16 rn)) 3 = Some (ucast (field (result_data c) 0 16))"
proof -
  let ?w = "req_rn_word (take_bit 16 rn)"
  have w: "push_bit 16 (REQ_RN_COMMAND AND 0xFF) OR (rn AND 0xFFFF) = ?w"
    by (simp add: req_rn_word_def and_masks REQ_RN_COMMAND_def)
  have u: "ucast (u64_of_int ?w) = ?w"
    by (rule word_eqI_bits) (auto simp: bit_ucast_iff bit_u64_of_int min_def)
  obtain r where r: "crc_16_ccitt tbl ?w 3 = Some r"
    and c: "c = \<lparr>csize = REQ_RN_SIZE,
      result_data = push_bit 16 (u64_of_int ?w) OR ucast r\<rparr>"
    using assms unfolding req_rn_build_def w Let_def u
    by (auto simp: u64_of_int_u16 split: bind_splits)
  have "field (result_data c) 0 16 = ucast r"
    by (simp add: c field_or field_above field_u16)
  then show "crc_16_ccitt tbl ?w 3 = Some (ucast (field (result_data c) 0 16))"
    using r by (simp add: field_eq_ucast)
  have "take_bit 8 (drop_bit 16 ?w) = REQ_RN_COMMAND" "take_bit 10 ?w = take_bit 10 rn"
    using arg_cong[OF halves(1)[of REQ_RN_COMMAND rn], of "take_bit 8"]
      arg_cong[OF halves(2)[of REQ_RN_COMMAND rn], of "take_bit 10"]
    by (simp_all add: req_rn_word_def REQ_RN_COMMAND_def)
  then show "field (result_data c) 32 8 = REQ_RN_COMMAND" "field (result_data c) 16 10 = take_bit 10 rn"
    by (simp_all add: c field_or field_shift field_u64_of_int field_u16)
  show "csize c = REQ_RN_SIZE" by (simp add: c)
qed

lemma label_of_req_rn:
  "m \<in> {40, 41} \<Longrightarrow> label_of tbl m x = (if req_rn_message tbl m x then REQ_RN_LABEL else - 1)"
  unfolding label_of_def by (elim insertE; simp add: message_lengths)

lemma bit_message_bytes: "i < 32 \<Longrightarrow> bit m i = bit (message_byte m (i div 8)) (i mod 8)"
  by (simp add: message_byte_def bit_ucast_iff bit_drop_bit_eq)

lemma req_rn_received_iff:
  assumes "req_rn_build tbl rn = Some c"
  shows "rfid_check_command tbl (received dummy c @ rest) (received_size dummy c) =
    Some (if crc_16_ccitt tbl (req_rn_word (take_bit 10 rn)) 3 =
             crc_16_ccitt tbl (req_rn_word (take_bit 16 rn)) 3
          then REQ_RN_LABEL else - 1)" (is "_ = Some ?l")
proof (rule received_label[where n = 40])
  note f = req_rn_build_fields[OF assms]
  show "label_of tbl k x = ?l" if "k = 40 \<or> k = Suc 40"
    "\<And>j t. j + t \<le> 40 \<Longrightarrow> field x j t = field (result_data c) j t" for k x
  proof -
    have "field x 32 8 = REQ_RN_COMMAND" "field x 16 10 = take_bit 10 rn"
      "field x 0 16 = field (result_data c) 0 16"
      using that(2)[of 32 8] that(2)[of 16 10] that(2)[of 0 16] f by simp_all
    then have "req_rn_message tbl k x \<longleftrightarrow>
        crc_16_ccitt tbl (req_rn_word (take_bit 10 rn)) 3 = crc_16_ccitt tbl (req_rn_word (take_bit 16 rn)) 3"
      using that(1) f(4) by (auto simp: req_rn_message_def req_rn_word_def)
    then show ?thesis using that(1) by (auto simp: label_of_req_rn)
  qed
qed (simp_all add: req_rn_build_fields(1)[OF assms] REQ_RN_SIZE_def)

text \<open>C36. With the table initialised, exactly the Req_RN whose random number fits ten bits
  are recognised.\<close>

theorem req_rn_received_initialised:
  assumes "req_rn_build (crc_16_ccitt_init tbl) rn = Some c"
  shows "rfid_check_command (crc_16_ccitt_init tbl) (received dummy c @ rest) (received_size dummy c) =
    Some (if take_bit 16 rn = take_bit 10 rn then REQ_RN_LABEL else - 1)"
proof -
  have "crc_16_ccitt (crc_16_ccitt_init tbl) (req_rn_word (take_bit 10 rn)) 3 =
      crc_16_ccitt (crc_16_ccitt_init tbl) (req_rn_word (take_bit 16 rn)) 3 \<longleftrightarrow>
      take_bit 16 rn = take_bit 10 rn"
  proof
    let ?a = "req_rn_word (take_bit 10 rn)" and ?b = "req_rn_word (take_bit 16 rn)"
    assume crc: "crc_16_ccitt (crc_16_ccitt_init tbl) ?a 3 = crc_16_ccitt (crc_16_ccitt_init tbl) ?b 3"
    have h: "drop_bit 16 ?a = drop_bit 16 ?b"
      by (rule word_eqI_bits)
         (auto simp: req_rn_word_def bit_drop_bit_eq bit_or_iff bit_take_bit_iff)
    have "message_byte ?a 2 = message_byte ?b 2"
      using h by (simp add: message_byte_def)
    from crc_16_low_half_inj[OF this crc]
    have lo: "message_byte ?a 0 = message_byte ?b 0" "message_byte ?a 1 = message_byte ?b 1" by auto
    have "bit ?a i = bit ?b i" if i: "i < 16" for i
    proof -
      have "i div 8 < 2" using i by (simp add: less_mult_imp_div_less)
      then have "i div 8 = 0 \<or> i div 8 = 1" by linarith
      with lo i bit_message_bytes[of i ?a] bit_message_bytes[of i ?b] show ?thesis by auto
    qed
    then have "bit (take_bit 10 rn) i = bit (take_bit 16 rn) i" if "i < 16" for i
      using that by (auto simp: req_rn_word_def bit_or_iff bit_push_bit_iff)
    then show "take_bit 16 rn = take_bit 10 rn"
      by (intro word_eqI_bits) (auto simp: bit_take_bit_iff)
  qed (simp add: req_rn_word_def)
  then show ?thesis using req_rn_received_iff[OF assms, of dummy rest] by simp
qed

lemma req_rn_build_defined: "\<exists>c. req_rn_build tbl rn = Some c"
  using crc_16_ccitt_defined[of 3 tbl]
  by (simp add: req_rn_build_def Let_def Option.bind_eq_Some_conv)

lemma req_rn_received_initialised_witness:
  "\<exists>c. rfid_check_command (crc_16_ccitt_init crc_table_bss) (received (\<lambda>_. False) c @ [])
     (received_size (\<lambda>_. False) c) = Some (- 1)"
proof -
  obtain c where "req_rn_build (crc_16_ccitt_init crc_table_bss) 0xFD24 = Some c"
    using req_rn_build_defined by blast
  from req_rn_received_initialised[OF this, of "\<lambda>_. False" "[]"] show ?thesis by auto
qed

section \<open>Commands without a builder or a validator that works\<close>

text \<open>Kill, Lock, Read, Select and Write shift an \<open>int\<close> by 32 or more: no call of
  these builders is defined.\<close>

lemma builders_undefined:
  "kill_build password rfu rn crc = None \<and> lock_build payload rn crc = None \<and>
   read_build mem_bank word_ptr word_count rn crc = None \<and>
   select_build target action mem_bank pointer len msk trunc crc = None \<and>
   write_build mem_bank word_ptr data rn crc = None"
  by (simp add: kill_build_def lock_build_def read_build_def select_build_def write_build_def)

text \<open>No message of any size is labelled Lock, Select or Write, and a Read with its header
  where its builder puts it is labelled unknown.\<close>

lemma lock_select_write_never:
  assumes "n < 2 ^ 31"
  shows "rfid_check_command tbl (chunks n x @ rest) (of_nat n)
      \<notin> Some ` {LOCK_LABEL, SELECT_LABEL, WRITE_LABEL} \<and>
    (field x 49 8 = READ_COMMAND \<longrightarrow>
      rfid_check_command tbl (chunks 57 x @ rest) 57 = Some (- 1))"
proof
  have "label_of tbl n x \<notin> {LOCK_LABEL, SELECT_LABEL, WRITE_LABEL}"
    unfolding label_of_def by (simp add: label_defs)
  then show "rfid_check_command tbl (chunks n x @ rest) (of_nat n)
      \<notin> Some ` {LOCK_LABEL, SELECT_LABEL, WRITE_LABEL}"
    using rfid_check_command_label[OF assms, of tbl x rest] by auto
  show "field x 49 8 = READ_COMMAND \<longrightarrow> rfid_check_command tbl (chunks 57 x @ rest) 57 = Some (- 1)"
  proof
    assume h: "field x 49 8 = READ_COMMAND"
    have "\<not> bit READ_COMMAND 5" by (simp add: READ_COMMAND_def)
    then have "\<not> bit x 54" using bit_field[of x 49 8 5] h by simp
    then have "\<not> bit (field x 52 3) 2" by (simp add: bit_field)
    then have "field x 52 3 \<noteq> 6" by auto
    then have "label_of tbl 57 x = - 1" by (simp add: label_of_def message_lengths read_message_def)
    then show "rfid_check_command tbl (chunks 57 x @ rest) 57 = Some (- 1)"
      using rfid_check_command_label[of 57 tbl x rest] by simp
  qed
qed

text \<open>A 59-bit message is taken for a Kill exactly when its header is 0xC4 or 0xE4; with the
  extra bit the line may add, never.\<close>

lemma kill_header:
  "(rfid_check_command tbl (chunks 59 x @ rest) 59 = Some KILL_LABEL) =
     (field x 51 8 \<in> {0xC4, 0xE4}) \<and>
   rfid_check_command tbl (chunks 60 (set_bit 59 x) @ rest) 60 = Some (- 1)"
proof
  have "label_of tbl 59 x = (if field x 51 8 \<in> {0xC4, 0xE4} then KILL_LABEL else - 1)"
    by (simp add: label_of_def message_lengths kill_message_def)
  then show "(rfid_check_command tbl (chunks 59 x @ rest) 59 = Some KILL_LABEL) =
     (field x 51 8 \<in> {0xC4, 0xE4})"
    using rfid_check_command_label[of 59 tbl x rest] by (auto simp: label_defs)
  let ?y = "set_bit 59 x"
  have "bit (field ?y 51 9) 8" by (simp add: bit_field bit_set_bit_iff)
  then have "field ?y 51 9 \<noteq> 0xC4" "field ?y 51 9 \<noteq> 0xE4" by auto
  then have "label_of tbl 60 ?y = - 1"
    by (simp add: label_of_def message_lengths kill_message_def)
  then show "rfid_check_command tbl (chunks 60 ?y @ rest) 60 = Some (- 1)"
    using rfid_check_command_label[of 60 tbl ?y rest] by simp
qed

section \<open>Every command\<close>

text \<open>A call of a builder with its parameters.\<close>

datatype gen2_command =
    Ack cint
  | Kill u16 u8 u16 u16
  | Lock cint u16 u16
  | Nak
  | Query u8 u8 u8 u8 u8 u8 u8
  | Query_Adjust u8 u8
  | Query_Rep u8
  | Read u8 u8 u8 u16 u16
  | Req_RN cint
  | RN16
  | RN_CRC cint
  | Select u8 u8 u8 u8 u8 u8 u8 u16
  | Write u8 u8 u16 u16 u16

fun built :: "crc_table \<Rightarrow> gen2_command \<Rightarrow> command option" where
  "built tbl (Ack rn) = Some (ack_build rn)"
| "built tbl (Kill password rfu rn crc) = kill_build password rfu rn crc"
| "built tbl (Lock payload rn crc) = lock_build payload rn crc"
| "built tbl Nak = Some nak_build"
| "built tbl (Query dr m trext sel session target q) = Some (query_build dr m trext sel session target q)"
| "built tbl (Query_Adjust session updn) = Some (query_adjust_command session updn)"
| "built tbl (Query_Rep session) = Some (query_rep_build session)"
| "built tbl (Read bank ptr count rn crc) = read_build bank ptr count rn crc"
| "built tbl (Req_RN rn) = req_rn_build tbl rn"
| "built tbl RN16 = Some rn16_build"
| "built tbl (RN_CRC rn) = rn_crc_build tbl rn"
| "built tbl (Select target action bank ptr len msk trunc crc) = select_build target action bank ptr len msk trunc crc"
| "built tbl (Write bank ptr data rn crc) = write_build bank ptr data rn crc"

text \<open>The parameters are in the ranges of their fields.\<close>

fun in_range :: "gen2_command \<Rightarrow> bool" where
  "in_range (Query dr m trext sel session target q) \<longleftrightarrow>
     dr < 2 \<and> m < 4 \<and> trext < 2 \<and> sel < 4 \<and> session < 4 \<and> target < 2 \<and> q < 16"
| "in_range (Query_Adjust session updn) \<longleftrightarrow> session < 4 \<and> updn < 8"
| "in_range (Query_Rep session) \<longleftrightarrow> session < 4"
| "in_range (RN_CRC rn) \<longleftrightarrow> rn < 2 ^ 16"
| "in_range _ \<longleftrightarrow> True"

fun label_for :: "gen2_command \<Rightarrow> cint" where
  "label_for (Ack _) = ACK_LABEL"
| "label_for (Kill _ _ _ _) = KILL_LABEL"
| "label_for (Lock _ _ _) = LOCK_LABEL"
| "label_for Nak = NAK_LABEL"
| "label_for (Query _ _ _ _ _ _ _) = QUERY_LABEL"
| "label_for (Query_Adjust _ _) = QUERY_ADJUST_LABEL"
| "label_for (Query_Rep _) = QUERY_REP_LABEL"
| "label_for (Read _ _ _ _ _) = READ_LABEL"
| "label_for (Req_RN _) = REQ_RN_LABEL"
| "label_for RN16 = RN16_LABEL"
| "label_for (RN_CRC _) = RN_CRC_LABEL"
| "label_for (Select _ _ _ _ _ _ _ _) = SELECT_LABEL"
| "label_for (Write _ _ _ _ _) = WRITE_LABEL"

lemma req_rn_label:
  assumes "req_rn_build crc_table_bss rn = Some c"
  shows "rfid_check_command crc_table_bss (received dummy c @ rest) (received_size dummy c) = Some REQ_RN_LABEL"
  using req_rn_received_iff[OF assms, of dummy rest] crc_16_bss[of 3] by simp

lemma crc_builders_defined:
  "\<exists>c. req_rn_build crc_table_bss rn = Some c" "\<exists>c. rn_crc_build crc_table_bss rn = Some c"
  using crc_16_bss[of 3] by (simp_all add: req_rn_build_def rn_crc_build_def Let_def)

text \<open>On the chunks of the line, with or without the extra bit and whatever stands in the array behind them.\<close>

lemma line_labels:
  assumes "in_range g"
  shows "case built crc_table_bss g of
      None \<Rightarrow> label_for g \<in> {KILL_LABEL, LOCK_LABEL, READ_LABEL, SELECT_LABEL, WRITE_LABEL}
    | Some c \<Rightarrow> rfid_check_command crc_table_bss (received dummy c @ rest) (received_size dummy c) =
        Some (label_for g) \<and> label_for g \<notin> {KILL_LABEL, LOCK_LABEL, READ_LABEL, SELECT_LABEL, WRITE_LABEL}"
proof (cases g)
  case (Query dr m trext sel session target q)
  then show ?thesis using assms query_label[of dr m trext sel session target q]
    by (simp add: word_less_nat_alt label_defs)
next
  case (Query_Adjust session updn)
  then show ?thesis using assms query_adjust_rep_label[of session updn]
    by (simp add: word_less_nat_alt label_defs)
next
  case (Query_Rep session)
  then show ?thesis using assms query_adjust_rep_label[of session 0]
    by (simp add: word_less_nat_alt label_defs)
next
  case (Req_RN rn)
  then show ?thesis using crc_builders_defined(1)[of rn] req_rn_label[of rn _ dummy rest]
    by (auto simp: label_defs)
next
  case (RN_CRC rn)
  then show ?thesis using assms crc_builders_defined(2)[of rn] rn_crc_label[of crc_table_bss rn _ dummy rest]
    by (auto simp: label_defs word_less_nat_alt)
qed (use ack_nak_rn16_label[of crc_table_bss dummy _ rest] builders_undefined in
      \<open>simp_all add: label_defs\<close>)

section \<open>Every command over the radio\<close>

text \<open>A package whose data is zero ends the reception: the parameters with which every package of a command
  has data (the CRC table is never initialised, and the CRCs are 0).\<close>

fun arrives :: "gen2_command \<Rightarrow> bool" where
  "arrives (Query_Rep session) \<longleftrightarrow> session \<noteq> 0"
| "arrives (Req_RN rn) \<longleftrightarrow> take_bit 10 rn \<noteq> 0"
| "arrives (RN_CRC rn) \<longleftrightarrow> take_bit 10 rn \<noteq> 0 \<and> drop_bit 10 rn \<noteq> 0"
| "arrives _ \<longleftrightarrow> True"

lemma chunk_nonzero:
  assumes "field rd j t \<noteq> 0" and "26 * k \<le> j" and "j + t \<le> 26 * k + nbits n k"
  shows "chunk n rd k \<noteq> 0"
proof -
  obtain i where i: "bit (field rd j t) i" using assms(1) by (auto simp: bit_eq_iff)
  have "j + i - 26 * k < nbits n k" "j + i - 26 * k < 32"
    using i assms(2,3) nbits_bound[of n k] by (auto simp: bit_field)
  then have "bit (chunk n rd k) (j + i - 26 * k)"
    using i assms(2) by (simp add: chunk_def bit_field bit_ucast_iff bit_take_bit_iff bit_drop_bit_eq)
  then show ?thesis by auto
qed

lemma chunk_zero: "field rd (26 * k) (nbits n k) = 0 \<Longrightarrow> chunk n rd k = 0"
  by (simp add: chunk_def field_def)

lemma field_zero_append: "field rd j s = 0 \<Longrightarrow> field rd (j + s) t = 0 \<Longrightarrow> s + t \<le> 32 \<Longrightarrow> field rd j (s + t) = 0"
proof (rule word_eqI_bits)
  fix i assume z: "field rd j s = 0" "field rd (j + s) t = 0" "s + t \<le> 32"
  have "\<not> bit (field rd j s) i" "\<not> bit (field rd (j + s) t) (i - s)" by (simp_all add: z)
  then show "bit (field rd j (s + t)) i = bit (0 :: cint) i" using z(3) by (cases "i < s") (auto simp: bit_field)
qed

definition carried :: "nat \<Rightarrow> command \<Rightarrow> bool" where
  "carried n c \<longleftrightarrow> csize c = of_nat n \<and> n mod 26 \<noteq> 0 \<and> n mod 26 \<noteq> 25 \<and> n < 64 \<and> n_packages n \<le> 2"

definition first_empty :: "nat \<Rightarrow> command \<Rightarrow> nat \<Rightarrow> bool" where
  "first_empty n c k \<longleftrightarrow> k < n_packages n \<and> (\<forall>j < k. chunk n (result_data c) j \<noteq> 0) \<and> chunk n (result_data c) k = 0"

definition all_data :: "nat \<Rightarrow> command \<Rightarrow> bool" where
  "all_data n c \<longleftrightarrow> (\<forall>k < n_packages n. chunk n (result_data c) k \<noteq> 0)"

lemma one_package:
  "n < 26 \<Longrightarrow> j + t \<le> n \<Longrightarrow> field (result_data c) j t \<noteq> 0 \<Longrightarrow> all_data n c"
  using chunk_nonzero[of "result_data c" j t 0 n] by (auto simp: all_data_def n_packages_def nbits_def)

lemma short_commands:
  "carried 18 (ack_build rn) \<and> all_data 18 (ack_build rn)" "carried 8 nak_build \<and> all_data 8 nak_build"
  "carried 16 rn16_build \<and> all_data 16 rn16_build"
proof -
  show "carried 18 (ack_build rn) \<and> all_data 18 (ack_build rn)"
    using one_package[of 18 16 2 "ack_build rn"] ack_build_fields(1)[of rn]
    by (simp add: carried_def ack_build_def ACK_SIZE_def ACK_COMMAND_def n_packages_def)
  show "carried 8 nak_build \<and> all_data 8 nak_build" "carried 16 rn16_build \<and> all_data 16 rn16_build"
    unfolding carried_def all_data_def by code_simp+
qed

lemma query_carried:
  assumes "unat dr < 2" "unat m < 4" "unat trext < 2" "unat sel < 4" "unat session < 4" "unat target < 2" "unat q < 16"
  shows "carried 22 (query_build dr m trext sel session target q) \<and> all_data 22 (query_build dr m trext sel session target q)"
  using one_package[of 22 18 4 "query_build dr m trext sel session target q"] query_build_header(1)[OF assms]
  by (simp add: carried_def query_build_def QUERY_SIZE_def QUERY_COMMAND_def n_packages_def Let_def)

lemma query_adjust_carried:
  assumes "unat session < 4" "unat updn < 8"
  shows "carried 9 (query_adjust_command session updn) \<and> all_data 9 (query_adjust_command session updn)"
proof -
  have "field (result_data (query_adjust_command session updn)) 5 4 = QUERY_ADJUST_COMMAND"
    using field_below[of session 2 3 5 4] field_below[of updn 3 0 5 4] assms
    unfolding query_adjust_data field_or by (simp add: field_def QUERY_ADJUST_COMMAND_def)
  then show ?thesis
    using one_package[of 9 5 4 "query_adjust_command session updn"]
    by (simp add: carried_def query_adjust_command_def QUERY_ADJUST_SIZE_def QUERY_ADJUST_COMMAND_def n_packages_def Let_def)
qed

lemma query_rep_carried:
  assumes "unat session < 4"
  shows "carried 4 (query_rep_build session) \<and>
    (if session \<noteq> 0 then all_data 4 (query_rep_build session) else first_empty 4 (query_rep_build session) 0)"
proof -
  have f: "field (result_data (query_rep_build session)) 0 4 = ucast session"
    unfolding query_rep_data using assms by (intro field_exact) simp_all
  have "(ucast session :: cint) \<noteq> 0" if "session \<noteq> 0"
    using that assms by (simp add: unat_eq_0[symmetric] unsigned_ucast_eq take_bit_nat_eq_self)
  then show ?thesis
    using f one_package[of 4 0 4 "query_rep_build session"] chunk_zero[of "result_data (query_rep_build session)" 0 4]
    by (auto simp: carried_def query_rep_build_def QUERY_REP_SIZE_def n_packages_def first_empty_def nbits_def Let_def)
qed

lemma two_packages:
  "n_packages 40 = 2" "nbits 40 0 = 26" "nbits 40 (Suc 0) = 14" "n_packages 32 = 2" "nbits 32 0 = 26" "nbits 32 (Suc 0) = 6"
  by (simp_all add: n_packages_def nbits_def)

lemma less_2: "(k :: nat) < 2 \<longleftrightarrow> k = 0 \<or> k = Suc 0"
  by auto

lemma req_rn_carried:
  assumes "req_rn_build crc_table_bss rn = Some c"
  shows "carried 40 c \<and> (if take_bit 10 rn \<noteq> 0 then all_data 40 c else first_empty 40 c 0)"
proof -
  note f = req_rn_build_fields[OF assms]
  have "ucast (field (result_data c) 0 16) = (0 :: u16)" using f(4) crc_16_bss[of 3] by simp
  then have low: "field (result_data c) 0 16 = 0"
    by (intro word_eqI_bits) (auto simp: bit_field bit_ucast_iff dest!: arg_cong[of _ _ "\<lambda>w. bit w _"])
  have "chunk 40 (result_data c) 1 \<noteq> 0"
    using chunk_nonzero[of "result_data c" 32 8 1 40] f(2) by (simp add: two_packages REQ_RN_COMMAND_def)
  moreover have "chunk 40 (result_data c) 0 \<noteq> 0" if "take_bit 10 rn \<noteq> 0"
    using chunk_nonzero[of "result_data c" 16 10 0 40] f(3) that by (simp add: two_packages)
  moreover have "chunk 40 (result_data c) 0 = 0" if "take_bit 10 rn = 0"
    using chunk_zero[of "result_data c" 0 40] field_zero_append[OF low, of 10] f(3) that by (simp add: two_packages)
  ultimately show ?thesis
    using f(1) by (simp add: carried_def all_data_def first_empty_def two_packages less_2 REQ_RN_SIZE_def)
qed

lemma rn_crc_carried:
  assumes "rn_crc_build crc_table_bss rn = Some c" and "unat rn < 2 ^ 16"
  shows "carried 32 c \<and> (if take_bit 10 rn \<noteq> 0 \<and> drop_bit 10 rn \<noteq> 0 then all_data 32 c
    else \<exists>k. k \<le> 1 \<and> first_empty 32 c k)"
proof -
  have c: "csize c = RN_CRC_SIZE" "result_data c = u64_of_int (push_bit 16 (take_bit 16 rn))"
    using assms(1) crc_16_bss[of 3 rn] by (auto simp: rn_crc_build_def and_masks)
  have rn: "bit rn i \<Longrightarrow> i < 16" for i by (rule bit_imp_less_unat[OF assms(2)])
  have f: "field (result_data c) 0 16 = 0" "field (result_data c) 16 10 = take_bit 10 rn"
    "field (result_data c) 26 6 = drop_bit 10 rn"
    unfolding c
    by (rule word_eqI_bits;
        auto simp: field_u64_of_int bit_take_bit_iff bit_drop_bit_eq bit_push_bit_iff add.commute dest: rn)+
  have c0: "chunk 32 (result_data c) 0 \<noteq> 0 \<longleftrightarrow> take_bit 10 rn \<noteq> 0"
    using chunk_nonzero[of "result_data c" 16 10 0 32] chunk_zero[of "result_data c" 0 32]
      field_zero_append[OF f(1), of 10] f(2) by (auto simp: two_packages)
  moreover have c1: "chunk 32 (result_data c) (Suc 0) \<noteq> 0 \<longleftrightarrow> drop_bit 10 rn \<noteq> 0"
    using chunk_nonzero[of "result_data c" 26 6 1 32] chunk_zero[of "result_data c" 1 32] f(3) by (auto simp: two_packages)
  have "carried 32 c" using c(1) by (simp add: carried_def two_packages RN_CRC_SIZE_def)
  moreover have "first_empty 32 c 0" if "take_bit 10 rn = 0"
    using that c0 by (simp add: first_empty_def two_packages)
  moreover have "first_empty 32 c 1" if "take_bit 10 rn \<noteq> 0" "drop_bit 10 rn = 0"
    using that c0 c1 by (simp add: first_empty_def two_packages)
  ultimately show ?thesis
    using c0 c1 by (auto simp: all_data_def two_packages less_2)
qed

lemma built_carried:
  assumes "in_range g" and "built crc_table_bss g = Some c"
  shows "\<exists>n. carried n c \<and> (if arrives g then all_data n c else \<exists>k \<le> 1. first_empty n c k)"
proof (cases g)
  case (Query dr m trext sel session target q)
  then show ?thesis using assms query_carried[of dr m trext sel session target q]
    by (auto simp: word_less_nat_alt intro: exI[of _ 22])
next
  case (Query_Adjust session updn)
  then show ?thesis using assms query_adjust_carried[of session updn] by (auto simp: word_less_nat_alt intro: exI[of _ 9])
next
  case (Query_Rep session)
  then show ?thesis using assms query_rep_carried[of session]
    by (intro exI[of _ 4]) (auto simp: word_less_nat_alt split: if_splits)
next
  case (Req_RN rn)
  then show ?thesis using assms req_rn_carried[of rn c]
    by (intro exI[of _ 40]) (auto split: if_splits)
next
  case (RN_CRC rn)
  then show ?thesis using assms rn_crc_carried[of rn c]
    by (intro exI[of _ 32]) (auto simp: word_less_nat_alt split: if_splits)
next
  case (Ack rn)
  then show ?thesis using assms short_commands(1)[of rn] by (auto intro: exI[of _ 18])
next
  case Nak
  then show ?thesis using assms short_commands(2) by (auto intro: exI[of _ 8])
next
  case RN16
  then show ?thesis using assms short_commands(3) by (auto intro: exI[of _ 16])
qed (use assms builders_undefined in auto)

text \<open>What is left of a command whose first or second package has no data has the size of none.\<close>

lemma truncated_unknown: "sz = 0 \<or> sz = 26 \<Longrightarrow> rfid_check_command tbl ps sz = Some (- 1)"
  by (auto simp: rfid_check_command_def validate_defs command_defs)

text \<open>C13. The firmware as it runs, with its CRC table never initialised, sending a command through the idle
  peripheral in loopback and classifying what receiver_get_package returns, with room for two packages.  With
  parameters in their ranges the builders of Kill, Lock, Read, Select and Write are undefined (each shifts an
  \<open>int\<close> by 32 or more).  Every other command is recognised as itself, with or without the extra bit of the
  line, and the peripheral is idle again, if \<open>arrives\<close> holds of its parameters: not so Query_Rep with
  session 0, Req_RN with a number that is 0 modulo 1024, and RN_CRC with a number that is 0 modulo 1024 or
  below 1024.  These have a package whose data is zero, which the receiver takes for the end: on a line
  that adds no bit they are received cut short and labelled unknown.\<close>

theorem commands_received:
  assumes "in_range g" and "ip_idle dummy (dev w)" and "2 \<le> length vec" and "2 \<le> sint quant"
  shows "case built crc_table_bss g of
      None \<Rightarrow> label_for g \<in> {KILL_LABEL, LOCK_LABEL, READ_LABEL, SELECT_LABEL, WRITE_LABEL}
    | Some c \<Rightarrow> label_for g \<notin> {KILL_LABEL, LOCK_LABEL, READ_LABEL, SELECT_LABEL, WRITE_LABEL} \<and>
        (arrives g \<longrightarrow> (\<exists>ps sz d. and_then (sender_send_command (ip_bus dummy) stack c w)
             (receiver_get_package (ip_bus dummy) vec quant) = returns (0, ps, sz, c_printf msg_eop [] (w\<lparr>dev := d\<rparr>)) \<and>
           rfid_check_command crc_table_bss ps sz = Some (label_for g) \<and> ip_idle dummy d)) \<and>
        (\<not> arrives g \<and> \<not> dummy (map (bit (result_data c)) [0..<unat (csize c)]) \<longrightarrow>
          (\<exists>ps sz d. and_then (sender_send_command (ip_bus dummy) stack c w)
             (receiver_get_package (ip_bus dummy) vec quant) = returns (0, ps, sz, c_printf msg_eop [] (w\<lparr>dev := d\<rparr>)) \<and>
           rfid_check_command crc_table_bss ps sz = Some (- 1)))"
proof (cases "built crc_table_bss g")
  case None
  then show ?thesis using line_labels[OF assms(1), of dummy "[]"] by simp
next
  case (Some c)
  obtain n where n: "carried n c" and all: "arrives g \<Longrightarrow> all_data n c"
    and emp: "\<not> arrives g \<Longrightarrow> \<exists>k \<le> 1. first_empty n c k"
    using built_carried[OF assms(1) Some] by (auto split: if_splits)
  note label = line_labels[OF assms(1), of dummy, unfolded Some option.case]
  have nc: "csize c = of_nat n" "n mod 26 \<noteq> 0" "n mod 26 \<noteq> 25" "n < 64" "n_packages n \<le> 2" and u: "unat (csize c) = n"
    using n by (auto simp: carried_def unat_of_nat)
  have "\<exists>ps sz d. and_then (sender_send_command (ip_bus dummy) stack c w)
      (receiver_get_package (ip_bus dummy) vec quant) = returns (0, ps, sz, c_printf msg_eop [] (w\<lparr>dev := d\<rparr>)) \<and>
    rfid_check_command crc_table_bss ps sz = Some (label_for g) \<and> ip_idle dummy d" if "arrives g"
    using loopback_transported[OF assms(2) nc(1-4) all[OF that, unfolded all_data_def], of vec quant stack]
      label assms(3,4) nc(5) by (auto simp: received_def received_size_def u Let_def)
  moreover have "\<exists>ps sz d. and_then (sender_send_command (ip_bus dummy) stack c w)
      (receiver_get_package (ip_bus dummy) vec quant) = returns (0, ps, sz, c_printf msg_eop [] (w\<lparr>dev := d\<rparr>)) \<and>
    rfid_check_command crc_table_bss ps sz = Some (- 1)"
    if na: "\<not> arrives g" "\<not> dummy (map (bit (result_data c)) [0..<unat (csize c)])"
  proof -
    obtain k where k: "k \<le> 1" "k < n_packages n" "\<forall>j < k. chunk n (result_data c) j \<noteq> 0" "chunk n (result_data c) k = 0"
      using emp[OF na(1)] by (auto simp: first_empty_def)
    have "(of_nat (26 * k) :: cint) = 0 \<or> (of_nat (26 * k) :: cint) = 26" using k(1) by (cases k) auto
    then show ?thesis
      using loopback_zero_package[OF assms(2) nc(1-4) k(3,2,4) na(2)[unfolded u], of vec quant stack]
        truncated_unknown assms(3,4) k(1) by fastforce
  qed
  ultimately show ?thesis using label unfolding Some option.case by blast
qed

lemma commands_received_witness:
  "\<exists>ps sz d. and_then (sender_send_command (ip_bus (\<lambda>_. True)) (\<lambda>_. 0) (query_build 0 1 1 2 3 0 9) booted)
      (receiver_get_package (ip_bus (\<lambda>_. True)) [7, 7] 2) = returns (0, ps, sz, c_printf msg_eop [] (booted\<lparr>dev := d\<rparr>)) \<and>
    rfid_check_command crc_table_bss ps sz = Some QUERY_LABEL \<and> ip_idle (\<lambda>_. True) d"
  using commands_received[of "Query 0 1 1 2 3 0 9" "\<lambda>_. True" booted "[7, 7]" 2 "\<lambda>_. 0"] ip_idle_configured by simp

section \<open>The classifier reads inside its array\<close>

lemma validators_defined:
  assumes "n_packages (unat sz) \<le> length ps"
  shows "ack_validate ps sz \<noteq> None" "nak_validate ps sz \<noteq> None" "query_validate ps sz \<noteq> None"
    "kill_validate ps sz \<noteq> None" "query_adjust_validate ps sz \<noteq> None"
    "query_rep_validate ps sz \<noteq> None" "read_validate ps sz \<noteq> None" "write_validate ps sz \<noteq> None"
  using assms
  by (auto simp: ack_validate_def nak_validate_def query_validate_def kill_validate_def
      query_adjust_validate_def query_rep_validate_def read_validate_def write_validate_def
      command_defs n_packages_def Let_def arr_get_def Suc_le_eq split: if_splits)

lemma crc_validators_defined:
  assumes "n_packages (unat sz) \<le> length ps"
  shows "req_rn_validate tbl ps sz \<noteq> None" and "rn_crc_validate tbl ps sz \<noteq> None"
proof -
  have crc: "\<exists>r. crc_16_ccitt tbl m 3 = Some r" for m
    by (rule crc_16_ccitt_defined) simp
  have ok: "do { c \<leftarrow> crc_16_ccitt tbl m 3; if y \<noteq> int_of_u16 c then Some False else Some True } \<noteq> None"
    for m y
    using crc[of m] by auto
  have two: "Suc 0 < length ps" if "sz = 40 \<or> sz = 41 \<or> sz = 32 \<or> sz = 33"
    using that assms by (auto simp: n_packages_def)
  then have "0 < length ps" if "sz = 40 \<or> sz = 41 \<or> sz = 32 \<or> sz = 33"
    using that by fastforce
  with two ok show "req_rn_validate tbl ps sz \<noteq> None" "rn_crc_validate tbl ps sz \<noteq> None"
    by (auto simp: req_rn_validate_def rn_crc_validate_def REQ_RN_SIZE_def RN_CRC_SIZE_def Let_def
        del: length_greater_0_conv)
qed

text \<open>C15. On an array with a word for every package of the command the classifier is defined,
  whatever the words are.\<close>

theorem rfid_check_command_defined:
  assumes "n_packages (unat sz) \<le> length ps"
  shows "\<exists>l. rfid_check_command tbl ps sz = Some l"
  using validators_defined[OF assms] crc_validators_defined[OF assms, of tbl]
  by (auto simp: rfid_check_command_def lock_validate_def select_validate_def rn16_validate_def)

lemma rfid_check_command_defined_witness:
  "\<exists>l. rfid_check_command crc_table_bss [0xFFFFFFFF, 5, 0x80000000] 59 = Some l"
  by (rule rfid_check_command_defined) (simp add: n_packages_def)

text \<open>One word too few, and the classifier reads behind the end of the array.\<close>

lemma rfid_check_command_short:
  "rfid_check_command tbl [p] 40 = None \<and> rfid_check_command tbl [] 18 = None"
  by (simp add: rfid_check_command_def validate_defs command_defs)

end
