(* ===== verification/Tari.thy ===== *)
theory Tari
  imports CBase
begin

text \<open>
  Time parameters: the \<open>double\<close> arithmetic of \<open>rfid_tari_2_clock\<close> and of the
  arguments of \<open>rfid_set_tari_boundaries\<close> in the main programs.  A positive double is
  a pair \<open>(m, e)\<close> for \<open>m * 2 ^ e\<close>; literals and products are rounded to 53 bits, to
  nearest, ties to even, as IEEE 754 and the C standard's recommended practice ask.  The
  exponent is not bounded: the programs stay far from the limits of the type.
\<close>

section \<open>Positive doubles\<close>

type_synonym double = "int \<times> int"

text \<open>The integer nearest to \<open>p / q\<close>, an even one in a tie.\<close>

definition nearest_even :: "int \<Rightarrow> int \<Rightarrow> int" where
  "nearest_even p q =
     (let d = p div q; r = p mod q
      in if 2 * r < q \<or> (2 * r = q \<and> even d) then d else d + 1)"

function bit_length :: "int \<Rightarrow> nat" where
  "bit_length n = (if n \<le> 0 then 0 else Suc (bit_length (n div 2)))"
  by pat_completeness auto
termination by (relation "measure nat") auto

declare bit_length.simps [simp del]

text \<open>\<open>p / q * 2 ^ e\<close> rounded; the quotient is scaled to 53 bits first.\<close>

definition scaled :: "int \<Rightarrow> int \<Rightarrow> int \<Rightarrow> int" where
  "scaled p q s = (if 0 \<le> s then nearest_even (p * 2 ^ nat s) q else nearest_even p (q * 2 ^ nat (- s)))"

definition round_double :: "int \<Rightarrow> int \<Rightarrow> int \<Rightarrow> double" where
  "round_double p q e =
     (let s = 53 - (int (bit_length p) - int (bit_length q));
          s = (if bit_length (if 0 \<le> s then (p * 2 ^ nat s) div q else p div (q * 2 ^ nat (- s))) \<le> 53
               then s else s - 1)
      in (scaled p q s, e - s))"

text \<open>A literal \<open>p / q\<close>, the product, the conversion of an \<open>int\<close>.\<close>

definition double_lit :: "int \<Rightarrow> int \<Rightarrow> double" where
  "double_lit p q = round_double p q 0"

definition double_mult :: "double \<Rightarrow> double \<Rightarrow> double" where
  "double_mult x y = round_double (fst x * fst y) 1 (snd x + snd y)"

definition double_of_int :: "cint \<Rightarrow> double" where
  "double_of_int i = (sint i, 0)"

text \<open>Conversion to \<open>int\<close>: towards zero, undefined out of the range of \<open>int\<close>.\<close>

definition int_of_double :: "double \<Rightarrow> cint option" where
  "int_of_double x =
     (let v = (if 0 \<le> snd x then fst x * 2 ^ nat (snd x) else fst x div 2 ^ nat (- snd x))
      in if v < 2 ^ 31 then Some (word_of_int v) else None)"

section \<open>The clock counts\<close>

definition FREQUENCY :: double where
  "FREQUENCY = double_lit 50000000 1"

definition rfid_tari_2_clock :: "double \<Rightarrow> double \<Rightarrow> cint option" where
  "rfid_tari_2_clock tari frequency = int_of_double (double_mult tari frequency)"

text \<open>The rounding is to nearest.\<close>

lemma nearest_even_bound:
  assumes "0 < q"
  shows "2 * \<bar>q * nearest_even p q - p\<bar> \<le> q"
proof -
  have "q * (p div q) = p - p mod q" by (simp add: minus_mod_eq_mult_div)
  moreover have "0 \<le> p mod q" "p mod q < q" using assms by simp_all
  ultimately show ?thesis
    by (auto simp: nearest_even_def Let_def distrib_left split: if_splits)
qed

lemma clock_values:
  "rfid_tari_2_clock (double_lit 10 1000000) FREQUENCY = Some 500"
  "rfid_tari_2_clock (double_lit 5 1000000) FREQUENCY = Some 250"
  "rfid_tari_2_clock (double_lit 625 10000000) FREQUENCY = Some 3125"
  "rfid_tari_2_clock (double_lit 135 1000000) FREQUENCY = Some 6750"
  by code_simp+

lemma boundary_values:
  "int_of_double (double_mult (double_of_int 500) (double_lit 101 100)) = Some 505"
  "int_of_double (double_mult (double_of_int 500) (double_lit 99 100)) = Some 495"
  "int_of_double (double_mult (double_of_int 500) (double_lit 1616 1000)) = Some 808"
  "int_of_double (double_mult (double_of_int 500) (double_lit 1584 1000)) = Some 792"
  by code_simp+

text \<open>The four time parameters of the programs are the clock counts at 50 MHz, and the four
  boundaries the exact percentages of the first, although no factor is exact in binary.\<close>

theorem tari_counts:
  "rfid_tari_2_clock (double_lit 10 1000000) FREQUENCY = Some 500 \<and>
   rfid_tari_2_clock (double_lit 5 1000000) FREQUENCY = Some 250 \<and>
   rfid_tari_2_clock (double_lit 625 10000000) FREQUENCY = Some 3125 \<and>
   rfid_tari_2_clock (double_lit 135 1000000) FREQUENCY = Some 6750 \<and>
   int_of_double (double_mult (double_of_int 500) (double_lit 101 100)) = Some 505 \<and>
   int_of_double (double_mult (double_of_int 500) (double_lit 99 100)) = Some 495 \<and>
   int_of_double (double_mult (double_of_int 500) (double_lit 1616 1000)) = Some 808 \<and>
   int_of_double (double_mult (double_of_int 500) (double_lit 1584 1000)) = Some 792"
  by (intro conjI clock_values boundary_values)

end
