(* ===== verification/Programs.thy ===== *)
theory Programs
  imports Sender Receiver Rfid Tari
begin

text \<open>
  The programs: main.c and the four programs of fpga/examples_of_main.  Each starts with the
  same configuration of the peripheral.  A local array that is not initialised has
  unspecified contents: \<open>stack k\<close> gives those of the \<open>k\<close>-th array of the
  program, and \<open>stack\<close> of the array inside \<open>sender_send_command\<close> as well.  A program returns its
  exit status and the machine.
\<close>

section \<open>What the programs share\<close>

definition configure :: "'d bus \<Rightarrow> 'd machine \<Rightarrow> 'd machine outcome" where
  "configure b w =
     and_then (defined_or_trap (rfid_tari_2_clock (double_lit 10 1000000) FREQUENCY)) (\<lambda>tari_100.
     and_then (defined_or_trap (rfid_tari_2_clock (double_lit 5 1000000) FREQUENCY)) (\<lambda>pw.
     and_then (defined_or_trap (rfid_tari_2_clock (double_lit 625 10000000) FREQUENCY)) (\<lambda>delimiter.
     and_then (defined_or_trap (rfid_tari_2_clock (double_lit 135 1000000) FREQUENCY)) (\<lambda>RTcal.
     and_then (defined_or_trap (rfid_tari_2_clock (double_lit 135 1000000) FREQUENCY)) (\<lambda>TRcal.
     (let w = rfid_set_loopback b w;
          w = rfid_set_tari b tari_100 w;
          w = sender_enable b w;
          w = receiver_enable b w;
          part = (\<lambda>p q. defined_or_trap (int_of_double (double_mult (double_of_int tari_100) (double_lit p q))))
      in and_then (part 101 100) (\<lambda>tari_101.
         and_then (part 99 100) (\<lambda>tari_099.
         and_then (part 1616 1000) (\<lambda>tari_1616.
         and_then (part 1584 1000) (\<lambda>tari_1584.
         (let w = rfid_set_tari_boundaries b tari_101 tari_099 tari_1616 tari_1584 pw delimiter RTcal TRcal w
          in returns (sender_has_gen b 0 w))))))))))))"

definition bar :: string where
  "bar = ''==============================\<newline>''"

definition banner :: "string \<Rightarrow> 'd machine \<Rightarrow> 'd machine" where
  "banner title w = c_printf bar [] (c_printf title [] (c_printf bar [] w))"

definition print_id :: "'d bus \<Rightarrow> string \<Rightarrow> 'd machine \<Rightarrow> 'd machine" where
  "print_id b fmt w = (case rfid_get_ip_id b w of (v, w) \<Rightarrow> c_printf fmt [v] w)"

text \<open>A message, a transmission, a message.\<close>

definition send :: "'d bus \<Rightarrow> (nat \<Rightarrow> cint) \<Rightarrow> string \<Rightarrow> command \<Rightarrow> string \<Rightarrow> 'd machine \<Rightarrow>
    ('d machine \<Rightarrow> 'a outcome) \<Rightarrow> 'a outcome" where
  "send b stack before c after w continue =
     and_then (sender_send_command b stack c (c_printf before [] w)) (\<lambda>w. continue (c_printf after [] w))"

text \<open>
  The block in which a program waits for a command: it exits with status 1 when the receiver
  reports an error and when the label is another.
\<close>

definition expect :: "'d bus \<Rightarrow> string \<Rightarrow> cint list \<Rightarrow> cint \<Rightarrow> string \<Rightarrow> cint \<Rightarrow> string \<Rightarrow> string \<Rightarrow>
    'd machine \<Rightarrow> (cint list \<Rightarrow> 'd machine \<Rightarrow> (cint \<times> 'd machine) outcome) \<Rightarrow>
    (cint \<times> 'd machine) outcome" where
  "expect b waiting pack quant_packages exiting want not_found found w continue =
     and_then (receiver_get_package b pack quant_packages (c_printf waiting [] w))
       (\<lambda>(ret, pack, command_size, w).
         if ret = - 1 then returns (1, c_printf exiting [] w)
         else and_then (defined_or_trap (rfid_check_command (crc_table w) pack command_size)) (\<lambda>label.
           if label \<noteq> want
           then returns (1, c_printf ''found: %d\<newline>'' [label] (c_printf not_found [] w))
           else continue pack (c_printf found [] w)))"

definition id_format :: string where
  "id_format = ''IP connected ID is: %04X \<newline>''"

definition end_format :: string where
  "end_format = ''End of Communication with IP = %04X \<newline>''"

definition handle_of :: "cint list \<Rightarrow> cint option" where
  "handle_of pack_handle = do {
     p1 \<leftarrow> arr_get pack_handle 1;
     p0 \<leftarrow> arr_get pack_handle 0;
     Some (push_bit 10 (p1 AND 0x3F) OR (c_sar p0 16 AND 0x3FF))
   }"

section \<open>main.c\<close>

definition hello_main :: "'d bus \<Rightarrow> 'd machine \<Rightarrow> (cint \<times> 'd machine) outcome" where
  "hello_main b w =
     and_then (configure b w) (\<lambda>w.
     (let w = print_id b id_format w;
          w = banner ''==        Hello world       ==\<newline>'' w
      in returns (0, print_id b end_format w)))"

section \<open>test_individual_commands_loopback.c\<close>

definition test_commands_main ::
  "'d bus \<Rightarrow> (nat \<Rightarrow> nat \<Rightarrow> cint) \<Rightarrow> 'd machine \<Rightarrow> (cint \<times> 'd machine) outcome" where
  "test_commands_main b stack w =
     and_then (configure b w) (\<lambda>w.
     (let w = banner ''==       TEST COMMAND       ==\<newline>'' w;
          command_ptr = query_build 1 1 1 1 1 1 1
      in and_then (sender_send_command b (stack 0) command_ptr w) (\<lambda>w.
         (let w = c_printf ''command sent\<newline>\<newline>'' [] w;
              quant_packages = 3;
              packages = map (stack 1) [0..<3];
              w = c_printf ''waiting for packages\<newline>'' [] w
          in and_then (receiver_get_package b packages quant_packages w) (\<lambda>(ret, packages, command_size, w).
             if ret = - 1 then returns (1, c_printf ''exiting on receiver\<newline>'' [] w)
             else (let w = c_printf ''command_size: %d\<newline>'' [command_size] w
                   in and_then (defined_or_trap (rfid_check_command (crc_table w) packages command_size)) (\<lambda>label.
                      returns (0, c_printf ''label is: %d\<newline>\<newline>'' [label] w))))))))"

section \<open>reader.c\<close>

definition reader_main ::
  "'d bus \<Rightarrow> (nat \<Rightarrow> nat \<Rightarrow> cint) \<Rightarrow> 'd machine \<Rightarrow> (cint \<times> 'd machine) outcome" where
  "reader_main b stack w =
     and_then (configure b w) (\<lambda>w.
     (let w = print_id b ''IP connected ID is: %04X , also starting handshake\<newline>'' w;
          w = banner ''==          READER          ==\<newline>'' w;
          query = query_build 1 1 1 1 1 1 1
      in send b (stack 0) ''sending query\<newline>'' query ''sent query\<newline>\<newline>'' w (\<lambda>w.
         expect b ''waiting for random number\<newline>'' (map (stack 1) [0..<1]) 1 ''exiting on RN16\<newline>''
           RN16_LABEL ''RN16_LABEL NOT FOUND\<newline>'' ''found RN16_LABEL\<newline>'' w (\<lambda>pack_rn w.
         and_then (defined_or_trap (arr_get pack_rn 0)) (\<lambda>p0.
         (let RN16 = p0 AND 0xFF;
              w = c_printf ''RN16 is: %X\<newline>\<newline>'' [RN16] w;
              ack = ack_build RN16
          in send b (stack 2) ''sending ack\<newline>'' ack ''sent ack\<newline>\<newline>'' w (\<lambda>w.
             expect b ''waiting for PC/XPC, EPC\<newline>'' (map (stack 3) [0..<2]) 2 ''exiting on PC/XPC, EPC\<newline>''
               RN_CRC_LABEL ''RN_CRC_LABEL NOT FOUND\<newline>'' ''found RN_CRC_LABEL\<newline>\<newline>'' w (\<lambda>pack_rn_crc w.
             and_then (defined_or_trap (req_rn_build (crc_table w) RN16)) (\<lambda>req_rn.
             send b (stack 4) ''sending req_rn\<newline>'' req_rn ''sent req_rn\<newline>\<newline>'' w (\<lambda>w.
             expect b ''waiting for PC/XPC, EPC\<newline>'' (map (stack 5) [0..<2]) 2 ''exiting on PC/XPC, EPC\<newline>''
               RN_CRC_LABEL ''RN_CRC_LABEL NOT FOUND\<newline>'' ''found RN_CRC_LABEL\<newline>\<newline>'' w (\<lambda>pack_handle w.
             and_then (defined_or_trap (handle_of pack_handle)) (\<lambda>handle.
             (let w = c_printf ''handle is: %X\<newline>'' [handle] w
              in returns (0, print_id b end_format w))))))))))))))"

section \<open>tag.c\<close>

definition tag_main ::
  "'d bus \<Rightarrow> (nat \<Rightarrow> nat \<Rightarrow> cint) \<Rightarrow> 'd machine \<Rightarrow> (cint \<times> 'd machine) outcome" where
  "tag_main b stack w =
     and_then (configure b w) (\<lambda>w.
     (let w = print_id b ''IP connected ID is: %04X , also starting handshake\<newline>'' w;
          w = banner ''==           TAG            ==\<newline>'' w
      in expect b ''waiting for query\<newline>'' (map (stack 0) [0..<2]) 2 ''exiting on RN16\<newline>''
           QUERY_LABEL ''QUERY_LABEL NOT FOUND\<newline>'' ''found QUERY_LABEL\<newline>\<newline>'' w (\<lambda>pack_query w.
         send b (stack 1) ''sending RN16\<newline>'' rn16_build ''sent RN16\<newline>\<newline>'' w (\<lambda>w.
         expect b ''waiting for ack(RN16)\<newline>'' (map (stack 2) [0..<2]) 2 ''exiting on ack(RN16)\<newline>''
           ACK_LABEL ''ACK_LABEL NOT FOUND\<newline>'' ''found ACK_LABEL\<newline>\<newline>'' w (\<lambda>pack_ack w.
         and_then (defined_or_trap (rn_crc_build (crc_table w) 0x1234)) (\<lambda>XPC.
         send b (stack 3) ''sending PC/XPC, EPC'' XPC ''sent PC/XPC, EPC\<newline>\<newline>'' w (\<lambda>w.
         expect b ''waiting for req_rn\<newline>'' (map (stack 4) [0..<2]) 2 ''exiting on req_rn\<newline>''
           REQ_RN_LABEL ''REQ_RN_LABEL NOT FOUND\<newline>'' ''found REQ_RN_LABEL\<newline>\<newline>'' w (\<lambda>pack_req_rn w.
         (let handle = 0x7813
          in and_then (defined_or_trap (rn_crc_build (crc_table w) handle)) (\<lambda>req_rn_resp.
             send b (stack 5) ''sending handle\<newline>'' req_rn_resp ''sent handle\<newline>\<newline>'' w (\<lambda>w.
             returns (0, print_id b end_format w))))))))))))"

section \<open>loopback_handshake.c\<close>

text \<open>The part from the tag's answer to the ACK on.\<close>

definition handshake_access ::
  "'d bus \<Rightarrow> (nat \<Rightarrow> nat \<Rightarrow> cint) \<Rightarrow> cint \<Rightarrow> 'd machine \<Rightarrow> (cint \<times> 'd machine) outcome" where
  "handshake_access b stack RN16 w =
     and_then (defined_or_trap (rn_crc_build (crc_table w) 0x1234)) (\<lambda>XPC.
     send b (stack 6) ''sending PC/XPC, EPC\<newline>'' XPC ''sent PC/XPC, EPC\<newline>\<newline>'' w (\<lambda>w.
     (let w = banner ''==          READER          ==\<newline>'' w
      in expect b ''waiting for PC/XPC, EPC\<newline>'' (map (stack 7) [0..<2]) 2 ''exiting on PC/XPC, EPC\<newline>''
           RN_CRC_LABEL ''RN_CRC_LABEL NOT FOUND\<newline>'' ''found RN_CRC_LABEL\<newline>\<newline>'' w (\<lambda>pack_rn_crc w.
         and_then (defined_or_trap (req_rn_build (crc_table w) RN16)) (\<lambda>req_rn.
         send b (stack 8) ''sending handle'' req_rn ''sent handle\<newline>\<newline>'' w (\<lambda>w.
         (let w = banner ''==           TAG            ==\<newline>'' w
          in expect b ''waiting for req_rn\<newline>'' (map (stack 9) [0..<2]) 2 ''exiting on req_rn\<newline>''
               REQ_RN_LABEL ''REQ_RN_LABEL NOT FOUND\<newline>'' ''found REQ_RN_LABEL\<newline>\<newline>'' w (\<lambda>pack_req_rn w.
             and_then (defined_or_trap (rn_crc_build (crc_table w) 0x2AAA)) (\<lambda>req_rn_resp.
             send b (stack 10) ''sending handle\<newline>'' req_rn_resp ''handle was sent\<newline>\<newline>'' w (\<lambda>w.
             (let w = banner ''==          READER          ==\<newline>'' w
              in expect b ''waiting handle\<newline>'' (map (stack 11) [0..<2]) 2 ''exiting on handle\<newline>''
                   RN_CRC_LABEL ''RN_CRC_LABEL NOT FOUND\<newline>'' ''found RN_CRC_LABEL\<newline>\<newline>'' w (\<lambda>pack_handle w.
                 and_then (defined_or_trap (handle_of pack_handle)) (\<lambda>handle.
                 (let w = c_printf ''handle is: %X\<newline>\<newline>'' [handle] w
                  in returns (0, print_id b end_format w)))))))))))))))"

definition handshake_main ::
  "'d bus \<Rightarrow> (nat \<Rightarrow> nat \<Rightarrow> cint) \<Rightarrow> 'd machine \<Rightarrow> (cint \<times> 'd machine) outcome" where
  "handshake_main b stack w =
     and_then (configure b w) (\<lambda>w.
     (let w = print_id b id_format w;
          w = banner ''==          READER          ==\<newline>'' w;
          query = query_build 1 1 1 1 1 1 1
      in send b (stack 0) ''sending query\<newline>'' query ''sent query\<newline>\<newline>'' w (\<lambda>w.
         (let w = banner ''==           TAG            ==\<newline>'' w
          in expect b ''waiting for query\<newline>'' (map (stack 1) [0..<2]) 2 ''exiting on RN16\<newline>''
               QUERY_LABEL ''QUERY_LABEL NOT FOUND\<newline>'' ''found QUERY_LABEL\<newline>\<newline>'' w (\<lambda>pack_query w.
             send b (stack 2) ''sending RN16\<newline>'' rn16_build ''sent RN16\<newline>\<newline>'' w (\<lambda>w.
             (let w = banner ''==          READER          ==\<newline>'' w
              in expect b ''waiting for random number\<newline>'' (map (stack 3) [0..<1]) 1 ''exiting on RN16\<newline>''
                   RN16_LABEL ''RN16_LABEL NOT FOUND\<newline>'' ''found RN16_LABEL\<newline>'' w (\<lambda>pack_rn w.
                 and_then (defined_or_trap (arr_get pack_rn 0)) (\<lambda>p0.
                 (let RN16 = p0 AND 0xFF;
                      w = c_printf ''RN16 is: %X\<newline>\<newline>'' [RN16] w;
                      ack = ack_build RN16
                  in send b (stack 4) ''sending ack\<newline>'' ack ''sent ack\<newline>\<newline>'' w (\<lambda>w.
                     (let w = banner ''==           TAG            ==\<newline>'' w
                      in expect b ''waiting for ack(RN16)\<newline>'' (map (stack 5) [0..<2]) 2
                           ''exiting on ack(RN16)\<newline>''
                           ACK_LABEL ''ACK_LABEL NOT FOUND\<newline>'' ''found ACK_LABEL\<newline>\<newline>'' w (\<lambda>pack_ack w.
                         handshake_access b stack RN16 w)))))))))))))"

end
