(* ===== verification/Handshake.thy ===== *)
theory Handshake
  imports Builders Programs
begin

text \<open>
  The programs on the peripheral in loopback: the configuration leaves it idle, every
  command a program sends arrives, and the handshake of loopback_handshake.c ends with
  status 0.
\<close>

section \<open>One command in flight\<close>

text \<open>A command the line carries whole: every package has data.\<close>

definition sendable :: "nat \<Rightarrow> command \<Rightarrow> bool" where
  "sendable n c \<longleftrightarrow> csize c = of_nat n \<and> n mod 26 \<noteq> 0 \<and> n mod 26 \<noteq> 25 \<and> n < 64 \<and>
     (\<forall>k < n_packages n. chunk n (result_data c) k \<noteq> 0)"

definition ip_holds :: "(bool list \<Rightarrow> bool) \<Rightarrow> nat \<Rightarrow> command \<Rightarrow> ip \<Rightarrow> bool" where
  "ip_holds dummy n c d \<longleftrightarrow> ip_inv dummy d \<and> ip_txq d = [] \<and>
     ip_arrivals dummy d = map (word_of (line_size dummy n (result_data c))
       (line_data dummy n (result_data c))) [0..<n_packages n] @ [0]"

lemma sendable_received:
  assumes "sendable n c"
  shows "received dummy c =
      chunks (line_size dummy n (result_data c)) (line_data dummy n (result_data c))"
    and "received_size dummy c = of_nat (line_size dummy n (result_data c))"
    and "length (received dummy c) = n_packages n"
proof -
  have "unat (csize c) = n"
    using assms of_nat_eq_iff_unat[of n "csize c"] by (simp add: sendable_def)
  then show "received dummy c =
      chunks (line_size dummy n (result_data c)) (line_data dummy n (result_data c))"
    "received_size dummy c = of_nat (line_size dummy n (result_data c))"
    by (simp_all add: received_def received_size_def)
  then show "length (received dummy c) = n_packages n"
    using assms n_packages_line_size[of n dummy "result_data c"] by (simp add: sendable_def)
qed

lemma send_holds:
  assumes "ip_idle dummy (dev w)" "sendable n c"
  shows "\<exists>d. (\<forall>continue. send (ip_bus dummy) stack before c after w continue =
      continue (w\<lparr>dev := d, stdout := stdout w @ [Printf before [], Printf after []]\<rparr>)) \<and>
    ip_holds dummy n c d"
proof -
  obtain d where d: "sender_send_command (ip_bus dummy) stack c (c_printf before [] w) =
      returns (c_printf before [] w\<lparr>dev := d\<rparr>)" "ip_holds dummy n c d"
    using loopback_send[of dummy "c_printf before [] w" c n stack] assms
    by (auto simp: sendable_def ip_holds_def)
  have "send (ip_bus dummy) stack before c after w continue =
      continue (w\<lparr>dev := d, stdout := stdout w @ [Printf before [], Printf after []]\<rparr>)" for continue
    by (simp add: send_def d(1)) (simp add: c_printf_def)
  with d(2) show ?thesis by blast
qed

lemma receive_holds:
  assumes "ip_holds dummy n c (dev w)" "sendable n c"
    and "n_packages n \<le> length vec" "int (n_packages n) \<le> sint quant"
  shows "\<exists>d. receiver_get_package (ip_bus dummy) vec quant w =
      returns (0, received dummy c @ drop (n_packages n) vec, received_size dummy c,
        w\<lparr>dev := d, stdout := stdout w @ [Printf msg_eop []]\<rparr>) \<and> ip_idle dummy d"
proof -
  let ?m = "line_size dummy n (result_data c)" and ?rd = "line_data dummy n (result_data c)"
  let ?ws = "map (word_of ?m ?rd) [0..<n_packages n]"
  have m: "n_packages ?m = n_packages n"
    using assms(2) by (intro n_packages_line_size) (simp add: sendable_def)
  have data: "map package_data ?ws = received dummy c"
    by (simp add: sendable_received[OF assms(2)] chunks_def m package_data_word_of comp_def)
  have size: "sum_list (map package_mask_value ?ws) = received_size dummy c"
    using sum_mask_values[of ?m ?rd] by (simp only: m sendable_received[OF assms(2)])
  have "\<forall>p \<in> set ?ws. package_data p \<noteq> 0"
    using assms(2) by (auto simp: package_data_word_of sendable_def chunk_line_nonzero)
  then obtain d where "receiver_get_package (ip_bus dummy) vec quant w =
      returns (0, received dummy c @ drop (n_packages n) vec, received_size dummy c,
        c_printf msg_eop [] (w\<lparr>dev := d\<rparr>))"
      "ip_inv dummy d" "ip_txq d = []" "ip_arrivals dummy d = []"
    using ip.receiver_loop_returns[where w = w and dummy = dummy and ws = ?ws and z = 0
        and rest = "[]" and i = 0 and vec = vec and q = quant and ?p0.0 = 1 and sz = 0] assms(1,3,4)
    unfolding receiver_get_package_def data size by (auto simp: ip_holds_def)
  then show ?thesis by (auto simp: ip_idle_def c_printf_def intro!: exI[of _ d])
qed

lemma expect_holds:
  assumes "ip_holds dummy n c (dev w)" "sendable n c"
    and "n_packages n \<le> length vec" "int (n_packages n) \<le> sint quant"
    and "\<And>rest. rfid_check_command (crc_table w) (received dummy c @ rest) (received_size dummy c) =
      Some want"
  shows "\<exists>d. expect (ip_bus dummy) waiting vec quant exiting want not_found found w continue =
      continue (received dummy c @ drop (n_packages n) vec)
        (w\<lparr>dev := d, stdout := stdout w @ [Printf waiting [], Printf msg_eop [], Printf found []]\<rparr>) \<and>
    ip_idle dummy d"
proof -
  obtain d where d: "receiver_get_package (ip_bus dummy) vec quant (c_printf waiting [] w) =
      returns (0, received dummy c @ drop (n_packages n) vec, received_size dummy c,
        (c_printf waiting [] w)\<lparr>dev := d, stdout := stdout (c_printf waiting [] w) @ [Printf msg_eop []]\<rparr>)"
      "ip_idle dummy d"
    using receive_holds[of dummy n c "c_printf waiting [] w" vec quant] assms(1-4) by auto
  show ?thesis
  proof (intro exI conjI)
    show "expect (ip_bus dummy) waiting vec quant exiting want not_found found w continue =
        continue (received dummy c @ drop (n_packages n) vec)
          (w\<lparr>dev := d, stdout := stdout w @ [Printf waiting [], Printf msg_eop [], Printf found []]\<rparr>)"
      by (simp add: expect_def d(1) assms(5)) (simp add: c_printf_def)
  qed (rule d(2))
qed

text \<open>Another command than the one expected ends the program with status 1.\<close>

lemma expect_mismatch:
  assumes "ip_holds dummy n c (dev w)" "sendable n c"
    and "n_packages n \<le> length vec" "int (n_packages n) \<le> sint quant"
    and "\<And>rest. rfid_check_command (crc_table w) (received dummy c @ rest) (received_size dummy c) =
      Some got" "got \<noteq> want"
  shows "\<exists>d. \<forall>continue. expect (ip_bus dummy) waiting vec quant exiting want not_found found w continue =
      returns (1, w\<lparr>dev := d, stdout := stdout w @ [Printf waiting [], Printf msg_eop [],
        Printf not_found [], Printf ''found: %d\<newline>'' [got]]\<rparr>)"
proof -
  let ?w = "c_printf waiting [] w"
  obtain d where d: "receiver_get_package (ip_bus dummy) vec quant ?w =
      returns (0, received dummy c @ drop (n_packages n) vec, received_size dummy c,
        ?w\<lparr>dev := d, stdout := stdout ?w @ [Printf msg_eop []]\<rparr>)"
    using receive_holds[of dummy n c ?w vec quant] assms(1-4) by auto
  have "expect (ip_bus dummy) waiting vec quant exiting want not_found found w continue =
      returns (1, c_printf ''found: %d\<newline>'' [got] (c_printf not_found []
        (?w\<lparr>dev := d, stdout := stdout ?w @ [Printf msg_eop []]\<rparr>)))" for continue
    by (simp add: expect_def d assms(5,6))
  then have "\<forall>continue. expect (ip_bus dummy) waiting vec quant exiting want not_found found w continue =
      returns (1, w\<lparr>dev := d, stdout := stdout w @ [Printf waiting [], Printf msg_eop [],
        Printf not_found [], Printf ''found: %d\<newline>'' [got]]\<rparr>)"
    by (simp add: c_printf_def)
  then show ?thesis by blast
qed

section \<open>The configuration\<close>

definition configuration :: "(cint \<times> cint) list" where
  "configuration =
     [(0x41000, 0x100), (0x41004, 500), (0x41000, 0x102), (0x41000, 0x112),
      (0x4100C, 505), (0x41010, 495), (0x41014, 808), (0x41018, 792),
      (0x4101C, 250), (0x41020, 3125), (0x41024, 6750), (0x41028, 6750)]"

lemma configure_trace:
  "configure b w = returns (w\<lparr>dev := fold (\<lambda>(a, v) d. stwio b d a v) configuration (dev w)\<rparr>)"
  by (simp add: configure_def clock_values boundary_values rfid_set_loopback_def rfid_set_tari_def
      sender_enable_def receiver_enable_def rfid_set_tari_boundaries_def sender_has_gen_def
      IOWR_32DIRECT_def IO_CALC_ADDRESS_DYNAMIC_def config_defs configuration_def Let_def)

text \<open>Every program configures the peripheral by the same twelve register writes.\<close>

theorem configure_writes:
  "configure b w = returns (w\<lparr>dev := fold (\<lambda>(a, v) d. stwio b d a v) configuration (dev w)\<rparr>)"
  by (rule configure_trace)

definition ip_ready_state :: ip where
  "ip_ready_state = ip_reset\<lparr>reg_settings := 0x112, reg_send_tari := 500, reg_send_tari_101 := 505,
     reg_send_tari_099 := 495, reg_send_tari_1616 := 808, reg_send_tari_1584 := 792,
     reg_send_pw := 250, reg_send_delimiter := 3125, reg_send_RTcal := 6750, reg_send_TRcal := 6750\<rparr>"

definition boot :: "ip machine" where
  "boot = \<lparr>dev = ip_reset, stdout = [], crc_table = crc_table_bss\<rparr>"

lemma ip_tick_inactive: "\<not> tx_active s \<Longrightarrow> ip_tick dummy s = s"
  by (simp add: ip_tick_def)

lemma configuration_ip:
  "fold (\<lambda>(a, v) d. stwio (ip_bus dummy) d a v) configuration ip_reset = ip_ready_state"
  by (simp add: configuration_def ip_bus_def ip_write_def ip_tick_inactive ip_reset_def
      ip_selected_def avs_address_def config_defs ip_write_reg_def ip_settings_def Let_def
      ip_ready_state_def)

lemma ip_idle_ready: "ip_idle dummy ip_ready_state"
  by (simp add: ip_idle_def ip_inv_def ip_arrivals_def ip_on_air_def ip_txq_def ip_ready_state_def
      ip_reset_def)

section \<open>Runs to the end\<close>

text \<open>The numbers a program has printed, in order.\<close>

fun print_args :: "print \<Rightarrow> cint list" where
  "print_args (Printf fmt args) = args"

definition printed :: "'d machine \<Rightarrow> cint list" where
  "printed w = concat (map print_args (stdout w))"

definition completes :: "(bool list \<Rightarrow> bool) \<Rightarrow> cint list \<Rightarrow> (cint \<times> ip machine) outcome \<Rightarrow> bool" where
  "completes dummy out r \<longleftrightarrow> (\<exists>w. r = returns (0, w) \<and> ip_idle dummy (dev w) \<and> printed w = out)"

lemma printed_c_printf [simp]: "printed (c_printf fmt args w) = printed w @ args"
  by (simp add: printed_def)

lemma banner_keeps [simp]:
  "dev (banner t w) = dev w" "crc_table (banner t w) = crc_table w" "printed (banner t w) = printed w"
  by (simp_all add: banner_def)

lemma send_completes:
  assumes "ip_idle dummy (dev w)" "sendable n c"
    and "\<And>w'. ip_holds dummy n c (dev w') \<Longrightarrow> crc_table w' = crc_table w \<Longrightarrow> printed w' = printed w \<Longrightarrow>
      completes dummy out (continue w')"
  shows "completes dummy out (send (ip_bus dummy) stack before c after w continue)"
proof -
  obtain d where "send (ip_bus dummy) stack before c after w continue =
      continue (w\<lparr>dev := d, stdout := stdout w @ [Printf before [], Printf after []]\<rparr>)"
      "ip_holds dummy n c d"
    using send_holds[OF assms(1,2), of stack before after] by blast
  then show ?thesis
    using assms(3)[of "w\<lparr>dev := d, stdout := stdout w @ [Printf before [], Printf after []]\<rparr>"]
    by (simp add: printed_def)
qed

lemma expect_completes:
  assumes "ip_holds dummy n c (dev w)" "sendable n c"
    and "n_packages n \<le> length vec" "int (n_packages n) \<le> sint quant"
    and "\<And>rest. rfid_check_command (crc_table w) (received dummy c @ rest) (received_size dummy c) =
      Some want"
    and "\<And>w'. ip_idle dummy (dev w') \<Longrightarrow> crc_table w' = crc_table w \<Longrightarrow> printed w' = printed w \<Longrightarrow>
      completes dummy out (continue (received dummy c @ drop (n_packages n) vec) w')"
  shows "completes dummy out
    (expect (ip_bus dummy) waiting vec quant exiting want not_found found w continue)"
proof -
  obtain d where "expect (ip_bus dummy) waiting vec quant exiting want not_found found w continue =
      continue (received dummy c @ drop (n_packages n) vec)
        (w\<lparr>dev := d, stdout := stdout w @ [Printf waiting [], Printf msg_eop [], Printf found []]\<rparr>)"
      "ip_idle dummy d"
    using expect_holds[OF assms(1-5), of waiting exiting not_found found continue] by blast
  then show ?thesis
    using assms(6)[of "w\<lparr>dev := d, stdout := stdout w @ [Printf waiting [], Printf msg_eop [], Printf found []]\<rparr>"]
    by (simp add: printed_def)
qed

text \<open>A command is sent, some text printed, and the command received.\<close>

lemma exchange_completes:
  assumes "ip_idle dummy (dev w)" "sendable n c"
    and "n_packages n \<le> length vec" "int (n_packages n) \<le> sint quant"
    and "\<And>rest. rfid_check_command (crc_table w) (received dummy c @ rest) (received_size dummy c) =
      Some want"
    and "\<And>w'. dev (txt w') = dev w' \<and> crc_table (txt w') = crc_table w' \<and> printed (txt w') = printed w'"
    and "\<And>w'. ip_idle dummy (dev w') \<Longrightarrow> crc_table w' = crc_table w \<Longrightarrow> printed w' = printed w \<Longrightarrow>
      completes dummy out (continue (received dummy c @ drop (n_packages n) vec) w')"
  shows "completes dummy out (send (ip_bus dummy) stack before c after w
    (\<lambda>w. expect (ip_bus dummy) waiting vec quant exiting want not_found found (txt w) continue))"
proof (rule send_completes[OF assms(1,2)])
  fix w1
  assume h: "ip_holds dummy n c (dev w1)" "crc_table w1 = crc_table w" "printed w1 = printed w"
  show "completes dummy out
      (expect (ip_bus dummy) waiting vec quant exiting want not_found found (txt w1) continue)"
    by (rule expect_completes[where n = n and c = c]) (use assms h in simp_all)
qed

lemma print_id_ip:
  assumes "ip_idle dummy (dev w)"
  shows "ip_idle dummy (dev (print_id (ip_bus dummy) fmt w)) \<and>
    printed (print_id (ip_bus dummy) fmt w) = printed w @ [0xFF0055FF] \<and>
    crc_table (print_id (ip_bus dummy) fmt w) = crc_table w \<and>
    stdout (print_id (ip_bus dummy) fmt w) = stdout w @ [Printf fmt [0xFF0055FF]]"
proof -
  have "ip_selected 0x4101C" "avs_address 0x4101C = 7"
    by (simp_all add: ip_selected_def avs_address_def config_defs)
  then have "ip_read dummy s 0x4101C = (0xFF0055FF, (ip_tick dummy s)\<lparr>avs_readdata := 0xFF0055FF\<rparr>)" for s
    by (simp add: ip_read_def Let_def ip_readdata_def)
  then show ?thesis
    using assms ip_tick_keeps[of dummy "dev w"]
    by (simp add: print_id_def rfid_get_ip_id_def IORD_eq config_defs ip_bus_def ip_idle_def printed_def
        c_printf_def)
qed

definition configured :: "ip machine" where
  "configured = boot\<lparr>dev := ip_ready_state\<rparr>"

lemma configure_boot: "configure (ip_bus dummy) boot = returns configured"
  by (simp add: configure_trace configuration_ip boot_def configured_def)

lemma configured_simps [simp]:
  "dev configured = ip_ready_state" "printed configured = []" "crc_table configured = crc_table_bss"
  by (simp_all add: configured_def boot_def printed_def)

lemma print_id_configured:
  "ip_idle dummy (dev (print_id (ip_bus dummy) fmt configured))"
  "printed (print_id (ip_bus dummy) fmt configured) = [0xFF0055FF]"
  "crc_table (print_id (ip_bus dummy) fmt configured) = crc_table_bss"
  using print_id_ip[of dummy configured fmt] ip_idle_ready[of dummy] by simp_all

section \<open>The commands of the programs\<close>

lemma query_sendable: "sendable 22 (query_build 1 1 1 1 1 1 1)"
  unfolding sendable_def by code_simp

lemma rn16_sendable: "sendable 16 rn16_build"
  unfolding sendable_def by code_simp

lemma ack_sendable: "sendable 18 (ack_build 0x24)"
  unfolding sendable_def by code_simp

lemma built_crc_commands:
  "rn_crc_build crc_table_bss 0x1234 = Some \<lparr>csize = 32, result_data = 0x12340000\<rparr>"
  "rn_crc_build crc_table_bss 0x2AAA = Some \<lparr>csize = 32, result_data = 0x2AAA0000\<rparr>"
  "rn_crc_build crc_table_bss 0x7813 = Some \<lparr>csize = 32, result_data = 0x78130000\<rparr>"
  "req_rn_build crc_table_bss 0x24 = Some \<lparr>csize = 40, result_data = 0xC100240000\<rparr>"
  by code_simp+

lemma crc_commands_sendable:
  "sendable 32 \<lparr>csize = 32, result_data = 0x12340000\<rparr>"
  "sendable 32 \<lparr>csize = 32, result_data = 0x2AAA0000\<rparr>"
  "sendable 32 \<lparr>csize = 32, result_data = 0x78130000\<rparr>"
  "sendable 40 \<lparr>csize = 40, result_data = 0xC100240000\<rparr>"
  unfolding sendable_def by code_simp+

text \<open>What a program takes out of the array it received.\<close>

lemma received_field:
  assumes "sendable n c" "k < n_packages n" "s + t \<le> nbits n k"
  shows "take_bit t (c_sar ((received dummy c @ rest) ! k) s) = field (result_data c) (26 * k + s) t"
proof -
  let ?m = "line_size dummy n (result_data c)" and ?x = "line_data dummy n (result_data c)"
  have n: "n mod 26 \<noteq> 25" "n < 64" using assms(1) by (simp_all add: sendable_def)
  have "nbits n k \<le> nbits ?m k" by (auto simp: nbits_def line_size_def)
  moreover have "26 * k + s + t \<le> n"
    using assms(2,3) blocks_append[of k n] by linarith
  ultimately show ?thesis
    using assms take_bit_chunk[of s t ?m k ?x] field_line_data[of "26 * k + s" t n dummy "result_data c"]
      n_packages_line_size[OF n(1), of dummy "result_data c"] n
    by (simp add: sendable_received[OF assms(1)])
qed

lemma rn16_received_value:
  "\<exists>p0. arr_get (received dummy rn16_build @ rest) 0 = Some p0 \<and> p0 AND 0xFF = 0x24"
proof -
  have "field (result_data rn16_build) 0 8 = 0x24" by code_simp
  then show ?thesis
    using received_field[OF rn16_sendable, of 0 0 8 dummy rest]
      sendable_received(3)[OF rn16_sendable, of dummy]
    by (simp add: n_packages_def nbits_def and_masks arr_get_def)
qed

lemma handle_received_value:
  assumes "sendable 32 c"
  shows "handle_of (received dummy c @ rest) = Some (field (result_data c) 16 16)"
proof -
  have l: "length (received dummy c) = 2"
    using sendable_received(3)[OF assms, of dummy] by (simp add: n_packages_def)
  have "take_bit 6 (c_sar ((received dummy c @ rest) ! 1) 0) = field (result_data c) 26 6"
    "take_bit 10 (c_sar ((received dummy c @ rest) ! 0) 16) = field (result_data c) 16 10"
    using received_field[OF assms, of 1 0 6 dummy rest] received_field[OF assms, of 0 16 10 dummy rest]
    by (simp_all add: n_packages_def nbits_def)
  then show ?thesis
    using field_append[of 10 6 "result_data c" 16] l
    by (simp add: handle_of_def and_masks)
qed

lemma rn_crc_16_label:
  assumes "rn_crc_build tbl rn = Some c" "unat rn < 2 ^ 16"
  shows "rfid_check_command tbl (received dummy c @ rest) (received_size dummy c) = Some RN_CRC_LABEL"
  using assms by (rule rn_crc_label)

lemma req_rn_bss_label:
  assumes "req_rn_build crc_table_bss rn = Some c"
  shows "rfid_check_command crc_table_bss (received dummy c @ rest) (received_size dummy c) = Some REQ_RN_LABEL"
  using req_rn_received_iff[OF assms, of dummy rest] crc_16_bss[of 3] by simp

lemmas program_labels = rn_crc_16_label[OF built_crc_commands(1)] rn_crc_16_label[OF built_crc_commands(2)]
  rn_crc_16_label[OF built_crc_commands(3)] req_rn_bss_label[OF built_crc_commands(4)]
  query_label[of 1 1 1 1 1 1 1] ack_nak_rn16_label

lemma handshake_access_completes:
  assumes "ip_idle dummy (dev w)" "crc_table w = crc_table_bss"
  shows "completes dummy (printed w @ [0x2AAA, 0xFF0055FF])
    (handshake_access (ip_bus dummy) stack 0x24 w)"
  unfolding handshake_access_def Let_def assms(2) built_crc_commands defined_or_trap_simps and_then_simps
proof (rule exchange_completes[where n = 32], goal_cases)
  case w1: (7 w1)
  then have t1: "crc_table w1 = crc_table_bss" using assms by simp
  show ?case
    unfolding t1 built_crc_commands defined_or_trap_simps and_then_simps
  proof (rule exchange_completes[where n = 40], goal_cases)
    case w2: (7 w2)
    then have t2: "crc_table w2 = crc_table_bss" using t1 by simp
    show ?case
      unfolding t2 built_crc_commands defined_or_trap_simps and_then_simps
    proof (rule exchange_completes[where n = 32], goal_cases)
      case w3: (7 w3)
      have h: "field 0x2AAA0000 16 16 = 0x2AAA" by code_simp
      show ?case
        using w1 w2 w3
          print_id_ip[of dummy "c_printf ''handle is: %X\<newline>\<newline>'' [0x2AAA] w3" end_format]
        by (simp add: handle_received_value[OF crc_commands_sendable(2)] h completes_def)
    qed (use w2 t2 crc_commands_sendable program_labels in
        \<open>simp_all add: n_packages_def\<close>)
  qed (use w1 t1 crc_commands_sendable program_labels in
      \<open>simp_all add: n_packages_def\<close>)
qed (use assms crc_commands_sendable program_labels in
    \<open>simp_all add: n_packages_def\<close>)

text \<open>C1. On the peripheral in loopback, from its reset, the handshake of reader and tag ends with
  status 0, whatever the line adds and whatever the stack holds; the numbers it prints are the
  identification, the low byte of the random number, the handle and the identification.\<close>

theorem handshake_ends:
  "completes dummy [0xFF0055FF, 0x24, 0x2AAA, 0xFF0055FF]
     (handshake_main (ip_bus dummy) stack boot)"
proof -
  let ?b = "ip_bus dummy"
  let ?p = "print_id ?b id_format configured"
  note p = print_id_configured[of dummy id_format]
  show ?thesis
    unfolding handshake_main_def Let_def configure_boot and_then_simps
  proof (rule exchange_completes[where n = 22], goal_cases)
    case w1: (7 w1)
    show ?case
    proof (rule exchange_completes[where n = 16], goal_cases)
      case w2: (7 w2)
      obtain p0 where p0: "arr_get (received dummy rn16_build @ drop (n_packages 16) (map (stack 3) [0..<1])) 0 = Some p0"
          "p0 AND 0xFF = 0x24"
        using rn16_received_value by blast
      show ?case
        unfolding p0 defined_or_trap_simps and_then_simps
      proof (rule exchange_completes[where n = 18], goal_cases)
        case w3: (7 w3)
        then show ?case
          using handshake_access_completes[of dummy w3 stack] w1 w2 p by simp
      qed (use w1 w2 p ack_sendable program_labels in \<open>simp_all add: n_packages_def\<close>)
    qed (use w1 p rn16_sendable program_labels in \<open>simp_all add: n_packages_def\<close>)
  qed (use p query_sendable program_labels in \<open>simp_all add: n_packages_def\<close>)
qed

text \<open>main.c configures the peripheral, prints its identification twice and returns 0.\<close>

lemma hello_ends:
  "completes dummy [0xFF0055FF, 0xFF0055FF] (hello_main (ip_bus dummy) boot)"
proof -
  let ?w = "banner ''==        Hello world       ==\<newline>'' (print_id (ip_bus dummy) id_format configured)"
  show ?thesis
    using print_id_ip[of dummy ?w end_format] print_id_configured[of dummy id_format]
    by (simp add: hello_main_def configure_boot Let_def completes_def)
qed

text \<open>test_individual_commands_loopback.c prints the size of the query as the line delivers
  it, 22 or 23, and the label of a query.\<close>

theorem test_commands_ends:
  "completes dummy [received_size dummy (query_build 1 1 1 1 1 1 1), QUERY_LABEL]
     (test_commands_main (ip_bus dummy) stack boot)"
proof -
  let ?q = "query_build 1 1 1 1 1 1 1" and ?b = "ip_bus dummy"
  let ?w = "banner ''==       TEST COMMAND       ==\<newline>'' configured"
  obtain d where d: "sender_send_command ?b (stack 0) ?q ?w = returns (?w\<lparr>dev := d\<rparr>)"
      "ip_holds dummy 22 ?q d"
    using loopback_send[of dummy ?w ?q 22 "stack 0"] query_sendable ip_idle_ready[of dummy]
    by (auto simp: sendable_def ip_holds_def)
  let ?v = "c_printf ''waiting for packages\<newline>'' [] (c_printf ''command sent\<newline>\<newline>'' [] (?w\<lparr>dev := d\<rparr>))"
  obtain d' where r: "receiver_get_package ?b (map (stack 1) [0..<3]) 3 ?v =
      returns (0, received dummy ?q @ drop (n_packages 22) (map (stack 1) [0..<3]),
        received_size dummy ?q, ?v\<lparr>dev := d', stdout := stdout ?v @ [Printf msg_eop []]\<rparr>)"
      "ip_idle dummy d'"
    using receive_holds[of dummy 22 ?q ?v "map (stack 1) [0..<3]" 3] d(2) query_sendable
    by (auto simp: n_packages_def)
  have t: "crc_table ?w = crc_table_bss" "printed ?w = []" by simp_all
  show ?thesis
    using r(2) t
    by (simp add: test_commands_main_def configure_boot Let_def d(1) r(1)[unfolded One_nat_def] program_labels completes_def)
       (simp add: printed_def banner_def boot_def configured_def)
qed

text \<open>As config.h is committed, with the loopback bit set, the reader receives its own
  query: reader.c reports the label of a query and returns 1.\<close>

theorem reader_hears_itself:
  "\<exists>w. reader_main (ip_bus dummy) stack boot = returns (1, w) \<and>
     stdout w = stdout boot @
       [Printf ''IP connected ID is: %04X , also starting handshake\<newline>'' [0xFF0055FF],
        Printf bar [], Printf ''==          READER          ==\<newline>'' [], Printf bar [],
        Printf ''sending query\<newline>'' [], Printf ''sent query\<newline>\<newline>'' [],
        Printf ''waiting for random number\<newline>'' [], Printf msg_eop [],
        Printf ''RN16_LABEL NOT FOUND\<newline>'' [], Printf ''found: %d\<newline>'' [QUERY_LABEL]]"
proof -
  let ?q = "query_build 1 1 1 1 1 1 1" and ?b = "ip_bus dummy"
  let ?f = "''IP connected ID is: %04X , also starting handshake\<newline>''"
  let ?p = "print_id ?b ?f configured"
  let ?w = "banner ''==          READER          ==\<newline>'' ?p"
  have p: "stdout ?p = [Printf ?f [0xFF0055FF]]" "ip_idle dummy (dev ?w)" "crc_table ?w = crc_table_bss"
    using print_id_ip[of dummy configured ?f] ip_idle_ready[of dummy]
    by (simp_all add: configured_def boot_def)
  obtain d where d: "\<And>k :: ip machine \<Rightarrow> (cint \<times> ip machine) outcome. send ?b (stack 0) ''sending query\<newline>'' ?q ''sent query\<newline>\<newline>'' ?w k =
      k (?w\<lparr>dev := d, stdout := stdout ?w @ [Printf ''sending query\<newline>'' [], Printf ''sent query\<newline>\<newline>'' []]\<rparr>)"
      "ip_holds dummy 22 ?q d"
    using send_holds[OF p(2) query_sendable] by blast
  let ?v = "?w\<lparr>dev := d, stdout := stdout ?w @ [Printf ''sending query\<newline>'' [], Printf ''sent query\<newline>\<newline>'' []]\<rparr>"
  have "\<exists>d'. \<forall>k. expect ?b ''waiting for random number\<newline>'' (map (stack 1) [0..<1]) 1 ''exiting on RN16\<newline>''
      RN16_LABEL ''RN16_LABEL NOT FOUND\<newline>'' ''found RN16_LABEL\<newline>'' ?v k =
      returns (1, ?v\<lparr>dev := d', stdout := stdout ?v @ [Printf ''waiting for random number\<newline>'' [],
        Printf msg_eop [], Printf ''RN16_LABEL NOT FOUND\<newline>'' [], Printf ''found: %d\<newline>'' [QUERY_LABEL]]\<rparr>)"
  proof (rule expect_mismatch[OF _ query_sendable])
    show "rfid_check_command (crc_table ?v) (received dummy ?q @ rest) (received_size dummy ?q) = Some QUERY_LABEL"
      for rest by (simp add: program_labels)
  qed (use d(2) in \<open>simp_all add: n_packages_def label_defs\<close>)
  then obtain d' where e: "\<And>k. expect ?b ''waiting for random number\<newline>'' (map (stack 1) [0..<1]) 1 ''exiting on RN16\<newline>''
      RN16_LABEL ''RN16_LABEL NOT FOUND\<newline>'' ''found RN16_LABEL\<newline>'' ?v k =
      returns (1, ?v\<lparr>dev := d', stdout := stdout ?v @ [Printf ''waiting for random number\<newline>'' [],
        Printf msg_eop [], Printf ''RN16_LABEL NOT FOUND\<newline>'' [], Printf ''found: %d\<newline>'' [QUERY_LABEL]]\<rparr>)"
    by blast
  show ?thesis
    unfolding reader_main_def configure_boot and_then_simps Let_def d(1) e
    using p(1) by (simp add: banner_def boot_def)
qed

text \<open>C37. The tag alone waits for a query for ever: nothing in the program limits the wait.\<close>

theorem tag_waits_for_ever: "tag_main (ip_bus dummy) stack boot = None"
proof -
  let ?b = "ip_bus dummy"
  let ?p = "print_id ?b ''IP connected ID is: %04X , also starting handshake\<newline>'' configured"
  let ?w = "c_printf ''waiting for query\<newline>'' [] (banner ''==           TAG            ==\<newline>'' ?p)"
  have "ip_idle dummy (dev ?w)" by (simp add: print_id_configured)
  then have "receiver_loop ?b 2 1 0 (map (stack 0) [0..<2]) 0 ?w = None"
    by (intro ip.receiver_loop_starves) (simp_all add: ip_idle_def)
  then show ?thesis
    by (simp add: tag_main_def configure_boot Let_def expect_def receiver_get_package_def)
qed

text \<open>\<open>sender_write_clr_finished_sending\<close> does not clear the flag: the peripheral
  clears it with bit 10, and \<open>MASK_CLR_FINISHED\<close> is bit 1.\<close>

theorem clr_finished_keeps_flag:
  assumes "ip_inv dummy (dev w)" and "finished_sending (dev w)"
  shows "finished_sending (dev (sender_write_clr_finished_sending (ip_bus dummy) w))"
proof -
  let ?t = "ip_tick dummy"
  have keep: "finished_sending (?t s)" if "ip_inv dummy s" "finished_sending s" for s
    using that by (auto simp: ip_tick_def ip_inv_def split: list.split)
  have i: "ip_inv dummy (?t (dev w))" using ip_tick_keeps[OF assms(1)] by simp
  have "finished_sending (?t (?t (dev w)))"
    using keep[OF i] keep[OF assms] by simp
  then show ?thesis
    using i by (simp add: access_eqs ip_bus_def ip_write_settings ip_settings_steady
        ip_inv_steady[of dummy "?t (dev w)"])
qed

lemma clr_finished_keeps_flag_witness:
  "finished_sending (dev (sender_write_clr_finished_sending (ip_bus (\<lambda>_. True))
     (boot\<lparr>dev := ip_ready_state\<lparr>finished_sending := True\<rparr>\<rparr>)))"
  by (rule clr_finished_keeps_flag)
     (simp_all add: ip_inv_def ip_arrivals_def ip_on_air_def ip_ready_state_def ip_reset_def)

end
