(* ===== verification/Fd.thy ===== *)
theory Fd
  imports Bus
begin

text \<open>
  The file descriptors of the BSP's HAL: the pool of descriptors, the lists of devices and
  file systems, and the system calls that \<open>printf\<close> ends in.  A device is a number;
  the structures behind the numbers, with the callbacks of the drivers, are the parameter
  \<open>D\<close>, since the drivers define them once and never change them.  A callback gets
  the descriptor and the state \<open>'s\<close> of the world outside the HAL and returns
  both; it may not return.  The build is single threaded, so the semaphore macros are empty.
\<close>

section \<open>Constants\<close>

text \<open>errno.h, fcntl.h and sys/stat.h of newlib, as nios2-elf-gcc has them.\<close>

definition EWOULDBLOCK :: cint where "EWOULDBLOCK = 11"
definition EIO :: cint where "EIO = 5"
definition EACCES :: cint where "EACCES = 13"
definition ENODEV :: cint where "ENODEV = 19"
definition EINVAL :: cint where "EINVAL = 22"
definition EMFILE :: cint where "EMFILE = 24"
definition ENOTTY :: cint where "ENOTTY = 25"
definition EBADFD :: cint where "EBADFD = 81"
definition ENOSYS :: cint where "ENOSYS = 88"
definition ENOTSUP :: cint where "ENOTSUP = 134"

definition O_ACCMODE :: cint where "O_ACCMODE = 3"
definition O_RDONLY :: cint where "O_RDONLY = 0"
definition O_WRONLY :: cint where "O_WRONLY = 1"
definition O_APPEND :: cint where "O_APPEND = 0x8"
definition O_NONBLOCK :: cint where "O_NONBLOCK = 0x4000"
definition F_GETFL :: cint where "F_GETFL = 3"
definition F_SETFL :: cint where "F_SETFL = 4"
definition S_IFCHR :: cint where "S_IFCHR = 0x2000"

text \<open>alt_file.h, ioctl.h and system.h.\<close>

definition ALT_FD_EXCL :: cint where "ALT_FD_EXCL = 0x80000000"
definition ALT_FD_DEV :: cint where "ALT_FD_DEV = 0x40000000"
definition ALT_FD_FLAGS_MASK :: cint where "ALT_FD_FLAGS_MASK = ALT_FD_EXCL OR ALT_FD_DEV"
definition ALT_FCNTL_FLAGS_MASK :: cint where "ALT_FCNTL_FLAGS_MASK = O_APPEND OR O_NONBLOCK"
definition TIOCEXCL :: cint where "TIOCEXCL = 0x740d"
definition TIOCNXCL :: cint where "TIOCNXCL = 0x740e"
definition ALT_MAX_FD :: nat where "ALT_MAX_FD = 32"

lemmas errno_defs = EWOULDBLOCK_def EIO_def EACCES_def ENODEV_def EINVAL_def EMFILE_def ENOTTY_def
  EBADFD_def ENOSYS_def ENOTSUP_def

lemmas flag_defs = O_ACCMODE_def O_RDONLY_def O_WRONLY_def O_APPEND_def O_NONBLOCK_def
  ALT_FD_EXCL_def ALT_FD_DEV_def ALT_FD_FLAGS_MASK_def ALT_FCNTL_FLAGS_MASK_def

section \<open>State\<close>

record alt_fd =
  fdev :: "nat option"
  fpriv :: cint
  fd_flags :: cint

text \<open>
  The callbacks.  \<open>read\<close> yields the bytes it stores, \<open>fstat\<close> the \<open>st_mode\<close> it
  stores, \<open>ioctl\<close> gets and yields the \<open>int\<close> its argument points to.
\<close>

record 's alt_dev =
  dev_name :: "string option"
  dev_open :: "(alt_fd \<Rightarrow> string \<Rightarrow> cint \<Rightarrow> cint \<Rightarrow> 's \<Rightarrow> (cint \<times> alt_fd \<times> 's) outcome) option"
  dev_close :: "(alt_fd \<Rightarrow> 's \<Rightarrow> (cint \<times> alt_fd \<times> 's) outcome) option"
  dev_read :: "(alt_fd \<Rightarrow> cint \<Rightarrow> 's \<Rightarrow> (cint \<times> u8 list \<times> alt_fd \<times> 's) outcome) option"
  dev_write :: "(alt_fd \<Rightarrow> u8 list \<Rightarrow> cint \<Rightarrow> 's \<Rightarrow> (cint \<times> alt_fd \<times> 's) outcome) option"
  dev_lseek :: "(alt_fd \<Rightarrow> cint \<Rightarrow> cint \<Rightarrow> 's \<Rightarrow> (cint \<times> alt_fd \<times> 's) outcome) option"
  dev_fstat :: "(alt_fd \<Rightarrow> 's \<Rightarrow> (cint \<times> cint \<times> alt_fd \<times> 's) outcome) option"
  dev_ioctl :: "(alt_fd \<Rightarrow> cint \<Rightarrow> cint \<Rightarrow> 's \<Rightarrow> (cint \<times> cint \<times> alt_fd \<times> 's) outcome) option"

record 's hal =
  alt_fd_list :: "alt_fd list"
  alt_max_fd :: cint
  alt_dev_list :: "nat list"
  alt_fs_list :: "nat list"
  errno :: cint
  world :: 's

text \<open>alt_dev.c: device 0 is \<open>/dev/null\<close>; the first three descriptors refer to it.\<close>

definition alt_dev_null_write :: "alt_fd \<Rightarrow> u8 list \<Rightarrow> cint \<Rightarrow> 's \<Rightarrow> (cint \<times> alt_fd \<times> 's) outcome" where
  "alt_dev_null_write fd ptr len s = returns (len, fd, s)"

definition alt_dev_null :: "'s alt_dev" where
  "alt_dev_null = \<lparr>dev_name = Some ''/dev/null'', dev_open = None, dev_close = None, dev_read = None,
     dev_write = Some alt_dev_null_write, dev_lseek = None, dev_fstat = None, dev_ioctl = None\<rparr>"

definition hal_init :: "'s \<Rightarrow> 's hal" where
  "hal_init s = \<lparr>alt_fd_list = replicate 3 \<lparr>fdev = Some 0, fpriv = 0, fd_flags = 0\<rparr> @
       replicate (ALT_MAX_FD - 3) \<lparr>fdev = None, fpriv = 0, fd_flags = 0\<rparr>,
     alt_max_fd = - 1, alt_dev_list = [0], alt_fs_list = [], errno = 0, world = s\<rparr>"

definition set_fd :: "nat \<Rightarrow> alt_fd \<Rightarrow> 's hal \<Rightarrow> 's hal" where
  "set_fd i fd h = h\<lparr>alt_fd_list := (alt_fd_list h)[i := fd]\<rparr>"

text \<open>\<open>fd = (file < 0) ? NULL : &alt_fd_list[file]\<close>, and an access through it.\<close>

definition get_fd :: "cint \<Rightarrow> 's hal \<Rightarrow> alt_fd outcome" where
  "get_fd file h = defined_or_trap (arr_get (alt_fd_list h) (nat (sint file)))"

definition get_dev :: "(nat \<Rightarrow> 's alt_dev) \<Rightarrow> alt_fd \<Rightarrow> 's alt_dev outcome" where
  "get_dev D fd = defined_or_trap (map_option D (fdev fd))"

text \<open>The state after a callback.\<close>

definition after_call :: "cint \<Rightarrow> alt_fd \<Rightarrow> 's \<Rightarrow> 's hal \<Rightarrow> 's hal" where
  "after_call file fd s h = (set_fd (nat (sint file)) fd h)\<lparr>world := s\<rparr>"

section \<open>The pool\<close>

function alt_get_fd_loop :: "nat \<Rightarrow> nat \<Rightarrow> 's hal \<Rightarrow> cint \<times> 's hal" where
  "alt_get_fd_loop device i h =
     (if i < ALT_MAX_FD then
        (if fdev (alt_fd_list h ! i) = None then
           (let h = set_fd i ((alt_fd_list h ! i)\<lparr>fdev := Some device\<rparr>) h;
                h = (if sint (alt_max_fd h) < int i then h\<lparr>alt_max_fd := of_nat i\<rparr> else h)
            in (of_nat i, h))
         else alt_get_fd_loop device (Suc i) h)
      else (- EMFILE, h))"
  by pat_completeness auto
termination by (relation "measure (\<lambda>(device, i, h). ALT_MAX_FD - i)") auto

declare alt_get_fd_loop.simps [simp del]

definition alt_get_fd :: "nat \<Rightarrow> 's hal \<Rightarrow> cint \<times> 's hal" where
  "alt_get_fd device h = alt_get_fd_loop device 0 h"

definition alt_release_fd :: "cint \<Rightarrow> 's hal \<Rightarrow> 's hal outcome" where
  "alt_release_fd fd h =
     (if 2 < sint fd then
        and_then (get_fd fd h) (\<lambda>e.
          returns (set_fd (nat (sint fd)) (e\<lparr>fd_flags := 0, fdev := None\<rparr>) h))
      else returns h)"

section \<open>Searching the lists\<close>

definition c_str :: "string \<Rightarrow> string" where
  "c_str s = s @ [CHR 0x00]"

text \<open>\<open>memcmp\<close> of a name that may be shorter than \<open>len\<close>: it differs at its final 0.\<close>

definition memcmp_equal :: "string \<Rightarrow> string \<Rightarrow> nat \<Rightarrow> bool" where
  "memcmp_equal a b len \<longleftrightarrow> take len (c_str a) = take len (c_str b)"

fun alt_find_dev :: "(nat \<Rightarrow> 's alt_dev) \<Rightarrow> string \<Rightarrow> nat list \<Rightarrow> nat option option" where
  "alt_find_dev D name [] = Some None"
| "alt_find_dev D name (next # llist) = do {
     next_name \<leftarrow> dev_name (D next);
     if memcmp_equal next_name name (length name + 1) then Some (Some next)
     else alt_find_dev D name llist
   }"

text \<open>\<open>name[len]\<close> is read before anything is known of the length of \<open>name\<close>.\<close>

fun alt_find_file :: "(nat \<Rightarrow> 's alt_dev) \<Rightarrow> string \<Rightarrow> nat list \<Rightarrow> nat option option" where
  "alt_find_file D name [] = Some None"
| "alt_find_file D name (next # llist) = do {
     next_name \<leftarrow> dev_name (D next);
     let len = length next_name;
     last_char \<leftarrow> (if len = 0 then None else Some (next_name ! (len - 1)));
     let len = (if last_char = CHR ''/'' then len - 1 else len);
     c \<leftarrow> arr_get (c_str name) len;
     if (c = CHR ''/'' \<or> c = CHR 0x00) \<and> memcmp_equal next_name name len then Some (Some next)
     else alt_find_file D name llist
   }"

definition alt_dev_llist_insert :: "(nat \<Rightarrow> 's alt_dev) \<Rightarrow> nat option \<Rightarrow> nat list \<Rightarrow> cint \<times> cint option \<times> nat list" where
  "alt_dev_llist_insert D device list =
     (case device of
        None \<Rightarrow> (- EINVAL, Some EINVAL, list)
      | Some d \<Rightarrow> if dev_name (D d) = None then (- EINVAL, Some EINVAL, list) else (0, None, d # list))"

definition alt_dev_reg :: "(nat \<Rightarrow> 's alt_dev) \<Rightarrow> nat option \<Rightarrow> 's hal \<Rightarrow> cint \<times> 's hal" where
  "alt_dev_reg D device h =
     (case alt_dev_llist_insert D device (alt_dev_list h) of
        (rc, err, list) \<Rightarrow>
          (rc, h\<lparr>alt_dev_list := list, errno := (case err of None \<Rightarrow> errno h | Some e \<Rightarrow> e)\<rparr>))"

definition alt_fs_reg :: "(nat \<Rightarrow> 's alt_dev) \<Rightarrow> nat \<Rightarrow> 's hal \<Rightarrow> cint \<times> 's hal" where
  "alt_fs_reg D device h =
     (if dev_name (D device) = None then (- ENODEV, h) else (0, h\<lparr>alt_fs_list := device # alt_fs_list h\<rparr>))"

section \<open>Locks\<close>

function alt_fd_lock_loop :: "nat \<Rightarrow> nat \<Rightarrow> 's hal \<Rightarrow> (cint \<times> 's hal) outcome" where
  "alt_fd_lock_loop fd i h =
     (if int i < sint (alt_max_fd h) then
        and_then (defined_or_trap (arr_get (alt_fd_list h) i)) (\<lambda>e.
        if i \<noteq> fd \<and> fdev e = fdev (alt_fd_list h ! fd) then returns (- EACCES, h)
        else alt_fd_lock_loop fd (Suc i) h)
      else
        (let e = alt_fd_list h ! fd
         in returns (0, set_fd fd (e\<lparr>fd_flags := fd_flags e OR ALT_FD_EXCL\<rparr>) h)))"
  by pat_completeness auto
termination by (relation "measure (\<lambda>(fd, i, h). nat (sint (alt_max_fd h)) - i)") auto

declare alt_fd_lock_loop.simps [simp del]

definition alt_fd_lock :: "nat \<Rightarrow> 's hal \<Rightarrow> (cint \<times> 's hal) outcome" where
  "alt_fd_lock fd h = alt_fd_lock_loop fd 0 h"

definition alt_fd_unlock :: "nat \<Rightarrow> 's hal \<Rightarrow> cint \<times> 's hal" where
  "alt_fd_unlock fd h =
     (let e = alt_fd_list h ! fd in (0, set_fd fd (e\<lparr>fd_flags := fd_flags e AND NOT ALT_FD_EXCL\<rparr>) h))"

text \<open>\<open>i\<close> is unsigned, so \<open>alt_max_fd\<close> is compared as an unsigned number.\<close>

function alt_file_locked_loop :: "nat \<Rightarrow> nat \<Rightarrow> 's hal \<Rightarrow> cint outcome" where
  "alt_file_locked_loop fd i h =
     (if i \<le> unat (alt_max_fd h) then
        and_then (defined_or_trap (arr_get (alt_fd_list h) i)) (\<lambda>e.
        if fdev e = fdev (alt_fd_list h ! fd) \<and> fd_flags e AND ALT_FD_EXCL \<noteq> 0 \<and> i \<noteq> fd
        then returns (- EACCES)
        else alt_file_locked_loop fd (Suc i) h)
      else returns 0)"
  by pat_completeness auto
termination by (relation "measure (\<lambda>(fd, i, h). Suc (unat (alt_max_fd h)) - i)") auto

declare alt_file_locked_loop.simps [simp del]

definition alt_file_locked :: "nat \<Rightarrow> 's hal \<Rightarrow> (cint \<times> 's hal) outcome" where
  "alt_file_locked fd h =
     (let e = alt_fd_list h ! fd;
          h = set_fd fd (e\<lparr>fd_flags := fd_flags e OR ALT_FD_DEV\<rparr>) h
      in and_then (alt_file_locked_loop fd 0 h) (\<lambda>rc. returns (rc, h)))"

section \<open>open and close\<close>

text \<open>The part of \<open>open\<close> that runs once the descriptor \<open>index\<close> is allocated.\<close>

definition alt_open_fd_setup ::
  "(nat \<Rightarrow> 's alt_dev) \<Rightarrow> nat \<Rightarrow> bool \<Rightarrow> string \<Rightarrow> cint \<Rightarrow> cint \<Rightarrow> cint \<Rightarrow> 's hal \<Rightarrow> (cint \<times> 's hal) outcome" where
  "alt_open_fd_setup D device isafs file flags mode index h =
     (let fd = nat (sint index);
          h = set_fd fd ((alt_fd_list h ! fd)\<lparr>fd_flags := flags AND NOT ALT_FD_FLAGS_MASK\<rparr>) h
      in and_then (if isafs then returns (0, h) else alt_file_locked fd h) (\<lambda>(status, h).
         if sint status < 0 then returns (status, h)
         else (case dev_open (D device) of
                 None \<Rightarrow> returns (0, h)
               | Some f \<Rightarrow> and_then (f (alt_fd_list h ! fd) file flags mode (world h)) (\<lambda>(status, e, s).
                   returns (status, after_call index e s h)))))"

definition alt_open ::
  "(nat \<Rightarrow> 's alt_dev) \<Rightarrow> string \<Rightarrow> cint \<Rightarrow> cint \<Rightarrow> 's hal \<Rightarrow> (cint \<times> 's hal) outcome" where
  "alt_open D file flags mode h =
     and_then (defined_or_trap (alt_find_dev D file (alt_dev_list h))) (\<lambda>found.
     and_then (case found of
                 Some d \<Rightarrow> returns (Some d, False)
               | None \<Rightarrow> and_then (defined_or_trap (alt_find_file D file (alt_fs_list h)))
                          (\<lambda>found. returns (found, True))) (\<lambda>(found, isafs).
     and_then (case found of
                 None \<Rightarrow> returns (- 1, - ENODEV, h)
               | Some d \<Rightarrow>
                   (case alt_get_fd d h of (index, h) \<Rightarrow>
                      if sint index < 0 then returns (index, index, h)
                      else and_then (alt_open_fd_setup D d isafs file flags mode index h)
                             (\<lambda>(status, h). returns (index, status, h)))) (\<lambda>(index, status, h).
     if sint status < 0 then
       and_then (alt_release_fd index h) (\<lambda>h. returns (- 1, h\<lparr>errno := - status\<rparr>))
     else returns (index, h))))"

definition alt_close :: "(nat \<Rightarrow> 's alt_dev) \<Rightarrow> cint \<Rightarrow> 's hal \<Rightarrow> (cint \<times> 's hal) outcome" where
  "alt_close D fildes h =
     (if sint fildes < 0 then returns (- 1, h\<lparr>errno := EBADFD\<rparr>)
      else
        and_then (get_fd fildes h) (\<lambda>fd.
        and_then (get_dev D fd) (\<lambda>device.
        and_then (case dev_close device of
                    None \<Rightarrow> returns (0, h)
                  | Some f \<Rightarrow> and_then (f fd (world h)) (\<lambda>(rval, fd, s).
                      returns (rval, after_call fildes fd s h))) (\<lambda>(rval, h).
        and_then (alt_release_fd fildes h) (\<lambda>h.
        if sint rval < 0 then returns (- 1, h\<lparr>errno := - rval\<rparr>) else returns (0, h))))))"

section \<open>The other calls\<close>

definition alt_read :: "(nat \<Rightarrow> 's alt_dev) \<Rightarrow> cint \<Rightarrow> cint \<Rightarrow> 's hal \<Rightarrow> (cint \<times> u8 list \<times> 's hal) outcome" where
  "alt_read D file len h =
     (if sint file < 0 then returns (- 1, [], h\<lparr>errno := EBADFD\<rparr>)
      else
        and_then (get_fd file h) (\<lambda>fd.
        if fd_flags fd AND O_ACCMODE = O_WRONLY then returns (- 1, [], h\<lparr>errno := EACCES\<rparr>)
        else
          and_then (get_dev D fd) (\<lambda>device.
          case dev_read device of
            None \<Rightarrow> returns (- 1, [], h\<lparr>errno := EACCES\<rparr>)
          | Some f \<Rightarrow> and_then (f fd len (world h)) (\<lambda>(rval, bytes, fd, s).
              (let h = after_call file fd s h
               in if sint rval < 0 then returns (- 1, bytes, h\<lparr>errno := - rval\<rparr>)
                  else returns (rval, bytes, h))))))"

definition alt_write ::
  "(nat \<Rightarrow> 's alt_dev) \<Rightarrow> cint \<Rightarrow> u8 list \<Rightarrow> cint \<Rightarrow> 's hal \<Rightarrow> (cint \<times> 's hal) outcome" where
  "alt_write D file ptr len h =
     (if sint file < 0 then returns (- 1, h\<lparr>errno := EBADFD\<rparr>)
      else
        and_then (get_fd file h) (\<lambda>fd.
        if fd_flags fd AND O_ACCMODE = O_RDONLY then returns (- 1, h\<lparr>errno := EACCES\<rparr>)
        else
          and_then (get_dev D fd) (\<lambda>device.
          case dev_write device of
            None \<Rightarrow> returns (- 1, h\<lparr>errno := EACCES\<rparr>)
          | Some f \<Rightarrow> and_then (f fd ptr len (world h)) (\<lambda>(rval, fd, s).
              (let h = after_call file fd s h
               in if sint rval < 0 then returns (- 1, h\<lparr>errno := - rval\<rparr>) else returns (rval, h))))))"

definition alt_lseek ::
  "(nat \<Rightarrow> 's alt_dev) \<Rightarrow> cint \<Rightarrow> cint \<Rightarrow> cint \<Rightarrow> 's hal \<Rightarrow> (cint \<times> 's hal) outcome" where
  "alt_lseek D file ptr dir h =
     and_then (if sint file < 0 then returns (- EBADFD, h)
               else
                 and_then (get_fd file h) (\<lambda>fd.
                 and_then (get_dev D fd) (\<lambda>device.
                 case dev_lseek device of
                   None \<Rightarrow> returns (- ENOTSUP, h)
                 | Some f \<Rightarrow> and_then (f fd ptr dir (world h)) (\<lambda>(rc, fd, s).
                     returns (rc, after_call file fd s h))))) (\<lambda>(rc, h).
     if sint rc < 0 then returns (- 1, h\<lparr>errno := - rc\<rparr>) else returns (rc, h))"

text \<open>The second result is \<open>st->st_mode\<close> after the call.\<close>

definition alt_fstat ::
  "(nat \<Rightarrow> 's alt_dev) \<Rightarrow> cint \<Rightarrow> cint \<Rightarrow> 's hal \<Rightarrow> (cint \<times> cint \<times> 's hal) outcome" where
  "alt_fstat D file st_mode h =
     (if sint file < 0 then returns (- 1, st_mode, h\<lparr>errno := EBADFD\<rparr>)
      else
        and_then (get_fd file h) (\<lambda>fd.
        and_then (get_dev D fd) (\<lambda>device.
        case dev_fstat device of
          Some f \<Rightarrow> and_then (f fd (world h)) (\<lambda>(rc, st_mode, fd, s).
            returns (rc, st_mode, after_call file fd s h))
        | None \<Rightarrow> returns (0, S_IFCHR, h))))"

definition alt_isatty :: "(nat \<Rightarrow> 's alt_dev) \<Rightarrow> cint \<Rightarrow> cint \<Rightarrow> 's hal \<Rightarrow> (cint \<times> 's hal) outcome" where
  "alt_isatty D stack file h =
     (if sint file < 0 then returns (0, h\<lparr>errno := EBADFD\<rparr>)
      else
        and_then (get_fd file h) (\<lambda>fd.
        and_then (get_dev D fd) (\<lambda>device.
        if dev_fstat device = None then returns (1, h)
        else and_then (alt_fstat D file stack h) (\<lambda>(rc, st_mode, h).
          returns (if st_mode = S_IFCHR then 1 else 0, h)))))"

definition alt_ioctl ::
  "(nat \<Rightarrow> 's alt_dev) \<Rightarrow> cint \<Rightarrow> cint \<Rightarrow> cint \<Rightarrow> 's hal \<Rightarrow> (cint \<times> cint \<times> 's hal) outcome" where
  "alt_ioctl D file req arg h =
     and_then (if sint file < 0 then returns (- EBADFD, arg, h)
               else
                 and_then (get_fd file h) (\<lambda>fd.
                 if fd_flags fd AND ALT_FD_DEV \<noteq> 0 \<and> req = TIOCEXCL then
                   and_then (alt_fd_lock (nat (sint file)) h) (\<lambda>(rc, h). returns (rc, arg, h))
                 else if fd_flags fd AND ALT_FD_DEV \<noteq> 0 \<and> req = TIOCNXCL then
                   (case alt_fd_unlock (nat (sint file)) h of (rc, h) \<Rightarrow> returns (rc, arg, h))
                 else
                   and_then (get_dev D fd) (\<lambda>device.
                   case dev_ioctl device of
                     None \<Rightarrow> returns (- ENOTTY, arg, h)
                   | Some f \<Rightarrow> and_then (f fd req arg (world h)) (\<lambda>(rc, arg, fd, s).
                       returns (rc, arg, after_call file fd s h))))) (\<lambda>(rc, arg, h).
     returns (rc, arg, if sint rc < 0 then h\<lparr>errno := - rc\<rparr> else h))"

definition alt_fcntl :: "cint \<Rightarrow> cint \<Rightarrow> cint \<Rightarrow> 's hal \<Rightarrow> (cint \<times> 's hal) outcome" where
  "alt_fcntl file cmd flags h =
     (if sint file < 0 then returns (- 1, h\<lparr>errno := EBADFD\<rparr>)
      else
        and_then (get_fd file h) (\<lambda>fd.
        if cmd = F_GETFL then returns (fd_flags fd AND NOT ALT_FD_FLAGS_MASK, h)
        else if cmd = F_SETFL then
          (let new = (fd_flags fd AND NOT ALT_FCNTL_FLAGS_MASK) OR (flags AND ALT_FCNTL_FLAGS_MASK)
           in returns (0, set_fd (nat (sint file)) (fd\<lparr>fd_flags := new\<rparr>) h))
        else returns (- 1, h\<lparr>errno := EINVAL\<rparr>)))"

section \<open>Redirecting the standard streams\<close>

definition alt_open_fd :: "(nat \<Rightarrow> 's alt_dev) \<Rightarrow> nat \<Rightarrow> string \<Rightarrow> cint \<Rightarrow> cint \<Rightarrow> 's hal \<Rightarrow> 's hal outcome" where
  "alt_open_fd D fd name flags mode h =
     and_then (alt_open D name flags mode h) (\<lambda>(old, h).
     if 0 \<le> sint old then
       and_then (get_fd old h) (\<lambda>e. alt_release_fd old (set_fd fd e h))
     else returns h)"

definition alt_io_redirect :: "(nat \<Rightarrow> 's alt_dev) \<Rightarrow> string \<Rightarrow> string \<Rightarrow> string \<Rightarrow> 's hal \<Rightarrow> 's hal outcome" where
  "alt_io_redirect D stdout_dev stdin_dev stderr_dev h =
     and_then (alt_open_fd D 1 stdout_dev O_WRONLY 0x1FF h) (\<lambda>h.
     and_then (alt_open_fd D 0 stdin_dev O_RDONLY 0x1FF h) (\<lambda>h.
     alt_open_fd D 2 stderr_dev O_WRONLY 0x1FF h))"

section \<open>The pool is well formed\<close>

text \<open>
  \<open>alt_max_fd\<close> bounds the descriptors in use above the standard streams, which are never
  free, and a free descriptor has no flags.
\<close>

definition fd_free :: "'s hal \<Rightarrow> nat \<Rightarrow> bool" where
  "fd_free h i \<longleftrightarrow> fdev (alt_fd_list h ! i) = None"

definition pool_ok :: "'s hal \<Rightarrow> bool" where
  "pool_ok h \<longleftrightarrow>
     length (alt_fd_list h) = ALT_MAX_FD \<and> - 1 \<le> sint (alt_max_fd h) \<and> sint (alt_max_fd h) < 32 \<and>
     (\<forall>i < 3. \<not> fd_free h i) \<and>
     (\<forall>i < ALT_MAX_FD. fd_free h i \<longrightarrow> fd_flags (alt_fd_list h ! i) = 0) \<and>
     (\<forall>i < ALT_MAX_FD. 3 \<le> i \<and> \<not> fd_free h i \<longrightarrow> int i \<le> sint (alt_max_fd h))"

lemma set_fd_simps [simp]:
  "alt_fd_list (set_fd i fd h) = (alt_fd_list h)[i := fd]" "alt_max_fd (set_fd i fd h) = alt_max_fd h"
  "alt_dev_list (set_fd i fd h) = alt_dev_list h" "alt_fs_list (set_fd i fd h) = alt_fs_list h"
  "errno (set_fd i fd h) = errno h" "world (set_fd i fd h) = world h"
  by (simp_all add: set_fd_def)

lemma sint_of_nat_fd: "i < ALT_MAX_FD \<Longrightarrow> sint (of_nat i :: cint) = int i"
  by (simp add: ALT_MAX_FD_def sint_of_nat_small)

lemma unat_of_nat_fd: "i < ALT_MAX_FD \<Longrightarrow> unat (of_nat i :: cint) = i"
  by (simp add: ALT_MAX_FD_def unat_of_nat)

lemma pool_ok_init: "pool_ok (hal_init s)"
  by (auto simp: pool_ok_def hal_init_def ALT_MAX_FD_def fd_free_def nth_append)

lemma pool_length: "pool_ok h \<Longrightarrow> length (alt_fd_list h) = ALT_MAX_FD"
  by (simp add: pool_ok_def)

text \<open>The state \<open>alt_get_fd\<close> leaves when it allocates descriptor \<open>i\<close>.\<close>

definition allocated :: "nat \<Rightarrow> nat \<Rightarrow> 's hal \<Rightarrow> 's hal" where
  "allocated device i h =
     (let h' = set_fd i ((alt_fd_list h ! i)\<lparr>fdev := Some device\<rparr>) h
      in if sint (alt_max_fd h) < int i then h'\<lparr>alt_max_fd := of_nat i\<rparr> else h')"

lemma allocated_simps [simp]:
  "alt_fd_list (allocated d i h) = (alt_fd_list h)[i := (alt_fd_list h ! i)\<lparr>fdev := Some d\<rparr>]"
  "alt_dev_list (allocated d i h) = alt_dev_list h" "alt_fs_list (allocated d i h) = alt_fs_list h"
  "errno (allocated d i h) = errno h" "world (allocated d i h) = world h"
  by (simp_all add: allocated_def Let_def)

lemma sint_max_allocated:
  "i < ALT_MAX_FD \<Longrightarrow> sint (alt_max_fd (allocated d i h)) = max (int i) (sint (alt_max_fd h))"
  by (simp add: allocated_def Let_def sint_of_nat_fd)

lemma pool_ok_allocated: "pool_ok h \<Longrightarrow> i < ALT_MAX_FD \<Longrightarrow> pool_ok (allocated d i h)"
  by (auto simp: pool_ok_def sint_max_allocated fd_free_def nth_list_update ALT_MAX_FD_def le_max_iff_disj)

lemma alt_get_fd_loop_first:
  "i \<le> k \<Longrightarrow> k < ALT_MAX_FD \<Longrightarrow> fd_free h k \<Longrightarrow> (\<And>j. i \<le> j \<Longrightarrow> j < k \<Longrightarrow> \<not> fd_free h j) \<Longrightarrow>
   alt_get_fd_loop d i h = (of_nat k, allocated d k h)"
proof (induction d i h rule: alt_get_fd_loop.induct)
  case (1 d i h)
  show ?case
  proof (cases "i = k")
    case True
    then show ?thesis using 1(3,4)
      by (subst alt_get_fd_loop.simps) (simp add: fd_free_def allocated_def Let_def)
  next
    case False
    then have "\<not> fd_free h i" "Suc i \<le> k" using 1(2) 1(5)[of i] False by auto
    then show ?thesis using 1(1) 1(2-5) False
      by (subst alt_get_fd_loop.simps) (simp add: fd_free_def del: not_None_eq)
  qed
qed

lemma alt_get_fd_loop_full:
  "(\<And>j. i \<le> j \<Longrightarrow> j < ALT_MAX_FD \<Longrightarrow> \<not> fd_free h j) \<Longrightarrow> alt_get_fd_loop d i h = (- EMFILE, h)"
proof (induction d i h rule: alt_get_fd_loop.induct)
  case (1 d i h)
  show ?case
  proof (cases "i < ALT_MAX_FD")
    case True
    then have "\<not> fd_free h i" using 1(2)[of i] by simp
    then show ?thesis using 1(1) 1(2) True
      by (subst alt_get_fd_loop.simps) (simp add: fd_free_def del: not_None_eq)
  next
    case False
    then show ?thesis by (subst alt_get_fd_loop.simps) simp
  qed
qed

lemma alt_get_fd_first:
  "k < ALT_MAX_FD \<Longrightarrow> fd_free h k \<Longrightarrow> (\<And>j. j < k \<Longrightarrow> \<not> fd_free h j) \<Longrightarrow>
   alt_get_fd d h = (of_nat k, allocated d k h)"
  by (simp add: alt_get_fd_def alt_get_fd_loop_first)

lemma alt_get_fd_full:
  "(\<And>j. j < ALT_MAX_FD \<Longrightarrow> \<not> fd_free h j) \<Longrightarrow> alt_get_fd d h = (- EMFILE, h)"
  by (simp add: alt_get_fd_def alt_get_fd_loop_full)

lemma first_free:
  "(\<exists>k < ALT_MAX_FD. fd_free h k) \<Longrightarrow> \<exists>k < ALT_MAX_FD. fd_free h k \<and> (\<forall>j < k. \<not> fd_free h j)"
  by (rule exE[OF exists_least_iff[THEN iffD1, of "\<lambda>k. k < ALT_MAX_FD \<and> fd_free h k"]])
     (auto intro: less_trans)

text \<open>alt_get_fd hands out the least free descriptor, marked with the device and with
  alt_max_fd raised to it, and leaves the pool well formed; with all 32 in use it returns
  -EMFILE and changes nothing.\<close>

theorem alt_get_fd_least:
  assumes "pool_ok h" and "alt_get_fd d h = (fd, h')"
  shows "pool_ok h' \<and>
    (if \<exists>k < ALT_MAX_FD. fd_free h k
     then \<exists>k < ALT_MAX_FD. fd = of_nat k \<and> fd_free h k \<and> (\<forall>j < k. \<not> fd_free h j) \<and>
            alt_fd_list h' = (alt_fd_list h)[k := (alt_fd_list h ! k)\<lparr>fdev := Some d\<rparr>] \<and>
            sint (alt_max_fd h') = max (int k) (sint (alt_max_fd h))
     else fd = - EMFILE \<and> h' = h)"
proof (cases "\<exists>k < ALT_MAX_FD. fd_free h k")
  case True
  from first_free[OF this] obtain k where k: "k < ALT_MAX_FD" "fd_free h k" "\<forall>j < k. \<not> fd_free h j" by blast
  then have "fd = of_nat k" "h' = allocated d k h" using assms(2) by (simp_all add: alt_get_fd_first)
  moreover have "pool_ok (allocated d k h)" using assms(1) k(1) by (rule pool_ok_allocated)
  ultimately show ?thesis using True k by (auto intro!: exI[of _ k] simp: sint_max_allocated)
next
  case False
  then show ?thesis using assms by (auto simp: alt_get_fd_full)
qed

lemma alt_get_fd_least_witness:
  "pool_ok (hal_init ()) \<and> sint (alt_max_fd (snd (alt_get_fd 1 (hal_init ())))) = 3 \<and>
   pool_ok (snd (alt_get_fd 1 (hal_init ())))"
proof -
  have "alt_get_fd 1 (hal_init ()) = (of_nat 3, allocated 1 3 (hal_init ()))"
    by (rule alt_get_fd_first) (auto simp: ALT_MAX_FD_def fd_free_def hal_init_def nth_append)
  moreover have "sint (alt_max_fd (allocated 1 3 (hal_init ()))) = 3"
    by (simp add: sint_max_allocated ALT_MAX_FD_def hal_init_def)
  ultimately show ?thesis
    using alt_get_fd_least[OF pool_ok_init, of 1 "()"] by (auto simp: pool_ok_init)
qed

section \<open>Exclusive access\<close>

text \<open>What a search upwards from \<open>i\<close> below \<open>n\<close> finds.\<close>

definition found_from :: "nat \<Rightarrow> nat \<Rightarrow> (nat \<Rightarrow> bool) \<Rightarrow> bool" where
  "found_from i n P \<longleftrightarrow> (\<exists>j \<ge> i. j < n \<and> P j)"

lemma found_from_end: "n \<le> i \<Longrightarrow> \<not> found_from i n P"
  by (auto simp: found_from_def)

lemma found_from_here: "i < n \<Longrightarrow> P i \<Longrightarrow> found_from i n P"
  by (auto simp: found_from_def)

lemma found_from_next: "\<not> P i \<Longrightarrow> found_from i n P \<longleftrightarrow> found_from (Suc i) n P"
  unfolding found_from_def by (metis Suc_leD Suc_leI le_neq_implies_less)

definition shares_device :: "'s hal \<Rightarrow> nat \<Rightarrow> nat \<Rightarrow> bool" where
  "shares_device h fd j \<longleftrightarrow> j \<noteq> fd \<and> fdev (alt_fd_list h ! j) = fdev (alt_fd_list h ! fd)"

definition locked_elsewhere :: "'s hal \<Rightarrow> nat \<Rightarrow> nat \<Rightarrow> bool" where
  "locked_elsewhere h fd j \<longleftrightarrow> fdev (alt_fd_list h ! j) = fdev (alt_fd_list h ! fd) \<and>
     fd_flags (alt_fd_list h ! j) AND ALT_FD_EXCL \<noteq> 0 \<and> j \<noteq> fd"

definition lock_fd :: "nat \<Rightarrow> 's hal \<Rightarrow> 's hal" where
  "lock_fd fd h = set_fd fd ((alt_fd_list h ! fd)\<lparr>fd_flags := fd_flags (alt_fd_list h ! fd) OR ALT_FD_EXCL\<rparr>) h"

lemma alt_fd_lock_loop_eq:
  "length (alt_fd_list h) = ALT_MAX_FD \<Longrightarrow> sint (alt_max_fd h) < 32 \<Longrightarrow>
   alt_fd_lock_loop fd i h =
     (if found_from i (nat (sint (alt_max_fd h))) (shares_device h fd) then returns (- EACCES, h)
      else returns (0, lock_fd fd h))"
proof (induction fd i h rule: alt_fd_lock_loop.induct)
  case (1 fd i h)
  show ?case
  proof (cases "int i < sint (alt_max_fd h)")
    case True
    then have "i < length (alt_fd_list h)" using 1(2,3) by (simp add: ALT_MAX_FD_def)
    then have get: "arr_get (alt_fd_list h) i = Some (alt_fd_list h ! i)" by simp
    have i: "i < nat (sint (alt_max_fd h))" using True by simp
    show ?thesis
    proof (cases "shares_device h fd i")
      case shared: True
      then show ?thesis using True get found_from_here[OF i, of "shares_device h fd", OF shared]
        by (subst alt_fd_lock_loop.simps) (simp add: shares_device_def)
    next
      case False
      then have here: "\<not> (i \<noteq> fd \<and> fdev (alt_fd_list h ! i) = fdev (alt_fd_list h ! fd))"
        by (simp add: shares_device_def)
      show ?thesis
        by (subst alt_fd_lock_loop.simps)
           (simp only: True get here if_True if_False defined_or_trap_simps and_then_simps
              1(1)[OF True here 1(2,3)] found_from_next[of "shares_device h fd", OF False])
    qed
  next
    case False
    then show ?thesis
      by (subst alt_fd_lock_loop.simps) (simp add: found_from_end Let_def lock_fd_def)
  qed
qed

lemma alt_fd_lock_eq:
  "pool_ok h \<Longrightarrow>
   alt_fd_lock fd h =
     (if found_from 0 (nat (sint (alt_max_fd h))) (shares_device h fd) then returns (- EACCES, h)
      else returns (0, lock_fd fd h))"
  by (simp add: alt_fd_lock_def alt_fd_lock_loop_eq pool_ok_def)

lemma alt_file_locked_loop_eq:
  "length (alt_fd_list h) = ALT_MAX_FD \<Longrightarrow> unat (alt_max_fd h) < 32 \<Longrightarrow>
   alt_file_locked_loop fd i h =
     returns (if found_from i (Suc (unat (alt_max_fd h))) (locked_elsewhere h fd) then - EACCES else 0)"
proof (induction fd i h rule: alt_file_locked_loop.induct)
  case (1 fd i h)
  show ?case
  proof (cases "i \<le> unat (alt_max_fd h)")
    case True
    then have "i < length (alt_fd_list h)" using 1(2,3) by (simp add: ALT_MAX_FD_def)
    then have get: "arr_get (alt_fd_list h) i = Some (alt_fd_list h ! i)" by simp
    have i: "i < Suc (unat (alt_max_fd h))" using True by simp
    show ?thesis
    proof (cases "locked_elsewhere h fd i")
      case locked: True
      then show ?thesis using True get found_from_here[OF i, of "locked_elsewhere h fd", OF locked]
        by (subst alt_file_locked_loop.simps) (simp add: locked_elsewhere_def)
    next
      case False
      then have here: "\<not> (fdev (alt_fd_list h ! i) = fdev (alt_fd_list h ! fd) \<and>
          fd_flags (alt_fd_list h ! i) AND ALT_FD_EXCL \<noteq> 0 \<and> i \<noteq> fd)"
        by (simp add: locked_elsewhere_def)
      show ?thesis
        by (subst alt_file_locked_loop.simps)
           (simp only: True get here if_True if_False defined_or_trap_simps and_then_simps
              1(1)[OF True here 1(2,3)] found_from_next[of "locked_elsewhere h fd", OF False])
    qed
  next
    case False
    then show ?thesis
      by (subst alt_file_locked_loop.simps) (simp add: found_from_end)
  qed
qed

section \<open>Opening and closing a device\<close>

definition device_locked :: "'s hal \<Rightarrow> nat \<Rightarrow> bool" where
  "device_locked h d \<longleftrightarrow>
     (\<exists>j < ALT_MAX_FD. fdev (alt_fd_list h ! j) = Some d \<and> fd_flags (alt_fd_list h ! j) AND ALT_FD_EXCL \<noteq> 0)"

definition first_free_fd :: "'s hal \<Rightarrow> nat \<Rightarrow> bool" where
  "first_free_fd h k \<longleftrightarrow> k < ALT_MAX_FD \<and> fd_free h k \<and> (\<forall>j < k. \<not> fd_free h j)"

definition opened :: "nat \<Rightarrow> nat \<Rightarrow> cint \<Rightarrow> 's hal \<Rightarrow> 's hal" where
  "opened d k flags h =
     set_fd k ((alt_fd_list h ! k)\<lparr>fdev := Some d, fd_flags := (flags AND NOT ALT_FD_FLAGS_MASK) OR ALT_FD_DEV\<rparr>)
       (allocated d k h)"

definition released :: "nat \<Rightarrow> 's hal \<Rightarrow> 's hal" where
  "released k h = set_fd k ((alt_fd_list h ! k)\<lparr>fd_flags := 0, fdev := None\<rparr>) h"

lemma first_free_ge_3: "pool_ok h \<Longrightarrow> first_free_fd h k \<Longrightarrow> 3 \<le> k"
  by (metis first_free_fd_def not_le pool_ok_def)

lemma alt_get_fd_first_free: "first_free_fd h k \<Longrightarrow> alt_get_fd d h = (of_nat k, allocated d k h)"
  by (simp add: first_free_fd_def alt_get_fd_first)

lemma nat_sint_fd [simp]: "k < ALT_MAX_FD \<Longrightarrow> nat (sint (of_nat k :: cint)) = k"
  by (simp add: sint_of_nat_fd)

lemma unat_max_opened:
  assumes "pool_ok h" and "k < ALT_MAX_FD"
  shows "unat (alt_max_fd (opened d k flags h)) = nat (max (int k) (sint (alt_max_fd h)))"
proof -
  have eq: "alt_max_fd (opened d k flags h) = alt_max_fd (allocated d k h)" by (simp add: opened_def)
  then have "sint (alt_max_fd (opened d k flags h)) = max (int k) (sint (alt_max_fd h))"
    using assms(2) by (simp add: sint_max_allocated)
  moreover then have "0 \<le> sint (alt_max_fd (opened d k flags h))" by simp
  then have "uint (alt_max_fd (opened d k flags h)) = sint (alt_max_fd (opened d k flags h))"
    by (rule uint_sint_nonneg)
  ultimately show ?thesis by (simp add: unat_eq_nat_uint)
qed

lemma locked_found:
  assumes "pool_ok h" and "first_free_fd h k"
  shows "found_from 0 (Suc (unat (alt_max_fd (opened d k flags h)))) (locked_elsewhere (opened d k flags h) k)
    = device_locked h d"
proof -
  have k: "k < ALT_MAX_FD" "fd_free h k" "k < length (alt_fd_list h)"
    using assms by (simp_all add: first_free_fd_def pool_ok_def)
  let ?n = "nat (max (int k) (sint (alt_max_fd h)))"
  have le: "j \<le> ?n" if "fdev (alt_fd_list h ! j) = Some d" "j < ALT_MAX_FD" for j
    using that assms(1) first_free_ge_3[OF assms] unfolding pool_ok_def fd_free_def by fastforce
  have n: "?n < ALT_MAX_FD" using assms(1) k(1) by (auto simp: pool_ok_def ALT_MAX_FD_def)
  have P: "locked_elsewhere (opened d k flags h) k j \<longleftrightarrow>
      fdev (alt_fd_list h ! j) = Some d \<and> fd_flags (alt_fd_list h ! j) AND ALT_FD_EXCL \<noteq> 0" for j
    using k by (auto simp: locked_elsewhere_def opened_def fd_free_def nth_list_update)
  show ?thesis unfolding unat_max_opened[OF assms(1) k(1)] found_from_def device_locked_def P
    using le n by (auto simp: less_Suc_eq_le intro: le_less_trans)
qed

lemma alt_release_fd_eq:
  "3 \<le> k \<Longrightarrow> k < ALT_MAX_FD \<Longrightarrow> length (alt_fd_list h) = ALT_MAX_FD \<Longrightarrow>
   alt_release_fd (of_nat k) h = returns (released k h)"
  by (simp add: alt_release_fd_def sint_of_nat_fd get_fd_def released_def)

lemma fd_eqI: "fdev a = fdev b \<Longrightarrow> fpriv a = fpriv b \<Longrightarrow> fd_flags a = fd_flags b \<Longrightarrow> a = (b :: alt_fd)"
  by simp

lemma released_opened:
  "pool_ok h \<Longrightarrow> first_free_fd h k \<Longrightarrow> alt_fd_list (released k (opened d k flags h)) = alt_fd_list h"
  by (rule nth_equalityI)
     (auto simp: released_def opened_def nth_list_update pool_ok_def first_free_fd_def fd_free_def intro!: fd_eqI)

lemma released_opened_simps [simp]:
  "alt_max_fd (released k h) = alt_max_fd h" "alt_dev_list (released k h) = alt_dev_list h"
  "alt_fs_list (released k h) = alt_fs_list h" "world (released k h) = world h" "errno (released k h) = errno h"
  "alt_dev_list (opened d k flags h) = alt_dev_list h" "alt_fs_list (opened d k flags h) = alt_fs_list h"
  "world (opened d k flags h) = world h" "errno (opened d k flags h) = errno h"
  by (simp_all add: released_def opened_def)

lemma alt_file_locked_opened:
  assumes "pool_ok h" and "first_free_fd h k"
  shows "alt_file_locked k
      (set_fd k ((alt_fd_list (allocated d k h) ! k)\<lparr>fd_flags := flags AND NOT ALT_FD_FLAGS_MASK\<rparr>) (allocated d k h))
    = returns (if device_locked h d then - EACCES else 0, opened d k flags h)"
proof -
  have k: "k < ALT_MAX_FD" "k < length (alt_fd_list h)"
    using assms by (simp_all add: first_free_fd_def pool_ok_def)
  have "alt_file_locked_loop k 0 (opened d k flags h) = returns (if device_locked h d then - EACCES else 0)"
  proof (subst alt_file_locked_loop_eq)
    show "length (alt_fd_list (opened d k flags h)) = ALT_MAX_FD"
      using assms by (simp add: opened_def pool_ok_def)
    show "unat (alt_max_fd (opened d k flags h)) < 32"
      using assms(1) k by (auto simp: unat_max_opened ALT_MAX_FD_def pool_ok_def)
  qed (simp add: locked_found[OF assms])
  moreover have "set_fd k (((alt_fd_list h ! k)\<lparr>fdev := Some d, fd_flags := (flags AND NOT ALT_FD_FLAGS_MASK) OR ALT_FD_DEV\<rparr>))
      (set_fd k x (allocated d k h)) = opened d k flags h" for x
    by (simp add: opened_def set_fd_def)
  ultimately show ?thesis using k by (simp add: alt_file_locked_def Let_def)
qed

lemma alt_open_device:
  assumes "pool_ok h" and "first_free_fd h k" and found: "alt_find_dev D name (alt_dev_list h) = Some (Some d)"
    and open_null: "dev_open (D d) = None"
  shows "alt_open D name flags mode h =
    (if device_locked h d then returns (- 1, (released k (opened d k flags h))\<lparr>errno := EACCES\<rparr>)
     else returns (of_nat k, opened d k flags h))"
proof -
  have k: "k < ALT_MAX_FD" "3 \<le> k" using assms first_free_ge_3 by (auto simp: first_free_fd_def)
  have len: "length (alt_fd_list (opened d k flags h)) = ALT_MAX_FD"
    using assms(1) by (simp add: opened_def pool_ok_def)
  have neg: "sint (- EACCES) < 0" by (simp add: EACCES_def)
  show ?thesis using k neg
    by (simp add: alt_open_def found alt_get_fd_first_free[OF assms(2)] alt_open_fd_setup_def Let_def
        sint_of_nat_fd open_null alt_file_locked_opened[OF assms(1,2), simplified] alt_release_fd_eq[OF k(2,1) len])
qed

lemma alt_close_opened:
  assumes "pool_ok h" and "first_free_fd h k" and "dev_close (D d) = None"
  shows "alt_close D (of_nat k) (opened d k flags h) = returns (0, released k (opened d k flags h))"
proof -
  have k: "k < ALT_MAX_FD" "3 \<le> k" using assms first_free_ge_3 by (auto simp: first_free_fd_def)
  have len: "length (alt_fd_list (opened d k flags h)) = ALT_MAX_FD"
    using assms(1) by (simp add: opened_def pool_ok_def)
  have "fdev (alt_fd_list (opened d k flags h) ! k) = Some d"
    using k assms(1) by (simp add: opened_def pool_ok_def)
  then show ?thesis using k len assms(3)
    by (simp add: alt_close_def get_fd_def get_dev_def sint_of_nat_fd alt_release_fd_eq[OF k(2,1) len])
qed

text \<open>C22. Opening a device that nobody has locked and whose driver has no open or close
  callback yields the least free descriptor; closing it returns 0 and restores every
  descriptor, with errno, the device lists and the world as they were.\<close>

theorem open_close:
  assumes "pool_ok h" and "first_free_fd h k" and "alt_find_dev D name (alt_dev_list h) = Some (Some d)"
    and "dev_open (D d) = None" and "dev_close (D d) = None" and "\<not> device_locked h d"
  shows "\<exists>h1 h2. alt_open D name flags mode h = returns (of_nat k, h1) \<and>
    fdev (alt_fd_list h1 ! k) = Some d \<and>
    alt_close D (of_nat k) h1 = returns (0, h2) \<and>
    alt_fd_list h2 = alt_fd_list h \<and> errno h2 = errno h \<and> alt_dev_list h2 = alt_dev_list h \<and>
    alt_fs_list h2 = alt_fs_list h \<and> world h2 = world h"
proof (intro exI conjI)
  show "alt_open D name flags mode h = returns (of_nat k, opened d k flags h)"
    using alt_open_device[OF assms(1-4)] assms(6) by simp
  show "alt_close D (of_nat k) (opened d k flags h) = returns (0, released k (opened d k flags h))"
    by (rule alt_close_opened) (fact assms)+
  show "fdev (alt_fd_list (opened d k flags h) ! k) = Some d"
    using assms(1,2) by (simp add: opened_def pool_ok_def first_free_fd_def)
qed (simp_all add: released_opened[OF assms(1,2)])

text \<open>Once a descriptor of a device holds the exclusive lock, every later open of that
  device fails with EACCES and leaves the descriptors as they were.\<close>

theorem locked_open_fails:
  assumes "pool_ok h" and "fd < ALT_MAX_FD" and "fdev (alt_fd_list h ! fd) = Some d"
    and "alt_fd_lock fd h = returns (0, h1)" and "first_free_fd h1 k"
    and "alt_find_dev D name (alt_dev_list h1) = Some (Some d)" and "dev_open (D d) = None"
  shows "\<exists>h2. alt_open D name flags mode h1 = returns (- 1, h2) \<and> errno h2 = EACCES \<and>
    alt_fd_list h2 = alt_fd_list h1"
proof -
  have h1: "h1 = lock_fd fd h"
    using assms(4) by (auto simp: alt_fd_lock_eq[OF assms(1)] EACCES_def split: if_splits)
  have len: "length (alt_fd_list h) = ALT_MAX_FD" using assms(1) by (simp add: pool_ok_def)
  have ok: "pool_ok h1"
    using assms(1-3) by (auto simp: h1 pool_ok_def lock_fd_def fd_free_def nth_list_update)
  have excl: "(x OR ALT_FD_EXCL) AND ALT_FD_EXCL \<noteq> 0" for x
    by (simp add: bit_simps and.commute or.commute ALT_FD_EXCL_def bit_eq_iff)
       (auto intro!: exI[of _ 31] simp: bit_simps)
  have "device_locked h1 d"
    using assms(2,3) excl len by (auto simp: device_locked_def h1 lock_fd_def intro!: exI[of _ fd])
  then show ?thesis
    using alt_open_device[OF ok assms(5-7)] released_opened[OF ok assms(5)]
    by (intro exI[of _ "(released k (opened d k flags h1))\<lparr>errno := EACCES\<rparr>"]) simp
qed

text \<open>C39. The lock looks only at the descriptors below alt_max_fd: it is granted although the
  highest descriptor in use is open on the same device.\<close>

theorem lock_misses_highest:
  assumes "pool_ok h" and "fd < ALT_MAX_FD" and "sint (alt_max_fd h) = int hi" and "fd \<noteq> hi"
    and "fdev (alt_fd_list h ! hi) = fdev (alt_fd_list h ! fd)"
    and "\<And>j. j < hi \<Longrightarrow> j \<noteq> fd \<Longrightarrow> fdev (alt_fd_list h ! j) \<noteq> fdev (alt_fd_list h ! fd)"
  shows "\<exists>h1. alt_fd_lock fd h = returns (0, h1) \<and>
    fdev (alt_fd_list h1 ! hi) = fdev (alt_fd_list h1 ! fd) \<and>
    fd_flags (alt_fd_list h1 ! fd) = fd_flags (alt_fd_list h ! fd) OR ALT_FD_EXCL"
proof (intro exI conjI)
  have "\<not> found_from 0 (nat (sint (alt_max_fd h))) (shares_device h fd)"
    using assms(3,6) by (auto simp: found_from_def shares_device_def)
  then show "alt_fd_lock fd h = returns (0, lock_fd fd h)" by (simp add: alt_fd_lock_eq[OF assms(1)])
qed (use assms(1,2,4,5) in \<open>auto simp: lock_fd_def pool_ok_def nth_list_update\<close>)

text \<open>A run that opens a device twice, for the witnesses.\<close>

definition two_devices :: "nat \<Rightarrow> unit alt_dev" where
  "two_devices d = alt_dev_null\<lparr>dev_name := Some (if d = 0 then ''/dev/null'' else ''/dev/x'')\<rparr>"

definition one_registered :: "unit hal" where
  "one_registered = snd (alt_dev_reg two_devices (Some 1) (hal_init ()))"

definition opened_twice :: "unit hal" where
  "opened_twice = opened 1 4 O_WRONLY (opened 1 3 O_WRONLY one_registered)"

lemma one_registered_eq: "one_registered = (hal_init ())\<lparr>alt_dev_list := [1, 0]\<rparr>"
  by (simp add: one_registered_def alt_dev_reg_def alt_dev_llist_insert_def two_devices_def alt_dev_null_def hal_init_def)

lemma one_registered_ok: "pool_ok one_registered"
  using pool_ok_init[of "()"] by (simp add: one_registered_eq pool_ok_def fd_free_def)

lemma one_registered_first: "first_free_fd one_registered 3"
  by (auto simp: one_registered_eq first_free_fd_def fd_free_def hal_init_def ALT_MAX_FD_def nth_append)

lemma find_two_devices:
  "alt_find_dev two_devices ''/dev/x'' [1, 0] = Some (Some 1)"
  by (simp add: two_devices_def alt_dev_null_def memcmp_equal_def c_str_def)

lemma opened_fd_list:
  "alt_fd_list (opened d k flags h) =
     (alt_fd_list h)[k := (alt_fd_list h ! k)\<lparr>fdev := Some d, fd_flags := (flags AND NOT ALT_FD_FLAGS_MASK) OR ALT_FD_DEV\<rparr>]"
  by (simp add: opened_def)

lemma pool_ok_opened:
  assumes "pool_ok h" and "k < ALT_MAX_FD"
  shows "pool_ok (opened d k flags h)"
  using assms
  by (auto simp: pool_ok_def opened_def sint_max_allocated fd_free_def nth_list_update ALT_MAX_FD_def le_max_iff_disj)

lemma open_close_witness:
  "\<exists>h1 h2. alt_open two_devices ''/dev/x'' 1 0 one_registered = returns (of_nat 3, h1) \<and>
    fdev (alt_fd_list h1 ! 3) = Some 1 \<and> alt_close two_devices (of_nat 3) h1 = returns (0, h2) \<and>
    alt_fd_list h2 = alt_fd_list one_registered \<and> errno h2 = errno one_registered \<and>
    alt_dev_list h2 = alt_dev_list one_registered \<and> alt_fs_list h2 = alt_fs_list one_registered \<and>
    world h2 = world one_registered"
proof (rule open_close[OF one_registered_ok one_registered_first])
  show "alt_find_dev two_devices ''/dev/x'' (alt_dev_list one_registered) = Some (Some 1)"
    using find_two_devices by (simp add: one_registered_eq)
  show "\<not> device_locked one_registered 1"
    by (auto simp: one_registered_eq device_locked_def hal_init_def ALT_MAX_FD_def nth_append)
qed (simp_all add: two_devices_def alt_dev_null_def)

lemma opened_twice_pool: "pool_ok opened_twice"
  unfolding opened_twice_def
  by (intro pool_ok_opened one_registered_ok) (simp_all add: ALT_MAX_FD_def)

lemma opened_twice_fds:
  "fdev (alt_fd_list opened_twice ! 3) = Some 1" "fdev (alt_fd_list opened_twice ! 4) = Some 1"
  "i < 3 \<Longrightarrow> fdev (alt_fd_list opened_twice ! i) = Some 0"
  by (simp_all add: opened_twice_def opened_fd_list one_registered_eq hal_init_def ALT_MAX_FD_def nth_append)

lemma opened_twice_max: "sint (alt_max_fd opened_twice) = int 4"
  by (simp add: opened_twice_def opened_def sint_max_allocated ALT_MAX_FD_def one_registered_eq hal_init_def)

lemma lock_misses_highest_witness:
  "\<exists>h1. alt_fd_lock 3 opened_twice = returns (0, h1) \<and>
    fdev (alt_fd_list h1 ! 4) = fdev (alt_fd_list h1 ! 3) \<and>
    fd_flags (alt_fd_list h1 ! 3) = fd_flags (alt_fd_list opened_twice ! 3) OR ALT_FD_EXCL"
  by (rule lock_misses_highest[OF opened_twice_pool _ opened_twice_max])
     (auto simp: opened_twice_fds ALT_MAX_FD_def)

lemma locked_open_fails_witness:
  "\<exists>h1 h2. alt_fd_lock 3 opened_twice = returns (0, h1) \<and>
    alt_open two_devices ''/dev/x'' 1 0 h1 = returns (- 1, h2) \<and> errno h2 = EACCES \<and>
    alt_fd_list h2 = alt_fd_list h1"
proof -
  let ?h1 = "lock_fd 3 opened_twice"
  have lock: "alt_fd_lock 3 opened_twice = returns (0, ?h1)"
  proof -
    have "\<not> found_from 0 (nat (sint (alt_max_fd opened_twice))) (shares_device opened_twice 3)"
    proof
      assume "found_from 0 (nat (sint (alt_max_fd opened_twice))) (shares_device opened_twice 3)"
      then obtain j where j: "j < 4" "j \<noteq> 3" "fdev (alt_fd_list opened_twice ! j) = Some 1"
        by (auto simp: opened_twice_max found_from_def shares_device_def opened_twice_fds(1))
      then have "j < 3" by simp
      then show False using j(3) opened_twice_fds(3) by simp
    qed
    then show ?thesis by (simp add: alt_fd_lock_eq[OF opened_twice_pool])
  qed
  have first: "first_free_fd ?h1 5"
    by (auto simp: first_free_fd_def fd_free_def lock_fd_def opened_twice_def opened_fd_list ALT_MAX_FD_def
        one_registered_eq hal_init_def nth_list_update nth_append)
  have "alt_dev_list ?h1 = [1, 0]" by (simp add: lock_fd_def opened_twice_def one_registered_eq)
  then show ?thesis
    using locked_open_fails[OF opened_twice_pool _ opened_twice_fds(1) lock first, of two_devices "''/dev/x''" 1 0]
      find_two_devices lock by (auto simp: ALT_MAX_FD_def two_devices_def alt_dev_null_def)
qed

section \<open>Writing to a device that accepts everything\<close>

text \<open>
  The contract between the HAL and a driver: when the device is ready, its write callback
  returns the count it was given, has emitted exactly those bytes in order, leaves the
  descriptor alone and the device ready.
\<close>

locale char_device =
  fixes write_fd :: "alt_fd \<Rightarrow> u8 list \<Rightarrow> cint \<Rightarrow> 's \<Rightarrow> (cint \<times> alt_fd \<times> 's) outcome"
    and ready :: "'s \<Rightarrow> bool"
    and emitted :: "'s \<Rightarrow> u8 list"
  assumes write_emits: "ready s \<Longrightarrow> 0 \<le> sint len \<Longrightarrow> nat (sint len) \<le> length ptr \<Longrightarrow>
    \<exists>s'. write_fd fd ptr len s = returns (len, fd, s') \<and> ready s' \<and>
      emitted s' = emitted s @ take (nat (sint len)) ptr"
begin

lemma alt_write_emits:
  assumes "ready (world h)" and "file < ALT_MAX_FD" and "file < length (alt_fd_list h)"
    and "fdev (alt_fd_list h ! file) = Some d" and "dev_write (D d) = Some write_fd"
    and "fd_flags (alt_fd_list h ! file) AND O_ACCMODE \<noteq> O_RDONLY"
    and "0 \<le> sint len" and "nat (sint len) \<le> length ptr"
  shows "\<exists>s'. alt_write D (of_nat file) ptr len h = returns (len, h\<lparr>world := s'\<rparr>) \<and> ready s' \<and>
    emitted s' = emitted (world h) @ take (nat (sint len)) ptr"
proof -
  obtain s' where s': "write_fd (alt_fd_list h ! file) ptr len (world h) = returns (len, alt_fd_list h ! file, s')"
    "ready s'" "emitted s' = emitted (world h) @ take (nat (sint len)) ptr"
    using write_emits[OF assms(1,7,8)] by blast
  have "after_call (of_nat file) (alt_fd_list h ! file) s' h = h\<lparr>world := s'\<rparr>"
    using assms(2) by (simp add: after_call_def set_fd_def)
  then have "alt_write D (of_nat file) ptr len h = returns (len, h\<lparr>world := s'\<rparr>)"
    using assms s'(1) by (simp add: alt_write_def get_fd_def get_dev_def sint_of_nat_fd Let_def)
  then show ?thesis using s'(2,3) by blast
qed

end

end
