(* ===== verification/Posix.thy ===== *)
theory Posix
  imports Fd
begin

text \<open>
  The system calls newlib asks for that the HAL provides for one process only: getpid, fork,
  execve, wait, link, unlink, rename, kill and _exit, the locks of malloc and of the environment,
  and stat.
\<close>

section \<open>Stubs\<close>

text \<open>errno.h of newlib.\<close>

definition ESRCH :: cint where "ESRCH = 3"
definition ECHILD :: cint where "ECHILD = 10"

definition alt_getpid :: cint where
  "alt_getpid = 0"

definition alt_fork :: "'s hal \<Rightarrow> cint \<times> 's hal" where
  "alt_fork h = (- 1, h\<lparr>errno := ENOSYS\<rparr>)"

definition alt_execve :: "string \<Rightarrow> string list \<Rightarrow> string list \<Rightarrow> 's hal \<Rightarrow> cint \<times> 's hal" where
  "alt_execve name argv env h = (- 1, h\<lparr>errno := ENOSYS\<rparr>)"

text \<open>The second result is \<open>*status\<close>.\<close>

definition alt_wait :: "'s hal \<Rightarrow> cint \<times> cint \<times> 's hal" where
  "alt_wait h = (let status = 0 in (- 1, status, h\<lparr>errno := ECHILD\<rparr>))"

definition alt_link :: "string \<Rightarrow> string \<Rightarrow> 's hal \<Rightarrow> cint \<times> 's hal" where
  "alt_link existing new h = (- 1, h\<lparr>errno := ENOSYS\<rparr>)"

definition alt_unlink :: "string \<Rightarrow> 's hal \<Rightarrow> cint \<times> 's hal" where
  "alt_unlink name h = (- 1, h\<lparr>errno := ENOSYS\<rparr>)"

definition alt_rename :: "string \<Rightarrow> string \<Rightarrow> 's hal \<Rightarrow> cint \<times> 's hal" where
  "alt_rename existing new h = (- 1, h\<lparr>errno := ENOSYS\<rparr>)"

definition env_lock :: "'s hal \<Rightarrow> 's hal" where "env_lock h = h"
definition env_unlock :: "'s hal \<Rightarrow> 's hal" where "env_unlock h = h"
definition malloc_lock :: "'s hal \<Rightarrow> 's hal" where "malloc_lock h = h"
definition malloc_unlock :: "'s hal \<Rightarrow> 's hal" where "malloc_unlock h = h"

section \<open>The end of the process\<close>

text \<open>What a simulator sees of alt_sim_halt; the loop after it has no exit.\<close>

datatype sim_op = SIM_FAIL | SIM_PASS

definition alt_sim_halt :: "cint \<Rightarrow> sim_op" where
  "alt_sim_halt exit_code = (if exit_code \<noteq> 0 then SIM_FAIL else SIM_PASS)"

partial_function (option) spin :: "sim_op list \<Rightarrow> 'a outcome" where
  "spin ops = spin ops"

definition alt_exit :: "cint \<Rightarrow> 'a outcome" where
  "alt_exit exit_code = spin [alt_sim_halt exit_code]"

lemma spin_never: "spin ops = None"
proof (rule ccontr)
  assume "spin ops \<noteq> (None :: 'a outcome)"
  then obtain y :: "trap + 'a" where "spin ops = Some y" by blast
  then show False by (induction rule: spin.raw_induct[rotated, consumes 1, case_names turn]) blast
qed

lemma alt_exit_never: "alt_exit c = None"
  by (simp add: alt_exit_def spin_never)

section \<open>kill\<close>

text \<open>The signals the code names; the parameter \<open>signals\<close> says which of them a number is in
  signal.h, none for 0.\<close>

datatype signal = SIGABRT | SIGALRM | SIGFPE | SIGILL | SIGKILL | SIGPIPE | SIGQUIT | SIGSEGV | SIGTERM
  | SIGUSR1 | SIGUSR2 | SIGBUS | SIGPOLL | SIGPROF | SIGSYS | SIGTRAP | SIGVTALRM | SIGXCPU | SIGXFSZ
  | SIGCHLD | SIGURG

definition alt_kill :: "(cint \<Rightarrow> signal option) \<Rightarrow> cint \<Rightarrow> cint \<Rightarrow> 's hal \<Rightarrow> (cint \<times> 's hal) outcome" where
  "alt_kill signals pid signo h =
     and_then (if sint pid \<le> 0 then
                 (if signo = 0 then returns 0
                  else
                    (case signals signo of
                       None \<Rightarrow> returns EINVAL
                     | Some s \<Rightarrow> if s \<in> {SIGCHLD, SIGURG} then returns 0
                                  else and_then (alt_exit 0 :: unit outcome) (\<lambda>_. returns 0)))
               else returns ESRCH) (\<lambda>status.
     if status \<noteq> 0 then returns (- 1, h\<lparr>errno := status\<rparr>) else returns (0, h))"

lemma alt_kill_cases:
  fixes pid signo :: cint
  shows "0 < sint pid \<Longrightarrow> alt_kill signals pid signo h = returns (- 1, h\<lparr>errno := ESRCH\<rparr>)"
    and "sint pid \<le> 0 \<Longrightarrow> alt_kill signals pid 0 h = returns (0, h)"
    and "sint pid \<le> 0 \<Longrightarrow> signo \<noteq> 0 \<Longrightarrow> signals signo = None \<Longrightarrow>
      alt_kill signals pid signo h = returns (- 1, h\<lparr>errno := EINVAL\<rparr>)"
    and "sint pid \<le> 0 \<Longrightarrow> signo \<noteq> 0 \<Longrightarrow> signals signo = Some s \<Longrightarrow>
      alt_kill signals pid signo h = (if s = SIGCHLD \<or> s = SIGURG then returns (0, h) else None)"
  by (auto simp: alt_kill_def ESRCH_def EINVAL_def alt_exit_never)

section \<open>stat\<close>

text \<open>As in fstat, the second result is \<open>st->st_mode\<close> after the call.\<close>

definition alt_stat :: "(nat \<Rightarrow> 's alt_dev) \<Rightarrow> string \<Rightarrow> cint \<Rightarrow> 's hal \<Rightarrow> (cint \<times> cint \<times> 's hal) outcome" where
  "alt_stat D file st_mode h =
     and_then (alt_open D file 0 0 h) (\<lambda>(fd, h).
     and_then (alt_fstat D fd st_mode h) (\<lambda>(rc, st_mode, h).
     and_then (alt_close D fd h) (\<lambda>(_, h).
     returns (rc, st_mode, h))))"

text \<open>stat of a device that nobody has locked and whose driver has no callbacks reports a
  character device and leaves descriptors, errno and the world as they were.  stat of a name that
  is not there fails with EBADFD: the ENODEV that open stored is overwritten by the calls on the
  descriptor -1.\<close>

theorem stat_device:
  assumes "pool_ok h" and "first_free_fd h k" and "alt_find_dev D name (alt_dev_list h) = Some (Some d)"
    and "dev_open (D d) = None" and "dev_close (D d) = None" and "dev_fstat (D d) = None" and "\<not> device_locked h d"
    and "alt_find_dev D missing (alt_dev_list h) = Some None" and "alt_find_file D missing (alt_fs_list h) = Some None"
  shows "(\<exists>h'. alt_stat D name st h = returns (0, S_IFCHR, h') \<and> alt_fd_list h' = alt_fd_list h \<and>
      errno h' = errno h \<and> world h' = world h) \<and>
    alt_open D missing 0 0 h = returns (- 1, h\<lparr>errno := ENODEV\<rparr>) \<and>
    alt_stat D missing st h = returns (- 1, st, h\<lparr>errno := EBADFD\<rparr>)"
proof (intro conjI exI)
  have k: "k < ALT_MAX_FD" "3 \<le> k" using assms first_free_ge_3 by (auto simp: first_free_fd_def)
  have len: "length (alt_fd_list h) = ALT_MAX_FD" using assms(1) by (rule pool_length)
  have "alt_fstat D (of_nat k) st (opened d k 0 h) = returns (0, S_IFCHR, opened d k 0 h)"
    using k assms(6) len
    by (simp add: alt_fstat_def get_fd_def get_dev_def sint_of_nat_fd opened_def)
  then show "alt_stat D name st h = returns (0, S_IFCHR, released k (opened d k 0 h))"
    using alt_open_device[OF assms(1-4)] assms(7) alt_close_opened[where D = D and d = d, OF assms(1,2,5)] by (simp add: alt_stat_def)
  show "alt_open D missing 0 0 h = returns (- 1, h\<lparr>errno := ENODEV\<rparr>)"
    using assms(8,9) by (simp add: alt_open_def ENODEV_def alt_release_fd_def)
  then show "alt_stat D missing st h = returns (- 1, st, h\<lparr>errno := EBADFD\<rparr>)"
    by (simp add: alt_stat_def alt_fstat_def alt_close_def)
qed (simp_all add: released_opened[OF assms(1,2)])

lemma stat_device_witness:
  "(\<exists>h'. alt_stat two_devices ''/dev/x'' 7 one_registered = returns (0, S_IFCHR, h') \<and>
      alt_fd_list h' = alt_fd_list one_registered \<and> errno h' = 0) \<and>
    alt_stat two_devices ''/dev/y'' 7 one_registered = returns (- 1, 7, one_registered\<lparr>errno := EBADFD\<rparr>)"
proof -
  have "alt_find_dev two_devices ''/dev/x'' (alt_dev_list one_registered) = Some (Some 1)"
    using find_two_devices by (simp add: one_registered_eq)
  moreover have "\<not> device_locked one_registered 1"
    by (auto simp: one_registered_eq device_locked_def hal_init_def ALT_MAX_FD_def nth_append)
  moreover have "alt_find_dev two_devices ''/dev/y'' (alt_dev_list one_registered) = Some None"
    by (simp add: one_registered_eq two_devices_def alt_dev_null_def memcmp_equal_def c_str_def)
  moreover have "alt_find_file two_devices ''/dev/y'' (alt_fs_list one_registered) = Some None"
    by (simp add: one_registered_eq hal_init_def)
  moreover have "errno one_registered = 0" by (simp add: one_registered_eq hal_init_def)
  ultimately show ?thesis
    using stat_device[OF one_registered_ok one_registered_first, of two_devices "''/dev/x''" 1 "''/dev/y''" 7]
    by (auto simp: two_devices_def alt_dev_null_def)
qed

end
