(* ===== verification/Jtag.thy ===== *)
theory Jtag
  imports Fd
begin

text \<open>
  The polled driver of the JTAG UART, which the BSP is built with
  (ALTERA_AVALON_JTAG_UART_SMALL in public.mk), its registers, the wrappers that put it
  behind the file descriptors, and the contract of the hardware under which its write
  routine is a character device.  The two registers of the core are behind the bus
  parameter.
\<close>

section \<open>Registers\<close>

definition IO_CALC_ADDRESS_NATIVE :: "cint \<Rightarrow> cint \<Rightarrow> cint" where
  "IO_CALC_ADDRESS_NATIVE base regnum = base + regnum * 4"

definition IORD :: "'d bus \<Rightarrow> cint \<Rightarrow> cint \<Rightarrow> 'd \<Rightarrow> cint \<times> 'd" where
  "IORD b base regnum d = ldwio b d (IO_CALC_ADDRESS_NATIVE base regnum)"

definition IOWR :: "'d bus \<Rightarrow> cint \<Rightarrow> cint \<Rightarrow> cint \<Rightarrow> 'd \<Rightarrow> 'd" where
  "IOWR b base regnum data d = stwio b d (IO_CALC_ADDRESS_NATIVE base regnum) data"

definition DATA_REG :: cint where "DATA_REG = 0"
definition DATA_DATA_MSK :: cint where "DATA_DATA_MSK = 0x000000FF"
definition DATA_DATA_OFST :: nat where "DATA_DATA_OFST = 0"
definition DATA_RVALID_MSK :: cint where "DATA_RVALID_MSK = 0x00008000"
definition DATA_RAVAIL_MSK :: cint where "DATA_RAVAIL_MSK = 0xFFFF0000"
definition DATA_RAVAIL_OFST :: nat where "DATA_RAVAIL_OFST = 16"
definition CONTROL_REG :: cint where "CONTROL_REG = 1"
definition CONTROL_RE_MSK :: cint where "CONTROL_RE_MSK = 0x00000001"
definition CONTROL_WE_MSK :: cint where "CONTROL_WE_MSK = 0x00000002"
definition CONTROL_RI_MSK :: cint where "CONTROL_RI_MSK = 0x00000100"
definition CONTROL_WI_MSK :: cint where "CONTROL_WI_MSK = 0x00000200"
definition CONTROL_AC_MSK :: cint where "CONTROL_AC_MSK = 0x00000400"
definition CONTROL_WSPACE_MSK :: cint where "CONTROL_WSPACE_MSK = 0xFFFF0000"
definition CONTROL_WSPACE_OFST :: nat where "CONTROL_WSPACE_OFST = 16"

definition IORD_DATA :: "'d bus \<Rightarrow> cint \<Rightarrow> 'd \<Rightarrow> cint \<times> 'd" where
  "IORD_DATA b base d = IORD b base DATA_REG d"

definition IOWR_DATA :: "'d bus \<Rightarrow> cint \<Rightarrow> cint \<Rightarrow> 'd \<Rightarrow> 'd" where
  "IOWR_DATA b base data d = IOWR b base DATA_REG data d"

definition IORD_CONTROL :: "'d bus \<Rightarrow> cint \<Rightarrow> 'd \<Rightarrow> cint \<times> 'd" where
  "IORD_CONTROL b base d = IORD b base CONTROL_REG d"

definition IOWR_CONTROL :: "'d bus \<Rightarrow> cint \<Rightarrow> cint \<Rightarrow> 'd \<Rightarrow> 'd" where
  "IOWR_CONTROL b base data d = IOWR b base CONTROL_REG data d"

section \<open>The polled driver\<close>

text \<open>The loop of the read routine; \<open>got\<close> is what has been stored behind \<open>buffer\<close>.\<close>

partial_function (option) small_read_loop ::
  "'d bus \<Rightarrow> cint \<Rightarrow> cint \<Rightarrow> cint \<Rightarrow> u8 list \<Rightarrow> 'd \<Rightarrow> (u8 list \<times> 'd) outcome" where
  "small_read_loop b base space flags got d =
     (if int (length got) < sint space then
        (case IORD_DATA b base d of (data, d) \<Rightarrow>
           if data AND DATA_RVALID_MSK \<noteq> 0 then
             small_read_loop b base space flags
               (got @ [ucast (drop_bit DATA_DATA_OFST (data AND DATA_DATA_MSK))]) d
           else if got \<noteq> [] then returns (got, d)
           else if flags AND O_NONBLOCK \<noteq> 0 then returns (got, d)
           else small_read_loop b base space flags got d)
      else returns (got, d))"

definition altera_avalon_jtag_uart_read ::
  "'d bus \<Rightarrow> cint \<Rightarrow> cint \<Rightarrow> cint \<Rightarrow> 'd \<Rightarrow> (cint \<times> u8 list \<times> 'd) outcome" where
  "altera_avalon_jtag_uart_read b base space flags d =
     and_then (small_read_loop b base space flags [] d) (\<lambda>(got, d).
       returns (if got \<noteq> [] then of_nat (length got)
                else if flags AND O_NONBLOCK \<noteq> 0 then - EWOULDBLOCK else - EIO, got, d))"

text \<open>The loop of the write routine, at byte \<open>i\<close>; the bytes are \<open>char\<close>, which is signed.\<close>

partial_function (option) small_write_loop ::
  "'d bus \<Rightarrow> cint \<Rightarrow> u8 list \<Rightarrow> cint \<Rightarrow> nat \<Rightarrow> 'd \<Rightarrow> 'd outcome" where
  "small_write_loop b base ptr count i d =
     (if int i < sint count then
        (case IORD_CONTROL b base d of (control, d) \<Rightarrow>
           if control AND CONTROL_WSPACE_MSK \<noteq> 0 then
             and_then (defined_or_trap (arr_get ptr i)) (\<lambda>c.
               small_write_loop b base ptr count (Suc i) (IOWR_DATA b base (scast c) d))
           else small_write_loop b base ptr count i d)
      else returns d)"

definition altera_avalon_jtag_uart_write ::
  "'d bus \<Rightarrow> cint \<Rightarrow> u8 list \<Rightarrow> cint \<Rightarrow> cint \<Rightarrow> 'd \<Rightarrow> (cint \<times> 'd) outcome" where
  "altera_avalon_jtag_uart_write b base ptr count flags d =
     and_then (small_write_loop b base ptr count 0 d) (\<lambda>d. returns (count, d))"

section \<open>Behind a file descriptor\<close>

text \<open>The base address is the field of the device structure that contains the \<open>alt_dev\<close>.\<close>

definition altera_avalon_jtag_uart_read_fd ::
  "'d bus \<Rightarrow> cint \<Rightarrow> alt_fd \<Rightarrow> cint \<Rightarrow> 'd \<Rightarrow> (cint \<times> u8 list \<times> alt_fd \<times> 'd) outcome" where
  "altera_avalon_jtag_uart_read_fd b base fd space d =
     and_then (altera_avalon_jtag_uart_read b base space (fd_flags fd) d) (\<lambda>(rc, bytes, d).
       returns (rc, bytes, fd, d))"

definition altera_avalon_jtag_uart_write_fd ::
  "'d bus \<Rightarrow> cint \<Rightarrow> alt_fd \<Rightarrow> u8 list \<Rightarrow> cint \<Rightarrow> 'd \<Rightarrow> (cint \<times> alt_fd \<times> 'd) outcome" where
  "altera_avalon_jtag_uart_write_fd b base fd buffer space d =
     and_then (altera_avalon_jtag_uart_write b base buffer space (fd_flags fd) d) (\<lambda>(rc, d).
       returns (rc, fd, d))"

definition jtag_uart_dev :: "'d bus \<Rightarrow> string \<Rightarrow> cint \<Rightarrow> 'd alt_dev" where
  "jtag_uart_dev b name base =
     \<lparr>dev_name = Some name, dev_open = None, dev_close = None,
      dev_read = Some (altera_avalon_jtag_uart_read_fd b base),
      dev_write = Some (altera_avalon_jtag_uart_write_fd b base),
      dev_lseek = None, dev_fstat = None, dev_ioctl = None\<rparr>"

lemma ucast_scast_u8: "ucast (scast c :: cint) = (c :: u8)"
  by (rule word_eqI_bits) (simp add: bit_unsigned_iff bit_signed_iff)

section \<open>The contract of the hardware\<close>

text \<open>
  What the driver relies on: reading the control register loses no output, and when it
  reports no space the host takes something before long (\<open>patience\<close> counts the polls it
  may still take); a byte written while there was space is emitted.
\<close>

locale jtag_port =
  fixes b :: "'d bus" and base :: cint
    and ready :: "'d \<Rightarrow> bool" and emitted :: "'d \<Rightarrow> u8 list" and patience :: "'d \<Rightarrow> nat"
  assumes control_keeps: "ready d \<Longrightarrow> IORD_CONTROL b base d = (v, d') \<Longrightarrow> ready d' \<and> emitted d' = emitted d"
    and host_reads: "ready d \<Longrightarrow> IORD_CONTROL b base d = (v, d') \<Longrightarrow> v AND CONTROL_WSPACE_MSK = 0 \<Longrightarrow>
      patience d' < patience d"
    and write_emits_byte: "ready d \<Longrightarrow> IORD_CONTROL b base d = (v, d') \<Longrightarrow> v AND CONTROL_WSPACE_MSK \<noteq> 0 \<Longrightarrow>
      ready (IOWR_DATA b base x d') \<and> emitted (IOWR_DATA b base x d') = emitted d' @ [ucast x]"
begin

lemma wait_for_space:
  "ready d \<Longrightarrow> int i < sint count \<Longrightarrow> i < length ptr \<Longrightarrow>
   \<exists>d'. ready d' \<and> emitted d' = emitted d @ [ptr ! i] \<and>
     small_write_loop b base ptr count i d = small_write_loop b base ptr count (Suc i) d'"
proof (induction "patience d" arbitrary: d rule: less_induct)
  case less
  obtain v d1 where c: "IORD_CONTROL b base d = (v, d1)" by fastforce
  show ?case
  proof (cases "v AND CONTROL_WSPACE_MSK = 0")
    case True
    then have "small_write_loop b base ptr count i d = small_write_loop b base ptr count i d1"
      using less.prems(2) c by (subst small_write_loop.simps) simp
    then show ?thesis
      using less.hyps[of d1] less.prems control_keeps[OF less.prems(1) c] host_reads[OF less.prems(1) c True]
      by auto
  next
    case False
    then show ?thesis
      using less.prems(2,3) c control_keeps[OF less.prems(1) c]
        write_emits_byte[OF less.prems(1) c False, of "scast (ptr ! i)"]
      by (intro exI[of _ "IOWR_DATA b base (scast (ptr ! i)) d1"])
         (subst small_write_loop.simps, simp add: ucast_scast_u8)
  qed
qed

lemma small_write_loop_emits:
  "ready d \<Longrightarrow> i \<le> nat (sint count) \<Longrightarrow> nat (sint count) \<le> length ptr \<Longrightarrow> 0 \<le> sint count \<Longrightarrow>
   \<exists>d'. small_write_loop b base ptr count i d = returns d' \<and> ready d' \<and>
     emitted d' = emitted d @ drop i (take (nat (sint count)) ptr)"
proof (induction "nat (sint count) - i" arbitrary: i d)
  case 0
  then have "\<not> int i < sint count" by linarith
  then show ?case using 0 by (subst small_write_loop.simps) simp
next
  case (Suc n)
  then have i: "int i < sint count" "i < length ptr" by linarith+
  obtain d1 where d1: "ready d1" "emitted d1 = emitted d @ [ptr ! i]"
    "small_write_loop b base ptr count i d = small_write_loop b base ptr count (Suc i) d1"
    using wait_for_space[OF Suc.prems(1) i] by blast
  have "drop i (take (nat (sint count)) ptr) = ptr ! i # drop (Suc i) (take (nat (sint count)) ptr)"
    using i by (subst Cons_nth_drop_Suc[symmetric]) auto
  moreover have "n = nat (sint count) - Suc i" using Suc.hyps(2) by simp
  ultimately show ?case
    using Suc.hyps(1)[of "Suc i" d1] Suc.prems i d1 by auto
qed

lemma write_fd_emits:
  "ready d \<Longrightarrow> 0 \<le> sint len \<Longrightarrow> nat (sint len) \<le> length ptr \<Longrightarrow>
   \<exists>d'. altera_avalon_jtag_uart_write_fd b base fd ptr len d = returns (len, fd, d') \<and> ready d' \<and>
     emitted d' = emitted d @ take (nat (sint len)) ptr"
  using small_write_loop_emits[of d 0 len ptr]
  by (auto simp: altera_avalon_jtag_uart_write_fd_def altera_avalon_jtag_uart_write_def)

end

text \<open>Under that contract the driver satisfies the contract of the HAL.\<close>

sublocale jtag_port \<subseteq> char_device "altera_avalon_jtag_uart_write_fd b base" ready emitted
  by unfold_locales (rule write_fd_emits)

section \<open>Receiving\<close>

text \<open>
  \<open>pending d\<close> are the bytes the host is going to send; \<open>latency\<close> counts the polls until
  the next of them arrives.
\<close>

locale jtag_duplex = jtag_port +
  fixes pending :: "'a \<Rightarrow> u8 list" and latency :: "'a \<Rightarrow> nat"
  assumes data_keeps: "ready d \<Longrightarrow> IORD_DATA b base d = (v, d') \<Longrightarrow> ready d' \<and> emitted d' = emitted d"
    and data_valid: "ready d \<Longrightarrow> IORD_DATA b base d = (v, d') \<Longrightarrow> v AND DATA_RVALID_MSK \<noteq> 0 \<Longrightarrow>
      pending d = ucast (v AND DATA_DATA_MSK) # pending d'"
    and data_invalid: "ready d \<Longrightarrow> IORD_DATA b base d = (v, d') \<Longrightarrow> v AND DATA_RVALID_MSK = 0 \<Longrightarrow>
      pending d' = pending d \<and> (pending d \<noteq> [] \<longrightarrow> latency d' < latency d)"
begin

text \<open>Once something has arrived the loop takes what is there and no more than fits.\<close>

lemma small_read_loop_started:
  "ready d \<Longrightarrow> got \<noteq> [] \<Longrightarrow> int (length got) \<le> sint space \<Longrightarrow>
   \<exists>new d'. small_read_loop b base space flags got d = returns (got @ new, d') \<and> ready d' \<and>
     emitted d' = emitted d \<and> pending d = new @ pending d' \<and> int (length (got @ new)) \<le> sint space"
proof (induction "nat (sint space) - length got" arbitrary: got d rule: less_induct)
  case less
  show ?case
  proof (cases "int (length got) < sint space")
    case False
    then show ?thesis using less.prems by (subst small_read_loop.simps) simp
  next
    case room: True
    obtain v d1 where r: "IORD_DATA b base d = (v, d1)" by fastforce
    note d1 = data_keeps[OF less.prems(1) r]
    show ?thesis
    proof (cases "v AND DATA_RVALID_MSK = 0")
      case True
      then show ?thesis using less.prems room r d1 data_invalid[OF less.prems(1) r True]
        by (subst small_read_loop.simps) simp
    next
      case False
      let ?c = "ucast (v AND DATA_DATA_MSK) :: u8"
      note p = data_valid[OF less.prems(1) r False]
      have step: "small_read_loop b base space flags got d = small_read_loop b base space flags (got @ [?c]) d1"
        using room r False by (subst small_read_loop.simps) (simp add: DATA_DATA_OFST_def)
      have "\<exists>new d'. small_read_loop b base space flags (got @ [?c]) d1 = returns ((got @ [?c]) @ new, d') \<and>
          ready d' \<and> emitted d' = emitted d1 \<and> pending d1 = new @ pending d' \<and>
          int (length ((got @ [?c]) @ new)) \<le> sint space"
        by (rule less.hyps) (use room d1 in auto)
      then obtain new d' where "small_read_loop b base space flags (got @ [?c]) d1 = returns ((got @ [?c]) @ new, d')"
          "ready d'" "emitted d' = emitted d1" "pending d1 = new @ pending d'"
          "int (length ((got @ [?c]) @ new)) \<le> sint space" by blast
      then show ?thesis using step p d1 by (intro exI[of _ "?c # new"] exI[of _ d']) simp
    qed
  qed
qed

lemma small_read_loop_waits:
  "ready d \<Longrightarrow> pending d \<noteq> [] \<Longrightarrow> 0 < sint space \<Longrightarrow> flags AND O_NONBLOCK = 0 \<Longrightarrow>
   \<exists>new d'. small_read_loop b base space flags [] d = returns (new, d') \<and> new \<noteq> [] \<and> ready d' \<and>
     emitted d' = emitted d \<and> pending d = new @ pending d' \<and> int (length new) \<le> sint space"
proof (induction "latency d" arbitrary: d rule: less_induct)
  case less
  obtain v d1 where r: "IORD_DATA b base d = (v, d1)" by fastforce
  note d1 = data_keeps[OF less.prems(1) r]
  show ?case
  proof (cases "v AND DATA_RVALID_MSK = 0")
    case True
    then have "small_read_loop b base space flags [] d = small_read_loop b base space flags [] d1"
      using less.prems(3,4) r by (subst small_read_loop.simps) simp
    then show ?thesis
      using less.hyps[of d1] less.prems d1 data_invalid[OF less.prems(1) r True] by auto
  next
    case False
    let ?c = "ucast (v AND DATA_DATA_MSK) :: u8"
    have step: "small_read_loop b base space flags [] d = small_read_loop b base space flags [?c] d1"
      using less.prems(3) r False by (subst small_read_loop.simps) (simp add: DATA_DATA_OFST_def)
    have "int (length [?c]) \<le> sint space" using less.prems(3) by simp
    from small_read_loop_started[OF conjunct1[OF d1] _ this, of flags] show ?thesis
      using step d1 data_valid[OF less.prems(1) r False] by fastforce
  qed
qed

lemma read_blocks_for_input:
  assumes "ready d" and "pending d \<noteq> []" and "0 < sint space" and "flags AND O_NONBLOCK = 0"
  shows "\<exists>new d'. altera_avalon_jtag_uart_read b base space flags d = returns (of_nat (length new), new, d') \<and>
    new \<noteq> [] \<and> pending d = new @ pending d' \<and> int (length new) \<le> sint space \<and> emitted d' = emitted d \<and> ready d'"
  using small_read_loop_waits[OF assms] by (auto simp: altera_avalon_jtag_uart_read_def)

end

section \<open>A core with its host\<close>

text \<open>
  The core as the IP manual describes it: a FIFO of 64 bytes to the host, in which a byte that is
  written when it is full is lost, and a FIFO from the host whose next byte arrives after a number
  of polls.
\<close>

record jtag_fifos =
  tx_fifo :: "u8 list"
  host_log :: "u8 list"
  rx_script :: "(nat \<times> u8) list"

text \<open>
  The host takes bytes on a schedule of its own, which is arbitrary but for one thing: it does not
  stop for good.  \<open>host_idle\<close> is the number of polls of the control register before it next takes
  something, and \<open>host_plan k\<close> says how many bytes beyond one it takes then (if so many are
  there) and how many polls it pauses after that.
\<close>

record jtag_core = jtag_fifos +
  host_idle :: nat
  host_turn :: nat
  host_plan :: "nat \<Rightarrow> nat \<times> nat"

definition host_step :: "jtag_core \<Rightarrow> jtag_core" where
  "host_step d =
     (case host_idle d of
        Suc n \<Rightarrow> d\<lparr>host_idle := n\<rparr>
      | 0 \<Rightarrow> (case host_plan d (host_turn d) of (n, pause) \<Rightarrow>
          d\<lparr>tx_fifo := drop (Suc n) (tx_fifo d), host_log := host_log d @ take (Suc n) (tx_fifo d),
            host_idle := pause, host_turn := Suc (host_turn d)\<rparr>))"

definition JTAG_UART_0_BASE :: cint where "JTAG_UART_0_BASE = 0x41048"

definition core_read :: "cint \<Rightarrow> jtag_core \<Rightarrow> cint \<Rightarrow> cint \<times> jtag_core" where
  "core_read base d a =
     (if a = base then
        (case rx_script d of
           [] \<Rightarrow> (0, d)
         | (0, c) # r \<Rightarrow> (0x8000 OR ucast c, d\<lparr>rx_script := r\<rparr>)
         | (Suc n, c) # r \<Rightarrow> (0, d\<lparr>rx_script := (n, c) # r\<rparr>))
      else (let d = host_step d in (push_bit 16 (of_nat (64 - length (tx_fifo d))), d)))"

definition core_write :: "cint \<Rightarrow> jtag_core \<Rightarrow> cint \<Rightarrow> cint \<Rightarrow> jtag_core" where
  "core_write base d a v =
     (if a = base \<and> length (tx_fifo d) < 64 then d\<lparr>tx_fifo := tx_fifo d @ [ucast v]\<rparr> else d)"

definition core_bus :: "cint \<Rightarrow> jtag_core bus" where
  "core_bus base = \<lparr>ldwio = core_read base, stwio = core_write base\<rparr>"

definition core_ready :: "jtag_core \<Rightarrow> bool" where
  "core_ready d \<longleftrightarrow> length (tx_fifo d) \<le> 64"

definition core_emitted :: "jtag_core \<Rightarrow> u8 list" where
  "core_emitted d = host_log d @ tx_fifo d"

lemma wspace_all:
  "list_all (\<lambda>n. (push_bit 16 (of_nat n :: cint) AND CONTROL_WSPACE_MSK = 0) = (n = 0)) [0..<65]"
  by code_simp

lemma wspace: "n \<le> 64 \<Longrightarrow> push_bit 16 (of_nat n :: cint) AND CONTROL_WSPACE_MSK = 0 \<longleftrightarrow> n = 0"
  using wspace_all by (simp add: list_all_iff)

lemma rvalid: "(0x8000 OR ucast (c :: u8)) AND DATA_RVALID_MSK \<noteq> (0 :: cint)"
proof
  assume "(0x8000 OR ucast c) AND DATA_RVALID_MSK = (0 :: cint)"
  then have "\<not> bit ((0x8000 OR ucast c) AND DATA_RVALID_MSK :: cint) 15" by simp
  then show False by (simp add: DATA_RVALID_MSK_def bit_and_iff bit_or_iff)
qed

lemma rdata: "ucast ((0x8000 OR ucast (c :: u8)) AND DATA_DATA_MSK :: cint) = c"
proof -
  have "(0x8000 OR ucast c) AND DATA_DATA_MSK = (take_bit 8 (ucast c) :: cint)"
    by (simp add: DATA_DATA_MSK_def and_masks take_bit_or)
  moreover have "ucast (take_bit 8 (ucast c :: cint)) = c"
    by (rule word_eqI_bits) (simp add: bit_unsigned_iff bit_take_bit_iff)
  ultimately show ?thesis by simp
qed

lemma control_addr: "IO_CALC_ADDRESS_NATIVE base CONTROL_REG \<noteq> base" "IO_CALC_ADDRESS_NATIVE base DATA_REG = base"
  by (simp_all add: IO_CALC_ADDRESS_NATIVE_def CONTROL_REG_def DATA_REG_def)

lemma host_step_keeps:
  "length (tx_fifo (host_step d)) \<le> length (tx_fifo d)" "core_emitted (host_step d) = core_emitted d"
  "length (tx_fifo (host_step d)) = 64 \<Longrightarrow> length (tx_fifo d) \<le> 64 \<Longrightarrow> host_idle (host_step d) < host_idle d"
  by (auto simp: host_step_def core_emitted_def split: nat.splits prod.splits)

interpretation core: jtag_duplex "core_bus base" base core_ready core_emitted host_idle
    "\<lambda>d. map snd (rx_script d)" "\<lambda>d. fst (hd (rx_script d))"
proof
  fix d :: jtag_core and v d' x
  assume r: "core_ready d" and c: "IORD_CONTROL (core_bus base) base d = (v, d')"
  have d': "d' = host_step d" and v: "v = push_bit 16 (of_nat (64 - length (tx_fifo d')))"
    using c by (auto simp: IORD_CONTROL_def IORD_def core_bus_def core_read_def control_addr Let_def)
  have len: "length (tx_fifo d) \<le> 64" "length (tx_fifo d') \<le> 64"
    using r host_step_keeps(1)[of d] by (simp_all add: d' core_ready_def)
  then show "core_ready d' \<and> core_emitted d' = core_emitted d"
    by (simp add: core_ready_def) (simp add: d' host_step_keeps)
  have full: "v AND CONTROL_WSPACE_MSK = 0 \<longleftrightarrow> length (tx_fifo d') = 64"
    using wspace[of "64 - length (tx_fifo d')"] len(2) by (auto simp: v)
  show "host_idle d' < host_idle d" if "v AND CONTROL_WSPACE_MSK = 0"
    using that full host_step_keeps(3)[of d] len(1) by (simp add: d')
  show "core_ready (IOWR_DATA (core_bus base) base x d') \<and>
      core_emitted (IOWR_DATA (core_bus base) base x d') = core_emitted d' @ [ucast x]"
    if "v AND CONTROL_WSPACE_MSK \<noteq> 0"
    using that full len
    by (auto simp: core_ready_def core_emitted_def IOWR_DATA_def IOWR_def core_bus_def core_write_def control_addr)
next
  fix d :: jtag_core and v d'
  assume r: "core_ready d" and c: "IORD_DATA (core_bus base) base d = (v, d')"
  note defs = IORD_DATA_def IORD_def core_bus_def core_read_def control_addr
  show "core_ready d' \<and> core_emitted d' = core_emitted d"
    using r c by (auto simp: defs core_ready_def core_emitted_def split: list.splits prod.splits nat.splits)
  show "map snd (rx_script d) = ucast (v AND DATA_DATA_MSK) # map snd (rx_script d')"
    if "v AND DATA_RVALID_MSK \<noteq> 0"
    using that c by (auto simp: defs rdata split: list.splits prod.splits nat.splits)
  show "map snd (rx_script d') = map snd (rx_script d) \<and>
      (map snd (rx_script d) \<noteq> [] \<longrightarrow> fst (hd (rx_script d')) < fst (hd (rx_script d)))"
    if "v AND DATA_RVALID_MSK = 0"
    using that c rvalid by (auto simp: defs split: list.splits prod.splits nat.splits)
qed

text \<open>C38. On the JTAG UART the polled driver returns the count it was given and has sent exactly
  those bytes, in order and none lost, whatever was in the FIFO before (a full one included) and
  whatever the schedule on which the host takes bytes, as long as it does not stop for good.\<close>

theorem small_write_sends:
  assumes "length (tx_fifo d) \<le> 64" and "0 \<le> sint count" and "nat (sint count) \<le> length ptr"
  shows "\<exists>d'. altera_avalon_jtag_uart_write (core_bus base) base ptr count flags d = returns (count, d') \<and>
    host_log d' @ tx_fifo d' = host_log d @ tx_fifo d @ take (nat (sint count)) ptr"
  using core.small_write_loop_emits[of d 0 count ptr base] assms
  by (auto simp: altera_avalon_jtag_uart_write_def core_ready_def core_emitted_def)

lemma small_write_sends_witness:
  "\<exists>d'. altera_avalon_jtag_uart_write (core_bus 0x41048) 0x41048 (replicate 100 7) 100 0
      \<lparr>tx_fifo = replicate 64 1, host_log = [], rx_script = [],
       host_idle = 5, host_turn = 0, host_plan = (\<lambda>k. (k mod 3, k))\<rparr> = returns (100, d') \<and>
    host_log d' @ tx_fifo d' = replicate 64 1 @ replicate 100 7"
  using small_write_sends[of "\<lparr>tx_fifo = replicate 64 1, host_log = [], rx_script = [],
       host_idle = 5, host_turn = 0, host_plan = (\<lambda>k. (k mod 3, k))\<rparr>" 100 "replicate 100 7"] by simp

text \<open>A core at reset, for concrete runs: its host first pauses, then takes bytes at every other poll.\<close>

definition core_at_reset :: "(nat \<times> u8) list \<Rightarrow> jtag_core" where
  "core_at_reset script = \<lparr>tx_fifo = [], host_log = [], rx_script = script, host_idle = 3, host_turn = 0, host_plan = (\<lambda>k. (0, 1))\<rparr>"

lemma core_at_reset_simps [simp]:
  "tx_fifo (core_at_reset script) = []" "host_log (core_at_reset script) = []" "rx_script (core_at_reset script) = script"
  by (simp_all add: core_at_reset_def)

text \<open>A blocking read on the JTAG UART waits until the host sends and then returns a
  non-empty prefix of what it sends, no longer than the space given, and loses nothing.\<close>

theorem small_read_receives:
  assumes "length (tx_fifo d) \<le> 64" and "rx_script d \<noteq> []" and "0 < sint space" and "flags AND O_NONBLOCK = 0"
  shows "\<exists>new d'. altera_avalon_jtag_uart_read (core_bus base) base space flags d =
      returns (of_nat (length new), new, d') \<and> new \<noteq> [] \<and>
    map snd (rx_script d) = new @ map snd (rx_script d') \<and> int (length new) \<le> sint space"
  using core.read_blocks_for_input[of d space flags base] assms by (auto simp: core_ready_def)

lemma small_read_receives_witness:
  "\<exists>new d'. altera_avalon_jtag_uart_read (core_bus 0x41048) 0x41048 10 0
      (core_at_reset [(3, 65), (0, 66), (1, 67)]) = returns (of_nat (length new), new, d') \<and>
    new \<noteq> [] \<and> [65, 66, 67] = new @ map snd (rx_script d') \<and> int (length new) \<le> 10"
  using small_read_receives[of "core_at_reset [(3, 65), (0, 66), (1, 67)]" 10 0] by simp

end
