(* ===== verification/Irq.thy ===== *)
theory Irq
  imports Fd
begin

text \<open>
  Interrupts: the control registers of the processor, the registration of handlers (the
  legacy and the enhanced interface of the HAL) and the dispatcher that the exception entry
  code calls.  The processor has the internal interrupt controller with 32 lines, no shadow
  register sets and no exception stack (system.h).

  The devices that drive the lines are the state \<open>'s\<close>; \<open>lines\<close> reads them.  Handlers
  are numbers, and the parameter \<open>H\<close> says what handler \<open>f\<close> does with its context.
\<close>

section \<open>Control registers\<close>

record ctl =
  ctl_status :: cint
  ctl_ienable :: cint

definition NIOS2_STATUS_PIE_MSK :: cint where "NIOS2_STATUS_PIE_MSK = 1"
definition ALT_NIRQ :: nat where "ALT_NIRQ = 32"

definition alt_irq_enabled :: "'a ctl_scheme \<Rightarrow> cint" where
  "alt_irq_enabled s = ctl_status s AND NIOS2_STATUS_PIE_MSK"

definition alt_irq_disable_all :: "'a ctl_scheme \<Rightarrow> cint \<times> 'a ctl_scheme" where
  "alt_irq_disable_all s =
     (let context = ctl_status s in (context, s\<lparr>ctl_status := context AND NOT NIOS2_STATUS_PIE_MSK\<rparr>))"

definition alt_irq_enable_all :: "cint \<Rightarrow> 'a ctl_scheme \<Rightarrow> 'a ctl_scheme" where
  "alt_irq_enable_all context s = s\<lparr>ctl_status := context\<rparr>"

definition alt_irq_cpu_enable_interrupts :: "'a ctl_scheme \<Rightarrow> 'a ctl_scheme" where
  "alt_irq_cpu_enable_interrupts s = s\<lparr>ctl_status := NIOS2_STATUS_PIE_MSK\<rparr>"

definition altera_nios2_gen2_irq_init :: "'a ctl_scheme \<Rightarrow> 'a ctl_scheme" where
  "altera_nios2_gen2_irq_init s = s\<lparr>ctl_ienable := 0\<rparr>"

definition alt_irq_init :: "'a ctl_scheme \<Rightarrow> 'a ctl_scheme" where
  "alt_irq_init s = alt_irq_cpu_enable_interrupts (altera_nios2_gen2_irq_init s)"

section \<open>Enabling one line\<close>

text \<open>The handler table; a handler may be \<open>NULL\<close>.\<close>

record irq_handler =
  handler :: "nat option"
  context_ptr :: nat

record 's irq_sys = ctl +
  alt_irq_active :: cint
  alt_priority_mask :: cint
  alt_irq :: "irq_handler list"
  devices :: 's

definition irq_reset :: "'s \<Rightarrow> 's irq_sys" where
  "irq_reset d = \<lparr>ctl_status = 0, ctl_ienable = 0, alt_irq_active = 0, alt_priority_mask = - 1,
     alt_irq = replicate ALT_NIRQ \<lparr>handler = None, context_ptr = 0\<rparr>, devices = d\<rparr>"

definition alt_irq_disable :: "cint \<Rightarrow> 's irq_sys \<Rightarrow> (cint \<times> 's irq_sys) outcome" where
  "alt_irq_disable irq_id s =
     (case alt_irq_disable_all s of (status, s) \<Rightarrow>
      and_then (defined_or_trap (c_shl 1 (unat irq_id))) (\<lambda>bit.
        (let s = s\<lparr>alt_irq_active := alt_irq_active s AND NOT bit\<rparr>;
             s = s\<lparr>ctl_ienable := alt_irq_active s\<rparr>
         in returns (0, alt_irq_enable_all status s))))"

definition alt_irq_enable :: "cint \<Rightarrow> 's irq_sys \<Rightarrow> (cint \<times> 's irq_sys) outcome" where
  "alt_irq_enable irq_id s =
     (case alt_irq_disable_all s of (status, s) \<Rightarrow>
      and_then (defined_or_trap (c_shl 1 (unat irq_id))) (\<lambda>bit.
        (let s = s\<lparr>alt_irq_active := alt_irq_active s OR bit\<rparr>;
             s = s\<lparr>ctl_ienable := alt_irq_active s\<rparr>
         in returns (0, alt_irq_enable_all status s))))"

definition alt_ic_irq_enable :: "cint \<Rightarrow> cint \<Rightarrow> 's irq_sys \<Rightarrow> (cint \<times> 's irq_sys) outcome" where
  "alt_ic_irq_enable ic_id irq s = alt_irq_enable irq s"

definition alt_ic_irq_disable :: "cint \<Rightarrow> cint \<Rightarrow> 's irq_sys \<Rightarrow> (cint \<times> 's irq_sys) outcome" where
  "alt_ic_irq_disable ic_id irq s = alt_irq_disable irq s"

definition alt_ic_irq_enabled :: "cint \<Rightarrow> cint \<Rightarrow> 's irq_sys \<Rightarrow> cint outcome" where
  "alt_ic_irq_enabled ic_id irq s =
     and_then (defined_or_trap (c_shl 1 (unat irq))) (\<lambda>bit.
       returns (if ctl_ienable s AND bit \<noteq> 0 then 1 else 0))"

definition alt_irq_interruptible :: "cint \<Rightarrow> 's irq_sys \<Rightarrow> (cint \<times> 's irq_sys) outcome" where
  "alt_irq_interruptible priority s =
     (let old_priority = alt_priority_mask s
      in and_then (defined_or_trap (c_shl 1 (unat priority))) (\<lambda>bit.
        (let s = s\<lparr>alt_priority_mask := bit - 1\<rparr>;
             s = s\<lparr>ctl_ienable := alt_irq_active s AND alt_priority_mask s\<rparr>
         in returns (old_priority, s\<lparr>ctl_status := 1\<rparr>))))"

definition alt_irq_non_interruptible :: "cint \<Rightarrow> 's irq_sys \<Rightarrow> 's irq_sys" where
  "alt_irq_non_interruptible msk s =
     s\<lparr>ctl_status := 0, alt_priority_mask := msk, ctl_ienable := msk AND alt_irq_active s\<rparr>"

section \<open>Registration\<close>

definition alt_irq_register :: "cint \<Rightarrow> nat \<Rightarrow> nat option \<Rightarrow> 's irq_sys \<Rightarrow> (cint \<times> 's irq_sys) outcome" where
  "alt_irq_register irq_id context h s =
     (if unat irq_id < ALT_NIRQ then
        (case alt_irq_disable_all s of (status, s) \<Rightarrow>
         and_then (defined_or_trap (arr_set (alt_irq s) (unat irq_id) \<lparr>handler = h, context_ptr = context\<rparr>)) (\<lambda>table.
           (let s = s\<lparr>alt_irq := table\<rparr>
            in and_then (if h \<noteq> None then alt_irq_enable irq_id s else alt_irq_disable irq_id s) (\<lambda>(rc, s).
              returns (rc, alt_irq_enable_all status s)))))
      else returns (- EINVAL, s))"

text \<open>Here the number is an \<open>int\<close>: a negative one passes the check and indexes before the table.\<close>

definition alt_iic_isr_register ::
  "cint \<Rightarrow> cint \<Rightarrow> nat option \<Rightarrow> nat \<Rightarrow> 's irq_sys \<Rightarrow> (cint \<times> 's irq_sys) outcome" where
  "alt_iic_isr_register ic_id irq isr isr_context s =
     (let irq_id = irq
      in if sint irq_id < int ALT_NIRQ then
        (case alt_irq_disable_all s of (status, s) \<Rightarrow>
         and_then (if sint irq_id < 0 then undefined_run
                   else defined_or_trap
                     (arr_set (alt_irq s) (nat (sint irq_id)) \<lparr>handler = isr, context_ptr = isr_context\<rparr>)) (\<lambda>table.
           (let s = s\<lparr>alt_irq := table\<rparr>
            in and_then (if isr \<noteq> None then alt_ic_irq_enable ic_id irq_id s else alt_ic_irq_disable ic_id irq_id s)
              (\<lambda>(rc, s). returns (rc, alt_irq_enable_all status s)))))
      else returns (- EINVAL, s))"

definition alt_ic_isr_register ::
  "cint \<Rightarrow> cint \<Rightarrow> nat option \<Rightarrow> nat \<Rightarrow> 's irq_sys \<Rightarrow> (cint \<times> 's irq_sys) outcome" where
  "alt_ic_isr_register ic_id irq isr isr_context s = alt_iic_isr_register ic_id irq isr isr_context s"

section \<open>Dispatch\<close>

text \<open>\<open>ipending\<close> shows the lines that are active and enabled.\<close>

definition alt_irq_pending :: "('s \<Rightarrow> cint) \<Rightarrow> 's irq_sys \<Rightarrow> cint" where
  "alt_irq_pending lines s = lines (devices s) AND ctl_ienable s"

text \<open>The inner loop: with no bit set in \<open>active\<close> it never ends.\<close>

partial_function (option) irq_find_loop :: "cint \<Rightarrow> cint \<Rightarrow> cint \<Rightarrow> cint option" where
  "irq_find_loop active msk i =
     (if active AND msk \<noteq> 0 then Some i else irq_find_loop active (push_bit 1 msk) (i + 1))"

text \<open>A call through the table; calling \<open>NULL\<close> is undefined.\<close>

definition call_handler ::
  "(nat \<Rightarrow> nat \<Rightarrow> 's irq_sys \<Rightarrow> 's irq_sys outcome) \<Rightarrow> cint \<Rightarrow> 's irq_sys \<Rightarrow> 's irq_sys outcome" where
  "call_handler H i s =
     and_then (defined_or_trap (arr_get (alt_irq s) (unat i))) (\<lambda>e.
     and_then (defined_or_trap (handler e)) (\<lambda>f. H f (context_ptr e) s))"

partial_function (option) irq_handler_loop ::
  "('s \<Rightarrow> cint) \<Rightarrow> (nat \<Rightarrow> nat \<Rightarrow> 's irq_sys \<Rightarrow> 's irq_sys outcome) \<Rightarrow> cint \<Rightarrow> 's irq_sys \<Rightarrow> 's irq_sys outcome" where
  "irq_handler_loop lines H active s =
     (case irq_find_loop active 1 0 of
        None \<Rightarrow> None
      | Some i \<Rightarrow>
          and_then (call_handler H i s) (\<lambda>s.
          if alt_irq_pending lines s \<noteq> 0 then irq_handler_loop lines H (alt_irq_pending lines s) s
          else returns s))"

definition alt_irq_handler ::
  "('s \<Rightarrow> cint) \<Rightarrow> (nat \<Rightarrow> nat \<Rightarrow> 's irq_sys \<Rightarrow> 's irq_sys outcome) \<Rightarrow> 's irq_sys \<Rightarrow> 's irq_sys outcome" where
  "alt_irq_handler lines H s = irq_handler_loop lines H (alt_irq_pending lines s) s"

section \<open>The dispatcher serves the lowest line first\<close>

definition lowest_line :: "cint \<Rightarrow> nat \<Rightarrow> bool" where
  "lowest_line w k \<longleftrightarrow> bit w k \<and> (\<forall>j < k. \<not> bit w j)"

lemma lowest_line_exists: "w \<noteq> 0 \<Longrightarrow> \<exists>k < 32. lowest_line w k"
proof -
  assume "w \<noteq> 0"
  then have "\<exists>k. bit w k" by (metis bit_eqI bit_0_eq bot_apply bot_bool_def)
  then obtain k where k: "bit w k" "\<forall>j < k. \<not> bit w j" using exists_least_iff[of "bit w"] by blast
  moreover have "k < 32" using bit_imp_le_length[OF k(1)] by simp
  ultimately show ?thesis by (auto simp: lowest_line_def)
qed

lemma irq_find_loop_finds:
  "lowest_line active k \<Longrightarrow> i \<le> k \<Longrightarrow> k < 32 \<Longrightarrow>
   irq_find_loop active (push_bit i 1) (of_nat i) = Some (of_nat k)"
proof (induction "k - i" arbitrary: i)
  case 0
  then have "i = k" by simp
  then show ?case using 0
    by (subst irq_find_loop.simps) (simp add: push_bit_eq_mult and_exp lowest_line_def)
next
  case (Suc n)
  have "\<not> bit active i" using Suc by (simp add: lowest_line_def)
  then have "active AND push_bit i 1 = 0" by (simp add: push_bit_eq_mult and_exp)
  then have "irq_find_loop active (push_bit i 1) (of_nat i) =
      irq_find_loop active (push_bit (Suc i) 1) (of_nat (Suc i))"
    by (subst irq_find_loop.simps) (simp add: push_bit_push_bit add.commute mult.commute)
  then show ?case using Suc.hyps(1)[of "Suc i"] Suc.hyps(2) Suc.prems by simp
qed

lemma irq_find_lowest: "lowest_line active k \<Longrightarrow> k < 32 \<Longrightarrow> irq_find_loop active 1 0 = Some (of_nat k)"
  using irq_find_loop_finds[of active k 0] by simp

text \<open>The lines of a mask, in ascending order.\<close>

definition lines_of :: "cint \<Rightarrow> nat list" where
  "lines_of w = filter (bit w) [0..<32]"

lemma lines_of_lowest:
  assumes "lowest_line w k" and "k < 32"
  shows "lines_of w = k # lines_of (w AND NOT (2 ^ k))"
proof -
  have "[0..<k + (32 - k)] = [0..<k] @ [k..<k + (32 - k)]" by (rule upt_add_eq_append) simp
  then have split: "[0..<32] = [0..<k] @ k # [Suc k..<32]"
    using assms(2) by (simp add: upt_conv_Cons)
  have low: "filter (bit w) [0..<k] = []" "filter (bit (w AND NOT (2 ^ k))) [0..<k] = []"
    using assms(1) by (auto simp: lowest_line_def filter_empty_conv bit_and_iff)
  have high: "filter (bit (w AND NOT (2 ^ k))) [Suc k..<32] = filter (bit w) [Suc k..<32]"
    by (rule filter_cong) (auto simp: bit_and_iff bit_not_iff bit_exp_iff)
  show ?thesis using assms low high
    by (simp add: lines_of_def split lowest_line_def bit_and_iff bit_not_iff bit_exp_iff)
qed

lemma lines_of_0 [simp]: "lines_of 0 = []"
  by (simp add: lines_of_def)

lemma irq_handler_loop_serves:
  assumes serve: "\<And>k s. lowest_line (alt_irq_pending lines s) k \<Longrightarrow> J s \<Longrightarrow>
      \<exists>s'. call_handler H (of_nat k) s = returns s' \<and> J s' \<and> served s' = served s @ [k] \<and>
        alt_irq_pending lines s' = alt_irq_pending lines s AND NOT (2 ^ k)"
  shows "alt_irq_pending lines s \<noteq> 0 \<Longrightarrow> J s \<Longrightarrow>
    \<exists>s'. irq_handler_loop lines H (alt_irq_pending lines s) s = returns s' \<and> J s' \<and>
      alt_irq_pending lines s' = 0 \<and> served s' = served s @ lines_of (alt_irq_pending lines s)"
proof (induction "length (lines_of (alt_irq_pending lines s))" arbitrary: s rule: less_induct)
  case less
  obtain k where k: "k < 32" "lowest_line (alt_irq_pending lines s) k"
    using lowest_line_exists[OF less.prems(1)] by blast
  obtain s1 where s1: "call_handler H (of_nat k) s = returns s1" "J s1" "served s1 = served s @ [k]"
    "alt_irq_pending lines s1 = alt_irq_pending lines s AND NOT (2 ^ k)"
    using serve[OF k(2) less.prems(2)] by blast
  have low: "lines_of (alt_irq_pending lines s) = k # lines_of (alt_irq_pending lines s1)"
    unfolding s1(4) by (rule lines_of_lowest[OF k(2,1)])
  have step: "irq_handler_loop lines H (alt_irq_pending lines s) s =
      (if alt_irq_pending lines s1 \<noteq> 0 then irq_handler_loop lines H (alt_irq_pending lines s1) s1
       else returns s1)"
    using s1(1) by (subst irq_handler_loop.simps) (simp add: irq_find_lowest[OF k(2,1)])
  show ?case
  proof (cases "alt_irq_pending lines s1 = 0")
    case True
    then have "irq_handler_loop lines H (alt_irq_pending lines s) s = returns s1" using step by simp
    moreover have "served s1 = served s @ lines_of (alt_irq_pending lines s)"
      unfolding s1(3) low True by simp
    ultimately show ?thesis using s1(2) True by blast
  next
    case False
    have "length (lines_of (alt_irq_pending lines s1)) < length (lines_of (alt_irq_pending lines s))"
      by (simp add: low)
    from less.hyps[OF this False s1(2)] obtain s' where s':
      "irq_handler_loop lines H (alt_irq_pending lines s1) s1 = returns s'" "J s'"
      "alt_irq_pending lines s' = 0" "served s' = served s1 @ lines_of (alt_irq_pending lines s1)" by blast
    have "irq_handler_loop lines H (alt_irq_pending lines s) s = returns s'"
      using step False s'(1) by simp
    moreover have "served s' = served s @ lines_of (alt_irq_pending lines s)"
      unfolding s'(4) s1(3) low by simp
    ultimately show ?thesis using s'(2,3) by blast
  qed
qed

text \<open>C40. When every handler silences its own line and no other, the dispatcher returns with
  nothing pending, and has called the handlers of all pending lines once each, in ascending
  order of their numbers.\<close>

theorem alt_irq_handler_serves:
  assumes "alt_irq_pending lines s \<noteq> 0" and "J s"
    and "\<And>k s. lowest_line (alt_irq_pending lines s) k \<Longrightarrow> J s \<Longrightarrow>
      \<exists>s'. call_handler H (of_nat k) s = returns s' \<and> J s' \<and> served s' = served s @ [k] \<and>
        alt_irq_pending lines s' = alt_irq_pending lines s AND NOT (2 ^ k)"
  shows "\<exists>s'. alt_irq_handler lines H s = returns s' \<and> alt_irq_pending lines s' = 0 \<and>
    served s' = served s @ lines_of (alt_irq_pending lines s)"
  using irq_handler_loop_serves[where s = s, OF assms(3) assms(1,2)] by (auto simp: alt_irq_handler_def)

text \<open>Devices whose handlers write a log and drop their line.\<close>

definition log_handler :: "nat \<Rightarrow> nat \<Rightarrow> (cint \<times> nat list) irq_sys \<Rightarrow> (cint \<times> nat list) irq_sys outcome" where
  "log_handler f n s =
     returns (s\<lparr>devices := (fst (devices s) AND NOT (2 ^ n), snd (devices s) @ [n])\<rparr>)"

definition three_lines :: "(cint \<times> nat list) irq_sys" where
  "three_lines = (irq_reset (2 ^ 17 + 2 ^ 3 + 1, []))\<lparr>ctl_ienable := - 1,
     alt_irq := map (\<lambda>n. \<lparr>handler = Some 0, context_ptr = n\<rparr>) [0..<32]\<rparr>"

lemma log_handler_serves:
  assumes low: "lowest_line (alt_irq_pending fst s) k"
    and inv: "alt_irq s = alt_irq three_lines \<and> ctl_ienable s = - 1"
  shows "\<exists>s'. call_handler log_handler (of_nat k) s = returns s' \<and>
    (alt_irq s' = alt_irq three_lines \<and> ctl_ienable s' = - 1) \<and> snd (devices s') = snd (devices s) @ [k] \<and>
    alt_irq_pending fst s' = alt_irq_pending fst s AND NOT (2 ^ k)"
proof -
  have "k < 32" using low bit_imp_le_length by (force simp: lowest_line_def)
  then have "call_handler log_handler (of_nat k) s = log_handler 0 k s"
    using inv by (simp add: call_handler_def three_lines_def unat_of_nat)
  then show ?thesis using inv by (simp add: log_handler_def alt_irq_pending_def)
qed

lemma alt_irq_handler_serves_witness:
  "\<exists>s'. alt_irq_handler fst log_handler three_lines = returns s' \<and> alt_irq_pending fst s' = 0 \<and>
    snd (devices s') = [0, 3, 17]"
proof -
  let ?J = "\<lambda>s :: (cint \<times> nat list) irq_sys. alt_irq s = alt_irq three_lines \<and> ctl_ienable s = - 1"
  have "\<exists>s'. alt_irq_handler fst log_handler three_lines = returns s' \<and> alt_irq_pending fst s' = 0 \<and>
    snd (devices s') = snd (devices three_lines) @ lines_of (alt_irq_pending fst three_lines)"
  proof (rule alt_irq_handler_serves[of fst three_lines ?J log_handler "\<lambda>s. snd (devices s)"])
    fix k s
    assume "lowest_line (alt_irq_pending fst s) k" "?J s"
    then show "\<exists>s'. call_handler log_handler (of_nat k) s = returns s' \<and> ?J s' \<and>
        snd (devices s') = snd (devices s) @ [k] \<and>
        alt_irq_pending fst s' = alt_irq_pending fst s AND NOT (2 ^ k)" by (rule log_handler_serves)
  qed (simp_all add: three_lines_def alt_irq_pending_def irq_reset_def)
  moreover have "lines_of (alt_irq_pending fst three_lines) = [0, 3, 17]" by code_simp
  moreover have "snd (devices three_lines) = []" by (simp add: three_lines_def irq_reset_def)
  ultimately show ?thesis by simp
qed

section \<open>Registration, line by line\<close>

lemma enable_line:
  "unat n < 32 \<Longrightarrow> alt_irq_enable n s =
     returns (0, s\<lparr>alt_irq_active := alt_irq_active s OR 2 ^ unat n, ctl_ienable := alt_irq_active s OR 2 ^ unat n\<rparr>)"
  by (simp add: alt_irq_enable_def alt_irq_disable_all_def alt_irq_enable_all_def Let_def push_bit_eq_mult)

lemma disable_line:
  "unat n < 32 \<Longrightarrow> alt_irq_disable n s =
     returns (0, s\<lparr>alt_irq_active := alt_irq_active s AND NOT (2 ^ unat n), ctl_ienable := alt_irq_active s AND NOT (2 ^ unat n)\<rparr>)"
  by (simp add: alt_irq_disable_def alt_irq_disable_all_def alt_irq_enable_all_def Let_def push_bit_eq_mult)

lemma sint_small:
  assumes "unat (n :: cint) < 2 ^ 31"
  shows "sint n = int (unat n)"
proof -
  have "int (unat n) < int (2 ^ 31)" using assms by (simp only: of_nat_less_iff)
  then have "uint n < 2 ^ 31" by simp
  moreover have "0 \<le> uint n" by simp
  ultimately have "signed_take_bit 31 (uint n) = uint n" by (intro signed_take_bit_int_eq_self) linarith+
  then show ?thesis by (simp add: sint_uint)
qed

text \<open>Registering a handler for a line below 32 returns 0, fills the table entry, enables the
  line exactly when the handler is not NULL, leaves the other lines as recorded and the
  global interrupt enable as it was.\<close>

theorem alt_ic_isr_register_line:
  assumes "unat irq < 32" and "length (alt_irq s) = ALT_NIRQ"
  shows "\<exists>s'. alt_ic_isr_register ic_id irq isr isr_context s = returns (0, s') \<and>
    alt_irq s' = (alt_irq s)[unat irq := \<lparr>handler = isr, context_ptr = isr_context\<rparr>] \<and>
    ctl_status s' = ctl_status s \<and> devices s' = devices s \<and>
    (\<forall>n. bit (ctl_ienable s') n = (if n = unat irq then isr \<noteq> None else bit (alt_irq_active s) n))"
proof -
  have len: "unat irq < length (alt_irq s)" using assms by (simp add: ALT_NIRQ_def)
  have "sint irq = int (unat irq)" using assms(1) by (intro sint_small) simp
  then have n: "nat (sint irq) = unat irq" "sint irq < int ALT_NIRQ" "\<not> sint irq < 0"
    using assms(1) by (simp_all only: nat_int ALT_NIRQ_def of_nat_less_iff of_nat_less_0_iff) simp_all
  show ?thesis using assms(1) len
    by (cases isr)
       (auto simp: alt_ic_isr_register_def alt_iic_isr_register_def Let_def alt_irq_disable_all_def n
        alt_ic_irq_enable_def alt_ic_irq_disable_def enable_line disable_line
        alt_irq_enable_all_def bit_and_iff bit_or_iff bit_not_iff bit_exp_iff dest: bit_imp_le_length)
qed

lemma alt_ic_isr_register_line_witness:
  "\<exists>s'. alt_ic_isr_register 0 5 (Some 1) 7 (irq_reset ()) = returns (0, s') \<and>
    alt_irq s' = (alt_irq (irq_reset ()))[unat (5 :: cint) := \<lparr>handler = Some 1, context_ptr = 7\<rparr>] \<and>
    ctl_status s' = ctl_status (irq_reset ()) \<and> devices s' = devices (irq_reset ()) \<and>
    (\<forall>n. bit (ctl_ienable s') n = (if n = unat (5 :: cint) then Some (1 :: nat) \<noteq> None else bit (alt_irq_active (irq_reset ())) n))"
  by (rule alt_ic_isr_register_line) (simp_all add: irq_reset_def)

text \<open>The two registration functions differ in the type of the number: above 2^31 the
  legacy one reports -EINVAL and the enhanced one writes outside the handler table; between
  32 and 2^31 both report the error.\<close>

theorem isr_register_range:
  assumes "32 \<le> unat irq"
  shows "alt_irq_register irq ctx isr s = returns (- EINVAL, s) \<and>
    alt_ic_isr_register ic_id irq isr ctx s =
      (if unat irq < 2 ^ 31 then returns (- EINVAL, s) else undefined_run)"
proof (cases "unat irq < 2 ^ 31")
  case True
  then have "sint irq = int (unat irq)" by (rule sint_small)
  then have "\<not> sint irq < int ALT_NIRQ" using assms by (simp only: ALT_NIRQ_def of_nat_less_iff not_less)
  then show ?thesis using assms True
    by (simp add: alt_irq_register_def alt_ic_isr_register_def alt_iic_isr_register_def ALT_NIRQ_def Let_def)
next
  case False
  have "sint irq < 0"
  proof (rule ccontr)
    assume "\<not> sint irq < 0"
    then have "uint irq = sint irq" by (simp add: uint_sint_nonneg)
    then have "uint irq < 2 ^ 31" using sint_lt[of irq] by simp
    then have "int (unat irq) < int (2 ^ 31)" by simp
    then show False using False by (simp only: of_nat_less_iff)
  qed
  then show ?thesis using assms False
    by (simp add: alt_irq_register_def alt_ic_isr_register_def alt_iic_isr_register_def ALT_NIRQ_def Let_def
        alt_irq_disable_all_def)
qed

lemma isr_register_range_witness:
  "alt_ic_isr_register 0 0xFFFFFFFF (Some 1) 7 (irq_reset ()) = undefined_run"
proof -
  have "unat (0xFFFFFFFF :: cint) = 0xFFFFFFFF" by simp
  then have "32 \<le> unat (0xFFFFFFFF :: cint)" "\<not> unat (0xFFFFFFFF :: cint) < 2 ^ 31" by simp_all
  then show ?thesis
    using isr_register_range[of "0xFFFFFFFF" 7 "Some 1" "irq_reset ()" 0] by (simp only: if_False)
qed

end
