(* ===== verification/Boot.thy ===== *)
theory Boot
  imports Jtag Irq
begin

text \<open>
  The start of the program: alt_main of the HAL, from the state the C start-up code leaves
  to the call of \<open>main\<close> and the exit, on a board with the processor's control registers and the
  HAL of Fd.  The logging macros are empty in this build, the build is single threaded, and \<open>exit\<close>
  is newlib's: the model ends with the code that is passed to it.
\<close>

record 'd board =
  cpu :: ctl
  hal_part :: "'d hal"

section \<open>alt_sys_init.c\<close>

text \<open>Device 0 is \<open>/dev/null\<close>, device 1 the JTAG UART.\<close>

definition JTAG_UART_0_NAME :: string where "JTAG_UART_0_NAME = ''/dev/jtag_uart_0''"
definition ALT_STDOUT :: string where "ALT_STDOUT = ''/dev/jtag_uart_0''"
definition ALT_STDIN :: string where "ALT_STDIN = ''/dev/jtag_uart_0''"
definition ALT_STDERR :: string where "ALT_STDERR = ''/dev/jtag_uart_0''"

definition board_devices :: "'d bus \<Rightarrow> nat \<Rightarrow> 'd alt_dev" where
  "board_devices b n = (if n = 1 then jtag_uart_dev b JTAG_UART_0_NAME JTAG_UART_0_BASE else alt_dev_null)"

definition alt_sys_init :: "'d bus \<Rightarrow> 'd hal \<Rightarrow> 'd hal" where
  "alt_sys_init b h = snd (alt_dev_reg (board_devices b) (Some 1) h)"

section \<open>Constructors\<close>

text \<open>The table is run from its end to its start.\<close>

fun do_ctors_loop :: "('s \<Rightarrow> 's outcome) list \<Rightarrow> nat \<Rightarrow> 's \<Rightarrow> 's outcome" where
  "do_ctors_loop table 0 s = returns s"
| "do_ctors_loop table (Suc n) s = and_then ((table ! n) s) (do_ctors_loop table n)"

definition do_ctors :: "('s \<Rightarrow> 's outcome) list \<Rightarrow> 's \<Rightarrow> 's outcome" where
  "do_ctors table s = do_ctors_loop table (length table) s"

definition do_dtors :: "('s \<Rightarrow> 's outcome) list \<Rightarrow> 's \<Rightarrow> 's outcome" where
  "do_dtors table s = do_ctors_loop table (length table) s"

section \<open>alt_main.c\<close>

definition alt_boot :: "'d bus \<Rightarrow> 'd board \<Rightarrow> 'd board outcome" where
  "alt_boot b s =
     (let s = s\<lparr>cpu := alt_irq_init (cpu s)\<rparr>;
          s = s\<lparr>hal_part := alt_sys_init b (hal_part s)\<rparr>
      in and_then (alt_io_redirect (board_devices b) ALT_STDOUT ALT_STDIN ALT_STDERR (hal_part s)) (\<lambda>h.
         returns (s\<lparr>hal_part := h\<rparr>)))"

definition alt_main ::
  "'d bus \<Rightarrow> ('d board \<Rightarrow> 'd board outcome) list \<Rightarrow> ('d board \<Rightarrow> (cint \<times> 'd board) outcome) \<Rightarrow>
   'd board \<Rightarrow> (cint \<times> 'd board) outcome" where
  "alt_main b ctors main s =
     and_then (alt_boot b s) (\<lambda>s.
     and_then (do_ctors ctors s) (\<lambda>s.
     and_then (main s) (\<lambda>(result, s).
     and_then (alt_close (board_devices b) 1 (hal_part s)) (\<lambda>(rc, h).
     returns (result, s\<lparr>hal_part := h\<rparr>)))))"

section \<open>Redirection\<close>

text \<open>The flags a descriptor has after \<open>open\<close>.\<close>

definition device_flags :: "cint \<Rightarrow> cint" where
  "device_flags flags = (flags AND NOT ALT_FD_FLAGS_MASK) OR ALT_FD_DEV"

definition redirected :: "nat \<Rightarrow> nat \<Rightarrow> nat \<Rightarrow> cint \<Rightarrow> 'd hal \<Rightarrow> 'd hal" where
  "redirected i d k flags h =
     released k (set_fd i ((alt_fd_list h ! k)\<lparr>fdev := Some d, fd_flags := device_flags flags\<rparr>) (opened d k flags h))"

lemma redirected_list:
  "pool_ok h \<Longrightarrow> first_free_fd h k \<Longrightarrow> i < 3 \<Longrightarrow>
   alt_fd_list (redirected i d k flags h) =
     (alt_fd_list h)[i := (alt_fd_list h ! k)\<lparr>fdev := Some d, fd_flags := device_flags flags\<rparr>]"
  using first_free_ge_3[of h k]
  by (intro nth_equalityI)
     (auto simp: redirected_def released_def opened_def nth_list_update pool_ok_def first_free_fd_def fd_free_def
        intro!: fd_eqI)

lemma redirected_simps [simp]:
  "alt_dev_list (redirected i d k flags h) = alt_dev_list h" "alt_fs_list (redirected i d k flags h) = alt_fs_list h"
  "world (redirected i d k flags h) = world h" "errno (redirected i d k flags h) = errno h"
  by (simp_all add: redirected_def)

lemma redirected_max:
  "k < ALT_MAX_FD \<Longrightarrow> sint (alt_max_fd (redirected i d k flags h)) = max (int k) (sint (alt_max_fd h))"
  by (simp add: redirected_def opened_def sint_max_allocated)

lemma redirected_ok:
  assumes "pool_ok h" and "first_free_fd h k" and "i < 3"
  shows "pool_ok (redirected i d k flags h)"
  using assms redirected_list[OF assms, of d flags] redirected_max[of k i d flags h] first_free_ge_3[OF assms(1,2)]
  by (auto simp: pool_ok_def fd_free_def first_free_fd_def nth_list_update ALT_MAX_FD_def le_max_iff_disj)

lemma redirected_free:
  assumes "pool_ok h" and "first_free_fd h k" and "i < 3"
  shows "first_free_fd (redirected i d k flags h) k"
  using assms(2,3) first_free_ge_3[OF assms(1,2)] assms(1)
  by (auto simp: first_free_fd_def fd_free_def redirected_list[OF assms] nth_list_update pool_ok_def)

lemma redirected_unlocked:
  assumes "pool_ok h" and "first_free_fd h k" and "i < 3" and "\<not> device_locked h d"
    and "device_flags flags AND ALT_FD_EXCL = 0"
  shows "\<not> device_locked (redirected i d k flags h) d"
proof -
  have "i < length (alt_fd_list h)" using assms(1,3) by (simp add: pool_ok_def ALT_MAX_FD_def)
  then show ?thesis using assms(4,5)
    by (auto simp: device_locked_def redirected_list[OF assms(1-3)] nth_list_update split: if_splits)
qed

lemma alt_open_fd_device:
  assumes "pool_ok h" and "first_free_fd h k" and found: "alt_find_dev D name (alt_dev_list h) = Some (Some d)"
    and "dev_open (D d) = None" and "\<not> device_locked h d" and "i < 3"
  shows "alt_open_fd D i name flags mode h = returns (redirected i d k flags h)"
proof -
  have k: "k < ALT_MAX_FD" "3 \<le> k" using assms first_free_ge_3 by (auto simp: first_free_fd_def)
  have len: "length (alt_fd_list (opened d k flags h)) = ALT_MAX_FD"
    using assms(1) by (simp add: opened_def pool_ok_def)
  have "alt_fd_list (opened d k flags h) ! k = (alt_fd_list h ! k)\<lparr>fdev := Some d, fd_flags := device_flags flags\<rparr>"
    using k assms(1) by (simp add: opened_def pool_ok_def device_flags_def)
  then show ?thesis using assms(5) k len
    by (simp add: alt_open_fd_def alt_open_device[OF assms(1-4)] sint_of_nat_fd get_fd_def
        alt_release_fd_eq redirected_def)
qed

text \<open>The three redirections of the boot.\<close>

lemma alt_io_redirect_device:
  assumes "pool_ok h" and "first_free_fd h k" and "alt_find_dev D name (alt_dev_list h) = Some (Some d)"
    and "dev_open (D d) = None" and "\<not> device_locked h d"
  shows "alt_io_redirect D name name name h =
    returns (redirected 2 d k O_WRONLY (redirected 0 d k O_RDONLY (redirected 1 d k O_WRONLY h)))"
proof -
  have flags: "device_flags O_WRONLY AND ALT_FD_EXCL = 0" "device_flags O_RDONLY AND ALT_FD_EXCL = 0"
    by (simp_all add: device_flags_def flag_defs)
  let ?h1 = "redirected 1 d k O_WRONLY h" and ?h2 = "redirected 0 d k O_RDONLY (redirected 1 d k O_WRONLY h)"
  have 1: "pool_ok ?h1" "first_free_fd ?h1 k" "\<not> device_locked ?h1 d"
    using redirected_ok[OF assms(1,2)] redirected_free[OF assms(1,2)]
      redirected_unlocked[OF assms(1,2) _ assms(5) flags(1)] by simp_all
  have 2: "pool_ok ?h2" "first_free_fd ?h2 k" "\<not> device_locked ?h2 d"
    using redirected_ok[OF 1(1,2)] redirected_free[OF 1(1,2)]
      redirected_unlocked[OF 1(1,2) _ 1(3) flags(2)] by simp_all
  show ?thesis
    by (simp add: alt_io_redirect_def alt_open_fd_device[where D = D and d = d, OF assms]
        alt_open_fd_device[where D = D and d = d and h = ?h1, OF 1(1,2) _ assms(4) 1(3)]
        alt_open_fd_device[where D = D and d = d and h = ?h2, OF 2(1,2) _ assms(4) 2(3)] assms(3)
        del: One_nat_def)
qed

section \<open>The state main gets\<close>

definition booted :: "'d board \<Rightarrow> bool" where
  "booted s \<longleftrightarrow>
     ctl_status (cpu s) = 1 \<and> ctl_ienable (cpu s) = 0 \<and> pool_ok (hal_part s) \<and>
     alt_dev_list (hal_part s) = [1, 0] \<and>
     alt_fd_list (hal_part s) =
       [\<lparr>fdev = Some 1, fpriv = 0, fd_flags = ALT_FD_DEV OR O_RDONLY\<rparr>,
        \<lparr>fdev = Some 1, fpriv = 0, fd_flags = ALT_FD_DEV OR O_WRONLY\<rparr>,
        \<lparr>fdev = Some 1, fpriv = 0, fd_flags = ALT_FD_DEV OR O_WRONLY\<rparr>] @
       replicate 29 \<lparr>fdev = None, fpriv = 0, fd_flags = 0\<rparr>"

definition power_on :: "'d \<Rightarrow> 'd board" where
  "power_on d = \<lparr>cpu = \<lparr>ctl_status = 0, ctl_ienable = 0\<rparr>, hal_part = hal_init d\<rparr>"

lemma alt_boot_booted:
  "\<exists>s. alt_boot b (power_on d) = returns s \<and> booted s \<and> world (hal_part s) = d"
proof -
  let ?D = "board_devices b" and ?h = "(hal_init d)\<lparr>alt_dev_list := [1, 0]\<rparr>"
  have init: "alt_sys_init b (hal_init d) = ?h"
    by (simp add: alt_sys_init_def alt_dev_reg_def alt_dev_llist_insert_def board_devices_def jtag_uart_dev_def
        hal_init_def)
  have ok: "pool_ok ?h" using pool_ok_init[of d] by (simp add: pool_ok_def fd_free_def)
  have free: "first_free_fd ?h 3"
    by (auto simp: first_free_fd_def fd_free_def hal_init_def ALT_MAX_FD_def nth_append)
  have found: "alt_find_dev ?D JTAG_UART_0_NAME (alt_dev_list ?h) = Some (Some 1)"
    by (simp add: board_devices_def jtag_uart_dev_def memcmp_equal_def c_str_def)
  have "dev_open (?D 1) = None" by (simp add: board_devices_def jtag_uart_dev_def)
  moreover have "\<not> device_locked ?h 1"
    by (auto simp: device_locked_def hal_init_def ALT_MAX_FD_def nth_append)
  ultimately have "alt_io_redirect ?D ALT_STDOUT ALT_STDIN ALT_STDERR ?h =
      returns (redirected 2 1 3 O_WRONLY (redirected 0 1 3 O_RDONLY (redirected 1 1 3 O_WRONLY ?h)))" (is "_ = returns ?h3")
    using alt_io_redirect_device[OF ok free found]
    by (simp add: ALT_STDOUT_def ALT_STDIN_def ALT_STDERR_def JTAG_UART_0_NAME_def)
  then have boot: "alt_boot b (power_on d) =
      returns ((power_on d)\<lparr>cpu := alt_irq_init (cpu (power_on d)), hal_part := ?h3\<rparr>)"
    by (simp add: alt_boot_def power_on_def init)
  have ok1: "pool_ok (redirected 1 1 3 O_WRONLY ?h)" "first_free_fd (redirected 1 1 3 O_WRONLY ?h) 3"
    using redirected_ok[OF ok free] redirected_free[OF ok free] by simp_all
  have ok2: "pool_ok (redirected 0 1 3 O_RDONLY (redirected 1 1 3 O_WRONLY ?h))"
    "first_free_fd (redirected 0 1 3 O_RDONLY (redirected 1 1 3 O_WRONLY ?h)) 3"
    using redirected_ok[OF ok1] redirected_free[OF ok1] by simp_all
  let ?null = "\<lparr>fdev = Some 0, fpriv = 0, fd_flags = 0\<rparr>" and ?none = "\<lparr>fdev = None, fpriv = 0, fd_flags = 0\<rparr>"
  let ?in = "\<lparr>fdev = Some 1, fpriv = 0, fd_flags = device_flags O_RDONLY\<rparr>"
    and ?out = "\<lparr>fdev = Some 1, fpriv = 0, fd_flags = device_flags O_WRONLY\<rparr>"
  have l0: "alt_fd_list ?h = [?null, ?null, ?null] @ replicate 29 ?none"
    by (simp add: hal_init_def ALT_MAX_FD_def numeral_3_eq_3)
  have l1: "alt_fd_list (redirected 1 1 3 O_WRONLY ?h) = [?null, ?out, ?null] @ replicate 29 ?none"
    using redirected_list[OF ok free, of 1 1 O_WRONLY] unfolding l0 by simp
  have l2: "alt_fd_list (redirected 0 1 3 O_RDONLY (redirected 1 1 3 O_WRONLY ?h)) =
      [?in, ?out, ?null] @ replicate 29 ?none"
    using redirected_list[OF ok1, of 0 1 O_RDONLY] unfolding l1 by simp
  have l3: "alt_fd_list ?h3 = [?in, ?out, ?out] @ replicate 29 ?none"
    using redirected_list[OF ok2, of 2 1 O_WRONLY] unfolding l2 by simp
  have "device_flags O_RDONLY = ALT_FD_DEV OR O_RDONLY" "device_flags O_WRONLY = ALT_FD_DEV OR O_WRONLY"
    by (simp_all add: device_flags_def flag_defs)
  then have "alt_fd_list ?h3 =
       [\<lparr>fdev = Some 1, fpriv = 0, fd_flags = ALT_FD_DEV OR O_RDONLY\<rparr>,
        \<lparr>fdev = Some 1, fpriv = 0, fd_flags = ALT_FD_DEV OR O_WRONLY\<rparr>,
        \<lparr>fdev = Some 1, fpriv = 0, fd_flags = ALT_FD_DEV OR O_WRONLY\<rparr>] @
       replicate 29 \<lparr>fdev = None, fpriv = 0, fd_flags = 0\<rparr>"
    unfolding l3 by simp
  moreover have "pool_ok ?h3" using redirected_ok[OF ok2] by simp
  moreover have "alt_dev_list ?h3 = [1, 0]" "world ?h3 = d" by (simp_all add: hal_init_def)
  ultimately show ?thesis
    by (intro exI[of _ "(power_on d)\<lparr>cpu := alt_irq_init (cpu (power_on d)), hal_part := ?h3\<rparr>"] conjI boot)
       (simp_all add: booted_def alt_irq_init_def alt_irq_cpu_enable_interrupts_def altera_nios2_gen2_irq_init_def
        NIOS2_STATUS_PIE_MSK_def del: One_nat_def)
qed

text \<open>From power on the boot returns; the program then runs with interrupts enabled and no
  line unmasked, its three standard descriptors open on the JTAG UART with the right access
  modes and every other descriptor free, and nothing has been sent.\<close>

theorem boot_opens_streams:
  "\<exists>s. alt_boot b (power_on d) = returns s \<and> ctl_status (cpu s) = 1 \<and> ctl_ienable (cpu s) = 0 \<and>
    alt_fd_list (hal_part s) =
       [\<lparr>fdev = Some 1, fpriv = 0, fd_flags = ALT_FD_DEV OR O_RDONLY\<rparr>,
        \<lparr>fdev = Some 1, fpriv = 0, fd_flags = ALT_FD_DEV OR O_WRONLY\<rparr>,
        \<lparr>fdev = Some 1, fpriv = 0, fd_flags = ALT_FD_DEV OR O_WRONLY\<rparr>] @
       replicate 29 \<lparr>fdev = None, fpriv = 0, fd_flags = 0\<rparr> \<and>
    world (hal_part s) = d"
  using alt_boot_booted[of b d] by (auto simp: booted_def)

section \<open>The streams at work\<close>

text \<open>A write to the standard output or the standard error of a booted program, on the core with its host.\<close>

lemma booted_output:
  assumes "booted s" and "length (tx_fifo (world (hal_part s))) \<le> 64" and "0 \<le> sint len" and "nat (sint len) \<le> length ptr"
    and "k = 1 \<or> k = 2"
  shows "\<exists>d'. alt_write (board_devices (core_bus JTAG_UART_0_BASE)) (of_nat k) ptr len (hal_part s) =
      returns (len, (hal_part s)\<lparr>world := d'\<rparr>) \<and> core_ready d' \<and>
    core_emitted d' = core_emitted (world (hal_part s)) @ take (nat (sint len)) ptr"
proof -
  have "fd_flags (alt_fd_list (hal_part s) ! k) AND O_ACCMODE \<noteq> O_RDONLY"
    using assms(1,5) by (auto simp: booted_def flag_defs)
  moreover have "dev_write (board_devices (core_bus JTAG_UART_0_BASE) 1) =
      Some (altera_avalon_jtag_uart_write_fd (core_bus JTAG_UART_0_BASE) JTAG_UART_0_BASE)"
    by (simp add: board_devices_def jtag_uart_dev_def)
  moreover have "k < length (alt_fd_list (hal_part s))" "fdev (alt_fd_list (hal_part s) ! k) = Some 1"
    "k < ALT_MAX_FD" "core_ready (world (hal_part s))"
    using assms(1,2,5) by (auto simp: booted_def core_ready_def ALT_MAX_FD_def)
  ultimately show ?thesis
    using assms(3,4) by (intro core.alt_write_emits)
qed

lemmas booted_stdout = booted_output[where k = 1, simplified of_nat_1]

text \<open>A read from the standard input waits for the host and takes a prefix of what it sends.\<close>

lemma booted_input:
  assumes "booted s" and "world (hal_part s) = d" and "length (tx_fifo d) \<le> 64" and "rx_script d \<noteq> []" and "0 < sint len"
  shows "\<exists>new d'. alt_read (board_devices (core_bus JTAG_UART_0_BASE)) 0 len (hal_part s) =
      returns (of_nat (length new), new, (hal_part s)\<lparr>world := d'\<rparr>) \<and>
    new \<noteq> [] \<and> int (length new) \<le> sint len \<and> map snd (rx_script d) = new @ map snd (rx_script d')"
proof -
  let ?b = "core_bus JTAG_UART_0_BASE" and ?fd = "alt_fd_list (hal_part s) ! 0"
  have fd: "0 < length (alt_fd_list (hal_part s))" "fdev ?fd = Some 1" "fd_flags ?fd = ALT_FD_DEV OR O_RDONLY"
    using assms(1) by (simp_all add: booted_def)
  then have fl: "fd_flags ?fd AND O_NONBLOCK = 0" "fd_flags ?fd AND O_ACCMODE \<noteq> O_WRONLY" by (simp_all add: flag_defs)
  obtain new d' where r: "altera_avalon_jtag_uart_read ?b JTAG_UART_0_BASE len (fd_flags ?fd) d = returns (of_nat (length new), new, d')"
    "new \<noteq> []" "int (length new) \<le> sint len" "map snd (rx_script d) = new @ map snd (rx_script d')"
    using core.read_blocks_for_input[of d len "fd_flags ?fd" JTAG_UART_0_BASE] assms(3-5) fl(1) by (auto simp: core_ready_def)
  have "sint len < 2 ^ 31" using sint_lt[of len] by simp
  then have n: "\<not> sint (of_nat (length new) :: cint) < 0" using r(3) by (simp add: sint_of_nat_small)
  have "after_call 0 ?fd d' (hal_part s) = (hal_part s)\<lparr>world := d'\<rparr>" by (simp add: after_call_def set_fd_def)
  then have "alt_read (board_devices ?b) 0 len (hal_part s) =
      returns (of_nat (length new), new, (hal_part s)\<lparr>world := d'\<rparr>)"
    using fd fl n r(1) assms(2)
    by (simp add: alt_read_def get_fd_def get_dev_def arr_get_def board_devices_def jtag_uart_dev_def
        altera_avalon_jtag_uart_read_fd_def Let_def)
  then show ?thesis using r by blast
qed

text \<open>The exit closes the standard output, which leaves the descriptor and the device as they are.\<close>

lemma close_stdout:
  assumes "fdev (alt_fd_list h ! 1) = Some 1" and "1 < length (alt_fd_list h)"
  shows "alt_close (board_devices b) 1 h = returns (0, h)"
  using assms by (simp add: alt_close_def get_fd_def get_dev_def alt_release_fd_def board_devices_def jtag_uart_dev_def)

lemma alt_main_returns:
  assumes "alt_boot b (power_on d) = returns s" and "do_ctors ctors s = returns s1" and "main s1 = returns (rc, s2)"
    and "fdev (alt_fd_list (hal_part s2) ! 1) = Some 1" and "1 < length (alt_fd_list (hal_part s2))"
  shows "alt_main b ctors main (power_on d) = returns (rc, s2)"
  using assms(1-3) close_stdout[OF assms(4,5)] by (simp add: alt_main_def)

text \<open>C18. From power on alt_main reaches the constructors and \<open>main\<close> in a state with interrupts enabled and the
  standard streams open on the JTAG UART.  What any program writes there to the standard output or the
  standard error is returned as written and sent to the host whole and in order, on whatever schedule the host
  takes bytes; a read from the standard input waits for the host and returns a non-empty prefix of what it sends.
  Whatever the constructors and \<open>main\<close> are: when they return with the standard output still attached, alt_main
  returns the value of \<open>main\<close> and changes nothing more.\<close>

theorem alt_main_runs_main:
  assumes "length (tx_fifo d) \<le> 64"
  shows "\<exists>s. alt_boot (core_bus JTAG_UART_0_BASE) (power_on d) = returns s \<and> world (hal_part s) = d \<and>
    ctl_status (cpu s) = 1 \<and>
    map fdev (take 3 (alt_fd_list (hal_part s))) = [Some 1, Some 1, Some 1] \<and>
    (\<forall>file \<in> {1, 2}. \<forall>ptr len. 0 \<le> sint len \<and> nat (sint len) \<le> length ptr \<longrightarrow>
       (\<exists>d'. alt_write (board_devices (core_bus JTAG_UART_0_BASE)) file ptr len (hal_part s) =
           returns (len, (hal_part s)\<lparr>world := d'\<rparr>) \<and>
         host_log d' @ tx_fifo d' = host_log d @ tx_fifo d @ take (nat (sint len)) ptr)) \<and>
    (\<forall>len. rx_script d \<noteq> [] \<and> 0 < sint len \<longrightarrow>
       (\<exists>new d'. alt_read (board_devices (core_bus JTAG_UART_0_BASE)) 0 len (hal_part s) =
           returns (of_nat (length new), new, (hal_part s)\<lparr>world := d'\<rparr>) \<and>
         new \<noteq> [] \<and> int (length new) \<le> sint len \<and> map snd (rx_script d) = new @ map snd (rx_script d'))) \<and>
    (\<forall>ctors main s1 rc s2. do_ctors ctors s = returns s1 \<and> main s1 = returns (rc, s2) \<and>
       fdev (alt_fd_list (hal_part s2) ! 1) = Some 1 \<and> 1 < length (alt_fd_list (hal_part s2)) \<longrightarrow>
       alt_main (core_bus JTAG_UART_0_BASE) ctors main (power_on d) = returns (rc, s2))"
proof -
  let ?b = "core_bus JTAG_UART_0_BASE" and ?D = "board_devices (core_bus JTAG_UART_0_BASE)"
  obtain s where s: "alt_boot ?b (power_on d) = returns s" "booted s" "world (hal_part s) = d"
    using alt_boot_booted[of ?b d] by blast
  have "\<forall>file \<in> {1, 2}. \<forall>ptr len. 0 \<le> sint len \<and> nat (sint len) \<le> length ptr \<longrightarrow>
       (\<exists>d'. alt_write ?D file ptr len (hal_part s) = returns (len, (hal_part s)\<lparr>world := d'\<rparr>) \<and>
         host_log d' @ tx_fifo d' = host_log d @ tx_fifo d @ take (nat (sint len)) ptr)"
  proof (intro ballI allI impI)
    fix fildes len :: cint and ptr :: "u8 list"
    assume f: "fildes \<in> {1, 2}" and l: "0 \<le> sint len \<and> nat (sint len) \<le> length ptr"
    define k :: nat where "k = (if fildes = 1 then 1 else 2)"
    have k: "fildes = of_nat k" "k = 1 \<or> k = 2" using f by (auto simp: k_def)
    show "\<exists>d'. alt_write ?D fildes ptr len (hal_part s) = returns (len, (hal_part s)\<lparr>world := d'\<rparr>) \<and>
        host_log d' @ tx_fifo d' = host_log d @ tx_fifo d @ take (nat (sint len)) ptr"
      using booted_output[OF s(2) _ _ _ k(2), of len ptr] l assms s(3) unfolding k(1) core_emitted_def by auto
  qed
  moreover have "\<forall>len. rx_script d \<noteq> [] \<and> 0 < sint len \<longrightarrow>
       (\<exists>new d'. alt_read ?D 0 len (hal_part s) = returns (of_nat (length new), new, (hal_part s)\<lparr>world := d'\<rparr>) \<and>
         new \<noteq> [] \<and> int (length new) \<le> sint len \<and> map snd (rx_script d) = new @ map snd (rx_script d'))"
    using booted_input[OF s(2,3) assms] by blast
  moreover have "\<forall>ctors main s1 rc s2. do_ctors ctors s = returns s1 \<and> main s1 = returns (rc, s2) \<and>
       fdev (alt_fd_list (hal_part s2) ! 1) = Some 1 \<and> 1 < length (alt_fd_list (hal_part s2)) \<longrightarrow>
       alt_main ?b ctors main (power_on d) = returns (rc, s2)"
    using alt_main_returns[OF s(1)] by blast
  moreover have "ctl_status (cpu s) = 1" "map fdev (take 3 (alt_fd_list (hal_part s))) = [Some 1, Some 1, Some 1]"
    using s(2) by (simp_all add: booted_def)
  ultimately show ?thesis using s(1,3) by (intro exI[of _ s] conjI)
qed

text \<open>A run: the program writes two bytes and returns 7; the host has been sent them.\<close>

lemma alt_main_runs_main_witness:
  "\<exists>s. alt_main (core_bus JTAG_UART_0_BASE) []
      (\<lambda>s. and_then (alt_write (board_devices (core_bus JTAG_UART_0_BASE)) 1 [104, 105] 2 (hal_part s)) (\<lambda>(n, h).
         returns (7, s\<lparr>hal_part := h\<rparr>))) (power_on (core_at_reset [])) = returns (7, s) \<and>
    host_log (world (hal_part s)) @ tx_fifo (world (hal_part s)) = [104, 105]"
proof -
  let ?b = "core_bus JTAG_UART_0_BASE"
  let ?main = "\<lambda>s. and_then (alt_write (board_devices ?b) 1 [104, 105] 2 (hal_part s)) (\<lambda>(n, h).
    returns (7 :: cint, s\<lparr>hal_part := h\<rparr>))"
  have "length (tx_fifo (core_at_reset [])) \<le> 64" by simp
  from alt_main_runs_main[OF this] obtain s where s: "map fdev (take 3 (alt_fd_list (hal_part s))) = [Some 1, Some 1, Some 1]"
    and w: "\<forall>file \<in> {1, 2}. \<forall>ptr len. 0 \<le> sint len \<and> nat (sint len) \<le> length ptr \<longrightarrow>
       (\<exists>d'. alt_write (board_devices ?b) file ptr len (hal_part s) = returns (len, (hal_part s)\<lparr>world := d'\<rparr>) \<and>
         host_log d' @ tx_fifo d' = host_log (core_at_reset []) @ tx_fifo (core_at_reset []) @ take (nat (sint len)) ptr)"
    and m: "\<forall>ctors main s1 rc s2. do_ctors ctors s = returns s1 \<and> main s1 = returns (rc, s2) \<and>
       fdev (alt_fd_list (hal_part s2) ! 1) = Some 1 \<and> 1 < length (alt_fd_list (hal_part s2)) \<longrightarrow>
       alt_main ?b ctors main (power_on (core_at_reset [])) = returns (rc, s2)"
    by (elim exE conjE)
  have "0 \<le> sint (2 :: cint) \<and> nat (sint (2 :: cint)) \<le> length [104, 105 :: u8]" by simp
  with w obtain d' where d': "alt_write (board_devices ?b) 1 [104, 105] 2 (hal_part s) = returns (2, (hal_part s)\<lparr>world := d'\<rparr>)"
    "host_log d' @ tx_fifo d' = [104, 105]" by fastforce
  have fd: "1 < length (alt_fd_list (hal_part s))" "fdev (alt_fd_list (hal_part s) ! 1) = Some 1"
    using arg_cong[OF s, of length] arg_cong[OF s, of "\<lambda>l. l ! 1"] by (simp_all add: min_def split: if_splits)
  have "?main s = returns (7, s\<lparr>hal_part := (hal_part s)\<lparr>world := d'\<rparr>\<rparr>)" by (simp add: d'(1))
  moreover have "do_ctors [] s = returns s" by (simp add: do_ctors_def)
  ultimately have "alt_main ?b [] ?main (power_on (core_at_reset [])) = returns (7, s\<lparr>hal_part := (hal_part s)\<lparr>world := d'\<rparr>\<rparr>)"
    using m fd by auto
  then show ?thesis using d'(2) by auto
qed

end
