(* ===== verification/Calls.thy ===== *)
theory Calls
  imports Posix Boot
begin

text \<open>
  Sequences of system calls: what every call keeps of the pool of descriptors, whatever its
  arguments, when the drivers keep their side (locale \<open>drivers\<close>), and the drivers of the board.
\<close>

section \<open>Sequences of calls\<close>

datatype syscall =
    Open string cint cint
  | Close cint
  | Read cint cint
  | Write cint "u8 list" cint
  | Lseek cint cint cint
  | Fstat cint
  | Isatty cint
  | Ioctl cint cint cint
  | Fcntl cint cint cint
  | Stat string
  | Redirect string string string

definition run_call :: "(nat \<Rightarrow> 's alt_dev) \<Rightarrow> syscall \<Rightarrow> 's hal \<Rightarrow> 's hal outcome" where
  "run_call D c h =
     (case c of
        Open name flags mode \<Rightarrow> and_then (alt_open D name flags mode h) (\<lambda>(_, h). returns h)
      | Close fd \<Rightarrow> and_then (alt_close D fd h) (\<lambda>(_, h). returns h)
      | Read fd n \<Rightarrow> and_then (alt_read D fd n h) (\<lambda>(_, _, h). returns h)
      | Write fd bs n \<Rightarrow> and_then (alt_write D fd bs n h) (\<lambda>(_, h). returns h)
      | Lseek fd p dir \<Rightarrow> and_then (alt_lseek D fd p dir h) (\<lambda>(_, h). returns h)
      | Fstat fd \<Rightarrow> and_then (alt_fstat D fd 0 h) (\<lambda>(_, _, h). returns h)
      | Isatty fd \<Rightarrow> and_then (alt_isatty D 0 fd h) (\<lambda>(_, h). returns h)
      | Ioctl fd req arg \<Rightarrow> and_then (alt_ioctl D fd req arg h) (\<lambda>(_, _, h). returns h)
      | Fcntl fd cmd flags \<Rightarrow> and_then (alt_fcntl fd cmd flags h) (\<lambda>(_, h). returns h)
      | Stat name \<Rightarrow> and_then (alt_stat D name 0 h) (\<lambda>(_, _, h). returns h)
      | Redirect a b c \<Rightarrow> alt_io_redirect D a b c h)"

fun run_calls :: "(nat \<Rightarrow> 's alt_dev) \<Rightarrow> syscall list \<Rightarrow> 's hal \<Rightarrow> 's hal outcome" where
  "run_calls D [] h = returns h"
| "run_calls D (c # cs) h = and_then (run_call D c h) (run_calls D cs)"

section \<open>The pool stays well formed\<close>

text \<open>A free descriptor carries no device flag and no lock; fcntl may leave the flags it is allowed
  to set on a descriptor that is not open.\<close>

definition pool_inv :: "'s hal \<Rightarrow> bool" where
  "pool_inv h \<longleftrightarrow>
     length (alt_fd_list h) = ALT_MAX_FD \<and> - 1 \<le> sint (alt_max_fd h) \<and> sint (alt_max_fd h) < 32 \<and>
     (\<forall>i < 3. \<not> fd_free h i) \<and>
     (\<forall>i < ALT_MAX_FD. fd_free h i \<longrightarrow> fd_flags (alt_fd_list h ! i) AND NOT ALT_FCNTL_FLAGS_MASK = 0) \<and>
     (\<forall>i < ALT_MAX_FD. 3 \<le> i \<and> \<not> fd_free h i \<longrightarrow> int i \<le> sint (alt_max_fd h))"

lemma pool_ok_inv: "pool_ok h \<Longrightarrow> pool_inv h"
  by (auto simp: pool_ok_def pool_inv_def)

lemma pool_inv_frame [simp]:
  "pool_inv (h\<lparr>errno := e\<rparr>) = pool_inv h" "pool_inv (h\<lparr>world := w\<rparr>) = pool_inv h"
  by (simp_all add: pool_inv_def fd_free_def)

lemma pool_inv_set_fd:
  assumes "pool_inv h" and "(fdev e = None) = fd_free h i" and "fdev e = None \<Longrightarrow> fd_flags e AND NOT ALT_FCNTL_FLAGS_MASK = 0"
  shows "pool_inv (set_fd i e h)"
proof -
  show ?thesis
  proof (cases "i < length (alt_fd_list h)")
    case True
    then have "fd_free (set_fd i e h) j = fd_free h j" for j
      using assms(2) by (auto simp: fd_free_def nth_list_update)
    then show ?thesis using True assms unfolding pool_inv_def by (auto simp: nth_list_update)
  next
    case False
    then show ?thesis using assms(1) by (simp add: set_fd_def list_update_beyond)
  qed
qed

lemma pool_inv_open_fd: "pool_inv h \<Longrightarrow> i < ALT_MAX_FD \<Longrightarrow> \<not> fd_free h i \<Longrightarrow> fdev e \<noteq> None \<Longrightarrow> pool_inv (set_fd i e h)"
  by (rule pool_inv_set_fd) auto

lemma pool_inv_after_call:
  "pool_inv h \<Longrightarrow> \<not> fd_free h (nat (sint file)) \<Longrightarrow> nat (sint file) < ALT_MAX_FD \<Longrightarrow> fdev e \<noteq> None \<Longrightarrow>
   pool_inv (after_call file e s h)"
  by (simp add: after_call_def pool_inv_open_fd)

lemma pool_inv_allocated:
  assumes "pool_inv h" and "i < ALT_MAX_FD"
  shows "pool_inv (allocated d i h)"
  using assms
  by (auto simp: pool_inv_def sint_max_allocated fd_free_def nth_list_update ALT_MAX_FD_def le_max_iff_disj)

lemma get_fd_returns:
  "get_fd file h = returns e \<Longrightarrow> nat (sint file) < length (alt_fd_list h) \<and> e = alt_fd_list h ! nat (sint file)"
  by (auto simp: get_fd_def arr_get_def defined_or_trap_def undefined_run_def returns_def split: if_splits)

lemma get_dev_returns: "get_dev D e = returns v \<Longrightarrow> \<exists>d. fdev e = Some d \<and> v = D d"
  by (auto simp: get_dev_def defined_or_trap_def undefined_run_def returns_def split: option.splits)

text \<open>What the drivers promise: a callback does not detach the descriptor from its device.\<close>

definition driver_ok :: "'s alt_dev \<Rightarrow> bool" where
  "driver_ok v \<longleftrightarrow>
     (\<forall>f e n fl m w r e' w'. dev_open v = Some f \<and> f e n fl m w = returns (r, e', w') \<longrightarrow> fdev e' = fdev e) \<and>
     (\<forall>f e w r e' w'. dev_close v = Some f \<and> f e w = returns (r, e', w') \<longrightarrow> fdev e' = fdev e) \<and>
     (\<forall>f e n w r bs e' w'. dev_read v = Some f \<and> f e n w = returns (r, bs, e', w') \<longrightarrow> fdev e' = fdev e) \<and>
     (\<forall>f e bs n w r e' w'. dev_write v = Some f \<and> f e bs n w = returns (r, e', w') \<longrightarrow> fdev e' = fdev e) \<and>
     (\<forall>f e p dir w r e' w'. dev_lseek v = Some f \<and> f e p dir w = returns (r, e', w') \<longrightarrow> fdev e' = fdev e) \<and>
     (\<forall>f e w r m e' w'. dev_fstat v = Some f \<and> f e w = returns (r, m, e', w') \<longrightarrow> fdev e' = fdev e) \<and>
     (\<forall>f e q a w r a' e' w'. dev_ioctl v = Some f \<and> f e q a w = returns (r, a', e', w') \<longrightarrow> fdev e' = fdev e)"

text \<open>A step is good when it keeps the invariant.\<close>

definition keeps :: "('a \<Rightarrow> 's hal) \<Rightarrow> 'a outcome \<Rightarrow> bool" where
  "keeps st r \<longleftrightarrow> (\<forall>x. r = returns x \<longrightarrow> pool_inv (st x))"

lemma keeps_returns [simp]: "keeps st (returns x) = pool_inv (st x)"
  by (simp add: keeps_def)

lemma keeps_undefined [simp]: "keeps st undefined_run" "keeps st None"
  by (simp_all add: keeps_def returns_def undefined_run_def)

lemma keeps_and_then:
  "(\<And>x. r = returns x \<Longrightarrow> keeps st (f x)) \<Longrightarrow> keeps st (and_then r f)"
  by (auto simp: keeps_def and_then_returns_iff)

lemma keeps_release:
  assumes "pool_inv h"
  shows "keeps id (alt_release_fd fd h)"
proof (cases "2 < sint fd")
  case False
  then show ?thesis using assms by (simp add: alt_release_fd_def)
next
  case True
  let ?i = "nat (sint fd)"
  have "pool_inv (set_fd ?i (e\<lparr>fd_flags := 0, fdev := None\<rparr>) h)" if "?i < ALT_MAX_FD" for e
    using assms that True
    by (auto simp: pool_inv_def fd_free_def nth_list_update ALT_MAX_FD_def)
  then show ?thesis using True assms
    by (auto simp: alt_release_fd_def pool_inv_def[of h] intro!: keeps_and_then dest!: get_fd_returns)
qed

lemma alt_get_fd_cases:
  assumes "alt_get_fd d h = (fd, h')"
  shows "(\<exists>k < ALT_MAX_FD. fd = of_nat k \<and> fd_free h k \<and> h' = allocated d k h) \<or> fd = - EMFILE \<and> h' = h"
proof (cases "\<exists>k < ALT_MAX_FD. fd_free h k")
  case True
  from first_free[OF this] obtain k where "k < ALT_MAX_FD" "fd_free h k" "\<forall>j < k. \<not> fd_free h j" by blast
  then show ?thesis using assms by (auto simp: alt_get_fd_first)
next
  case False
  then show ?thesis using assms by (auto simp: alt_get_fd_full)
qed

lemma driver_okD:
  assumes "driver_ok v"
  shows "dev_open v = Some f1 \<Longrightarrow> f1 e n fl m w = returns (r, e', w') \<Longrightarrow> fdev e' = fdev e"
    "dev_close v = Some f2 \<Longrightarrow> f2 e w = returns (r, e', w') \<Longrightarrow> fdev e' = fdev e"
    "dev_read v = Some f3 \<Longrightarrow> f3 e len w = returns (r, bs, e', w') \<Longrightarrow> fdev e' = fdev e"
    "dev_write v = Some f4 \<Longrightarrow> f4 e bs len w = returns (r, e', w') \<Longrightarrow> fdev e' = fdev e"
    "dev_lseek v = Some f5 \<Longrightarrow> f5 e len fl w = returns (r, e', w') \<Longrightarrow> fdev e' = fdev e"
    "dev_fstat v = Some f6 \<Longrightarrow> f6 e w = returns (r, m, e', w') \<Longrightarrow> fdev e' = fdev e"
    "dev_ioctl v = Some f7 \<Longrightarrow> f7 e len fl w = returns (r, m, e', w') \<Longrightarrow> fdev e' = fdev e"
  using assms unfolding driver_ok_def by metis+

lemma callback_pool:
  assumes "pool_inv h" and "get_fd file h = returns e" and "get_dev D e = returns v" and "fdev e' = fdev e"
  shows "pool_inv (after_call file e' w h)"
proof -
  have i: "nat (sint file) < ALT_MAX_FD" "e = alt_fd_list h ! nat (sint file)"
    using get_fd_returns[OF assms(2)] assms(1) by (simp_all add: pool_inv_def)
  then show ?thesis using get_dev_returns[OF assms(3)] assms(1,4)
    by (intro pool_inv_after_call) (auto simp: fd_free_def)
qed

lemma keeps_step:
  "keeps st' r \<Longrightarrow> (\<And>x. r = returns x \<Longrightarrow> pool_inv (st' x) \<Longrightarrow> keeps st (f x)) \<Longrightarrow> keeps st (and_then r f)"
  by (auto simp: keeps_def and_then_returns_iff)

lemma keeps_option:
  "(x = None \<Longrightarrow> keeps st a) \<Longrightarrow> (\<And>y. x = Some y \<Longrightarrow> keeps st (f y)) \<Longrightarrow> keeps st (case x of None \<Rightarrow> a | Some y \<Rightarrow> f y)"
  by (cases x) auto

lemma keeps_if: "(b \<Longrightarrow> keeps st x) \<Longrightarrow> (\<not> b \<Longrightarrow> keeps st y) \<Longrightarrow> keeps st (if b then x else y)"
  by simp

lemma keeps_pair: "(\<And>a b. x = (a, b) \<Longrightarrow> keeps st (f a b)) \<Longrightarrow> keeps st (case x of (a, b) \<Rightarrow> f a b)"
  by (cases x) auto

lemmas keeps_intros = keeps_and_then keeps_option keeps_if keeps_pair

lemma free_not_device: "x AND NOT ALT_FCNTL_FLAGS_MASK = 0 \<Longrightarrow> x AND ALT_FD_DEV = 0"
proof -
  assume x: "x AND NOT ALT_FCNTL_FLAGS_MASK = 0"
  have "ALT_FD_DEV = NOT ALT_FCNTL_FLAGS_MASK AND ALT_FD_DEV" by (simp add: flag_defs)
  then have "x AND ALT_FD_DEV = (x AND NOT ALT_FCNTL_FLAGS_MASK) AND ALT_FD_DEV" by (simp only: and.assoc)
  then show ?thesis by (simp add: x)
qed

lemma alt_fd_lock_loop_keeps:
  assumes inv: "pool_inv h"
    and locked: "pool_inv (set_fd fd ((alt_fd_list h ! fd)\<lparr>fd_flags := fd_flags (alt_fd_list h ! fd) OR ALT_FD_EXCL\<rparr>) h)"
  shows "keeps snd (alt_fd_lock_loop fd i h)"
  using assms
proof (induction fd i h rule: alt_fd_lock_loop.induct)
  case (1 fd i h)
  then show ?case by (subst alt_fd_lock_loop.simps) (auto intro!: keeps_intros simp: Let_def)
qed

lemma keeps_fcntl: "pool_inv h \<Longrightarrow> keeps snd (alt_fcntl fd cmd flags h)"
proof -
  assume inv: "pool_inv h"
  have "pool_inv (set_fd (nat (sint fd)) (e\<lparr>fd_flags := (fd_flags e AND NOT ALT_FCNTL_FLAGS_MASK) OR (flags AND ALT_FCNTL_FLAGS_MASK)\<rparr>) h)"
    if "get_fd fd h = returns e" for e
  proof -
    have i: "nat (sint fd) < ALT_MAX_FD" "e = alt_fd_list h ! nat (sint fd)"
      using get_fd_returns[OF that] inv by (simp_all add: pool_inv_def)
    then show ?thesis using inv
      by (intro pool_inv_set_fd) (auto simp: fd_free_def pool_inv_def bit.conj_disj_distrib2 and.assoc)
  qed
  then show ?thesis using inv by (auto simp: alt_fcntl_def Let_def intro!: keeps_intros)
qed

locale drivers =
  fixes D :: "nat \<Rightarrow> 's alt_dev"
  assumes driver: "driver_ok (D d)"
begin

lemma driver_of: "get_dev D e = returns v \<Longrightarrow> driver_ok v"
  using driver get_dev_returns by blast

lemmas callbacks = driver_okD[OF driver_of]

lemma keeps_close: "pool_inv h \<Longrightarrow> keeps snd (alt_close D fd h)"
proof -
  assume inv: "pool_inv h"
  have step: "keeps snd (and_then (case dev_close v of
          None \<Rightarrow> returns (0, h)
        | Some f \<Rightarrow> and_then (f e (world h)) (\<lambda>(rval, e, s). returns (rval, after_call fd e s h))) (\<lambda>(rval, h).
      and_then (alt_release_fd fd h) (\<lambda>h.
      if sint rval < 0 then returns (- 1, h\<lparr>errno := - rval\<rparr>) else returns (0, h))))"
    if fd: "get_fd fd h = returns e" "get_dev D e = returns v" for e v
  proof (rule keeps_step[where st' = snd])
    show "keeps snd (case dev_close v of
          None \<Rightarrow> returns (0, h)
        | Some f \<Rightarrow> and_then (f e (world h)) (\<lambda>(rval, e, s). returns (rval, after_call fd e s h)))"
      using inv fd by (auto intro!: keeps_intros) (blast intro: callback_pool callbacks(2))
  qed (auto intro!: keeps_step[OF keeps_release])
  show ?thesis unfolding alt_close_def
    by (intro keeps_if, use inv in simp, rule keeps_and_then, rule keeps_and_then, rule step)
qed

lemma keeps_read: "pool_inv h \<Longrightarrow> keeps (snd \<circ> snd) (alt_read D fd n h)"
  unfolding alt_read_def
  by (auto intro!: keeps_intros simp: Let_def) (blast intro: callback_pool callbacks(3))+

lemma keeps_write: "pool_inv h \<Longrightarrow> keeps snd (alt_write D fd bs n h)"
  unfolding alt_write_def
  by (auto intro!: keeps_intros simp: Let_def) (blast intro: callback_pool callbacks(4))+

lemma keeps_lseek: "pool_inv h \<Longrightarrow> keeps snd (alt_lseek D fd p dir h)"
  unfolding alt_lseek_def
  by (rule keeps_step[where st' = snd]; (auto intro!: keeps_intros)?) (blast intro: callback_pool callbacks(5))

lemma keeps_fstat: "pool_inv h \<Longrightarrow> keeps (snd \<circ> snd) (alt_fstat D fd st h)"
  unfolding alt_fstat_def
  by (auto intro!: keeps_intros) (blast intro: callback_pool callbacks(6))

lemma keeps_isatty: "pool_inv h \<Longrightarrow> keeps snd (alt_isatty D st fd h)"
  unfolding alt_isatty_def
  by (auto intro!: keeps_if keeps_pair keeps_and_then keeps_step[OF keeps_fstat])
     (use keeps_fstat in \<open>force simp: keeps_def\<close>)

lemma keeps_ioctl: "pool_inv h \<Longrightarrow> keeps (snd \<circ> snd) (alt_ioctl D fd req arg h)"
proof -
  assume inv: "pool_inv h"
  let ?i = "nat (sint fd)"
  have lock: "keeps snd (alt_fd_lock ?i h)" and unlock: "pool_inv (snd (alt_fd_unlock ?i h))"
    if "get_fd fd h = returns e" "fd_flags e AND ALT_FD_DEV \<noteq> 0" for e
  proof -
    have i: "?i < ALT_MAX_FD" "e = alt_fd_list h ! ?i" using get_fd_returns[OF that(1)] inv by (simp_all add: pool_inv_def)
    then have "\<not> fd_free h ?i" using inv that(2) free_not_device by (auto simp: pool_inv_def)
    then have "pool_inv (set_fd ?i e' h)" if "fdev e' = fdev e" for e'
      using inv i that by (intro pool_inv_open_fd) (simp_all add: fd_free_def)
    then show "keeps snd (alt_fd_lock ?i h)" "pool_inv (snd (alt_fd_unlock ?i h))"
      using inv i alt_fd_lock_loop_keeps[OF inv, of ?i] by (simp_all add: alt_fd_lock_def alt_fd_unlock_def Let_def)
  qed
  have "keeps (snd \<circ> snd) (and_then (get_fd fd h) (\<lambda>e.
      if fd_flags e AND ALT_FD_DEV \<noteq> 0 \<and> req = TIOCEXCL then and_then (alt_fd_lock ?i h) (\<lambda>(rc, h). returns (rc, arg, h))
      else if fd_flags e AND ALT_FD_DEV \<noteq> 0 \<and> req = TIOCNXCL then
        (case alt_fd_unlock ?i h of (rc, h) \<Rightarrow> returns (rc, arg, h))
      else and_then (get_dev D e) (\<lambda>device. case dev_ioctl device of
          None \<Rightarrow> returns (- ENOTTY, arg, h)
        | Some f \<Rightarrow> and_then (f e req arg (world h)) (\<lambda>(rc, arg, e, s). returns (rc, arg, after_call fd e s h)))))"
    (is "keeps _ (and_then _ ?body)")
  proof (rule keeps_and_then)
    fix e assume e: "get_fd fd h = returns e"
    show "keeps (snd \<circ> snd) (?body e)"
    proof (intro keeps_if)
      assume "fd_flags e AND ALT_FD_DEV \<noteq> 0 \<and> req = TIOCEXCL"
      then show "keeps (snd \<circ> snd) (and_then (alt_fd_lock ?i h) (\<lambda>(rc, h). returns (rc, arg, h)))"
        using lock[OF e] by (auto intro: keeps_step)
    next
      assume "fd_flags e AND ALT_FD_DEV \<noteq> 0 \<and> req = TIOCNXCL"
      then show "keeps (snd \<circ> snd) (case alt_fd_unlock ?i h of (rc, h) \<Rightarrow> returns (rc, arg, h))"
        using unlock[OF e] by (simp add: case_prod_beta)
    next
      show "keeps (snd \<circ> snd) (and_then (get_dev D e) (\<lambda>device. case dev_ioctl device of
          None \<Rightarrow> returns (- ENOTTY, arg, h)
        | Some f \<Rightarrow> and_then (f e req arg (world h)) (\<lambda>(rc, arg, e, s). returns (rc, arg, after_call fd e s h))))"
        using inv e by (auto intro!: keeps_intros) (blast intro: callback_pool callbacks(7))
    qed
  qed
  then have "keeps (snd \<circ> snd) (if sint fd < 0 then returns (- EBADFD, arg, h)
      else and_then (get_fd fd h) ?body)" using inv by simp
  then show ?thesis unfolding alt_ioctl_def by (rule keeps_step) auto
qed

text \<open>The descriptor that open has set up is not free.\<close>

lemma setup_pool:
  assumes "alt_open_fd_setup D d isafs file flags mode (of_nat k) h = returns (status, h1)"
    and "pool_inv h" and "k < ALT_MAX_FD" and "\<not> fd_free h k"
  shows "pool_inv h1 \<and> \<not> fd_free h1 k"
proof -
  define h2 where "h2 = set_fd k ((alt_fd_list h ! k)\<lparr>fd_flags := flags AND NOT ALT_FD_FLAGS_MASK\<rparr>) h"
  have k: "k < length (alt_fd_list h)" using assms(2,3) by (simp add: pool_inv_def)
  have h2: "pool_inv h2" "\<not> fd_free h2 k" "k < length (alt_fd_list h2)"
    using assms(2-4) k by (auto simp: h2_def fd_free_def intro!: pool_inv_open_fd)
  obtain st h3 where h3: "(if isafs then returns (0, h2) else alt_file_locked k h2) = returns (st, h3)"
      and rest: "(if sint st < 0 then returns (st, h3)
         else (case dev_open (D d) of None \<Rightarrow> returns (0, h3)
               | Some f \<Rightarrow> and_then (f (alt_fd_list h3 ! k) file flags mode (world h3)) (\<lambda>(status, e, s).
                   returns (status, after_call (of_nat k) e s h3)))) = returns (status, h1)"
    using assms(1) unfolding alt_open_fd_setup_def Let_def nat_sint_fd[OF assms(3)] h2_def[symmetric]
    by (auto simp: and_then_returns_iff)
  have "h3 = h2 \<or> h3 = set_fd k ((alt_fd_list h2 ! k)\<lparr>fd_flags := fd_flags (alt_fd_list h2 ! k) OR ALT_FD_DEV\<rparr>) h2"
    using h3 by (auto simp: alt_file_locked_def Let_def and_then_returns_iff split: if_splits)
  then have p3: "pool_inv h3" "\<not> fd_free h3 k" "k < length (alt_fd_list h3)"
    using h2 assms(3) by (auto simp: fd_free_def intro!: pool_inv_open_fd)
  show ?thesis
  proof (cases "sint st < 0 \<or> dev_open (D d) = None")
    case True
    then show ?thesis using rest p3 by (auto split: if_splits)
  next
    case False
    then obtain f e w where f: "dev_open (D d) = Some f" "f (alt_fd_list h3 ! k) file flags mode (world h3) = returns (status, e, w)"
        "h1 = after_call (of_nat k) e w h3"
      using rest by (auto simp: and_then_returns_iff)
    have "fdev e = fdev (alt_fd_list h3 ! k)" by (rule driver_okD(1)[OF driver f(1,2)])
    then show ?thesis using p3 assms(3) unfolding f(3) after_call_def
      by (auto simp: fd_free_def intro!: pool_inv_open_fd)
  qed
qed

lemma open_pool:
  assumes "alt_open D name flags mode h = returns (i, h')" and inv: "pool_inv h"
  shows "pool_inv h' \<and> (0 \<le> sint i \<longrightarrow> nat (sint i) < ALT_MAX_FD \<and> \<not> fd_free h' (nat (sint i)))"
proof -
  obtain found isafs index status h1 where
    find: "(case found of None \<Rightarrow> returns (- 1, - ENODEV, h)
        | Some d \<Rightarrow> (case alt_get_fd d h of (index, h) \<Rightarrow>
            if sint index < 0 then returns (index, index, h)
            else and_then (alt_open_fd_setup D d isafs name flags mode index h) (\<lambda>(status, h). returns (index, status, h)))) =
        returns (index, status, h1)"
    and rest: "(if sint status < 0 then and_then (alt_release_fd index h1) (\<lambda>h. returns (- 1, h\<lparr>errno := - status\<rparr>))
        else returns (index, h1)) = returns (i, h')"
  proof -
    note E = and_then_returns_iff[THEN iffD1]
    obtain y where y: "and_then (case y of Some d \<Rightarrow> returns (Some d, False)
          | None \<Rightarrow> and_then (defined_or_trap (alt_find_file D name (alt_fs_list h))) (\<lambda>found. returns (found, True)))
        (\<lambda>(found, isafs).
     and_then (case found of None \<Rightarrow> returns (- 1, - ENODEV, h)
               | Some d \<Rightarrow> (case alt_get_fd d h of (index, h) \<Rightarrow>
                      if sint index < 0 then returns (index, index, h)
                      else and_then (alt_open_fd_setup D d isafs name flags mode index h)
                             (\<lambda>(status, h). returns (index, status, h)))) (\<lambda>(index, status, h).
     if sint status < 0 then and_then (alt_release_fd index h) (\<lambda>h. returns (- 1, h\<lparr>errno := - status\<rparr>))
     else returns (index, h))) = returns (i, h')"
      using E[OF assms(1)[unfolded alt_open_def]] by blast
    from E[OF y] show ?thesis by (auto intro: that dest!: E)
  qed
  have "pool_inv h1 \<and> (0 \<le> sint status \<longrightarrow> 0 \<le> sint index \<and> nat (sint index) < ALT_MAX_FD \<and> \<not> fd_free h1 (nat (sint index)))"
  proof (cases found)
    case None
    then show ?thesis using find inv by (auto simp: ENODEV_def)
  next
    case (Some d)
    obtain x h2 where get: "alt_get_fd d h = (x, h2)" by fastforce
    show ?thesis
    proof (cases "sint x < 0")
      case True
      then show ?thesis using Some find get inv alt_get_fd_cases[OF get] by (auto simp: sint_of_nat_fd)
    next
      case False
      then obtain k where k: "k < ALT_MAX_FD" "x = of_nat k" "h2 = allocated d k h"
        using alt_get_fd_cases[OF get] by (auto simp: EMFILE_def)
      have "k < length (alt_fd_list h)" using inv k(1) by (simp add: pool_inv_def)
      then have "pool_inv h2" "\<not> fd_free h2 k" using pool_inv_allocated[OF inv k(1)] by (simp_all add: k(3) fd_free_def)
      then show ?thesis using setup_pool[OF _ _ k(1)] Some find get False k
        by (auto simp: and_then_returns_iff sint_of_nat_fd)
    qed
  qed
  moreover have "pool_inv h'" if "sint status < 0" "pool_inv h1"
    using rest that keeps_release[OF that(2), of index] by (auto simp: and_then_returns_iff keeps_def)
  ultimately show ?thesis using rest by (auto simp: and_then_returns_iff split: if_splits)
qed

lemma keeps_open: "pool_inv h \<Longrightarrow> keeps snd (alt_open D name flags mode h)"
  using open_pool by (auto simp: keeps_def)

lemma keeps_stat: "pool_inv h \<Longrightarrow> keeps (snd \<circ> snd) (alt_stat D name st h)"
  unfolding alt_stat_def
  by (auto intro!: keeps_step[OF keeps_open] keeps_step[OF keeps_fstat] keeps_step[OF keeps_close])

lemma keeps_open_fd:
  assumes inv: "pool_inv h" and std: "fd < 3"
  shows "keeps id (alt_open_fd D fd name flags mode h)"
  unfolding alt_open_fd_def
proof (rule keeps_and_then, rule keeps_pair, rule keeps_if)
  fix x old h1 assume x: "alt_open D name flags mode h = returns x" "x = (old, h1)"
  then have p: "pool_inv h1" "0 \<le> sint old \<Longrightarrow> nat (sint old) < ALT_MAX_FD \<and> \<not> fd_free h1 (nat (sint old))"
    using open_pool[of name flags mode h old h1] inv by simp_all
  then show "keeps id (returns h1)" by simp
  assume old: "0 \<le> sint old"
  show "keeps id (and_then (get_fd old h1) (\<lambda>e. alt_release_fd old (set_fd fd e h1)))"
  proof (rule keeps_and_then)
    fix e assume "get_fd old h1 = returns e"
    then have "fdev e \<noteq> None" using p(2)[OF old] get_fd_returns by (auto simp: fd_free_def)
    moreover have "\<not> fd_free h1 fd" "fd < ALT_MAX_FD" using p(1) std by (auto simp: pool_inv_def ALT_MAX_FD_def)
    ultimately show "keeps id (alt_release_fd old (set_fd fd e h1))"
      using p(1) by (intro keeps_release pool_inv_open_fd)
  qed
qed

lemma keeps_call: "pool_inv h \<Longrightarrow> keeps id (run_call D c h)"
  by (cases c)
     (auto simp: run_call_def alt_io_redirect_def intro!: keeps_step[OF keeps_open] keeps_step[OF keeps_close]
       keeps_step[OF keeps_read] keeps_step[OF keeps_write] keeps_step[OF keeps_lseek] keeps_step[OF keeps_fstat]
       keeps_step[OF keeps_isatty] keeps_step[OF keeps_ioctl] keeps_step[OF keeps_fcntl] keeps_step[OF keeps_stat]
       keeps_step[OF keeps_open_fd] keeps_open_fd)

lemma keeps_calls: "pool_inv h \<Longrightarrow> keeps id (run_calls D cs h)"
proof (induction cs arbitrary: h)
  case (Cons c cs)
  then show ?case by (auto intro!: keeps_step[OF keeps_call])
qed simp

end

section \<open>On the board\<close>

lemma board_driver_ok: "driver_ok (board_devices b n)"
  by (auto simp: driver_ok_def board_devices_def jtag_uart_dev_def alt_dev_null_def alt_dev_null_write_def
    altera_avalon_jtag_uart_read_fd_def altera_avalon_jtag_uart_write_fd_def and_then_returns_iff)

interpretation board: drivers "board_devices b" for b :: "'d bus"
  by unfold_locales (rule board_driver_ok)

text \<open>C12. A program makes calls after the start, any number of them with any arguments.  If they all return (none
  waits for ever, and none reads, writes, closes, seeks or controls a descriptor that is not open, which C leaves
  undefined), then the pool has its 32 descriptors, the standard streams stay attached, no free
  descriptor carries a lock or the device flag, and alt_max_fd bounds the descriptors in use.\<close>

theorem program_keeps_pool:
  assumes "alt_boot b (power_on d) = returns s" and "run_calls (board_devices b) cs (hal_part s) = returns h"
  shows "pool_inv h"
proof -
  have "pool_inv (hal_part s)" using alt_boot_booted[of b d] assms(1) by (auto simp: booted_def intro: pool_ok_inv)
  then show ?thesis using board.keeps_calls[of "hal_part s" b cs] assms(2) by (simp add: keeps_def)
qed

text \<open>fcntl does not look whether the descriptor is open.\<close>

lemma fcntl_of_closed:
  assumes "0 \<le> sint fd" and "nat (sint fd) < length (alt_fd_list h)" and "fd_free h (nat (sint fd))"
    and "fd_flags (alt_fd_list h ! nat (sint fd)) = 0"
  shows "\<exists>h'. alt_fcntl fd F_SETFL O_NONBLOCK h = returns (0, h') \<and> fd_free h' (nat (sint fd)) \<and>
    fd_flags (alt_fd_list h' ! nat (sint fd)) = O_NONBLOCK"
  using assms
  by (auto simp: alt_fcntl_def get_fd_def F_SETFL_def F_GETFL_def Let_def fd_free_def flag_defs)

lemma program_keeps_pool_witness:
  "\<exists>s h. alt_boot (core_bus JTAG_UART_0_BASE) (power_on (core_at_reset [])) = returns s \<and>
    run_calls (board_devices (core_bus JTAG_UART_0_BASE)) [Fcntl 7 F_SETFL O_NONBLOCK, Lseek (- 1) 0 0, Fcntl 1 F_GETFL 0]
      (hal_part s) = returns h \<and> pool_inv h"
proof -
  let ?b = "core_bus JTAG_UART_0_BASE" and ?d = "core_at_reset []"
  obtain s where s: "alt_boot ?b (power_on ?d) = returns s" "booted s" using alt_boot_booted[of ?b ?d] by blast
  have len: "length (alt_fd_list (hal_part s)) = 32" using s(2) by (simp add: booted_def)
  obtain h where h: "run_calls (board_devices ?b) [Fcntl 7 F_SETFL O_NONBLOCK, Lseek (- 1) 0 0, Fcntl 1 F_GETFL 0]
      (hal_part s) = returns h"
    using len by (simp add: run_call_def alt_fcntl_def alt_lseek_def get_fd_def Let_def F_SETFL_def F_GETFL_def EBADFD_def)
  from program_keeps_pool[OF s(1) h] show ?thesis using s(1) h by blast
qed

end
