(* ===== verification/Llist.thy ===== *)
theory Llist
  imports Irq
begin

text \<open>
  The doubly linked lists of the HAL (sys/alt_llist.h) on a heap of links, and the ring that
  represents a list.  An address is a number and 0 is \<open>NULL\<close>; following it is undefined.
\<close>

record llist_heap = ctl +
  ll_next :: "nat \<Rightarrow> nat"
  ll_prev :: "nat \<Rightarrow> nat"

definition set_next :: "nat \<Rightarrow> nat \<Rightarrow> 'a llist_heap_scheme \<Rightarrow> 'a llist_heap_scheme" where
  "set_next p v h = h\<lparr>ll_next := (ll_next h)(p := v)\<rparr>"

definition set_prev :: "nat \<Rightarrow> nat \<Rightarrow> 'a llist_heap_scheme \<Rightarrow> 'a llist_heap_scheme" where
  "set_prev p v h = h\<lparr>ll_prev := (ll_prev h)(p := v)\<rparr>"

definition deref :: "nat \<Rightarrow> nat option" where
  "deref p = (if p = 0 then None else Some p)"

definition ALT_LLIST_HEAD :: "nat \<Rightarrow> 'a llist_heap_scheme \<Rightarrow> 'a llist_heap_scheme" where
  "ALT_LLIST_HEAD p h = set_prev p p (set_next p p h)"

definition alt_llist_insert :: "nat \<Rightarrow> nat \<Rightarrow> 'a llist_heap_scheme \<Rightarrow> 'a llist_heap_scheme outcome" where
  "alt_llist_insert l entry h =
     (let h = set_prev entry l h;
          h = set_next entry (ll_next h l) h
      in and_then (defined_or_trap (deref (ll_next h l))) (\<lambda>next.
         returns (set_next l entry (set_prev next entry h))))"

definition alt_llist_remove :: "nat \<Rightarrow> 'a llist_heap_scheme \<Rightarrow> 'a llist_heap_scheme outcome" where
  "alt_llist_remove entry h =
     and_then (defined_or_trap (deref (ll_next h entry))) (\<lambda>next.
     (let h = set_prev next (ll_prev h entry) h
      in and_then (defined_or_trap (deref (ll_prev h entry))) (\<lambda>previous.
         (let h = set_next previous (ll_next h entry) h
          in returns (set_next entry entry (set_prev entry entry h))))))"

lemma heap_simps [simp]:
  "ll_next (set_next p v h) = (ll_next h)(p := v)" "ll_prev (set_next p v h) = ll_prev h"
  "ll_prev (set_prev p v h) = (ll_prev h)(p := v)" "ll_next (set_prev p v h) = ll_next h"
  "ctl_status (set_next p v h) = ctl_status h" "ctl_status (set_prev p v h) = ctl_status h"
  by (simp_all add: set_next_def set_prev_def)

section \<open>Rings\<close>

text \<open>\<open>chain h a xs c\<close>: following \<open>next\<close> from \<open>a\<close> one meets \<open>xs\<close> and then \<open>c\<close>, and \<open>previous\<close> leads back.\<close>

fun chain :: "'a llist_heap_scheme \<Rightarrow> nat \<Rightarrow> nat list \<Rightarrow> nat \<Rightarrow> bool" where
  "chain h a [] c \<longleftrightarrow> ll_next h a = c \<and> ll_prev h c = a"
| "chain h a (x # xs) c \<longleftrightarrow> ll_next h a = x \<and> ll_prev h x = a \<and> chain h x xs c"

definition ring :: "'a llist_heap_scheme \<Rightarrow> nat \<Rightarrow> nat list \<Rightarrow> bool" where
  "ring h p xs \<longleftrightarrow> distinct (p # xs) \<and> 0 \<notin> set (p # xs) \<and> chain h p xs p"

lemma chain_append: "chain h a (xs @ y # ys) c \<longleftrightarrow> chain h a xs y \<and> chain h y ys c"
  by (induction xs arbitrary: a) auto

lemma chain_next: "chain h a xs c \<Longrightarrow> ll_next h a = hd (xs @ [c])"
  by (cases xs) auto

lemma chain_prev: "chain h a xs c \<Longrightarrow> ll_prev h c = last (a # xs)"
  by (induction xs arbitrary: a) auto

lemma chain_cong:
  "(\<And>x. x \<in> set (a # xs) \<Longrightarrow> ll_next h' x = ll_next h x) \<Longrightarrow>
   (\<And>x. x \<in> set (xs @ [c]) \<Longrightarrow> ll_prev h' x = ll_prev h x) \<Longrightarrow> chain h' a xs c = chain h a xs c"
  by (induction xs arbitrary: a) auto

lemma ring_head: "p \<noteq> 0 \<Longrightarrow> ring (ALT_LLIST_HEAD p h) p []"
  by (simp add: ring_def ALT_LLIST_HEAD_def)

lemma ring_frame:
  "ring h p xs \<Longrightarrow> (\<And>x. x \<in> set (p # xs) \<Longrightarrow> ll_next h' x = ll_next h x \<and> ll_prev h' x = ll_prev h x) \<Longrightarrow>
   ring h' p xs"
  unfolding ring_def by (subst chain_cong[of p xs h' h p]) auto

section \<open>Insertion and removal\<close>

definition inserted :: "nat \<Rightarrow> nat \<Rightarrow> 'a llist_heap_scheme \<Rightarrow> 'a llist_heap_scheme" where
  "inserted l entry h =
     set_next l entry (set_prev (ll_next h l) entry (set_next entry (ll_next h l) (set_prev entry l h)))"

lemma alt_llist_insert_ring:
  assumes "ring h p xs" and "e \<notin> set (p # xs)" and "e \<noteq> 0"
  shows "alt_llist_insert p e h = returns (inserted p e h) \<and> ring (inserted p e h) p (e # xs)"
proof -
  have chain: "chain h p xs p" and d: "distinct (p # xs)" "0 \<notin> set (p # xs)"
    using assms(1) by (simp_all add: ring_def)
  have nxt: "ll_next h p = hd (xs @ [p])" by (rule chain_next[OF chain])
  then have "ll_next h p \<in> set (p # xs)" by (cases xs) auto
  then have "ll_next h p \<noteq> 0" "ll_next h p \<noteq> e" using d(2) assms(2) by metis+
  then have run: "alt_llist_insert p e h = returns (inserted p e h)"
    using assms(2) by (simp add: alt_llist_insert_def inserted_def deref_def Let_def)
  have "chain (inserted p e h) e xs p"
  proof (cases xs)
    case Nil
    then show ?thesis using chain assms(2) by (simp add: inserted_def)
  next
    case (Cons y ys)
    have "chain (inserted p e h) y ys p = chain h y ys p"
      by (rule chain_cong) (use Cons d(1) assms(2) nxt in \<open>auto simp: inserted_def\<close>)
    then show ?thesis using Cons chain assms(2) d(1) by (auto simp: inserted_def)
  qed
  then have "ring (inserted p e h) p (e # xs)"
    using d assms(2,3) \<open>ll_next h p \<noteq> e\<close> by (auto simp: ring_def inserted_def)
  with run show ?thesis by simp
qed

definition removed :: "nat \<Rightarrow> 'a llist_heap_scheme \<Rightarrow> 'a llist_heap_scheme" where
  "removed e h =
     set_next e e (set_prev e e (set_next (ll_prev h e) (ll_next h e) (set_prev (ll_next h e) (ll_prev h e) h)))"

lemma alt_llist_remove_eq:
  "ll_next h e \<noteq> 0 \<Longrightarrow> ll_prev h e \<noteq> 0 \<Longrightarrow> ll_next h e \<noteq> e \<Longrightarrow>
   alt_llist_remove e h = returns (removed e h)"
  by (simp add: alt_llist_remove_def removed_def deref_def Let_def)

lemma alt_llist_remove_ring:
  assumes "ring h p (xs @ e # ys)"
  shows "alt_llist_remove e h = returns (removed e h) \<and> ring (removed e h) p (xs @ ys)"
proof -
  have chain: "chain h p xs e" "chain h e ys p" and d: "distinct (p # xs @ e # ys)" "0 \<notin> set (p # xs @ e # ys)"
    using assms by (simp_all add: ring_def chain_append)
  define a where "a = last (p # xs)"
  define c where "c = hd (ys @ [p])"
  have a: "ll_prev h e = a" "a \<in> set (p # xs)" and c: "ll_next h e = c" "c \<in> set (p # ys)"
    using chain_prev[OF chain(1)] chain_next[OF chain(2)] by (auto simp: a_def c_def) (cases ys; auto)
  have ne: "a \<noteq> e" "c \<noteq> e" "a \<noteq> 0" "c \<noteq> 0" using a(2) c(2) d by auto
  have run: "alt_llist_remove e h = returns (removed e h)"
    by (rule alt_llist_remove_eq) (simp_all add: a c ne)
  have nx: "ll_next (removed e h) = (ll_next h)(a := c, e := e)"
    and pv: "ll_prev (removed e h) = (ll_prev h)(c := a, e := e)"
    by (simp_all add: removed_def a c)
  have "chain (removed e h) p (xs @ ys) p"
  proof (cases ys)
    case Nil
    then have "c = p" by (simp add: c_def)
    show ?thesis
    proof (cases xs rule: rev_cases)
      case rev_Nil: Nil
      then show ?thesis using Nil \<open>c = p\<close> d by (simp add: nx pv a_def)
    next
      case (snoc zs z)
      then have "a = z" by (simp add: a_def)
      have "chain (removed e h) p zs z = chain h p zs z"
        by (rule chain_cong) (use snoc d \<open>a = z\<close> \<open>c = p\<close> Nil in \<open>auto simp: nx pv\<close>)
      then show ?thesis using Nil snoc chain d \<open>a = z\<close> \<open>c = p\<close> by (auto simp: chain_append nx pv)
    qed
  next
    case (Cons y zs)
    then have "c = y" by (simp add: c_def)
    have tail: "chain (removed e h) y zs p = chain h y zs p"
      by (rule chain_cong) (use Cons d a(2) \<open>c = y\<close> in \<open>auto simp: nx pv\<close>)
    have front: "chain (removed e h) p xs y"
    proof (cases xs rule: rev_cases)
      case Nil
      then show ?thesis using Cons d \<open>c = y\<close> by (simp add: nx pv a_def)
    next
      case (snoc us z)
      then have "a = z" by (simp add: a_def)
      have "chain (removed e h) p us z = chain h p us z"
        by (rule chain_cong) (use snoc d \<open>a = z\<close> \<open>c = y\<close> Cons in \<open>auto simp: nx pv\<close>)
      then show ?thesis using Cons snoc chain d \<open>a = z\<close> \<open>c = y\<close> by (auto simp: chain_append nx pv)
    qed
    show ?thesis using tail front Cons chain by (simp add: chain_append)
  qed
  then have "ring (removed e h) p (xs @ ys)" using d by (simp add: ring_def)
  with run show ?thesis by simp
qed

lemma removed_self: "ll_next (removed e h) e = e" "ll_prev (removed e h) e = e"
  by (simp_all add: removed_def)

text \<open>On a ring that represents a list, alt_llist_insert makes the new entry the first element
  and alt_llist_remove takes its entry out wherever it is; a second removal of the same
  entry changes no link.\<close>

theorem llist_operations:
  assumes "ring h p (xs @ e # ys)" and "n \<notin> set (p # xs @ e # ys)" and "n \<noteq> 0"
  shows "\<exists>h1 h2 h3. alt_llist_insert p n h = returns h1 \<and> ring h1 p (n # xs @ e # ys) \<and>
    alt_llist_remove e h1 = returns h2 \<and> ring h2 p (n # xs @ ys) \<and>
    alt_llist_remove e h2 = returns h3 \<and> ll_next h3 = ll_next h2 \<and> ll_prev h3 = ll_prev h2"
proof -
  have 1: "alt_llist_insert p n h = returns (inserted p n h)" "ring (inserted p n h) p ((n # xs) @ e # ys)"
    using alt_llist_insert_ring[OF assms(1) assms(2,3)] by simp_all
  let ?h1 = "inserted p n h" and ?h2 = "removed e (inserted p n h)"
  have 2: "alt_llist_remove e ?h1 = returns ?h2" "ring ?h2 p (n # xs @ ys)"
    using alt_llist_remove_ring[OF 1(2)] by simp_all
  have "e \<noteq> 0" using assms(1) by (auto simp: ring_def)
  then have "\<exists>h3. alt_llist_remove e ?h2 = returns h3 \<and> ll_next h3 = ll_next ?h2 \<and> ll_prev h3 = ll_prev ?h2"
    by (simp add: alt_llist_remove_def deref_def removed_self Let_def fun_upd_idem)
  then show ?thesis using 1 2 by auto
qed

lemma llist_operations_witness:
  "\<exists>h1 h2 h3. alt_llist_insert 1 7 (\<lparr>ctl_status = 0, ctl_ienable = 0, ll_next = (\<lambda>_. 0)(1 := 5, 5 := 1),
      ll_prev = (\<lambda>_. 0)(1 := 5, 5 := 1)\<rparr> :: llist_heap) = returns h1 \<and> ring h1 1 [7, 5] \<and>
    alt_llist_remove 5 h1 = returns h2 \<and> ring h2 1 [7] \<and>
    alt_llist_remove 5 h2 = returns h3 \<and> ll_next h3 = ll_next h2 \<and> ll_prev h3 = ll_prev h2"
  using llist_operations[of "\<lparr>ctl_status = 0, ctl_ienable = 0, ll_next = (\<lambda>_. 0)(1 := 5, 5 := 1),
      ll_prev = (\<lambda>_. 0)(1 := 5, 5 := 1)\<rparr> :: llist_heap" 1 "[]" 5 "[]" 7] by (simp add: ring_def)

end
