(* ===== verification/Alarm.thy ===== *)
theory Alarm
  imports Llist
begin

text \<open>
  The system clock of the HAL: the tick counter, the ring of alarms and what a tick does to
  it.  An alarm is an address; its link is in the heap of Llist and its other fields are maps.
  Callbacks are numbers, and the parameter \<open>CB\<close> says what callback \<open>f\<close> does with its
  context: it returns the number of ticks to the next call, 0 for none, and may change the
  whole state.  alt_tick runs at interrupt level, so nothing else runs meanwhile.
\<close>

record 's timer = llist_heap +
  al_time :: "nat \<Rightarrow> cint"
  al_callback :: "nat \<Rightarrow> nat"
  al_context :: "nat \<Rightarrow> nat"
  al_rollover :: "nat \<Rightarrow> u8"
  tick_count :: cint
  tick_rate :: cint
  outside :: 's

type_synonym 's callback = "nat \<Rightarrow> nat \<Rightarrow> 's timer \<Rightarrow> (cint \<times> 's timer) outcome"

text \<open>The address of the head of the ring, alt_alarm_list.\<close>

definition alt_alarm_list :: nat where "alt_alarm_list = 1"

definition alt_ticks_per_second :: "'s timer \<Rightarrow> cint" where
  "alt_ticks_per_second s = tick_rate s"

definition alt_nticks :: "'s timer \<Rightarrow> cint" where
  "alt_nticks s = tick_count s"

definition alt_sysclk_init :: "cint \<Rightarrow> 's timer \<Rightarrow> cint \<times> 's timer" where
  "alt_sysclk_init nticks s = (if tick_rate s = 0 then (0, s\<lparr>tick_rate := nticks\<rparr>) else (- 1, s))"

definition timer_reset :: "'s \<Rightarrow> 's timer" where
  "timer_reset x = ALT_LLIST_HEAD alt_alarm_list
     \<lparr>ctl_status = 0, ctl_ienable = 0, ll_next = (\<lambda>_. 0), ll_prev = (\<lambda>_. 0), al_time = (\<lambda>_. 0),
      al_callback = (\<lambda>_. 0), al_context = (\<lambda>_. 0), al_rollover = (\<lambda>_. 0), tick_count = 0, tick_rate = 0,
      outside = x\<rparr>"

section \<open>Starting and stopping an alarm\<close>

definition set_time :: "nat \<Rightarrow> cint \<Rightarrow> 's timer \<Rightarrow> 's timer" where
  "set_time a v s = s\<lparr>al_time := (al_time s)(a := v)\<rparr>"

definition set_rollover :: "nat \<Rightarrow> u8 \<Rightarrow> 's timer \<Rightarrow> 's timer" where
  "set_rollover a v s = s\<lparr>al_rollover := (al_rollover s)(a := v)\<rparr>"

definition alt_alarm_start :: "nat \<Rightarrow> cint \<Rightarrow> nat \<Rightarrow> nat \<Rightarrow> 's timer \<Rightarrow> (cint \<times> 's timer) outcome" where
  "alt_alarm_start alarm nticks callback context s =
     (if alt_ticks_per_second s \<noteq> 0 then
        (if alarm \<noteq> 0 then
           (let s = s\<lparr>al_callback := (al_callback s)(alarm := callback), al_context := (al_context s)(alarm := context)\<rparr>
            in case alt_irq_disable_all s of (irq_context, s) \<Rightarrow>
              (let current_nticks = alt_nticks s;
                   s = set_time alarm (nticks + current_nticks + 1) s;
                   s = set_rollover alarm (if al_time s alarm < current_nticks then 1 else 0) s
               in and_then (alt_llist_insert alt_alarm_list alarm s) (\<lambda>s.
                  returns (0, alt_irq_enable_all irq_context s))))
         else returns (- EINVAL, s))
      else returns (- ENOTSUP, s))"

definition alt_alarm_stop :: "nat \<Rightarrow> 's timer \<Rightarrow> 's timer outcome" where
  "alt_alarm_stop alarm s =
     (case alt_irq_disable_all s of (irq_context, s) \<Rightarrow>
      and_then (alt_llist_remove alarm s) (\<lambda>s. returns (alt_irq_enable_all irq_context s)))"

section \<open>The tick\<close>

definition clear_rollover :: "nat \<Rightarrow> 's timer \<Rightarrow> 's timer" where
  "clear_rollover alarm s = (if al_rollover s alarm \<noteq> 0 \<and> tick_count s = 0 then set_rollover alarm 0 s else s)"

definition expired :: "nat \<Rightarrow> 's timer \<Rightarrow> bool" where
  "expired alarm s \<longleftrightarrow> al_time s alarm \<le> tick_count s \<and> al_rollover s alarm = 0"

definition rearm :: "nat \<Rightarrow> cint \<Rightarrow> 's timer \<Rightarrow> 's timer" where
  "rearm alarm next_callback s =
     (let s = set_time alarm (al_time s alarm + next_callback) s
      in if al_time s alarm < tick_count s then set_rollover alarm 1 s else s)"

definition alarm_expired :: "'s callback \<Rightarrow> nat \<Rightarrow> 's timer \<Rightarrow> 's timer outcome" where
  "alarm_expired CB alarm s =
     and_then (CB (al_callback s alarm) (al_context s alarm) s) (\<lambda>(next_callback, s).
     if next_callback = 0 then alt_alarm_stop alarm s else returns (rearm alarm next_callback s))"

partial_function (option) alt_tick_loop :: "'s callback \<Rightarrow> nat \<Rightarrow> 's timer \<Rightarrow> 's timer outcome" where
  "alt_tick_loop CB alarm s =
     (if alarm = alt_alarm_list then returns s
      else
        and_then (defined_or_trap (deref alarm)) (\<lambda>_.
        (let next = ll_next s alarm;
             s = clear_rollover alarm s
         in and_then (if expired alarm s then alarm_expired CB alarm s else returns s) (\<lambda>s.
            alt_tick_loop CB next s))))"

definition alt_tick :: "'s callback \<Rightarrow> 's timer \<Rightarrow> 's timer outcome" where
  "alt_tick CB s =
     (let alarm = ll_next s alt_alarm_list
      in alt_tick_loop CB alarm (s\<lparr>tick_count := tick_count s + 1\<rparr>))"

section \<open>A tick is a fold over the list of alarms\<close>

text \<open>
  Callbacks that leave the clock and the alarms alone: what they do to the rest is a function
  \<open>F\<close>.
\<close>

definition quiet :: "(nat \<Rightarrow> nat \<Rightarrow> 's \<Rightarrow> cint \<times> 's) \<Rightarrow> 's callback" where
  "quiet F f x s = (case F f x (outside s) of (r, out) \<Rightarrow> returns (r, s\<lparr>outside := out\<rparr>))"

definition serve :: "(nat \<Rightarrow> nat \<Rightarrow> 's \<Rightarrow> cint \<times> 's) \<Rightarrow> nat \<Rightarrow> 's timer \<Rightarrow> 's timer" where
  "serve F a s =
     (let s = clear_rollover a s
      in if expired a s then
           (case F (al_callback s a) (al_context s a) (outside s) of (r, out) \<Rightarrow>
              (let s = s\<lparr>outside := out\<rparr> in if r = 0 then removed a s else rearm a r s))
         else s)"

definition stays :: "(nat \<Rightarrow> nat \<Rightarrow> 's \<Rightarrow> cint \<times> 's) \<Rightarrow> nat \<Rightarrow> 's timer \<Rightarrow> bool" where
  "stays F a s \<longleftrightarrow>
     (let s = clear_rollover a s
      in \<not> (expired a s \<and> fst (F (al_callback s a) (al_context s a) (outside s)) = 0))"

fun kept :: "(nat \<Rightarrow> nat \<Rightarrow> 's \<Rightarrow> cint \<times> 's) \<Rightarrow> nat list \<Rightarrow> 's timer \<Rightarrow> nat list" where
  "kept F [] s = []"
| "kept F (a # xs) s = (if stays F a s then a # kept F xs (serve F a s) else kept F xs (serve F a s))"

lemma timer_simps [simp]:
  "ll_next (set_time a v s) = ll_next s" "ll_prev (set_time a v s) = ll_prev s"
  "ll_next (set_rollover a w s) = ll_next s" "ll_prev (set_rollover a w s) = ll_prev s"
  "tick_count (set_time a v s) = tick_count s" "tick_count (set_rollover a w s) = tick_count s"
  "al_time (set_time a v s) = (al_time s)(a := v)" "al_time (set_rollover a w s) = al_time s"
  "al_rollover (set_rollover a w s) = (al_rollover s)(a := w)" "al_rollover (set_time a v s) = al_rollover s"
  "outside (set_time a v s) = outside s" "outside (set_rollover a w s) = outside s"
  "tick_rate (set_time a v s) = tick_rate s" "tick_rate (set_rollover a w s) = tick_rate s"
  "al_callback (set_time a v s) = al_callback s" "al_callback (set_rollover a w s) = al_callback s"
  "al_context (set_time a v s) = al_context s" "al_context (set_rollover a w s) = al_context s"
  by (simp_all add: set_time_def set_rollover_def)

lemma links_clear_rollover [simp]:
  "ll_next (clear_rollover a s) = ll_next s" "ll_prev (clear_rollover a s) = ll_prev s"
  "tick_count (clear_rollover a s) = tick_count s" "al_time (clear_rollover a s) = al_time s"
  "al_callback (clear_rollover a s) = al_callback s" "al_context (clear_rollover a s) = al_context s"
  "outside (clear_rollover a s) = outside s"
  by (simp_all add: clear_rollover_def)

lemma links_rearm [simp]: "ll_next (rearm a r s) = ll_next s" "ll_prev (rearm a r s) = ll_prev s"
  by (simp_all add: rearm_def Let_def)

lemma ring_links: "ll_next h' = ll_next h \<Longrightarrow> ll_prev h' = ll_prev h \<Longrightarrow> ring h' p xs = ring h p xs"
  unfolding ring_def by (subst chain_cong[of p xs h' h p]) auto

lemma ring_next: "ring h p (xs @ a # ys) \<Longrightarrow> ll_next h a = hd (ys @ [p])"
  by (auto simp: ring_def chain_append dest: chain_next)

lemma removed_other_status: "ctl_status (removed a s) = ctl_status s"
  by (simp add: removed_def)

lemma alt_alarm_stop_ring:
  "ring s p (xs @ a # ys) \<Longrightarrow> alt_alarm_stop a s = returns (removed a s)"
proof -
  assume r: "ring s p (xs @ a # ys)"
  let ?s = "s\<lparr>ctl_status := ctl_status s AND NOT NIOS2_STATUS_PIE_MSK\<rparr>"
  have "ring ?s p (xs @ a # ys)" using r by (subst ring_links[of _ s]) simp_all
  from alt_llist_remove_ring[OF this]
  have "alt_llist_remove a ?s = returns (removed a ?s)" by simp
  moreover have "(removed a ?s)\<lparr>ctl_status := ctl_status s\<rparr> = removed a s"
    by (simp add: removed_def set_next_def set_prev_def)
  ultimately show ?thesis
    by (simp add: alt_alarm_stop_def alt_irq_disable_all_def alt_irq_enable_all_def Let_def)
qed

lemma ring_serve:
  "ring s p (xs @ a # ys) \<Longrightarrow> ring (serve F a s) p (xs @ (if stays F a s then [a] else []) @ ys)"
proof -
  assume r: "ring s p (xs @ a # ys)"
  have "ring (removed a (clear_rollover a s\<lparr>outside := out\<rparr>)) p (xs @ ys)" for out
    by (rule conjunct2[OF alt_llist_remove_ring]) (use r in \<open>subst ring_links[of _ s], simp_all\<close>)
  moreover have "ring (rearm a v (clear_rollover a s\<lparr>outside := out\<rparr>)) p (xs @ a # ys)" for v out
    using r by (subst ring_links[of _ s]) simp_all
  moreover have "ring (clear_rollover a s) p (xs @ a # ys)"
    using r by (subst ring_links[of _ s]) simp_all
  ultimately show ?thesis by (auto simp: serve_def stays_def Let_def split: prod.split)
qed

lemma alt_tick_loop_fold:
  "ring s alt_alarm_list (xs @ ys) \<Longrightarrow>
   alt_tick_loop (quiet F) (hd (ys @ [alt_alarm_list])) s = returns (fold (serve F) ys s) \<and>
   ring (fold (serve F) ys s) alt_alarm_list (xs @ kept F ys s)"
proof (induction ys arbitrary: xs s)
  case Nil
  then show ?case by (subst alt_tick_loop.simps) simp
next
  case (Cons a ys)
  have "a \<noteq> alt_alarm_list" "a \<noteq> 0" using Cons.prems by (auto simp: ring_def)
  moreover have nxt: "ll_next s a = hd (ys @ [alt_alarm_list])" by (rule ring_next[OF Cons.prems])
  moreover have "ring (clear_rollover a s\<lparr>outside := out\<rparr>) alt_alarm_list (xs @ a # ys)" for out
    using Cons.prems by (subst ring_links[of _ s]) simp_all
  note stop = alt_alarm_stop_ring[OF this]
  have "(if expired a (clear_rollover a s) then alarm_expired (quiet F) a (clear_rollover a s)
      else returns (clear_rollover a s)) = returns (serve F a s)"
    by (auto simp: alarm_expired_def quiet_def serve_def Let_def stop split: prod.split)
  ultimately have step: "alt_tick_loop (quiet F) a s = alt_tick_loop (quiet F) (hd (ys @ [alt_alarm_list])) (serve F a s)"
    by (subst alt_tick_loop.simps) (simp add: deref_def Let_def)
  have "ring (serve F a s) alt_alarm_list ((xs @ (if stays F a s then [a] else [])) @ ys)"
    using ring_serve[OF Cons.prems, of F] by simp
  from Cons.IH[OF this] show ?case using step by (auto split: if_splits)
qed

text \<open>When the callbacks leave the clock alone, a tick on a ring of alarms returns, counts,
  and treats every alarm of the list once, in list order; the alarms that stay are those
  not expired or whose callback asked for another call.\<close>

theorem alt_tick_fold:
  assumes "ring s alt_alarm_list xs"
  shows "alt_tick (quiet F) s = returns (fold (serve F) xs (s\<lparr>tick_count := tick_count s + 1\<rparr>)) \<and>
    ring (fold (serve F) xs (s\<lparr>tick_count := tick_count s + 1\<rparr>)) alt_alarm_list
      (kept F xs (s\<lparr>tick_count := tick_count s + 1\<rparr>))"
proof -
  let ?s = "s\<lparr>tick_count := tick_count s + 1\<rparr>"
  have "ll_next s alt_alarm_list = hd (xs @ [alt_alarm_list])"
    using assms chain_next by (auto simp: ring_def)
  moreover have "ring ?s alt_alarm_list ([] @ xs)"
    using assms by (subst ring_links[of _ s]) simp_all
  ultimately show ?thesis using alt_tick_loop_fold[of ?s "[]" xs F] by (simp add: alt_tick_def Let_def)
qed

section \<open>When an alarm goes off\<close>

fun ticks :: "'s callback \<Rightarrow> nat \<Rightarrow> 's timer \<Rightarrow> 's timer outcome" where
  "ticks CB 0 s = returns s"
| "ticks CB (Suc k) s = and_then (ticks CB k s) (alt_tick CB)"

text \<open>
  The fields of the alarm \<open>k\<close> ticks after the start at tick \<open>t\<close>, before it has gone off: the due time
  \<open>T\<close> as a number that does not wrap, and the flag set while the counter has still to wrap.
\<close>

definition waiting :: "nat \<Rightarrow> nat \<Rightarrow> nat \<Rightarrow> nat \<Rightarrow> 's timer \<Rightarrow> bool" where
  "waiting a t T k s \<longleftrightarrow>
     tick_count s = of_nat (t + k) \<and> al_time s a = of_nat T \<and>
     al_rollover s a = (if 2 ^ 32 \<le> T \<and> t + k < 2 ^ 32 then 1 else 0)"

lemma unat_of_nat_wrap:
  "n < 2 * 2 ^ 32 \<Longrightarrow> unat (of_nat n :: cint) = (if n < 2 ^ 32 then n else n - 2 ^ 32)"
proof -
  assume n: "n < 2 * 2 ^ 32"
  have "n mod 2 ^ 32 = n - 2 ^ 32" if "2 ^ 32 \<le> n"
    using that n by (simp add: le_mod_geq)
  then show ?thesis by (simp add: unat_of_nat)
qed

lemma of_nat_0_wrap: "n < 2 * 2 ^ 32 \<Longrightarrow> (of_nat n :: cint) = 0 \<longleftrightarrow> n = 0 \<or> n = 2 ^ 32"
  using unat_of_nat_wrap[of n] by (auto simp: unat_eq_0[symmetric] split: if_splits)

lemma waiting_ticked:
  assumes w: "tick_count s = of_nat (t + Suc k)" "al_time s a = of_nat T"
      "al_rollover s a = (if 2 ^ 32 \<le> T \<and> t + k < 2 ^ 32 then 1 else 0)"
    and "t < 2 ^ 32" and "T < 2 * 2 ^ 32" and "t + k < T"
  shows "waiting a t T (Suc k) (clear_rollover a s)" "expired a (clear_rollover a s) = (t + Suc k = T)"
proof -
  have z: "tick_count s = 0 \<longleftrightarrow> t + Suc k = 2 ^ 32"
    using assms(5,6) by (simp only: w(1)) (subst of_nat_0_wrap, auto)
  have roll: "al_rollover (clear_rollover a s) a = (if 2 ^ 32 \<le> T \<and> t + Suc k < 2 ^ 32 then 1 else 0)"
    using w(3) z by (cases "2 ^ 32 \<le> T \<and> t + k < 2 ^ 32") (auto simp: clear_rollover_def)
  then show "waiting a t T (Suc k) (clear_rollover a s)"
    unfolding waiting_def by (simp only: links_clear_rollover w)
  have "(of_nat T :: cint) \<le> of_nat (t + Suc k) \<longleftrightarrow> unat (of_nat T :: cint) \<le> unat (of_nat (t + Suc k) :: cint)"
    by (rule word_le_nat_alt)
  moreover have "unat (of_nat T :: cint) = (if T < 2 ^ 32 then T else T - 2 ^ 32)"
    using assms(5) by (rule unat_of_nat_wrap)
  moreover have "unat (of_nat (t + Suc k) :: cint) = (if t + Suc k < 2 ^ 32 then t + Suc k else t + Suc k - 2 ^ 32)"
    using assms(5,6) by (intro unat_of_nat_wrap) simp
  ultimately show "expired a (clear_rollover a s) = (t + Suc k = T)"
    unfolding expired_def links_clear_rollover w roll using assms(6) by (auto split: if_splits)
qed

lemma alt_tick_single:
  assumes "ring s alt_alarm_list [a]"
  shows "alt_tick (quiet F) s = returns (serve F a (s\<lparr>tick_count := tick_count s + 1\<rparr>))"
  using alt_tick_loop_fold[of "s\<lparr>tick_count := tick_count s + 1\<rparr>" "[]" "[a]" F] assms
    ring_links[of "s\<lparr>tick_count := tick_count s + 1\<rparr>" s alt_alarm_list "[a]"]
  by (simp add: alt_tick_def ring_def)

text \<open>What the other alarms of the ring do to this one: nothing.  \<open>obs\<close> is a part of the outside that their
  callbacks leave alone.\<close>

definition spares :: "('s \<Rightarrow> 'v) \<Rightarrow> (nat \<Rightarrow> nat \<Rightarrow> 's \<Rightarrow> cint \<times> 's) \<Rightarrow> 's timer \<Rightarrow> nat \<Rightarrow> bool" where
  "spares obs F s b \<longleftrightarrow> (\<forall>out. obs (snd (F (al_callback s b) (al_context s b) out)) = obs out)"

lemma removed_fields [simp]:
  "tick_count (removed b s) = tick_count s" "al_time (removed b s) = al_time s" "al_rollover (removed b s) = al_rollover s"
  "al_callback (removed b s) = al_callback s" "al_context (removed b s) = al_context s" "outside (removed b s) = outside s"
  by (simp_all add: removed_def set_next_def set_prev_def)

lemma rearm_fields [simp]:
  "tick_count (rearm b r s) = tick_count s" "al_callback (rearm b r s) = al_callback s"
  "al_context (rearm b r s) = al_context s" "outside (rearm b r s) = outside s"
  by (simp_all add: rearm_def Let_def)

lemma serve_fields:
  "tick_count (serve F b s) = tick_count s" "al_callback (serve F b s) = al_callback s"
  "al_context (serve F b s) = al_context s"
  "a \<noteq> b \<Longrightarrow> al_time (serve F b s) a = al_time s a" "a \<noteq> b \<Longrightarrow> al_rollover (serve F b s) a = al_rollover s a"
  "spares obs F s b \<Longrightarrow> obs (outside (serve F b s)) = obs (outside s)"
  "stays F b s \<Longrightarrow> \<not> expired b (clear_rollover b s) \<Longrightarrow> serve F b s = clear_rollover b s"
  by (auto simp: serve_def Let_def rearm_def clear_rollover_def spares_def split: prod.splits)
     (metis snd_conv)+

lemma spares_cong:
  "al_callback s' = al_callback s \<Longrightarrow> al_context s' = al_context s \<Longrightarrow> spares obs F s' = spares obs F s"
  by (simp add: spares_def fun_eq_iff)

lemma fold_serve_fields:
  "tick_count (fold (serve F) bs s) = tick_count s" "al_callback (fold (serve F) bs s) = al_callback s"
  "al_context (fold (serve F) bs s) = al_context s"
  by (induction bs arbitrary: s) (simp_all add: serve_fields)

lemma fold_serve_others:
  "a \<notin> set bs \<Longrightarrow> al_time (fold (serve F) bs s) a = al_time s a"
  "a \<notin> set bs \<Longrightarrow> al_rollover (fold (serve F) bs s) a = al_rollover s a"
  by (induction bs arbitrary: s) (auto simp: serve_fields)

lemma fold_serve_obs:
  "list_all (spares obs F s) bs \<Longrightarrow> obs (outside (fold (serve F) bs s)) = obs (outside s)"
proof (induction bs arbitrary: s)
  case (Cons b bs)
  have "spares obs F (serve F b s) = spares obs F s" by (rule spares_cong) (simp_all add: serve_fields)
  with Cons show ?case by (simp add: serve_fields(6))
qed simp

lemma kept_append: "kept F (us @ vs) s = kept F us s @ kept F vs (fold (serve F) us s)"
  by (induction us arbitrary: s) auto

lemma kept_subset: "set (kept F xs s) \<subseteq> set xs"
  by (induction xs arbitrary: s) auto

text \<open>One tick: before its time the alarm stays and its callback does not run; in time it does.\<close>

lemma tick_with_others:
  assumes "ring s alt_alarm_list ys" and "a \<in> set ys" and w: "waiting a t T k s" and b: "t < 2 ^ 32" "T < 2 * 2 ^ 32" "t + k < T"
    and others: "list_all (spares obs F s) (remove1 a ys)"
  shows "\<exists>s' zs. alt_tick (quiet F) s = returns s' \<and> ring s' alt_alarm_list zs \<and> set zs \<subseteq> set ys \<and>
    al_callback s' = al_callback s \<and> al_context s' = al_context s \<and>
    (t + Suc k < T \<longrightarrow> a \<in> set zs \<and> waiting a t T (Suc k) s' \<and> obs (outside s') = obs (outside s)) \<and>
    (t + Suc k = T \<longrightarrow> (\<exists>out. obs out = obs (outside s) \<and>
      obs (outside s') = obs (snd (F (al_callback s a) (al_context s a) out))))"
proof -
  obtain us vs where ys: "ys = us @ a # vs" "a \<notin> set us" "a \<notin> set vs"
    using assms(1,2) by (auto simp: ring_def dest!: split_list)
  let ?s1 = "s\<lparr>tick_count := tick_count s + 1\<rparr>"
  define s2 where "s2 = fold (serve F) us ?s1"
  define s4 where "s4 = fold (serve F) vs (serve F a s2)"
  have o: "list_all (spares obs F ?s1) us" "list_all (spares obs F (serve F a s2)) vs"
    using others ys spares_cong[of ?s1 s obs F] spares_cong[of "serve F a s2" s obs F]
    by (simp_all add: remove1_append s2_def serve_fields fold_serve_fields)
  have s2: "tick_count s2 = of_nat (t + Suc k)" "al_time s2 a = of_nat T"
    "al_rollover s2 a = (if 2 ^ 32 \<le> T \<and> t + k < 2 ^ 32 then 1 else 0)" "obs (outside s2) = obs (outside s)"
    using w ys(2) fold_serve_obs[OF o(1)] by (simp_all add: s2_def fold_serve_fields fold_serve_others waiting_def)
  note c = waiting_ticked[OF s2(1-3) b]
  have run: "alt_tick (quiet F) s = returns s4" "ring s4 alt_alarm_list (kept F ys ?s1)"
    using alt_tick_fold[OF assms(1), of F] by (simp_all add: ys s2_def s4_def)
  have cb: "al_callback s4 = al_callback s" "al_context s4 = al_context s" "al_callback s2 = al_callback s"
    "al_context s2 = al_context s"
    by (simp_all add: s4_def s2_def serve_fields fold_serve_fields)
  have s4: "obs (outside s4) = obs (outside (serve F a s2))" using fold_serve_obs[OF o(2)] by (simp add: s4_def)
  have "a \<in> set (kept F ys ?s1) \<and> waiting a t T (Suc k) s4 \<and> obs (outside s4) = obs (outside s)" if "t + Suc k < T"
  proof -
    have "\<not> expired a (clear_rollover a s2)" using c(2) that by simp
    then have st: "stays F a s2" "serve F a s2 = clear_rollover a s2"
      by (simp_all add: stays_def serve_def Let_def)
    then show ?thesis
      using c(1) s4 s2(4) ys(3)
      by (simp add: ys(1) kept_append s2_def[symmetric] waiting_def s4_def fold_serve_fields fold_serve_others)
  qed
  moreover have "\<exists>out. obs out = obs (outside s) \<and> obs (outside s4) = obs (snd (F (al_callback s a) (al_context s a) out))"
    if "t + Suc k = T"
  proof -
    have "expired a (clear_rollover a s2)" using c(2) that by simp
    then have "outside (serve F a s2) = snd (F (al_callback s a) (al_context s a) (outside s2))"
      by (simp add: serve_def Let_def cb split: prod.split)
    then show ?thesis using s4 s2(4) by auto
  qed
  ultimately show ?thesis
    using run cb kept_subset[of F ys ?s1] by (intro exI[of _ s4] exI[of _ "kept F ys ?s1"]) simp
qed

lemma waiting_ticks:
  assumes "ring s alt_alarm_list ys" and "a \<in> set ys" and "waiting a t T 0 s" and b: "t < 2 ^ 32" "T < 2 * 2 ^ 32"
    and others: "list_all (spares obs F s) (remove1 a ys)"
  shows "t + k < T \<Longrightarrow> \<exists>s' zs. ticks (quiet F) k s = returns s' \<and> ring s' alt_alarm_list zs \<and> a \<in> set zs \<and>
    waiting a t T k s' \<and> obs (outside s') = obs (outside s) \<and> list_all (spares obs F s') (remove1 a zs) \<and>
    al_callback s' = al_callback s \<and> al_context s' = al_context s"
proof (induction k)
  case (Suc k)
  then obtain s1 zs1 where i: "ticks (quiet F) k s = returns s1" "ring s1 alt_alarm_list zs1" "a \<in> set zs1"
    "waiting a t T k s1" "obs (outside s1) = obs (outside s)" "list_all (spares obs F s1) (remove1 a zs1)"
    "al_callback s1 = al_callback s" "al_context s1 = al_context s" by auto
  have k: "t + k < T" "t + Suc k < T" using Suc.prems by simp_all
  from tick_with_others[OF i(2-4) b k(1) i(6)] k(2) obtain s' zs where t: "alt_tick (quiet F) s1 = returns s'"
    "ring s' alt_alarm_list zs" "set zs \<subseteq> set zs1" "al_callback s' = al_callback s1" "al_context s' = al_context s1"
    "a \<in> set zs" "waiting a t T (Suc k) s'" "obs (outside s') = obs (outside s1)" by auto
  have "set (remove1 a zs) \<subseteq> set (remove1 a zs1)"
    using t(2,3) i(2) by (auto simp: ring_def set_remove1_eq)
  then have "list_all (spares obs F s') (remove1 a zs)"
    using i(6) t(4,5) by (auto simp: list_all_iff spares_def)
  then show ?case using t i by auto
qed (use assms in auto)

lemma alt_alarm_start_waiting:
  assumes "ring s alt_alarm_list xs" and "a \<notin> set xs" and "a \<noteq> 0" and "a \<noteq> alt_alarm_list" and "tick_rate s \<noteq> 0"
    and "unat n < 2 ^ 32 - 1"
  shows "\<exists>s0. alt_alarm_start a n f x s = returns (0, s0) \<and> ring s0 alt_alarm_list (a # xs) \<and>
    waiting a (unat (tick_count s)) (unat (tick_count s) + unat n + 1) 0 s0 \<and> outside s0 = outside s \<and>
    al_callback s0 = (al_callback s)(a := f) \<and> al_context s0 = (al_context s)(a := x)"
proof -
  let ?t = "unat (tick_count s)"
  let ?s = "s\<lparr>al_callback := (al_callback s)(a := f), al_context := (al_context s)(a := x),
    ctl_status := ctl_status s AND NOT NIOS2_STATUS_PIE_MSK\<rparr>"
  let ?s1 = "set_time a (n + tick_count s + 1) ?s"
  let ?s2 = "set_rollover a (if n + tick_count s + 1 < tick_count s then 1 else 0) ?s1"
  have "ring ?s2 alt_alarm_list xs" using assms(1) by (subst ring_links[of _ s]) simp_all
  from alt_llist_insert_ring[OF this] assms(2,3,4)
  have ins: "alt_llist_insert alt_alarm_list a ?s2 = returns (inserted alt_alarm_list a ?s2)"
    "ring (inserted alt_alarm_list a ?s2) alt_alarm_list (a # xs)" by simp_all
  let ?s3 = "(inserted alt_alarm_list a ?s2)\<lparr>ctl_status := ctl_status s\<rparr>"
  have run: "alt_alarm_start a n f x s = returns (0, ?s3)"
    using assms(3,5) ins(1)
    by (simp add: alt_alarm_start_def alt_ticks_per_second_def alt_nticks_def alt_irq_disable_all_def
        alt_irq_enable_all_def Let_def)
  have time: "n + tick_count s + 1 = of_nat (?t + unat n + 1)" by (simp add: ac_simps)
  have small: "?t < 2 ^ 32" "?t + unat n + 1 < 2 * 2 ^ 32"
    using unat_bound[of "tick_count s"] assms(6) by simp_all
  have "n + tick_count s + 1 < tick_count s \<longleftrightarrow> 2 ^ 32 \<le> ?t + unat n + 1"
    unfolding word_less_nat_alt time unat_of_nat_wrap[OF small(2)]
    using small(1) assms(6) by auto
  then have roll: "al_rollover ?s2 a = (if 2 ^ 32 \<le> ?t + unat n + 1 \<and> ?t + 0 < 2 ^ 32 then 1 else 0)"
    using small(1) by simp
  have fields: "al_rollover ?s3 = al_rollover ?s2" "al_time ?s3 = al_time ?s2" "tick_count ?s3 = tick_count s"
    "al_callback ?s3 = (al_callback s)(a := f)" "al_context ?s3 = (al_context s)(a := x)" "outside ?s3 = outside s"
    by (simp_all add: inserted_def set_next_def set_prev_def)
  have "ring ?s3 alt_alarm_list (a # xs)" using ins(2) by (subst ring_links[of _ "inserted alt_alarm_list a ?s2"]) simp_all
  moreover have "waiting a ?t (?t + unat n + 1) 0 ?s3"
    unfolding waiting_def
  proof (intro conjI)
    show "al_rollover ?s3 a = (if 2 ^ 32 \<le> ?t + unat n + 1 \<and> ?t + 0 < 2 ^ 32 then 1 else 0)"
      by (simp only: fields roll)
    show "al_time ?s3 a = of_nat (?t + unat n + 1)" unfolding fields by (simp only: timer_simps time) simp
    show "tick_count ?s3 = of_nat (?t + 0)" unfolding fields by simp
  qed
  ultimately show ?thesis using run fields(4-6) by (intro exI[of _ ?s3]) simp
qed

lemma alarm_goes_off:
  assumes "ring s alt_alarm_list xs" and "a \<notin> set xs" and "a \<noteq> 0" and "a \<noteq> alt_alarm_list"
    and "tick_rate s \<noteq> 0" and "unat n < 2 ^ 32 - 1"
    and own: "\<And>out. obs (snd (F f x out)) = act (obs out)"
    and others: "\<And>b out. b \<in> set xs \<Longrightarrow> obs (snd (F (al_callback s b) (al_context s b) out)) = obs out"
  shows "\<exists>s0. alt_alarm_start a n f x s = returns (0, s0) \<and>
    (\<forall>k \<le> unat n. \<exists>s'. ticks (quiet F) k s0 = returns s' \<and> obs (outside s') = obs (outside s)) \<and>
    (\<exists>s'. ticks (quiet F) (unat n + 1) s0 = returns s' \<and> obs (outside s') = act (obs (outside s)))"
proof -
  let ?t = "unat (tick_count s)" and ?T = "unat (tick_count s) + unat n + 1"
  obtain s0 where s0: "alt_alarm_start a n f x s = returns (0, s0)" "ring s0 alt_alarm_list (a # xs)"
    "waiting a ?t ?T 0 s0" "outside s0 = outside s" "al_callback s0 = (al_callback s)(a := f)"
    "al_context s0 = (al_context s)(a := x)"
    using alt_alarm_start_waiting[OF assms(1-6), of f x] by blast
  have small: "?t < 2 ^ 32" "?T < 2 * 2 ^ 32" using unat_bound[of "tick_count s"] assms(6) by simp_all
  have "list_all (spares obs F s0) (remove1 a (a # xs))"
    using others assms(2) s0(5,6) by (auto simp: list_all_iff spares_def)
  note w = waiting_ticks[OF s0(2) _ s0(3) small this, simplified]
  have "\<forall>k \<le> unat n. \<exists>s'. ticks (quiet F) k s0 = returns s' \<and> obs (outside s') = obs (outside s)"
  proof (intro allI impI)
    fix k assume "k \<le> unat n"
    then show "\<exists>s'. ticks (quiet F) k s0 = returns s' \<and> obs (outside s') = obs (outside s)"
      using w[of k] s0(4) by auto
  qed
  moreover obtain s1 zs where s1: "ticks (quiet F) (unat n) s0 = returns s1" "ring s1 alt_alarm_list zs" "a \<in> set zs"
    "waiting a ?t ?T (unat n) s1" "obs (outside s1) = obs (outside s)" "list_all (spares obs F s1) (remove1 a zs)"
    "al_callback s1 = al_callback s0" "al_context s1 = al_context s0"
    using w[of "unat n"] s0(4) by auto
  have "?t + unat n < ?T" "?t + Suc (unat n) = ?T" by simp_all
  then have "\<exists>s'. ticks (quiet F) (unat n + 1) s0 = returns s' \<and> obs (outside s') = act (obs (outside s))"
    using tick_with_others[OF s1(2-4) small _ s1(6)] s1 s0(5,6) own by auto
  ultimately show ?thesis using s0(1) by blast
qed

text \<open>With no other alarm in the ring.\<close>

lemma alarm_first:
  assumes "ring s alt_alarm_list []" and "a \<noteq> 0" and "a \<noteq> alt_alarm_list" and "tick_rate s \<noteq> 0"
    and "unat n < 2 ^ 32 - 1"
  shows "\<exists>s0. alt_alarm_start a n f x s = returns (0, s0) \<and>
    (\<forall>k \<le> unat n. \<exists>s'. ticks (quiet F) k s0 = returns s' \<and> outside s' = outside s) \<and>
    (\<exists>s'. ticks (quiet F) (unat n + 1) s0 = returns s' \<and> outside s' = snd (F f x (outside s)))"
  using alarm_goes_off[of s "[]" a n "\<lambda>out. out" F f x "\<lambda>out. snd (F f x out)"] assms by simp

text \<open>C16. Any number of alarms may be in the ring, whose callbacks leave the clock and the alarms themselves alone
  and otherwise do what they like to the rest of the state, but for a part \<open>obs\<close> of it.  An alarm started
  for n ticks, whose callback acts on that part, runs its callback at tick n + 1 after the start and not
  before: up to tick n the part is unchanged, and after tick n + 1 the callback has acted on it exactly
  once.  This holds even when the tick counter wraps in between, for every n below 2^32 - 1.\<close>

theorem alarm_due:
  assumes "ring s alt_alarm_list xs" and "a \<notin> set xs" and "a \<noteq> 0" and "a \<noteq> alt_alarm_list"
    and "tick_rate s \<noteq> 0" and "unat n < 2 ^ 32 - 1"
    and own: "\<And>out. obs (snd (F f x out)) = act (obs out)"
    and others: "\<And>b out. b \<in> set xs \<Longrightarrow> obs (snd (F (al_callback s b) (al_context s b) out)) = obs out"
  shows "\<exists>s0. alt_alarm_start a n f x s = returns (0, s0) \<and>
    (\<forall>k \<le> unat n. \<exists>s'. ticks (quiet F) k s0 = returns s' \<and> obs (outside s') = obs (outside s)) \<and>
    (\<exists>s'. ticks (quiet F) (unat n + 1) s0 = returns s' \<and> obs (outside s') = act (obs (outside s)))"
  by (rule alarm_goes_off[OF assms])

text \<open>A timer that has been running for almost 2^32 ticks, whose callback logs its context.\<close>

definition late_timer :: "nat list timer" where
  "late_timer = (timer_reset [])\<lparr>tick_count := - 2, tick_rate := 1000\<rparr>"

definition log_callback :: "nat \<Rightarrow> nat \<Rightarrow> nat list \<Rightarrow> cint \<times> nat list" where
  "log_callback f x out = (0, out @ [x])"

lemma late_timer_ring: "ring late_timer alt_alarm_list []" "tick_rate late_timer \<noteq> 0" "outside late_timer = []"
  "tick_count late_timer \<noteq> - 1"
  by (simp_all add: late_timer_def timer_reset_def ALT_LLIST_HEAD_def ring_def alt_alarm_list_def set_next_def set_prev_def)

text \<open>The same with alarm 3 in the ring, whose callback 1 asks to be called at every tick and counts the calls.\<close>

definition busy_timer :: "(nat list \<times> nat) timer" where
  "busy_timer = (timer_reset ([], 0))\<lparr>ll_next := (\<lambda>_. 0)(1 := 3, 3 := 1), ll_prev := (\<lambda>_. 0)(1 := 3, 3 := 1),
     al_callback := (\<lambda>_. 0)(3 := 1), tick_count := - 2, tick_rate := 1000\<rparr>"

definition busy_callbacks :: "nat \<Rightarrow> nat \<Rightarrow> nat list \<times> nat \<Rightarrow> cint \<times> nat list \<times> nat" where
  "busy_callbacks f x out = (if f = 1 then (1, fst out, Suc (snd out)) else (0, fst out @ [x], snd out))"

lemma busy_timer_ring: "ring busy_timer alt_alarm_list [3]" "tick_rate busy_timer \<noteq> 0" "outside busy_timer = ([], 0)"
  "al_callback busy_timer 3 = 1"
  by (simp_all add: busy_timer_def timer_reset_def ALT_LLIST_HEAD_def ring_def alt_alarm_list_def set_next_def set_prev_def)

lemma alarm_due_witness:
  "\<exists>s0. alt_alarm_start 2 5 0 9 busy_timer = returns (0, s0) \<and>
    (\<forall>k \<le> 5. \<exists>s'. ticks (quiet busy_callbacks) k s0 = returns s' \<and> fst (outside s') = []) \<and>
    (\<exists>s'. ticks (quiet busy_callbacks) 6 s0 = returns s' \<and> fst (outside s') = [9])"
  using alarm_due[OF busy_timer_ring(1) _ _ _ busy_timer_ring(2), of 2 5 fst busy_callbacks 0 9 "\<lambda>v. v @ [9]"]
  by (simp add: alt_alarm_list_def busy_timer_ring busy_callbacks_def)

text \<open>The greatest number of ticks is not covered by the roll-over flag: an alarm started for
  2^32 - 1 ticks goes off at the next tick.\<close>

theorem alarm_max_at_once:
  assumes "ring s alt_alarm_list []" and "a \<noteq> 0" and "a \<noteq> alt_alarm_list" and "tick_rate s \<noteq> 0"
    and "tick_count s \<noteq> - 1"
  shows "\<exists>s0 s'. alt_alarm_start a (- 1) f x s = returns (0, s0) \<and>
    alt_tick (quiet F) s0 = returns s' \<and> outside s' = snd (F f x (outside s))"
proof -
  let ?s = "s\<lparr>al_callback := (al_callback s)(a := f), al_context := (al_context s)(a := x),
    ctl_status := ctl_status s AND NOT NIOS2_STATUS_PIE_MSK\<rparr>"
  let ?s2 = "set_rollover a 0 (set_time a (tick_count s) ?s)"
  have "ring ?s2 alt_alarm_list []" using assms(1) by (subst ring_links[of _ s]) simp_all
  from alt_llist_insert_ring[OF this] assms(2,3)
  have ins: "alt_llist_insert alt_alarm_list a ?s2 = returns (inserted alt_alarm_list a ?s2)"
    "ring (inserted alt_alarm_list a ?s2) alt_alarm_list [a]" by simp_all
  let ?s3 = "(inserted alt_alarm_list a ?s2)\<lparr>ctl_status := ctl_status s\<rparr>"
  have "alt_alarm_start a (- 1) f x s = returns (0, ?s3)"
    using assms(2,4) ins(1)
    by (simp add: alt_alarm_start_def alt_ticks_per_second_def alt_nticks_def alt_irq_disable_all_def
        alt_irq_enable_all_def Let_def)
  moreover have "ring ?s3 alt_alarm_list [a]"
    using ins(2) by (subst ring_links[of _ "inserted alt_alarm_list a ?s2"]) simp_all
  then have "alt_tick (quiet F) ?s3 = returns (serve F a (?s3\<lparr>tick_count := tick_count ?s3 + 1\<rparr>))"
    by (rule alt_tick_single)
  moreover have "outside (serve F a (?s3\<lparr>tick_count := tick_count ?s3 + 1\<rparr>)) = snd (F f x (outside s))"
  proof -
    have "1 + tick_count s \<noteq> 0" using assms(5) by (metis add.commute eq_neg_iff_add_eq_0)
    then have "tick_count s \<le> 1 + tick_count s" by (simp add: word_le_nat_alt unatSuc)
    then show ?thesis
      by (auto simp: serve_def Let_def clear_rollover_def expired_def inserted_def set_next_def set_prev_def
          removed_def rearm_def set_time_def set_rollover_def add.commute split: prod.split)
  qed
  ultimately show ?thesis by blast
qed

lemma alarm_max_at_once_witness:
  "\<exists>s0 s'. alt_alarm_start 2 (- 1) 0 9 late_timer = returns (0, s0) \<and>
    alt_tick (quiet log_callback) s0 = returns s' \<and> outside s' = [9]"
  using alarm_max_at_once[OF late_timer_ring(1) _ _ late_timer_ring(2), of 2 0 9 log_callback]
  by (simp add: alt_alarm_list_def late_timer_ring(3,4) log_callback_def)

section \<open>A callback that stops the next alarm\<close>

text \<open>
  alt_tick reads the link to the next alarm before the callback.  When the callback stops that
  alarm, its links point to itself and the loop never gets back to the head.
\<close>

lemma alt_tick_loop_stuck:
  assumes "a \<noteq> alt_alarm_list" and "ll_next s a = a" and "tick_count s \<noteq> 0" and "\<not> expired a s" and "a \<noteq> 0"
  shows "alt_tick_loop CB a s = None"
proof (rule ccontr)
  assume "alt_tick_loop CB a s \<noteq> None"
  then obtain y where y: "alt_tick_loop CB a s = Some y" by blast
  have "\<not> (a \<noteq> alt_alarm_list \<and> ll_next s a = a \<and> tick_count s \<noteq> 0 \<and> \<not> expired a s \<and> a \<noteq> 0)"
    using y
  proof (induction rule: alt_tick_loop.raw_induct[rotated, consumes 1, case_names turn])
    case (turn loop CB a s y)
    show ?case
    proof
      assume a: "a \<noteq> alt_alarm_list \<and> ll_next s a = a \<and> tick_count s \<noteq> 0 \<and> \<not> expired a s \<and> a \<noteq> 0"
      then have "clear_rollover a s = s" by (simp add: clear_rollover_def)
      then have "loop CB a s = Some y" using turn(2) a by (simp add: deref_def Let_def)
      then show False using turn(1) a by blast
    qed
  qed
  then show False using assms by simp
qed

text \<open>When the callback of an expired alarm stops the alarm that follows it in the list, and
  that one is not due itself, the tick never returns.\<close>

theorem alt_tick_hangs:
  assumes "ring s alt_alarm_list (a # b # ys)" and "tick_count s + 1 \<noteq> 0"
    and "al_rollover s a = 0" and "al_time s a \<le> tick_count s + 1" and "tick_count s + 1 < al_time s b"
    and "r \<noteq> 0"
    and "\<And>st. CB (al_callback s a) (al_context s a) st = and_then (alt_alarm_stop b st) (\<lambda>st. returns (r, st))"
  shows "alt_tick CB s = None"
proof -
  let ?s = "s\<lparr>tick_count := tick_count s + 1\<rparr>"
  have ring: "ring ?s alt_alarm_list ([a] @ b # ys)" using assms(1) by (subst ring_links[of _ s]) simp_all
  then have ne: "a \<noteq> alt_alarm_list" "b \<noteq> alt_alarm_list" "a \<noteq> b" "a \<noteq> 0" "b \<noteq> 0"
    and nxt: "ll_next s alt_alarm_list = a" "ll_next s a = b"
    by (auto simp: ring_def)
  let ?t = "rearm a r (removed b ?s)"
  have clear: "clear_rollover a ?s = ?s" using assms(3) by (simp add: clear_rollover_def)
  have "expired a ?s" using assms(3,4) by (simp add: expired_def)
  moreover have "alarm_expired CB a ?s = returns ?t"
    using assms(6) by (simp add: alarm_expired_def assms(7) alt_alarm_stop_ring[OF ring])
  ultimately have "alt_tick CB s = alt_tick_loop CB b ?t"
    using ne(1,4) nxt clear by (simp add: alt_tick_def Let_def) (subst alt_tick_loop.simps, simp add: deref_def Let_def)
  moreover have "alt_tick_loop CB b ?t = None"
  proof (rule alt_tick_loop_stuck[OF ne(2) _ _ _ ne(5)])
    show "ll_next ?t b = b" by (simp add: removed_self)
    have "tick_count ?t = tick_count s + 1" by (simp add: rearm_def removed_def set_next_def set_prev_def Let_def)
    then show "tick_count ?t \<noteq> 0" using assms(2) by simp
    have "al_time ?t b = al_time s b"
      using ne(3) by (simp add: rearm_def removed_def set_next_def set_prev_def Let_def)
    then show "\<not> expired b ?t"
      using assms(5) \<open>tick_count ?t = tick_count s + 1\<close> by (metis expired_def leD)
  qed
  ultimately show ?thesis by simp
qed

text \<open>Alarms 2 and 3; the callback of alarm 2 stops alarm 3.\<close>

definition two_alarms :: "unit timer" where
  "two_alarms = (timer_reset ())\<lparr>ll_next := (\<lambda>_. 0)(1 := 2, 2 := 3, 3 := 1),
     ll_prev := (\<lambda>_. 0)(1 := 3, 2 := 1, 3 := 2), al_time := (\<lambda>_. 0)(2 := 5, 3 := 100), tick_count := 10\<rparr>"

definition stop_callback :: "unit callback" where
  "stop_callback f x s = and_then (alt_alarm_stop 3 s) (\<lambda>s. returns (50, s))"

lemma alt_tick_hangs_witness: "alt_tick stop_callback two_alarms = None"
  by (rule alt_tick_hangs[of two_alarms 2 3 "[]" 50])
     (simp_all add: two_alarms_def timer_reset_def ALT_LLIST_HEAD_def set_next_def set_prev_def ring_def
        alt_alarm_list_def stop_callback_def)

lemma alt_tick_fold_witness:
  "alt_tick (quiet (\<lambda>f x out. (50, out))) two_alarms =
     returns (fold (serve (\<lambda>f x out. (50, out))) [2, 3] (two_alarms\<lparr>tick_count := 11\<rparr>)) \<and>
   ring (fold (serve (\<lambda>f x out. (50, out))) [2, 3] (two_alarms\<lparr>tick_count := 11\<rparr>)) alt_alarm_list
     (kept (\<lambda>f x out. (50, out)) [2, 3] (two_alarms\<lparr>tick_count := 11\<rparr>))"
proof -
  have "ring two_alarms alt_alarm_list [2, 3]"
    by (simp add: two_alarms_def timer_reset_def ALT_LLIST_HEAD_def set_next_def set_prev_def ring_def alt_alarm_list_def)
  moreover have "tick_count two_alarms + 1 = 11" by (simp add: two_alarms_def)
  ultimately show ?thesis using alt_tick_fold[of two_alarms "[2, 3]" "\<lambda>f x out. (50, out)"] by simp
qed

end
