(* ===== verification/Clock.thy ===== *)
theory Clock
  imports Alarm
begin

text \<open>
  The time calls of the HAL on top of the tick counter: settimeofday, gettimeofday and
  times, and the calibrated delay behind usleep.  \<open>long\<close> and \<open>alt_u32\<close> have 32 bits;
  the width of \<open>time_t\<close> depends on the C library, so it is left open (\<open>'t\<close>).
\<close>

section \<open>State\<close>

record 'w timeval =
  tv_sec :: 'w
  tv_usec :: cint

record timezone =
  tz_minuteswest :: cint
  tz_dsttime :: cint

record ('w, 's) clock =
  ticking :: "'s timer"
  alt_timezone :: timezone
  alt_resettime :: "'w timeval"
  clock_errno :: cint

definition ALT_US :: cint where "ALT_US = 1000000"

section \<open>settimeofday and gettimeofday\<close>

text \<open>The time zone is read through its pointer, which may be \<open>NULL\<close>; the product has 32 bits.\<close>

definition alt_settimeofday ::
  "('t::len) word timeval \<Rightarrow> timezone option \<Rightarrow> ('t word, 's) clock \<Rightarrow> (cint \<times> ('t word, 's) clock) outcome" where
  "alt_settimeofday t tz c =
     (let nticks = alt_nticks (ticking c);
          tick_rate = alt_ticks_per_second (ticking c)
      in if tick_rate \<noteq> 0 then
           (let c = c\<lparr>alt_resettime :=
                 \<lparr>tv_sec = tv_sec t - ucast (nticks div tick_rate),
                  tv_usec = tv_usec t - (nticks * (ALT_US div tick_rate)) mod ALT_US\<rparr>\<rparr>
            in and_then (defined_or_trap tz) (\<lambda>z. returns (0, c\<lparr>alt_timezone := z\<rparr>)))
         else returns (- 1, c\<lparr>clock_errno := ENOSYS\<rparr>))"

text \<open>The two loops that bring the microseconds into range; the comparisons are signed.\<close>

lemma sint_add_us: "sint u < 0 \<Longrightarrow> sint (u + ALT_US) = sint u + 1000000"
  using sint_ge[of u] by (simp add: sint_word_add ALT_US_def signed_take_bit_int_eq_self)

lemma sint_sub_us: "1000000 \<le> sint u \<Longrightarrow> sint (u - ALT_US) = sint u - 1000000"
  using sint_lt[of u] by (simp add: sint_word_diff ALT_US_def signed_take_bit_int_eq_self)

function usec_borrow :: "('t::len) word \<Rightarrow> cint \<Rightarrow> 't word \<times> cint" where
  "usec_borrow sec usec =
     (if sint usec < 0 then
        (if sint sec \<le> 0 then (0, 0) else usec_borrow (sec - 1) (usec + ALT_US))
      else (sec, usec))"
  by pat_completeness auto
termination
  by (relation "measure (\<lambda>(sec, usec). nat (- sint usec))") (auto simp: sint_add_us)

function usec_carry :: "('t::len) word \<Rightarrow> cint \<Rightarrow> 't word \<times> cint" where
  "usec_carry sec usec =
     (if 1000000 \<le> sint usec then usec_carry (sec + 1) (usec - ALT_US) else (sec, usec))"
  by pat_completeness auto
termination
  by (relation "measure (\<lambda>(sec, usec). nat (sint usec))") (auto simp: sint_sub_us)

declare usec_borrow.simps [simp del] usec_carry.simps [simp del]

text \<open>The results are the return code and what is stored behind the two pointers.\<close>

definition alt_gettimeofday ::
  "bool \<Rightarrow> (('t::len) word, 's) clock \<Rightarrow> cint \<times> ('t word timeval \<times> timezone option) option" where
  "alt_gettimeofday want_zone c =
     (let nticks = alt_nticks (ticking c);
          tick_rate = alt_ticks_per_second (ticking c)
      in if tick_rate \<noteq> 0 then
           (let sec = tv_sec (alt_resettime c) + ucast (nticks div tick_rate);
                usec = tv_usec (alt_resettime c) +
                  ucast ((ucast nticks * ucast (ALT_US div tick_rate) :: u64) mod ucast ALT_US)
            in case usec_borrow sec usec of (sec, usec) \<Rightarrow>
               (case usec_carry sec usec of (sec, usec) \<Rightarrow>
                  (0, Some (\<lparr>tv_sec = sec, tv_usec = usec\<rparr>, if want_zone then Some (alt_timezone c) else None))))
         else (- ENOTSUP, None))"

record tms =
  tms_utime :: cint
  tms_stime :: cint
  tms_cutime :: cint
  tms_cstime :: cint

definition alt_times :: "tms \<Rightarrow> ('w, 's) clock \<Rightarrow> cint \<times> tms \<times> ('w, 's) clock" where
  "alt_times buf c =
     (let t = alt_nticks (ticking c)
      in if alt_ticks_per_second (ticking c) = 0 then (0, buf, c\<lparr>clock_errno := ENOSYS\<rparr>)
         else (t, \<lparr>tms_utime = 0, tms_stime = t, tms_cutime = 0, tms_cstime = 0\<rparr>, c))"

section \<open>The delay loop\<close>

definition NIOS2_CPU_IMPLEMENTATION :: string where "NIOS2_CPU_IMPLEMENTATION = ''fast''"
definition ALT_CPU_FREQ :: cint where "ALT_CPU_FREQ = 50000000"
definition INT_MAX :: cint where "INT_MAX = 0x7FFFFFFF"

text \<open>The turns of the two assembler loops: subtract one, then repeat while the register is not
  zero, or while it is positive.\<close>

lemma unat_dec: "r \<noteq> 1 \<Longrightarrow> unat (r - 2 :: cint) < unat (r - 1)"
  using measure_unat[of "r - 1"] by simp

function bne_turns :: "cint \<Rightarrow> nat" where
  "bne_turns r = (let r = r - 1 in if r \<noteq> 0 then Suc (bne_turns r) else 1)"
  by pat_completeness auto
termination by (relation "measure (\<lambda>r. unat (r - 1))") (auto simp: unat_dec)

function bgt_turns :: "cint \<Rightarrow> nat" where
  "bgt_turns r = (let r = r - 1 in if 0 < sint r then Suc (bgt_turns r) else 1)"
  by pat_completeness auto
termination by (relation "measure (\<lambda>r. unat (r - 1))") (auto intro!: unat_dec)

declare bne_turns.simps [simp del] bgt_turns.simps [simp del]

fun big_loop :: "nat \<Rightarrow> cint \<Rightarrow> cint \<Rightarrow> nat \<times> cint" where
  "big_loop 0 step us = (0, us)"
| "big_loop (Suc i) step us =
     (case big_loop i step (us - step) of (turns, us) \<Rightarrow> (bne_turns INT_MAX + turns, us))"

text \<open>The second result counts the turns of the loops; \<open>big_loops\<close> is an \<open>int\<close>.\<close>

definition alt_busy_sleep :: "cint \<Rightarrow> cint \<times> nat" where
  "alt_busy_sleep us =
     (let cycles_per_loop = (if NIOS2_CPU_IMPLEMENTATION = ''tiny'' then 9 else 3);
          per_us = ALT_CPU_FREQ div (cycles_per_loop * 1000000);
          big_loops = us div (INT_MAX div per_us)
      in if big_loops \<noteq> 0 then
           (case big_loop (nat (sint big_loops)) (INT_MAX div per_us) us of (turns, us) \<Rightarrow>
              (0, turns + bne_turns (us * per_us)))
         else (0, bgt_turns (us * per_us)))"

definition alt_usleep :: "cint \<Rightarrow> cint \<times> nat" where
  "alt_usleep us = alt_busy_sleep us"

section \<open>Reading back the time that was set\<close>

lemma unat_us_mod: "unat (x mod ALT_US) = unat x mod 1000000"
  by (simp add: unat_mod_distrib ALT_US_def)

text \<open>The microseconds as the two functions compute them, as numbers.\<close>

definition set_usec :: "nat \<Rightarrow> nat \<Rightarrow> nat" where
  "set_usec n rate = (n * (1000000 div rate)) mod 2 ^ 32 mod 1000000"

definition get_usec :: "nat \<Rightarrow> nat \<Rightarrow> nat" where
  "get_usec n rate = n * (1000000 div rate) mod 1000000"

lemma set_usec_eq: "(n * (ALT_US div r)) mod ALT_US = of_nat (set_usec (unat n) (unat r))"
proof -
  have "unat ((n * (ALT_US div r)) mod ALT_US) = set_usec (unat n) (unat r)"
    unfolding unat_us_mod by (simp add: set_usec_def unat_mult_lem unat_word_ariths unat_div_distrib ALT_US_def
      mod_mult_right_eq)
  then show ?thesis by (metis of_nat_unat ucast_id)
qed

lemma unat_ucast_64: "unat (ucast (x :: cint) :: u64) = unat x"
  using unat_bound[of x] by (simp add: unsigned_ucast_eq take_bit_nat_eq_self)

lemma get_usec_eq:
  "ucast ((ucast (n :: cint) * ucast (ALT_US div r) :: u64) mod ucast ALT_US) = (of_nat (get_usec (unat n) (unat r)) :: cint)"
proof -
  let ?q = "ALT_US div r" and ?m = "ucast n * ucast (ALT_US div r) :: u64"
  have q: "unat ?q = 1000000 div unat r" by (simp add: unat_div_distrib ALT_US_def)
  have "unat n * unat ?q < 2 ^ 32 * 2 ^ 32"
    using unat_bound[of n] unat_bound[of ?q] by (intro mult_strict_mono) simp_all
  then have "unat ?m = unat n * unat ?q" by (simp only: unat_word_ariths unat_ucast_64) simp
  moreover have "unat (ucast ALT_US :: u64) = 1000000" by (simp add: ALT_US_def)
  ultimately have "unat (?m mod ucast ALT_US) = get_usec (unat n) (unat r)"
    by (simp only: unat_mod_distrib q get_usec_def)
  moreover have "ucast (?m mod ucast ALT_US) = (of_nat (unat (?m mod ucast ALT_US)) :: cint)"
    by simp
  ultimately show ?thesis by simp
qed

lemma get_usec_small: "get_usec n r < 1000000" and set_usec_small: "set_usec n r < 1000000"
  by (simp_all add: get_usec_def set_usec_def)

lemma usec_in_range: "n < 1000000 \<Longrightarrow> sint (of_nat n :: cint) = int n"
  by (simp add: sint_of_nat_small)

text \<open>What gettimeofday answers right after settimeofday, when its microseconds stay in range.\<close>

lemma get_after_set:
  assumes rate: "tick_rate (ticking c) \<noteq> 0"
    and set: "alt_settimeofday \<lparr>tv_sec = sec, tv_usec = of_nat usec\<rparr> (Some tz) c = returns (0, c')"
    and u: "usec < 1000000"
  defines "n \<equiv> unat (tick_count (ticking c))" and "r \<equiv> unat (tick_rate (ticking c))"
  shows "alt_gettimeofday True c' =
    (case usec_borrow sec (of_nat usec - of_nat (set_usec n r) + of_nat (get_usec n r)) of (s1, u1) \<Rightarrow>
     case usec_carry s1 u1 of (s2, u2) \<Rightarrow> (0, Some (\<lparr>tv_sec = s2, tv_usec = u2\<rparr>, Some tz)))"
proof -
  have c': "c' = c\<lparr>alt_resettime := \<lparr>tv_sec = sec - ucast (tick_count (ticking c) div tick_rate (ticking c)),
      tv_usec = of_nat usec - of_nat (set_usec n r)\<rparr>, alt_timezone := tz\<rparr>"
    using set rate by (simp add: alt_settimeofday_def alt_nticks_def alt_ticks_per_second_def Let_def
        set_usec_eq n_def r_def)
  show ?thesis using rate
    unfolding c' by (simp add: alt_gettimeofday_def alt_nticks_def alt_ticks_per_second_def Let_def
        get_usec_eq n_def r_def)
qed

lemma no_borrow: "n < 1000000 \<Longrightarrow> usec_borrow sec (of_nat n) = (sec, of_nat n)"
  by (subst usec_borrow.simps) (simp add: usec_in_range)

lemma no_carry: "n < 1000000 \<Longrightarrow> usec_carry sec (of_nat n) = (sec, of_nat n)"
  by (subst usec_carry.simps) (simp add: usec_in_range)

text \<open>While the product of the tick count and the length of a tick fits 32 bits,
  gettimeofday right after settimeofday returns exactly the time and zone that were set.\<close>

theorem settimeofday_gettimeofday:
  assumes "tick_rate (ticking c) \<noteq> 0" and "usec < 1000000"
    and "unat (tick_count (ticking c)) * (1000000 div unat (tick_rate (ticking c))) < 2 ^ 32"
  shows "\<exists>c'. alt_settimeofday \<lparr>tv_sec = sec, tv_usec = of_nat usec\<rparr> (Some tz) c = returns (0, c') \<and>
    alt_gettimeofday True c' = (0, Some (\<lparr>tv_sec = sec, tv_usec = of_nat usec\<rparr>, Some tz))"
proof -
  obtain c' where c': "alt_settimeofday \<lparr>tv_sec = sec, tv_usec = of_nat usec\<rparr> (Some tz) c = returns (0, c')"
    using assms(1) by (auto simp: alt_settimeofday_def alt_nticks_def alt_ticks_per_second_def Let_def)
  have "set_usec (unat (tick_count (ticking c))) (unat (tick_rate (ticking c))) =
      get_usec (unat (tick_count (ticking c))) (unat (tick_rate (ticking c)))"
    using assms(3) by (simp add: set_usec_def get_usec_def)
  then show ?thesis using c' get_after_set[OF assms(1) c' assms(2)] assms(2)
    by (simp add: no_borrow no_carry)
qed

definition clock_at :: "cint \<Rightarrow> cint \<Rightarrow> (64 word, unit) clock" where
  "clock_at n rate = \<lparr>ticking = (timer_reset ())\<lparr>tick_count := n, tick_rate := rate\<rparr>,
     alt_timezone = \<lparr>tz_minuteswest = 0, tz_dsttime = 0\<rparr>, alt_resettime = \<lparr>tv_sec = 0, tv_usec = 0\<rparr>, clock_errno = 0\<rparr>"

lemma settimeofday_gettimeofday_witness:
  "\<exists>c'. alt_settimeofday \<lparr>tv_sec = 77, tv_usec = of_nat 5\<rparr> (Some \<lparr>tz_minuteswest = 60, tz_dsttime = 0\<rparr>)
      (clock_at 123456 1000) = returns (0, c') \<and>
    alt_gettimeofday True c' = (0, Some (\<lparr>tv_sec = 77, tv_usec = of_nat 5\<rparr>, Some \<lparr>tz_minuteswest = 60, tz_dsttime = 0\<rparr>))"
  by (rule settimeofday_gettimeofday) (simp_all add: clock_at_def)

text \<open>With a millisecond tick the two functions disagree once 2^32 microseconds have gone by:
  at tick 4294968 gettimeofday right after settimeofday is 967296 microseconds ahead.\<close>

theorem settimeofday_drifts:
  assumes "tick_rate (ticking c) = 1000" and "tick_count (ticking c) = 4294968"
  shows "\<exists>c'. alt_settimeofday \<lparr>tv_sec = sec, tv_usec = 0\<rparr> (Some tz) c = returns (0, c') \<and>
    alt_gettimeofday True c' = (0, Some (\<lparr>tv_sec = sec, tv_usec = 967296\<rparr>, Some tz))"
proof -
  obtain c' where c': "alt_settimeofday \<lparr>tv_sec = sec, tv_usec = of_nat 0\<rparr> (Some tz) c = returns (0, c')"
    using assms(1) by (auto simp: alt_settimeofday_def alt_nticks_def alt_ticks_per_second_def Let_def)
  have "set_usec 4294968 1000 = 704" "get_usec 4294968 1000 = 968000" by (simp_all add: set_usec_def get_usec_def)
  then have "of_nat 0 - of_nat (set_usec 4294968 1000) + of_nat (get_usec 4294968 1000) = (of_nat 967296 :: cint)"
    by simp
  then show ?thesis using c' get_after_set[OF _ c'] assms no_borrow[of 967296 sec] no_carry[of 967296 sec]
    by simp
qed

lemma settimeofday_drifts_witness:
  "\<exists>c'. alt_settimeofday \<lparr>tv_sec = 9, tv_usec = 0\<rparr> (Some \<lparr>tz_minuteswest = 0, tz_dsttime = 0\<rparr>)
      (clock_at 4294968 1000) = returns (0, c') \<and>
    alt_gettimeofday True c' = (0, Some (\<lparr>tv_sec = 9, tv_usec = 967296\<rparr>, Some \<lparr>tz_minuteswest = 0, tz_dsttime = 0\<rparr>))"
  by (rule settimeofday_drifts) (simp_all add: clock_at_def)

section \<open>How long the delay is\<close>

lemma bne_turns_eq: "bne_turns r = (if r = 0 then 2 ^ 32 else unat r)"
proof -
  have pos: "r \<noteq> 0 \<Longrightarrow> bne_turns r = unat r" for r
  proof (induction r rule: bne_turns.induct)
    case (1 r)
    then show ?case by (subst bne_turns.simps) (auto simp: Let_def unat_minus_one unat_gt_0)
  qed
  have "bne_turns 0 = Suc (bne_turns (- 1))" by (subst bne_turns.simps) simp
  then show ?thesis using pos[of r] pos[of "- 1"] by (simp add: unsigned_minus_1_eq_mask mask_eq_exp_minus_1)
qed

lemma bgt_turns_eq: "0 \<le> sint r \<Longrightarrow> bgt_turns r = max 1 (unat r)"
proof (induction r rule: bgt_turns.induct)
  case (1 r)
  show ?case
  proof (cases "0 < sint (r - 1)")
    case True
    then have "r \<noteq> 0" "r - 1 \<noteq> 0" using 1(2) by auto
    then have "unat (r - 1) = unat r - 1" "0 < unat (r - 1)" using unat_gt_0 by (blast intro: unat_minus_one)+
    then show ?thesis using 1(1)[OF refl True] True by (subst bgt_turns.simps) (simp add: Let_def)
  next
    case False
    have "sint (r - 1) = sint r - 1" if "0 < sint r"
      using that sint_lt[of r] by (simp add: sint_word_diff signed_take_bit_int_eq_self)
    then have "sint r \<le> 1" using False 1(2) by linarith
    then have "unat r \<le> 1" using uint_sint_nonneg[OF 1(2)] by (simp add: unat_eq_nat_uint)
    then show ?thesis using False by (subst bgt_turns.simps) (simp add: Let_def)
  qed
qed

lemma big_loop_eq: "big_loop k step us = (k * (2 ^ 31 - 1), us - of_nat k * step)"
proof (induction k arbitrary: us)
  case (Suc k)
  have "bne_turns INT_MAX = 2 ^ 31 - 1" by (simp add: bne_turns_eq INT_MAX_def)
  then show ?case using Suc by (simp add: algebra_simps)
qed simp

text \<open>The delay makes 16 turns per microsecond, for any argument, with two exceptions: none
  becomes one, and a multiple of 134217727 microseconds costs 2^32 turns more, because the
  last loop starts at zero and wraps.\<close>

theorem usleep_turns:
  "alt_usleep us = (0,
     if unat us < 134217727 then max 1 (16 * unat us)
     else (unat us div 134217727) * (2 ^ 31 - 1) +
       (if unat us mod 134217727 = 0 then 2 ^ 32 else 16 * (unat us mod 134217727)))"
proof -
  let ?k = "unat us div 134217727"
  have const_vals: "ALT_CPU_FREQ div 3000000 = 16" "INT_MAX div 16 = 134217727"
    by (simp_all add: ALT_CPU_FREQ_def INT_MAX_def)
  have k: "unat (us div 134217727) = ?k" by (simp add: unat_div_distrib)
  have k32: "?k \<le> 32"
  proof -
    have "unat us < 33 * 134217727" using unat_bound[of us] by simp
    then show ?thesis by (simp add: less_mult_imp_div_less less_Suc_eq_le[symmetric])
  qed
  have big: "us div 134217727 \<noteq> 0 \<longleftrightarrow> 134217727 \<le> unat us"
    using k by (auto simp: unat_eq_0[symmetric] div_eq_0_iff)
  have sint: "nat (sint (us div 134217727)) = ?k"
  proof -
    have "us div 134217727 = of_nat ?k" by (metis k of_nat_unat ucast_id)
    then show ?thesis using k32 by (simp add: signed_of_nat signed_take_bit_int_eq_self)
  qed
  let ?m = "unat us mod 134217727"
  have rest: "us - of_nat ?k * 134217727 = of_nat ?m"
  proof -
    have "us = of_nat (?k * 134217727 + ?m)" by simp
    then show ?thesis by (metis add_diff_cancel_left' of_nat_add of_nat_mult of_nat_numeral)
  qed
  have prod: "unat (of_nat ?m * 16 :: cint) = 16 * ?m"
  proof -
    have "?m * 16 < 2 ^ 32" by (rule less_le_trans[of _ "134217727 * 16"]) simp_all
    then have "unat (of_nat (?m * 16) :: cint) = ?m * 16" unfolding unat_of_nat by simp
    then show ?thesis by simp
  qed
  show ?thesis
  proof (cases "134217727 \<le> unat us")
    case True
    have zero: "of_nat ?m * 16 = (0 :: cint) \<longleftrightarrow> ?m = 0" using prod by (auto simp: unat_eq_0[symmetric])
    have "alt_usleep us = (0, ?k * (2 ^ 31 - 1) + bne_turns (of_nat ?m * 16))"
      using True big by (simp add: alt_usleep_def alt_busy_sleep_def NIOS2_CPU_IMPLEMENTATION_def Let_def const_vals
          sint big_loop_eq rest)
    then show ?thesis using True prod zero by (simp add: bne_turns_eq)
  next
    case False
    then have "unat us = ?m" by simp
    then have us: "us = of_nat ?m" by (metis of_nat_unat ucast_id)
    then have "unat (us * 16) = 16 * unat us" using prod \<open>unat us = ?m\<close> by metis
    moreover have "0 \<le> sint (us * 16)"
    proof -
      have "unat (us * 16) < 2 ^ 31" using calculation False by simp
      then show ?thesis using sint_small by simp
    qed
    ultimately show ?thesis using False big
      by (simp add: alt_usleep_def alt_busy_sleep_def NIOS2_CPU_IMPLEMENTATION_def Let_def const_vals bgt_turns_eq)
  qed
qed

end
