(* ===== verification/Ring.thy ===== *)
theory Ring
  imports CBase
begin

text \<open>
  The circular buffers of the interrupt-driven JTAG UART driver, seen as queues: an array, the
  index where the next byte is put and the index where the next one is taken.  One slot always
  stays free, so equal indices mean an empty queue.
\<close>

definition BUF_LEN :: nat where "BUF_LEN = 2048"

definition ring_ok :: "'a list \<Rightarrow> nat \<Rightarrow> nat \<Rightarrow> bool" where
  "ring_ok buf i out \<longleftrightarrow> length buf = BUF_LEN \<and> i < BUF_LEN \<and> out < BUF_LEN"

definition ring_used :: "nat \<Rightarrow> nat \<Rightarrow> nat" where
  "ring_used i out = (if out \<le> i then i - out else i + BUF_LEN - out)"

definition ring_slot :: "nat \<Rightarrow> nat \<Rightarrow> nat" where
  "ring_slot out k = (if out + k < BUF_LEN then out + k else out + k - BUF_LEN)"

definition ring_queue :: "'a list \<Rightarrow> nat \<Rightarrow> nat \<Rightarrow> 'a list" where
  "ring_queue buf i out = map (\<lambda>k. buf ! ring_slot out k) [0..<ring_used i out]"

lemma length_ring_queue [simp]: "length (ring_queue buf i out) = ring_used i out"
  by (simp add: ring_queue_def)

lemma ring_queue_nth: "k < ring_used i out \<Longrightarrow> ring_queue buf i out ! k = buf ! ring_slot out k"
  by (simp add: ring_queue_def)

lemma ring_used_bound: "i < BUF_LEN \<Longrightarrow> out < BUF_LEN \<Longrightarrow> ring_used i out < BUF_LEN"
  by (auto simp: ring_used_def)

lemma ring_empty_iff: "ring_ok buf i out \<Longrightarrow> ring_queue buf i out = [] \<longleftrightarrow> i = out"
  by (auto simp: ring_ok_def ring_queue_def ring_used_def)

section \<open>Putting\<close>

text \<open>\<open>memcpy\<close> into the array: undefined past its end.\<close>

definition mem_put :: "'a list \<Rightarrow> nat \<Rightarrow> 'a list \<Rightarrow> 'a list option" where
  "mem_put buf i bs = (if i + length bs \<le> length buf then Some (take i buf @ bs @ drop (i + length bs) buf) else None)"

lemma mem_put_nth:
  "i + length bs \<le> length buf \<Longrightarrow> j < length buf \<Longrightarrow>
   (take i buf @ bs @ drop (i + length bs) buf) ! j = (if i \<le> j \<and> j < i + length bs then bs ! (j - i) else buf ! j)"
  by (auto simp: nth_append min_def)

lemma ring_put:
  assumes "ring_ok buf i out" and "i + length bs \<le> BUF_LEN" and "ring_used i out + length bs < BUF_LEN"
  shows "\<exists>buf'. mem_put buf i bs = Some buf' \<and> ring_ok buf' ((i + length bs) mod BUF_LEN) out \<and>
    ring_queue buf' ((i + length bs) mod BUF_LEN) out = ring_queue buf i out @ bs"
proof -
  let ?n = "length bs" and ?b = "take i buf @ bs @ drop (i + length bs) buf"
  have ok: "length buf = BUF_LEN" "i < BUF_LEN" "out < BUF_LEN" using assms(1) by (auto simp: ring_ok_def)
  have put: "mem_put buf i bs = Some ?b" using assms(2) ok by (simp add: mem_put_def)
  have i': "(i + ?n) mod BUF_LEN = (if i + ?n = BUF_LEN then 0 else i + ?n)" using assms(2) by auto
  have used: "ring_used ((i + ?n) mod BUF_LEN) out = ring_used i out + ?n"
    using assms(2,3) ok unfolding i' by (auto simp: ring_used_def split: if_splits)
  have "ring_queue ?b ((i + ?n) mod BUF_LEN) out = ring_queue buf i out @ bs"
  proof (rule nth_equalityI)
    show "length (ring_queue ?b ((i + ?n) mod BUF_LEN) out) = length (ring_queue buf i out @ bs)"
      by (simp add: used)
    fix k assume "k < length (ring_queue ?b ((i + ?n) mod BUF_LEN) out)"
    then have k: "k < ring_used i out + ?n" by (simp add: used)
    have slot: "ring_slot out k < length buf" using k assms(3) ok by (auto simp: ring_slot_def)
    have "ring_queue ?b ((i + ?n) mod BUF_LEN) out ! k = ?b ! ring_slot out k"
      using k used by (simp add: ring_queue_nth)
    also have "\<dots> = (if i \<le> ring_slot out k \<and> ring_slot out k < i + ?n then bs ! (ring_slot out k - i) else buf ! ring_slot out k)"
      using assms(2) ok slot by (intro mem_put_nth) simp_all
    also have "\<dots> = (ring_queue buf i out @ bs) ! k"
    proof (cases "k < ring_used i out")
      case True
      then have "\<not> (i \<le> ring_slot out k \<and> ring_slot out k < i + ?n)"
        using assms(2,3) ok by (auto simp: ring_slot_def ring_used_def split: if_splits)
      then show ?thesis using True by (auto simp: nth_append ring_queue_nth)
    next
      case False
      then have "ring_slot out k = i + (k - ring_used i out)"
        using k assms(2) ok by (auto simp: ring_slot_def ring_used_def split: if_splits)
      then have "i \<le> ring_slot out k" "ring_slot out k < i + ?n" "ring_slot out k - i = k - ring_used i out"
        using False k by linarith+
      then show ?thesis using False by (simp add: nth_append)
    qed
    finally show "ring_queue ?b ((i + ?n) mod BUF_LEN) out ! k = (ring_queue buf i out @ bs) ! k" .
  qed
  moreover have "ring_ok ?b ((i + ?n) mod BUF_LEN) out" using ok assms(2) by (auto simp: ring_ok_def)
  ultimately show ?thesis using put by blast
qed

lemma ring_put_one:
  assumes "ring_ok buf i out" and "Suc i mod BUF_LEN \<noteq> out"
  shows "ring_ok (buf[i := c]) (Suc i mod BUF_LEN) out \<and>
    ring_queue (buf[i := c]) (Suc i mod BUF_LEN) out = ring_queue buf i out @ [c]"
proof -
  have ok: "length buf = BUF_LEN" "i < BUF_LEN" "out < BUF_LEN" using assms(1) by (auto simp: ring_ok_def)
  have "ring_used i out + length [c] < BUF_LEN"
    using assms(2) ok by (cases "Suc i = BUF_LEN") (auto simp: ring_used_def)
  moreover have "take i buf @ [c] @ drop (Suc i) buf = buf[i := c]" using ok by (simp add: upd_conv_take_nth_drop)
  ultimately show ?thesis
    using ring_put[OF assms(1), of "[c]"] ok by (auto simp: mem_put_def)
qed

text \<open>Storing byte by byte behind the queue does not disturb it, and publishing what is stored there
  by advancing the index appends it.\<close>

lemma ring_slot_free:
  assumes "ring_ok buf i out" and "ring_used i out + k < BUF_LEN" and "i + k < BUF_LEN" and "j < ring_used i out"
  shows "ring_slot out j \<noteq> i + k"
  using assms by (auto simp: ring_ok_def ring_slot_def ring_used_def split: if_splits)

lemma ring_store:
  assumes "ring_ok buf i out" and "ring_used i out + k < BUF_LEN" and "i + k < BUF_LEN"
  shows "ring_ok (buf[i + k := c]) i out" and "ring_queue (buf[i + k := c]) i out = ring_queue buf i out"
  using ring_slot_free[OF assms] assms(1)
  by (auto simp: ring_ok_def ring_queue_def) (metis nth_list_update_neq)

lemma ring_publish:
  assumes "ring_ok buf i out" and "i + length bs \<le> BUF_LEN" and "ring_used i out + length bs < BUF_LEN"
    and "take (length bs) (drop i buf) = bs"
  shows "ring_ok buf ((i + length bs) mod BUF_LEN) out"
    and "ring_queue buf ((i + length bs) mod BUF_LEN) out = ring_queue buf i out @ bs"
proof -
  have "take i buf @ bs @ drop (i + length bs) buf = take i buf @ take (length bs) (drop i buf) @ drop (length bs) (drop i buf)"
    using assms(4) by (simp add: add.commute)
  also have "\<dots> = buf" by (simp only: append_take_drop_id)
  finally have "mem_put buf i bs = Some buf" using assms(1,2) by (simp add: mem_put_def ring_ok_def)
  then show "ring_ok buf ((i + length bs) mod BUF_LEN) out"
    and "ring_queue buf ((i + length bs) mod BUF_LEN) out = ring_queue buf i out @ bs"
    using ring_put[OF assms(1-3)] by auto
qed

section \<open>Taking\<close>

lemma ring_take_one:
  assumes "ring_ok buf i out" and "i \<noteq> out"
  shows "ring_ok buf i (Suc out mod BUF_LEN) \<and>
    ring_queue buf i out = buf ! out # ring_queue buf i (Suc out mod BUF_LEN)"
proof -
  have ok: "length buf = BUF_LEN" "i < BUF_LEN" "out < BUF_LEN" using assms(1) by (auto simp: ring_ok_def)
  have out': "Suc out mod BUF_LEN = (if Suc out = BUF_LEN then 0 else Suc out)" using ok by auto
  have used: "ring_used i out = Suc (ring_used i (Suc out mod BUF_LEN))"
    using assms(2) ok unfolding out' by (auto simp: ring_used_def)
  have slot: "ring_slot out (Suc k) = ring_slot (Suc out mod BUF_LEN) k" if "k < ring_used i (Suc out mod BUF_LEN)" for k
    using that ok unfolding out' by (auto simp: ring_slot_def ring_used_def)
  have "ring_queue buf i out = map (\<lambda>k. buf ! ring_slot out k) (0 # map Suc [0..<ring_used i (Suc out mod BUF_LEN)])"
    unfolding ring_queue_def used by (simp add: upt_conv_Cons map_Suc_upt del: upt_Suc)
  also have "\<dots> = buf ! out # ring_queue buf i (Suc out mod BUF_LEN)"
    using slot ok by (simp add: ring_queue_def ring_slot_def)
  finally show ?thesis using ok by (auto simp: ring_ok_def)
qed

text \<open>\<open>memcpy\<close> out of the array: a run of \<open>n\<close> bytes that does not wrap.\<close>

lemma ring_take:
  "ring_ok buf i out \<Longrightarrow> out + n \<le> BUF_LEN \<Longrightarrow> n \<le> ring_used i out \<Longrightarrow>
   ring_ok buf i ((out + n) mod BUF_LEN) \<and>
   ring_queue buf i out = take n (drop out buf) @ ring_queue buf i ((out + n) mod BUF_LEN)"
proof (induction n arbitrary: out)
  case 0
  then show ?case by (simp add: ring_ok_def)
next
  case (Suc n)
  have ok: "length buf = BUF_LEN" "i < BUF_LEN" "out < BUF_LEN" using Suc.prems(1) by (auto simp: ring_ok_def)
  have "i \<noteq> out" using Suc.prems(3) by (auto simp: ring_used_def)
  note one = ring_take_one[OF Suc.prems(1) this]
  show ?case
  proof (cases "Suc out = BUF_LEN")
    case True
    then have "n = 0" using Suc.prems(2) by simp
    moreover have "drop out buf = buf ! out # drop (Suc out) buf" using ok by (simp add: Cons_nth_drop_Suc)
    ultimately show ?thesis using one True by simp
  next
    case False
    then have s: "Suc out mod BUF_LEN = Suc out" using ok by simp
    have "length (ring_queue buf i out) = Suc (length (ring_queue buf i (Suc out)))" using one s by simp
    then have "n \<le> ring_used i (Suc out)" using Suc.prems(3) by simp
    from Suc.IH[OF _ _ this] one s Suc.prems(2) have
      "ring_ok buf i ((Suc out + n) mod BUF_LEN)"
      "ring_queue buf i (Suc out) = take n (drop (Suc out) buf) @ ring_queue buf i ((Suc out + n) mod BUF_LEN)"
      by auto
    moreover have "drop out buf = buf ! out # drop (Suc out) buf" using ok by (simp add: Cons_nth_drop_Suc)
    ultimately show ?thesis using one s by simp
  qed
qed

end
