(* ===== verification/Jtag_Fast.thy ===== *)
theory Jtag_Fast
  imports Jtag Alarm Ring
begin

text \<open>
  The interrupt-driven driver of the JTAG UART, the alternative to the polled one in the same
  files (this BSP is configured for the polled one).  Its state is the structure of
  altera_avalon_jtag_uart.h with the two circular buffers, together with the interrupt system,
  the timer and the device it uses.  The semaphore and flag macros are empty without an
  operating system.

  A loop that waits for the interrupt routine is run with a parameter \<open>env\<close>: what the
  interrupts do between two turns of the loop.
\<close>

section \<open>State\<close>

record 'd fast =
  sp_base :: cint
  timeout :: cint
  irq_enable :: cint
  host_inactive :: cint
  rx_in :: cint
  rx_out :: cint
  tx_in :: cint
  tx_out :: cint
  rx_buf :: "u8 list"
  tx_buf :: "u8 list"
  irqs :: "unit irq_sys"
  clock_part :: "unit timer"
  uart :: 'd

definition UART_BUF_LEN :: cint where "UART_BUF_LEN = 2048"
definition DEFAULT_TIMEOUT :: cint where "DEFAULT_TIMEOUT = 10"
definition INT_MAX :: cint where "INT_MAX = 0x7FFFFFFF"
definition TIOCSTIMEOUT :: cint where "TIOCSTIMEOUT = 0x6a01"
definition TIOCGCONNECTED :: cint where "TIOCGCONNECTED = 0x6a02"

definition jtag_uart_state :: "cint \<Rightarrow> unit irq_sys \<Rightarrow> unit timer \<Rightarrow> 'd \<Rightarrow> 'd fast" where
  "jtag_uart_state base i t d = \<lparr>sp_base = base, timeout = DEFAULT_TIMEOUT, irq_enable = 0, host_inactive = 0,
     rx_in = 0, rx_out = 0, tx_in = 0, tx_out = 0, rx_buf = replicate 2048 0, tx_buf = replicate 2048 0,
     irqs = i, clock_part = t, uart = d\<rparr>"

definition write_control :: "'d bus \<Rightarrow> cint \<Rightarrow> 'd fast \<Rightarrow> 'd fast" where
  "write_control b v s = s\<lparr>uart := IOWR_CONTROL b (sp_base s) v (uart s)\<rparr>"

definition read_control :: "'d bus \<Rightarrow> 'd fast \<Rightarrow> cint \<times> 'd fast" where
  "read_control b s = (case IORD_CONTROL b (sp_base s) (uart s) of (v, d) \<Rightarrow> (v, s\<lparr>uart := d\<rparr>))"

text \<open>Setting bits of \<open>irq_enable\<close> with interrupts off, as the read and write routines do.\<close>

definition enable_irq_bit :: "'d bus \<Rightarrow> cint \<Rightarrow> 'd fast \<Rightarrow> 'd fast" where
  "enable_irq_bit b msk s =
     (case alt_irq_disable_all (irqs s) of (context, i) \<Rightarrow>
        (let s = s\<lparr>irqs := i\<rparr>;
             s = s\<lparr>irq_enable := irq_enable s OR msk\<rparr>;
             s = write_control b (irq_enable s) s
         in s\<lparr>irqs := alt_irq_enable_all context (irqs s)\<rparr>))"

text \<open>Clearing them in the interrupt routine, with the dummy read.\<close>

definition disable_irq_bit :: "'d bus \<Rightarrow> cint \<Rightarrow> 'd fast \<Rightarrow> 'd fast" where
  "disable_irq_bit b msk s =
     (let s = s\<lparr>irq_enable := irq_enable s AND NOT msk\<rparr>;
          s = write_control b (irq_enable s) s
      in snd (read_control b s))"

section \<open>Initialisation\<close>

text \<open>The two numbers stand for the addresses of the interrupt and the timeout routine.\<close>

definition altera_avalon_jtag_uart_init ::
  "'d bus \<Rightarrow> cint \<Rightarrow> cint \<Rightarrow> nat \<Rightarrow> nat \<Rightarrow> nat \<Rightarrow> nat \<Rightarrow> 'd fast \<Rightarrow> 'd fast outcome" where
  "altera_avalon_jtag_uart_init b irq_controller_id irq irq_routine timeout_routine sp alarm s =
     (let s = s\<lparr>irq_enable := CONTROL_RE_MSK\<rparr>;
          s = write_control b (irq_enable s) s
      in and_then (alt_ic_isr_register irq_controller_id irq (Some irq_routine) sp (irqs s)) (\<lambda>(rc, i).
         (let s = s\<lparr>irqs := i, host_inactive := 0\<rparr>
          in and_then (alt_alarm_start alarm (alt_ticks_per_second (clock_part s)) timeout_routine sp (clock_part s))
               (\<lambda>(rc, t).
               (let s = s\<lparr>clock_part := t\<rparr>
                in returns (if sint rc < 0 then s\<lparr>timeout := INT_MAX\<rparr> else s))))))"

section \<open>The interrupt routine\<close>

partial_function (option) fast_rx_loop :: "'d bus \<Rightarrow> cint \<Rightarrow> 'd fast \<Rightarrow> (cint \<times> 'd fast) outcome" where
  "fast_rx_loop b data s =
     (let next = (rx_in s + 1) mod UART_BUF_LEN
      in if next = rx_out s then returns (data, s)
         else
           (case IORD_DATA b (sp_base s) (uart s) of (data, d) \<Rightarrow>
              (let s = s\<lparr>uart := d\<rparr>
               in if data AND DATA_RVALID_MSK = 0 then returns (data, s)
                  else
                    and_then (defined_or_trap (arr_set (rx_buf s) (unat (rx_in s))
                        (ucast (drop_bit DATA_DATA_OFST (data AND DATA_DATA_MSK))))) (\<lambda>buf.
                      fast_rx_loop b data (s\<lparr>rx_buf := buf, rx_in := (rx_in s + 1) mod UART_BUF_LEN\<rparr>)))))"

definition fast_rx_irq :: "'d bus \<Rightarrow> 'd fast \<Rightarrow> 'd fast outcome" where
  "fast_rx_irq b s =
     and_then (fast_rx_loop b (push_bit DATA_RAVAIL_OFST 1) s) (\<lambda>(data, s).
       returns (if data AND DATA_RAVAIL_MSK \<noteq> 0 then disable_irq_bit b CONTROL_RE_MSK s else s))"

function fast_tx_loop :: "'d bus \<Rightarrow> cint \<Rightarrow> 'd fast \<Rightarrow> (cint \<times> 'd fast) outcome" where
  "fast_tx_loop b space s =
     (if 0 < space \<and> tx_out s \<noteq> tx_in s then
        and_then (defined_or_trap (arr_get (tx_buf s) (unat (tx_out s)))) (\<lambda>c.
          fast_tx_loop b (space - 1)
            (s\<lparr>uart := IOWR_DATA b (sp_base s) (scast c) (uart s), tx_out := (tx_out s + 1) mod UART_BUF_LEN\<rparr>))
      else returns (space, s))"
  by pat_completeness auto
termination
  by (relation "measure (\<lambda>(b, space, s). unat space)") (auto simp: measure_unat word_gt_0)

declare fast_tx_loop.simps [simp del]

definition fast_tx_irq :: "'d bus \<Rightarrow> cint \<Rightarrow> 'd fast \<Rightarrow> 'd fast outcome" where
  "fast_tx_irq b control s =
     (let space = drop_bit CONTROL_WSPACE_OFST (control AND CONTROL_WSPACE_MSK)
      in and_then (fast_tx_loop b space s) (\<lambda>(space, s).
         returns (if 0 < space then disable_irq_bit b CONTROL_WE_MSK s else s)))"

partial_function (option) altera_avalon_jtag_uart_irq :: "'d bus \<Rightarrow> 'd fast \<Rightarrow> 'd fast outcome" where
  "altera_avalon_jtag_uart_irq b s =
     (case read_control b s of (control, s) \<Rightarrow>
        if control AND (CONTROL_RI_MSK OR CONTROL_WI_MSK) = 0 then returns s
        else
          and_then (if control AND CONTROL_RI_MSK \<noteq> 0 then fast_rx_irq b s else returns s) (\<lambda>s.
          and_then (if control AND CONTROL_WI_MSK \<noteq> 0 then fast_tx_irq b control s else returns s) (\<lambda>s.
          altera_avalon_jtag_uart_irq b s)))"

definition altera_avalon_jtag_uart_timeout :: "'d bus \<Rightarrow> 'd fast \<Rightarrow> cint \<times> 'd fast" where
  "altera_avalon_jtag_uart_timeout b s =
     (case read_control b s of (control, s) \<Rightarrow>
        (let s = (if control AND CONTROL_AC_MSK \<noteq> 0 then
                    (write_control b (irq_enable s OR CONTROL_AC_MSK) s)\<lparr>host_inactive := 0\<rparr>
                  else if host_inactive s < INT_MAX - 2 then s\<lparr>host_inactive := host_inactive s + 1\<rparr>
                  else s)
         in (alt_ticks_per_second (clock_part s), s)))"

section \<open>Reading, writing, closing\<close>

text \<open>Waiting for the interrupt routine while the host is there.\<close>

partial_function (option) spin_while :: "('d fast \<Rightarrow> 'd fast outcome) \<Rightarrow> ('d fast \<Rightarrow> bool) \<Rightarrow> 'd fast \<Rightarrow> 'd fast outcome" where
  "spin_while env same s =
     (if same s \<and> host_inactive s < timeout s then and_then (env s) (spin_while env same) else returns s)"

text \<open>How many bytes the read routine can copy in one run from what the receive buffer holds.\<close>

definition rx_contiguous :: "cint \<Rightarrow> cint \<Rightarrow> cint" where
  "rx_contiguous i out = (if out \<le> i then i - out else UART_BUF_LEN - out)"

text \<open>The inner loop of the read routine; \<open>got\<close> is what has been copied to the caller's buffer,
  and the last result is the value of \<open>in\<close>.\<close>

partial_function (option) fast_read_copy ::
  "cint \<Rightarrow> u8 list \<Rightarrow> 'd fast \<Rightarrow> (cint \<times> u8 list \<times> 'd fast \<times> cint) outcome" where
  "fast_read_copy space got s =
     (let i = rx_in s; out = rx_out s;
          n = rx_contiguous i out
      in if n = 0 then returns (space, got, s, i)
         else
           (let n = (if space < n then space else n)
            in and_then (if unat out + unat n \<le> length (rx_buf s) then returns () else undefined_run) (\<lambda>_.
               (let got = got @ take (unat n) (drop (unat out) (rx_buf s));
                    space = space - n;
                    s = s\<lparr>rx_out := (out + n) mod UART_BUF_LEN\<rparr>
                in if 0 < sint space then fast_read_copy space got s else returns (space, got, s, i)))))"

partial_function (option) fast_read_loop ::
  "('d fast \<Rightarrow> 'd fast outcome) \<Rightarrow> cint \<Rightarrow> cint \<Rightarrow> u8 list \<Rightarrow> 'd fast \<Rightarrow> (u8 list \<times> 'd fast) outcome" where
  "fast_read_loop env flags space got s =
     (if 0 < sint space then
        and_then (fast_read_copy space got s) (\<lambda>(space, got, s, i).
        if got \<noteq> [] then returns (got, s)
        else if flags AND O_NONBLOCK \<noteq> 0 then returns (got, s)
        else
          and_then (spin_while env (\<lambda>s. i = rx_in s) s) (\<lambda>s.
          if i = rx_in s then returns (got, s) else fast_read_loop env flags space got s))
      else returns (got, s))"

definition fast_read ::
  "'d bus \<Rightarrow> ('d fast \<Rightarrow> 'd fast outcome) \<Rightarrow> cint \<Rightarrow> cint \<Rightarrow> 'd fast \<Rightarrow> (cint \<times> u8 list \<times> 'd fast) outcome" where
  "fast_read b env space flags s =
     and_then (fast_read_loop env flags space [] s) (\<lambda>(got, s).
     (let s = (if got \<noteq> [] then enable_irq_bit b CONTROL_RE_MSK s else s)
      in returns (if got \<noteq> [] then of_nat (length got)
                  else if flags AND O_NONBLOCK \<noteq> 0 then - EWOULDBLOCK else - EIO, got, s)))"

text \<open>How many bytes the write routine can copy in one run into the transmit buffer.\<close>

definition tx_contiguous :: "cint \<Rightarrow> cint \<Rightarrow> cint" where
  "tx_contiguous inp out =
     (if inp < out then out - 1 - inp
      else if 0 < out then UART_BUF_LEN - inp else UART_BUF_LEN - 1 - inp)"

text \<open>The copy loop of the write routine; \<open>i\<close> counts the bytes taken from \<open>ptr\<close>.\<close>

partial_function (option) fast_write_copy ::
  "u8 list \<Rightarrow> nat \<Rightarrow> cint \<Rightarrow> cint \<Rightarrow> 'd fast \<Rightarrow> (nat \<times> cint \<times> cint \<times> 'd fast) outcome" where
  "fast_write_copy ptr i count out s =
     (if 0 < sint count then
        (let inp = tx_in s; out = tx_out s;
             n = tx_contiguous inp out
         in if n = 0 then returns (i, count, out, s)
            else
              (let n = (if count < n then count else n)
               in and_then (if i + unat n \<le> length ptr then returns () else undefined_run) (\<lambda>_.
                  and_then (defined_or_trap (mem_put (tx_buf s) (unat inp) (take (unat n) (drop i ptr)))) (\<lambda>buf.
                  fast_write_copy ptr (i + unat n) (count - n) out
                    (s\<lparr>tx_buf := buf, tx_in := (inp + n) mod UART_BUF_LEN\<rparr>)))))
      else returns (i, count, out, s))"

partial_function (option) fast_write_loop ::
  "'d bus \<Rightarrow> ('d fast \<Rightarrow> 'd fast outcome) \<Rightarrow> cint \<Rightarrow> u8 list \<Rightarrow> nat \<Rightarrow> cint \<Rightarrow> cint \<Rightarrow> 'd fast \<Rightarrow> (nat \<times> 'd fast) outcome" where
  "fast_write_loop b env flags ptr i count out s =
     and_then (fast_write_copy ptr i count out s) (\<lambda>(i, count, out, s).
     (let s = enable_irq_bit b CONTROL_WE_MSK s
      in if 0 < sint count then
           (if flags AND O_NONBLOCK \<noteq> 0 then returns (i, s)
            else
              and_then (spin_while env (\<lambda>s. out = tx_out s) s) (\<lambda>s.
              if host_inactive s \<noteq> 0 then returns (i, s) else fast_write_loop b env flags ptr i count out s))
         else returns (i, s)))"

definition fast_write ::
  "'d bus \<Rightarrow> ('d fast \<Rightarrow> 'd fast outcome) \<Rightarrow> u8 list \<Rightarrow> cint \<Rightarrow> cint \<Rightarrow> 'd fast \<Rightarrow> (cint \<times> 'd fast) outcome" where
  "fast_write b env ptr count flags s =
     and_then (fast_write_loop b env flags ptr 0 count 0 s) (\<lambda>(i, s).
       returns (if i \<noteq> 0 then of_nat i
                else if flags AND O_NONBLOCK \<noteq> 0 then - EWOULDBLOCK else - EIO, s))"

partial_function (option) altera_avalon_jtag_uart_close ::
  "('d fast \<Rightarrow> 'd fast outcome) \<Rightarrow> cint \<Rightarrow> 'd fast \<Rightarrow> (cint \<times> 'd fast) outcome" where
  "altera_avalon_jtag_uart_close env flags s =
     (if tx_out s \<noteq> tx_in s \<and> host_inactive s < timeout s then
        (if flags AND O_NONBLOCK \<noteq> 0 then returns (- EWOULDBLOCK, s)
         else and_then (env s) (altera_avalon_jtag_uart_close env flags))
      else returns (0, s))"

text \<open>The third result is the \<open>int\<close> behind the argument after the call.\<close>

definition altera_avalon_jtag_uart_ioctl :: "cint \<Rightarrow> cint \<Rightarrow> 'd fast \<Rightarrow> cint \<times> cint \<times> 'd fast" where
  "altera_avalon_jtag_uart_ioctl req arg s =
     (if req = TIOCSTIMEOUT then
        (if timeout s \<noteq> INT_MAX then
           (0, arg, s\<lparr>timeout := if 2 \<le> sint arg \<and> sint arg < sint INT_MAX then arg else INT_MAX - 1\<rparr>)
         else (- ENOTTY, arg, s))
      else if req = TIOCGCONNECTED then
        (if timeout s \<noteq> INT_MAX then (0, if host_inactive s < timeout s then 1 else 0, s)
         else (- ENOTTY, arg, s))
      else (- ENOTTY, arg, s))"

section \<open>Behind a file descriptor\<close>

definition fast_read_fd ::
  "'d bus \<Rightarrow> ('d fast \<Rightarrow> 'd fast outcome) \<Rightarrow> alt_fd \<Rightarrow> cint \<Rightarrow> 'd fast \<Rightarrow> (cint \<times> u8 list \<times> alt_fd \<times> 'd fast) outcome" where
  "fast_read_fd b env fd space s =
     and_then (fast_read b env space (fd_flags fd) s) (\<lambda>(rc, bytes, s). returns (rc, bytes, fd, s))"

definition fast_write_fd ::
  "'d bus \<Rightarrow> ('d fast \<Rightarrow> 'd fast outcome) \<Rightarrow> alt_fd \<Rightarrow> u8 list \<Rightarrow> cint \<Rightarrow> 'd fast \<Rightarrow> (cint \<times> alt_fd \<times> 'd fast) outcome" where
  "fast_write_fd b env fd buffer space s =
     and_then (fast_write b env buffer space (fd_flags fd) s) (\<lambda>(rc, s). returns (rc, fd, s))"

definition altera_avalon_jtag_uart_close_fd ::
  "('d fast \<Rightarrow> 'd fast outcome) \<Rightarrow> alt_fd \<Rightarrow> 'd fast \<Rightarrow> (cint \<times> alt_fd \<times> 'd fast) outcome" where
  "altera_avalon_jtag_uart_close_fd env fd s =
     and_then (altera_avalon_jtag_uart_close env (fd_flags fd) s) (\<lambda>(rc, s). returns (rc, fd, s))"

definition altera_avalon_jtag_uart_ioctl_fd ::
  "alt_fd \<Rightarrow> cint \<Rightarrow> cint \<Rightarrow> 'd fast \<Rightarrow> (cint \<times> cint \<times> alt_fd \<times> 'd fast) outcome" where
  "altera_avalon_jtag_uart_ioctl_fd fd req arg s =
     (case altera_avalon_jtag_uart_ioctl req arg s of (rc, arg, s) \<Rightarrow> returns (rc, arg, fd, s))"

definition fast_uart_dev :: "'d bus \<Rightarrow> ('d fast \<Rightarrow> 'd fast outcome) \<Rightarrow> string \<Rightarrow> 'd fast alt_dev" where
  "fast_uart_dev b env name =
     \<lparr>dev_name = Some name, dev_open = None, dev_close = Some (altera_avalon_jtag_uart_close_fd env),
      dev_read = Some (fast_read_fd b env), dev_write = Some (fast_write_fd b env),
      dev_lseek = None, dev_fstat = None, dev_ioctl = Some altera_avalon_jtag_uart_ioctl_fd\<rparr>"

end
