(* ===== verification/Jtag_Queue.thy ===== *)
theory Jtag_Queue
  imports Jtag_Fast
begin

text \<open>
  The program's side of the interrupt-driven driver: its two circular buffers are queues, the
  write routine appends to the one and the read routine takes from the other.  Indices are
  words; the lemmas here move them to the natural numbers on which Ring works.
\<close>

section \<open>Indices\<close>

abbreviation tx_queue :: "'d fast \<Rightarrow> u8 list" where
  "tx_queue s \<equiv> ring_queue (tx_buf s) (unat (tx_in s)) (unat (tx_out s))"

abbreviation rx_queue :: "'d fast \<Rightarrow> u8 list" where
  "rx_queue s \<equiv> ring_queue (rx_buf s) (unat (rx_in s)) (unat (rx_out s))"

definition fast_ok :: "'d fast \<Rightarrow> bool" where
  "fast_ok s \<longleftrightarrow> ring_ok (tx_buf s) (unat (tx_in s)) (unat (tx_out s)) \<and>
     ring_ok (rx_buf s) (unat (rx_in s)) (unat (rx_out s))"

lemma fast_ok_fields:
  assumes "fast_ok s"
  shows "length (tx_buf s) = BUF_LEN" "unat (tx_in s) < BUF_LEN" "unat (tx_out s) < BUF_LEN"
    "length (rx_buf s) = BUF_LEN" "unat (rx_in s) < BUF_LEN" "unat (rx_out s) < BUF_LEN"
  using assms by (auto simp: fast_ok_def ring_ok_def)

lemma unat_add_small:
  fixes x n :: cint
  assumes "unat x < BUF_LEN" and "unat n \<le> BUF_LEN"
  shows "unat (x + n) = unat x + unat n"
  using assms by (subst unat_add_lem[THEN iffD1]) (auto simp: BUF_LEN_def)

lemma unat_advance:
  fixes x n :: cint
  assumes "unat x < BUF_LEN" and "unat n \<le> BUF_LEN"
  shows "unat ((x + n) mod UART_BUF_LEN) = (unat x + unat n) mod BUF_LEN"
  using unat_add_small[OF assms] by (simp add: unat_mod UART_BUF_LEN_def BUF_LEN_def)

lemma unat_succ:
  fixes x :: cint
  assumes "unat x < BUF_LEN"
  shows "unat ((x + 1) mod UART_BUF_LEN) = Suc (unat x) mod BUF_LEN"
  using unat_advance[OF assms, of 1] by (simp add: BUF_LEN_def)

lemma unat_diff:
  fixes x y :: cint
  shows "y \<le> x \<Longrightarrow> unat (x - y) = unat x - unat y"
  by (simp add: unat_sub)

lemma unat_pred:
  fixes x :: cint
  assumes "Suc k = unat x"
  shows "0 < x" and "unat (x - 1) = k"
proof -
  have "x \<noteq> 0" using assms by auto
  then show "0 < x" and "unat (x - 1) = k" using assms by (simp_all add: word_gt_0 unat_minus_one)
qed

lemma rx_contiguous_bounds:
  assumes "unat i < BUF_LEN" and "unat out < BUF_LEN"
  shows "unat (rx_contiguous i out) \<le> ring_used (unat i) (unat out)"
    and "unat out + unat (rx_contiguous i out) \<le> BUF_LEN"
    and "rx_contiguous i out = 0 \<longleftrightarrow> i = out"
proof -
  have l: "out \<le> UART_BUF_LEN" "unat UART_BUF_LEN = BUF_LEN"
    using assms by (auto simp: word_le_nat_alt UART_BUF_LEN_def BUF_LEN_def)
  have u: "unat (rx_contiguous i out) = (if unat out \<le> unat i then unat i - unat out else BUF_LEN - unat out)"
    using l by (auto simp: rx_contiguous_def unat_diff word_le_nat_alt)
  then show "unat (rx_contiguous i out) \<le> ring_used (unat i) (unat out)"
    and "unat out + unat (rx_contiguous i out) \<le> BUF_LEN"
    using assms by (auto simp: ring_used_def)
  have "rx_contiguous i out = 0 \<longleftrightarrow> unat (rx_contiguous i out) = 0" by (simp add: unat_eq_0)
  also have "\<dots> \<longleftrightarrow> unat i = unat out" using u assms by auto
  also have "\<dots> \<longleftrightarrow> i = out" by (simp add: word_unat_eq_iff)
  finally show "rx_contiguous i out = 0 \<longleftrightarrow> i = out" .
qed

lemma tx_contiguous_bounds:
  assumes "unat i < BUF_LEN" and "unat out < BUF_LEN"
  shows "unat i + unat (tx_contiguous i out) \<le> BUF_LEN"
    and "ring_used (unat i) (unat out) + unat (tx_contiguous i out) < BUF_LEN"
    and "tx_contiguous i out = 0 \<longleftrightarrow> ring_used (unat i) (unat out) = BUF_LEN - 1"
proof -
  have l: "i \<le> UART_BUF_LEN" "i \<le> UART_BUF_LEN - 1" "unat UART_BUF_LEN = BUF_LEN" "unat (UART_BUF_LEN - 1) = BUF_LEN - 1"
    using assms by (auto simp: word_le_nat_alt UART_BUF_LEN_def BUF_LEN_def)
  have o: "i \<le> out - 1" "unat (out - 1) = unat out - 1" if "i < out"
  proof -
    have "out \<noteq> 0" using that by auto
    then show "unat (out - 1) = unat out - 1" by (rule unat_minus_one)
    with that show "i \<le> out - 1" by (simp add: word_le_nat_alt word_less_nat_alt)
  qed
  have u: "unat (tx_contiguous i out) = (if unat i < unat out then unat out - 1 - unat i
      else if 0 < unat out then BUF_LEN - unat i else BUF_LEN - 1 - unat i)"
    using l o by (auto simp: tx_contiguous_def unat_diff word_less_nat_alt word_le_nat_alt)
  then show "unat i + unat (tx_contiguous i out) \<le> BUF_LEN"
    and "ring_used (unat i) (unat out) + unat (tx_contiguous i out) < BUF_LEN"
    using assms by (auto simp: ring_used_def)
  have "tx_contiguous i out = 0 \<longleftrightarrow> unat (tx_contiguous i out) = 0" by (simp add: unat_eq_0)
  also have "\<dots> \<longleftrightarrow> ring_used (unat i) (unat out) = BUF_LEN - 1"
    using u assms by (auto simp: ring_used_def)
  finally show "tx_contiguous i out = 0 \<longleftrightarrow> ring_used (unat i) (unat out) = BUF_LEN - 1" .
qed

section \<open>The program's side\<close>

lemma sint_positive:
  fixes x :: cint
  assumes "unat x < 2 ^ 31"
  shows "0 < sint x \<longleftrightarrow> 0 < unat x"
  by (simp only: sint_small[OF assms] of_nat_0_less_iff)

lemma unat_min_word:
  fixes x n :: cint
  shows "unat (if x < n then x else n) = min (unat x) (unat n)"
  by (simp add: word_less_nat_alt min_def)

text \<open>The copy loop of the write routine appends to the queue until the data or the space is used up.\<close>

lemma write_copy:
  "fast_ok s \<Longrightarrow> unat count < 2 ^ 31 \<Longrightarrow> i + unat count \<le> length ptr \<Longrightarrow>
   \<exists>m out' bf inp'. m = min (unat count) (BUF_LEN - 1 - length (tx_queue s)) \<and>
     fast_write_copy ptr i count out s = returns (i + m, count - of_nat m, out', s\<lparr>tx_buf := bf, tx_in := inp'\<rparr>) \<and>
     fast_ok (s\<lparr>tx_buf := bf, tx_in := inp'\<rparr>) \<and>
     tx_queue (s\<lparr>tx_buf := bf, tx_in := inp'\<rparr>) = tx_queue s @ take m (drop i ptr) \<and>
     (unat count \<noteq> m \<longrightarrow> out' = tx_out s)"
proof (induction "unat count" arbitrary: i count out s rule: less_induct)
  case less
  note f = fast_ok_fields[OF less.prems(1)]
  note cont = tx_contiguous_bounds[OF f(2,3)]
  let ?n = "if count < tx_contiguous (tx_in s) (tx_out s) then count else tx_contiguous (tx_in s) (tx_out s)"
  show ?case
  proof (cases "count = 0 \<or> tx_contiguous (tx_in s) (tx_out s) = 0")
    case True
    have pos: "0 < sint count \<longleftrightarrow> count \<noteq> 0" using less.prems(2) by (simp add: sint_positive unat_gt_0)
    have "min (unat count) (BUF_LEN - 1 - length (tx_queue s)) = 0" using True cont(3) by auto
    moreover have "fast_write_copy ptr i count out s = returns (i, count, if count = 0 then out else tx_out s, s)"
      using True pos by (subst fast_write_copy.simps) (auto simp: Let_def)
    ultimately show ?thesis using less.prems(1)
      by (intro exI[of _ "0::nat"] exI[of _ "if count = 0 then out else tx_out s"] exI[of _ "tx_buf s"] exI[of _ "tx_in s"]) simp
  next
    case False
    let ?k = "unat ?n"
    have k: "?k = min (unat count) (unat (tx_contiguous (tx_in s) (tx_out s)))" by (rule unat_min_word)
    then have k0: "0 < ?k" using False by (auto simp: unat_gt_0 min_def)
    have kb: "?k \<le> unat count" "unat (tx_in s) + ?k \<le> BUF_LEN" "ring_used (unat (tx_in s)) (unat (tx_out s)) + ?k < BUF_LEN"
      using k cont(1,2) by linarith+
    let ?bs = "take ?k (drop i ptr)"
    have len: "length ?bs = ?k" using less.prems(3) kb(1) by simp
    obtain bf where bf: "mem_put (tx_buf s) (unat (tx_in s)) ?bs = Some bf"
      "ring_ok bf ((unat (tx_in s) + ?k) mod BUF_LEN) (unat (tx_out s))"
      "ring_queue bf ((unat (tx_in s) + ?k) mod BUF_LEN) (unat (tx_out s)) = tx_queue s @ ?bs"
      using ring_put[of "tx_buf s" "unat (tx_in s)" "unat (tx_out s)" ?bs] less.prems(1) kb(2,3) len
      by (auto simp: fast_ok_def)
    let ?s = "s\<lparr>tx_buf := bf, tx_in := (tx_in s + ?n) mod UART_BUF_LEN\<rparr>"
    have adv: "unat ((tx_in s + ?n) mod UART_BUF_LEN) = (unat (tx_in s) + ?k) mod BUF_LEN"
      using kb(2) f(2) by (intro unat_advance) simp_all
    have ok: "fast_ok ?s" "tx_queue ?s = tx_queue s @ ?bs" using bf(2,3) adv less.prems(1) by (auto simp: fast_ok_def)
    have c: "unat (count - ?n) = unat count - ?k" using kb(1) by (intro unat_diff) (simp add: word_le_nat_alt)
    have "0 < sint count" using less.prems(2) k0 kb(1) by (simp add: sint_positive)
    then have step: "fast_write_copy ptr i count out s = fast_write_copy ptr (i + ?k) (count - ?n) (tx_out s) ?s"
      using False less.prems(3) kb(1) bf(1) by (subst fast_write_copy.simps) (simp add: Let_def del: unat_min_word)
    have "unat (count - ?n) < unat count" "unat (count - ?n) < 2 ^ 31" "i + ?k + unat (count - ?n) \<le> length ptr"
      using c k0 kb(1) less.prems(2,3) by linarith+
    from less.hyps[OF this(1) ok(1) this(2,3), of "tx_out s"] obtain m out' bf' inp' where m:
      "m = min (unat (count - ?n)) (BUF_LEN - 1 - length (tx_queue ?s))"
      "fast_write_copy ptr (i + ?k) (count - ?n) (tx_out s) ?s = returns (i + ?k + m, count - ?n - of_nat m, out', ?s\<lparr>tx_buf := bf', tx_in := inp'\<rparr>)"
      "fast_ok (?s\<lparr>tx_buf := bf', tx_in := inp'\<rparr>)"
      "tx_queue (?s\<lparr>tx_buf := bf', tx_in := inp'\<rparr>) = tx_queue ?s @ take m (drop (i + ?k) ptr)"
      "unat (count - ?n) \<noteq> m \<longrightarrow> out' = tx_out ?s" by blast
    have "length (tx_queue ?s) = length (tx_queue s) + ?k" unfolding ok(2) using len by simp
    then have total: "?k + m = min (unat count) (BUF_LEN - 1 - length (tx_queue s))"
      using m(1) c kb(1,3) by simp
    have "of_nat (?k + m) = ?n + (of_nat m :: cint)" by simp
    then have count: "count - of_nat (?k + m) = count - ?n - of_nat m" by (simp only: diff_diff_eq)
    have all: "take (?k + m) (drop i ptr) = ?bs @ take m (drop (i + ?k) ptr)" by (simp only: take_add drop_drop add.commute[of ?k i])
    have out: "unat count \<noteq> ?k + m \<longrightarrow> out' = tx_out s" using m(5) c kb(1) by auto
    have s': "?s\<lparr>tx_buf := bf', tx_in := inp'\<rparr> = s\<lparr>tx_buf := bf', tx_in := inp'\<rparr>" by simp
    note m' = m(2-4)[unfolded s' ok(2) append_assoc, folded all count, unfolded add.assoc]
    show ?thesis
      by (rule exI[of _ "?k + m"], rule exI[of _ out'], rule exI[of _ bf'], rule exI[of _ inp'])
         (intro conjI total m'(2,3) out trans[OF step m'(1)])
  qed
qed

text \<open>The copy loop of the read routine takes from the front until nothing is left or the space is used up.\<close>

lemma read_copy:
  "fast_ok s \<Longrightarrow> unat space < 2 ^ 31 \<Longrightarrow> 0 < unat space \<Longrightarrow>
   \<exists>m o'. m = min (unat space) (length (rx_queue s)) \<and>
     fast_read_copy space got s = returns (space - of_nat m, got @ take m (rx_queue s), s\<lparr>rx_out := o'\<rparr>, rx_in s) \<and>
     fast_ok (s\<lparr>rx_out := o'\<rparr>) \<and> rx_queue (s\<lparr>rx_out := o'\<rparr>) = drop m (rx_queue s)"
proof (induction "unat space" arbitrary: space got s rule: less_induct)
  case less
  note f = fast_ok_fields[OF less.prems(1)]
  note cont = rx_contiguous_bounds[OF f(5,6)]
  let ?n = "if space < rx_contiguous (rx_in s) (rx_out s) then space else rx_contiguous (rx_in s) (rx_out s)"
  show ?case
  proof (cases "rx_contiguous (rx_in s) (rx_out s) = 0")
    case True
    then have "rx_queue s = []" using cont(3) less.prems(1) by (simp add: fast_ok_def ring_empty_iff)
    moreover have "fast_read_copy space got s = returns (space, got, s, rx_in s)"
      using True by (subst fast_read_copy.simps) (simp add: Let_def)
    ultimately show ?thesis using less.prems(1)
      by (intro exI[of _ "0::nat"] exI[of _ "rx_out s"]) (simp del: length_ring_queue)
  next
    case False
    let ?k = "unat ?n"
    have k: "?k = min (unat space) (unat (rx_contiguous (rx_in s) (rx_out s)))" by (rule unat_min_word)
    then have k0: "0 < ?k" using False less.prems(3) by (auto simp: unat_gt_0 min_def)
    have kb: "?k \<le> unat space" "unat (rx_out s) + ?k \<le> BUF_LEN" "?k \<le> ring_used (unat (rx_in s)) (unat (rx_out s))"
      using k cont(1,2) by linarith+
    let ?s = "s\<lparr>rx_out := (rx_out s + ?n) mod UART_BUF_LEN\<rparr>"
    let ?bs = "take ?k (drop (unat (rx_out s)) (rx_buf s))"
    have "unat ((rx_out s + ?n) mod UART_BUF_LEN) = (unat (rx_out s) + ?k) mod BUF_LEN"
      using kb(2) f(6) by (intro unat_advance) simp_all
    then have ok: "fast_ok ?s" "rx_queue s = ?bs @ rx_queue ?s"
      using ring_take[of "rx_buf s" "unat (rx_in s)" "unat (rx_out s)" ?k] kb(2,3) less.prems(1)
      by (auto simp: fast_ok_def)
    have len: "length ?bs = ?k" using f(4,6) kb(2) by simp
    have q: "?bs = take ?k (rx_queue s)" "rx_queue ?s = drop ?k (rx_queue s)"
      using ok(2) len by (metis append_eq_conv_conj)+
    have c: "unat (space - ?n) = unat space - ?k" using kb(1) by (intro unat_diff) (simp add: word_le_nat_alt)
    then have sp: "unat (space - ?n) < unat space" "unat (space - ?n) < 2 ^ 31" using k0 less.prems(2,3) by linarith+
    have step: "fast_read_copy space got s =
        (if 0 < unat (space - ?n) then fast_read_copy (space - ?n) (got @ ?bs) ?s
         else returns (space - ?n, got @ ?bs, ?s, rx_in s))"
      using False kb(2) f(4) sint_positive[OF sp(2)] by (subst fast_read_copy.simps) (simp add: Let_def)
    show ?thesis
    proof (cases "0 < unat (space - ?n)")
      case more: True
      from less.hyps[OF sp(1) ok(1) sp(2) more, of "got @ ?bs"] obtain m o' where m:
        "m = min (unat (space - ?n)) (length (rx_queue ?s))"
        "fast_read_copy (space - ?n) (got @ ?bs) ?s =
           returns (space - ?n - of_nat m, (got @ ?bs) @ take m (rx_queue ?s), ?s\<lparr>rx_out := o'\<rparr>, rx_in ?s)"
        "fast_ok (?s\<lparr>rx_out := o'\<rparr>)" "rx_queue (?s\<lparr>rx_out := o'\<rparr>) = drop m (rx_queue ?s)" by blast
      have "length (rx_queue s) = ?k + length (rx_queue ?s)" using ok(2) len by (metis length_append)
      then have total: "?k + m = min (unat space) (length (rx_queue s))" using m(1) c kb(1) by simp
      have "of_nat (?k + m) = ?n + (of_nat m :: cint)" by simp
      then have space: "space - of_nat (?k + m) = space - ?n - of_nat m" by (simp only: diff_diff_eq)
      have all: "take (?k + m) (rx_queue s) = ?bs @ take m (rx_queue ?s)"
        by (simp only: take_add q)
      have rest: "drop (?k + m) (rx_queue s) = drop m (rx_queue ?s)" by (simp only: q drop_drop add.commute)
      have s': "?s\<lparr>rx_out := o'\<rparr> = s\<lparr>rx_out := o'\<rparr>" "rx_in ?s = rx_in s" by simp_all
      note m' = m(2-4)[unfolded s'(1) append_assoc, folded all space rest, unfolded s'(2)]
      show ?thesis
        by (rule exI[of _ "?k + m"], rule exI[of _ o'])
           (intro conjI total m'(2,3) trans[OF _ m'(1)], simp only: step more if_True)
    next
      case full: False
      then have "space = ?n" using c kb(1) by (simp add: word_unat_eq_iff)
      then have total: "?k = min (unat space) (length (rx_queue s))" using kb(3) by simp
      show ?thesis
        by (rule exI[of _ ?k], rule exI[of _ "(rx_out s + ?n) mod UART_BUF_LEN"])
           (intro conjI total ok(1) q(2), simp only: step full if_False q(1) of_nat_unat ucast_id)
    qed
  qed
qed

text \<open>C30. A non-blocking write returns at once, whatever the hardware does.  It appends as much of
  the data as fits (2047 bytes minus what is queued), in order, loses nothing that was queued,
  enables the transmit interrupt and returns the number of bytes taken, or -EWOULDBLOCK for none.\<close>

theorem fast_write_nonblocking:
  assumes "fast_ok s" and "0 \<le> sint count" and "nat (sint count) \<le> length ptr" and "flags AND O_NONBLOCK \<noteq> 0"
  shows "\<exists>n s'. n = min (nat (sint count)) (2047 - length (tx_queue s)) \<and>
    fast_write b env ptr count flags s = returns (if n = 0 then - EWOULDBLOCK else of_nat n, s') \<and>
    fast_ok s' \<and> tx_queue s' = tx_queue s @ take n ptr \<and> rx_queue s' = rx_queue s \<and>
    irq_enable s' = irq_enable s OR CONTROL_WE_MSK"
proof -
  have c: "nat (sint count) = unat count" "unat count < 2 ^ 31"
    using uint_sint_nonneg[OF assms(2)] sint_lt[of count] by (simp_all add: unat_eq_nat_uint)
  obtain n out' bf inp' where w: "n = min (unat count) (BUF_LEN - 1 - length (tx_queue s))"
      "fast_write_copy ptr 0 count 0 s = returns (n, count - of_nat n, out', s\<lparr>tx_buf := bf, tx_in := inp'\<rparr>)"
      "fast_ok (s\<lparr>tx_buf := bf, tx_in := inp'\<rparr>)"
      "tx_queue (s\<lparr>tx_buf := bf, tx_in := inp'\<rparr>) = tx_queue s @ take n ptr"
    using write_copy[OF assms(1) c(2), of 0 ptr 0] assms(3) c(1) by auto
  let ?s = "enable_irq_bit b CONTROL_WE_MSK (s\<lparr>tx_buf := bf, tx_in := inp'\<rparr>)"
  have e: "\<exists>d i. ?s = s\<lparr>tx_buf := bf, tx_in := inp', irq_enable := irq_enable s OR CONTROL_WE_MSK, uart := d, irqs := i\<rparr>"
    by (auto simp: enable_irq_bit_def write_control_def Let_def split: prod.split)
  have "fast_write_loop b env flags ptr 0 count 0 s = returns (n, ?s)"
    using assms(4) w(2) by (subst fast_write_loop.simps) (simp add: Let_def)
  then have run: "fast_write b env ptr count flags s = returns (if n = 0 then - EWOULDBLOCK else of_nat n, ?s)"
    using assms(4) by (simp add: fast_write_def)
  have fin: "fast_ok ?s" "tx_queue ?s = tx_queue s @ take n ptr" "rx_queue ?s = rx_queue s"
      "irq_enable ?s = irq_enable s OR CONTROL_WE_MSK"
    using e w(3,4) by (auto simp: fast_ok_def)
  have "BUF_LEN - 1 = 2047" by (simp add: BUF_LEN_def)
  then have "n = min (nat (sint count)) (2047 - length (tx_queue s))" using w(1) c(1) by simp
  then show ?thesis by (rule exI[of _ n, OF exI[of _ ?s], OF conjI]) (intro conjI run fin)
qed

lemma fast_write_nonblocking_witness:
  "\<exists>n s'. n = min 3 (2047 - length (tx_queue (jtag_uart_state 0x41048 (irq_reset ()) (timer_reset ()) ()))) \<and>
    fast_write (\<lparr>ldwio = \<lambda>d a. (0, d), stwio = \<lambda>d a v. d\<rparr>) returns [1, 2, 3] 3 O_NONBLOCK (jtag_uart_state 0x41048 (irq_reset ()) (timer_reset ()) ()) =
      returns (if n = 0 then - EWOULDBLOCK else of_nat n, s') \<and> tx_queue s' = take n [1, 2, 3]"
proof -
  have ok: "fast_ok (jtag_uart_state 0x41048 (irq_reset ()) (timer_reset ()) ())"
    by (simp add: fast_ok_def ring_ok_def jtag_uart_state_def BUF_LEN_def)
  have empty: "tx_queue (jtag_uart_state 0x41048 (irq_reset ()) (timer_reset ()) ()) = []"
    by (simp add: jtag_uart_state_def ring_queue_def ring_used_def)
  show ?thesis
    using fast_write_nonblocking[OF ok, where count = 3 and ptr = "[1, 2, 3]" and flags = O_NONBLOCK
        and b = "\<lparr>ldwio = \<lambda>d a. (0, d), stwio = \<lambda>d a v. d\<rparr>" and env = returns]
    by (auto simp: empty O_NONBLOCK_def)
qed

text \<open>C31. A read returns at once when it is non-blocking or something has been received.  It hands
  over the first bytes of the receive queue, as many as there are and fit, in order, and leaves the
  rest queued; with none it returns -EWOULDBLOCK.\<close>

theorem fast_read_available:
  assumes "fast_ok s" and "0 < sint space" and "flags AND O_NONBLOCK \<noteq> 0 \<or> rx_queue s \<noteq> []"
  shows "\<exists>n s'. n = min (nat (sint space)) (length (rx_queue s)) \<and>
    fast_read b env space flags s =
      returns (if n = 0 then - EWOULDBLOCK else of_nat n, take n (rx_queue s), s') \<and>
    fast_ok s' \<and> rx_queue s' = drop n (rx_queue s) \<and> tx_queue s' = tx_queue s \<and>
    irq_enable s' = (if n = 0 then irq_enable s else irq_enable s OR CONTROL_RE_MSK)"
proof -
  have c: "nat (sint space) = unat space" "unat space < 2 ^ 31" "0 < unat space"
    using uint_sint_nonneg[of space] sint_lt[of space] assms(2) by (simp_all add: unat_eq_nat_uint)
  obtain n o' where r: "n = min (unat space) (length (rx_queue s))"
      "fast_read_copy space [] s = returns (space - of_nat n, take n (rx_queue s), s\<lparr>rx_out := o'\<rparr>, rx_in s)"
      "fast_ok (s\<lparr>rx_out := o'\<rparr>)" "rx_queue (s\<lparr>rx_out := o'\<rparr>) = drop n (rx_queue s)"
    using read_copy[OF assms(1) c(2,3), of "[]"] by auto
  have some: "take n (rx_queue s) = [] \<longleftrightarrow> n = 0" "length (take n (rx_queue s)) = n"
    using r(1) c(3) by (auto simp: min_def ring_queue_def)
  have "take n (rx_queue s) \<noteq> [] \<or> flags AND O_NONBLOCK \<noteq> 0"
    using assms(3) some r(1) c(3) by (auto simp del: length_ring_queue)
  then have l: "fast_read_loop env flags space [] s = returns (take n (rx_queue s), s\<lparr>rx_out := o'\<rparr>)"
    using assms(2) r(2) by (subst fast_read_loop.simps) auto
  let ?s = "if n = 0 then s\<lparr>rx_out := o'\<rparr> else enable_irq_bit b CONTROL_RE_MSK (s\<lparr>rx_out := o'\<rparr>)"
  have e: "\<exists>d i. enable_irq_bit b CONTROL_RE_MSK (s\<lparr>rx_out := o'\<rparr>) =
      s\<lparr>rx_out := o', irq_enable := irq_enable s OR CONTROL_RE_MSK, uart := d, irqs := i\<rparr>"
    by (auto simp: enable_irq_bit_def write_control_def Let_def split: prod.split)
  then have "fast_ok ?s" "rx_queue ?s = drop n (rx_queue s)" "tx_queue ?s = tx_queue s"
      "irq_enable ?s = (if n = 0 then irq_enable s else irq_enable s OR CONTROL_RE_MSK)"
    using r(3,4) by (auto simp: fast_ok_def)
  moreover have "n = 0 \<Longrightarrow> flags AND O_NONBLOCK \<noteq> 0"
    using assms(3) r(1) c(3) by (auto simp: min_def split: if_splits simp del: length_ring_queue)
  then have "fast_read b env space flags s = returns (if n = 0 then - EWOULDBLOCK else of_nat n, take n (rx_queue s), ?s)"
    using l some by (auto simp: fast_read_def Let_def)
  ultimately show ?thesis using r(1) c(1) by (intro exI[of _ n] exI[of _ ?s]) simp
qed

lemma fast_read_available_witness:
  "\<exists>n s'. n = min 100 (length (rx_queue (jtag_uart_state 0x41048 (irq_reset ()) (timer_reset ()) ()))) \<and>
    fast_read (\<lparr>ldwio = \<lambda>d a. (0, d), stwio = \<lambda>d a v. d\<rparr>) returns 100 O_NONBLOCK (jtag_uart_state 0x41048 (irq_reset ()) (timer_reset ()) ()) =
      returns (if n = 0 then - EWOULDBLOCK else of_nat n, [], s') \<and> rx_queue s' = []"
proof -
  have ok: "fast_ok (jtag_uart_state 0x41048 (irq_reset ()) (timer_reset ()) ())"
    by (simp add: fast_ok_def ring_ok_def jtag_uart_state_def BUF_LEN_def)
  have empty: "rx_queue (jtag_uart_state 0x41048 (irq_reset ()) (timer_reset ()) ()) = []"
    by (simp add: jtag_uart_state_def ring_queue_def ring_used_def)
  show ?thesis
    using fast_read_available[OF ok, where space = 100 and flags = O_NONBLOCK
        and b = "\<lparr>ldwio = \<lambda>d a. (0, d), stwio = \<lambda>d a v. d\<rparr>" and env = returns]
    by (auto simp: empty O_NONBLOCK_def)
qed

end
