(* ===== verification/Jtag_Stream.thy ===== *)
theory Jtag_Stream
  imports Jtag_Queue
begin

text \<open>
  The interrupt-driven driver as two streams.  The circular buffers are queues between the
  program and the interrupt routine; here the interrupt routine is shown to put and take only at
  the ends it owns, and to return, on every core that keeps the contract \<open>jtag_fifo\<close>.
\<close>

section \<open>What one run of the interrupt routine may do\<close>

text \<open>
  It takes \<open>sent\<close> from the transmit queue to the host, puts \<open>new\<close> from the host into the receive
  queue, and touches neither what the program owns nor a byte that is still queued.
\<close>

definition isr_effect ::
  "('d \<Rightarrow> u8 list) \<Rightarrow> ('d \<Rightarrow> u8 list) \<Rightarrow> 'd fast \<Rightarrow> 'd fast \<Rightarrow> u8 list \<Rightarrow> u8 list \<Rightarrow> bool" where
  "isr_effect emitted pending s s' sent new \<longleftrightarrow>
     sp_base s' = sp_base s \<and> timeout s' = timeout s \<and> host_inactive s' = host_inactive s \<and>
     rx_out s' = rx_out s \<and> tx_in s' = tx_in s \<and> tx_buf s' = tx_buf s \<and>
     irqs s' = irqs s \<and> clock_part s' = clock_part s \<and>
     emitted (uart s') = emitted (uart s) @ sent \<and> tx_queue s = sent @ tx_queue s' \<and>
     pending (uart s) = new @ pending (uart s') \<and> rx_queue s' = rx_queue s @ new"

lemma isr_effect_refl: "isr_effect emitted pending s s [] []"
  by (simp add: isr_effect_def)

lemma isr_effect_trans:
  "isr_effect emitted pending s s1 sent new \<Longrightarrow> isr_effect emitted pending s1 s2 sent' new' \<Longrightarrow>
   isr_effect emitted pending s s2 (sent @ sent') (new @ new')"
  unfolding isr_effect_def by (elim conjE, intro conjI) (metis append.assoc)+

text \<open>The work left to the routine: what is still to be moved, and the interrupts still enabled.\<close>

definition isr_work :: "('d \<Rightarrow> u8 list) \<Rightarrow> 'd fast \<Rightarrow> nat" where
  "isr_work pending s = (if irq_enable s AND CONTROL_RE_MSK = 0 then 0 else 1) +
     (if irq_enable s AND CONTROL_WE_MSK = 0 then 0 else 1) + length (pending (uart s)) + length (tx_queue s)"

text \<open>What always holds of the driver's state; the last conjunct says that the control register has
  been written since \<open>irq_enable\<close> was last changed.\<close>

definition fast_inv :: "('d \<Rightarrow> bool) \<Rightarrow> ('d \<Rightarrow> cint) \<Rightarrow> cint \<Rightarrow> 'd fast \<Rightarrow> bool" where
  "fast_inv ready enabled base s \<longleftrightarrow> fast_ok s \<and> ready (uart s) \<and> sp_base s = base \<and>
     enabled (uart s) = irq_enable s AND (CONTROL_RE_MSK OR CONTROL_WE_MSK)"

lemma enable_bits:
  fixes x :: cint
  shows "(x AND NOT CONTROL_RE_MSK) AND CONTROL_RE_MSK = 0" "(x AND NOT CONTROL_WE_MSK) AND CONTROL_WE_MSK = 0"
    and "(x AND NOT CONTROL_RE_MSK) AND CONTROL_WE_MSK = x AND CONTROL_WE_MSK"
    and "(x AND NOT CONTROL_WE_MSK) AND CONTROL_RE_MSK = x AND CONTROL_RE_MSK"
    and "(x AND (CONTROL_RE_MSK OR CONTROL_WE_MSK)) AND CONTROL_RE_MSK = x AND CONTROL_RE_MSK"
    and "(x AND (CONTROL_RE_MSK OR CONTROL_WE_MSK)) AND CONTROL_WE_MSK = x AND CONTROL_WE_MSK"
  by (auto intro!: word_eqI_bits simp: CONTROL_RE_MSK_def CONTROL_WE_MSK_def bit_and_iff bit_or_iff bit_not_iff
      bit_2_iff bit_1_iff)

lemma interrupt_bits:
  "control AND (CONTROL_RI_MSK OR CONTROL_WI_MSK) = 0 \<longleftrightarrow> control AND CONTROL_RI_MSK = 0 \<and> control AND CONTROL_WI_MSK = 0"
  by (simp add: bit.conj_disj_distrib or_eq_0_iff)

section \<open>The hardware behind the interrupt routine\<close>

text \<open>
  What the routine relies on.  \<open>room\<close> is the space of the FIFO towards the host,
  \<open>pending\<close> the bytes that come from the host, \<open>enabled\<close> the enable bits of the control
  register.  The two interrupt bits of the control register are set only for a reason.
\<close>

locale jtag_fifo =
  fixes b :: "'d bus" and base :: cint
    and ready :: "'d \<Rightarrow> bool" and emitted :: "'d \<Rightarrow> u8 list" and room :: "'d \<Rightarrow> nat"
    and pending :: "'d \<Rightarrow> u8 list" and enabled :: "'d \<Rightarrow> cint"
  assumes control_read: "ready d \<Longrightarrow> IORD_CONTROL b base d = (v, d') \<Longrightarrow>
      ready d' \<and> emitted d' = emitted d \<and> pending d' = pending d \<and> enabled d' = enabled d \<and> room d \<le> room d' \<and>
      unat (drop_bit CONTROL_WSPACE_OFST (v AND CONTROL_WSPACE_MSK)) \<le> room d'"
    and control_write: "ready d \<Longrightarrow> ready (IOWR_CONTROL b base x d) \<and> emitted (IOWR_CONTROL b base x d) = emitted d \<and>
      pending (IOWR_CONTROL b base x d) = pending d \<and> room d \<le> room (IOWR_CONTROL b base x d) \<and>
      enabled (IOWR_CONTROL b base x d) = x AND (CONTROL_RE_MSK OR CONTROL_WE_MSK)"
    and data_write: "ready d \<Longrightarrow> 0 < room d \<Longrightarrow> ready (IOWR_DATA b base x d) \<and>
      emitted (IOWR_DATA b base x d) = emitted d @ [ucast x] \<and> pending (IOWR_DATA b base x d) = pending d \<and>
      enabled (IOWR_DATA b base x d) = enabled d \<and> room d \<le> Suc (room (IOWR_DATA b base x d))"
    and data_read: "ready d \<Longrightarrow> IORD_DATA b base d = (v, d') \<Longrightarrow>
      ready d' \<and> emitted d' = emitted d \<and> enabled d' = enabled d \<and> room d \<le> room d' \<and>
      pending d = (if v AND DATA_RVALID_MSK = 0 then [] else [ucast (v AND DATA_DATA_MSK)]) @ pending d'"
    and read_reason: "ready d \<Longrightarrow> IORD_CONTROL b base d = (v, d') \<Longrightarrow> v AND CONTROL_RI_MSK \<noteq> 0 \<Longrightarrow>
      enabled d AND CONTROL_RE_MSK \<noteq> 0 \<and> fst (IORD_DATA b base d') AND DATA_RVALID_MSK \<noteq> 0"
    and write_reason: "ready d \<Longrightarrow> IORD_CONTROL b base d = (v, d') \<Longrightarrow> v AND CONTROL_WI_MSK \<noteq> 0 \<Longrightarrow>
      enabled d AND CONTROL_WE_MSK \<noteq> 0 \<and> drop_bit CONTROL_WSPACE_OFST (v AND CONTROL_WSPACE_MSK) \<noteq> 0"
begin

text \<open>The transmit loop takes from the front of the queue what the FIFO has room for.\<close>

lemma tx_loop:
  "ready (uart s) \<Longrightarrow> sp_base s = base \<Longrightarrow> fast_ok s \<Longrightarrow> unat space \<le> room (uart s) \<Longrightarrow>
   \<exists>n d o'. n = min (unat space) (length (tx_queue s)) \<and>
     fast_tx_loop b space s = returns (space - of_nat n, s\<lparr>uart := d, tx_out := o'\<rparr>) \<and>
     fast_ok (s\<lparr>uart := d, tx_out := o'\<rparr>) \<and> ready d \<and> emitted d = emitted (uart s) @ take n (tx_queue s) \<and>
     tx_queue (s\<lparr>uart := d, tx_out := o'\<rparr>) = drop n (tx_queue s) \<and>
     pending d = pending (uart s) \<and> enabled d = enabled (uart s)"
proof (induction "unat space" arbitrary: space s)
  case 0
  then have "space = 0" by (simp add: unat_eq_0)
  then show ?case using 0 by (intro exI[of _ "0::nat"] exI[of _ "uart s"] exI[of _ "tx_out s"])
      (subst fast_tx_loop.simps, simp)
next
  case (Suc k)
  note pos = unat_pred[OF Suc.hyps(2)]
  note f = fast_ok_fields[OF Suc.prems(3)]
  show ?case
  proof (cases "tx_out s = tx_in s")
    case True
    then have "tx_queue s = []" using Suc.prems(3) by (simp add: fast_ok_def ring_empty_iff)
    moreover have "fast_ok (s\<lparr>tx_out := tx_in s\<rparr>)" using True Suc.prems(3) by (simp add: fast_ok_def)
    ultimately show ?thesis using True Suc.prems
      by (intro exI[of _ "0::nat"] exI[of _ "uart s"] exI[of _ "tx_out s"]) (subst fast_tx_loop.simps, simp)
  next
    case False
    let ?c = "tx_buf s ! unat (tx_out s)"
    let ?s = "s\<lparr>uart := IOWR_DATA b (sp_base s) (scast ?c) (uart s), tx_out := (tx_out s + 1) mod UART_BUF_LEN\<rparr>"
    have "unat (tx_in s) \<noteq> unat (tx_out s)" using False by (simp add: word_unat_eq_iff)
    from ring_take_one[OF _ this] Suc.prems(3)
    have take: "fast_ok ?s" "tx_queue s = ?c # tx_queue ?s"
      using unat_succ[OF f(3)] by (auto simp: fast_ok_def)
    have w: "ready (uart ?s)" "emitted (uart ?s) = emitted (uart s) @ [?c]" "pending (uart ?s) = pending (uart s)"
        "enabled (uart ?s) = enabled (uart s)" "room (uart s) \<le> Suc (room (uart ?s))"
      using data_write[OF Suc.prems(1), of "scast ?c"] Suc.prems(2,4) Suc.hyps(2)
      by (auto simp: ucast_scast_u8)
    obtain n d o' where n: "n = min k (length (tx_queue ?s))"
      and l: "fast_tx_loop b (space - 1) ?s = returns (space - 1 - of_nat n, ?s\<lparr>uart := d, tx_out := o'\<rparr>)"
      and r: "fast_ok (?s\<lparr>uart := d, tx_out := o'\<rparr>)" "ready d" "emitted d = emitted (uart ?s) @ take n (tx_queue ?s)"
        "tx_queue (?s\<lparr>uart := d, tx_out := o'\<rparr>) = drop n (tx_queue ?s)"
        "pending d = pending (uart ?s)" "enabled d = enabled (uart ?s)"
      using Suc.hyps(1)[of "space - 1" ?s] pos(2) w take(1) Suc.prems(2,4) Suc.hyps(2) by (auto simp del: length_ring_queue)
    have step: "fast_tx_loop b space s = fast_tx_loop b (space - 1) ?s"
      using pos(1) False f(1,3) by (subst fast_tx_loop.simps) simp
    show ?thesis
      using n l r w take Suc.hyps(2)
      by (intro exI[of _ "Suc n"] exI[of _ d] exI[of _ o']) (simp add: step algebra_simps)
  qed
qed

text \<open>The receive loop stores what has arrived behind what is there, while a slot is free.\<close>

lemma rx_loop:
  "ready (uart s) \<Longrightarrow> sp_base s = base \<Longrightarrow> fast_ok s \<Longrightarrow>
   \<exists>new v d bf i'. fast_rx_loop b data s = returns (v, s\<lparr>uart := d, rx_buf := bf, rx_in := i'\<rparr>) \<and>
     fast_ok (s\<lparr>uart := d, rx_buf := bf, rx_in := i'\<rparr>) \<and> ready d \<and> emitted d = emitted (uart s) \<and>
     pending (uart s) = new @ pending d \<and>
     rx_queue (s\<lparr>uart := d, rx_buf := bf, rx_in := i'\<rparr>) = rx_queue s @ new \<and>
     enabled d = enabled (uart s) \<and> room (uart s) \<le> room d \<and>
     (new = [] \<longrightarrow> v = data \<and> d = uart s \<or> fst (IORD_DATA b base (uart s)) AND DATA_RVALID_MSK = 0)"
proof (induction "BUF_LEN - length (rx_queue s)" arbitrary: s data rule: less_induct)
  case less
  note f = fast_ok_fields[OF less.prems(3)] and next_idx = unat_succ[OF fast_ok_fields(5)[OF less.prems(3)]]
  show ?case
  proof (cases "(rx_in s + 1) mod UART_BUF_LEN = rx_out s")
    case True
    then show ?thesis using less.prems
      by (intro exI[of _ "[]"] exI[of _ data] exI[of _ "uart s"] exI[of _ "rx_buf s"] exI[of _ "rx_in s"])
         (subst fast_rx_loop.simps, simp)
  next
    case free: False
    obtain v d1 where r: "IORD_DATA b base (uart s) = (v, d1)" by fastforce
    note d1 = data_read[OF less.prems(1) r]
    show ?thesis
    proof (cases "v AND DATA_RVALID_MSK = 0")
      case True
      have "fast_ok (s\<lparr>uart := d1\<rparr>)" using less.prems(3) by (simp add: fast_ok_def)
      then show ?thesis using less.prems free r d1 True
        by (intro exI[of _ "[]"] exI[of _ v] exI[of _ d1] exI[of _ "rx_buf s"] exI[of _ "rx_in s"])
           (subst fast_rx_loop.simps, simp add: Let_def)
    next
      case False
      let ?c = "ucast (v AND DATA_DATA_MSK) :: u8"
      let ?s = "s\<lparr>uart := d1, rx_buf := (rx_buf s)[unat (rx_in s) := ?c], rx_in := (rx_in s + 1) mod UART_BUF_LEN\<rparr>"
      have "Suc (unat (rx_in s)) mod BUF_LEN \<noteq> unat (rx_out s)"
        using free next_idx by (metis word_unat_eq_iff)
      from ring_put_one[OF _ this, of "rx_buf s" ?c] less.prems(3)
      have put: "fast_ok ?s" "rx_queue ?s = rx_queue s @ [?c]" using next_idx by (auto simp: fast_ok_def)
      have "length (rx_queue ?s) = Suc (length (rx_queue s))" by (simp only: put(2)) simp
      then have smaller: "BUF_LEN - length (rx_queue ?s) < BUF_LEN - length (rx_queue s)"
        using ring_used_bound[OF f(5,6)] by (simp del: fast.select_convs)
      have step: "fast_rx_loop b data s = fast_rx_loop b v ?s"
        using free r False f(4,5) less.prems(2)
        by (subst fast_rx_loop.simps) (simp add: Let_def DATA_DATA_OFST_def)
      have "ready (uart ?s)" "sp_base ?s = base" using d1 less.prems(2) by auto
      from less.hyps[OF smaller this put(1), of v] obtain new v' d bf i' where
        "fast_rx_loop b v ?s = returns (v', ?s\<lparr>uart := d, rx_buf := bf, rx_in := i'\<rparr>)"
        "fast_ok (?s\<lparr>uart := d, rx_buf := bf, rx_in := i'\<rparr>)" "ready d" "emitted d = emitted (uart ?s)"
        "pending (uart ?s) = new @ pending d"
        "rx_queue (?s\<lparr>uart := d, rx_buf := bf, rx_in := i'\<rparr>) = rx_queue ?s @ new"
        "enabled d = enabled (uart ?s)" "room (uart ?s) \<le> room d" by blast
      then show ?thesis using d1 False put(2) step
        by (intro exI[of _ "?c # new"] exI[of _ v'] exI[of _ d] exI[of _ bf] exI[of _ i']) simp
    qed
  qed
qed

lemma disable_bit:
  assumes "ready (uart s)" and "sp_base s = base"
  shows "\<exists>d. disable_irq_bit b m s = s\<lparr>irq_enable := irq_enable s AND NOT m, uart := d\<rparr> \<and>
    ready d \<and> emitted d = emitted (uart s) \<and> pending d = pending (uart s) \<and> room (uart s) \<le> room d \<and>
    enabled d = (irq_enable s AND NOT m) AND (CONTROL_RE_MSK OR CONTROL_WE_MSK)"
proof -
  let ?d = "IOWR_CONTROL b base (irq_enable s AND NOT m) (uart s)"
  obtain v d where r: "IORD_CONTROL b base ?d = (v, d)" by fastforce
  note w = control_write[OF assms(1), of "irq_enable s AND NOT m"]
  show ?thesis
    using control_read[OF conjunct1[OF w] r] w r assms(2)
    by (intro exI[of _ d]) (auto simp: disable_irq_bit_def write_control_def read_control_def Let_def)
qed

lemma enable_bit:
  assumes "ready (uart s)" and "sp_base s = base"
  shows "\<exists>d i. enable_irq_bit b m s = s\<lparr>irq_enable := irq_enable s OR m, uart := d, irqs := i\<rparr> \<and>
    ready d \<and> emitted d = emitted (uart s) \<and> pending d = pending (uart s) \<and>
    enabled d = (irq_enable s OR m) AND (CONTROL_RE_MSK OR CONTROL_WE_MSK)"
  using control_write[OF assms(1), of "irq_enable s OR m"] assms(2)
  by (auto simp: enable_irq_bit_def write_control_def Let_def split: prod.split)

text \<open>The receive part takes at least one byte or turns itself off.\<close>

lemma rx_irq:
  assumes "ready (uart s)" and "sp_base s = base" and "fast_ok s"
    and "enabled (uart s) = irq_enable s AND (CONTROL_RE_MSK OR CONTROL_WE_MSK)"
    and "fst (IORD_DATA b base (uart s)) AND DATA_RVALID_MSK \<noteq> 0"
  shows "\<exists>s' new. fast_rx_irq b s = returns s' \<and> isr_effect emitted pending s s' [] new \<and>
    ready (uart s') \<and> fast_ok s' \<and> room (uart s) \<le> room (uart s') \<and>
    enabled (uart s') = irq_enable s' AND (CONTROL_RE_MSK OR CONTROL_WE_MSK) \<and>
    (irq_enable s' = irq_enable s \<and> new \<noteq> [] \<or> irq_enable s' = irq_enable s AND NOT CONTROL_RE_MSK)"
proof -
  obtain new v d bf i' where l: "fast_rx_loop b (push_bit DATA_RAVAIL_OFST 1) s = returns (v, s\<lparr>uart := d, rx_buf := bf, rx_in := i'\<rparr>)"
    and ok: "fast_ok (s\<lparr>uart := d, rx_buf := bf, rx_in := i'\<rparr>)"
    and d: "ready d" "emitted d = emitted (uart s)" "pending (uart s) = new @ pending d" "enabled d = enabled (uart s)"
      "room (uart s) \<le> room d"
    and q: "rx_queue (s\<lparr>uart := d, rx_buf := bf, rx_in := i'\<rparr>) = rx_queue s @ new"
    and first: "new = [] \<longrightarrow> v = push_bit DATA_RAVAIL_OFST 1"
    using rx_loop[OF assms(1,2,3), of "push_bit DATA_RAVAIL_OFST 1"] assms(5) by blast
  let ?s = "s\<lparr>uart := d, rx_buf := bf, rx_in := i'\<rparr>"
  have eff: "isr_effect emitted pending s ?s [] new" using d q by (simp add: isr_effect_def)
  show ?thesis
  proof (cases "v AND DATA_RAVAIL_MSK = 0")
    case True
    moreover have "(push_bit DATA_RAVAIL_OFST 1 :: cint) AND DATA_RAVAIL_MSK \<noteq> 0" by code_simp
    ultimately have "new \<noteq> []" using first by auto
    then show ?thesis using True l ok d eff assms(4) by (intro exI[of _ ?s] exI[of _ new]) (simp add: fast_rx_irq_def)
  next
    case False
    from disable_bit[of ?s CONTROL_RE_MSK] d assms(2) obtain d' where
      dis: "disable_irq_bit b CONTROL_RE_MSK ?s = ?s\<lparr>irq_enable := irq_enable s AND NOT CONTROL_RE_MSK, uart := d'\<rparr>"
        "ready d'" "emitted d' = emitted d" "pending d' = pending d" "room d \<le> room d'"
        "enabled d' = (irq_enable s AND NOT CONTROL_RE_MSK) AND (CONTROL_RE_MSK OR CONTROL_WE_MSK)"
      by auto
    then show ?thesis using False l ok d eff
      by (intro exI[of _ "?s\<lparr>irq_enable := irq_enable s AND NOT CONTROL_RE_MSK, uart := d'\<rparr>"] exI[of _ new])
         (simp add: fast_rx_irq_def isr_effect_def fast_ok_def)
  qed
qed

text \<open>The transmit part sends at least one byte or turns itself off.\<close>

lemma tx_irq:
  assumes "ready (uart s)" and "sp_base s = base" and "fast_ok s"
    and "enabled (uart s) = irq_enable s AND (CONTROL_RE_MSK OR CONTROL_WE_MSK)"
    and "drop_bit CONTROL_WSPACE_OFST (control AND CONTROL_WSPACE_MSK) \<noteq> 0"
    and "unat (drop_bit CONTROL_WSPACE_OFST (control AND CONTROL_WSPACE_MSK)) \<le> room (uart s)"
  shows "\<exists>s' sent. fast_tx_irq b control s = returns s' \<and> isr_effect emitted pending s s' sent [] \<and>
    ready (uart s') \<and> fast_ok s' \<and>
    enabled (uart s') = irq_enable s' AND (CONTROL_RE_MSK OR CONTROL_WE_MSK) \<and>
    sent = take (unat (drop_bit CONTROL_WSPACE_OFST (control AND CONTROL_WSPACE_MSK))) (tx_queue s) \<and>
    (irq_enable s' = irq_enable s \<and> sent \<noteq> [] \<or>
     irq_enable s' = irq_enable s AND NOT CONTROL_WE_MSK \<and> tx_queue s' = [])"
proof -
  let ?space = "drop_bit CONTROL_WSPACE_OFST (control AND CONTROL_WSPACE_MSK)"
  obtain n d o' where n: "n = min (unat ?space) (length (tx_queue s))"
    and l: "fast_tx_loop b ?space s = returns (?space - of_nat n, s\<lparr>uart := d, tx_out := o'\<rparr>)"
    and ok: "fast_ok (s\<lparr>uart := d, tx_out := o'\<rparr>)"
    and d: "ready d" "emitted d = emitted (uart s) @ take n (tx_queue s)" "pending d = pending (uart s)"
      "enabled d = enabled (uart s)"
    and q: "tx_queue (s\<lparr>uart := d, tx_out := o'\<rparr>) = drop n (tx_queue s)"
    using tx_loop[OF assms(1,2,3,6)] by blast
  let ?s = "s\<lparr>uart := d, tx_out := o'\<rparr>"
  have sent: "take n (tx_queue s) = take (unat ?space) (tx_queue s)" by (simp add: n min_def)
  have eff: "isr_effect emitted pending s ?s (take n (tx_queue s)) []" using d q by (simp add: isr_effect_def)
  have pos: "0 < unat ?space" using assms(5) unat_gt_0 by blast
  show ?thesis
  proof (cases "?space - of_nat n = 0")
    case True
    moreover have "n < 2 ^ 32" using n unat_bound[of ?space] by simp
    ultimately have "n = unat ?space" using of_nat_eq_iff_unat[where 'a=32, of n ?space] by simp
    moreover have "length (take n (tx_queue s)) = n" using n by simp
    ultimately have "take n (tx_queue s) \<noteq> []" using pos by (metis list.size(3) less_irrefl)
    then show ?thesis using True l ok d eff sent assms(4)
      by (intro exI[of _ ?s] exI[of _ "take n (tx_queue s)"]) (simp add: fast_tx_irq_def)
  next
    case False
    then have "n = length (tx_queue s)" using n by (auto simp: min_def split: if_splits)
    then have empty: "tx_queue ?s = []" using q by simp
    from disable_bit[of ?s CONTROL_WE_MSK] d assms(2) obtain d' where
      dis: "disable_irq_bit b CONTROL_WE_MSK ?s = ?s\<lparr>irq_enable := irq_enable s AND NOT CONTROL_WE_MSK, uart := d'\<rparr>"
        "ready d'" "emitted d' = emitted d" "pending d' = pending d"
        "enabled d' = (irq_enable s AND NOT CONTROL_WE_MSK) AND (CONTROL_RE_MSK OR CONTROL_WE_MSK)"
      by auto
    then show ?thesis using False l ok d eff sent empty
      by (intro exI[of _ "?s\<lparr>irq_enable := irq_enable s AND NOT CONTROL_WE_MSK, uart := d'\<rparr>"] exI[of _ "take n (tx_queue s)"])
         (simp add: fast_tx_irq_def isr_effect_def fast_ok_def word_gt_0)
  qed
qed

lemma rx_stage:
  assumes "fast_inv ready enabled base s"
    and "control AND CONTROL_RI_MSK \<noteq> 0 \<Longrightarrow> irq_enable s AND CONTROL_RE_MSK \<noteq> 0 \<and>
      fst (IORD_DATA b base (uart s)) AND DATA_RVALID_MSK \<noteq> 0"
  shows "\<exists>s' new. (if control AND CONTROL_RI_MSK \<noteq> 0 then fast_rx_irq b s else returns s) = returns s' \<and>
    isr_effect emitted pending s s' [] new \<and> fast_inv ready enabled base s' \<and> room (uart s) \<le> room (uart s') \<and>
    irq_enable s' AND CONTROL_WE_MSK = irq_enable s AND CONTROL_WE_MSK \<and>
    isr_work pending s' \<le> isr_work pending s \<and>
    (control AND CONTROL_RI_MSK \<noteq> 0 \<longrightarrow> isr_work pending s' < isr_work pending s)"
proof (cases "control AND CONTROL_RI_MSK = 0")
  case True
  then show ?thesis using assms(1) by (intro exI[of _ s] exI[of _ "[]"]) (simp add: isr_effect_refl)
next
  case False
  have i: "ready (uart s)" "sp_base s = base" "fast_ok s"
    "enabled (uart s) = irq_enable s AND (CONTROL_RE_MSK OR CONTROL_WE_MSK)"
    using assms(1) by (auto simp: fast_inv_def)
  obtain s' new where s': "fast_rx_irq b s = returns s'" "isr_effect emitted pending s s' [] new"
      "ready (uart s')" "fast_ok s'" "room (uart s) \<le> room (uart s')"
      "enabled (uart s') = irq_enable s' AND (CONTROL_RE_MSK OR CONTROL_WE_MSK)"
      "irq_enable s' = irq_enable s \<and> new \<noteq> [] \<or> irq_enable s' = irq_enable s AND NOT CONTROL_RE_MSK"
    using rx_irq[OF i] assms(2)[OF False] by blast
  have "length (pending (uart s)) = length new + length (pending (uart s'))" "length (tx_queue s') = length (tx_queue s)"
    using s'(2) by (simp_all add: isr_effect_def)
  then have "isr_work pending s' < isr_work pending s"
    using s'(7) conjunct1[OF assms(2)[OF False]] by (auto simp: isr_work_def enable_bits)
  then show ?thesis using s' False i
    by (intro exI[of _ s'] exI[of _ new]) (auto simp: fast_inv_def isr_effect_def enable_bits)
qed

lemma tx_stage:
  assumes "fast_inv ready enabled base s"
    and "unat (drop_bit CONTROL_WSPACE_OFST (control AND CONTROL_WSPACE_MSK)) \<le> room (uart s)"
    and "control AND CONTROL_WI_MSK \<noteq> 0 \<Longrightarrow> irq_enable s AND CONTROL_WE_MSK \<noteq> 0 \<and>
      drop_bit CONTROL_WSPACE_OFST (control AND CONTROL_WSPACE_MSK) \<noteq> 0"
  shows "\<exists>s' sent. (if control AND CONTROL_WI_MSK \<noteq> 0 then fast_tx_irq b control s else returns s) = returns s' \<and>
    isr_effect emitted pending s s' sent [] \<and> fast_inv ready enabled base s' \<and>
    isr_work pending s' \<le> isr_work pending s \<and>
    (control AND CONTROL_WI_MSK = 0 \<longrightarrow> s' = s \<and> sent = []) \<and>
    (tx_queue s' \<noteq> [] \<longrightarrow> irq_enable s' AND CONTROL_WE_MSK = irq_enable s AND CONTROL_WE_MSK) \<and>
    (control AND CONTROL_WI_MSK \<noteq> 0 \<longrightarrow> isr_work pending s' < isr_work pending s \<and> (tx_queue s \<noteq> [] \<longrightarrow> sent \<noteq> []))"
proof (cases "control AND CONTROL_WI_MSK = 0")
  case True
  then show ?thesis using assms(1) by (intro exI[of _ s] exI[of _ "[]"]) (simp add: isr_effect_refl)
next
  case False
  have i: "ready (uart s)" "sp_base s = base" "fast_ok s"
    "enabled (uart s) = irq_enable s AND (CONTROL_RE_MSK OR CONTROL_WE_MSK)"
    using assms(1) by (auto simp: fast_inv_def)
  obtain s' sent where s': "fast_tx_irq b control s = returns s'" "isr_effect emitted pending s s' sent []"
      "ready (uart s')" "fast_ok s'"
      "enabled (uart s') = irq_enable s' AND (CONTROL_RE_MSK OR CONTROL_WE_MSK)"
      "irq_enable s' = irq_enable s \<and> sent \<noteq> [] \<or> irq_enable s' = irq_enable s AND NOT CONTROL_WE_MSK \<and> tx_queue s' = []"
    using tx_irq[OF i conjunct2[OF assms(3)[OF False]] assms(2)] by blast
  have q: "pending (uart s') = pending (uart s)" "tx_queue s = sent @ tx_queue s'"
    using s'(2) by (simp_all add: isr_effect_def)
  then have "isr_work pending s' < isr_work pending s"
    using s'(6) conjunct1[OF assms(3)[OF False]]
    by (auto simp: isr_work_def enable_bits simp del: length_ring_queue)
  moreover have "tx_queue s \<noteq> [] \<longrightarrow> sent \<noteq> []"
      "tx_queue s' \<noteq> [] \<longrightarrow> irq_enable s' AND CONTROL_WE_MSK = irq_enable s AND CONTROL_WE_MSK"
    using s'(6) q by auto
  ultimately show ?thesis using s'(1-5) False i
    by (intro exI[of _ s'] exI[of _ sent]) (auto simp: fast_inv_def isr_effect_def)
qed

text \<open>One turn of the routine: it ends, with the control register read, or there is less to do; and
  when the register shows the transmit interrupt something is sent.\<close>

lemma irq_turn:
  assumes "fast_inv ready enabled base s" and r: "IORD_CONTROL b base (uart s) = (control, d)"
  shows "\<exists>s' sent new. isr_effect emitted pending s s' sent new \<and> fast_inv ready enabled base s' \<and>
    (altera_avalon_jtag_uart_irq b s = returns s' \<or>
     altera_avalon_jtag_uart_irq b s = altera_avalon_jtag_uart_irq b s' \<and> isr_work pending s' < isr_work pending s) \<and>
    (tx_queue s' \<noteq> [] \<longrightarrow> irq_enable s' AND CONTROL_WE_MSK = irq_enable s AND CONTROL_WE_MSK) \<and>
    (if control AND CONTROL_WI_MSK = 0 then sent = [] \<and> room d \<le> room (uart s')
     else tx_queue s \<noteq> [] \<longrightarrow> sent \<noteq> [])"
proof -
  have i: "ready (uart s)" "sp_base s = base" using assms(1) by (auto simp: fast_inv_def)
  note c = control_read[OF i(1) r] and ri = read_reason[OF i(1) r] and wi = write_reason[OF i(1) r]
  let ?s = "s\<lparr>uart := d\<rparr>"
  have inv: "fast_inv ready enabled base ?s" using assms(1) c by (simp add: fast_inv_def fast_ok_def)
  have eff: "isr_effect emitted pending s ?s [] []" using c by (simp add: isr_effect_def)
  have work: "isr_work pending ?s = isr_work pending s" using c by (simp add: isr_work_def)
  have en: "enabled (uart s) = irq_enable s AND (CONTROL_RE_MSK OR CONTROL_WE_MSK)"
    using assms(1) by (simp add: fast_inv_def)
  have irq: "altera_avalon_jtag_uart_irq b s =
      (if control AND (CONTROL_RI_MSK OR CONTROL_WI_MSK) = 0 then returns ?s
       else
         and_then (if control AND CONTROL_RI_MSK \<noteq> 0 then fast_rx_irq b ?s else returns ?s) (\<lambda>s.
         and_then (if control AND CONTROL_WI_MSK \<noteq> 0 then fast_tx_irq b control s else returns s) (\<lambda>s.
         altera_avalon_jtag_uart_irq b s)))"
    using r i(2) by (subst altera_avalon_jtag_uart_irq.simps) (simp add: read_control_def)
  show ?thesis
  proof (cases "control AND (CONTROL_RI_MSK OR CONTROL_WI_MSK) = 0")
    case True
    then have "control AND CONTROL_WI_MSK = 0" by (simp add: interrupt_bits)
    then show ?thesis using True irq inv eff
      by (intro exI[of _ ?s] exI[of _ "[]"] exI[of _ "[]"]) simp
  next
    case False
    obtain s1 new where s1: "(if control AND CONTROL_RI_MSK \<noteq> 0 then fast_rx_irq b ?s else returns ?s) = returns s1"
        "isr_effect emitted pending ?s s1 [] new" "fast_inv ready enabled base s1" "room d \<le> room (uart s1)"
        "irq_enable s1 AND CONTROL_WE_MSK = irq_enable s AND CONTROL_WE_MSK" "isr_work pending s1 \<le> isr_work pending ?s"
        "control AND CONTROL_RI_MSK \<noteq> 0 \<longrightarrow> isr_work pending s1 < isr_work pending ?s"
      using rx_stage[OF inv, of control] ri by (auto simp: en enable_bits)
    have "unat (drop_bit CONTROL_WSPACE_OFST (control AND CONTROL_WSPACE_MSK)) \<le> room (uart s1)"
      using c s1(4) by linarith
    from tx_stage[OF s1(3) this] wi s1(5) obtain s2 sent where s2:
        "(if control AND CONTROL_WI_MSK \<noteq> 0 then fast_tx_irq b control s1 else returns s1) = returns s2"
        "isr_effect emitted pending s1 s2 sent []" "fast_inv ready enabled base s2"
        "isr_work pending s2 \<le> isr_work pending s1" "control AND CONTROL_WI_MSK = 0 \<longrightarrow> s2 = s1 \<and> sent = []"
        "tx_queue s2 \<noteq> [] \<longrightarrow> irq_enable s2 AND CONTROL_WE_MSK = irq_enable s1 AND CONTROL_WE_MSK"
        "control AND CONTROL_WI_MSK \<noteq> 0 \<longrightarrow> isr_work pending s2 < isr_work pending s1 \<and> (tx_queue s1 \<noteq> [] \<longrightarrow> sent \<noteq> [])"
      by (auto simp: en enable_bits)
    have less: "isr_work pending s2 < isr_work pending s"
      using False s1(6,7) s2(4,7) work by (auto simp: interrupt_bits)
    have "isr_effect emitted pending s s2 (([] @ []) @ sent) (([] @ new) @ [])"
      by (rule isr_effect_trans[OF isr_effect_trans[OF eff s1(2)] s2(2)])
    moreover have "altera_avalon_jtag_uart_irq b s = altera_avalon_jtag_uart_irq b s2"
      unfolding irq using False s1(1) s2(1) by (simp del: if_not_P)
    moreover have "tx_queue s1 = tx_queue s" using s1(2) by (simp add: isr_effect_def)
    ultimately show ?thesis using s1(4,5) s2(3,5-7) less by (intro exI[of _ s2] exI[of _ sent] exI[of _ new]) auto
  qed
qed

text \<open>So the routine returns, whatever has arrived and however much is queued.\<close>

lemma irq_returns:
  "fast_inv ready enabled base s \<Longrightarrow>
   \<exists>s' sent new. altera_avalon_jtag_uart_irq b s = returns s' \<and> isr_effect emitted pending s s' sent new \<and>
     fast_inv ready enabled base s' \<and>
     (tx_queue s' \<noteq> [] \<longrightarrow> irq_enable s' AND CONTROL_WE_MSK = irq_enable s AND CONTROL_WE_MSK)"
proof (induction "isr_work pending s" arbitrary: s rule: less_induct)
  case less
  obtain control d where "IORD_CONTROL b base (uart s) = (control, d)" by fastforce
  from irq_turn[OF less.prems this] obtain s1 sent new where s1:
    "isr_effect emitted pending s s1 sent new" "fast_inv ready enabled base s1"
    "altera_avalon_jtag_uart_irq b s = returns s1 \<or>
     altera_avalon_jtag_uart_irq b s = altera_avalon_jtag_uart_irq b s1 \<and> isr_work pending s1 < isr_work pending s"
    "tx_queue s1 \<noteq> [] \<longrightarrow> irq_enable s1 AND CONTROL_WE_MSK = irq_enable s AND CONTROL_WE_MSK" by blast
  show ?case
  proof (cases "altera_avalon_jtag_uart_irq b s = returns s1")
    case False
    then obtain s2 sent' new' where s2: "altera_avalon_jtag_uart_irq b s = returns s2"
        "isr_effect emitted pending s1 s2 sent' new'" "fast_inv ready enabled base s2"
        "tx_queue s2 \<noteq> [] \<longrightarrow> irq_enable s2 AND CONTROL_WE_MSK = irq_enable s1 AND CONTROL_WE_MSK"
      using less.hyps[OF _ s1(2)] s1(3) by metis
    have "tx_queue s1 = sent' @ tx_queue s2" using s2(2) by (simp add: isr_effect_def)
    then show ?thesis using s1(4) s2 isr_effect_trans[OF s1(1) s2(2)]
      by (intro exI[of _ s2] exI[of _ "sent @ sent'"] exI[of _ "new @ new'"]) auto
  qed (use s1 in blast)
qed

end

end
