(* ===== verification/Jtag_Runs.thy ===== *)
theory Jtag_Runs
  imports Jtag_Stream
begin

text \<open>
  The interrupt-driven driver at work: the core with its interrupt bits and a host, and the runs
  in which the write routine, the read routine, the interrupt routine and the timeout routine take
  turns at every point where the C code can be interrupted.
\<close>

section \<open>A core with interrupts\<close>

text \<open>
  The core of Jtag with its enable bits and the bit that shows activity of the host.  A poll of
  the control register lets time pass: the host takes a byte, and the next byte from the host
  comes nearer.
\<close>

record irq_core = jtag_fifos +
  core_ie :: cint
  core_ac :: bool

definition rx_ready :: "irq_core \<Rightarrow> bool" where
  "rx_ready d = (case rx_script d of (0, c) # r \<Rightarrow> True | _ \<Rightarrow> False)"

definition icore_flags :: "irq_core \<Rightarrow> cint" where
  "icore_flags d = (core_ie d AND 3) OR (if core_ac d then CONTROL_AC_MSK else 0) OR
     (if core_ie d AND CONTROL_RE_MSK \<noteq> 0 \<and> rx_ready d then CONTROL_RI_MSK else 0) OR
     (if core_ie d AND CONTROL_WE_MSK \<noteq> 0 \<and> length (tx_fifo d) < 64 then CONTROL_WI_MSK else 0)"

definition icore_poll :: "irq_core \<Rightarrow> irq_core" where
  "icore_poll d =
     (let d = (case tx_fifo d of [] \<Rightarrow> d
               | c # r \<Rightarrow> d\<lparr>tx_fifo := r, host_log := host_log d @ [c], core_ac := True\<rparr>)
      in (case rx_script d of (Suc n, c) # r \<Rightarrow> d\<lparr>rx_script := (n, c) # r\<rparr> | _ \<Rightarrow> d))"

definition icore_read :: "cint \<Rightarrow> irq_core \<Rightarrow> cint \<Rightarrow> cint \<times> irq_core" where
  "icore_read base d a =
     (if a = base then
        (case rx_script d of
           (0, c) # r \<Rightarrow>
             (push_bit 16 (of_nat (min 63 (length (takeWhile (\<lambda>p. fst p = 0) r)))) OR (0x8000 OR ucast c),
              d\<lparr>rx_script := r\<rparr>)
         | _ \<Rightarrow> (0, d))
      else (push_bit 16 (of_nat (64 - length (tx_fifo d))) OR icore_flags d, icore_poll d))"

definition icore_write :: "cint \<Rightarrow> irq_core \<Rightarrow> cint \<Rightarrow> cint \<Rightarrow> irq_core" where
  "icore_write base d a v =
     (if a = base then (if length (tx_fifo d) < 64 then d\<lparr>tx_fifo := tx_fifo d @ [ucast v]\<rparr> else d)
      else d\<lparr>core_ie := v AND (CONTROL_RE_MSK OR CONTROL_WE_MSK), core_ac := core_ac d \<and> v AND CONTROL_AC_MSK = 0\<rparr>)"

definition icore_bus :: "cint \<Rightarrow> irq_core bus" where
  "icore_bus base = \<lparr>ldwio = icore_read base, stwio = icore_write base\<rparr>"

lemma hi_mask: "CONTROL_WSPACE_MSK = NOT (mask 16)"
  by (simp add: CONTROL_WSPACE_MSK_def mask_numeral)

lemma flags_low: "icore_flags d AND NOT (mask 16) = 0"
  by (simp add: icore_flags_def CONTROL_AC_MSK_def CONTROL_RI_MSK_def CONTROL_WI_MSK_def bit.conj_disj_distrib2
      and.assoc mask_numeral)

lemma wspace_field:
  fixes f :: cint
  assumes "f AND NOT (mask 16) = 0" and "n \<le> 64"
  shows "drop_bit CONTROL_WSPACE_OFST ((push_bit 16 (of_nat n) OR f) AND CONTROL_WSPACE_MSK) = of_nat n"
proof -
  have "(push_bit 16 (of_nat n) OR f) AND CONTROL_WSPACE_MSK = push_bit 16 (of_nat n :: cint) AND NOT (mask 16)"
    using assms(1) by (simp add: hi_mask bit.conj_disj_distrib2)
  moreover have "list_all (\<lambda>n. drop_bit 16 (push_bit 16 (of_nat n :: cint) AND NOT (mask 16)) = of_nat n) [0..<65]"
    by code_simp
  ultimately show ?thesis using assms(2) by (simp add: CONTROL_WSPACE_OFST_def list_all_iff)
qed

lemma push_bit_and_low:
  fixes x m :: cint
  assumes "take_bit n m = m"
  shows "push_bit n x AND m = 0"
proof (rule word_eqI_bits)
  fix k
  have "bit m k \<longleftrightarrow> k < n \<and> bit m k" by (subst assms[symmetric]) (simp add: bit_take_bit_iff)
  then show "bit (push_bit n x AND m) k = bit 0 k" by (auto simp: bit_and_iff bit_push_bit_iff)
qed

lemma flag_bits:
  "(push_bit 16 x OR icore_flags d) AND CONTROL_RI_MSK \<noteq> 0 \<longleftrightarrow> core_ie d AND CONTROL_RE_MSK \<noteq> 0 \<and> rx_ready d"
  "(push_bit 16 x OR icore_flags d) AND CONTROL_WI_MSK \<noteq> 0 \<longleftrightarrow> core_ie d AND CONTROL_WE_MSK \<noteq> 0 \<and> length (tx_fifo d) < 64"
proof -
  have k: "push_bit 16 x AND CONTROL_RI_MSK = 0" "push_bit 16 x AND CONTROL_WI_MSK = 0"
    by (rule push_bit_and_low, simp add: CONTROL_RI_MSK_def CONTROL_WI_MSK_def)+
  show "(push_bit 16 x OR icore_flags d) AND CONTROL_RI_MSK \<noteq> 0 \<longleftrightarrow> core_ie d AND CONTROL_RE_MSK \<noteq> 0 \<and> rx_ready d"
    unfolding bit.conj_disj_distrib2 k
    by (simp add: icore_flags_def CONTROL_AC_MSK_def CONTROL_RI_MSK_def CONTROL_WI_MSK_def bit.conj_disj_distrib2 and.assoc)
  show "(push_bit 16 x OR icore_flags d) AND CONTROL_WI_MSK \<noteq> 0 \<longleftrightarrow> core_ie d AND CONTROL_WE_MSK \<noteq> 0 \<and> length (tx_fifo d) < 64"
    unfolding bit.conj_disj_distrib2 k
    by (simp add: icore_flags_def CONTROL_AC_MSK_def CONTROL_RI_MSK_def CONTROL_WI_MSK_def bit.conj_disj_distrib2 and.assoc)
qed

lemma icore_data_valid:
  fixes c :: u8
  shows "(push_bit 16 x OR (0x8000 OR ucast c)) AND DATA_RVALID_MSK \<noteq> 0"
    and "ucast ((push_bit 16 x OR (0x8000 OR ucast c)) AND DATA_DATA_MSK) = c"
proof -
  have "push_bit 16 x AND DATA_RVALID_MSK = 0" "push_bit 16 x AND DATA_DATA_MSK = 0"
    by (rule push_bit_and_low, simp add: DATA_RVALID_MSK_def DATA_DATA_MSK_def)+
  then show "(push_bit 16 x OR (0x8000 OR ucast c)) AND DATA_RVALID_MSK \<noteq> 0"
    and "ucast ((push_bit 16 x OR (0x8000 OR ucast c)) AND DATA_DATA_MSK) = c"
    using rvalid[of c] rdata[of c] unfolding bit.conj_disj_distrib2[of "push_bit 16 x"] by simp_all
qed

definition icore_ready :: "irq_core \<Rightarrow> bool" where
  "icore_ready d \<longleftrightarrow> length (tx_fifo d) \<le> 64 \<and> core_ie d = core_ie d AND (CONTROL_RE_MSK OR CONTROL_WE_MSK)"

definition icore_emitted :: "irq_core \<Rightarrow> u8 list" where
  "icore_emitted d = host_log d @ tx_fifo d"

definition icore_pending :: "irq_core \<Rightarrow> u8 list" where
  "icore_pending d = map snd (rx_script d)"

lemma icore_poll_keeps:
  "icore_emitted (icore_poll d) = icore_emitted d" "icore_pending (icore_poll d) = icore_pending d"
  "core_ie (icore_poll d) = core_ie d" "length (tx_fifo (icore_poll d)) = length (tx_fifo d) - 1"
  "rx_ready d \<Longrightarrow> rx_script (icore_poll d) = rx_script d"
  by (auto simp: icore_poll_def icore_emitted_def icore_pending_def rx_ready_def Let_def
      split: list.split prod.split nat.split)

interpretation icore: jtag_fifo "icore_bus base" base icore_ready icore_emitted "\<lambda>d. 64 - length (tx_fifo d)"
    icore_pending core_ie
proof
  fix d :: irq_core and v d' x
  assume r: "icore_ready d"
  note ctl = IORD_CONTROL_def IORD_def icore_bus_def icore_read_def control_addr
  note dat = IORD_DATA_def IORD_def icore_bus_def icore_read_def control_addr
  show "icore_ready d' \<and> icore_emitted d' = icore_emitted d \<and> icore_pending d' = icore_pending d \<and>
      core_ie d' = core_ie d \<and> 64 - length (tx_fifo d) \<le> 64 - length (tx_fifo d') \<and>
      unat (drop_bit CONTROL_WSPACE_OFST (v AND CONTROL_WSPACE_MSK)) \<le> 64 - length (tx_fifo d')"
    if "IORD_CONTROL (icore_bus base) base d = (v, d')"
  proof -
    have v: "v = push_bit 16 (of_nat (64 - length (tx_fifo d))) OR icore_flags d" and d': "d' = icore_poll d"
      using that by (auto simp: ctl)
    have "drop_bit CONTROL_WSPACE_OFST (v AND CONTROL_WSPACE_MSK) = of_nat (64 - length (tx_fifo d))"
      unfolding v by (rule wspace_field) (simp_all add: flags_low)
    then have "unat (drop_bit CONTROL_WSPACE_OFST (v AND CONTROL_WSPACE_MSK)) = 64 - length (tx_fifo d)"
      by (simp only: unat_of_nat) simp
    then show ?thesis using r unfolding d' by (simp only: icore_poll_keeps icore_ready_def) auto
  qed
  show "icore_ready (IOWR_CONTROL (icore_bus base) base x d) \<and>
      icore_emitted (IOWR_CONTROL (icore_bus base) base x d) = icore_emitted d \<and>
      icore_pending (IOWR_CONTROL (icore_bus base) base x d) = icore_pending d \<and>
      64 - length (tx_fifo d) \<le> 64 - length (tx_fifo (IOWR_CONTROL (icore_bus base) base x d)) \<and>
      core_ie (IOWR_CONTROL (icore_bus base) base x d) = x AND (CONTROL_RE_MSK OR CONTROL_WE_MSK)"
    using r by (simp add: IOWR_CONTROL_def IOWR_def icore_bus_def icore_write_def control_addr icore_ready_def
        icore_emitted_def icore_pending_def and.assoc)
  show "icore_ready (IOWR_DATA (icore_bus base) base x d) \<and>
      icore_emitted (IOWR_DATA (icore_bus base) base x d) = icore_emitted d @ [ucast x] \<and>
      icore_pending (IOWR_DATA (icore_bus base) base x d) = icore_pending d \<and>
      core_ie (IOWR_DATA (icore_bus base) base x d) = core_ie d \<and>
      64 - length (tx_fifo d) \<le> Suc (64 - length (tx_fifo (IOWR_DATA (icore_bus base) base x d)))"
    if "0 < 64 - length (tx_fifo d)"
    using r that by (simp add: IOWR_DATA_def IOWR_def icore_bus_def icore_write_def control_addr icore_ready_def
        icore_emitted_def icore_pending_def)
  show "icore_ready d' \<and> icore_emitted d' = icore_emitted d \<and> core_ie d' = core_ie d \<and>
      64 - length (tx_fifo d) \<le> 64 - length (tx_fifo d') \<and>
      icore_pending d = (if v AND DATA_RVALID_MSK = 0 then [] else [ucast (v AND DATA_DATA_MSK)]) @ icore_pending d'"
    if "IORD_DATA (icore_bus base) base d = (v, d')"
    using r that icore_data_valid
    by (auto simp: dat icore_ready_def icore_emitted_def icore_pending_def split: list.splits prod.splits nat.splits)
  show "core_ie d AND CONTROL_RE_MSK \<noteq> 0 \<and> fst (IORD_DATA (icore_bus base) base d') AND DATA_RVALID_MSK \<noteq> 0"
    if "IORD_CONTROL (icore_bus base) base d = (v, d')" and "v AND CONTROL_RI_MSK \<noteq> 0"
  proof -
    have f: "core_ie d AND CONTROL_RE_MSK \<noteq> 0" "rx_ready d" and d': "d' = icore_poll d"
      using that flag_bits by (auto simp: ctl)
    then show ?thesis using icore_data_valid(1)
      by (auto simp: dat icore_poll_keeps(5) rx_ready_def split: list.splits prod.splits nat.splits)
  qed
  show "core_ie d AND CONTROL_WE_MSK \<noteq> 0 \<and> drop_bit CONTROL_WSPACE_OFST (v AND CONTROL_WSPACE_MSK) \<noteq> 0"
    if "IORD_CONTROL (icore_bus base) base d = (v, d')" and "v AND CONTROL_WI_MSK \<noteq> 0"
  proof -
    have v: "v = push_bit 16 (of_nat (64 - length (tx_fifo d))) OR icore_flags d" using that(1) by (auto simp: ctl)
    have "drop_bit CONTROL_WSPACE_OFST (v AND CONTROL_WSPACE_MSK) = of_nat (64 - length (tx_fifo d))"
      unfolding v by (rule wspace_field) (simp_all add: flags_low)
    moreover have f: "core_ie d AND CONTROL_WE_MSK \<noteq> 0" "length (tx_fifo d) < 64"
      using that(2) flag_bits(2) unfolding v by blast+
    moreover have "unat (of_nat (64 - length (tx_fifo d)) :: cint) = 64 - length (tx_fifo d)"
      by (simp only: unat_of_nat) simp
    ultimately show ?thesis by (metis unat_0 zero_less_diff less_irrefl)
  qed
qed

section \<open>Interleaved runs\<close>

text \<open>
  Where the write routine is: between two turns of its copy loop; in \<open>memcpy\<close>, with the index it
  read, the bytes already stored and the bytes still to store; the read routine likewise, with the
  index, the number of bytes of this run and what it has copied.
\<close>

datatype writer_at = W_loop | W_copy cint "u8 list" "u8 list"
datatype reader_at = R_loop | R_copy cint nat "u8 list"

record 'd run =
  drv :: "'d fast"
  w_at :: writer_at
  r_at :: reader_at
  accepted :: "u8 list"
  delivered :: "u8 list"

text \<open>
  One step: an access of the program to the shared state, or a whole interrupt (interrupts do not
  nest).  \<open>memcpy\<close> moves one byte at a time; the indices change when the run is complete.
  Disabling interrupts makes the change of \<open>irq_enable\<close> one step.
\<close>

inductive fast_step :: "'d bus \<Rightarrow> 'd run \<Rightarrow> 'd run \<Rightarrow> bool" for b where
  write_look: "w_at c = W_loop \<Longrightarrow> bs \<noteq> [] \<Longrightarrow>
    length bs \<le> unat (tx_contiguous (tx_in (drv c)) (tx_out (drv c))) \<Longrightarrow>
    fast_step b c (c\<lparr>w_at := W_copy (tx_in (drv c)) [] bs\<rparr>)"
| write_byte: "w_at c = W_copy i pre (x # bs) \<Longrightarrow> arr_set (tx_buf (drv c)) (unat i + length pre) x = Some buf \<Longrightarrow>
    fast_step b c (c\<lparr>drv := (drv c)\<lparr>tx_buf := buf\<rparr>, w_at := W_copy i (pre @ [x]) bs\<rparr>)"
| write_publish: "w_at c = W_copy i pre [] \<Longrightarrow>
    fast_step b c (c\<lparr>drv := (drv c)\<lparr>tx_in := (i + of_nat (length pre)) mod UART_BUF_LEN\<rparr>, w_at := W_loop,
      accepted := accepted c @ pre\<rparr>)"
| write_kick: "w_at c = W_loop \<Longrightarrow> fast_step b c (c\<lparr>drv := enable_irq_bit b CONTROL_WE_MSK (drv c)\<rparr>)"
| read_look: "r_at c = R_loop \<Longrightarrow> 0 < n \<Longrightarrow> n \<le> unat (rx_contiguous (rx_in (drv c)) (rx_out (drv c))) \<Longrightarrow>
    fast_step b c (c\<lparr>r_at := R_copy (rx_out (drv c)) n []\<rparr>)"
| read_byte: "r_at c = R_copy out n got \<Longrightarrow> length got < n \<Longrightarrow>
    arr_get (rx_buf (drv c)) (unat out + length got) = Some x \<Longrightarrow>
    fast_step b c (c\<lparr>r_at := R_copy out n (got @ [x])\<rparr>)"
| read_publish: "r_at c = R_copy out n got \<Longrightarrow> length got = n \<Longrightarrow>
    fast_step b c (c\<lparr>drv := (drv c)\<lparr>rx_out := (out + of_nat n) mod UART_BUF_LEN\<rparr>, r_at := R_loop,
      delivered := delivered c @ got\<rparr>)"
| read_kick: "r_at c = R_loop \<Longrightarrow> fast_step b c (c\<lparr>drv := enable_irq_bit b CONTROL_RE_MSK (drv c)\<rparr>)"
| interrupt: "altera_avalon_jtag_uart_irq b (drv c) = returns s \<Longrightarrow> fast_step b c (c\<lparr>drv := s\<rparr>)"
| timer: "fast_step b c (c\<lparr>drv := snd (altera_avalon_jtag_uart_timeout b (drv c))\<rparr>)"

inductive fast_run :: "'d bus \<Rightarrow> 'd run \<Rightarrow> 'd run \<Rightarrow> bool" for b where
  stop: "fast_run b c c"
| go: "fast_run b c c' \<Longrightarrow> fast_step b c' c'' \<Longrightarrow> fast_run b c c''"

text \<open>What the routines have in hand agrees with the buffers.\<close>

definition writer_ok :: "'d run \<Rightarrow> bool" where
  "writer_ok c = (case w_at c of W_loop \<Rightarrow> True
     | W_copy i pre bs \<Rightarrow> i = tx_in (drv c) \<and> unat i + length (pre @ bs) \<le> BUF_LEN \<and>
         length (tx_queue (drv c)) + length (pre @ bs) < BUF_LEN \<and>
         take (length pre) (drop (unat i) (tx_buf (drv c))) = pre)"

definition reader_ok :: "'d run \<Rightarrow> bool" where
  "reader_ok c = (case r_at c of R_loop \<Rightarrow> True
     | R_copy out n got \<Rightarrow> out = rx_out (drv c) \<and> unat out + n \<le> BUF_LEN \<and> n \<le> length (rx_queue (drv c)) \<and>
         length got \<le> n \<and> got = take (length got) (rx_queue (drv c)))"

text \<open>The streams: \<open>sent\<close> was on its way to the host and \<open>coming\<close> on its way from it at the start.\<close>

definition streams_ok :: "('d \<Rightarrow> u8 list) \<Rightarrow> ('d \<Rightarrow> u8 list) \<Rightarrow> u8 list \<Rightarrow> u8 list \<Rightarrow> 'd run \<Rightarrow> bool" where
  "streams_ok emitted pending sent coming c \<longleftrightarrow>
     emitted (uart (drv c)) @ tx_queue (drv c) = sent @ accepted c \<and>
     delivered c @ rx_queue (drv c) @ pending (uart (drv c)) = coming"

definition run_ok :: "('d \<Rightarrow> bool) \<Rightarrow> ('d \<Rightarrow> cint) \<Rightarrow> cint \<Rightarrow> ('d \<Rightarrow> u8 list) \<Rightarrow> ('d \<Rightarrow> u8 list) \<Rightarrow>
    u8 list \<Rightarrow> u8 list \<Rightarrow> 'd run \<Rightarrow> bool" where
  "run_ok ready enabled base emitted pending sent coming c \<longleftrightarrow> fast_inv ready enabled base (drv c) \<and>
     writer_ok c \<and> reader_ok c \<and> streams_ok emitted pending sent coming c"

lemma writer_ok_copy:
  "w_at c = W_copy i pre bs \<Longrightarrow> writer_ok c \<longleftrightarrow> tx_in (drv c) = i \<and> unat i + length (pre @ bs) \<le> BUF_LEN \<and>
     length (tx_queue (drv c)) + length (pre @ bs) < BUF_LEN \<and>
     take (length pre) (drop (unat i) (tx_buf (drv c))) = pre"
  by (auto simp: writer_ok_def)

lemma reader_ok_copy:
  "r_at c = R_copy out n got \<Longrightarrow> reader_ok c \<longleftrightarrow> rx_out (drv c) = out \<and> unat out + n \<le> BUF_LEN \<and>
     n \<le> length (rx_queue (drv c)) \<and> length got \<le> n \<and> got = take (length got) (rx_queue (drv c))"
  by (auto simp: reader_ok_def)

lemma loop_ok [simp]: "w_at c = W_loop \<Longrightarrow> writer_ok c" "r_at c = R_loop \<Longrightarrow> reader_ok c"
  by (simp_all add: writer_ok_def reader_ok_def)

lemma writer_ok_cong:
  "w_at c' = w_at c \<Longrightarrow> tx_buf (drv c') = tx_buf (drv c) \<Longrightarrow> tx_in (drv c') = tx_in (drv c) \<Longrightarrow>
   tx_out (drv c') = tx_out (drv c) \<Longrightarrow> writer_ok c' = writer_ok c"
  by (simp add: writer_ok_def split: writer_at.split)

lemma reader_ok_cong:
  "r_at c' = r_at c \<Longrightarrow> rx_buf (drv c') = rx_buf (drv c) \<Longrightarrow> rx_in (drv c') = rx_in (drv c) \<Longrightarrow>
   rx_out (drv c') = rx_out (drv c) \<Longrightarrow> reader_ok c' = reader_ok c"
  by (simp add: reader_ok_def split: reader_at.split)

lemma take_drop_update:
  assumes "take (length ys) (drop i xs) = ys" and "i + length ys < length xs"
  shows "take (length (ys @ [x])) (drop i (xs[i + length ys := x])) = ys @ [x]"
proof -
  have "drop i (xs[i + length ys := x]) = (drop i xs)[length ys := x]" by (simp add: drop_update_swap)
  moreover have "length ys < length (drop i xs)" using assms(2) by simp
  ultimately show ?thesis using assms(1)
    by (metis append.right_neutral length_append_singleton take_Suc_conv_app_nth length_list_update
        nth_list_update_eq take_update_cancel order_refl)
qed

context jtag_fifo
begin

abbreviation ok :: "u8 list \<Rightarrow> u8 list \<Rightarrow> 'd run \<Rightarrow> bool" where
  "ok \<equiv> run_ok ready enabled base emitted pending"

lemma ok_inv: "ok sent coming c \<Longrightarrow> fast_inv ready enabled base (drv c)"
  by (simp add: run_ok_def)

lemma ok_fast: "ok sent coming c \<Longrightarrow> fast_ok (drv c)"
  by (simp add: run_ok_def fast_inv_def)

text \<open>Steps that change neither a buffer nor an index.\<close>

lemma ok_parts:
  assumes "ok sent coming c"
  shows "fast_inv ready enabled base (drv c)" "writer_ok c" "reader_ok c" "streams_ok emitted pending sent coming c"
    "ring_ok (tx_buf (drv c)) (unat (tx_in (drv c))) (unat (tx_out (drv c)))"
    "ring_ok (rx_buf (drv c)) (unat (rx_in (drv c))) (unat (rx_out (drv c)))"
  using assms by (simp_all add: run_ok_def fast_inv_def fast_ok_def)

lemma okI:
  assumes "fast_inv ready enabled base (drv c)" "writer_ok c" "reader_ok c" "streams_ok emitted pending sent coming c"
  shows "ok sent coming c"
  using assms by (simp add: run_ok_def)

text \<open>Steps that change neither a buffer nor an index.\<close>

lemma ok_hardware:
  assumes "ok sent coming c" and "fast_inv ready enabled base s"
    and "tx_buf s = tx_buf (drv c)" "tx_in s = tx_in (drv c)" "tx_out s = tx_out (drv c)"
    and "rx_buf s = rx_buf (drv c)" "rx_in s = rx_in (drv c)" "rx_out s = rx_out (drv c)"
    and "emitted (uart s) = emitted (uart (drv c))" "pending (uart s) = pending (uart (drv c))"
  shows "ok sent coming (c\<lparr>drv := s\<rparr>)"
proof (rule okI)
  show "writer_ok (c\<lparr>drv := s\<rparr>)" "reader_ok (c\<lparr>drv := s\<rparr>)"
    using ok_parts(2,3)[OF assms(1)] assms(3-8) by (simp_all cong: writer_ok_cong reader_ok_cong add: writer_ok_def reader_ok_def)
  show "streams_ok emitted pending sent coming (c\<lparr>drv := s\<rparr>)"
    using ok_parts(4)[OF assms(1)] assms(3-10) by (simp add: streams_ok_def)
qed (use assms(2) in simp)

lemma ok_write_look:
  assumes "ok sent coming c" and "length bs \<le> unat (tx_contiguous (tx_in (drv c)) (tx_out (drv c)))"
  shows "ok sent coming (c\<lparr>w_at := W_copy (tx_in (drv c)) [] bs\<rparr>)"
proof (rule okI)
  let ?c = "c\<lparr>w_at := W_copy (tx_in (drv c)) [] bs\<rparr>"
  show "writer_ok ?c"
    using assms(2) tx_contiguous_bounds(1,2)[OF fast_ok_fields(2,3)[OF ok_fast[OF assms(1)]]]
    by (simp add: writer_ok_def)
  show "reader_ok ?c" using ok_parts(3)[OF assms(1)] by (subst reader_ok_cong) simp_all
qed (use ok_parts(1,4)[OF assms(1)] in \<open>simp_all add: streams_ok_def\<close>)

lemma ok_write_byte:
  assumes "ok sent coming c" and "w_at c = W_copy i pre (x # bs)"
    and "arr_set (tx_buf (drv c)) (unat i + length pre) x = Some buf"
  shows "ok sent coming (c\<lparr>drv := (drv c)\<lparr>tx_buf := buf\<rparr>, w_at := W_copy i (pre @ [x]) bs\<rparr>)"
proof -
  let ?c = "c\<lparr>drv := (drv c)\<lparr>tx_buf := buf\<rparr>, w_at := W_copy i (pre @ [x]) bs\<rparr>"
  note w = ok_parts(2)[OF assms(1), unfolded writer_ok_copy[OF assms(2)]]
  have buf: "buf = (tx_buf (drv c))[unat i + length pre := x]" and lt: "unat i + length pre < length (tx_buf (drv c))"
    using assms(3) by (auto simp: arr_set_def split: if_splits)
  have q: "ring_ok buf (unat (tx_in (drv c))) (unat (tx_out (drv c)))"
      "ring_queue buf (unat (tx_in (drv c))) (unat (tx_out (drv c))) = tx_queue (drv c)"
    using ring_store[OF ok_parts(5)[OF assms(1)], of "length pre" x] w unfolding buf by auto
  have "take (length (pre @ [x])) (drop (unat i) buf) = pre @ [x]"
    unfolding buf using w lt by (blast intro: take_drop_update)
  then have "writer_ok ?c" using w q(2) by (subst writer_ok_copy) auto
  moreover have "reader_ok ?c" using ok_parts(3)[OF assms(1)] by (subst reader_ok_cong) simp_all
  ultimately show ?thesis using ok_parts(1,4)[OF assms(1)] q
    by (intro okI) (simp_all add: fast_inv_def fast_ok_def streams_ok_def)
qed

lemma ok_write_publish:
  assumes "ok sent coming c" and "w_at c = W_copy i pre []"
  shows "ok sent coming (c\<lparr>drv := (drv c)\<lparr>tx_in := (i + of_nat (length pre)) mod UART_BUF_LEN\<rparr>, w_at := W_loop,
      accepted := accepted c @ pre\<rparr>)"
proof -
  let ?c = "c\<lparr>drv := (drv c)\<lparr>tx_in := (i + of_nat (length pre)) mod UART_BUF_LEN\<rparr>, w_at := W_loop,
      accepted := accepted c @ pre\<rparr>"
  note w = ok_parts(2)[OF assms(1), unfolded writer_ok_copy[OF assms(2)]]
  have n: "unat (of_nat (length pre) :: cint) = length pre" using w by (simp add: unat_of_nat BUF_LEN_def)
  have "unat ((i + of_nat (length pre)) mod UART_BUF_LEN) = (unat i + length pre) mod BUF_LEN"
    using w fast_ok_fields(2)[OF ok_fast[OF assms(1)]] n by (subst unat_advance) auto
  then have q: "ring_ok (tx_buf (drv c)) (unat ((i + of_nat (length pre)) mod UART_BUF_LEN)) (unat (tx_out (drv c)))"
      "ring_queue (tx_buf (drv c)) (unat ((i + of_nat (length pre)) mod UART_BUF_LEN)) (unat (tx_out (drv c))) =
       tx_queue (drv c) @ pre"
    using ring_publish[OF ok_parts(5)[OF assms(1)], of pre] w by auto
  have "reader_ok ?c" using ok_parts(3)[OF assms(1)] by (subst reader_ok_cong) simp_all
  moreover have "streams_ok emitted pending sent coming ?c"
    using ok_parts(4)[OF assms(1)] q(2) by (simp add: streams_ok_def)
  ultimately show ?thesis using ok_parts(1)[OF assms(1)] q(1)
    by (intro okI) (simp_all add: fast_inv_def fast_ok_def)
qed

lemma ok_read_look:
  assumes "ok sent coming c" and "n \<le> unat (rx_contiguous (rx_in (drv c)) (rx_out (drv c)))"
  shows "ok sent coming (c\<lparr>r_at := R_copy (rx_out (drv c)) n []\<rparr>)"
proof (rule okI)
  let ?c = "c\<lparr>r_at := R_copy (rx_out (drv c)) n []\<rparr>"
  show "reader_ok ?c"
    using assms(2) rx_contiguous_bounds(1,2)[OF fast_ok_fields(5,6)[OF ok_fast[OF assms(1)]]]
    by (simp add: reader_ok_def)
  show "writer_ok ?c" using ok_parts(2)[OF assms(1)] by (subst writer_ok_cong) simp_all
qed (use ok_parts(1,4)[OF assms(1)] in \<open>simp_all add: streams_ok_def\<close>)

lemma ok_read_byte:
  assumes "ok sent coming c" and "r_at c = R_copy out n got" and "length got < n"
    and "arr_get (rx_buf (drv c)) (unat out + length got) = Some x"
  shows "ok sent coming (c\<lparr>r_at := R_copy out n (got @ [x])\<rparr>)"
proof (rule okI)
  let ?c = "c\<lparr>r_at := R_copy out n (got @ [x])\<rparr>"
  note r = ok_parts(3)[OF assms(1), unfolded reader_ok_copy[OF assms(2)]]
  have lt: "length got < length (rx_queue (drv c))" using r assms(3) by linarith
  have "ring_slot (unat out) (length got) = unat out + length got"
    using r assms(3) by (simp add: ring_slot_def)
  moreover have "x = rx_buf (drv c) ! (unat out + length got)"
    using assms(4) by (auto simp: arr_get_def split: if_splits)
  ultimately have x: "x = rx_queue (drv c) ! length got" using lt r by (simp add: ring_queue_nth)
  have "take (length (got @ [x])) (rx_queue (drv c)) = got @ [x]"
    using r lt x by (metis length_append_singleton take_Suc_conv_app_nth)
  then show "reader_ok ?c" using r assms(3) by (subst reader_ok_copy) auto
  show "writer_ok ?c" using ok_parts(2)[OF assms(1)] by (subst writer_ok_cong) simp_all
qed (use ok_parts(1,4)[OF assms(1)] in \<open>simp_all add: streams_ok_def\<close>)

lemma ok_read_publish:
  assumes "ok sent coming c" and "r_at c = R_copy out n got" and "length got = n"
  shows "ok sent coming (c\<lparr>drv := (drv c)\<lparr>rx_out := (out + of_nat n) mod UART_BUF_LEN\<rparr>, r_at := R_loop,
      delivered := delivered c @ got\<rparr>)"
proof -
  let ?c = "c\<lparr>drv := (drv c)\<lparr>rx_out := (out + of_nat n) mod UART_BUF_LEN\<rparr>, r_at := R_loop,
      delivered := delivered c @ got\<rparr>"
  note r = ok_parts(3)[OF assms(1), unfolded reader_ok_copy[OF assms(2)]]
  have n: "unat (of_nat n :: cint) = n" using r by (simp add: unat_of_nat BUF_LEN_def)
  have "unat ((out + of_nat n) mod UART_BUF_LEN) = (unat out + n) mod BUF_LEN"
    using r fast_ok_fields(6)[OF ok_fast[OF assms(1)]] n by (subst unat_advance) auto
  then have q: "ring_ok (rx_buf (drv c)) (unat (rx_in (drv c))) (unat ((out + of_nat n) mod UART_BUF_LEN))"
      "rx_queue (drv c) = take n (drop (unat out) (rx_buf (drv c))) @
         ring_queue (rx_buf (drv c)) (unat (rx_in (drv c))) (unat ((out + of_nat n) mod UART_BUF_LEN))"
    using ring_take[OF ok_parts(6)[OF assms(1)], of n] r by auto
  have "length (take n (drop (unat out) (rx_buf (drv c)))) = n"
    using r fast_ok_fields(4)[OF ok_fast[OF assms(1)]] by (auto simp: min_def)
  then have "got = take n (drop (unat out) (rx_buf (drv c)))"
    using r q(2) assms(3) by (metis append_eq_conv_conj)
  then have "rx_queue (drv c) = got @ rx_queue (drv ?c)" using q(2) by simp
  then have "streams_ok emitted pending sent coming ?c"
    using ok_parts(4)[OF assms(1)] by (simp add: streams_ok_def)
  moreover have "writer_ok ?c" using ok_parts(2)[OF assms(1)] by (subst writer_ok_cong) simp_all
  ultimately show ?thesis using ok_parts(1)[OF assms(1)] q(1)
    by (intro okI) (simp_all add: fast_inv_def fast_ok_def)
qed

text \<open>An interrupt in the middle of a copy: the routine frees slots behind the writer's back and
  fills slots behind the reader's, and what they have in hand stays right.\<close>

lemma ok_interrupt:
  assumes "ok sent coming c" and "altera_avalon_jtag_uart_irq b (drv c) = returns s"
  shows "ok sent coming (c\<lparr>drv := s\<rparr>)"
proof -
  obtain out new where e: "isr_effect emitted pending (drv c) s out new" and i: "fast_inv ready enabled base s"
    using irq_returns[OF ok_parts(1)[OF assms(1)]] assms(2) by auto
  have f: "tx_in s = tx_in (drv c)" "tx_buf s = tx_buf (drv c)" "rx_out s = rx_out (drv c)"
      "emitted (uart s) = emitted (uart (drv c)) @ out" "tx_queue (drv c) = out @ tx_queue s"
      "pending (uart (drv c)) = new @ pending (uart s)" "rx_queue s = rx_queue (drv c) @ new"
    using e unfolding isr_effect_def by blast+
  have "length (tx_queue s) \<le> length (tx_queue (drv c))" unfolding f(5) by simp
  then have "writer_ok (c\<lparr>drv := s\<rparr>)" using ok_parts(2)[OF assms(1)] f(1,2)
    by (cases "w_at c") (simp_all add: writer_ok_copy)
  moreover have "length (rx_queue (drv c)) \<le> length (rx_queue s)" unfolding f(7) by simp
  then have "reader_ok (c\<lparr>drv := s\<rparr>)" using ok_parts(3)[OF assms(1)] f(3,7)
    by (cases "r_at c") (auto simp: reader_ok_copy simp del: length_ring_queue)
  moreover have "streams_ok emitted pending sent coming (c\<lparr>drv := s\<rparr>)"
    using ok_parts(4)[OF assms(1)] f by (simp add: streams_ok_def)
  ultimately show ?thesis using i by (intro okI) simp_all
qed

lemma ok_kick:
  assumes "ok sent coming c"
  shows "ok sent coming (c\<lparr>drv := enable_irq_bit b m (drv c)\<rparr>)"
proof -
  have "ready (uart (drv c))" "sp_base (drv c) = base" "fast_ok (drv c)"
    using ok_parts(1)[OF assms] by (auto simp: fast_inv_def)
  then show ?thesis using enable_bit[of "drv c" m] assms
    by (intro ok_hardware) (auto simp: fast_inv_def fast_ok_def)
qed

lemma activity_bit:
  "((x OR CONTROL_AC_MSK) AND (CONTROL_RE_MSK OR CONTROL_WE_MSK)) = (x AND (CONTROL_RE_MSK OR CONTROL_WE_MSK))"
  by (simp add: bit.conj_disj_distrib2 CONTROL_AC_MSK_def CONTROL_RE_MSK_def CONTROL_WE_MSK_def)

lemma timeout_keeps:
  assumes "fast_inv ready enabled base s"
  shows "\<exists>d h. snd (altera_avalon_jtag_uart_timeout b s) = s\<lparr>uart := d, host_inactive := h\<rparr> \<and> ready d \<and>
    emitted d = emitted (uart s) \<and> pending d = pending (uart s) \<and> enabled d = enabled (uart s)"
proof -
  have i: "ready (uart s)" "sp_base s = base" "enabled (uart s) = irq_enable s AND (CONTROL_RE_MSK OR CONTROL_WE_MSK)"
    using assms by (auto simp: fast_inv_def)
  obtain v d where r: "IORD_CONTROL b base (uart s) = (v, d)" by fastforce
  note c = control_read[OF i(1) r]
  note w = control_write[OF conjunct1[OF c], of "irq_enable s OR CONTROL_AC_MSK"]
  let ?h = "if v AND CONTROL_AC_MSK \<noteq> 0 then 0
      else if host_inactive s < INT_MAX - 2 then host_inactive s + 1 else host_inactive s"
  have "snd (altera_avalon_jtag_uart_timeout b s) = s\<lparr>uart :=
      if v AND CONTROL_AC_MSK \<noteq> 0 then IOWR_CONTROL b base (irq_enable s OR CONTROL_AC_MSK) d else d, host_inactive := ?h\<rparr>"
    using r i(2) by (cases s) (simp add: altera_avalon_jtag_uart_timeout_def read_control_def write_control_def Let_def)
  then show ?thesis using c w i(3)
    by (intro exI[of _ "if v AND CONTROL_AC_MSK \<noteq> 0 then IOWR_CONTROL b base (irq_enable s OR CONTROL_AC_MSK) d else d"]
        exI[of _ ?h]) (simp add: activity_bit)
qed

lemma ok_step: "fast_step b c c' \<Longrightarrow> ok sent coming c \<Longrightarrow> ok sent coming c'"
proof (induction rule: fast_step.induct)
  case (write_look c bs)
  then show ?case by (intro ok_write_look)
next
  case (write_byte c i pre x bs buf)
  then show ?case by (intro ok_write_byte)
next
  case (write_publish c i pre)
  then show ?case by (intro ok_write_publish)
next
  case (write_kick c)
  then show ?case by (intro ok_kick)
next
  case (read_look c n)
  then show ?case by (intro ok_read_look)
next
  case (read_byte c out n got x)
  then show ?case by (intro ok_read_byte)
next
  case (read_publish c out n got)
  then show ?case by (intro ok_read_publish)
next
  case (read_kick c)
  then show ?case by (intro ok_kick)
next
  case (interrupt c s)
  then show ?case by (intro ok_interrupt)
next
  case (timer c)
  have "fast_inv ready enabled base (drv c)" by (rule ok_inv[OF timer])
  then show ?case using timeout_keeps[of "drv c"] timer
    by (intro ok_hardware) (auto simp: fast_inv_def fast_ok_def)
qed

lemma ok_run: "fast_run b c c' \<Longrightarrow> ok sent coming c \<Longrightarrow> ok sent coming c'"
  by (induction rule: fast_run.induct) (auto intro: ok_step)

lemma init_inv:
  assumes "ready d"
    and "altera_avalon_jtag_uart_init b ic irq isr timeout_routine sp alarm (jtag_uart_state base isys tsys d) = returns s"
  shows "fast_inv ready enabled base s" and "tx_queue s = []" and "rx_queue s = []"
    and "emitted (uart s) = emitted d" and "pending (uart s) = pending d"
proof -
  have "\<exists>i t h o'. s = (jtag_uart_state base isys tsys d)\<lparr>irq_enable := CONTROL_RE_MSK,
      uart := IOWR_CONTROL b base CONTROL_RE_MSK d, irqs := i, clock_part := t, host_inactive := h, timeout := o'\<rparr>"
    using assms(2) by (auto simp: altera_avalon_jtag_uart_init_def and_then_returns_iff Let_def write_control_def
        jtag_uart_state_def split: if_splits)
  then obtain i t h o' where s: "s = (jtag_uart_state base isys tsys d)\<lparr>irq_enable := CONTROL_RE_MSK,
      uart := IOWR_CONTROL b base CONTROL_RE_MSK d, irqs := i, clock_part := t, host_inactive := h, timeout := o'\<rparr>"
    by blast
  show "fast_inv ready enabled base s" and "tx_queue s = []" and "rx_queue s = []"
    and "emitted (uart s) = emitted d" and "pending (uart s) = pending d"
    using control_write[OF assms(1), of CONTROL_RE_MSK]
    by (simp_all add: s fast_inv_def fast_ok_def ring_ok_def ring_queue_def ring_used_def jtag_uart_state_def BUF_LEN_def)
qed

end

section \<open>The copy loops as runs\<close>

lemma run_trans: "fast_run b c' c'' \<Longrightarrow> fast_run b c c' \<Longrightarrow> fast_run b c c''"
  by (induction rule: fast_run.induct) (auto intro: fast_run.go)

lemma run_step: "fast_step b c c' \<Longrightarrow> fast_run b c c'"
  by (rule fast_run.go[OF fast_run.stop])

lemma mem_put_Cons:
  "mem_put buf j (x # bs) = (if j < length buf then mem_put (buf[j := x]) (Suc j) bs else None)"
proof (cases "j + length (x # bs) \<le> length buf")
  case True
  then have "take (Suc j) (buf[j := x]) = take j buf @ [x]" by (simp add: take_Suc_conv_app_nth)
  then show ?thesis using True by (simp add: mem_put_def)
next
  case False
  then show ?thesis by (simp add: mem_put_def)
qed

lemma write_bytes_run:
  "w_at c = W_copy i pre bs \<Longrightarrow> mem_put (tx_buf (drv c)) (unat i + length pre) bs = Some buf \<Longrightarrow>
   fast_run b c (c\<lparr>drv := (drv c)\<lparr>tx_buf := buf\<rparr>, w_at := W_copy i (pre @ bs) []\<rparr>)"
proof (induction bs arbitrary: c pre)
  case Nil
  then have "c\<lparr>drv := (drv c)\<lparr>tx_buf := buf\<rparr>, w_at := W_copy i (pre @ []) []\<rparr> = c"
    by (cases c) (auto simp: mem_put_def split: if_splits)
  then show ?case by (metis fast_run.stop)
next
  case (Cons x bs)
  let ?j = "unat i + length pre"
  let ?c = "c\<lparr>drv := (drv c)\<lparr>tx_buf := (tx_buf (drv c))[?j := x]\<rparr>, w_at := W_copy i (pre @ [x]) bs\<rparr>"
  have j: "?j < length (tx_buf (drv c))" "mem_put ((tx_buf (drv c))[?j := x]) (Suc ?j) bs = Some buf"
    using Cons.prems(2) by (auto simp: mem_put_Cons split: if_splits)
  have "fast_step b c ?c" by (rule write_byte[OF Cons.prems(1)]) (use j(1) in simp)
  moreover have "fast_run b ?c (?c\<lparr>drv := (drv ?c)\<lparr>tx_buf := buf\<rparr>, w_at := W_copy i ((pre @ [x]) @ bs) []\<rparr>)"
    by (rule Cons.IH) (use j(2) in simp_all)
  ultimately show ?case using run_trans[OF _ run_step] by simp
qed

lemma read_bytes_run:
  "r_at c = R_copy out n got \<Longrightarrow> length got + k = n \<Longrightarrow> unat out + n \<le> length (rx_buf (drv c)) \<Longrightarrow>
   fast_run b c (c\<lparr>r_at := R_copy out n (got @ take k (drop (unat out + length got) (rx_buf (drv c))))\<rparr>)"
proof (induction k arbitrary: c got)
  case 0
  then have "c\<lparr>r_at := R_copy out n (got @ take 0 (drop (unat out + length got) (rx_buf (drv c))))\<rparr> = c"
    by (cases c) simp
  then show ?case by (metis fast_run.stop)
next
  case (Suc k)
  let ?j = "unat out + length got"
  let ?c = "c\<lparr>r_at := R_copy out n (got @ [rx_buf (drv c) ! ?j])\<rparr>"
  have j: "?j < length (rx_buf (drv c))" using Suc.prems by simp
  have "fast_step b c ?c" by (rule read_byte[OF Suc.prems(1)]) (use Suc.prems(2) j in simp_all)
  moreover have "fast_run b ?c (?c\<lparr>r_at := R_copy out n ((got @ [rx_buf (drv c) ! ?j]) @
      take k (drop (unat out + length (got @ [rx_buf (drv c) ! ?j])) (rx_buf (drv ?c))))\<rparr>)"
    by (rule Suc.IH) (use Suc.prems in simp_all)
  moreover have "take (Suc k) (drop ?j (rx_buf (drv c))) = rx_buf (drv c) ! ?j # take k (drop (Suc ?j) (rx_buf (drv c)))"
    using j by (metis Cons_nth_drop_Suc take_Suc_Cons)
  ultimately show ?case using run_trans[OF _ run_step] by simp
qed

text \<open>One turn of each copy loop: look, the bytes, publish.\<close>

lemma write_turn_run:
  assumes "w_at c = W_loop" and "bs \<noteq> []" and "length bs = unat n"
    and "unat n \<le> unat (tx_contiguous (tx_in (drv c)) (tx_out (drv c)))"
    and "mem_put (tx_buf (drv c)) (unat (tx_in (drv c))) bs = Some buf"
  shows "fast_run b c (c\<lparr>drv := (drv c)\<lparr>tx_buf := buf, tx_in := (tx_in (drv c) + n) mod UART_BUF_LEN\<rparr>,
    accepted := accepted c @ bs\<rparr>)"
proof -
  let ?i = "tx_in (drv c)"
  let ?c1 = "c\<lparr>w_at := W_copy ?i [] bs\<rparr>"
  let ?c2 = "?c1\<lparr>drv := (drv ?c1)\<lparr>tx_buf := buf\<rparr>, w_at := W_copy ?i ([] @ bs) []\<rparr>"
  let ?c3 = "?c2\<lparr>drv := (drv ?c2)\<lparr>tx_in := (?i + of_nat (length bs)) mod UART_BUF_LEN\<rparr>, w_at := W_loop,
      accepted := accepted ?c2 @ bs\<rparr>"
  have 2: "fast_run b ?c1 ?c2" by (rule write_bytes_run) (use assms(5) in simp_all)
  have 1: "fast_step b c ?c1" by (rule write_look[OF assms(1,2)]) (use assms(3,4) in simp)
  have 3: "fast_step b ?c2 ?c3" by (rule write_publish) simp
  have "?c3 = c\<lparr>drv := (drv c)\<lparr>tx_buf := buf, tx_in := (?i + n) mod UART_BUF_LEN\<rparr>, accepted := accepted c @ bs\<rparr>"
    using assms(1,3) by (cases c) simp
  with run_trans[OF run_step[OF 3] run_trans[OF 2 run_step[OF 1]]] show ?thesis by (simp only:)
qed

lemma read_turn_run:
  assumes "r_at c = R_loop" and "0 < unat n" and "unat n \<le> unat (rx_contiguous (rx_in (drv c)) (rx_out (drv c)))"
    and "unat (rx_out (drv c)) + unat n \<le> length (rx_buf (drv c))"
  shows "fast_run b c (c\<lparr>drv := (drv c)\<lparr>rx_out := (rx_out (drv c) + n) mod UART_BUF_LEN\<rparr>,
    delivered := delivered c @ take (unat n) (drop (unat (rx_out (drv c))) (rx_buf (drv c)))\<rparr>)"
proof -
  let ?o = "rx_out (drv c)"
  let ?got = "take (unat n) (drop (unat ?o) (rx_buf (drv c)))"
  let ?c1 = "c\<lparr>r_at := R_copy ?o (unat n) []\<rparr>"
  let ?c2 = "?c1\<lparr>r_at := R_copy ?o (unat n) ?got\<rparr>"
  let ?c3 = "?c2\<lparr>drv := (drv ?c2)\<lparr>rx_out := (?o + of_nat (unat n)) mod UART_BUF_LEN\<rparr>, r_at := R_loop,
      delivered := delivered ?c2 @ ?got\<rparr>"
  have 2: "fast_run b ?c1 ?c2" using read_bytes_run[of ?c1 ?o "unat n" "[]" "unat n" b] assms(4) by simp
  have 1: "fast_step b c ?c1" by (rule read_look[OF assms(1,2,3)])
  have 3: "fast_step b ?c2 ?c3" by (rule read_publish) (use assms(4) in simp_all)
  have "?c3 = c\<lparr>drv := (drv c)\<lparr>rx_out := (?o + n) mod UART_BUF_LEN\<rparr>, delivered := delivered c @ ?got\<rparr>"
    using assms(1) by (cases c) simp
  with run_trans[OF run_step[OF 3] run_trans[OF 2 run_step[OF 1]]] show ?thesis by (simp only:)
qed

lemma write_copy_run:
  assumes "fast_write_copy ptr i count out s = Some y"
  shows "\<lbrakk>y = Inr (j, count', out', s'); drv c = s; w_at c = W_loop\<rbrakk> \<Longrightarrow>
    i \<le> j \<and> fast_run b c (c\<lparr>drv := s', accepted := accepted c @ take (j - i) (drop i ptr)\<rparr>)"
  using assms
proof (induction arbitrary: c rule: fast_write_copy.raw_induct[rotated, consumes 1, case_names turn])
  case (turn loop ptr i count out s y)
  let ?m = "tx_contiguous (tx_in s) (tx_out s)"
  let ?n = "if count < ?m then count else ?m"
  let ?bs = "take (unat ?n) (drop i ptr)"
  have same: "c\<lparr>drv := s, accepted := accepted c\<rparr> = c" using turn.prems(2) by (cases c) simp
  show ?case
  proof (cases "0 < sint count \<and> ?m \<noteq> 0")
    case False
    then have "j = i \<and> s' = s" using turn.hyps turn.prems(1) by (auto simp: Let_def returns_def split: if_splits)
    then show ?thesis using fast_run.stop[of b c] by (simp add: same)
  next
    case True
    then have run: "i + unat ?n \<le> length ptr" "\<exists>buf. mem_put (tx_buf s) (unat (tx_in s)) ?bs = Some buf"
      using turn.hyps turn.prems(1)
      by (auto simp: Let_def and_then_def returns_def undefined_run_def defined_or_trap_def split: if_splits option.splits)
    then obtain buf where buf: "mem_put (tx_buf s) (unat (tx_in s)) ?bs = Some buf" by blast
    let ?s = "s\<lparr>tx_buf := buf, tx_in := (tx_in s + ?n) mod UART_BUF_LEN\<rparr>"
    have rec: "loop ptr (i + unat ?n) (count - ?n) (tx_out s) ?s = Some y"
      using True run(1) buf turn.hyps by (simp add: Let_def)
    have len: "length ?bs = unat ?n" "unat ?n \<le> unat ?m" using run(1) by (auto simp: unat_min_word)
    have "count \<noteq> 0" using True by auto
    then have "0 < unat ?n" using True by (simp add: unat_gt_0)
    then have ne: "?bs \<noteq> []" using len(1) by (metis length_greater_0_conv)
    let ?c = "c\<lparr>drv := ?s, accepted := accepted c @ ?bs\<rparr>"
    have 1: "fast_run b c ?c" using write_turn_run[of c ?bs ?n buf b] ne len buf turn.prems(2,3) by simp
    have 2: "i + unat ?n \<le> j \<and> fast_run b ?c (?c\<lparr>drv := s', accepted := accepted ?c @ take (j - (i + unat ?n)) (drop (i + unat ?n) ptr)\<rparr>)"
      by (rule turn.IH[OF rec turn.prems(1)]) (use turn.prems(3) in simp_all)
    then have "take (j - i) (drop i ptr) = ?bs @ take (j - (i + unat ?n)) (drop (i + unat ?n) ptr)"
      using take_add[of "unat ?n" "j - (i + unat ?n)" "drop i ptr"] by (simp add: add.commute)
    then show ?thesis using 2 run_trans[OF conjunct2[OF 2] 1] by simp
  qed
qed

lemma read_copy_run:
  assumes "fast_read_copy space got s = Some y"
  shows "\<lbrakk>y = Inr (space', got', s', i'); drv c = s; r_at c = R_loop; 0 < sint space\<rbrakk> \<Longrightarrow>
    \<exists>new. got' = got @ new \<and> fast_run b c (c\<lparr>drv := s', delivered := delivered c @ new\<rparr>)"
  using assms
proof (induction arbitrary: c rule: fast_read_copy.raw_induct[rotated, consumes 1, case_names turn])
  case (turn loop space got s y)
  let ?m = "rx_contiguous (rx_in s) (rx_out s)"
  let ?n = "if space < ?m then space else ?m"
  let ?bs = "take (unat ?n) (drop (unat (rx_out s)) (rx_buf s))"
  let ?s = "s\<lparr>rx_out := (rx_out s + ?n) mod UART_BUF_LEN\<rparr>"
  let ?c = "c\<lparr>drv := ?s, delivered := delivered c @ ?bs\<rparr>"
  have same: "c\<lparr>drv := s, delivered := delivered c\<rparr> = c" using turn.prems(2) by (cases c) simp
  show ?case
  proof (cases "?m = 0")
    case True
    then have "got' = got \<and> s' = s" using turn.hyps turn.prems(1) by (auto simp: Let_def returns_def)
    then show ?thesis using fast_run.stop[of b c] by (intro exI[of _ "[]"]) (simp add: same)
  next
    case False
    have in_range: "unat (rx_out s) + unat ?n \<le> length (rx_buf s)"
      using False turn.hyps turn.prems(1) by (auto simp: Let_def and_then_def returns_def undefined_run_def split: if_splits)
    have "space \<noteq> 0" using turn.prems(4) by auto
    then have n: "0 < unat ?n" "unat ?n \<le> unat ?m" using False by (simp_all add: unat_gt_0 unat_min_word)
    have 1: "fast_run b c ?c" using read_turn_run[of c ?n b] n in_range turn.prems(2,3) by simp
    have body: "(if 0 < sint (space - ?n) then loop (space - ?n) (got @ ?bs) ?s
        else returns (space - ?n, got @ ?bs, ?s, rx_in s)) = Some y"
      using False in_range turn.hyps by (simp add: Let_def)
    show ?thesis
    proof (cases "0 < sint (space - ?n)")
      case True
      then have "loop (space - ?n) (got @ ?bs) ?s = Some y" using body by (simp only: if_True)
      from turn.IH[OF this turn.prems(1), of ?c] True turn.prems(3) obtain new
        where 2: "got' = (got @ ?bs) @ new" "fast_run b ?c (?c\<lparr>drv := s', delivered := delivered ?c @ new\<rparr>)" by auto
      then show ?thesis using run_trans[OF 2(2) 1] by (intro exI[of _ "?bs @ new"]) simp
    next
      case False
      then have "returns (space - ?n, got @ ?bs, ?s, rx_in s) = Some y" using body by (simp only: if_False)
      then have "got @ ?bs = got'" "?s = s'"
        unfolding turn.prems(1) returns_def option.inject sum.inject prod.inject by blast+
      then show ?thesis using 1 by blast
    qed
  qed
qed

definition fast_start :: "'d fast \<Rightarrow> 'd run" where
  "fast_start s = \<lparr>drv = s, w_at = W_loop, r_at = R_loop, accepted = [], delivered = []\<rparr>"

text \<open>C29. The steps of a run are those of the C code: each copy loop, undisturbed, is a run that
  ends in the state the loop leaves, with exactly the bytes the loop took accepted or handed over.\<close>

theorem copy_loops_run:
  "(fast_write_copy ptr i count out (drv c) = returns (j, count', out', s') \<and> w_at c = W_loop \<longrightarrow>
      fast_run b c (c\<lparr>drv := s', accepted := accepted c @ take (j - i) (drop i ptr)\<rparr>)) \<and>
   (fast_read_copy space got (drv c) = returns (space', got @ new, s', i') \<and> r_at c = R_loop \<and> 0 < sint space \<longrightarrow>
      fast_run b c (c\<lparr>drv := s', delivered := delivered c @ new\<rparr>))"
  using write_copy_run[of ptr i count out "drv c" "Inr (j, count', out', s')" j count' out' s' c b]
    read_copy_run[of space got "drv c" "Inr (space', got @ new, s', i')" space' "got @ new" s' i' c b]
  by (auto simp: returns_def)

text \<open>A core whose host sends two bytes.\<close>

definition two_bytes :: irq_core where
  "two_bytes = \<lparr>tx_fifo = [], host_log = [], rx_script = [(0, 65), (1, 66)], core_ie = 0, core_ac = False\<rparr>"

lemma copy_loops_run_witness:
  "\<exists>c. fast_run (icore_bus 0x41048) (fast_start (jtag_uart_state 0x41048 (irq_reset ()) (timer_reset ()) two_bytes)) c \<and>
     accepted c = [1, 2, 3]"
proof -
  let ?s = "jtag_uart_state 0x41048 (irq_reset ()) (timer_reset ()) two_bytes"
  have ok: "fast_ok ?s" by (simp add: fast_ok_def ring_ok_def jtag_uart_state_def BUF_LEN_def)
  have empty: "length (tx_queue ?s) = 0" by (simp add: jtag_uart_state_def ring_used_def)
  from write_copy[OF ok, of 3 0 "[1, 2, 3]" 0] empty obtain count' out' s' where
    "fast_write_copy [1, 2, 3] 0 3 0 ?s = returns (3, count', out', s')" by (auto simp: BUF_LEN_def)
  then show ?thesis
    using conjunct1[OF copy_loops_run[of "[1, 2, 3]" 0 3 0 "fast_start ?s" 3 count' out' s' "icore_bus 0x41048" 0 "[]" 0 "[]" 0]]
    by (auto simp: fast_start_def)
qed

section \<open>The driver on the core\<close>

text \<open>After initialisation, and at every moment of every run, all of it holds.\<close>

lemma icore_run_ok:
  assumes "length (tx_fifo d) \<le> 64" and "core_ie d = 0"
    and "altera_avalon_jtag_uart_init (icore_bus base) ic irq isr timeout_routine sp alarm
      (jtag_uart_state base isys tsys d) = returns s"
    and "fast_run (icore_bus base) (fast_start s) c"
  shows "icore.ok base (host_log d @ tx_fifo d) (map snd (rx_script d)) c"
proof -
  have "icore_ready d" using assms(1,2) by (simp add: icore_ready_def)
  note i = icore.init_inv[OF this assms(3)]
  have "icore.ok base (host_log d @ tx_fifo d) (map snd (rx_script d)) (fast_start s)"
    using i by (simp add: run_ok_def fast_start_def streams_ok_def icore_emitted_def icore_pending_def)
  then show ?thesis by (rule icore.ok_run[OF assms(4)])
qed

text \<open>C7. At every moment of every run of the initialised driver, however the program, the
  interrupt routine and the timer interleave: what the host has read, followed by what is in the
  FIFO and in the transmit buffer, is what was there before followed by the bytes the write routine
  has accepted; and the bytes the program has read, followed by what is in the receive buffer and
  still to come, are the bytes the host sends.  No byte is lost, doubled or reordered, although
  interrupts stay enabled during the copies.\<close>

theorem fast_streams:
  assumes "length (tx_fifo d) \<le> 64" and "core_ie d = 0"
    and "altera_avalon_jtag_uart_init (icore_bus base) ic irq isr timeout_routine sp alarm
      (jtag_uart_state base isys tsys d) = returns s"
    and "fast_run (icore_bus base) (fast_start s) c"
  shows "host_log (uart (drv c)) @ tx_fifo (uart (drv c)) @ tx_queue (drv c) =
      host_log d @ tx_fifo d @ accepted c \<and>
    delivered c @ rx_queue (drv c) @ map snd (rx_script (uart (drv c))) = map snd (rx_script d)"
  using icore.ok_parts(4)[OF icore_run_ok[OF assms]]
  by (simp add: streams_ok_def icore_emitted_def icore_pending_def)

text \<open>C8. At every moment of every run of the initialised driver an interrupt is served to the
  end: the interrupt routine returns, whatever the FIFOs and buffers hold, and stays inside its
  arrays.\<close>

theorem fast_irq_returns:
  assumes "length (tx_fifo d) \<le> 64" and "core_ie d = 0"
    and "altera_avalon_jtag_uart_init (icore_bus base) ic irq isr timeout_routine sp alarm
      (jtag_uart_state base isys tsys d) = returns s"
    and "fast_run (icore_bus base) (fast_start s) c"
  shows "\<exists>s'. altera_avalon_jtag_uart_irq (icore_bus base) (drv c) = returns s'"
  using icore.irq_returns[OF icore.ok_parts(1)[OF icore_run_ok[OF assms]]] by blast

text \<open>A run of the initialised driver that writes one byte.\<close>

definition two_bytes_init :: "irq_core fast outcome" where
  "two_bytes_init = altera_avalon_jtag_uart_init (icore_bus 0x41048) 0 0 1 2 0 2
     (jtag_uart_state 0x41048 (irq_reset ()) (timer_reset ()) two_bytes)"

lemma two_bytes_init_returns: "\<exists>s. two_bytes_init = returns s"
proof -
  have "\<exists>i. alt_ic_isr_register 0 0 (Some 1) 0 (irq_reset ()) = returns (0, i)"
    by (simp add: alt_ic_isr_register_def alt_iic_isr_register_def irq_reset_def ALT_NIRQ_def
        alt_irq_disable_all_def alt_ic_irq_enable_def alt_irq_enable_def Let_def)
  then show ?thesis
    by (auto simp: two_bytes_init_def altera_avalon_jtag_uart_init_def write_control_def jtag_uart_state_def Let_def
        alt_alarm_start_def alt_ticks_per_second_def timer_reset_def ALT_LLIST_HEAD_def set_next_def set_prev_def)
qed

lemma one_byte_run:
  assumes "fast_ok s" and "tx_queue s = []"
  shows "\<exists>c. fast_run b (fast_start s) c \<and> accepted c = [x]"
proof -
  note f = fast_ok_fields[OF assms(1)] and cont = tx_contiguous_bounds[OF fast_ok_fields(2,3)[OF assms(1)]]
  have "ring_used (unat (tx_in s)) (unat (tx_out s)) = 0" using assms(2) by (metis length_ring_queue list.size(3))
  then have "tx_contiguous (tx_in s) (tx_out s) \<noteq> 0" using cont(3) by (simp add: BUF_LEN_def)
  then have "length [x] \<le> unat (tx_contiguous (tx_in s) (tx_out s))" by (simp add: Suc_le_eq unat_gt_0)
  from write_look[of "fast_start s" "[x]" b] this
  have 1: "fast_step b (fast_start s) ((fast_start s)\<lparr>w_at := W_copy (tx_in s) [] [x]\<rparr>)" by (simp add: fast_start_def)
  let ?buf = "(tx_buf s)[unat (tx_in s) := x]"
  let ?c2 = "(fast_start s)\<lparr>drv := s\<lparr>tx_buf := ?buf\<rparr>, w_at := W_copy (tx_in s) [x] []\<rparr>"
  have 2: "fast_step b ((fast_start s)\<lparr>w_at := W_copy (tx_in s) [] [x]\<rparr>) ?c2"
    using write_byte[of "(fast_start s)\<lparr>w_at := W_copy (tx_in s) [] [x]\<rparr>" "tx_in s" "[]" x "[]" ?buf b] f(1,2)
    by (simp add: fast_start_def)
  from write_publish[of ?c2 "tx_in s" "[x]" b] obtain c where 3: "fast_step b ?c2 c" "accepted c = [x]"
    by (simp add: fast_start_def)
  show ?thesis using fast_run.stop 1 2 3 by (blast intro: fast_run.go)
qed

lemma two_bytes_runs:
  obtains s c where "two_bytes_init = returns s" "fast_run (icore_bus 0x41048) (fast_start s) c" "accepted c = [7]"
proof -
  obtain s where s: "two_bytes_init = returns s" using two_bytes_init_returns by blast
  have "icore_ready two_bytes" by (simp add: icore_ready_def two_bytes_def)
  note i = icore.init_inv[OF this s[unfolded two_bytes_init_def]]
  then show ?thesis using one_byte_run[of s] s that by (auto simp: fast_inv_def)
qed

lemma fast_streams_witness:
  "\<exists>s c. two_bytes_init = returns s \<and> fast_run (icore_bus 0x41048) (fast_start s) c \<and> accepted c = [7] \<and>
    host_log (uart (drv c)) @ tx_fifo (uart (drv c)) @ tx_queue (drv c) = [7]"
proof -
  obtain s c where r: "two_bytes_init = returns s" "fast_run (icore_bus 0x41048) (fast_start s) c" "accepted c = [7]"
    by (rule two_bytes_runs)
  then show ?thesis
    using fast_streams[OF _ _ r(1)[unfolded two_bytes_init_def] r(2)] by (auto simp: two_bytes_def)
qed

lemma fast_irq_returns_witness:
  "\<exists>s c s'. two_bytes_init = returns s \<and> fast_run (icore_bus 0x41048) (fast_start s) c \<and> accepted c = [7] \<and>
    altera_avalon_jtag_uart_irq (icore_bus 0x41048) (drv c) = returns s'"
proof -
  obtain s c where r: "two_bytes_init = returns s" "fast_run (icore_bus 0x41048) (fast_start s) c" "accepted c = [7]"
    by (rule two_bytes_runs)
  then show ?thesis
    using fast_irq_returns[OF _ _ r(1)[unfolded two_bytes_init_def] r(2)] by (auto simp: two_bytes_def)
qed

end
