(* ===== verification/Jtag_Block.thy ===== *)
theory Jtag_Block
  imports Jtag_Runs
begin

text \<open>
  The interrupt-driven driver when it waits: a blocking write returns its count and a blocking
  close returns with everything sent, when the interrupt routine runs while they wait and the host
  reads.
\<close>

section \<open>A host that reads\<close>

text \<open>A poll of the control register that finds no space for the enabled transmit interrupt is
  followed by some.\<close>

locale jtag_fifo_live = jtag_fifo +
  assumes room_max: "ready d \<Longrightarrow> room d \<le> 64"
    and host_reads: "ready d \<Longrightarrow> enabled d AND CONTROL_WE_MSK \<noteq> 0 \<Longrightarrow> IORD_CONTROL b base d = (v, d') \<Longrightarrow>
      v AND CONTROL_WI_MSK = 0 \<Longrightarrow> room d < room d'"
begin

abbreviation isr :: "'a fast \<Rightarrow> 'a fast outcome" where
  "isr \<equiv> altera_avalon_jtag_uart_irq b"

text \<open>One run of the interrupt routine sends something or leaves more room than there was.\<close>

lemma isr_progress:
  "fast_inv ready enabled base s \<Longrightarrow> irq_enable s AND CONTROL_WE_MSK \<noteq> 0 \<Longrightarrow> tx_queue s \<noteq> [] \<Longrightarrow>
   \<exists>s' sent new. isr s = returns s' \<and> isr_effect emitted pending s s' sent new \<and> fast_inv ready enabled base s' \<and>
     (tx_queue s' \<noteq> [] \<longrightarrow> irq_enable s' AND CONTROL_WE_MSK \<noteq> 0) \<and>
     (sent = [] \<longrightarrow> room (uart s) < room (uart s'))"
proof (induction "isr_work pending s" arbitrary: s rule: less_induct)
  case less
  obtain control d where r: "IORD_CONTROL b base (uart s) = (control, d)" by fastforce
  from irq_turn[OF less.prems(1) r] obtain s1 sent new where s1:
    "isr_effect emitted pending s s1 sent new" "fast_inv ready enabled base s1"
    "isr s = returns s1 \<or> isr s = isr s1 \<and> isr_work pending s1 < isr_work pending s"
    "tx_queue s1 \<noteq> [] \<longrightarrow> irq_enable s1 AND CONTROL_WE_MSK \<noteq> 0"
    "if control AND CONTROL_WI_MSK = 0 then sent = [] \<and> room d \<le> room (uart s1)
     else tx_queue s \<noteq> [] \<longrightarrow> sent \<noteq> []" using less.prems(2) by metis
  have wait: "sent = [] \<longrightarrow> room (uart s) < room (uart s1) \<and> tx_queue s1 \<noteq> []"
  proof
    assume "sent = []"
    then have wi: "control AND CONTROL_WI_MSK = 0" using s1(5) less.prems(3) by presburger
    have "ready (uart s)" "enabled (uart s) AND CONTROL_WE_MSK \<noteq> 0"
      using less.prems(1,2) by (simp_all add: fast_inv_def enable_bits)
    from host_reads[OF this r wi] have "room (uart s) < room d" .
    moreover have "tx_queue s1 = tx_queue s" using s1(1) \<open>sent = []\<close> by (simp add: isr_effect_def)
    ultimately show "room (uart s) < room (uart s1) \<and> tx_queue s1 \<noteq> []"
      using s1(5) wi less.prems(3) by (simp del: length_ring_queue)
  qed
  show ?case
  proof (cases "isr s = returns s1")
    case True
    then show ?thesis using s1(1,2,4) wait by blast
  next
    case False
    then have turn: "isr s = isr s1" "isr_work pending s1 < isr_work pending s" using s1(3) by auto
    obtain s2 sent' new' where s2: "isr s1 = returns s2" "isr_effect emitted pending s1 s2 sent' new'"
        "fast_inv ready enabled base s2" "tx_queue s1 \<noteq> [] \<longrightarrow> tx_queue s2 \<noteq> [] \<longrightarrow> irq_enable s2 AND CONTROL_WE_MSK \<noteq> 0"
        "sent = [] \<longrightarrow> sent' = [] \<longrightarrow> room (uart s1) < room (uart s2)"
    proof (cases "sent = []")
      case True
      then show thesis using less.hyps[OF turn(2) s1(2)] wait s1(4) that by blast
    next
      case False
      then show thesis using irq_returns[OF s1(2)] s1(4) that by metis
    qed
    have "isr_effect emitted pending s s2 (sent @ sent') (new @ new')" by (rule isr_effect_trans[OF s1(1) s2(2)])
    moreover have "tx_queue s1 = sent' @ tx_queue s2" using s2(2) by (simp add: isr_effect_def)
    ultimately show ?thesis using s2 wait turn(1)
      by (intro exI[of _ s2] exI[of _ "sent @ sent'"] exI[of _ "new @ new'"]) auto
  qed
qed

lemma sent_moves_out:
  assumes "isr_effect emitted pending s s' sent new" and "sent \<noteq> []"
  shows "tx_out s' \<noteq> tx_out s"
proof
  assume same: "tx_out s' = tx_out s"
  have "tx_queue s = sent @ tx_queue s'" "tx_in s' = tx_in s" "tx_buf s' = tx_buf s"
    using assms(1) unfolding isr_effect_def by blast+
  then show False using assms(2) same by simp
qed

text \<open>So the wait for the index to move is over after finitely many interrupts.\<close>

lemma wait_for_room:
  "fast_inv ready enabled base s \<Longrightarrow> irq_enable s AND CONTROL_WE_MSK \<noteq> 0 \<Longrightarrow> tx_queue s \<noteq> [] \<Longrightarrow>
   host_inactive s < timeout s \<Longrightarrow>
   \<exists>s' sent new. spin_while isr (\<lambda>t. tx_out s = tx_out t) s = returns s' \<and>
     isr_effect emitted pending s s' sent new \<and> fast_inv ready enabled base s' \<and> sent \<noteq> []"
proof (induction "64 - room (uart s)" arbitrary: s rule: less_induct)
  case less
  from isr_progress[OF less.prems(1-3)] obtain s1 sent new where s1: "isr s = returns s1"
    "isr_effect emitted pending s s1 sent new" "fast_inv ready enabled base s1"
    "tx_queue s1 \<noteq> [] \<longrightarrow> irq_enable s1 AND CONTROL_WE_MSK \<noteq> 0" "sent = [] \<longrightarrow> room (uart s) < room (uart s1)" by blast
  have step: "spin_while isr (\<lambda>t. tx_out s = tx_out t) s = spin_while isr (\<lambda>t. tx_out s = tx_out t) s1"
    using less.prems(4) s1(1) by (subst spin_while.simps) simp
  show ?case
  proof (cases "sent = []")
    case True
    have f: "tx_queue s1 = tx_queue s" "tx_in s1 = tx_in s" "tx_buf s1 = tx_buf s" "host_inactive s1 = host_inactive s"
        "timeout s1 = timeout s" "length (tx_queue s1) = length (tx_queue s)"
      using s1(2) True unfolding isr_effect_def by auto
    have out: "tx_out s1 = tx_out s" 
    proof -
      have "fast_ok s" "fast_ok s1" using less.prems(1) s1(3) by (simp_all add: fast_inv_def)
      note b = fast_ok_fields(2,3)[OF this(1)] fast_ok_fields(3)[OF this(2)]
      show ?thesis using f(2,6) b by (auto simp: ring_used_def word_unat_eq_iff split: if_splits)
    qed
    have "ready (uart s1)" using s1(3) by (simp add: fast_inv_def)
    then have "64 - room (uart s1) < 64 - room (uart s)" using s1(5) True room_max[of "uart s1"] by auto
    from less.hyps[OF this s1(3)] obtain s2 sent' new' where
      "spin_while isr (\<lambda>t. tx_out s1 = tx_out t) s1 = returns s2" "isr_effect emitted pending s1 s2 sent' new'"
      "fast_inv ready enabled base s2" "sent' \<noteq> []"
      using s1(4) True less.prems(3,4) f(1,4,5) by auto
    then show ?thesis using isr_effect_trans[OF s1(2)] True step out by (metis append_Nil)
  next
    case False
    then have "spin_while isr (\<lambda>t. tx_out s = tx_out t) s1 = returns s1"
      using sent_moves_out[OF s1(2)] by (subst spin_while.simps) auto
    with step have "spin_while isr (\<lambda>t. tx_out s = tx_out t) s = returns s1" by (rule trans)
    then show ?thesis using s1(2,3) False by (intro exI[of _ s1] exI[of _ sent] exI[of _ new] conjI)
  qed
qed

section \<open>Writing and closing\<close>

text \<open>The write routine writes everything, however long it is.\<close>

lemma write_loop:
  "fast_inv ready enabled base s \<Longrightarrow> unat count < 2 ^ 31 \<Longrightarrow> i + unat count \<le> length ptr \<Longrightarrow>
   flags AND O_NONBLOCK = 0 \<Longrightarrow> host_inactive s = 0 \<Longrightarrow> 0 < timeout s \<Longrightarrow>
   \<exists>s'. fast_write_loop b isr flags ptr i count out s = returns (i + unat count, s') \<and>
     fast_inv ready enabled base s' \<and> irq_enable s' AND CONTROL_WE_MSK \<noteq> 0 \<and> host_inactive s' = 0 \<and> 0 < timeout s' \<and>
     emitted (uart s') @ tx_queue s' = emitted (uart s) @ tx_queue s @ take (unat count) (drop i ptr) \<and>
     rx_queue s' @ pending (uart s') = rx_queue s @ pending (uart s)"
proof (induction "unat count + length (tx_queue s)" arbitrary: i count out s rule: less_induct)
  case less
  have inv: "fast_ok s" "ready (uart s)" "sp_base s = base" using less.prems(1) by (simp_all add: fast_inv_def)
  obtain m out' bf inp' where w: "m = min (unat count) (BUF_LEN - 1 - length (tx_queue s))"
      "fast_write_copy ptr i count out s = returns (i + m, count - of_nat m, out', s\<lparr>tx_buf := bf, tx_in := inp'\<rparr>)"
      "fast_ok (s\<lparr>tx_buf := bf, tx_in := inp'\<rparr>)"
      "tx_queue (s\<lparr>tx_buf := bf, tx_in := inp'\<rparr>) = tx_queue s @ take m (drop i ptr)"
      "unat count \<noteq> m \<longrightarrow> out' = tx_out s"
    using write_copy[OF inv(1) less.prems(2,3)] by blast
  let ?s1 = "s\<lparr>tx_buf := bf, tx_in := inp'\<rparr>"
  obtain d x where e: "enable_irq_bit b CONTROL_WE_MSK ?s1 = ?s1\<lparr>irq_enable := irq_enable s OR CONTROL_WE_MSK, uart := d, irqs := x\<rparr>"
      "ready d" "emitted d = emitted (uart s)" "pending d = pending (uart s)"
      "enabled d = (irq_enable s OR CONTROL_WE_MSK) AND (CONTROL_RE_MSK OR CONTROL_WE_MSK)"
    using enable_bit[of ?s1 CONTROL_WE_MSK] inv by auto
  let ?s2 = "enable_irq_bit b CONTROL_WE_MSK ?s1"
  have s2: "fast_inv ready enabled base ?s2" "tx_queue ?s2 = tx_queue s @ take m (drop i ptr)"
      "emitted (uart ?s2) = emitted (uart s)" "rx_queue ?s2 @ pending (uart ?s2) = rx_queue s @ pending (uart s)"
      "host_inactive ?s2 = 0" "0 < timeout ?s2" "tx_out ?s2 = tx_out s" "irq_enable ?s2 = irq_enable s OR CONTROL_WE_MSK"
    unfolding e(1) using e(2-5) w(3,4) inv less.prems(5,6) by (simp_all add: fast_inv_def fast_ok_def)
  have we: "irq_enable ?s2 AND CONTROL_WE_MSK \<noteq> 0"
    unfolding s2(8) by (simp add: bit.conj_disj_distrib2 CONTROL_WE_MSK_def)
  have mle: "m \<le> unat count" using w(1) by simp
  have left: "unat (count - of_nat m) = unat count - m"
  proof -
    have "unat (of_nat m :: cint) = m" using w(1) less.prems(2) by (simp add: unat_of_nat min_def)
    then show ?thesis using w(1) by (subst unat_diff) (simp_all add: word_le_nat_alt)
  qed
  show ?case
  proof (cases "unat count = m")
    case True
    then have "\<not> 0 < sint (count - of_nat m)" using left by (simp add: sint_positive)
    then have "fast_write_loop b isr flags ptr i count out s = returns (i + unat count, ?s2)"
      using w(2) True by (subst fast_write_loop.simps) (simp add: Let_def)
    then show ?thesis using s2 we True by (intro exI[of _ ?s2]) simp
  next
    case False
    then have more: "0 < sint (count - of_nat m)" using left w(1) less.prems(2) by (subst sint_positive) auto
    have len: "length (tx_queue ?s2) = length (tx_queue s) + m"
      unfolding s2(2) using w(1) less.prems(3) by simp
    have "length (tx_queue ?s2) = BUF_LEN - 1"
      using len False w(1) ring_used_bound[OF fast_ok_fields(2,3)[OF inv(1)]] by simp
    then have "tx_queue ?s2 \<noteq> []" by (auto simp: BUF_LEN_def simp del: length_ring_queue)
    moreover have "host_inactive ?s2 < timeout ?s2" using s2(5,6) by simp
    ultimately obtain s3 sent new where s3: "spin_while isr (\<lambda>t. tx_out s = tx_out t) ?s2 = returns s3"
        "isr_effect emitted pending ?s2 s3 sent new" "fast_inv ready enabled base s3" "sent \<noteq> []"
      using wait_for_room[OF s2(1) we] s2(7) by metis
    have "host_inactive s3 = host_inactive ?s2" "timeout s3 = timeout ?s2"
      using s3(2) unfolding isr_effect_def by blast+
    then have h: "host_inactive s3 = 0" "0 < timeout s3" using s2(5,6) by simp_all
    have f: "tx_queue ?s2 = sent @ tx_queue s3"
        "emitted (uart s3) = emitted (uart ?s2) @ sent" "pending (uart ?s2) = new @ pending (uart s3)"
        "rx_queue s3 = rx_queue ?s2 @ new"
      using s3(2) unfolding isr_effect_def by blast+
    have step: "fast_write_loop b isr flags ptr i count out s =
        fast_write_loop b isr flags ptr (i + m) (count - of_nat m) out' s3"
      using w(2,5) more less.prems(4) s3(1) h(1) False by (subst fast_write_loop.simps) (simp add: Let_def)
    have "length (tx_queue ?s2) = length sent + length (tx_queue s3)" by (simp only: f(1) length_append)
    moreover have "0 < length sent" using s3(4) by simp
    ultimately have "unat (count - of_nat m) + length (tx_queue s3) < unat count + length (tx_queue s)"
      using left len w(1) by linarith
    moreover have "unat (count - of_nat m) < 2 ^ 31" "i + m + unat (count - of_nat m) \<le> length ptr"
      using left less.prems(2,3) mle by linarith+
    ultimately obtain s4 where s4: "fast_write_loop b isr flags ptr (i + m) (count - of_nat m) out' s3 =
          returns (i + m + unat (count - of_nat m), s4)" "fast_inv ready enabled base s4"
        "irq_enable s4 AND CONTROL_WE_MSK \<noteq> 0" "host_inactive s4 = 0" "0 < timeout s4"
        "emitted (uart s4) @ tx_queue s4 = emitted (uart s3) @ tx_queue s3 @ take (unat (count - of_nat m)) (drop (i + m) ptr)"
        "rx_queue s4 @ pending (uart s4) = rx_queue s3 @ pending (uart s3)"
      using less.hyps[OF _ s3(3) _ _ less.prems(4) h] by blast
    have "take (unat count) (drop i ptr) = take m (drop i ptr) @ take (unat count - m) (drop (i + m) ptr)"
      using take_add[of m "unat count - m" "drop i ptr"] w(1) by (simp add: add.commute)
    then have "emitted (uart s4) @ tx_queue s4 = emitted (uart s) @ tx_queue s @ take (unat count) (drop i ptr)"
      using s4(6) f(1,2) s2(2,3) left by simp
    moreover have "rx_queue s4 @ pending (uart s4) = rx_queue s @ pending (uart s)"
      using s4(7) f(3,4) s2(4) by simp
    moreover have "i + m + unat (count - of_nat m) = i + unat count" using left w(1) by simp
    ultimately show ?thesis using s4(1-5) step by (intro exI[of _ s4]) simp
  qed
qed

text \<open>Closing waits until the interrupt routine has sent what is queued.\<close>

lemma close_drains:
  "fast_inv ready enabled base s \<Longrightarrow> tx_queue s \<noteq> [] \<longrightarrow> irq_enable s AND CONTROL_WE_MSK \<noteq> 0 \<Longrightarrow>
   flags AND O_NONBLOCK = 0 \<Longrightarrow> host_inactive s = 0 \<Longrightarrow> 0 < timeout s \<Longrightarrow>
   \<exists>s' new. altera_avalon_jtag_uart_close isr flags s = returns (0, s') \<and>
     isr_effect emitted pending s s' (tx_queue s) new \<and> fast_inv ready enabled base s'"
proof (induction "65 * length (tx_queue s) + (64 - room (uart s))" arbitrary: s rule: less_induct)
  case less
  have ok: "fast_ok s" using less.prems(1) by (simp add: fast_inv_def)
  then have empty: "tx_out s = tx_in s \<longleftrightarrow> tx_queue s = []"
    by (auto simp: fast_ok_def ring_empty_iff word_unat_eq_iff)
  show ?case
  proof (cases "tx_queue s = []")
    case True
    then have "altera_avalon_jtag_uart_close isr flags s = returns (0, s)"
      using empty by (subst altera_avalon_jtag_uart_close.simps) simp
    then show ?thesis using True less.prems(1) isr_effect_refl[of emitted pending s]
      by (intro exI[of _ s] exI[of _ "[]"]) simp
  next
    case False
    from isr_progress[OF less.prems(1) _ False] less.prems(2) False obtain s1 sent new where s1: "isr s = returns s1"
      "isr_effect emitted pending s s1 sent new" "fast_inv ready enabled base s1"
      "tx_queue s1 \<noteq> [] \<longrightarrow> irq_enable s1 AND CONTROL_WE_MSK \<noteq> 0" "sent = [] \<longrightarrow> room (uart s) < room (uart s1)" by blast
    have f: "host_inactive s1 = 0" "0 < timeout s1" "tx_queue s = sent @ tx_queue s1"
      using s1(2) less.prems(4,5) unfolding isr_effect_def by simp_all
    have step: "altera_avalon_jtag_uart_close isr flags s = altera_avalon_jtag_uart_close isr flags s1"
      using False empty less.prems(3-5) s1(1) by (subst altera_avalon_jtag_uart_close.simps) auto
    have "length (tx_queue s) = length sent + length (tx_queue s1)" by (simp only: f(3) length_append)
    moreover have "room (uart s1) \<le> 64" using s1(3) room_max by (simp add: fast_inv_def)
    moreover have "sent = [] \<or> 0 < length sent" by simp
    ultimately have "65 * length (tx_queue s1) + (64 - room (uart s1)) < 65 * length (tx_queue s) + (64 - room (uart s))"
      using s1(5) by (cases "sent = []") linarith+
    from less.hyps[OF this s1(3,4) less.prems(3) f(1,2)] obtain s2 new' where s2:
      "altera_avalon_jtag_uart_close isr flags s1 = returns (0, s2)" "isr_effect emitted pending s1 s2 (tx_queue s1) new'"
      "fast_inv ready enabled base s2" by blast
    have "isr_effect emitted pending s s2 (tx_queue s) (new @ new')"
      using isr_effect_trans[OF s1(2) s2(2)] by (simp only: f(3)[symmetric])
    then show ?thesis using s2 step by (intro exI[of _ s2] exI[of _ "new @ new'"]) simp
  qed
qed

lemma write_then_close:
  assumes "fast_inv ready enabled base s" and "length ptr < 2 ^ 31"
    and "flags AND O_NONBLOCK = 0" and "host_inactive s = 0" and "0 < timeout s"
  shows "\<exists>s' s''. fast_write b isr ptr (of_nat (length ptr)) flags s =
      returns (if ptr = [] then - EIO else of_nat (length ptr), s') \<and>
    altera_avalon_jtag_uart_close isr flags s' = returns (0, s'') \<and> tx_queue s'' = [] \<and>
    emitted (uart s'') = emitted (uart s) @ tx_queue s @ ptr \<and>
    rx_queue s'' @ pending (uart s'') = rx_queue s @ pending (uart s)"
proof -
  have n: "unat (of_nat (length ptr) :: cint) = length ptr" using assms(2) by (simp add: unat_of_nat)
  from write_loop[OF assms(1) _ _ assms(3-5), of "of_nat (length ptr)" 0 ptr 0] assms(2) n
  obtain s' where s': "fast_write_loop b isr flags ptr 0 (of_nat (length ptr)) 0 s = returns (length ptr, s')"
      "fast_inv ready enabled base s'" "irq_enable s' AND CONTROL_WE_MSK \<noteq> 0" "host_inactive s' = 0" "0 < timeout s'"
      "emitted (uart s') @ tx_queue s' = emitted (uart s) @ tx_queue s @ ptr"
      "rx_queue s' @ pending (uart s') = rx_queue s @ pending (uart s)" by auto
  from close_drains[OF s'(2) _ assms(3) s'(4,5)] s'(3) obtain s'' new where
    c: "altera_avalon_jtag_uart_close isr flags s' = returns (0, s'')" "isr_effect emitted pending s' s'' (tx_queue s') new"
    by blast
  have "emitted (uart s'') = emitted (uart s') @ tx_queue s'" "tx_queue s' = tx_queue s' @ tx_queue s''"
      "pending (uart s') = new @ pending (uart s'')" "rx_queue s'' = rx_queue s' @ new"
    using c(2) unfolding isr_effect_def by blast+
  moreover have "fast_write b isr ptr (of_nat (length ptr)) flags s =
      returns (if ptr = [] then - EIO else of_nat (length ptr), s')"
    using s'(1) assms(3) by (simp add: fast_write_def)
  ultimately show ?thesis using c(1) s'(6,7) by (intro exI[of _ s'] exI[of _ s'']) simp
qed

end

interpretation icore_live: jtag_fifo_live "icore_bus base" base icore_ready icore_emitted
    "\<lambda>d. 64 - length (tx_fifo d)" icore_pending core_ie
proof
  fix d :: irq_core and v d'
  assume "icore_ready d" "core_ie d AND CONTROL_WE_MSK \<noteq> 0" "IORD_CONTROL (icore_bus base) base d = (v, d')"
    "v AND CONTROL_WI_MSK = 0"
  moreover from this have "v = push_bit 16 (of_nat (64 - length (tx_fifo d))) OR icore_flags d" "d' = icore_poll d"
    by (auto simp: IORD_CONTROL_def IORD_def icore_bus_def icore_read_def control_addr)
  ultimately have "length (tx_fifo d) = 64" "length (tx_fifo d') = length (tx_fifo d) - 1"
    using flag_bits(2) icore_poll_keeps(4) by (auto simp: icore_ready_def le_less)
  then show "64 - length (tx_fifo d) < 64 - length (tx_fifo d')" by simp
qed simp

text \<open>C9. On the core with its host, which takes a byte at every poll, and with the interrupt routine running
  while the driver waits: a blocking write of less than 2^31 bytes to the initialised driver, after whatever
  runs and while the host counts as present, returns its count although the buffer holds 2047 bytes (for a
  write of no bytes it returns -EIO), and a blocking close then returns 0 with the buffer empty.  What has left
  the driver is what was there, what was queued and the bytes written, in this order, and nothing received is
  lost meanwhile.\<close>

theorem blocking_write_close:
  assumes "length (tx_fifo d) \<le> 64" and "core_ie d = 0"
    and "altera_avalon_jtag_uart_init (icore_bus base) ic irq isr timeout_routine sp alarm
      (jtag_uart_state base isys tsys d) = returns s"
    and "fast_run (icore_bus base) (fast_start s) c"
    and "host_inactive (drv c) = 0" and "0 < timeout (drv c)"
    and "flags AND O_NONBLOCK = 0" and "length ptr < 2 ^ 31"
  shows "\<exists>s' s''. fast_write (icore_bus base) (altera_avalon_jtag_uart_irq (icore_bus base)) ptr (of_nat (length ptr)) flags (drv c) =
      returns (if ptr = [] then - EIO else of_nat (length ptr), s') \<and>
    altera_avalon_jtag_uart_close (altera_avalon_jtag_uart_irq (icore_bus base)) flags s' = returns (0, s'') \<and> tx_queue s'' = [] \<and>
    host_log (uart s'') @ tx_fifo (uart s'') =
      host_log (uart (drv c)) @ tx_fifo (uart (drv c)) @ tx_queue (drv c) @ ptr \<and>
    rx_queue s'' @ map snd (rx_script (uart s'')) = rx_queue (drv c) @ map snd (rx_script (uart (drv c)))"
  using icore_live.write_then_close[OF icore.ok_parts(1)[OF icore_run_ok[OF assms(1-4)]] assms(8,7,5,6)]
  by (simp add: icore_emitted_def icore_pending_def)

lemma init_host:
  assumes "altera_avalon_jtag_uart_init b ic irq isr timeout_routine sp alarm (jtag_uart_state base isys tsys d) = returns s"
  shows "host_inactive s = 0" and "0 < timeout s"
  using assms by (auto simp: altera_avalon_jtag_uart_init_def and_then_returns_iff Let_def write_control_def
      jtag_uart_state_def DEFAULT_TIMEOUT_def INT_MAX_def split: if_splits)

lemma blocking_write_close_witness:
  "\<exists>s s' s''. two_bytes_init = returns s \<and>
    fast_write (icore_bus 0x41048) (altera_avalon_jtag_uart_irq (icore_bus 0x41048)) (replicate 3000 65) 3000 0 s =
      returns (3000, s') \<and>
    altera_avalon_jtag_uart_close (altera_avalon_jtag_uart_irq (icore_bus 0x41048)) 0 s' = returns (0, s'') \<and>
    host_log (uart s'') @ tx_fifo (uart s'') = replicate 3000 65 \<and>
    rx_queue s'' @ map snd (rx_script (uart s'')) = [65, 66]"
proof -
  obtain s where s: "two_bytes_init = returns s" using two_bytes_init_returns by blast
  note i = s[unfolded two_bytes_init_def]
  note start = fast_run.stop[of "icore_bus 0x41048" "fast_start s"]
  have drv: "drv (fast_start s) = s" by (simp add: fast_start_def)
  have d: "length (tx_fifo two_bytes) \<le> 64" "core_ie two_bytes = 0" by (simp_all add: two_bytes_def)
  note streams = icore.ok_parts(4)[OF icore_run_ok[OF d i start], unfolded streams_ok_def drv]
  from blocking_write_close[OF d i start, unfolded drv, OF init_host[OF i], of 0 "replicate 3000 65"] streams
  show ?thesis using s
    by (auto simp: icore_emitted_def icore_pending_def fast_start_def two_bytes_def)
qed

end
