(* ===== verification/Digits.thy ===== *)
theory Digits
  imports CBase
begin

text \<open>
  Numerals in a base, the specification of what the printing routines emit: the digits of a number,
  the number a list of digits stands for, and the digits at given places, which is what the code
  computes.
\<close>

fun digits :: "nat \<Rightarrow> nat \<Rightarrow> nat list" where
  "digits b n = (if n < b \<or> b < 2 then [n] else digits b (n div b) @ [n mod b])"

declare digits.simps [simp del]

definition value_of :: "nat \<Rightarrow> nat list \<Rightarrow> nat" where
  "value_of b ds = foldl (\<lambda>a d. a * b + d) 0 ds"

text \<open>The digits at the places \<open>k - 1\<close> down to 0.\<close>

definition places :: "nat \<Rightarrow> nat \<Rightarrow> nat \<Rightarrow> nat list" where
  "places b k n = map (\<lambda>i. n div b ^ i mod b) (rev [0..<k])"

lemma places_0 [simp]: "places b 0 n = []"
  by (simp add: places_def)

lemma places_Suc: "places b (Suc k) n = n div b ^ k mod b # places b k n"
  by (simp add: places_def)

lemma length_places [simp]: "length (places b k n) = k"
  by (simp add: places_def)

lemma places_snoc: "places b (Suc k) n = places b k (n div b) @ [n mod b]"
proof (induction k)
  case (Suc k)
  have "places b (Suc (Suc k)) n = n div b ^ Suc k mod b # places b k (n div b) @ [n mod b]"
    using Suc by (simp only: places_Suc[of b "Suc k"])
  moreover have "n div b ^ Suc k = n div b div b ^ k" by (simp add: div_mult2_eq)
  ultimately show ?case by (simp only: places_Suc[of b k "n div b"] append_Cons)
qed (simp add: places_def)

lemma places_mod: "places b k (n mod b ^ k) = places b k n"
proof -
  have "n mod b ^ k div b ^ i mod b = n div b ^ i mod b" if lt: "i < k" for i
  proof -
    obtain j where "k = i + Suc j" using less_imp_Suc_add[OF lt] by auto
    then have k: "b ^ k = b ^ i * (b * b ^ j)" by (simp only: power_add power_Suc)
    show ?thesis
    proof (cases "b = 0")
      case False
      have "n mod b ^ k = b ^ i * (n div b ^ i mod (b * b ^ j)) + n mod b ^ i"
        unfolding k by (rule mod_mult2_eq)
      then have "n mod b ^ k div b ^ i = n div b ^ i mod (b * b ^ j)" using False by simp
      then show ?thesis by (simp add: mod_mod_cancel)
    qed (use that in \<open>simp add: power_0_left\<close>)
  qed
  then show ?thesis by (auto simp: places_def)
qed

lemma digits_places:
  "2 \<le> b \<Longrightarrow> b ^ k \<le> n \<Longrightarrow> n < b ^ Suc k \<Longrightarrow> digits b n = places b (Suc k) n"
proof (induction k arbitrary: n)
  case 0
  then show ?case by (simp add: digits.simps[of b n] places_def)
next
  case (Suc k)
  have "b \<le> n"
  proof -
    have "b ^ 1 \<le> b ^ Suc k" using Suc.prems(1) by (intro power_increasing) auto
    then show ?thesis using Suc.prems(2) by (metis order_trans power_one_right)
  qed
  moreover have "b ^ k \<le> n div b"
    using Suc.prems(1,2) by (simp add: less_eq_div_iff_mult_less_eq mult.commute)
  moreover have "n div b < b ^ Suc k"
    using Suc.prems(1,3) by (simp add: div_less_iff_less_mult mult.commute)
  ultimately show ?case
    using Suc.IH[of "n div b"] Suc.prems(1) by (simp add: digits.simps[of b n] places_snoc[of b "Suc k"])
qed

lemma digits_small: "n < b \<Longrightarrow> digits b n = [n]"
  by (simp add: digits.simps)

text \<open>Reading the digits back.\<close>

lemma value_of_snoc: "value_of b (ds @ [d]) = value_of b ds * b + d"
  by (simp add: value_of_def)

lemma value_of_digits: "value_of b (digits b n) = n"
proof (induction b n rule: digits.induct)
  case (1 b n)
  then show ?case by (cases "n < b \<or> b < 2") (auto simp: digits.simps[of b n] value_of_snoc value_of_def[of b "[n]"])
qed

lemma digits_range: "2 \<le> b \<Longrightarrow> d \<in> set (digits b n) \<Longrightarrow> d < b"
proof (induction b n rule: digits.induct)
  case (1 b n)
  then show ?case by (cases "n < b") (auto simp: digits.simps[of b n])
qed

lemma digits_nonempty: "digits b n \<noteq> []"
  by (subst digits.simps) auto

text \<open>There is a place that the number reaches.\<close>

lemma reaches_place:
  fixes b n :: nat
  assumes "2 \<le> b" and "0 < n"
  obtains k where "b ^ k \<le> n" "n < b ^ Suc k"
proof -
  define k where "k = (LEAST k. n < b ^ Suc k)"
  have "n < 2 ^ n" by (rule less_exp)
  also have "\<dots> \<le> b ^ n" using assms(1) by (rule power_mono) simp
  also have "\<dots> \<le> b ^ Suc n" using assms(1) by (intro power_increasing) auto
  finally have u: "n < b ^ Suc k" unfolding k_def by (rule LeastI)
  have "b ^ k \<le> n"
  proof (cases k)
    case (Suc j)
    then have "\<not> n < b ^ Suc j" unfolding k_def using not_less_Least by (metis lessI)
    then show ?thesis using Suc by simp
  qed (use assms(2) in simp)
  then show ?thesis using u that by blast
qed

end
