(* ===== verification/Print.thy ===== *)
theory Print
  imports Jtag Digits
begin

text \<open>
  The small printing routines of the HAL: alt_printf (alt_printf.c), which puts characters with
  alt_putchar, and the logger (alt_log_printf.c), which polls the JTAG UART itself.  A C string
  is the list of its bytes without the final NUL, a format with its variable arguments is a
  list of bytes and a list of arguments; taking an argument that is not there or of
  another kind is undefined.
\<close>

section \<open>Characters and arguments\<close>

definition str :: "string \<Rightarrow> u8 list" where "str s = map of_char s"

definition ch :: "char \<Rightarrow> u8" where "ch c = of_char c"

datatype arg = Int_arg cint | Str_arg "u8 list"

definition va_int :: "arg list \<Rightarrow> (cint \<times> arg list) outcome" where
  "va_int args = (case args of Int_arg v # r \<Rightarrow> returns (v, r) | _ \<Rightarrow> undefined_run)"

definition va_str :: "arg list \<Rightarrow> (u8 list \<times> arg list) outcome" where
  "va_str args = (case args of Str_arg s # r \<Rightarrow> returns (s, r) | _ \<Rightarrow> undefined_run)"

text \<open>\<open>while (*s) put (*s++)\<close>; a \<open>char\<close> becomes an \<open>int\<close> with its sign.\<close>

fun put_all :: "(cint \<Rightarrow> 'd \<Rightarrow> 'd outcome) \<Rightarrow> u8 list \<Rightarrow> 'd \<Rightarrow> 'd outcome" where
  "put_all put [] d = returns d"
| "put_all put (c # s) d = and_then (put (scast c) d) (put_all put s)"

section \<open>alt_printf\<close>

text \<open>The place of the first digit that is not zero; below place 0 the shift is undefined.\<close>

fun first_digit :: "cint \<Rightarrow> nat \<Rightarrow> nat outcome" where
  "first_digit v digit_shift =
     (if v AND push_bit digit_shift 0xF \<noteq> 0 then returns digit_shift
      else if digit_shift < 4 then undefined_run else first_digit v (digit_shift - 4))"

declare first_digit.simps [simp del]

definition hex_char :: "cint \<Rightarrow> u8" where
  "hex_char digit = (if digit \<le> 9 then ch CHR ''0'' + ucast digit else ch CHR ''a'' + ucast digit - 10)"

fun put_hex :: "(cint \<Rightarrow> 'd \<Rightarrow> 'd outcome) \<Rightarrow> cint \<Rightarrow> nat \<Rightarrow> 'd \<Rightarrow> 'd outcome" where
  "put_hex put v digit_shift d =
     and_then (put (scast (hex_char (drop_bit digit_shift (v AND push_bit digit_shift 0xF)))) d) (\<lambda>d.
       if digit_shift < 4 then returns d else put_hex put v (digit_shift - 4) d)"

declare put_hex.simps [simp del]

definition put_hex_number :: "(cint \<Rightarrow> 'd \<Rightarrow> 'd outcome) \<Rightarrow> cint \<Rightarrow> 'd \<Rightarrow> 'd outcome" where
  "put_hex_number put v d =
     (if v = 0 then put (scast (ch CHR ''0'')) d
      else and_then (first_digit v 28) (\<lambda>digit_shift. put_hex put v digit_shift d))"

fun alt_printf :: "(cint \<Rightarrow> 'd \<Rightarrow> 'd outcome) \<Rightarrow> u8 list \<Rightarrow> arg list \<Rightarrow> 'd \<Rightarrow> 'd outcome" where
  "alt_printf put [] args d = returns d"
| "alt_printf put [c] args d = (if c \<noteq> ch CHR ''%'' then put (scast c) d else returns d)"
| "alt_printf put (c # c' # w) args d =
     (if c \<noteq> ch CHR ''%'' then and_then (put (scast c) d) (alt_printf put (c' # w) args)
      else if c' = ch CHR ''%'' then and_then (put (scast c') d) (alt_printf put w args)
      else if c' = ch CHR ''c'' then
        and_then (va_int args) (\<lambda>(v, args). and_then (put v d) (alt_printf put w args))
      else if c' = ch CHR ''x'' then
        and_then (va_int args) (\<lambda>(v, args). and_then (put_hex_number put v d) (alt_printf put w args))
      else if c' = ch CHR ''s'' then
        and_then (va_str args) (\<lambda>(s, args). and_then (put_all put s d) (alt_printf put w args))
      else alt_printf put w args d)"

text \<open>With direct drivers alt_putchar writes one byte with the driver; otherwise it is newlib's.\<close>

definition alt_putchar :: "'d bus \<Rightarrow> cint \<Rightarrow> cint \<Rightarrow> 'd \<Rightarrow> (cint \<times> 'd) outcome" where
  "alt_putchar b base c d =
     (let c1 = ucast (c AND 0xff)
      in and_then (altera_avalon_jtag_uart_write b base [c1] 1 0 d) (\<lambda>(rc, d).
         returns (if rc = - 1 then - 1 else c, d)))"

definition alt_putstr :: "'d bus \<Rightarrow> cint \<Rightarrow> u8 list \<Rightarrow> 'd \<Rightarrow> (cint \<times> 'd) outcome" where
  "alt_putstr b base s d = altera_avalon_jtag_uart_write b base (s @ [0]) (of_nat (length s)) 0 d"

definition putchar_direct :: "'d bus \<Rightarrow> cint \<Rightarrow> cint \<Rightarrow> 'd \<Rightarrow> 'd outcome" where
  "putchar_direct b base c d = and_then (alt_putchar b base c d) (\<lambda>(rc, d). returns d)"

section \<open>The logger\<close>

partial_function (option) alt_log_txchar :: "'d bus \<Rightarrow> cint \<Rightarrow> cint \<Rightarrow> 'd \<Rightarrow> 'd outcome" where
  "alt_log_txchar b base c d =
     (case IORD_CONTROL b base d of (v, d) \<Rightarrow>
        if v AND CONTROL_WSPACE_MSK = 0 then alt_log_txchar b base c d
        else returns (IOWR_DATA b base c d))"

text \<open>\<open>r\<close> is an \<open>int\<close>; nothing is printed when it is not positive.\<close>

fun repeat_put :: "(cint \<Rightarrow> 'd \<Rightarrow> 'd outcome) \<Rightarrow> u8 \<Rightarrow> nat \<Rightarrow> 'd \<Rightarrow> 'd outcome" where
  "repeat_put put c 0 d = returns d"
| "repeat_put put c (Suc r) d = and_then (put (scast c) d) (repeat_put put c r)"

definition alt_log_repchar :: "'d bus \<Rightarrow> cint \<Rightarrow> u8 \<Rightarrow> int \<Rightarrow> 'd \<Rightarrow> 'd outcome" where
  "alt_log_repchar b base c r d = repeat_put (alt_log_txchar b base) c (nat r) d"

datatype pf_state = State_chars | State_firstFmtChar | State_otherFmtChar

record log_fmt =
  pf_at :: pf_state
  fmtLeadingZero :: bool
  fmtLong :: bool
  fmtBeforeDecimal :: int
  fmtAfterDecimal :: int
  fmtBase :: cint
  fmtSigned :: bool
  fmtCase :: bool

definition log_fmt_start :: log_fmt where
  "log_fmt_start = \<lparr>pf_at = State_chars, fmtLeadingZero = False, fmtLong = False, fmtBeforeDecimal = 0,
     fmtAfterDecimal = 0, fmtBase = 0, fmtSigned = False, fmtCase = False\<rparr>"

text \<open>The biggest power of the base, and the number of digits.\<close>

partial_function (option) count_digits :: "cint \<Rightarrow> cint \<Rightarrow> cint \<Rightarrow> int \<Rightarrow> (cint \<times> int) outcome" where
  "count_digits base vShrink p digitCount =
     (let vShrink = vShrink div base
      in if 0 < vShrink then count_digits base vShrink (p * base) (digitCount + 1)
         else returns (p, digitCount))"

definition log_digit :: "bool \<Rightarrow> cint \<Rightarrow> u8" where
  "log_digit upper q =
     (let d = ucast q + ch CHR ''0''
      in if ch CHR ''9'' < d then d + ((if upper then ch CHR ''A'' else ch CHR ''a'') - ch CHR ''0'' - 10) else d)"

text \<open>\<open>d\<close> is an \<open>unsigned char\<close> here.\<close>

partial_function (option) put_places :: "(cint \<Rightarrow> 'd \<Rightarrow> 'd outcome) \<Rightarrow> bool \<Rightarrow> cint \<Rightarrow> cint \<Rightarrow> cint \<Rightarrow> 'd \<Rightarrow> 'd outcome" where
  "put_places put upper base v p d =
     (if p \<noteq> 0 then
        and_then (put (ucast (log_digit upper (v div p))) d) (\<lambda>d. put_places put upper base (v mod p) (p div base) d)
      else returns d)"

definition log_integer :: "'d bus \<Rightarrow> cint \<Rightarrow> log_fmt \<Rightarrow> cint \<Rightarrow> 'd \<Rightarrow> 'd outcome" where
  "log_integer b base f v d =
     (let put = alt_log_txchar b base;
          sign = fmtSigned f \<and> v AND 0x80000000 \<noteq> 0;
          v = (if sign then NOT v + 1 else v)
      in and_then (count_digits (fmtBase f) v 1 1) (\<lambda>(p, digitCount).
         (let before = fmtBeforeDecimal f - digitCount
          in and_then
               (if fmtLeadingZero f then
                  and_then (if sign then put (scast (ch CHR ''-'')) d else returns d)
                    (alt_log_repchar b base (ch CHR ''0'') (if sign then before - 1 else before))
                else
                  and_then (alt_log_repchar b base (ch CHR '' '') (if sign then before - 1 else before) d)
                    (\<lambda>d. if sign then put (scast (ch CHR ''-'')) d else returns d))
               (put_places put (fmtCase f) (fmtBase f) v p))))"

text \<open>A letter ends the conversion; an unknown one prints nothing.\<close>

definition log_letter :: "'d bus \<Rightarrow> cint \<Rightarrow> u8 \<Rightarrow> log_fmt \<Rightarrow> arg list \<Rightarrow> 'd \<Rightarrow> (log_fmt \<times> arg list \<times> 'd) outcome" where
  "log_letter b base c f args d =
     (let ends = f\<lparr>pf_at := State_chars\<rparr>;
          int_print = (\<lambda>f. and_then (va_int args) (\<lambda>(v, args).
            and_then (log_integer b base f v d) (\<lambda>d. returns (f\<lparr>pf_at := State_chars\<rparr>, args, d))))
      in if c = ch CHR ''d'' \<or> c = ch CHR ''i'' then int_print f
         else if c = ch CHR ''u'' then int_print (f\<lparr>fmtSigned := False\<rparr>)
         else if c = ch CHR ''o'' then int_print (f\<lparr>fmtSigned := False, fmtBase := 8\<rparr>)
         else if c = ch CHR ''x'' then int_print (f\<lparr>fmtSigned := False, fmtBase := 16\<rparr>)
         else if c = ch CHR ''X'' then int_print (f\<lparr>fmtSigned := False, fmtBase := 16, fmtCase := True\<rparr>)
         else if c = ch CHR ''c'' then
           and_then (alt_log_repchar b base (ch CHR '' '') (fmtBeforeDecimal f - 1) d) (\<lambda>d.
           and_then (va_int args) (\<lambda>(v, args).
           and_then (alt_log_txchar b base v d) (\<lambda>d. returns (ends, args, d))))
         else if c = ch CHR ''s'' then
           and_then (va_str args) (\<lambda>(s, args).
           and_then (alt_log_repchar b base (ch CHR '' '') (fmtBeforeDecimal f - int (length s)) d) (\<lambda>d.
           and_then (put_all (alt_log_txchar b base) s d) (\<lambda>d. returns (ends, args, d))))
         else returns (ends, args, d))"

text \<open>A width that exceeds \<open>int\<close> is undefined.\<close>

definition c_int :: "int \<Rightarrow> int outcome" where
  "c_int x = (if x < 2 ^ 31 then returns x else undefined_run)"

definition log_other :: "'d bus \<Rightarrow> cint \<Rightarrow> u8 \<Rightarrow> log_fmt \<Rightarrow> arg list \<Rightarrow> 'd \<Rightarrow> (log_fmt \<times> arg list \<times> 'd) outcome" where
  "log_other b base c f args d =
     (if c = ch CHR ''.'' then returns (f\<lparr>fmtAfterDecimal := 0\<rparr>, args, d)
      else if ch CHR ''0'' \<le> c \<and> c \<le> ch CHR ''9'' then
        (let n = uint (c - ch CHR ''0'')
         in if fmtAfterDecimal f < 0 then
              and_then (c_int ((if fmtBeforeDecimal f < 0 then 0 else fmtBeforeDecimal f * 10) + n)) (\<lambda>x.
                returns (f\<lparr>fmtBeforeDecimal := x\<rparr>, args, d))
            else
              and_then (c_int (fmtAfterDecimal f * 10 + n)) (\<lambda>x. returns (f\<lparr>fmtAfterDecimal := x\<rparr>, args, d)))
      else if c = ch CHR ''l'' then returns (f\<lparr>fmtLong := True\<rparr>, args, d)
      else log_letter b base c f args d)"

definition log_char :: "'d bus \<Rightarrow> cint \<Rightarrow> u8 \<Rightarrow> log_fmt \<Rightarrow> arg list \<Rightarrow> 'd \<Rightarrow> (log_fmt \<times> arg list \<times> 'd) outcome" where
  "log_char b base c f args d =
     (case pf_at f of
        State_chars \<Rightarrow>
          if c = ch CHR ''%'' then
            returns (f\<lparr>fmtLeadingZero := False, fmtLong := False, fmtBase := 10, fmtSigned := True, fmtCase := False,
              fmtBeforeDecimal := - 1, fmtAfterDecimal := - 1, pf_at := State_firstFmtChar\<rparr>, args, d)
          else and_then (alt_log_txchar b base (scast c) d) (\<lambda>d. returns (f, args, d))
      | State_firstFmtChar \<Rightarrow>
          if c = ch CHR ''0'' then returns (f\<lparr>fmtLeadingZero := True, pf_at := State_otherFmtChar\<rparr>, args, d)
          else if c = ch CHR ''%'' then
            and_then (alt_log_txchar b base (scast c) d) (\<lambda>d. returns (f\<lparr>pf_at := State_chars\<rparr>, args, d))
          else log_other b base c (f\<lparr>pf_at := State_otherFmtChar\<rparr>) args d
      | State_otherFmtChar \<Rightarrow> log_other b base c f args d)"

fun log_loop :: "'d bus \<Rightarrow> cint \<Rightarrow> u8 list \<Rightarrow> log_fmt \<Rightarrow> arg list \<Rightarrow> 'd \<Rightarrow> 'd outcome" where
  "log_loop b base [] f args d = returns d"
| "log_loop b base (c # w) f args d =
     and_then (log_char b base c f args d) (\<lambda>(f, args, d). log_loop b base w f args d)"

definition alt_log_private_printf :: "'d bus \<Rightarrow> u8 list \<Rightarrow> cint \<Rightarrow> arg list \<Rightarrow> 'd \<Rightarrow> 'd outcome" where
  "alt_log_private_printf b fmt base args d = log_loop b base fmt log_fmt_start args d"

definition alt_log_printf_proc :: "'d bus \<Rightarrow> cint \<Rightarrow> u8 list \<Rightarrow> arg list \<Rightarrow> 'd \<Rightarrow> (cint \<times> 'd) outcome" where
  "alt_log_printf_proc b port fmt args d = and_then (alt_log_private_printf b fmt port args d) (\<lambda>d. returns (0, d))"

section \<open>What the drivers log\<close>

text \<open>The flags and counters of the logger, its buffer, and the device.\<close>

record 'd log_sys =
  alt_log_write_on_flag :: u8
  alt_log_sys_clk_on_flag :: u8
  alt_log_jtag_uart_alarm_on_flag :: u8
  alt_log_jtag_uart_isr_on_flag :: u8
  alt_log_sys_clk_count :: cint
  alt_system_clock_in_sec :: cint
  alt_log_write_buf :: "u8 list"
  log_dev :: 'd

definition ALT_LOG_WRITE_ECHO_LEN :: nat where "ALT_LOG_WRITE_ECHO_LEN = 15"
definition ALT_LOG_JTAG_UART_TICKS_DIVISOR :: cint where "ALT_LOG_JTAG_UART_TICKS_DIVISOR = 10"
definition ALT_LOG_SYS_CLK_INTERVAL_MULTIPLIER :: cint where "ALT_LOG_SYS_CLK_INTERVAL_MULTIPLIER = 1"

definition crlf :: "u8 list" where "crlf = [13, 10]"

text \<open>\<open>ALT_LOG_PRINTF\<close>.\<close>

definition log_print :: "'d bus \<Rightarrow> cint \<Rightarrow> u8 list \<Rightarrow> arg list \<Rightarrow> 'd log_sys \<Rightarrow> 'd log_sys outcome" where
  "log_print b port fmt args s =
     and_then (alt_log_printf_proc b port fmt args (log_dev s)) (\<lambda>(rc, d). returns (s\<lparr>log_dev := d\<rparr>))"

text \<open>The message of the polled driver's configuration; the other one shows the circular buffer first.\<close>

definition alt_log_jtag_uart_print_control_reg ::
  "'d bus \<Rightarrow> cint \<Rightarrow> cint \<Rightarrow> u8 list \<Rightarrow> 'd log_sys \<Rightarrow> 'd log_sys outcome" where
  "alt_log_jtag_uart_print_control_reg b port base header s =
     (case IORD_CONTROL b base (log_dev s) of (control, d) \<Rightarrow>
        (let space = drop_bit CONTROL_WSPACE_OFST (control AND CONTROL_WSPACE_MSK);
             we = drop_bit 1 (control AND CONTROL_WE_MSK);
             re = drop_bit 0 (control AND CONTROL_RE_MSK);
             ri = drop_bit 8 (control AND CONTROL_RI_MSK);
             wi = drop_bit 9 (control AND CONTROL_WI_MSK);
             ac = drop_bit 10 (control AND CONTROL_AC_MSK)
         in log_print b port (str ''%s HW FIFO wspace=%d AC=%d WI=%d RI=%d WE=%d RE=%d'' @ crlf)
              [Str_arg header, Int_arg space, Int_arg ac, Int_arg wi, Int_arg ri, Int_arg we, Int_arg re]
              (s\<lparr>log_dev := d\<rparr>)))"

definition altera_avalon_jtag_uart_report_log ::
  "'d bus \<Rightarrow> cint \<Rightarrow> cint \<Rightarrow> cint \<Rightarrow> 'd log_sys \<Rightarrow> (cint \<times> 'd log_sys) outcome" where
  "altera_avalon_jtag_uart_report_log b port base ticks_per_second s =
     (if alt_log_jtag_uart_alarm_on_flag s \<noteq> 0 then
        and_then (alt_log_jtag_uart_print_control_reg b port base (str ''JTAG Alarm:'') s) (\<lambda>s.
          returns (ticks_per_second div ALT_LOG_JTAG_UART_TICKS_DIVISOR, s))
      else returns (0, s))"

definition alt_log_jtag_uart_startup_info :: "'d bus \<Rightarrow> cint \<Rightarrow> cint \<Rightarrow> 'd log_sys \<Rightarrow> 'd log_sys outcome" where
  "alt_log_jtag_uart_startup_info b port base s =
     alt_log_jtag_uart_print_control_reg b port base (str ''JTAG Startup Info:'') s"

definition alt_log_jtag_uart_isr_proc :: "'d bus \<Rightarrow> cint \<Rightarrow> cint \<Rightarrow> 'd log_sys \<Rightarrow> 'd log_sys outcome" where
  "alt_log_jtag_uart_isr_proc b port base s =
     (if alt_log_jtag_uart_isr_on_flag s \<noteq> 0 then
        alt_log_jtag_uart_print_control_reg b port base (str ''JTAG IRQ:'') s
      else returns s)"

text \<open>\<open>strncpy\<close> stops at a NUL and fills up with NULs.\<close>

definition c_strncpy :: "u8 list \<Rightarrow> nat \<Rightarrow> u8 list" where
  "c_strncpy src n = (let s = takeWhile (\<lambda>c. c \<noteq> 0) (take n src) in s @ replicate (n - length s) 0)"

definition alt_log_write :: "'d bus \<Rightarrow> cint \<Rightarrow> u8 list \<Rightarrow> nat \<Rightarrow> 'd log_sys \<Rightarrow> 'd log_sys outcome" where
  "alt_log_write b port ptr len s =
     (if alt_log_write_on_flag s \<noteq> 0 then
        (let length' = (if len < ALT_LOG_WRITE_ECHO_LEN then len else ALT_LOG_WRITE_ECHO_LEN)
         in if length' < 2 then returns s
            else
              (let buf = c_strncpy ptr length' @ drop length' (alt_log_write_buf s)
               in and_then (defined_or_trap (arr_set buf (length' - 1) 10)) (\<lambda>buf.
                  and_then (defined_or_trap (arr_set buf length' 13)) (\<lambda>buf.
                  and_then (defined_or_trap (arr_set buf (length' + 1) 0)) (\<lambda>buf.
                  (let buf = map (\<lambda>c. if c = 4 then ch CHR ''D'' else c) (take length' buf) @ drop length' buf
                   in log_print b port (str ''Write Echo: %s'') [Str_arg (takeWhile (\<lambda>c. c \<noteq> 0) buf)]
                        (s\<lparr>alt_log_write_buf := buf\<rparr>)))))))
      else returns s)"

text \<open>Both counters are \<open>int\<close>.\<close>

definition alt_log_system_clock :: "'d bus \<Rightarrow> cint \<Rightarrow> cint \<Rightarrow> 'd log_sys \<Rightarrow> 'd log_sys outcome" where
  "alt_log_system_clock b port ticks_per_second s =
     (if alt_log_sys_clk_on_flag s \<noteq> 0 then
        (let s = s\<lparr>alt_log_sys_clk_count := alt_log_sys_clk_count s + 1\<rparr>
         in if ticks_per_second * ALT_LOG_SYS_CLK_INTERVAL_MULTIPLIER < alt_log_sys_clk_count s then
              (let n = alt_system_clock_in_sec s;
                   s = s\<lparr>alt_log_sys_clk_count := 0, alt_system_clock_in_sec := n + 1\<rparr>
               in log_print b port (str ''System Clock On %u'' @ crlf) [Int_arg n] s)
            else returns s)
      else returns s)"

end
