(* ===== verification/Print_Proof.thy ===== *)
theory Print_Proof
  imports Print
begin

text \<open>
  What the printing routines print.  The specification is a list of items, each with the format
  it stands for, its arguments and its text; numbers are written with the digits of Digits.
\<close>

section \<open>Printing as a relation\<close>

definition prints :: "('d \<Rightarrow> bool) \<Rightarrow> ('d \<Rightarrow> u8 list) \<Rightarrow> ('d \<Rightarrow> 'd outcome) \<Rightarrow> u8 list \<Rightarrow> bool" where
  "prints ready emitted f text \<longleftrightarrow>
     (\<forall>d. ready d \<longrightarrow> (\<exists>d'. f d = returns d' \<and> ready d' \<and> emitted d' = emitted d @ text))"

lemma prints_nothing [simp]: "prints ready emitted returns []"
  by (simp add: prints_def)

lemma prints_seq:
  assumes "prints ready emitted f s" and "prints ready emitted g t"
  shows "prints ready emitted (\<lambda>d. and_then (f d) g) (s @ t)"
  unfolding prints_def
proof (intro allI impI)
  fix d assume "ready d"
  then obtain d1 where "f d = returns d1" "ready d1" "emitted d1 = emitted d @ s" using assms(1) by (auto simp: prints_def)
  moreover from this obtain d2 where "g d1 = returns d2" "ready d2" "emitted d2 = emitted d1 @ t"
    using assms(2) by (auto simp: prints_def)
  ultimately show "\<exists>d'. and_then (f d) g = returns d' \<and> ready d' \<and> emitted d' = emitted d @ (s @ t)" by simp
qed

lemma prints_seq_fun:
  assumes "prints ready emitted f s" and "prints ready emitted g t" and "\<And>d. h d = and_then (f d) g"
  shows "prints ready emitted h (s @ t)"
  using prints_seq[OF assms(1,2)] assms(3) by (simp add: prints_def)

lemma prints_cons:
  assumes "prints ready emitted f [c]" and "prints ready emitted g t" and "\<And>d. h d = and_then (f d) g"
  shows "prints ready emitted h (c # t)"
  using prints_seq_fun[OF assms] by (simp only: append.simps)

lemma ucast_ucast_u8: "ucast (ucast c :: cint) = (c :: u8)"
  by (rule word_eqI_bits) (simp add: bit_unsigned_iff)

lemma prints_fun: "prints ready emitted f s \<Longrightarrow> (\<And>d. h d = f d) \<Longrightarrow> prints ready emitted h s"
  by (simp add: prints_def)

text \<open>The interface: a routine that puts one character.\<close>

locale char_out =
  fixes put :: "cint \<Rightarrow> 'd \<Rightarrow> 'd outcome" and ready :: "'d \<Rightarrow> bool" and emitted :: "'d \<Rightarrow> u8 list"
  assumes put_prints: "prints ready emitted (put c) [ucast c]"
begin

abbreviation pr :: "('d \<Rightarrow> 'd outcome) \<Rightarrow> u8 list \<Rightarrow> bool" where
  "pr \<equiv> prints ready emitted"

lemma put_u8: "pr (put (scast (c :: u8))) [c]"
  using put_prints[of "scast c"] by (simp add: ucast_scast_u8)

lemma put_u8_plain: "pr (put (ucast (c :: u8))) [c]"
  using put_prints[of "ucast c"] by (simp only: ucast_ucast_u8)

lemma put_all_prints: "pr (put_all put s) s"
proof (induction s)
  case (Cons c s)
  show ?case by (rule prints_cons[OF put_u8 Cons.IH]) simp
qed (simp add: prints_def)

lemma repeat_put_prints: "pr (repeat_put put c r) (replicate r c)"
proof (induction r)
  case (Suc r)
  show ?case unfolding replicate_Suc by (rule prints_cons[OF put_u8 Suc.IH]) simp
qed (simp add: prints_def)

end

section \<open>Digits as characters\<close>

definition digit_char :: "bool \<Rightarrow> nat \<Rightarrow> u8" where
  "digit_char upper k = (if k \<le> 9 then ch CHR ''0'' + of_nat k
     else (if upper then ch CHR ''A'' else ch CHR ''a'') + of_nat k - 10)"

definition numeral_text :: "bool \<Rightarrow> nat \<Rightarrow> nat \<Rightarrow> u8 list" where
  "numeral_text upper b n = map (digit_char upper) (digits b n)"

lemma digit_char_all:
  "list_all (\<lambda>k. hex_char (of_nat k) = digit_char False k \<and> log_digit False (of_nat k) = digit_char False k \<and>
     log_digit True (of_nat k) = digit_char True k) [0..<16]"
  by code_simp

lemma digit_chars:
  fixes q :: cint
  assumes "unat q < 16"
  shows "hex_char q = digit_char False (unat q)" and "log_digit upper q = digit_char upper (unat q)"
proof -
  have q: "of_nat (unat q) = q" by simp
  have "unat q \<in> set [0..<16]" using assms by simp
  then have "hex_char (of_nat (unat q)) = digit_char False (unat q) \<and> log_digit False (of_nat (unat q)) = digit_char False (unat q) \<and>
      log_digit True (of_nat (unat q)) = digit_char True (unat q)"
    using digit_char_all unfolding list_all_iff by blast
  then show "hex_char q = digit_char False (unat q)" and "log_digit upper q = digit_char upper (unat q)"
    unfolding q by (cases upper; simp)+
qed

section \<open>Hexadecimal digits with shifts\<close>

lemma nibble:
  fixes v :: cint
  assumes "s \<le> 28"
  shows "drop_bit s (v AND push_bit s 0xF) = take_bit 4 (drop_bit s v)"
    and "v AND push_bit s 0xF = 0 \<longleftrightarrow> unat v div 2 ^ s mod 16 = 0"
    and "unat (drop_bit s (v AND push_bit s 0xF)) = unat v div 2 ^ s mod 16"
proof -
  have m: "(0xF :: cint) = mask 4" by (simp add: mask_numeral)
  have d: "drop_bit s (v AND push_bit s 0xF) = take_bit 4 (drop_bit s v)"
    using assms by (intro word_eqI_bits)
      (auto simp: m bit_drop_bit_eq bit_and_iff bit_push_bit_iff bit_mask_iff bit_take_bit_iff)
  then show "drop_bit s (v AND push_bit s 0xF) = take_bit 4 (drop_bit s v)" .
  show u: "unat (drop_bit s (v AND push_bit s 0xF)) = unat v div 2 ^ s mod 16"
    unfolding d by (simp only: unsigned_take_bit_eq unat_drop_bit_eq) (simp add: take_bit_eq_mod drop_bit_eq_div)
  have "v AND push_bit s 0xF = push_bit s (drop_bit s (v AND push_bit s 0xF))"
    by (rule word_eqI_bits) (auto simp: bit_and_iff bit_push_bit_iff bit_drop_bit_eq)
  then have "v AND push_bit s 0xF = 0 \<longleftrightarrow> drop_bit s (v AND push_bit s 0xF) = 0" by (metis drop_bit_of_0 push_bit_of_0)
  then show "v AND push_bit s 0xF = 0 \<longleftrightarrow> unat v div 2 ^ s mod 16 = 0" by (simp only: u flip: unat_eq_0)
qed

lemma first_digit_reaches:
  "j \<le> 7 \<Longrightarrow> 16 ^ k \<le> unat v \<Longrightarrow> unat v < 16 ^ Suc k \<Longrightarrow> k \<le> j \<Longrightarrow> first_digit v (4 * j) = returns (4 * k)"
proof (induction j)
  case 0
  then have "v AND push_bit 0 0xF \<noteq> 0" using nibble(2)[of 0 v] by simp
  then show ?case using 0 by (simp add: first_digit.simps)
next
  case (Suc j)
  have p: "(2 :: nat) ^ (4 * Suc j) = 16 ^ Suc j" by (simp only: power_mult) simp
  have n: "v AND push_bit (4 * Suc j) 0xF = 0 \<longleftrightarrow> unat v div 16 ^ Suc j mod 16 = 0"
    using nibble(2)[of "4 * Suc j" v] Suc.prems(1) unfolding p by simp
  show ?case
  proof (cases "k = Suc j")
    case True
    then have "unat v div 16 ^ Suc j mod 16 \<noteq> 0"
      using Suc.prems(2,3) by (simp add: div_less_iff_less_mult div_eq_0_iff)
    then show ?thesis using n True by (subst first_digit.simps) simp
  next
    case False
    then have "k \<le> j" using Suc.prems(4) by simp
    then have "16 ^ Suc k \<le> (16 :: nat) ^ Suc j" by (intro power_increasing) auto
    then have "unat v < 16 ^ Suc j" using Suc.prems(3) by linarith
    then have "unat v div 16 ^ Suc j mod 16 = 0" by simp
    then show ?thesis using n Suc.IH Suc.prems(1,2,3) \<open>k \<le> j\<close> by (subst first_digit.simps) simp
  qed
qed

context char_out
begin

lemma put_hex_prints: "k \<le> 7 \<Longrightarrow> pr (put_hex put v (4 * k)) (map (digit_char False) (places 16 (Suc k) (unat v)))"
proof (induction k)
  case 0
  have "unat (drop_bit 0 (v AND push_bit 0 0xF)) = unat v mod 16" using nibble(3)[of 0 v] by simp
  then have "hex_char (drop_bit 0 (v AND push_bit 0 0xF)) = digit_char False (unat v mod 16)" by (subst digit_chars) simp_all
  then have "pr (put_hex put v 0) [digit_char False (unat v mod 16)]"
    by (intro prints_cons[OF put_u8 prints_nothing]) (subst put_hex.simps, simp)
  then show ?case by (simp add: places_def)
next
  case (Suc k)
  let ?s = "4 * Suc k"
  have p: "(2 :: nat) ^ ?s = 16 ^ Suc k" by (simp only: power_mult) simp
  have "unat (drop_bit ?s (v AND push_bit ?s 0xF)) = unat v div 16 ^ Suc k mod 16"
    using nibble(3)[of ?s v] Suc.prems unfolding p by simp
  then have h: "hex_char (drop_bit ?s (v AND push_bit ?s 0xF)) = digit_char False (unat v div 16 ^ Suc k mod 16)"
    by (subst digit_chars) simp_all
  have "pr (put_hex put v (4 * k)) (map (digit_char False) (places 16 (Suc k) (unat v)))" using Suc by simp
  moreover have "\<not> ?s < 4" "?s - 4 = 4 * k" by simp_all
  then have "put_hex put v ?s d = and_then (put (scast (digit_char False (unat v div 16 ^ Suc k mod 16))) d) (put_hex put v (4 * k))" for d
    by (subst put_hex.simps) (simp only: h if_False)
  ultimately show ?case unfolding places_Suc[of 16 "Suc k"] list.map by (rule prints_cons[OF put_u8])
qed

lemma put_hex_number_prints: "pr (put_hex_number put v) (numeral_text False 16 (unat v))"
proof (cases "v = 0")
  case True
  have "numeral_text False 16 0 = [ch CHR ''0'']" by (simp add: numeral_text_def digits_small digit_char_def)
  moreover have "pr (put_hex_number put 0) [ch CHR ''0'']"
    by (rule prints_fun[OF put_u8]) (simp only: put_hex_number_def simp_thms if_True)
  ultimately show ?thesis using True by (simp only: unat_0)
next
  case False
  then have pos: "0 < unat v" by (simp add: unat_gt_0)
  obtain k where k: "16 ^ k \<le> unat v" "unat v < 16 ^ Suc k" by (rule reaches_place[OF _ pos, of 16]) auto
  have "(16 :: nat) ^ k < 16 ^ 8" using k(1) unat_bound[of v] by simp
  then have "k < 8" by (rule power_less_imp_less_exp[rotated]) simp
  then have k7: "k \<le> 7" by simp
  have "first_digit v 28 = returns (4 * k)" using first_digit_reaches[of 7 k v] k k7 by simp
  then have "pr (put_hex_number put v) (map (digit_char False) (places 16 (Suc k) (unat v)))"
    using False by (intro prints_fun[OF put_hex_prints[OF k7]]) (simp only: put_hex_number_def if_False and_then_simps)
  moreover have "digits 16 (unat v) = places 16 (Suc k) (unat v)" by (rule digits_places[OF _ k]) simp
  ultimately show ?thesis by (simp only: numeral_text_def)
qed

end

section \<open>alt_printf\<close>

datatype item = Lit u8 | Percent | Chr cint | Hex cint | Text "u8 list"

fun item_ok :: "item \<Rightarrow> bool" where
  "item_ok (Lit c) \<longleftrightarrow> c \<noteq> ch CHR ''%'' \<and> c \<noteq> 0"
| "item_ok (Text s) \<longleftrightarrow> 0 \<notin> set s"
| "item_ok _ \<longleftrightarrow> True"

fun item_format :: "item \<Rightarrow> u8 list" where
  "item_format (Lit c) = [c]"
| "item_format Percent = str ''%%''"
| "item_format (Chr v) = str ''%c''"
| "item_format (Hex v) = str ''%x''"
| "item_format (Text s) = str ''%s''"

fun item_args :: "item \<Rightarrow> arg list" where
  "item_args (Lit c) = []"
| "item_args Percent = []"
| "item_args (Chr v) = [Int_arg v]"
| "item_args (Hex v) = [Int_arg v]"
| "item_args (Text s) = [Str_arg s]"

fun item_text :: "item \<Rightarrow> u8 list" where
  "item_text (Lit c) = [c]"
| "item_text Percent = str ''%''"
| "item_text (Chr v) = [ucast v]"
| "item_text (Hex v) = numeral_text False 16 (unat v)"
| "item_text (Text s) = s"

context char_out
begin

lemma alt_printf_lit: "c \<noteq> ch CHR ''%'' \<Longrightarrow> alt_printf put (c # w) args d = and_then (put (scast c) d) (alt_printf put w args)"
proof (cases w)
  case Nil
  have "and_then r returns = r" for r :: "'d outcome"
    by (auto simp: and_then_def returns_def split: option.split sum.split)
  moreover assume "c \<noteq> ch CHR ''%''"
  moreover have "alt_printf put [] args = returns" by (rule ext) simp
  ultimately show ?thesis using Nil by simp
qed simp

lemma percent_chars: "str ''%%'' = [ch CHR ''%'', ch CHR ''%'']" "str ''%c'' = [ch CHR ''%'', ch CHR ''c'']"
  "str ''%x'' = [ch CHR ''%'', ch CHR ''x'']" "str ''%s'' = [ch CHR ''%'', ch CHR ''s'']" "str ''%'' = [ch CHR ''%'']"
  by (simp_all add: str_def ch_def)

lemma letters_differ: "ch CHR ''c'' \<noteq> ch CHR ''%''" "ch CHR ''x'' \<noteq> ch CHR ''%''" "ch CHR ''s'' \<noteq> ch CHR ''%''"
  "ch CHR ''x'' \<noteq> ch CHR ''c''" "ch CHR ''s'' \<noteq> ch CHR ''c''" "ch CHR ''s'' \<noteq> ch CHR ''x''"
  by (simp_all add: ch_def)

lemma alt_printf_item:
  assumes "item_ok x" and "pr (alt_printf put w args) t"
  shows "pr (alt_printf put (item_format x @ w) (item_args x @ args)) (item_text x @ t)"
proof (cases x)
  case (Lit c)
  then show ?thesis using assms prints_seq_fun[OF put_u8[of c] assms(2)]
    by (auto simp: alt_printf_lit)
next
  case Percent
  show ?thesis unfolding Percent item_format.simps item_args.simps item_text.simps percent_chars
    by (rule prints_seq_fun[OF put_u8 assms(2)]) simp
next
  case (Chr v)
  show ?thesis unfolding Chr item_format.simps item_args.simps item_text.simps percent_chars
    by (rule prints_seq_fun[OF put_prints assms(2)]) (simp add: va_int_def letters_differ)
next
  case (Hex v)
  show ?thesis unfolding Hex item_format.simps item_args.simps item_text.simps percent_chars
    by (rule prints_seq_fun[OF put_hex_number_prints assms(2)]) (simp add: va_int_def letters_differ)
next
  case (Text s)
  show ?thesis unfolding Text item_format.simps item_args.simps item_text.simps percent_chars
    by (rule prints_seq_fun[OF put_all_prints assms(2)]) (simp add: va_str_def letters_differ)
qed

lemma alt_printf_items:
  "\<forall>x \<in> set xs. item_ok x \<Longrightarrow>
   pr (alt_printf put (concat (map item_format xs)) (concat (map item_args xs))) (concat (map item_text xs))"
proof (induction xs)
  case Nil
  then show ?case by (simp add: prints_def)
next
  case (Cons x xs)
  then show ?case using alt_printf_item[of x "concat (map item_format xs)" "concat (map item_args xs)"] by simp
qed

end

end
