(* ===== verification/Log_Proof.thy ===== *)
theory Log_Proof
  imports Print_Proof
begin

text \<open>
  What the logger prints: characters by polling, numbers in bases 8, 10 and 16 with sign, width
  and leading zeros, and the interpretations that put both printers on the JTAG UART.
\<close>

section \<open>Putting a character\<close>

context jtag_port
begin

lemma txchar_waits: "ready d \<Longrightarrow> \<exists>d'. alt_log_txchar b base c d = returns d' \<and> ready d' \<and> emitted d' = emitted d @ [ucast c]"
proof (induction "patience d" arbitrary: d rule: less_induct)
  case less
  obtain v d1 where r: "IORD_CONTROL b base d = (v, d1)" by fastforce
  show ?case
  proof (cases "v AND CONTROL_WSPACE_MSK = 0")
    case True
    then have "alt_log_txchar b base c d = alt_log_txchar b base c d1"
      using r by (subst alt_log_txchar.simps) simp
    then show ?thesis
      using less.hyps[of d1] control_keeps[OF less.prems r] host_reads[OF less.prems r True] by auto
  next
    case False
    then show ?thesis
      using r control_keeps[OF less.prems r] write_emits_byte[OF less.prems r False, of c]
      by (subst alt_log_txchar.simps) simp
  qed
qed

lemma putchar_direct_waits:
  assumes "ready d"
  shows "\<exists>d'. putchar_direct b base c d = returns d' \<and> ready d' \<and> emitted d' = emitted d @ [ucast c]"
proof -
  have "ucast (c AND 0xff) = (ucast c :: u8)"
    by (rule word_eqI_bits) (simp add: and_masks bit_unsigned_iff bit_take_bit_iff)
  moreover obtain d' where "small_write_loop b base [ucast (c AND 0xff)] 1 0 d = returns d'" "ready d'"
      "emitted d' = emitted d @ [ucast (c AND 0xff)]"
    using small_write_loop_emits[OF assms, of 0 1 "[ucast (c AND 0xff)]"] by auto
  ultimately show ?thesis
    by (simp add: putchar_direct_def alt_putchar_def altera_avalon_jtag_uart_write_def Let_def)
qed

end

sublocale jtag_port \<subseteq> logger: char_out "alt_log_txchar b base" ready emitted
  by unfold_locales (simp add: prints_def txchar_waits)

sublocale jtag_port \<subseteq> direct: char_out "putchar_direct b base" ready emitted
  by unfold_locales (simp add: prints_def putchar_direct_waits)

section \<open>Counting and printing digits\<close>

lemma unat_power:
  fixes base p :: cint
  assumes "unat p * unat base < 2 ^ 32"
  shows "unat (p * base) = unat p * unat base"
  using assms by (simp add: unat_word_ariths)

lemma count_digits_power:
  assumes "2 \<le> unat base"
  shows "unat base ^ k \<le> unat v \<or> k = 0 \<Longrightarrow> unat v < unat base ^ Suc k \<Longrightarrow> unat p * unat base ^ k < 2 ^ 32 \<Longrightarrow>
    \<exists>q. count_digits base v p n = returns (q, n + int k) \<and> unat q = unat p * unat base ^ k"
proof (induction k arbitrary: v p n)
  case 0
  then have "unat (v div base) = 0" by (simp add: unat_div)
  then have "v div base = 0" by (simp add: unat_eq_0)
  then show ?case by (subst count_digits.simps) simp
next
  case (Suc k)
  let ?B = "unat base"
  have B: "0 < ?B" using assms by simp
  have v: "?B ^ k \<le> unat (v div base)" "unat (v div base) < ?B ^ Suc k"
    using Suc.prems(1,2) B by (simp_all add: unat_div less_eq_div_iff_mult_less_eq div_less_iff_less_mult mult.commute)
  then have "0 < v div base" using B by (metis le_zero_eq linorder_not_less unat_0 word_gt_0 zero_less_power)
  then have step: "count_digits base v p n = count_digits base (v div base) (p * base) (n + 1)"
    by (subst count_digits.simps) simp
  have "?B ^ 1 \<le> ?B ^ Suc k" using B by (intro power_increasing) auto
  then have "unat p * ?B \<le> unat p * ?B ^ Suc k" by (metis mult_le_mono2 power_one_right)
  then have p: "unat (p * base) = unat p * ?B" using Suc.prems(3) by (intro unat_power) (rule le_less_trans)
  obtain q where "count_digits base (v div base) (p * base) (n + 1) = returns (q, n + 1 + int k)"
      "unat q = unat (p * base) * ?B ^ k"
    using Suc.IH[of "v div base" "p * base" "n + 1"] v Suc.prems(3) p by (auto simp: mult.assoc)
  then show ?case using step p by (simp add: mult.assoc add.assoc)
qed

context char_out
begin

lemma put_places_prints:
  assumes "2 \<le> unat base" and "unat base \<le> 16"
  shows "unat p = unat base ^ k \<Longrightarrow> unat v < unat base ^ Suc k \<Longrightarrow>
    pr (put_places put upper base v p) (map (digit_char upper) (places (unat base) (Suc k) (unat v)))"
proof (induction k arbitrary: v p)
  case 0
  then have p: "p \<noteq> 0" "v div p = v" "p div base = 0"
    using assms(1) by (auto simp: word_unat_eq_iff unat_div)
  have finished: "put_places put upper base w 0 = returns" for w
    by (rule ext) (subst put_places.simps, simp)
  have "log_digit upper v = digit_char upper (unat v)" using 0 assms(2) by (intro digit_chars(2)) simp
  then have "put_places put upper base v p d = and_then (put (ucast (digit_char upper (unat v))) d) returns" for d
    using p finished by (subst put_places.simps) simp
  then have "pr (put_places put upper base v p) [digit_char upper (unat v)]"
    by (rule prints_cons[OF put_u8_plain prints_nothing])
  then show ?case using 0 by (simp add: places_def)
next
  case (Suc k)
  let ?B = "unat base"
  have B: "0 < ?B" using assms by simp
  have "p \<noteq> 0" using Suc.prems(1) B by auto
  have q: "unat (v div p) = unat v div ?B ^ Suc k" using Suc.prems(1) by (simp add: unat_div)
  have lt: "unat v div ?B ^ Suc k < ?B"
    using Suc.prems(2) B by (simp add: div_less_iff_less_mult mult.commute mult.left_commute)
  then have d: "log_digit upper (v div p) = digit_char upper (unat v div ?B ^ Suc k mod ?B)"
    using digit_chars(2)[of "v div p" upper] q assms(2) by simp
  have m: "unat (v mod p) = unat v mod ?B ^ Suc k" "unat (p div base) = ?B ^ k"
    using Suc.prems(1) B by (simp_all add: unat_mod unat_div)
  have "unat (v mod p) < ?B ^ Suc k" using m(1) B by simp
  from Suc.IH[OF m(2) this] have
    "pr (put_places put upper base (v mod p) (p div base)) (map (digit_char upper) (places ?B (Suc k) (unat v)))"
    unfolding m(1) places_mod .
  moreover have "put_places put upper base v p x = and_then (put (ucast (digit_char upper (unat v div ?B ^ Suc k mod ?B))) x)
      (put_places put upper base (v mod p) (p div base))" for x
    using \<open>p \<noteq> 0\<close> d by (subst put_places.simps) simp
  ultimately show ?case unfolding places_Suc[of ?B "Suc k"] list.map by (rule prints_cons[OF put_u8_plain])
qed

lemma count_and_put:
  assumes "2 \<le> unat base" and "unat base \<le> 16"
  shows "\<exists>p. count_digits base v 1 1 = returns (p, int (length (digits (unat base) (unat v)))) \<and>
    pr (put_places put upper base v p) (numeral_text upper (unat base) (unat v))"
proof (cases "v = 0")
  case True
  have "digits (unat base) 0 = [0]" using assms(1) by (intro digits_small) simp
  moreover obtain q where "count_digits base 0 1 1 = returns (q, 1)" "unat q = 1"
    using count_digits_power[OF assms(1), of 0 0 1 1] assms(1) by auto
  moreover from this have "pr (put_places put upper base 0 q) (map (digit_char upper) (places (unat base) (Suc 0) 0))"
    using put_places_prints[OF assms, of q 0 0 upper] assms(1) by simp
  ultimately show ?thesis using True by (simp add: numeral_text_def places_def)
next
  case False
  then have "0 < unat v" by (simp add: unat_gt_0)
  from reaches_place[OF assms(1) this] obtain k where k: "unat base ^ k \<le> unat v" "unat v < unat base ^ Suc k" .
  note ds = digits_places[OF assms(1) k]
  have "unat (1 :: cint) * unat base ^ k < 2 ^ 32" using k(1) unat_bound[of v] by simp
  from count_digits_power[OF assms(1) disjI1[OF k(1)] k(2) this] obtain q where
    "count_digits base v 1 1 = returns (q, 1 + int k)" "unat q = unat base ^ k" by auto
  then show ?thesis using put_places_prints[OF assms, of q k v upper] k(2) ds
    by (auto simp: numeral_text_def)
qed

end

section \<open>Items of the logger\<close>

datatype conv = Decimal | Unsigned | Octal | Hexadecimal bool

fun conv_char :: "conv \<Rightarrow> u8" where
  "conv_char Decimal = ch CHR ''d''"
| "conv_char Unsigned = ch CHR ''u''"
| "conv_char Octal = ch CHR ''o''"
| "conv_char (Hexadecimal upper) = (if upper then ch CHR ''X'' else ch CHR ''x'')"

fun conv_base :: "conv \<Rightarrow> nat" where
  "conv_base Octal = 8"
| "conv_base (Hexadecimal upper) = 16"
| "conv_base _ = 10"

definition negative :: "conv \<Rightarrow> cint \<Rightarrow> bool" where
  "negative cv v \<longleftrightarrow> cv = Decimal \<and> sint v < 0"

definition magnitude :: "conv \<Rightarrow> cint \<Rightarrow> nat" where
  "magnitude cv v = (if cv = Decimal then nat \<bar>sint v\<bar> else unat v)"

definition number_text :: "conv \<Rightarrow> cint \<Rightarrow> u8 list" where
  "number_text cv v = numeral_text (cv = Hexadecimal True) (conv_base cv) (magnitude cv v)"

definition width_of :: "nat option \<Rightarrow> nat" where
  "width_of w = (case w of None \<Rightarrow> 0 | Some n \<Rightarrow> n)"

definition sign_text :: "conv \<Rightarrow> cint \<Rightarrow> u8 list" where
  "sign_text cv v = (if negative cv v then [ch CHR ''-''] else [])"

datatype log_item = LLit u8 | LPercent | LInt bool "nat option" conv cint | LChr "nat option" cint
  | LText "nat option" "u8 list"

fun width_ok :: "nat option \<Rightarrow> bool" where
  "width_ok None = True"
| "width_ok (Some n) = (0 < n \<and> n < 2 ^ 31)"

fun log_item_ok :: "log_item \<Rightarrow> bool" where
  "log_item_ok (LLit c) \<longleftrightarrow> c \<noteq> ch CHR ''%'' \<and> c \<noteq> 0"
| "log_item_ok LPercent \<longleftrightarrow> True"
| "log_item_ok (LInt z w cv v) \<longleftrightarrow> width_ok w"
| "log_item_ok (LChr w v) \<longleftrightarrow> width_ok w"
| "log_item_ok (LText w s) \<longleftrightarrow> width_ok w \<and> 0 \<notin> set s"

definition width_format :: "nat option \<Rightarrow> u8 list" where
  "width_format w = (case w of None \<Rightarrow> [] | Some n \<Rightarrow> numeral_text False 10 n)"

fun log_item_format :: "log_item \<Rightarrow> u8 list" where
  "log_item_format (LLit c) = [c]"
| "log_item_format LPercent = str ''%%''"
| "log_item_format (LInt z w cv v) =
     ch CHR ''%'' # (if z then [ch CHR ''0''] else []) @ width_format w @ [conv_char cv]"
| "log_item_format (LChr w v) = ch CHR ''%'' # width_format w @ [ch CHR ''c'']"
| "log_item_format (LText w s) = ch CHR ''%'' # width_format w @ [ch CHR ''s'']"

fun log_item_args :: "log_item \<Rightarrow> arg list" where
  "log_item_args (LLit c) = []"
| "log_item_args LPercent = []"
| "log_item_args (LInt z w cv v) = [Int_arg v]"
| "log_item_args (LChr w v) = [Int_arg v]"
| "log_item_args (LText w s) = [Str_arg s]"

fun log_item_text :: "log_item \<Rightarrow> u8 list" where
  "log_item_text (LLit c) = [c]"
| "log_item_text LPercent = [ch CHR ''%'']"
| "log_item_text (LInt z w cv v) =
     (let pad = width_of w - (length (sign_text cv v) + length (number_text cv v))
      in if z then sign_text cv v @ replicate pad (ch CHR ''0'') @ number_text cv v
         else replicate pad (ch CHR '' '') @ sign_text cv v @ number_text cv v)"
| "log_item_text (LChr w v) = replicate (width_of w - 1) (ch CHR '' '') @ [ucast v]"
| "log_item_text (LText w s) = replicate (width_of w - length s) (ch CHR '' '') @ s"

section \<open>The sign\<close>

lemma sign_bit: "v AND 0x80000000 \<noteq> 0 \<longleftrightarrow> sint (v :: cint) < 0"
proof -
  have "(0x80000000 :: cint) = 2 ^ 31" by simp
  then have "v AND 0x80000000 = (if bit v 31 then 2 ^ 31 else 0)" by (simp only: and_exp)
  moreover have "bit v 31 \<longleftrightarrow> sint v < 0" using bit_last_iff[of v] by simp
  ultimately show ?thesis by simp
qed

lemma magnitude_read:
  "magnitude Decimal v = (if sint v < 0 then unat (NOT v + 1) else unat v)"
proof (cases "sint v < 0")
  case True
  then show ?thesis by (simp add: magnitude_def negated)
next
  case False
  then have "uint v = sint v" by (simp add: uint_sint_nonneg)
  then show ?thesis using False by (simp add: magnitude_def unat_eq_nat_uint)
qed

section \<open>Numbers\<close>

definition conv_fmt :: "bool \<Rightarrow> int \<Rightarrow> conv \<Rightarrow> log_fmt \<Rightarrow> bool" where
  "conv_fmt z w cv f \<longleftrightarrow> fmtLeadingZero f = z \<and> fmtBeforeDecimal f = w \<and> unat (fmtBase f) = conv_base cv \<and>
     fmtSigned f = (cv = Decimal) \<and> fmtCase f = (cv = Hexadecimal True)"

lemma padding:
  "nat (int a - int m - int n) = a - (n + m)" "nat (- 1 - int m - int n) = 0 - (n + m)"
  by arith+

context jtag_port
begin

lemma repchar_prints: "logger.pr (alt_log_repchar b base c r) (replicate (nat r) c)"
  by (rule prints_fun[OF logger.repeat_put_prints]) (simp add: alt_log_repchar_def)

lemma log_integer_prints:
  assumes "conv_fmt z (case w of None \<Rightarrow> - 1 | Some n \<Rightarrow> int n) cv f"
  shows "logger.pr (log_integer b base f v) (log_item_text (LInt z w cv v))"
proof -
  let ?put = "alt_log_txchar b base" and ?neg = "negative cv v"
  let ?v = "if ?neg then NOT v + 1 else v"
  have f: "fmtLeadingZero f = z" "fmtBeforeDecimal f = (case w of None \<Rightarrow> - 1 | Some n \<Rightarrow> int n)"
    "unat (fmtBase f) = conv_base cv" "fmtSigned f = (cv = Decimal)" "fmtCase f = (cv = Hexadecimal True)"
    using assms by (auto simp: conv_fmt_def)
  have sign: "(fmtSigned f \<and> v AND 0x80000000 \<noteq> 0) = ?neg" by (simp add: f negative_def sign_bit)
  have mag: "unat ?v = magnitude cv v"
    by (cases "cv = Decimal") (simp_all add: negative_def magnitude_read, simp add: magnitude_def)
  have "2 \<le> conv_base cv" "conv_base cv \<le> 16" by (cases cv; simp)+
  from logger.count_and_put[of "fmtBase f" ?v "fmtCase f", unfolded f(3), OF this]
  obtain p where p: "count_digits (fmtBase f) ?v 1 1 = returns (p, int (length (number_text cv v)))"
    "logger.pr (put_places ?put (fmtCase f) (fmtBase f) ?v p) (number_text cv v)"
    unfolding mag f(5) by (auto simp: number_text_def numeral_text_def)
  let ?n = "int (length (number_text cv v))" and ?s = "int (length (sign_text cv v))"
  let ?r = "fmtBeforeDecimal f - ?n - ?s"
  let ?sign = "\<lambda>d. if ?neg then ?put (scast (ch CHR ''-'')) d else returns d"
  have signs: "logger.pr ?sign (sign_text cv v)"
    using logger.put_u8[of "ch CHR ''-''"] by (auto simp: sign_text_def prints_def)
  have "(if ?neg then fmtBeforeDecimal f - ?n - 1 else fmtBeforeDecimal f - ?n) = ?r" by (simp add: sign_text_def)
  then have body: "log_integer b base f v d =
      and_then (if z then and_then (?sign d) (alt_log_repchar b base (ch CHR ''0'') ?r)
                else and_then (alt_log_repchar b base (ch CHR '' '') ?r d) ?sign)
        (put_places ?put (fmtCase f) (fmtBase f) ?v p)" for d
    unfolding log_integer_def Let_def sign by (simp only: p(1) and_then_simps prod.case f(1))
  have pad: "nat ?r = width_of w - (length (sign_text cv v) + length (number_text cv v))"
    by (cases w) (simp_all only: f(2) width_of_def option.case padding)
  show ?thesis
  proof (cases z)
    case True
    have "logger.pr (\<lambda>d. and_then (?sign d) (alt_log_repchar b base (ch CHR ''0'') ?r))
        (sign_text cv v @ replicate (nat ?r) (ch CHR ''0''))"
      by (rule prints_seq[OF signs repchar_prints])
    from prints_seq_fun[OF this p(2), of "log_integer b base f v"] show ?thesis
      using body True by (simp add: pad Let_def)
  next
    case False
    have "logger.pr (\<lambda>d. and_then (alt_log_repchar b base (ch CHR '' '') ?r d) ?sign)
        (replicate (nat ?r) (ch CHR '' '') @ sign_text cv v)"
      by (rule prints_seq[OF repchar_prints signs])
    from prints_seq_fun[OF this p(2), of "log_integer b base f v"] show ?thesis
      using body False by (simp add: pad Let_def)
  qed
qed

end

section \<open>Formats\<close>

lemma digit_char_facts:
  "list_all (\<lambda>k. let c = digit_char False k in c \<noteq> ch CHR ''.'' \<and> ch CHR ''0'' \<le> c \<and> c \<le> ch CHR ''9'' \<and>
     uint (c - ch CHR ''0'') = int k \<and> c \<noteq> ch CHR ''%'' \<and> (k \<noteq> 0 \<longrightarrow> c \<noteq> ch CHR ''0'')) [0..<10]"
  by code_simp

lemma digit_char_read:
  assumes "k < 10"
  shows "digit_char False k \<noteq> ch CHR ''.''" "ch CHR ''0'' \<le> digit_char False k" "digit_char False k \<le> ch CHR ''9''"
    "uint (digit_char False k - ch CHR ''0'') = int k" "digit_char False k \<noteq> ch CHR ''%''"
    "k \<noteq> 0 \<Longrightarrow> digit_char False k \<noteq> ch CHR ''0''"
  using digit_char_facts assms by (auto simp: list_all_iff Let_def)

text \<open>Reading a width digit by digit; before the first digit the width is negative.\<close>

lemma value_of_Cons: "value_of b (d # ds) = d * b ^ length ds + value_of b ds"
proof (induction ds rule: rev_induct)
  case Nil
  then show ?case by (simp add: value_of_def)
next
  case (snoc x ds)
  have "value_of b (d # ds @ [x]) = value_of b (d # ds) * b + x" using value_of_snoc[of b "d # ds" x] by simp
  then show ?case using snoc by (simp add: value_of_snoc algebra_simps)
qed

lemma read_width:
  "\<forall>k \<in> set ds. k < 10 \<Longrightarrow> ds \<noteq> [] \<Longrightarrow> pf_at f = State_otherFmtChar \<Longrightarrow> fmtAfterDecimal f < 0 \<Longrightarrow>
   max 0 (fmtBeforeDecimal f) * 10 ^ length ds + int (value_of 10 ds) < 2 ^ 31 \<Longrightarrow>
   log_loop b base (map (digit_char False) ds @ w) f args d =
   log_loop b base w (f\<lparr>fmtBeforeDecimal := max 0 (fmtBeforeDecimal f) * 10 ^ length ds + int (value_of 10 ds)\<rparr>) args d"
proof (induction ds arbitrary: f)
  case (Cons k ds)
  have k: "k < 10" using Cons.prems(1) by simp
  let ?x = "max 0 (fmtBeforeDecimal f) * 10 + int k"
  let ?f = "f\<lparr>fmtBeforeDecimal := ?x\<rparr>"
  have total: "max 0 (fmtBeforeDecimal f) * 10 ^ length (k # ds) + int (value_of 10 (k # ds)) =
      ?x * 10 ^ length ds + int (value_of 10 ds)"
    by (simp add: value_of_Cons algebra_simps)
  have x0: "0 \<le> ?x" by simp
  have "?x * 1 \<le> ?x * 10 ^ length ds" using x0 by (intro mult_left_mono) simp_all
  also have "\<dots> \<le> ?x * 10 ^ length ds + int (value_of 10 ds)" by simp
  also have "\<dots> < 2 ^ 31" using Cons.prems(5) unfolding total .
  finally have "?x < 2 ^ 31" by (simp only: mult_1_right)
  moreover have "(if fmtBeforeDecimal f < 0 then 0 else fmtBeforeDecimal f * 10) = max 0 (fmtBeforeDecimal f) * 10" by simp
  ultimately have "log_char b base (digit_char False k) f args d = returns (?f, args, d)"
    using Cons.prems(3,4) digit_char_read(1-4)[OF k]
    by (simp add: log_char_def log_other_def c_int_def Let_def del: max_def)
  then have step: "log_loop b base (map (digit_char False) (k # ds) @ w) f args d =
      log_loop b base (map (digit_char False) ds @ w) ?f args d" by simp
  show ?case
  proof (cases "ds = []")
    case True
    then show ?thesis using step total by (simp add: value_of_def)
  next
    case False
    have mx: "max 0 ?x = ?x" using x0 by simp
    have "log_loop b base (map (digit_char False) ds @ w) ?f args d = log_loop b base w (?f\<lparr>fmtBeforeDecimal :=
        max 0 (fmtBeforeDecimal ?f) * 10 ^ length ds + int (value_of 10 ds)\<rparr>) args d"
      by (rule Cons.IH[OF _ False]) (use Cons.prems total mx in \<open>simp_all del: max_def\<close>)
    then show ?thesis unfolding step total by (simp add: mx del: max_def)
  qed
qed simp

text \<open>The first character after the percent sign, unless it is 0 or another percent sign.\<close>

lemma first_is_other:
  "pf_at f = State_firstFmtChar \<Longrightarrow> c \<noteq> ch CHR ''0'' \<Longrightarrow> c \<noteq> ch CHR ''%'' \<Longrightarrow>
   log_loop b base (c # w) f args d = log_loop b base (c # w) (f\<lparr>pf_at := State_otherFmtChar\<rparr>) args d"
  by (simp add: log_char_def)

definition conv_start :: "bool \<Rightarrow> nat option \<Rightarrow> log_fmt \<Rightarrow> log_fmt" where
  "conv_start z w f = f\<lparr>fmtLeadingZero := z, fmtLong := False, fmtBase := 10, fmtSigned := True, fmtCase := False,
     fmtBeforeDecimal := (case w of None \<Rightarrow> - 1 | Some n \<Rightarrow> int n), fmtAfterDecimal := - 1,
     pf_at := State_otherFmtChar\<rparr>"

definition is_letter :: "u8 \<Rightarrow> bool" where
  "is_letter c \<longleftrightarrow> c \<noteq> ch CHR ''.'' \<and> \<not> (ch CHR ''0'' \<le> c \<and> c \<le> ch CHR ''9'') \<and> c \<noteq> ch CHR ''l'' \<and> c \<noteq> ch CHR ''%''"

lemma letter_ends:
  "is_letter c \<Longrightarrow> pf_at f = State_otherFmtChar \<Longrightarrow>
   log_loop b base (c # w) f args d = and_then (log_letter b base c f args d) (\<lambda>(f, args, d). log_loop b base w f args d)"
  by (auto simp: log_char_def log_other_def is_letter_def)

lemma digits_hd: "0 < n \<Longrightarrow> 2 \<le> b \<Longrightarrow> hd (digits b n) \<noteq> 0"
proof (induction b n rule: digits.induct)
  case (1 b n)
  then show ?case
  proof (cases "n < b \<or> b < 2")
    case False
    then have "0 < n div b" using 1(2,3) by (simp add: div_greater_zero_iff)
    then show ?thesis using 1 False by (simp add: digits.simps[of b n] digits_nonempty)
  qed (use 1 in \<open>simp add: digits.simps[of b n]\<close>)
qed

lemma log_conversion:
  assumes "width_ok w" and "is_letter c" and "pf_at f = State_chars"
  shows "log_loop b base (ch CHR ''%'' # (if z then [ch CHR ''0''] else []) @ width_format w @ c # rest) f args d =
    and_then (log_letter b base c (conv_start z w f) args d) (\<lambda>(f, args, d). log_loop b base rest f args d)"
proof -
  let ?f = "f\<lparr>fmtLeadingZero := False, fmtLong := False, fmtBase := 10, fmtSigned := True, fmtCase := False,
     fmtBeforeDecimal := - 1, fmtAfterDecimal := - 1, pf_at := State_firstFmtChar\<rparr>"
  let ?g = "f\<lparr>fmtLeadingZero := z, fmtLong := False, fmtBase := 10, fmtSigned := True, fmtCase := False,
     fmtBeforeDecimal := - 1, fmtAfterDecimal := - 1, pf_at := State_otherFmtChar\<rparr>"
  have order: "?f\<lparr>fmtLeadingZero := z, pf_at := State_otherFmtChar\<rparr> = ?g" by (cases f) simp
  have percent: "log_loop b base (ch CHR ''%'' # v) f args d = log_loop b base v ?f args d" for v
    using assms(3) by (simp add: log_char_def)
  have zero: "log_loop b base (ch CHR ''0'' # v) ?f args d =
      log_loop b base v (?f\<lparr>fmtLeadingZero := True, pf_at := State_otherFmtChar\<rparr>) args d" for v
    by (simp add: log_char_def)
  have c: "c \<noteq> ch CHR ''0''" "c \<noteq> ch CHR ''%''" using assms(2) by (auto simp: is_letter_def ch_def)
  have first: "log_loop b base ((if z then [ch CHR ''0''] else []) @ width_format w @ c # rest) ?f args d =
      log_loop b base (width_format w @ c # rest) ?g args d"
  proof (cases z)
    case True
    then have "?f\<lparr>fmtLeadingZero := True, pf_at := State_otherFmtChar\<rparr> = ?g" using order by (cases f) simp
    then show ?thesis using True by (simp only: if_True append.simps zero)
  next
    case False
    obtain x xs where x: "width_format w @ c # rest = x # xs" "x \<noteq> ch CHR ''0''" "x \<noteq> ch CHR ''%''"
    proof (cases w)
      case None
      then show ?thesis using that[of c rest] c by (simp add: width_format_def)
    next
      case (Some n)
      obtain k ks where k: "digits 10 n = k # ks" using digits_nonempty by (meson neq_Nil_conv)
      have "k \<noteq> 0" using digits_hd[of n 10] assms(1) Some k by simp
      moreover have "k < 10" using digits_range[of 10 k n] k by simp
      ultimately show ?thesis using that[of "digit_char False k"] digit_char_read(5,6)[of k] Some k
        by (simp add: width_format_def numeral_text_def)
    qed
    have "?f\<lparr>pf_at := State_otherFmtChar\<rparr> = ?g" using False order by (cases f) simp
    with first_is_other[of ?f x b base xs args d] x show ?thesis using False
      by (simp del: log_loop.simps)
  qed
  have width: "log_loop b base (width_format w @ c # rest) ?g args d =
      log_loop b base (c # rest) (conv_start z w f) args d"
  proof (cases w)
    case None
    then show ?thesis by (simp add: width_format_def conv_start_def del: log_loop.simps)
  next
    case (Some n)
    have "\<forall>k \<in> set (digits 10 n). k < 10" using digits_range[of 10] by simp
    moreover have "?g\<lparr>fmtBeforeDecimal := int n\<rparr> = conv_start z w f" using Some by (cases f) (simp add: conv_start_def)
    ultimately show ?thesis
      using read_width[of "digits 10 n" ?g b base "c # rest" args d] Some assms(1)
      by (simp add: width_format_def numeral_text_def digits_nonempty value_of_digits del: log_loop.simps)
  qed
  have "pf_at (conv_start z w f) = State_otherFmtChar" by (simp add: conv_start_def)
  from letter_ends[OF assms(2) this] show ?thesis unfolding percent first width .
qed

lemma letters: "is_letter (conv_char cv)" "is_letter (ch CHR ''c'')" "is_letter (ch CHR ''s'')"
  by (cases cv, auto simp: is_letter_def ch_def)

context jtag_port
begin

lemma log_int_letter:
  fixes F f z w
  defines "F \<equiv> conv_start z w f"
  obtains g where "conv_fmt z (case w of None \<Rightarrow> - 1 | Some n \<Rightarrow> int n) cv g"
    and "\<And>d. log_letter b base (conv_char cv) F (Int_arg v # args) d =
      and_then (log_integer b base g v d) (\<lambda>d. returns (g\<lparr>pf_at := State_chars\<rparr>, args, d))"
proof -
  let ?g = "case cv of Decimal \<Rightarrow> F | Unsigned \<Rightarrow> F\<lparr>fmtSigned := False\<rparr> | Octal \<Rightarrow> F\<lparr>fmtSigned := False, fmtBase := 8\<rparr>
    | Hexadecimal u \<Rightarrow> (if u then F\<lparr>fmtSigned := False, fmtBase := 16, fmtCase := True\<rparr> else F\<lparr>fmtSigned := False, fmtBase := 16\<rparr>)"
  have "conv_fmt z (case w of None \<Rightarrow> - 1 | Some n \<Rightarrow> int n) cv ?g"
    by (cases cv) (simp_all add: conv_fmt_def F_def conv_start_def)
  moreover have "log_letter b base (conv_char cv) F (Int_arg v # args) d =
      and_then (log_integer b base ?g v d) (\<lambda>d. returns (?g\<lparr>pf_at := State_chars\<rparr>, args, d))" for d
    by (cases cv) (simp_all add: log_letter_def va_int_def ch_def Let_def)
  ultimately show ?thesis by (rule that)
qed

lemma log_other_letters:
  "log_letter b base (ch CHR ''c'') F (Int_arg v # args) d =
     and_then (alt_log_repchar b base (ch CHR '' '') (fmtBeforeDecimal F - 1) d) (\<lambda>d.
     and_then (alt_log_txchar b base v d) (\<lambda>d. returns (F\<lparr>pf_at := State_chars\<rparr>, args, d)))"
  "log_letter b base (ch CHR ''s'') F (Str_arg s # args) d =
     and_then (alt_log_repchar b base (ch CHR '' '') (fmtBeforeDecimal F - int (length s)) d) (\<lambda>d.
     and_then (put_all (alt_log_txchar b base) s d) (\<lambda>d. returns (F\<lparr>pf_at := State_chars\<rparr>, args, d)))"
  by (simp_all add: log_letter_def va_int_def va_str_def ch_def Let_def)

lemma log_item_step:
  assumes "log_item_ok x" and "pf_at f = State_chars"
    and rest: "\<And>f. pf_at f = State_chars \<Longrightarrow> logger.pr (log_loop b base w f args) t"
  shows "logger.pr (log_loop b base (log_item_format x @ w) f (log_item_args x @ args)) (log_item_text x @ t)"
proof (cases x)
  case (LLit c)
  show ?thesis unfolding LLit log_item_format.simps log_item_args.simps log_item_text.simps
    by (rule prints_seq_fun[OF logger.put_u8 rest[OF assms(2)]])
       (use assms(1,2) LLit in \<open>simp add: log_char_def and_then_assoc\<close>)
next
  case LPercent
  let ?f = "f\<lparr>fmtLeadingZero := False, fmtLong := False, fmtBase := 10, fmtSigned := True, fmtCase := False,
     fmtBeforeDecimal := - 1, fmtAfterDecimal := - 1, pf_at := State_chars\<rparr>"
  have "ch CHR ''%'' \<noteq> ch CHR ''0''" by (simp add: ch_def)
  then have "log_loop b base (str ''%%'' @ w) f args d =
      and_then (alt_log_txchar b base (scast (ch CHR ''%'')) d) (log_loop b base w ?f args)" for d
    using assms(2) by (simp add: logger.percent_chars log_char_def and_then_assoc)
  then show ?thesis unfolding LPercent log_item_format.simps log_item_args.simps log_item_text.simps append_Nil
    by (rule prints_seq_fun[OF logger.put_u8 rest[of ?f], rotated]) simp
next
  case (LInt z wd cv v)
  have "width_ok wd" using assms(1) LInt by simp
  note conv = log_conversion[OF this letters(1) assms(2)]
  obtain g where g: "conv_fmt z (case wd of None \<Rightarrow> - 1 | Some n \<Rightarrow> int n) cv g"
    "\<And>d. log_letter b base (conv_char cv) (conv_start z wd f) (Int_arg v # args) d =
      and_then (log_integer b base g v d) (\<lambda>d. returns (g\<lparr>pf_at := State_chars\<rparr>, args, d))"
    using log_int_letter[where z = z and w = wd and cv = cv and f = f and v = v and args = args] by blast
  show ?thesis unfolding LInt log_item_format.simps log_item_args.simps
    by (rule prints_seq_fun[OF log_integer_prints[OF g(1)] rest[of "g\<lparr>pf_at := State_chars\<rparr>"]])
       (simp_all add: conv g(2) and_then_assoc del: log_loop.simps)
next
  case (LChr wd v)
  have "width_ok wd" using assms(1) LChr by simp
  note conv = log_conversion[OF this letters(2) assms(2), where z = False, unfolded if_False append_Nil]
  let ?r = "fmtBeforeDecimal (conv_start False wd f) - 1" and ?g = "(conv_start False wd f)\<lparr>pf_at := State_chars\<rparr>"
  have n: "nat ?r = width_of wd - 1" by (cases wd) (simp_all add: conv_start_def width_of_def)
  have body: "log_loop b base (log_item_format (LChr wd v) @ w) f (log_item_args (LChr wd v) @ args) d =
      and_then (and_then (alt_log_repchar b base (ch CHR '' '') ?r d) (alt_log_txchar b base v)) (log_loop b base w ?g args)" for d
    by (simp add: conv log_other_letters and_then_assoc del: log_loop.simps)
  show ?thesis unfolding LChr log_item_text.simps n[symmetric]
    by (rule prints_seq_fun[OF prints_seq[OF repchar_prints logger.put_prints] rest[of ?g] body]) simp
next
  case (LText wd s)
  have "width_ok wd" using assms(1) LText by simp
  note conv = log_conversion[OF this letters(3) assms(2), where z = False, unfolded if_False append_Nil]
  let ?r = "fmtBeforeDecimal (conv_start False wd f) - int (length s)" and ?g = "(conv_start False wd f)\<lparr>pf_at := State_chars\<rparr>"
  have n: "nat ?r = width_of wd - length s" by (cases wd) (simp_all add: conv_start_def width_of_def)
  have body: "log_loop b base (log_item_format (LText wd s) @ w) f (log_item_args (LText wd s) @ args) d =
      and_then (and_then (alt_log_repchar b base (ch CHR '' '') ?r d) (put_all (alt_log_txchar b base) s)) (log_loop b base w ?g args)" for d
    by (simp add: conv log_other_letters and_then_assoc del: log_loop.simps)
  show ?thesis unfolding LText log_item_text.simps n[symmetric]
    by (rule prints_seq_fun[OF prints_seq[OF repchar_prints logger.put_all_prints] rest[of ?g] body]) simp
qed

lemma log_items:
  "\<forall>x \<in> set xs. log_item_ok x \<Longrightarrow> pf_at f = State_chars \<Longrightarrow>
   logger.pr (log_loop b base (concat (map log_item_format xs)) f (concat (map log_item_args xs)))
     (concat (map log_item_text xs))"
proof (induction xs arbitrary: f)
  case Nil
  then show ?case by (simp add: prints_def)
next
  case (Cons x xs)
  then show ?case
    using log_item_step[of x f "concat (map log_item_format xs)" "concat (map log_item_args xs)"] by simp
qed

end

section \<open>On the JTAG UART\<close>

text \<open>On the JTAG UART with a host that keeps reading, alt_printf returns and prints its
  format with every conversion replaced: the character of %c, the string of %s and, for %x, the
  hexadecimal digits of the number with no leading zero.\<close>

theorem alt_printf_prints:
  assumes "length (tx_fifo d) \<le> 64" and "\<forall>x \<in> set xs. item_ok x"
  shows "\<exists>d'. alt_printf (putchar_direct (core_bus base) base) (concat (map item_format xs))
      (concat (map item_args xs)) d = returns d' \<and>
    host_log d' @ tx_fifo d' = host_log d @ tx_fifo d @ concat (map item_text xs)"
  using core.direct.alt_printf_items[OF assms(2), of base] assms(1)
  by (auto simp: prints_def core_ready_def core_emitted_def)

lemma alt_printf_prints_witness:
  "\<exists>d'. alt_printf (putchar_direct (core_bus 0x41048) 0x41048) (concat (map item_format [Lit 65, Percent, Hex 0x1F, Text [66], Chr 67]))
      [Int_arg 0x1F, Str_arg [66], Int_arg 67] (core_at_reset []) = returns d' \<and>
    host_log d' @ tx_fifo d' = concat (map item_text [Lit 65, Percent, Hex 0x1F, Text [66], Chr 67])"
  using alt_printf_prints[of "core_at_reset []" "[Lit 65, Percent, Hex 0x1F, Text [66], Chr 67]" "0x41048"]
  by (simp add: ch_def)

text \<open>C27. On the JTAG UART with a host that keeps reading, the logger's printf returns 0 and prints its
  format with every conversion replaced: %d, %u, %o, %x, %X with sign, in the base of the letter,
  padded to the width with blanks or, after the sign, with zeros; %c and %s padded with blanks.\<close>

theorem alt_log_printf_prints:
  assumes "length (tx_fifo d) \<le> 64" and "\<forall>x \<in> set xs. log_item_ok x"
  shows "\<exists>d'. alt_log_printf_proc (core_bus base) base (concat (map log_item_format xs))
      (concat (map log_item_args xs)) d = returns (0, d') \<and>
    host_log d' @ tx_fifo d' = host_log d @ tx_fifo d @ concat (map log_item_text xs)"
proof -
  have "pf_at log_fmt_start = State_chars" by (simp add: log_fmt_start_def)
  from core.log_items[OF assms(2) this, of base] assms(1) show ?thesis
    by (auto simp: prints_def core_ready_def core_emitted_def alt_log_printf_proc_def alt_log_private_printf_def)
qed

lemma alt_log_printf_prints_witness:
  "\<exists>d'. alt_log_printf_proc (core_bus 0x41048) 0x41048
      (concat (map log_item_format [LInt True (Some 8) Decimal (- 5), LText (Some 4) [66], LPercent]))
      [Int_arg (- 5), Str_arg [66]] (core_at_reset []) = returns (0, d') \<and>
    host_log d' @ tx_fifo d' = concat (map log_item_text [LInt True (Some 8) Decimal (- 5), LText (Some 4) [66], LPercent])"
  using alt_log_printf_prints[of "core_at_reset []"
      "[LInt True (Some 8) Decimal (- 5), LText (Some 4) [66], LPercent]" "0x41048"] by simp

text \<open>C28. The two printers print the same for %x, and what they print reads back as the number.\<close>

theorem hex_printers_agree:
  assumes "length (tx_fifo d) \<le> 64"
  shows "\<exists>d1 d2 ds. alt_printf (putchar_direct (core_bus base) base) (str ''%x'') [Int_arg v] d = returns d1 \<and>
    alt_log_printf_proc (core_bus base) base (str ''%x'') [Int_arg v] d = returns (0, d2) \<and>
    host_log d1 @ tx_fifo d1 = host_log d @ tx_fifo d @ map (digit_char False) ds \<and>
    host_log d2 @ tx_fifo d2 = host_log d1 @ tx_fifo d1 \<and>
    value_of 16 ds = unat v \<and> (\<forall>k \<in> set ds. k < 16)"
proof -
  have fmt: "log_item_format (LInt False None (Hexadecimal False) v) = str ''%x''"
    by (simp add: width_format_def str_def ch_def)
  have out: "log_item_text (LInt False None (Hexadecimal False) v) = numeral_text False 16 (unat v)"
    by (simp add: sign_text_def negative_def number_text_def magnitude_def width_of_def)
  have "pf_at log_fmt_start = State_chars" by (simp add: log_fmt_start_def)
  from core.log_items[of "[LInt False None (Hexadecimal False) v]", OF _ this, of base] obtain d2 where
    "alt_log_printf_proc (core_bus base) base (str ''%x'') [Int_arg v] d = returns (0, d2)"
    "host_log d2 @ tx_fifo d2 = host_log d @ tx_fifo d @ numeral_text False 16 (unat v)"
    using assms fmt out
    by (auto simp: prints_def core_ready_def core_emitted_def alt_log_printf_proc_def alt_log_private_printf_def
        simp del: log_item_format.simps log_item_text.simps)
  moreover from core.direct.alt_printf_items[of "[Hex v]" base] obtain d1 where
    "alt_printf (putchar_direct (core_bus base) base) (str ''%x'') [Int_arg v] d = returns d1"
    "host_log d1 @ tx_fifo d1 = host_log d @ tx_fifo d @ numeral_text False 16 (unat v)"
    using assms by (auto simp: prints_def core_ready_def core_emitted_def)
  ultimately show ?thesis
    using value_of_digits[of 16 "unat v"] digits_range[of 16 _ "unat v"] by (auto simp: numeral_text_def)
qed

lemma hex_printers_agree_witness:
  "\<exists>d1 ds. alt_printf (putchar_direct (core_bus 0x41048) 0x41048) (str ''%x'') [Int_arg 0xBEEF]
      (core_at_reset []) = returns d1 \<and>
    host_log d1 @ tx_fifo d1 = map (digit_char False) ds \<and> value_of 16 ds = 0xBEEF"
  using hex_printers_agree[of "core_at_reset []" "0x41048" "0xBEEF"] by auto

end
