(* ===== verification/Sbrk.thy ===== *)
theory Sbrk
  imports Irq
begin

text \<open>
  The end of the heap: alt_sbrk.c and the stack registers of sys/alt_stack.h it uses.  The addresses the linker sets
  and the configuration macros are a record; addresses are words and the sum of a pointer and an
  \<open>int\<close> wraps, as the compiled code computes it.
\<close>

section \<open>State\<close>

text \<open>\<open>__alt_heap_start\<close>, \<open>__alt_heap_limit\<close>, ALT_MAX_HEAP_BYTES, ALT_STACK_CHECK, ALT_EXCEPTION_STACK.\<close>

record brk_config =
  heap_start :: cint
  heap_limit :: cint
  max_heap_bytes :: "cint option"
  stack_check :: bool
  exception_stack :: bool

record brk = ctl +
  heap_end :: cint
  reg_et :: cint
  reg_sp :: cint
  alt_stack_limit_value :: cint
  alt_exception_old_stack_limit :: cint
  overflow_reports :: nat

section \<open>alt_stack.h\<close>

definition alt_stack_limit :: "'a brk_scheme \<Rightarrow> cint" where
  "alt_stack_limit s = reg_et s"

definition alt_stack_pointer :: "'a brk_scheme \<Rightarrow> cint" where
  "alt_stack_pointer s = reg_sp s"

definition alt_set_stack_limit :: "cint \<Rightarrow> 'a brk_scheme \<Rightarrow> 'a brk_scheme" where
  "alt_set_stack_limit limit s = s\<lparr>alt_stack_limit_value := limit, reg_et := limit\<rparr>"

text \<open>A break to the debugger, which may let the program go on.\<close>

definition alt_report_stack_overflow :: "'a brk_scheme \<Rightarrow> 'a brk_scheme" where
  "alt_report_stack_overflow s = s\<lparr>overflow_reports := Suc (overflow_reports s)\<rparr>"

section \<open>alt_sbrk.c\<close>

definition heap_exceeded :: "brk_config \<Rightarrow> cint \<Rightarrow> 'a brk_scheme \<Rightarrow> bool" where
  "heap_exceeded cfg incr s =
     (case max_heap_bytes cfg of
        Some m \<Rightarrow> sint m < sint (heap_end s + incr - heap_start cfg)
      | None \<Rightarrow> heap_limit cfg < heap_end s + incr)"

definition follow_stack :: "cint \<Rightarrow> 'a brk_scheme \<Rightarrow> 'a brk_scheme" where
  "follow_stack prev_heap_end s =
     (if alt_stack_limit s = prev_heap_end then
        (let s = (if alt_stack_pointer s \<le> heap_end s then alt_report_stack_overflow s else s)
         in alt_set_stack_limit (heap_end s) s)
      else s)"

definition follow_exception_stack :: "cint \<Rightarrow> 'a brk_scheme \<Rightarrow> 'a brk_scheme" where
  "follow_exception_stack prev_heap_end s =
     (if alt_exception_old_stack_limit s = prev_heap_end then
        (let s = (if alt_exception_old_stack_limit s \<le> heap_end s then alt_report_stack_overflow s else s)
         in s\<lparr>alt_exception_old_stack_limit := heap_end s\<rparr>)
      else s)"

definition ALT_SBRK :: "brk_config \<Rightarrow> cint \<Rightarrow> 'a brk_scheme \<Rightarrow> cint \<times> 'a brk_scheme" where
  "ALT_SBRK cfg incr s =
     (case alt_irq_disable_all s of (context, s) \<Rightarrow>
        (let s = s\<lparr>heap_end := (heap_end s + 3) AND NOT 3\<rparr>
         in if heap_exceeded cfg incr s then (- 1, alt_irq_enable_all context s)
            else
              (let prev_heap_end = heap_end s;
                   s = s\<lparr>heap_end := heap_end s + incr\<rparr>;
                   s = (if stack_check cfg then follow_stack prev_heap_end s else s);
                   s = (if stack_check cfg \<and> exception_stack cfg then follow_exception_stack prev_heap_end s else s)
               in (prev_heap_end, alt_irq_enable_all context s))))"

text \<open>The linker script and the settings of this system: no limit on the bytes, no stack check.\<close>

definition plain_heap :: "cint \<Rightarrow> cint \<Rightarrow> brk_config" where
  "plain_heap start limit = \<lparr>heap_start = start, heap_limit = limit, max_heap_bytes = None,
     stack_check = False, exception_stack = False\<rparr>"

section \<open>Alignment\<close>

lemma unat_all_ones: "unat (- 1 :: cint) = 4294967295"
  by (simp add: unat_eq_nat_uint unsigned_minus_1_eq_mask mask_eq_exp_minus_1)

lemma unat_align: "unat ((x :: cint) AND NOT 3) = 4 * (unat x div 4)"
proof -
  have m: "(NOT 3 :: cint) = NOT (mask 2)" by (simp add: mask_numeral)
  have e: "2 \<le> k \<Longrightarrow> Suc (Suc (k - 2)) = k" for k :: nat by arith
  have "x AND NOT 3 = push_bit 2 (drop_bit 2 x)"
    unfolding m by (rule word_eqI_bits) (auto simp: bit_simps not_less e)
  then have "unat (x AND NOT 3) = unat (drop_bit 2 x * 4)" by (simp add: push_bit_eq_mult)
  moreover have "unat (drop_bit 2 x) = unat x div 4" by (simp only: unat_drop_bit_eq drop_bit_eq_div[where 'a=nat]) simp
  moreover have "unat x div 4 * 4 < 2 ^ 32" using unat_bound[of x] div_times_less_eq_dividend[of "unat x" 4] by simp
  ultimately show ?thesis by (simp add: unat_mult_lem[THEN iffD1])
qed

definition aligned :: "cint \<Rightarrow> nat" where
  "aligned h = 4 * ((unat h + 3) div 4)"

lemma aligned_bounds: "unat h \<le> aligned h" "aligned h \<le> unat h + 3" "4 dvd aligned h"
  by (auto simp: aligned_def)

lemma aligned_mono: "unat h \<le> aligned k \<Longrightarrow> aligned h \<le> aligned k"
  by (auto simp: aligned_def)

lemma unat_aligned:
  assumes "unat h < 2 ^ 32 - 3"
  shows "unat ((h + 3) AND NOT 3) = aligned h"
proof -
  have "unat (h + 3) = unat h + 3" using assms by (subst unat_add_lem[THEN iffD1]) simp_all
  then show ?thesis unfolding unat_align aligned_def by simp
qed

lemma aligned_id: "4 dvd unat h \<Longrightarrow> aligned h = unat h"
  by (auto simp: aligned_def elim!: dvdE)

section \<open>What is granted\<close>

text \<open>A request that does not fit changes nothing but the alignment of the end.\<close>

lemma sbrk_plain:
  assumes "unat (heap_end s) + 3 + unat n < 2 ^ 32"
  shows "ALT_SBRK (plain_heap start limit) n s =
    (if unat limit < aligned (heap_end s) + unat n
     then (- 1, s\<lparr>heap_end := (heap_end s + 3) AND NOT 3\<rparr>)
     else ((heap_end s + 3) AND NOT 3, s\<lparr>heap_end := ((heap_end s + 3) AND NOT 3) + n\<rparr>))"
proof -
  let ?p = "(heap_end s + 3) AND NOT 3"
  have p: "unat ?p = aligned (heap_end s)" using assms by (intro unat_aligned) linarith
  then have "unat (?p + n) = aligned (heap_end s) + unat n"
    using assms aligned_bounds(2)[of "heap_end s"] by (subst unat_add_lem[THEN iffD1]) (simp_all add: p)
  then have "limit < ?p + n \<longleftrightarrow> unat limit < aligned (heap_end s) + unat n" by (simp add: word_less_nat_alt)
  then show ?thesis
    by (simp add: ALT_SBRK_def plain_heap_def heap_exceeded_def alt_irq_disable_all_def alt_irq_enable_all_def Let_def)
qed

text \<open>A sequence of requests and what each returns.\<close>

fun sbrk_all :: "brk_config \<Rightarrow> cint list \<Rightarrow> 'a brk_scheme \<Rightarrow> (cint \<times> cint) list \<times> 'a brk_scheme" where
  "sbrk_all cfg [] s = ([], s)"
| "sbrk_all cfg (n # ns) s =
     (case ALT_SBRK cfg n s of (p, s) \<Rightarrow> case sbrk_all cfg ns s of (ps, s) \<Rightarrow> ((p, n) # ps, s))"

definition granted :: "(cint \<times> cint) list \<Rightarrow> (cint \<times> cint) list" where
  "granted ps = filter (\<lambda>(p, n). p \<noteq> - 1) ps"

definition before :: "cint \<times> cint \<Rightarrow> cint \<times> cint \<Rightarrow> bool" where
  "before b c \<longleftrightarrow> unat (fst b) + unat (snd b) \<le> unat (fst c)"

lemma sbrk_all_granted:
  "unat (heap_end s) \<le> aligned limit \<Longrightarrow> unat limit < 2 ^ 30 \<Longrightarrow> \<forall>n\<in>set ns. 0 \<le> sint n \<Longrightarrow>
   sbrk_all (plain_heap start limit) ns s = (ps, s') \<Longrightarrow>
   sorted_wrt before (granted ps) \<and>
   (\<forall>(p, n)\<in>set (granted ps). 4 dvd unat p \<and> unat (heap_end s) \<le> unat p \<and> unat p + unat n \<le> unat limit) \<and>
   ctl_status s' = ctl_status s"
proof (induction ns arbitrary: s ps s')
  case Nil
  then show ?case by (simp add: granted_def)
next
  case (Cons n ns)
  let ?p = "(heap_end s + 3) AND NOT 3"
  obtain r s1 where r: "ALT_SBRK (plain_heap start limit) n s = (r, s1)" by fastforce
  obtain qs where qs: "sbrk_all (plain_heap start limit) ns s1 = (qs, s')" and ps: "ps = (r, n) # qs"
    using Cons.prems(4) r by (auto split: prod.splits)
  have n: "unat n < 2 ^ 31"
    using uint_sint_nonneg[of n] sint_lt[of n] Cons.prems(3) by (simp add: unat_eq_nat_uint)
  note b = aligned_bounds[of "heap_end s"] aligned_bounds[of limit]
  have h: "unat (heap_end s) < 2 ^ 30 + 3" using Cons.prems(1,2) b by linarith
  then have p: "unat ?p = aligned (heap_end s)" by (intro unat_aligned) simp
  have "unat (heap_end s) + 3 + unat n < 2 ^ 32" using h n by simp
  note run = sbrk_plain[OF this, of start limit]
  note IH = Cons.IH[OF _ Cons.prems(2) _ qs]
  show ?case
  proof (cases "unat limit < aligned (heap_end s) + unat n")
    case True
    then have s1: "r = - 1" "s1 = s\<lparr>heap_end := ?p\<rparr>" using r run by simp_all
    have e: "unat (heap_end s1) = aligned (heap_end s)" unfolding s1 using p by simp
    then have "unat (heap_end s1) \<le> aligned limit" using aligned_mono[OF Cons.prems(1)] by simp
    note I = IH[OF this]
    have "granted ps = granted qs" by (simp add: ps s1(1) granted_def)
    then show ?thesis using I Cons.prems(3) s1(2) e b(1) by fastforce
  next
    case False
    then have s1: "r = ?p" "s1 = s\<lparr>heap_end := ?p + n\<rparr>" using r run by auto
    have e: "unat (heap_end s1) = aligned (heap_end s) + unat n"
      unfolding s1 using p h n b by (simp add: unat_add_lem[THEN iffD1])
    then have "unat (heap_end s1) \<le> aligned limit" using False b by linarith
    note I = IH[OF this]
    have "?p \<noteq> - 1"
    proof
      assume "?p = - 1"
      then have "unat ?p = unat (- 1 :: cint)" by (rule arg_cong)
      moreover have "unat (heap_end s) < 1073741827" using h by simp
      ultimately show False using p b(2) unat_all_ones by linarith
    qed
    then have g: "granted ps = (?p, n) # granted qs" by (simp add: ps s1(1) granted_def)
    have e': "unat (heap_end s1) = unat ?p + unat n" and start: "unat (heap_end s) \<le> unat ?p" "4 dvd unat ?p"
        "unat ?p + unat n \<le> unat limit"
      using e p b(1,3) False by auto
    have tail: "sorted_wrt before (granted qs)" "ctl_status s' = ctl_status s1"
        "(q, m) \<in> set (granted qs) \<Longrightarrow> 4 dvd unat q \<and> unat (heap_end s1) \<le> unat q \<and> unat q + unat m \<le> unat limit" for q m
      using I Cons.prems(3) by auto
    have "before (?p, n) (q, m) \<and> 4 dvd unat q \<and> unat (heap_end s) \<le> unat q \<and> unat q + unat m \<le> unat limit"
      if "(q, m) \<in> set (granted qs)" for q m
      using tail(3)[OF that] e' start(1) by (simp add: before_def)
    moreover have "ctl_status s1 = ctl_status s" by (simp add: s1(2))
    ultimately show ?thesis unfolding g using tail(1,2) start by auto
  qed
qed

text \<open>C24. However many blocks are requested, of whatever sizes that are not negative (with a negative one, the
  blocks after it may lie below the heap, as \<open>sbrk_below_start\<close> shows): the blocks that are granted start at
  word boundaries, lie between the end of the heap at the start and the limit, and follow one another
  without overlap; the interrupt enable is as before.\<close>

theorem sbrk_blocks:
  assumes "heap_end s = start" and "unat start \<le> unat limit" and "unat limit < 2 ^ 30"
    and "\<forall>n\<in>set ns. 0 \<le> sint n"
    and "sbrk_all (plain_heap start limit) ns s = (ps, s')"
  shows "sorted_wrt before (granted ps) \<and>
    (\<forall>(p, n)\<in>set (granted ps). 4 dvd unat p \<and> unat start \<le> unat p \<and> unat p + unat n \<le> unat limit) \<and>
    ctl_status s' = ctl_status s"
  using sbrk_all_granted[OF _ assms(3,4,5)] assms(1,2) aligned_bounds(1)[of limit] by auto

definition small_heap :: brk where
  "small_heap = \<lparr>ctl_status = 1, ctl_ienable = 0, heap_end = 0x30001, reg_et = 0, reg_sp = 0,
     alt_stack_limit_value = 0, alt_exception_old_stack_limit = 0, overflow_reports = 0\<rparr>"

lemma sbrk_blocks_witness:
  "\<exists>s'. sbrk_all (plain_heap 0x30001 0x30020) [5, 40, 8] small_heap =
      ([(0x30004, 5), (- 1, 40), (0x3000C, 8)], s') \<and>
    sorted_wrt before [(0x30004, 5), (0x3000C, 8)] \<and> ctl_status s' = 1"
proof -
  have run: "fst (sbrk_all (plain_heap 0x30001 0x30020) [5, 40, 8] small_heap) =
      [(0x30004, 5), (- 1, 40), (0x3000C, 8)]" by code_simp
  obtain s' where s': "sbrk_all (plain_heap 0x30001 0x30020) [5, 40, 8] small_heap =
      ([(0x30004, 5), (- 1, 40), (0x3000C, 8)], s')" using run by (metis prod.collapse)
  have "heap_end small_heap = 0x30001" "ctl_status small_heap = 1" by (simp_all add: small_heap_def)
  with sbrk_blocks[OF _ _ _ _ s'] show ?thesis using s' by (simp add: granted_def)
qed

section \<open>What it does not check\<close>

text \<open>A negative request moves the end below the start of the heap, and what the exception stack
  is compared with is its limit, not its pointer: every request that follows the limit reports an
  overflow.\<close>

lemma sbrk_below_start:
  "fst (ALT_SBRK (plain_heap 0x30000 0x40000) (- 0x10000) (small_heap\<lparr>heap_end := 0x30000\<rparr>)) = 0x30000 \<and>
   heap_end (snd (ALT_SBRK (plain_heap 0x30000 0x40000) (- 0x10000) (small_heap\<lparr>heap_end := 0x30000\<rparr>))) = 0x20000"
  by code_simp

lemma exception_stack_always_reports:
  assumes "alt_exception_old_stack_limit s = prev" and "prev \<le> heap_end s"
  shows "overflow_reports (follow_exception_stack prev s) = Suc (overflow_reports s)"
  using assms by (simp add: follow_exception_stack_def alt_report_stack_overflow_def)

end
