(* ===== verification/Gmon.thy ===== *)
theory Gmon
  imports Sbrk Alarm
begin

text \<open>
  Profiling: alt_gmon.c and the search of alt_mcount.S.  The compiler inserts a call of mcount at
  the start of every function of a profiling build; it counts the calls per caller and callee in
  lists of arcs behind a hash table, and a timer samples the program counter into a histogram.

  Memory is a map per field, as in Llist; a store through a pointer is defined only when the object
  lies in the heap that sbrk has given out.  The histogram is the array behind \<open>s_pcsamples\<close>.
\<close>

section \<open>State\<close>

definition GMON_DATA_PROFILE_DATA :: nat where "GMON_DATA_PROFILE_DATA = 2"
definition GMON_DATA_PROFILE_RATE :: nat where "GMON_DATA_PROFILE_RATE = 6"
definition GMON_DATA_SIZE :: cint where "GMON_DATA_SIZE = 9"
definition PCSAMPLE_BYTES_PER_BUCKET :: cint where "PCSAMPLE_BYTES_PER_BUCKET = 32"
definition HASH_BUCKETS :: nat where "HASH_BUCKETS = 64"
definition MCOUNT_SLAB_INCREMENT :: cint where "MCOUNT_SLAB_INCREMENT = 1020"

text \<open>What the linker decides: the heap, the limits of the code, and the addresses of the hash
  table, of the alarm and of the sampling routine.\<close>

record gmon_config =
  heap_config :: brk_config
  s_low_pc :: cint
  s_high_pc :: cint
  fn_head_addr :: cint
  sample_alarm :: nat
  sample_routine :: nat

record gmon = brk +
  pcsample_need_init :: cint
  fn_head :: "cint list"
  fn_next :: "cint \<Rightarrow> cint"
  fn_self_pc :: "cint \<Rightarrow> cint"
  fn_arc_head :: "cint \<Rightarrow> cint"
  arc_next :: "cint \<Rightarrow> cint"
  arc_from_pc :: "cint \<Rightarrow> cint"
  arc_count :: "cint \<Rightarrow> cint"
  s_pcsamples :: cint
  pcsamples :: "u16 list"
  alt_gmon_data :: "cint list"
  mcount_slab_ptr :: cint
  mcount_slab_size :: cint
  gmon_clock :: "unit timer"

definition gmon_reset :: "gmon_config \<Rightarrow> unit timer \<Rightarrow> gmon" where
  "gmon_reset g t = \<lparr>ctl_status = 1, ctl_ienable = 0, heap_end = heap_start (heap_config g), reg_et = 0, reg_sp = 0,
     alt_stack_limit_value = 0, alt_exception_old_stack_limit = 0, overflow_reports = 0,
     pcsample_need_init = 1, fn_head = replicate HASH_BUCKETS 0,
     fn_next = (\<lambda>_. 0), fn_self_pc = (\<lambda>_. 0), fn_arc_head = (\<lambda>_. 0),
     arc_next = (\<lambda>_. 0), arc_from_pc = (\<lambda>_. 0), arc_count = (\<lambda>_. 0),
     s_pcsamples = 0, pcsamples = [],
     alt_gmon_data = [0x6e6f6d67, GMON_DATA_SIZE, 0, s_low_pc g, s_high_pc g, PCSAMPLE_BYTES_PER_BUCKET, 0,
       fn_head_addr g, fn_head_addr g + of_nat (4 * HASH_BUCKETS)],
     mcount_slab_ptr = 0, mcount_slab_size = 0, gmon_clock = t\<rparr>"

text \<open>The object at \<open>p\<close>, of \<open>n\<close> bytes, lies in the heap.\<close>

definition in_heap :: "gmon_config \<Rightarrow> cint \<Rightarrow> nat \<Rightarrow> gmon \<Rightarrow> bool" where
  "in_heap g p n s \<longleftrightarrow> unat (heap_start (heap_config g)) \<le> unat p \<and> unat p + n \<le> unat (heap_end s)"

definition storing :: "gmon_config \<Rightarrow> cint \<Rightarrow> nat \<Rightarrow> gmon \<Rightarrow> unit outcome" where
  "storing g p n s = (if in_heap g p n s then returns () else undefined_run)"

section \<open>The call graph\<close>

text \<open>Both structures have three words.  The size is compared as unsigned; what sbrk returns is not
  looked at.\<close>

definition mcount_allocate :: "gmon_config \<Rightarrow> cint \<Rightarrow> gmon \<Rightarrow> cint \<times> gmon" where
  "mcount_allocate g sz s =
     (let s = (if mcount_slab_size s < sz then
                 (case ALT_SBRK (heap_config g) MCOUNT_SLAB_INCREMENT s of (p, s) \<Rightarrow>
                    s\<lparr>mcount_slab_ptr := p, mcount_slab_size := MCOUNT_SLAB_INCREMENT\<rparr>)
               else s);
          data = mcount_slab_ptr s
      in (data, s\<lparr>mcount_slab_ptr := mcount_slab_ptr s + sz, mcount_slab_size := mcount_slab_size s - sz\<rparr>))"

definition nios2_pcsample_init :: "gmon_config \<Rightarrow> gmon \<Rightarrow> (cint \<times> gmon) outcome" where
  "nios2_pcsample_init g s =
     (let prof_rate = alt_ticks_per_second (gmon_clock s)
      in if prof_rate = 0 then returns (1, s)
         else
           (let pcsamples_size = (s_high_pc g - s_low_pc g) div PCSAMPLE_BYTES_PER_BUCKET
            in case ALT_SBRK (heap_config g) (pcsamples_size * 2) s of (p, s) \<Rightarrow>
              (let s = s\<lparr>s_pcsamples := p\<rparr>
               in if s_pcsamples s \<noteq> 0 then
                    and_then (storing g p (2 * unat pcsamples_size) s) (\<lambda>_.
                    (let s = s\<lparr>pcsamples := replicate (unat pcsamples_size) 0\<rparr>;
                         s = s\<lparr>alt_gmon_data := (alt_gmon_data s)[GMON_DATA_PROFILE_DATA := s_pcsamples s]\<rparr>;
                         s = s\<lparr>alt_gmon_data := (alt_gmon_data s)[GMON_DATA_PROFILE_RATE := prof_rate]\<rparr>
                     in and_then (alt_alarm_start (sample_alarm g) 1 (sample_routine g) 0 (gmon_clock s)) (\<lambda>(rc, t).
                        returns (0, s\<lparr>gmon_clock := t\<rparr>))))
                  else returns (0, s))))"

definition start_sampler :: "gmon_config \<Rightarrow> gmon \<Rightarrow> gmon outcome" where
  "start_sampler g s =
     (if pcsample_need_init s \<noteq> 0 then
        (let s = s\<lparr>pcsample_need_init := 0\<rparr>
         in and_then (nios2_pcsample_init g s) (\<lambda>(r, s). returns (s\<lparr>pcsample_need_init := r\<rparr>)))
      else returns s)"

definition new_entry :: "gmon_config \<Rightarrow> cint \<Rightarrow> nat \<Rightarrow> gmon \<Rightarrow> (cint \<times> gmon) outcome" where
  "new_entry g self_pc b s =
     (case mcount_allocate g 12 s of (e, s) \<Rightarrow>
      and_then (storing g e 12 s) (\<lambda>_.
      (let s = s\<lparr>fn_self_pc := (fn_self_pc s)(e := self_pc)\<rparr>;
           s = s\<lparr>fn_arc_head := (fn_arc_head s)(e := 0)\<rparr>;
           s = s\<lparr>fn_next := (fn_next s)(e := fn_head s ! b)\<rparr>
       in returns (e, s\<lparr>fn_head := (fn_head s)[b := e]\<rparr>))))"

definition new_arc :: "gmon_config \<Rightarrow> cint \<Rightarrow> cint \<Rightarrow> gmon \<Rightarrow> gmon outcome" where
  "new_arc g from_pc e s =
     (case mcount_allocate g 12 s of (a, s) \<Rightarrow>
      and_then (storing g a 12 s) (\<lambda>_.
      (let s = s\<lparr>arc_from_pc := (arc_from_pc s)(a := from_pc)\<rparr>;
           s = s\<lparr>arc_count := (arc_count s)(a := 1)\<rparr>;
           s = s\<lparr>arc_next := (arc_next s)(a := fn_arc_head s e)\<rparr>
       in returns (s\<lparr>fn_arc_head := (fn_arc_head s)(e := a)\<rparr>))))"

text \<open>The fourth argument is the bucket of the hash table whose address the code passes.\<close>

definition mcount_record :: "gmon_config \<Rightarrow> cint \<Rightarrow> cint \<Rightarrow> cint \<Rightarrow> nat \<Rightarrow> gmon \<Rightarrow> gmon outcome" where
  "mcount_record g self_pc from_pc fn_entry b s =
     and_then (start_sampler g s) (\<lambda>s.
     (case alt_irq_disable_all s of (context, s) \<Rightarrow>
      and_then (if fn_entry = 0 then new_entry g self_pc b s else returns (fn_entry, s)) (\<lambda>(fn_entry, s).
      and_then (new_arc g from_pc fn_entry s) (\<lambda>s.
      returns (alt_irq_enable_all context s)))))"

text \<open>The two searches of alt_mcount.S; the second reads through its pointer before it looks at it.\<close>

partial_function (option) find_fn :: "cint \<Rightarrow> cint \<Rightarrow> gmon \<Rightarrow> cint outcome" where
  "find_fn self_pc e s =
     (if e = 0 then returns 0
      else if fn_self_pc s e = self_pc then returns e
      else find_fn self_pc (fn_next s e) s)"

partial_function (option) find_arc :: "cint \<Rightarrow> cint \<Rightarrow> gmon \<Rightarrow> cint outcome" where
  "find_arc from_pc a s =
     (if a = 0 then undefined_run
      else if arc_from_pc s a = from_pc then returns a
      else if arc_next s a = 0 then returns 0
      else find_arc from_pc (arc_next s a) s)"

definition bucket_of :: "cint \<Rightarrow> nat" where
  "bucket_of self_pc = unat (drop_bit 5 self_pc AND 0x3F)"

definition mcount :: "gmon_config \<Rightarrow> cint \<Rightarrow> cint \<Rightarrow> gmon \<Rightarrow> gmon outcome" where
  "mcount g self_pc from_pc s =
     (let b = bucket_of self_pc
      in and_then (find_fn self_pc (fn_head s ! b) s) (\<lambda>e.
         if e = 0 then mcount_record g self_pc from_pc e b s
         else
           and_then (find_arc from_pc (fn_arc_head s e) s) (\<lambda>a.
           if a = 0 then mcount_record g self_pc from_pc e b s
           else returns (s\<lparr>arc_count := (arc_count s)(a := arc_count s a + 1)\<rparr>))))"

section \<open>The histogram\<close>

text \<open>\<open>pc\<close> is the exception return address.\<close>

definition nios2_pcsample :: "gmon_config \<Rightarrow> cint \<Rightarrow> gmon \<Rightarrow> (cint \<times> gmon) outcome" where
  "nios2_pcsample g pc s =
     (if s_low_pc g \<le> pc \<and> pc < s_high_pc g \<and> s_pcsamples s \<noteq> 0 then
        (let bucket = (pc - s_low_pc g) div PCSAMPLE_BYTES_PER_BUCKET
         in and_then (defined_or_trap (arr_get (pcsamples s) (unat bucket))) (\<lambda>v.
            and_then (defined_or_trap (arr_set (pcsamples s) (unat bucket) (v + 1))) (\<lambda>h.
            returns (1, s\<lparr>pcsamples := h\<rparr>))))
      else returns (1, s))"

fun sample_all :: "gmon_config \<Rightarrow> cint list \<Rightarrow> gmon \<Rightarrow> gmon outcome" where
  "sample_all g [] s = returns s"
| "sample_all g (pc # pcs) s = and_then (nios2_pcsample g pc s) (\<lambda>(r, s). sample_all g pcs s)"

definition sampled :: "gmon_config \<Rightarrow> cint \<Rightarrow> bool" where
  "sampled g pc \<longleftrightarrow> s_low_pc g \<le> pc \<and> pc < s_high_pc g"

definition bucket_hit :: "gmon_config \<Rightarrow> nat \<Rightarrow> cint \<Rightarrow> bool" where
  "bucket_hit g k pc \<longleftrightarrow> sampled g pc \<and> (unat pc - unat (s_low_pc g)) div 32 = k"

lemma bucket_index:
  assumes "sampled g pc"
  shows "unat ((pc - s_low_pc g) div PCSAMPLE_BYTES_PER_BUCKET) = (unat pc - unat (s_low_pc g)) div 32"
  using assms
  by (simp add: sampled_def PCSAMPLE_BYTES_PER_BUCKET_def unat_div_distrib unat_sub word_le_nat_alt)

lemma pcsample_hit:
  assumes "s_pcsamples s \<noteq> 0" and "sampled g pc"
    and "(unat pc - unat (s_low_pc g)) div 32 = k" and "k < length (pcsamples s)"
  shows "nios2_pcsample g pc s = returns (1, s\<lparr>pcsamples := (pcsamples s)[k := pcsamples s ! k + 1]\<rparr>)"
  using assms bucket_index[OF assms(2)] by (simp add: nios2_pcsample_def sampled_def Let_def)

lemma sample_all_counts:
  "s_pcsamples s \<noteq> 0 \<Longrightarrow> \<forall>pc\<in>set pcs. sampled g pc \<longrightarrow> (unat pc - unat (s_low_pc g)) div 32 < length (pcsamples s) \<Longrightarrow>
   \<exists>h. sample_all g pcs s = returns (s\<lparr>pcsamples := h\<rparr>) \<and> length h = length (pcsamples s) \<and>
     (\<forall>k<length h. h ! k = pcsamples s ! k + of_nat (length (filter (bucket_hit g k) pcs)))"
proof (induction pcs arbitrary: s)
  case Nil
  then show ?case by (intro exI[of _ "pcsamples s"]) simp
next
  case (Cons pc pcs)
  show ?case
  proof (cases "sampled g pc")
    case False
    then have "nios2_pcsample g pc s = returns (1, s)" by (auto simp: nios2_pcsample_def sampled_def)
    moreover have "\<not> bucket_hit g k pc" for k using False by (simp add: bucket_hit_def)
    ultimately show ?thesis using Cons.IH[OF Cons.prems(1)] Cons.prems(2) by simp
  next
    case True
    let ?k = "(unat pc - unat (s_low_pc g)) div 32"
    let ?s = "s\<lparr>pcsamples := (pcsamples s)[?k := pcsamples s ! ?k + 1]\<rparr>"
    have k: "?k < length (pcsamples s)" using Cons.prems(2) True by simp
    have run: "nios2_pcsample g pc s = returns (1, ?s)" by (rule pcsample_hit[OF Cons.prems(1) True refl k])
    obtain h where h: "sample_all g pcs ?s = returns (?s\<lparr>pcsamples := h\<rparr>)" "length h = length (pcsamples ?s)"
        "\<forall>k<length h. h ! k = pcsamples ?s ! k + of_nat (length (filter (bucket_hit g k) pcs))"
      using Cons.IH[of ?s] Cons.prems by auto
    have "h ! j = pcsamples s ! j + of_nat (length (filter (bucket_hit g j) (pc # pcs)))" if "j < length h" for j
      using h(2,3) that True by (auto simp: nth_list_update bucket_hit_def)
    then show ?thesis using h(1,2) run by (intro exI[of _ h]) simp
  qed
qed

text \<open>The histogram counts: after any samples that fall on whole buckets or outside the code,
  each bucket has grown by the number of samples in its 32 bytes, modulo 65536.\<close>

theorem histogram_counts:
  assumes "s_pcsamples s \<noteq> 0"
    and "\<forall>pc\<in>set pcs. sampled g pc \<longrightarrow> (unat pc - unat (s_low_pc g)) div 32 < length (pcsamples s)"
  shows "\<exists>h. sample_all g pcs s = returns (s\<lparr>pcsamples := h\<rparr>) \<and> length h = length (pcsamples s) \<and>
    (\<forall>k<length h. h ! k = pcsamples s ! k + of_nat (length (filter (bucket_hit g k) pcs)))"
  by (rule sample_all_counts[OF assms])

text \<open>The array has one element per whole 32 bytes of code.  When the code does not end at such
  a boundary, a sample in its last bytes is stored behind the array.\<close>

theorem histogram_overrun:
  assumes "s_pcsamples s \<noteq> 0" and "length (pcsamples s) = unat ((s_high_pc g - s_low_pc g) div PCSAMPLE_BYTES_PER_BUCKET)"
    and "sampled g pc" and "unat (s_high_pc g - s_low_pc g) mod 32 \<noteq> 0"
    and "unat (s_high_pc g - pc) \<le> unat (s_high_pc g - s_low_pc g) mod 32"
  shows "nios2_pcsample g pc s = undefined_run"
proof -
  have le: "s_low_pc g \<le> pc" "pc \<le> s_high_pc g" "s_low_pc g \<le> s_high_pc g" using assms(3) by (auto simp: sampled_def)
  define n m where "n = unat (s_high_pc g) - unat (s_low_pc g)" and "m = unat pc - unat (s_low_pc g)"
  have "unat (s_high_pc g - s_low_pc g) = n" "unat (s_high_pc g - pc) = n - m"
    using le by (simp_all add: n_def m_def unat_sub word_le_nat_alt)
  then have "n - m \<le> n mod 32" and size: "length (pcsamples s) = n div 32"
    using assms(2,5) by (simp_all add: PCSAMPLE_BYTES_PER_BUCKET_def unat_div_distrib)
  then have "n div 32 * 32 \<le> m" using minus_mod_eq_div_mult[of n 32] by linarith
  then have "n div 32 \<le> m div 32" by (metis div_le_mono nonzero_mult_div_cancel_right zero_neq_numeral)
  then show ?thesis using assms(1,3) size bucket_index[OF assms(3)]
    by (simp add: nios2_pcsample_def sampled_def m_def)
qed

definition two_functions :: gmon_config where
  "two_functions = \<lparr>heap_config = plain_heap 0x30000 0x31000, s_low_pc = 0x20000, s_high_pc = 0x20030,
     fn_head_addr = 0x2F000, sample_alarm = 2, sample_routine = 1\<rparr>"

definition one_bucket :: gmon where
  "one_bucket = (gmon_reset two_functions (timer_reset ()))\<lparr>s_pcsamples := 0x30000, pcsamples := [7]\<rparr>"

lemma histogram_counts_witness:
  "\<exists>h. sample_all two_functions [0x20010, 0x1FFFC, 0x2001C] one_bucket = returns (one_bucket\<lparr>pcsamples := h\<rparr>) \<and>
    length h = 1 \<and> h ! 0 = 9"
proof -
  define pcs :: "cint list" where "pcs = [0x20010, 0x1FFFC, 0x2001C]"
  have n: "length (filter (bucket_hit two_functions 0) pcs) = 2"
    by (simp add: pcs_def bucket_hit_def sampled_def two_functions_def)
  have s: "s_pcsamples one_bucket \<noteq> 0" "pcsamples one_bucket = [7]" by (simp_all add: one_bucket_def)
  have "\<forall>pc\<in>set pcs. sampled two_functions pc \<longrightarrow>
      (unat pc - unat (s_low_pc two_functions)) div 32 < length (pcsamples one_bucket)"
    by (simp add: pcs_def sampled_def two_functions_def s(2))
  from histogram_counts[OF s(1) this] obtain h where
    h: "sample_all two_functions pcs one_bucket = returns (one_bucket\<lparr>pcsamples := h\<rparr>)"
      "length h = length (pcsamples one_bucket)"
      "\<forall>k<length h. h ! k = pcsamples one_bucket ! k + of_nat (length (filter (bucket_hit two_functions k) pcs))"
    by blast
  have l: "length h = 1" using h(2) s(2) by simp
  then have "h ! 0 = pcsamples one_bucket ! 0 + of_nat (length (filter (bucket_hit two_functions 0) pcs))"
    using h(3) by simp
  then have "h ! 0 = 9" unfolding n s(2) by simp
  with h(1) l show ?thesis unfolding pcs_def by blast
qed

lemma histogram_overrun_witness: "nios2_pcsample two_functions 0x20024 one_bucket = undefined_run"
  by (rule histogram_overrun)
    (simp_all add: one_bucket_def two_functions_def sampled_def PCSAMPLE_BYTES_PER_BUCKET_def)

end
