(* ===== verification/Gmon_Graph.thy ===== *)
theory Gmon_Graph
  imports Gmon
begin

text \<open>
  The call graph of the profiler, from the functional specification (an association list per
  bucket) to the linked lists that mcount walks and extends: mcount counts, for every pair of
  callee and caller, how often it was called with it.
\<close>

section \<open>The specification\<close>

type_synonym arcs = "(cint \<times> cint) list"
type_synonym graph = "(cint \<times> arcs) list"

definition add_arc :: "cint \<Rightarrow> arcs \<Rightarrow> arcs" where
  "add_arc y L = (if y \<in> fst ` set L then map (\<lambda>(z, c). (z, if z = y then c + 1 else c)) L else (y, 1) # L)"

definition add_call :: "cint \<Rightarrow> cint \<Rightarrow> graph \<Rightarrow> graph" where
  "add_call x y V =
     (if x \<in> fst ` set V then map (\<lambda>(z, L). (z, if z = x then add_arc y L else L)) V else (x, [(y, 1)]) # V)"

definition calls_of :: "graph \<Rightarrow> cint \<Rightarrow> cint \<Rightarrow> cint option" where
  "calls_of V x y = Option.bind (map_of V x) (\<lambda>L. map_of L y)"

definition graph_wf :: "graph \<Rightarrow> bool" where
  "graph_wf V \<longleftrightarrow> distinct (map fst V) \<and> (\<forall>(x, L)\<in>set V. distinct (map fst L))"

lemma map_of_map_value:
  "map_of (map (\<lambda>(z, c). (z, if z = y then f c else c)) L) =
     (case map_of L y of None \<Rightarrow> map_of L | Some c \<Rightarrow> (map_of L)(y \<mapsto> f c))"
proof (induction L)
  case (Cons p L)
  then show ?case by (cases p) (auto split: option.split)
qed simp

lemma map_of_add_arc:
  "map_of (add_arc y L) = (map_of L)(y \<mapsto> (case map_of L y of None \<Rightarrow> 1 | Some c \<Rightarrow> c + 1))"
proof (cases "map_of L y")
  case None
  then have "y \<notin> fst ` set L" by (simp add: map_of_eq_None_iff)
  then show ?thesis using None by (simp add: add_arc_def)
next
  case (Some c)
  then have "y \<in> fst ` set L" by (metis map_of_eq_None_iff option.distinct(1))
  then show ?thesis using Some by (simp add: add_arc_def map_of_map_value)
qed

lemma map_of_add_call:
  "map_of (add_call x y V) =
     (map_of V)(x \<mapsto> add_arc y (case map_of V x of None \<Rightarrow> [] | Some L \<Rightarrow> L))"
proof (cases "map_of V x")
  case None
  then have "x \<notin> fst ` set V" by (simp add: map_of_eq_None_iff)
  then show ?thesis using None by (simp add: add_call_def add_arc_def)
next
  case (Some L)
  then have "x \<in> fst ` set V" by (metis map_of_eq_None_iff option.distinct(1))
  then show ?thesis using Some by (simp add: add_call_def map_of_map_value)
qed

lemma calls_of_add_call:
  "calls_of (add_call x y V) u v =
     (if u = x \<and> v = y then Some (case calls_of V x y of None \<Rightarrow> 1 | Some c \<Rightarrow> c + 1) else calls_of V u v)"
  by (auto simp: calls_of_def map_of_add_call map_of_add_arc split: option.split)

lemma keys_add_arc: "map fst (add_arc y L) = (if y \<in> fst ` set L then map fst L else y # map fst L)"
  by (auto simp: add_arc_def comp_def case_prod_beta)

lemma keys_add_call: "map fst (add_call x y V) = (if x \<in> fst ` set V then map fst V else x # map fst V)"
  by (auto simp: add_call_def comp_def case_prod_beta)

lemma graph_wf_add_call: "graph_wf V \<Longrightarrow> graph_wf (add_call x y V)"
proof -
  assume wf: "graph_wf V"
  have "distinct (map fst (add_arc y L))" if "distinct (map fst L)" for L
    using that by (auto simp: keys_add_arc)
  then show ?thesis using wf unfolding graph_wf_def keys_add_call
    by (auto simp: add_call_def split: if_splits)
qed

lemma calls_counted:
  "calls_of (fold (\<lambda>(x, y). add_call x y) cs []) u v =
     (if (u, v) \<in> set cs then Some (of_nat (count_list cs (u, v))) else None)"
proof (induction cs rule: rev_induct)
  case Nil
  then show ?case by (simp add: calls_of_def)
next
  case (snoc c cs)
  then show ?case by (cases c) (auto simp: calls_of_add_call)
qed

section \<open>The linked lists\<close>

fun arcs_at :: "gmon \<Rightarrow> cint \<Rightarrow> cint list \<Rightarrow> bool" where
  "arcs_at s p [] \<longleftrightarrow> p = 0"
| "arcs_at s p (a # as) \<longleftrightarrow> p = a \<and> a \<noteq> 0 \<and> arcs_at s (arc_next s a) as"

fun entries_at :: "gmon \<Rightarrow> cint \<Rightarrow> (cint \<times> cint list) list \<Rightarrow> bool" where
  "entries_at s p [] \<longleftrightarrow> p = 0"
| "entries_at s p ((e, as) # es) \<longleftrightarrow> p = e \<and> e \<noteq> 0 \<and> as \<noteq> [] \<and> arcs_at s (fn_arc_head s e) as \<and>
     entries_at s (fn_next s e) es"

definition arcs_view :: "gmon \<Rightarrow> cint list \<Rightarrow> arcs" where
  "arcs_view s as = map (\<lambda>a. (arc_from_pc s a, arc_count s a)) as"

definition view :: "gmon \<Rightarrow> (cint \<times> cint list) list \<Rightarrow> graph" where
  "view s es = map (\<lambda>(e, as). (fn_self_pc s e, arcs_view s as)) es"

definition addresses :: "(cint \<times> cint list) list \<Rightarrow> cint list" where
  "addresses es = concat (map (\<lambda>(e, as). e # as) es)"

lemma view_simps [simp]:
  "view s [] = []" "view s ((e, as) # es) = (fn_self_pc s e, arcs_view s as) # view s es"
  "arcs_view s [] = []" "arcs_view s (a # as) = (arc_from_pc s a, arc_count s a) # arcs_view s as"
  "addresses [] = []" "addresses ((e, as) # es) = e # as @ addresses es"
  by (simp_all add: view_def arcs_view_def addresses_def)

text \<open>Only the fields at their own addresses matter.\<close>

lemma arcs_at_cong:
  "\<forall>a\<in>set as. arc_next s' a = arc_next s a \<Longrightarrow> arcs_at s' p as = arcs_at s p as"
  by (induction as arbitrary: p) auto

definition agree :: "gmon \<Rightarrow> gmon \<Rightarrow> cint \<Rightarrow> bool" where
  "agree s s' a \<longleftrightarrow> fn_next s' a = fn_next s a \<and> fn_self_pc s' a = fn_self_pc s a \<and>
     fn_arc_head s' a = fn_arc_head s a \<and> arc_next s' a = arc_next s a \<and>
     arc_from_pc s' a = arc_from_pc s a \<and> arc_count s' a = arc_count s a"

lemma entries_frame:
  "\<forall>a\<in>set (addresses es). agree s s' a \<Longrightarrow> entries_at s' p es = entries_at s p es \<and> view s' es = view s es"
proof (induction es arbitrary: p)
  case (Cons x es)
  obtain e as where x: "x = (e, as)" by fastforce
  have "arcs_at s' q as = arcs_at s q as" for q
    using Cons.prems by (intro arcs_at_cong) (simp add: x agree_def)
  moreover have "arcs_view s' as = arcs_view s as"
    using Cons.prems by (simp add: x agree_def arcs_view_def)
  ultimately show ?case using Cons by (simp add: x agree_def)
qed simp

text \<open>The searches find what the view says.\<close>

lemma find_fn_spec:
  "entries_at s p es \<Longrightarrow>
   (if x \<in> fst ` set (view s es)
    then \<exists>ys e as zs. es = ys @ (e, as) # zs \<and> fn_self_pc s e = x \<and> find_fn x p s = returns e \<and> e \<noteq> 0
    else find_fn x p s = returns 0)"
proof (induction es arbitrary: p)
  case Nil
  then show ?case by (subst find_fn.simps) simp
next
  case (Cons q es)
  obtain e as where q: "q = (e, as)" by fastforce
  show ?case
  proof (cases "fn_self_pc s e = x")
    case True
    then have "find_fn x p s = returns e" using Cons.prems q by (subst find_fn.simps) simp
    moreover have "q # es = [] @ (e, as) # es" by (simp add: q)
    moreover have "x \<in> fst ` set (view s (q # es))" using True q by auto
    moreover have "e \<noteq> 0" using Cons.prems q by simp
    ultimately show ?thesis using True by (simp only: if_True) blast
  next
    case False
    then have "find_fn x p s = find_fn x (fn_next s e) s" using Cons.prems q by (subst find_fn.simps) simp
    then show ?thesis using Cons.IH[of "fn_next s e"] Cons.prems q False
      by (auto split: if_splits) (metis append_Cons)
  qed
qed

lemma find_arc_spec:
  "arcs_at s p as \<Longrightarrow> as \<noteq> [] \<Longrightarrow>
   (if y \<in> fst ` set (arcs_view s as)
    then \<exists>bs a cs. as = bs @ a # cs \<and> arc_from_pc s a = y \<and> find_arc y p s = returns a \<and> a \<noteq> 0
    else find_arc y p s = returns 0)"
proof (induction as arbitrary: p)
  case (Cons a as)
  show ?case
  proof (cases "arc_from_pc s a = y")
    case True
    then have "find_arc y p s = returns a" using Cons.prems by (subst find_arc.simps) simp
    moreover have "a # as = [] @ a # as" by simp
    moreover have "y \<in> fst ` set (arcs_view s (a # as))" using True by auto
    moreover have "a \<noteq> 0" using Cons.prems by simp
    ultimately show ?thesis using True by (simp only: if_True) blast
  next
    case False
    show ?thesis
    proof (cases "as = []")
      case True
      then have "find_arc y p s = returns 0" using Cons.prems False by (subst find_arc.simps) simp
      then show ?thesis using True False by simp
    next
      case more: False
      then have "arc_next s a \<noteq> 0" using Cons.prems by (cases as) auto
      then have "find_arc y p s = find_arc y (arc_next s a) s"
        using Cons.prems False by (subst find_arc.simps) simp
      note same = this
      show ?thesis
      proof (cases "y \<in> fst ` set (arcs_view s as)")
        case True
        then obtain bs c cs where "as = bs @ c # cs" "arc_from_pc s c = y" "find_arc y (arc_next s a) s = returns c" "c \<noteq> 0"
          using Cons.IH[of "arc_next s a"] Cons.prems more by auto
        moreover from this have "a # as = (a # bs) @ c # cs" by simp
        moreover have "y \<in> fst ` set (arcs_view s (a # as))" using True by auto
        ultimately show ?thesis using same by (simp only: if_True) blast
      next
        case absent: False
        then have "y \<notin> fst ` set (arcs_view s (a # as))" using False by auto
        moreover have "find_arc y (arc_next s a) s = returns 0"
          using absent Cons.IH[of "arc_next s a"] Cons.prems more by auto
        ultimately show ?thesis using same by (simp only: if_False)
      qed
    qed
  qed
qed simp

section \<open>One call\<close>

definition graph_ok :: "gmon \<Rightarrow> cint set \<Rightarrow> (nat \<Rightarrow> (cint \<times> cint list) list) \<Rightarrow> (nat \<Rightarrow> graph) \<Rightarrow> bool" where
  "graph_ok s N G V \<longleftrightarrow> length (fn_head s) = HASH_BUCKETS \<and>
     (\<forall>b<HASH_BUCKETS. entries_at s (fn_head s ! b) (G b) \<and> view s (G b) = V b \<and> graph_wf (V b) \<and>
        distinct (addresses (G b)) \<and> set (addresses (G b)) \<subseteq> N) \<and>
     (\<forall>b<HASH_BUCKETS. \<forall>c<HASH_BUCKETS. b \<noteq> c \<longrightarrow> set (addresses (G b)) \<inter> set (addresses (G c)) = {})"

lemma graph_ok_bucket:
  assumes "graph_ok s N G V" and "b < HASH_BUCKETS"
  shows "entries_at s (fn_head s ! b) (G b)" "view s (G b) = V b" "graph_wf (V b)"
    "distinct (addresses (G b))" "set (addresses (G b)) \<subseteq> N" "length (fn_head s) = HASH_BUCKETS"
  using assms by (auto simp: graph_ok_def)

text \<open>A change of one bucket; \<open>F\<close> are the new addresses.\<close>

lemma graph_ok_update:
  assumes ok: "graph_ok s N G V" and b: "b < HASH_BUCKETS" and heads: "fn_head s' = (fn_head s)[b := h]"
    and frame: "\<And>a. a \<notin> set (addresses (G b)) \<Longrightarrow> a \<notin> F \<Longrightarrow> agree s s' a"
    and es: "entries_at s' h es" "view s' es = W" "graph_wf W" "distinct (addresses es)"
    and new: "set (addresses es) \<subseteq> set (addresses (G b)) \<union> F" "F \<inter> N = {}" "N \<union> F \<subseteq> N'"
  shows "graph_ok s' N' (G(b := es)) (V(b := W))"
proof -
  have len: "length (fn_head s) = HASH_BUCKETS" using ok by (simp add: graph_ok_def)
  have other: "entries_at s' (fn_head s' ! c) (G c) \<and> view s' (G c) = V c" if "c < HASH_BUCKETS" "c \<noteq> b" for c
  proof -
    have "a \<notin> set (addresses (G b)) \<and> a \<notin> F" if "a \<in> set (addresses (G c))" for a
      using that \<open>c < HASH_BUCKETS\<close> \<open>c \<noteq> b\<close> b ok new(2) unfolding graph_ok_def by blast
    then have "\<forall>a\<in>set (addresses (G c)). agree s s' a" using frame by blast
    from entries_frame[OF this] show ?thesis
      using graph_ok_bucket(1,2)[OF ok that(1)] that heads by simp
  qed
  have sub: "set (addresses (G c)) \<subseteq> N" if "c < HASH_BUCKETS" for c using graph_ok_bucket(5)[OF ok that] .
  have disj: "set (addresses es) \<inter> set (addresses (G c)) = {}" if "c < HASH_BUCKETS" "c \<noteq> b" for c
  proof -
    have "set (addresses (G b)) \<inter> set (addresses (G c)) = {}" using ok b that unfolding graph_ok_def by blast
    then show ?thesis using new(1,2) sub[OF that(1)] by blast
  qed
  have sub': "set (addresses es) \<subseteq> N'" using new sub[OF b] by blast
  show ?thesis unfolding graph_ok_def
  proof (intro conjI allI impI)
    show "length (fn_head s') = HASH_BUCKETS" using heads len by simp
  next
    fix c assume c: "c < HASH_BUCKETS"
    show "entries_at s' (fn_head s' ! c) ((G(b := es)) c)" using other[OF c] es(1) heads len b by (cases "c = b") auto
    show "view s' ((G(b := es)) c) = (V(b := W)) c" using other[OF c] es(2) by (cases "c = b") auto
    show "graph_wf ((V(b := W)) c)" using es(3) graph_ok_bucket(3)[OF ok c] by (cases "c = b") auto
    show "distinct (addresses ((G(b := es)) c))" using es(4) graph_ok_bucket(4)[OF ok c] by (cases "c = b") auto
    show "set (addresses ((G(b := es)) c)) \<subseteq> N'" using sub' sub[OF c] new(3) by (cases "c = b") auto
  next
    fix c d assume "c < HASH_BUCKETS" "d < HASH_BUCKETS" "c \<noteq> d"
    then show "set (addresses ((G(b := es)) c)) \<inter> set (addresses ((G(b := es)) d)) = {}"
      using disj ok unfolding graph_ok_def by (cases "c = b"; cases "d = b") (auto simp: Int_commute)
  qed
qed

lemma addresses_append [simp]: "addresses (xs @ ys) = addresses xs @ addresses ys"
  by (simp add: addresses_def)

lemma view_append [simp]: "view s (xs @ ys) = view s xs @ view s ys" "arcs_view s (as @ bs) = arcs_view s as @ arcs_view s bs"
  by (simp_all add: view_def arcs_view_def)

lemma key_in: "(z, c) \<in> set A \<Longrightarrow> z \<in> fst ` set A"
  by force

lemma add_arc_split: "distinct (map fst (A @ (y, c) # B)) \<Longrightarrow> add_arc y (A @ (y, c) # B) = A @ (y, c + 1) # B"
  by (auto simp: add_arc_def intro!: map_idI dest: key_in)

lemma add_call_split:
  "distinct (map fst (A @ (x, L) # B)) \<Longrightarrow> add_call x y (A @ (x, L) # B) = A @ (x, add_arc y L) # B"
  by (auto simp: add_call_def intro!: map_idI dest: key_in)

lemma entries_replace:
  "entries_at s h (ys @ (e, as) # zs) \<Longrightarrow> \<forall>a\<in>set (addresses ys). agree s s' a \<Longrightarrow>
   fn_next s' e = fn_next s e \<Longrightarrow> \<forall>a\<in>set (addresses zs). agree s s' a \<Longrightarrow>
   as' \<noteq> [] \<Longrightarrow> arcs_at s' (fn_arc_head s' e) as' \<Longrightarrow> entries_at s' h (ys @ (e, as') # zs)"
proof (induction ys arbitrary: h)
  case Nil
  then show ?case using entries_frame[of zs s s'] by simp
next
  case (Cons y ys)
  obtain d bs where y: "y = (d, bs)" by fastforce
  have "arcs_at s' q bs = arcs_at s q bs" for q
    using Cons.prems(2) by (intro arcs_at_cong) (simp add: y agree_def)
  then show ?case using Cons by (simp add: y agree_def)
qed

text \<open>An arc that exists is counted up.\<close>

lemma count_up:
  assumes ok: "graph_ok s N G V" and b: "b < HASH_BUCKETS"
    and G: "G b = ys @ (e, bs @ a # cs) # zs" and self: "fn_self_pc s e = x" "arc_from_pc s a = y"
  shows "graph_ok (s\<lparr>arc_count := (arc_count s)(a := arc_count s a + 1)\<rparr>) N G (V(b := add_call x y (V b)))"
proof -
  let ?s = "s\<lparr>arc_count := (arc_count s)(a := arc_count s a + 1)\<rparr>"
  note B = graph_ok_bucket[OF ok b]
  have d: "distinct (addresses (ys @ (e, bs @ a # cs) # zs))" using B(4) by (simp only: G)
  have fr: "agree s ?s c" if "c \<noteq> a" for c using that by (simp add: agree_def)
  have parts: "view ?s ys = view s ys" "view ?s zs = view s zs"
  proof -
    have "\<forall>c\<in>set (addresses ys). agree s ?s c" "\<forall>c\<in>set (addresses zs). agree s ?s c"
      using d by (auto intro!: fr)
    then show "view ?s ys = view s ys" "view ?s zs = view s zs" using entries_frame by blast+
  qed
  have arcs: "arcs_view ?s bs = arcs_view s bs" "arcs_view ?s cs = arcs_view s cs"
    using d by (auto simp: arcs_view_def)
  have V: "V b = view s ys @ (x, arcs_view s bs @ (y, arc_count s a) # arcs_view s cs) # view s zs"
    using B(2) self by (simp add: G)
  have wf: "distinct (map fst (V b))" "distinct (map fst (arcs_view s bs @ (y, arc_count s a) # arcs_view s cs))"
    using B(3) by (auto simp: graph_wf_def V)
  have "view ?s (G b) = add_call x y (V b)"
    unfolding V add_call_split[OF wf(1)[unfolded V]] add_arc_split[OF wf(2)] G using parts arcs self by simp
  moreover have "entries_at ?s p es = entries_at s p es" for p es
  proof -
    have "arcs_at ?s q as = arcs_at s q as" for q as by (rule arcs_at_cong) simp
    then show ?thesis by (induction es arbitrary: p) auto
  qed
  ultimately have "graph_ok ?s N (G(b := G b)) (V(b := add_call x y (V b)))"
    using B fr G graph_wf_add_call[OF B(3)] by (intro graph_ok_update[OF ok b, where F = "{}" and h = "fn_head s ! b"]) auto
  then show ?thesis by simp
qed

text \<open>A new arc of an entry that exists.\<close>

lemma entry_arcs: "entries_at s h (ys @ (e, as) # zs) \<Longrightarrow> arcs_at s (fn_arc_head s e) as \<and> as \<noteq> [] \<and> e \<noteq> 0"
  by (induction ys arbitrary: h) auto

definition linked_arc :: "cint \<Rightarrow> cint \<Rightarrow> cint \<Rightarrow> gmon \<Rightarrow> gmon" where
  "linked_arc y e p s = s\<lparr>arc_from_pc := (arc_from_pc s)(p := y), arc_count := (arc_count s)(p := 1),
     arc_next := (arc_next s)(p := fn_arc_head s e), fn_arc_head := (fn_arc_head s)(e := p)\<rparr>"

lemma arc_added:
  assumes ok: "graph_ok s N G V" and b: "b < HASH_BUCKETS"
    and G: "G b = ys @ (e, as) # zs" and self: "fn_self_pc s e = x" "y \<notin> fst ` set (arcs_view s as)"
    and p: "p \<notin> N" "p \<noteq> 0"
  shows "graph_ok (linked_arc y e p s) (insert p N) (G(b := ys @ (e, p # as) # zs)) (V(b := add_call x y (V b)))"
proof (rule graph_ok_update[OF ok b, where F = "{p}" and h = "fn_head s ! b"])
  let ?s = "linked_arc y e p s"
  note B = graph_ok_bucket[OF ok b]
  have d: "distinct (addresses (ys @ (e, as) # zs))" using B(4) by (simp only: G)
  have in_N: "set (addresses (ys @ (e, as) # zs)) \<subseteq> N" using B(5) by (simp only: G)
  have fr: "agree s ?s c" if "c \<noteq> p" "c \<noteq> e" for c using that by (simp add: agree_def linked_arc_def)
  then show "agree s ?s a" if "a \<notin> set (addresses (G b))" "a \<notin> {p}" for a using that G by auto
  have frames: "\<forall>c\<in>set (addresses ys). agree s ?s c" "\<forall>c\<in>set (addresses zs). agree s ?s c"
    using d in_N p by (auto intro!: fr)
  have arcs: "arcs_at s (fn_arc_head s e) as" "as \<noteq> []" using entry_arcs B(1) G by metis+
  have "arcs_at ?s (fn_arc_head s e) as = arcs_at s (fn_arc_head s e) as"
    using in_N p by (intro arcs_at_cong) (auto simp: linked_arc_def)
  moreover have f: "fn_self_pc ?s e = fn_self_pc s e" "arc_from_pc ?s p = y" "arc_count ?s p = 1"
      "fn_next ?s e = fn_next s e" "fn_arc_head ?s e = p" "arc_next ?s p = fn_arc_head s e"
    by (simp_all add: linked_arc_def)
  ultimately have head: "arcs_at ?s (fn_arc_head ?s e) (p # as)" using arcs p by simp
  have "entries_at s (fn_head s ! b) (ys @ (e, as) # zs)" using B(1) by (simp only: G)
  from entries_replace[OF this frames(1) f(4) frames(2) _ head]
  show "entries_at ?s (fn_head s ! b) (ys @ (e, p # as) # zs)" by simp
  have "arcs_view ?s as = arcs_view s as" using in_N p by (auto simp: arcs_view_def linked_arc_def)
  moreover have "view ?s ys = view s ys" "view ?s zs = view s zs" using entries_frame frames by blast+
  ultimately have W: "view ?s (ys @ (e, p # as) # zs) = view s ys @ (x, (y, 1) # arcs_view s as) # view s zs"
    by (simp only: view_append view_simps f self)
  have V: "V b = view s ys @ (x, arcs_view s as) # view s zs" using B(2) self by (simp add: G)
  have "distinct (map fst (V b))" using B(3) by (simp add: graph_wf_def)
  then have add: "add_call x y (V b) = view s ys @ (x, (y, 1) # arcs_view s as) # view s zs"
    unfolding V by (subst add_call_split) (simp_all add: add_arc_def self)
  show "view ?s (ys @ (e, p # as) # zs) = add_call x y (V b)" by (simp only: W add)
  show "graph_wf (add_call x y (V b))" by (rule graph_wf_add_call[OF B(3)])
  show "fn_head ?s = (fn_head s)[b := fn_head s ! b]" by (simp add: linked_arc_def)
  show "distinct (addresses (ys @ (e, p # as) # zs))" using d in_N p by auto
qed (use p G in auto)

text \<open>A new entry with its first arc.\<close>

definition linked_entry :: "cint \<Rightarrow> nat \<Rightarrow> cint \<Rightarrow> gmon \<Rightarrow> gmon" where
  "linked_entry x b q s = s\<lparr>fn_self_pc := (fn_self_pc s)(q := x), fn_arc_head := (fn_arc_head s)(q := 0),
     fn_next := (fn_next s)(q := fn_head s ! b), fn_head := (fn_head s)[b := q]\<rparr>"

lemma entry_added:
  assumes ok: "graph_ok s N G V" and b: "b < HASH_BUCKETS"
    and new: "x \<notin> fst ` set (V b)" and q: "q \<notin> N" "q \<noteq> 0" and p: "p \<notin> insert q N" "p \<noteq> 0"
  shows "graph_ok (linked_arc y q p (linked_entry x b q s)) (insert p (insert q N)) (G(b := (q, [p]) # G b))
    (V(b := add_call x y (V b)))"
proof (rule graph_ok_update[OF ok b, where F = "{p, q}" and h = q])
  let ?s = "linked_arc y q p (linked_entry x b q s)"
  note B = graph_ok_bucket[OF ok b]
  have fr: "agree s ?s c" if "c \<noteq> p" "c \<noteq> q" for c using that by (simp add: agree_def linked_arc_def linked_entry_def)
  then show "agree s ?s a" if "a \<notin> set (addresses (G b))" "a \<notin> {p, q}" for a using that by auto
  have "\<forall>c\<in>set (addresses (G b)). agree s ?s c" using B(5) p q by (auto intro!: fr)
  from entries_frame[OF this]
  have old: "entries_at ?s h (G b) = entries_at s h (G b)" "view ?s (G b) = view s (G b)" for h by blast+
  show "entries_at ?s q ((q, [p]) # G b)" using old(1) B(1) p q by (simp add: linked_arc_def linked_entry_def)
  show "view ?s ((q, [p]) # G b) = add_call x y (V b)"
    using old(2) B(2) p new by (simp add: linked_arc_def linked_entry_def add_call_def)
  show "graph_wf (add_call x y (V b))" by (rule graph_wf_add_call[OF B(3)])
  show "distinct (addresses ((q, [p]) # G b))" using B(4,5) p q by auto
  show "fn_head ?s = (fn_head s)[b := q]" by (simp add: linked_arc_def linked_entry_def)
qed (use p q in auto)

section \<open>Allocation\<close>

text \<open>What has been given out lies in the heap, outside the rest of the slab, and apart.\<close>

definition heap_ok :: "nat \<Rightarrow> nat \<Rightarrow> gmon \<Rightarrow> cint set \<Rightarrow> bool" where
  "heap_ok start limit s N \<longleftrightarrow> start \<le> unat (heap_end s) \<and> unat (heap_end s) \<le> limit \<and>
     (unat (mcount_slab_size s) = 0 \<or>
      start \<le> unat (mcount_slab_ptr s) \<and> unat (mcount_slab_ptr s) + unat (mcount_slab_size s) \<le> unat (heap_end s)) \<and>
     (\<forall>a\<in>N. start \<le> unat a \<and> unat a + 12 \<le> unat (heap_end s) \<and>
        (unat a + 12 \<le> unat (mcount_slab_ptr s) \<or> unat (mcount_slab_ptr s) + unat (mcount_slab_size s) \<le> unat a)) \<and>
     (\<forall>a\<in>N. \<forall>c\<in>N. a \<noteq> c \<longrightarrow> unat a + 12 \<le> unat c \<or> unat c + 12 \<le> unat a)"

definition taken :: "cint \<Rightarrow> cint \<Rightarrow> cint \<Rightarrow> gmon \<Rightarrow> gmon" where
  "taken h p n s = s\<lparr>heap_end := h, mcount_slab_ptr := p + 12, mcount_slab_size := n\<rparr>"

lemma heap_ok_taken:
  assumes "heap_ok start limit s N" and "start \<le> unat p" and "unat p + 12 + unat n \<le> unat h" and "unat h \<le> limit"
    and "limit < 2 ^ 30" and "unat (heap_end s) \<le> unat h"
    and "\<forall>a\<in>N. unat a + 12 \<le> unat p \<or> unat p + 12 + unat n \<le> unat a"
  shows "heap_ok start limit (taken h p n s) (insert p N)"
proof -
  have "unat (p + 12) = unat p + 12" using assms(3-5) by (subst unat_add_lem[THEN iffD1]) simp_all
  then show ?thesis using assms unfolding heap_ok_def taken_def by fastforce
qed

lemma mcount_allocate_fresh:
  assumes ok: "heap_ok (unat start) (unat limit) s N" and g: "heap_config g = plain_heap start limit"
    and room: "unat (heap_end s) + 1023 \<le> unat limit" and limit: "0 < unat start" "unat limit < 2 ^ 30"
  shows "\<exists>p h n. mcount_allocate g 12 s = (p, taken h p n s) \<and> p \<notin> N \<and> p \<noteq> 0 \<and> in_heap g p 12 (taken h p n s) \<and>
    heap_ok (unat start) (unat limit) (taken h p n s) (insert p N) \<and> unat (heap_end s) \<le> unat h \<and> unat h \<le> unat (heap_end s) + 1023"
proof (cases "mcount_slab_size s < 12")
  case True
  let ?p = "(heap_end s + 3) AND NOT 3"
  note b = aligned_bounds[of "heap_end s"]
  have "unat (heap_end s) < 2 ^ 30" using room limit by linarith
  then have p: "unat ?p = aligned (heap_end s)" by (intro unat_aligned) simp
  have h: "unat (?p + 1020) = aligned (heap_end s) + 1020"
    using p b(2) room limit by (subst unat_add_lem[THEN iffD1]) simp_all
  have "ALT_SBRK (plain_heap start limit) 1020 s = (?p, s\<lparr>heap_end := ?p + 1020\<rparr>)"
    using sbrk_plain[of s 1020 start limit] room limit b(2) by simp
  then have run: "mcount_allocate g 12 s = (?p, taken (?p + 1020) ?p 1008 s)"
    using True by (simp add: mcount_allocate_def g MCOUNT_SLAB_INCREMENT_def taken_def Let_def)
  have N: "\<forall>a\<in>N. unat a + 12 \<le> unat ?p" using ok b(1) p by (auto simp: heap_ok_def)
  have e: "unat start \<le> unat ?p" using ok b(1) p by (auto simp: heap_ok_def)
  have "heap_ok (unat start) (unat limit) (taken (?p + 1020) ?p 1008 s) (insert ?p N)"
    using N e h p b room limit by (intro heap_ok_taken[OF ok]) auto
  moreover have "in_heap g ?p 12 (taken (?p + 1020) ?p 1008 s)"
    using e h p by (simp add: in_heap_def taken_def g plain_heap_def)
  moreover have "?p \<notin> N" using N by fastforce
  moreover have "?p \<noteq> 0" using e limit(1) by auto
  ultimately show ?thesis using run h b by (intro exI[of _ ?p] exI[of _ "?p + 1020"] exI[of _ 1008]) simp
next
  case False
  let ?p = "mcount_slab_ptr s" and ?n = "mcount_slab_size s - 12"
  have n: "12 \<le> unat (mcount_slab_size s)" using False by (simp add: word_less_nat_alt)
  then have m: "unat ?n = unat (mcount_slab_size s) - 12" by (simp add: unat_sub word_le_nat_alt)
  have slab: "unat start \<le> unat ?p" "unat ?p + unat (mcount_slab_size s) \<le> unat (heap_end s)"
    using ok n by (auto simp: heap_ok_def)
  have run: "mcount_allocate g 12 s = (?p, taken (heap_end s) ?p ?n s)"
    using False by (simp add: mcount_allocate_def taken_def Let_def)
  have N: "\<forall>a\<in>N. unat a + 12 \<le> unat ?p \<or> unat ?p + 12 + unat ?n \<le> unat a" using ok n m by (auto simp: heap_ok_def)
  have "heap_ok (unat start) (unat limit) (taken (heap_end s) ?p ?n s) (insert ?p N)"
    using N slab m n room limit by (intro heap_ok_taken[OF ok]) auto
  moreover have "in_heap g ?p 12 (taken (heap_end s) ?p ?n s)"
    using slab n by (simp add: in_heap_def taken_def g plain_heap_def)
  moreover have "?p \<notin> N" using N by fastforce
  moreover have "?p \<noteq> 0" using slab limit(1) by auto
  ultimately show ?thesis using run by (intro exI[of _ ?p] exI[of _ "heap_end s"] exI[of _ ?n]) simp
qed

section \<open>A call\<close>

definition same_graph :: "gmon \<Rightarrow> gmon \<Rightarrow> bool" where
  "same_graph s s' \<longleftrightarrow> (\<forall>a. agree s s' a) \<and> fn_head s' = fn_head s"

lemma graph_ok_same:
  assumes "graph_ok s N G V" and "same_graph s s'"
  shows "graph_ok s' N G V"
proof -
  have "entries_at s' h es = entries_at s h es \<and> view s' es = view s es" for h es
    using assms(2) by (intro entries_frame) (simp add: same_graph_def)
  moreover have "fn_head s' = fn_head s" using assms(2) by (simp add: same_graph_def)
  ultimately show ?thesis using assms(1) unfolding graph_ok_def by auto
qed

definition sampler_ready :: "gmon_config \<Rightarrow> gmon \<Rightarrow> bool" where
  "sampler_ready g s \<longleftrightarrow> pcsample_need_init s = 0 \<or> alt_ticks_per_second (gmon_clock s) = 0 \<or>
     (\<exists>xs. ring (gmon_clock s) alt_alarm_list xs \<and> sample_alarm g \<notin> set (alt_alarm_list # xs) \<and> sample_alarm g \<noteq> 0)"

definition sampler_need :: "gmon_config \<Rightarrow> gmon \<Rightarrow> nat" where
  "sampler_need g s = (if pcsample_need_init s = 0 then 0
     else 2 * (unat (s_high_pc g - s_low_pc g) div 32) + 3)"

lemma alarm_starts:
  assumes "ring t alt_alarm_list xs" and "a \<notin> set (alt_alarm_list # xs)" and "a \<noteq> 0" and "alt_ticks_per_second t \<noteq> 0"
  shows "\<exists>t'. alt_alarm_start a n f x t = returns (0, t')"
proof -
  define u where "u = set_rollover a (if n + tick_count t + 1 < tick_count t then 1 else 0) (set_time a (n + tick_count t + 1)
     (t\<lparr>al_callback := (al_callback t)(a := f), al_context := (al_context t)(a := x),
        ctl_status := ctl_status t AND NOT NIOS2_STATUS_PIE_MSK\<rparr>))"
  have "ring u alt_alarm_list xs" by (rule ring_frame[OF assms(1)]) (simp add: u_def)
  from alt_llist_insert_ring[OF this assms(2,3)]
  have "alt_llist_insert alt_alarm_list a u = returns (inserted alt_alarm_list a u)" by blast
  then show ?thesis using assms(3,4)
    by (simp add: alt_alarm_start_def alt_irq_disable_all_def alt_nticks_def Let_def u_def)
qed

lemma start_sampler_returns:
  assumes ready: "sampler_ready g s" and g: "heap_config g = plain_heap start limit"
    and room: "unat (heap_end s) + sampler_need g s \<le> unat limit" and limit: "0 < unat start" "unat limit < 2 ^ 30"
    and heap: "unat start \<le> unat (heap_end s)"
  shows "\<exists>s'. start_sampler g s = returns s' \<and> same_graph s s' \<and>
    mcount_slab_ptr s' = mcount_slab_ptr s \<and> mcount_slab_size s' = mcount_slab_size s \<and>
    unat (heap_end s) \<le> unat (heap_end s') \<and>
    unat (heap_end s') + sampler_need g s' \<le> unat (heap_end s) + sampler_need g s \<and> sampler_ready g s'"
proof (cases "pcsample_need_init s = 0")
  case True
  then show ?thesis using ready by (intro exI[of _ s]) (simp add: start_sampler_def same_graph_def agree_def)
next
  case need: False
  show ?thesis
  proof (cases "alt_ticks_per_second (gmon_clock s) = 0")
    case True
    then show ?thesis using need
      by (intro exI[of _ "s\<lparr>pcsample_need_init := 1\<rparr>"])
         (simp add: start_sampler_def nios2_pcsample_init_def Let_def same_graph_def agree_def sampler_need_def sampler_ready_def)
  next
    case ticking: False
    define n where "n = (s_high_pc g - s_low_pc g) div PCSAMPLE_BYTES_PER_BUCKET"
    define p where "p = (heap_end s + 3) AND NOT 3"
    note b = aligned_bounds[of "heap_end s"]
    have un: "unat n = unat (s_high_pc g - s_low_pc g) div 32"
      by (simp add: n_def PCSAMPLE_BYTES_PER_BUCKET_def unat_div_distrib)
    then have fit: "unat (heap_end s) + 3 + 2 * unat n \<le> unat limit" using room need by (simp add: sampler_need_def)
    have n2: "unat (n * 2) = 2 * unat n"
      using fit limit(2) by (subst unat_mult_lem[THEN iffD1]) simp_all
    have up: "unat p = aligned (heap_end s)" unfolding p_def using fit limit by (intro unat_aligned) simp
    have top: "unat (p + n * 2) = aligned (heap_end s) + 2 * unat n"
      using up b fit limit n2 by (subst unat_add_lem[THEN iffD1]) simp_all
    have sbrk: "ALT_SBRK (plain_heap start limit) (n * 2) (s\<lparr>pcsample_need_init := 0\<rparr>) =
        (p, s\<lparr>pcsample_need_init := 0, heap_end := p + n * 2\<rparr>)"
      using sbrk_plain[of "s\<lparr>pcsample_need_init := 0\<rparr>" "n * 2" start limit] fit limit b n2 unfolding p_def by simp
    have p0: "p \<noteq> 0" using up b heap limit by auto
    obtain xs where "ring (gmon_clock s) alt_alarm_list xs" "sample_alarm g \<notin> set (alt_alarm_list # xs)" "sample_alarm g \<noteq> 0"
      using ready need ticking by (auto simp: sampler_ready_def)
    from alarm_starts[OF this ticking] obtain t where
      t: "alt_alarm_start (sample_alarm g) 1 (sample_routine g) 0 (gmon_clock s) = returns (0, t)" by blast
    let ?s = "s\<lparr>heap_end := p + n * 2, s_pcsamples := p, pcsamples := replicate (unat n) 0,
        alt_gmon_data := (alt_gmon_data s)[GMON_DATA_PROFILE_DATA := p, GMON_DATA_PROFILE_RATE := alt_ticks_per_second (gmon_clock s)],
        gmon_clock := t, pcsample_need_init := 0\<rparr>"
    have "storing g p (2 * unat n) (s\<lparr>pcsample_need_init := 0, heap_end := p + n * 2, s_pcsamples := p\<rparr>) = returns ()"
      using top up b heap by (simp add: storing_def in_heap_def g plain_heap_def)
    then have "start_sampler g s = returns ?s"
      using need ticking sbrk p0 t
      by (simp add: start_sampler_def nios2_pcsample_init_def Let_def g flip: n_def)
    then show ?thesis using need top up b un
      by (intro exI[of _ ?s]) (simp add: same_graph_def agree_def sampler_need_def sampler_ready_def)
  qed
qed

lemma new_arc_links:
  assumes "mcount_allocate g 12 s = (p, taken h p n s)" and "in_heap g p 12 (taken h p n s)"
  shows "new_arc g y e s = returns (linked_arc y e p (taken h p n s))"
  using assms by (simp add: new_arc_def storing_def linked_arc_def Let_def)

lemma new_entry_links:
  assumes "mcount_allocate g 12 s = (q, taken h q n s)" and "in_heap g q 12 (taken h q n s)"
  shows "new_entry g x b s = returns (q, linked_entry x b q (taken h q n s))"
  using assms by (simp add: new_entry_def storing_def linked_entry_def Let_def)

lemma same_graph_taken [simp]: "same_graph s (taken h p n s)" "same_graph s (s\<lparr>ctl_status := w\<rparr>)"
  by (simp_all add: same_graph_def agree_def taken_def)

lemma linked_heap [simp]:
  "heap_end (linked_arc y e p s) = heap_end s" "mcount_slab_ptr (linked_arc y e p s) = mcount_slab_ptr s"
  "mcount_slab_size (linked_arc y e p s) = mcount_slab_size s"
  "heap_end (linked_entry x b q s) = heap_end s" "mcount_slab_ptr (linked_entry x b q s) = mcount_slab_ptr s"
  "mcount_slab_size (linked_entry x b q s) = mcount_slab_size s" "heap_end (taken h p n s) = h"
  "pcsample_need_init (linked_arc y e p s) = pcsample_need_init s" "gmon_clock (linked_arc y e p s) = gmon_clock s"
  "pcsample_need_init (linked_entry x b q s) = pcsample_need_init s" "gmon_clock (linked_entry x b q s) = gmon_clock s"
  "pcsample_need_init (taken h p n s) = pcsample_need_init s" "gmon_clock (taken h p n s) = gmon_clock s"
  by (simp_all add: linked_arc_def linked_entry_def taken_def)

lemma clock_ctl [simp]: "gmon_clock (s\<lparr>ctl_status := w\<rparr>) = gmon_clock s"
  by (cases s) simp

lemma heap_ok_cong:
  "heap_end s' = heap_end s \<Longrightarrow> mcount_slab_ptr s' = mcount_slab_ptr s \<Longrightarrow> mcount_slab_size s' = mcount_slab_size s \<Longrightarrow>
   heap_ok start limit s' N = heap_ok start limit s N"
  by (simp add: heap_ok_def)

lemma heap_ok_grows:
  assumes "heap_ok start limit s N" and "unat (heap_end s) \<le> unat (heap_end s')" and "unat (heap_end s') \<le> limit"
    and "mcount_slab_ptr s' = mcount_slab_ptr s" and "mcount_slab_size s' = mcount_slab_size s"
  shows "heap_ok start limit s' N"
  using assms unfolding heap_ok_def by fastforce

lemma sampler_cong:
  "pcsample_need_init s' = pcsample_need_init s \<Longrightarrow> gmon_clock s' = gmon_clock s \<Longrightarrow>
   sampler_ready g s' = sampler_ready g s \<and> sampler_need g s' = sampler_need g s"
  by (simp add: sampler_ready_def sampler_need_def)

text \<open>The record is made whether or not the entry exists.\<close>

lemma record_adds:
  assumes ok: "graph_ok s N G V" and heap: "heap_ok (unat start) (unat limit) s N" and ready: "sampler_ready g s"
    and g: "heap_config g = plain_heap start limit" and limit: "0 < unat start" "unat limit < 2 ^ 30"
    and room: "unat (heap_end s) + sampler_need g s + 2046 \<le> unat limit" and b: "b < HASH_BUCKETS"
    and e: "if e = 0 then x \<notin> fst ` set (V b)
      else \<exists>ys as zs. G b = ys @ (e, as) # zs \<and> fn_self_pc s e = x \<and> y \<notin> fst ` set (arcs_view s as)"
  shows "\<exists>s' N' G'. mcount_record g x y e b s = returns s' \<and> graph_ok s' N' G' (V(b := add_call x y (V b))) \<and>
    heap_ok (unat start) (unat limit) s' N' \<and> sampler_ready g s' \<and>
    unat (heap_end s') + sampler_need g s' \<le> unat (heap_end s) + sampler_need g s + 2046"
proof -
  have "unat start \<le> unat (heap_end s)" using heap by (simp add: heap_ok_def)
  moreover have "unat (heap_end s) + sampler_need g s \<le> unat limit" using room by simp
  ultimately obtain s1 where s1: "start_sampler g s = returns s1" "same_graph s s1"
      "mcount_slab_ptr s1 = mcount_slab_ptr s" "mcount_slab_size s1 = mcount_slab_size s"
      "unat (heap_end s) \<le> unat (heap_end s1)"
      "unat (heap_end s1) + sampler_need g s1 \<le> unat (heap_end s) + sampler_need g s" "sampler_ready g s1"
    using start_sampler_returns[OF ready g _ limit] by blast
  let ?s2 = "s1\<lparr>ctl_status := ctl_status s1 AND NOT NIOS2_STATUS_PIE_MSK\<rparr>"
  have ok2: "graph_ok ?s2 N G V" by (rule graph_ok_same[OF graph_ok_same[OF ok s1(2)]]) simp_all
  have "unat (heap_end s1) \<le> unat limit" using s1(6) room by linarith
  then have "heap_ok (unat start) (unat limit) s1 N" using heap_ok_grows[OF heap s1(5)] s1(3,4) by blast
  then have heap2: "heap_ok (unat start) (unat limit) ?s2 N" by (subst heap_ok_cong[of _ s1]) simp_all
  have room2: "unat (heap_end ?s2) + sampler_need g s1 + 2046 \<le> unat limit" using s1(6) room by simp
  have fin: "sampler_ready g (t\<lparr>ctl_status := w\<rparr>) = sampler_ready g s1 \<and>
      sampler_need g (t\<lparr>ctl_status := w\<rparr>) = sampler_need g s1"
    if "pcsample_need_init t = pcsample_need_init s1" "gmon_clock t = gmon_clock s1" for t w
    using that by (intro sampler_cong) simp_all
  have run: "mcount_record g x y e b s =
      and_then (if e = 0 then new_entry g x b ?s2 else returns (e, ?s2)) (\<lambda>(e, t).
      and_then (new_arc g y e t) (\<lambda>t. returns (t\<lparr>ctl_status := ctl_status s1\<rparr>)))"
    by (simp add: mcount_record_def s1(1) alt_irq_disable_all_def alt_irq_enable_all_def Let_def)
  show ?thesis
  proof (cases "e = 0")
    case False
    then obtain ys as zs where es: "G b = ys @ (e, as) # zs" "fn_self_pc s e = x" "y \<notin> fst ` set (arcs_view s as)"
      using e by auto
    have "fn_self_pc ?s2 e = x" "arcs_view ?s2 as = arcs_view s as"
      using es(2) s1(2) by (simp_all add: same_graph_def agree_def arcs_view_def)
    note es' = this
    from mcount_allocate_fresh[OF heap2 g _ limit] room2 obtain p h n where
      a: "mcount_allocate g 12 ?s2 = (p, taken h p n ?s2)" "p \<notin> N" "p \<noteq> 0" "in_heap g p 12 (taken h p n ?s2)"
        "heap_ok (unat start) (unat limit) (taken h p n ?s2) (insert p N)" "unat h \<le> unat (heap_end ?s2) + 1023" by auto
    let ?t = "linked_arc y e p (taken h p n ?s2)"
    have ok3: "graph_ok (taken h p n ?s2) N G V" by (rule graph_ok_same[OF ok2]) simp_all
    have "fn_self_pc (taken h p n ?s2) e = x" "arcs_view (taken h p n ?s2) as = arcs_view s as"
      using es' by (simp_all add: taken_def arcs_view_def)
    then have "graph_ok ?t (insert p N) (G(b := ys @ (e, p # as) # zs)) (V(b := add_call x y (V b)))"
      using arc_added[OF ok3 b es(1)] es(3) a(2,3) by simp
    then have "graph_ok (?t\<lparr>ctl_status := ctl_status s1\<rparr>) (insert p N) (G(b := ys @ (e, p # as) # zs)) (V(b := add_call x y (V b)))"
      by (rule graph_ok_same) simp_all
    moreover have "mcount_record g x y e b s = returns (?t\<lparr>ctl_status := ctl_status s1\<rparr>)"
      using False new_arc_links[OF a(1,4)] by (simp add: run)
    moreover have "heap_ok (unat start) (unat limit) (?t\<lparr>ctl_status := ctl_status s1\<rparr>) (insert p N)"
      using a(5) by (subst heap_ok_cong[of _ "taken h p n ?s2"]) simp_all
    moreover have "sampler_ready g (?t\<lparr>ctl_status := ctl_status s1\<rparr>) = sampler_ready g s1 \<and>
      sampler_need g (?t\<lparr>ctl_status := ctl_status s1\<rparr>) = sampler_need g s1" by (rule fin) simp_all
    ultimately show ?thesis using a(6) s1(6,7)
      by (intro exI[of _ "?t\<lparr>ctl_status := ctl_status s1\<rparr>"] exI[of _ "insert p N"]
        exI[of _ "G(b := ys @ (e, p # as) # zs)"]) simp
  next
    case True
    then have new: "x \<notin> fst ` set (V b)" using e by simp
    from mcount_allocate_fresh[OF heap2 g _ limit] room2 obtain q h n where
      a: "mcount_allocate g 12 ?s2 = (q, taken h q n ?s2)" "q \<notin> N" "q \<noteq> 0" "in_heap g q 12 (taken h q n ?s2)"
        "heap_ok (unat start) (unat limit) (taken h q n ?s2) (insert q N)" "unat h \<le> unat (heap_end ?s2) + 1023" by auto
    let ?t = "linked_entry x b q (taken h q n ?s2)"
    have "heap_ok (unat start) (unat limit) ?t (insert q N)"
      using a(5) by (subst heap_ok_cong[of _ "taken h q n ?s2"]) simp_all
    from mcount_allocate_fresh[OF this g _ limit] room2 a(6) obtain p h' n' where
      c: "mcount_allocate g 12 ?t = (p, taken h' p n' ?t)" "p \<notin> insert q N" "p \<noteq> 0" "in_heap g p 12 (taken h' p n' ?t)"
        "heap_ok (unat start) (unat limit) (taken h' p n' ?t) (insert p (insert q N))" "unat h' \<le> unat h + 1023" by auto
    let ?r = "linked_arc y q p (taken h' p n' ?t)"
    have swap: "taken h' p n' ?t = linked_entry x b q (taken h' p n' (taken h q n ?s2))"
      by (simp add: taken_def linked_entry_def)
    have ok3: "graph_ok (taken h' p n' (taken h q n ?s2)) N G V"
      by (rule graph_ok_same[OF graph_ok_same[OF ok2 same_graph_taken(1)] same_graph_taken(1)])
    have "graph_ok ?r (insert p (insert q N)) (G(b := (q, [p]) # G b)) (V(b := add_call x y (V b)))"
      unfolding swap by (rule entry_added[OF ok3 b new a(2,3) c(2,3)])
    then have "graph_ok (?r\<lparr>ctl_status := ctl_status s1\<rparr>) (insert p (insert q N)) (G(b := (q, [p]) # G b)) (V(b := add_call x y (V b)))"
      by (rule graph_ok_same) simp_all
    moreover have "mcount_record g x y e b s = returns (?r\<lparr>ctl_status := ctl_status s1\<rparr>)"
      unfolding run using True new_entry_links[OF a(1,4)] new_arc_links[OF c(1,4)] by simp
    moreover have "heap_ok (unat start) (unat limit) (?r\<lparr>ctl_status := ctl_status s1\<rparr>) (insert p (insert q N))"
      using c(5) by (subst heap_ok_cong[of _ "taken h' p n' ?t"]) simp_all
    moreover have "sampler_ready g (?r\<lparr>ctl_status := ctl_status s1\<rparr>) = sampler_ready g s1 \<and>
      sampler_need g (?r\<lparr>ctl_status := ctl_status s1\<rparr>) = sampler_need g s1" by (rule fin) simp_all
    ultimately show ?thesis using a(6) c(6) s1(6,7)
      by (intro exI[of _ "?r\<lparr>ctl_status := ctl_status s1\<rparr>"] exI[of _ "insert p (insert q N)"]
        exI[of _ "G(b := (q, [p]) # G b)"]) simp
  qed
qed

lemma bucket_of_lt: "bucket_of x < HASH_BUCKETS"
proof -
  have "drop_bit 5 x AND 0x3F = take_bit 6 (drop_bit 5 x)" by (simp add: take_bit_eq_mask mask_numeral)
  then have "unat (drop_bit 5 x AND 0x3F) = take_bit 6 (unat (drop_bit 5 x))" by (simp add: unsigned_take_bit_eq)
  then show ?thesis by (simp add: bucket_of_def HASH_BUCKETS_def take_bit_nat_eq_self_iff take_bit_eq_mod)
qed

lemma mcount_step:
  assumes ok: "graph_ok s N G V" and heap: "heap_ok (unat start) (unat limit) s N" and ready: "sampler_ready g s"
    and g: "heap_config g = plain_heap start limit" and limit: "0 < unat start" "unat limit < 2 ^ 30"
    and room: "unat (heap_end s) + sampler_need g s + 2046 \<le> unat limit" and b: "b = bucket_of x"
  shows "\<exists>s' N' G'. mcount g x y s = returns s' \<and> graph_ok s' N' G' (V(b := add_call x y (V b))) \<and>
    heap_ok (unat start) (unat limit) s' N' \<and> sampler_ready g s' \<and>
    unat (heap_end s') + sampler_need g s' \<le> unat (heap_end s) + sampler_need g s + 2046"
proof -
  have lt: "b < HASH_BUCKETS" by (simp add: b bucket_of_lt)
  note B = graph_ok_bucket[OF ok lt]
  note adds = record_adds[OF ok heap ready g limit room lt]
  show ?thesis
  proof (cases "x \<in> fst ` set (V b)")
    case False
    then have "find_fn x (fn_head s ! b) s = returns 0" using find_fn_spec[OF B(1), of x] B(2) by simp
    then have "mcount g x y s = mcount_record g x y 0 b s" by (simp add: mcount_def Let_def flip: b)
    then show ?thesis using adds[of 0 x y] False by simp
  next
    case True
    then obtain ys e as zs where e: "G b = ys @ (e, as) # zs" "fn_self_pc s e = x" "find_fn x (fn_head s ! b) s = returns e" "e \<noteq> 0"
      using find_fn_spec[OF B(1), of x] B(2) by auto
    have "entries_at s (fn_head s ! b) (ys @ (e, as) # zs)" using B(1) by (simp only: e(1))
    then have "arcs_at s (fn_arc_head s e) as" "as \<noteq> []" using entry_arcs by blast+
    note arc = find_arc_spec[OF this, of y]
    have run: "mcount g x y s = and_then (find_arc y (fn_arc_head s e) s) (\<lambda>a.
        if a = 0 then mcount_record g x y e b s else returns (s\<lparr>arc_count := (arc_count s)(a := arc_count s a + 1)\<rparr>))"
      using e(3,4) by (simp add: mcount_def Let_def flip: b)
    show ?thesis
    proof (cases "y \<in> fst ` set (arcs_view s as)")
      case False
      then have "mcount g x y s = mcount_record g x y e b s" using arc run by simp
      then show ?thesis using adds[of e x y] e(1,2,4) False by auto
    next
      case True
      then obtain bs a cs where a: "as = bs @ a # cs" "arc_from_pc s a = y" "find_arc y (fn_arc_head s e) s = returns a" "a \<noteq> 0"
        using arc by auto
      let ?s = "s\<lparr>arc_count := (arc_count s)(a := arc_count s a + 1)\<rparr>"
      have "graph_ok ?s N G (V(b := add_call x y (V b)))" by (rule count_up[OF ok lt e(1)[unfolded a(1)] e(2) a(2)])
      moreover have "mcount g x y s = returns ?s" using a(3,4) run by simp
      moreover have "heap_ok (unat start) (unat limit) ?s N" using heap by (subst heap_ok_cong[of _ s]) simp_all
      moreover have "sampler_ready g ?s = sampler_ready g s \<and> sampler_need g ?s = sampler_need g s"
        by (intro sampler_cong) simp_all
      ultimately show ?thesis using ready by (intro exI[of _ ?s] exI[of _ N] exI[of _ G]) simp
    qed
  qed
qed

section \<open>All calls\<close>

fun mcount_all :: "gmon_config \<Rightarrow> (cint \<times> cint) list \<Rightarrow> gmon \<Rightarrow> gmon outcome" where
  "mcount_all g [] s = returns s"
| "mcount_all g ((x, y) # cs) s = and_then (mcount g x y s) (mcount_all g cs)"

text \<open>The count that the search of mcount itself finds.\<close>

definition recorded :: "cint \<Rightarrow> cint \<Rightarrow> gmon \<Rightarrow> cint outcome" where
  "recorded x y s =
     and_then (find_fn x (fn_head s ! bucket_of x) s) (\<lambda>e.
     if e = 0 then returns 0
     else and_then (find_arc y (fn_arc_head s e) s) (\<lambda>a. returns (if a = 0 then 0 else arc_count s a)))"

lemma recorded_view:
  assumes ok: "graph_ok s N G V"
  shows "recorded x y s = returns (case calls_of (V (bucket_of x)) x y of None \<Rightarrow> 0 | Some c \<Rightarrow> c)"
proof -
  let ?b = "bucket_of x"
  note B = graph_ok_bucket[OF ok bucket_of_lt[of x]]
  have d: "distinct (map fst (V ?b))" using B(3) by (simp add: graph_wf_def)
  show ?thesis
  proof (cases "x \<in> fst ` set (V ?b)")
    case False
    then have "find_fn x (fn_head s ! ?b) s = returns 0" using find_fn_spec[OF B(1), of x] B(2) by simp
    moreover have "map_of (V ?b) x = None" using False by (simp add: map_of_eq_None_iff)
    ultimately show ?thesis by (simp add: recorded_def calls_of_def)
  next
    case True
    then obtain ys e as zs where e: "G ?b = ys @ (e, as) # zs" "fn_self_pc s e = x" "find_fn x (fn_head s ! ?b) s = returns e" "e \<noteq> 0"
      using find_fn_spec[OF B(1), of x] B(2) by auto
    have V: "V ?b = view s ys @ (x, arcs_view s as) # view s zs" using B(2) e(2) by (simp add: e(1))
    then have "(x, arcs_view s as) \<in> set (V ?b)" by simp
    then have m: "map_of (V ?b) x = Some (arcs_view s as)" "distinct (map fst (arcs_view s as))"
      using d B(3) by (auto simp: graph_wf_def)
    have "entries_at s (fn_head s ! ?b) (ys @ (e, as) # zs)" using B(1) by (simp only: e(1))
    then have "arcs_at s (fn_arc_head s e) as" "as \<noteq> []" using entry_arcs by blast+
    note arc = find_arc_spec[OF this, of y]
    show ?thesis
    proof (cases "y \<in> fst ` set (arcs_view s as)")
      case False
      then have "map_of (arcs_view s as) y = None" by (simp add: map_of_eq_None_iff)
      then show ?thesis using arc False e(3,4) m(1) by (simp add: recorded_def calls_of_def)
    next
      case True
      then obtain bs a cs where a: "as = bs @ a # cs" "arc_from_pc s a = y" "find_arc y (fn_arc_head s e) s = returns a" "a \<noteq> 0"
        using arc by auto
      have "(y, arc_count s a) \<in> set (arcs_view s as)" using a(2) by (simp add: a(1))
      then have "map_of (arcs_view s as) y = Some (arc_count s a)" using m(2) by simp
      then show ?thesis using a(3,4) e(3,4) m(1) by (simp add: recorded_def calls_of_def)
    qed
  qed
qed

definition in_bucket :: "nat \<Rightarrow> (cint \<times> cint) list \<Rightarrow> graph" where
  "in_bucket b cs = fold (\<lambda>(x, y). add_call x y) (filter (\<lambda>(x, y). bucket_of x = b) cs) []"

lemma in_bucket_snoc:
  "in_bucket b (cs @ [(x, y)]) = (if b = bucket_of x then add_call x y (in_bucket b cs) else in_bucket b cs)"
  by (simp add: in_bucket_def)

lemma count_list_filter: "P z \<Longrightarrow> count_list (filter P cs) z = count_list cs z"
  by (induction cs) auto

lemma in_bucket_calls:
  "calls_of (in_bucket (bucket_of x) cs) x y = (if (x, y) \<in> set cs then Some (of_nat (count_list cs (x, y))) else None)"
  unfolding in_bucket_def calls_counted by (simp add: count_list_filter)

lemma mcount_all_snoc: "mcount_all g (cs @ [(x, y)]) = (\<lambda>s. and_then (mcount_all g cs s) (mcount g x y))"
proof (induction cs)
  case Nil
  have "mcount_all g [] = returns" by (rule ext) simp
  then show ?case by (intro ext) simp
next
  case (Cons c cs)
  then show ?case by (cases c) (intro ext, simp add: and_then_assoc)
qed

lemma mcount_all_graph:
  assumes g: "heap_config g = plain_heap start limit" and limit: "0 < unat start" "unat limit < 2 ^ 30"
    and ready: "sampler_ready g (gmon_reset g t)"
  shows "unat start + sampler_need g (gmon_reset g t) + 2046 * length cs \<le> unat limit \<Longrightarrow>
    \<exists>s N G. mcount_all g cs (gmon_reset g t) = returns s \<and> graph_ok s N G (\<lambda>b. in_bucket b cs) \<and>
      heap_ok (unat start) (unat limit) s N \<and> sampler_ready g s \<and>
      unat (heap_end s) + sampler_need g s \<le> unat start + sampler_need g (gmon_reset g t) + 2046 * length cs"
proof (induction cs rule: rev_induct)
  case Nil
  have h: "heap_end (gmon_reset g t) = start" by (simp add: gmon_reset_def g plain_heap_def)
  have "graph_ok (gmon_reset g t) {} (\<lambda>_. []) (\<lambda>b. in_bucket b [])"
    by (simp add: graph_ok_def gmon_reset_def in_bucket_def graph_wf_def)
  moreover have "heap_ok (unat start) (unat limit) (gmon_reset g t) {}"
    using Nil h by (simp add: heap_ok_def) (simp add: gmon_reset_def)
  ultimately show ?case using ready h by auto
next
  case (snoc c cs)
  obtain x y where c: "c = (x, y)" by fastforce
  obtain s N G where s: "mcount_all g cs (gmon_reset g t) = returns s" "graph_ok s N G (\<lambda>b. in_bucket b cs)"
      "heap_ok (unat start) (unat limit) s N" "sampler_ready g s"
      "unat (heap_end s) + sampler_need g s \<le> unat start + sampler_need g (gmon_reset g t) + 2046 * length cs"
    using snoc by auto
  have room: "unat (heap_end s) + sampler_need g s + 2046 \<le> unat limit" using s(5) snoc.prems by simp
  from mcount_step[OF s(2,3,4) g limit room refl, of x y] obtain s' N' G' where
    s': "mcount g x y s = returns s'"
      "graph_ok s' N' G' ((\<lambda>b. in_bucket b cs)(bucket_of x := add_call x y (in_bucket (bucket_of x) cs)))"
      "heap_ok (unat start) (unat limit) s' N'" "sampler_ready g s'"
      "unat (heap_end s') + sampler_need g s' \<le> unat (heap_end s) + sampler_need g s + 2046"
    by blast
  have "(\<lambda>b. in_bucket b cs)(bucket_of x := add_call x y (in_bucket (bucket_of x) cs)) = (\<lambda>b. in_bucket b (cs @ [(x, y)]))"
    by (rule ext) (simp add: in_bucket_snoc)
  with s'(2) have "graph_ok s' N' G' (\<lambda>b. in_bucket b (cs @ [(x, y)]))" by (simp only:)
  then show ?case using s(1,5) s'(1,3,4,5) c by (intro exI[of _ s'] exI[of _ N'] exI[of _ G']) (simp add: mcount_all_snoc)
qed

text \<open>C10. The call graph is complete: starting from the reset state with a heap large enough,
  whatever the sequence of calls that mcount is told of, mcount returns from every one, and its
  lists hold for every callee and caller the number of calls, zero for a pair that was not called.\<close>

theorem calls_recorded:
  assumes "heap_config g = plain_heap start limit" and "0 < unat start" and "unat limit < 2 ^ 30"
    and "sampler_ready g (gmon_reset g t)"
    and "unat start + sampler_need g (gmon_reset g t) + 2046 * length cs \<le> unat limit"
  shows "\<exists>s. mcount_all g cs (gmon_reset g t) = returns s \<and>
    (\<forall>x y. recorded x y s = returns (of_nat (count_list cs (x, y))))"
proof -
  obtain s N G where s: "mcount_all g cs (gmon_reset g t) = returns s" "graph_ok s N G (\<lambda>b. in_bucket b cs)"
    using mcount_all_graph[OF assms] by blast
  have "recorded x y s = returns (of_nat (count_list cs (x, y)))" for x y
    using recorded_view[OF s(2), of x y]
    by (simp add: in_bucket_calls count_notin split: if_splits)
  then show ?thesis using s(1) by blast
qed

definition wide_heap :: gmon_config where
  "wide_heap = two_functions\<lparr>heap_config := plain_heap 0x30000 0x40000\<rparr>"

definition clock_1000 :: "unit timer" where
  "clock_1000 = (timer_reset ())\<lparr>tick_rate := 1000\<rparr>"

lemma calls_recorded_witness:
  "\<exists>s. mcount_all wide_heap [(0x20000, 0x20024), (0x20020, 0x20010), (0x20000, 0x20024)]
      (gmon_reset wide_heap clock_1000) = returns s \<and>
    (\<forall>x y. recorded x y s =
       returns (of_nat (count_list [(0x20000, 0x20024), (0x20020, 0x20010), (0x20000, 0x20024)] (x, y))))"
proof (rule calls_recorded)
  show "heap_config wide_heap = plain_heap 0x30000 0x40000" by (simp add: wide_heap_def)
  have "ring clock_1000 alt_alarm_list [] \<and> sample_alarm wide_heap \<notin> set [alt_alarm_list] \<and> sample_alarm wide_heap \<noteq> 0"
    by (simp add: clock_1000_def timer_reset_def ALT_LLIST_HEAD_def ring_def alt_alarm_list_def set_next_def set_prev_def
      wide_heap_def two_functions_def)
  then show "sampler_ready wide_heap (gmon_reset wide_heap clock_1000)"
    unfolding sampler_ready_def by (intro disjI2 exI[of _ "[]"]) (simp add: gmon_reset_def)
  show "unat (0x30000 :: cint) + sampler_need wide_heap (gmon_reset wide_heap clock_1000) +
      2046 * length [(0x20000 :: cint, 0x20024 :: cint), (0x20020, 0x20010), (0x20000, 0x20024)] \<le> unat (0x40000 :: cint)"
    by (simp add: sampler_need_def wide_heap_def two_functions_def gmon_reset_def)
qed simp_all

end
