(* ===== verification/Cache.thy ===== *)
theory Cache
  imports Fd
begin

text \<open>
  The caches: the flushing routines of sys/alt_cache.h, uncached memory and the handler of fatal ECC
  errors.  What a cache instruction does is the processor's business;
  the state holds the instructions that were executed, in order.  Pointers are words and wrap.
\<close>

section \<open>system.h\<close>

definition NIOS2_DCACHE_SIZE :: cint where "NIOS2_DCACHE_SIZE = 2048"
definition NIOS2_DCACHE_LINE_SIZE :: cint where "NIOS2_DCACHE_LINE_SIZE = 32"
definition NIOS2_ICACHE_SIZE :: cint where "NIOS2_ICACHE_SIZE = 4096"
definition NIOS2_ICACHE_LINE_SIZE :: cint where "NIOS2_ICACHE_LINE_SIZE = 32"
definition ALT_CPU_DCACHE_LINE_SIZE :: cint where "ALT_CPU_DCACHE_LINE_SIZE = 32"
definition ALT_CPU_DCACHE_BYPASS_MASK :: cint where "ALT_CPU_DCACHE_BYPASS_MASK = 0x80000000"

lemmas cache_sizes = NIOS2_DCACHE_SIZE_def NIOS2_DCACHE_LINE_SIZE_def NIOS2_ICACHE_SIZE_def
  NIOS2_ICACHE_LINE_SIZE_def ALT_CPU_DCACHE_LINE_SIZE_def ALT_CPU_DCACHE_BYPASS_MASK_def

section \<open>Flushing\<close>

datatype cache_op = Flushda cint | Initda cint | Flushd cint | Initd cint | Flushi cint | Initi cint | Flushp

record caches =
  cache_ops :: "cache_op list"

definition issue :: "cache_op \<Rightarrow> 'a caches_scheme \<Rightarrow> 'a caches_scheme" where
  "issue op s = s\<lparr>cache_ops := cache_ops s @ [op]\<rparr>"

text \<open>The loop the routines share; it yields \<open>i\<close> as it is left.\<close>

partial_function (option) flush_loop ::
  "(cint \<Rightarrow> cache_op) \<Rightarrow> cint \<Rightarrow> cint \<Rightarrow> cint \<Rightarrow> 'a caches_scheme \<Rightarrow> (cint \<times> 'a caches_scheme) outcome" where
  "flush_loop instr line i stop s =
     (if i < stop then flush_loop instr line (i + line) stop (issue (instr i) s) else returns (i, s))"

definition alt_dcache_flush :: "cint \<Rightarrow> cint \<Rightarrow> 'a caches_scheme \<Rightarrow> 'a caches_scheme outcome" where
  "alt_dcache_flush start len s =
     (let stop = start + len
      in and_then (flush_loop Flushda NIOS2_DCACHE_LINE_SIZE start stop s) (\<lambda>(i, s).
         returns (if start AND (NIOS2_DCACHE_LINE_SIZE - 1) \<noteq> 0 then issue (Flushda i) s else s)))"

definition alt_dcache_flush_no_writeback :: "cint \<Rightarrow> cint \<Rightarrow> 'a caches_scheme \<Rightarrow> 'a caches_scheme outcome" where
  "alt_dcache_flush_no_writeback start len s =
     (let stop = start + len
      in and_then (flush_loop Initda NIOS2_DCACHE_LINE_SIZE start stop s) (\<lambda>(i, s).
         returns (if start AND (NIOS2_DCACHE_LINE_SIZE - 1) \<noteq> 0 then issue (Initda i) s else s)))"

definition alt_icache_flush :: "cint \<Rightarrow> cint \<Rightarrow> 'a caches_scheme \<Rightarrow> 'a caches_scheme outcome" where
  "alt_icache_flush start len s =
     (let len = (if NIOS2_ICACHE_SIZE < len then NIOS2_ICACHE_SIZE else len);
          stop = start + len
      in and_then (flush_loop Flushi NIOS2_ICACHE_LINE_SIZE start stop s) (\<lambda>(i, s).
         (let s = (if start AND (NIOS2_ICACHE_LINE_SIZE - 1) \<noteq> 0 then issue (Flushi i) s else s)
          in returns (issue Flushp s))))"

definition alt_dcache_flush_all :: "'a caches_scheme \<Rightarrow> 'a caches_scheme outcome" where
  "alt_dcache_flush_all s =
     and_then (flush_loop Flushd NIOS2_DCACHE_LINE_SIZE 0 NIOS2_DCACHE_SIZE s) (\<lambda>(i, s). returns s)"

definition alt_icache_flush_all :: "'a caches_scheme \<Rightarrow> 'a caches_scheme outcome" where
  "alt_icache_flush_all s = alt_icache_flush 0 NIOS2_ICACHE_SIZE s"

section \<open>Uncached memory\<close>

text \<open>\<open>malign\<close> and \<open>release\<close> are memalign and free of newlib, with their state \<open>'h\<close>.\<close>

record 'h uncached = caches +
  heap :: 'h

definition alt_remap_cached :: "cint \<Rightarrow> cint \<Rightarrow> cint" where
  "alt_remap_cached ptr len = ptr AND NOT ALT_CPU_DCACHE_BYPASS_MASK"

definition alt_remap_uncached :: "cint \<Rightarrow> cint \<Rightarrow> cint" where
  "alt_remap_uncached ptr len = 0"

definition aligned_size :: "cint \<Rightarrow> cint" where
  "aligned_size sz =
     (let num_lines = (sz + ALT_CPU_DCACHE_LINE_SIZE - 1) div ALT_CPU_DCACHE_LINE_SIZE
      in num_lines * ALT_CPU_DCACHE_LINE_SIZE)"

definition alt_uncached_malloc ::
  "(cint \<Rightarrow> cint \<Rightarrow> 'h \<Rightarrow> cint \<times> 'h) \<Rightarrow> cint \<Rightarrow> 'h uncached \<Rightarrow> (cint \<times> 'h uncached) outcome" where
  "alt_uncached_malloc malign sz s =
     (case malign ALT_CPU_DCACHE_LINE_SIZE (aligned_size sz) (heap s) of (ptr, h) \<Rightarrow>
        (let s = s\<lparr>heap := h\<rparr>
         in if ptr = 0 then returns (0, s)
            else and_then (alt_dcache_flush ptr (aligned_size sz) s) (\<lambda>s.
                 returns (ptr OR ALT_CPU_DCACHE_BYPASS_MASK, s))))"

definition alt_uncached_free :: "(cint \<Rightarrow> 'h \<Rightarrow> 'h) \<Rightarrow> cint \<Rightarrow> 'h uncached \<Rightarrow> 'h uncached" where
  "alt_uncached_free release ptr s = s\<lparr>heap := release (ptr AND NOT ALT_CPU_DCACHE_BYPASS_MASK) (heap s)\<rparr>"

section \<open>The handler of fatal ECC errors\<close>

record ecc = caches +
  alt_exception_ecc_fatal_handler :: cint

text \<open>\<open>p\<close> is the address of the variable.\<close>

definition alt_ecc_fatal_exception_register :: "cint \<Rightarrow> cint \<Rightarrow> ecc \<Rightarrow> ecc outcome" where
  "alt_ecc_fatal_exception_register p h s = alt_dcache_flush p 4 (s\<lparr>alt_exception_ecc_fatal_handler := h\<rparr>)"

section \<open>What is flushed\<close>

text \<open>The lines that cover \<open>n\<close> bytes when the first is at the start of a line.\<close>

definition line_count :: "cint \<Rightarrow> nat" where
  "line_count len = (unat len + 31) div 32"

definition line_starts :: "cint \<Rightarrow> nat \<Rightarrow> cint list" where
  "line_starts start n = map (\<lambda>k. start + of_nat (32 * k)) [0..<n]"

lemma line_starts_Suc: "line_starts start (Suc n) = start # line_starts (start + 32) n"
proof -
  have "[0..<Suc n] = 0 # map Suc [0..<n]" by (simp add: map_Suc_upt upt_conv_Cons)
  then show ?thesis by (simp add: line_starts_def algebra_simps)
qed

lemma flush_loop_run:
  "unat i + 32 * n < 2 ^ 32 \<Longrightarrow> unat i + 32 * (n - 1) < unat stop \<or> n = 0 \<Longrightarrow> unat stop \<le> unat i + 32 * n \<Longrightarrow>
   flush_loop instr 32 i stop s =
     returns (i + of_nat (32 * n), s\<lparr>cache_ops := cache_ops s @ map instr (line_starts i n)\<rparr>)"
proof (induction n arbitrary: i s)
  case 0
  then show ?case by (subst flush_loop.simps) (simp add: word_less_nat_alt line_starts_def)
next
  case (Suc n)
  have i: "unat (i + 32) = unat i + 32" using Suc.prems(1) by (subst unat_add_lem[THEN iffD1]) simp_all
  have "flush_loop instr 32 (i + 32) stop (issue (instr i) s) =
      returns (i + 32 + of_nat (32 * n), (issue (instr i) s)\<lparr>cache_ops := cache_ops (issue (instr i) s) @
        map instr (line_starts (i + 32) n)\<rparr>)"
    using Suc.prems i by (intro Suc.IH) (cases n; simp)+
  moreover have "i < stop" using Suc.prems(2) by (simp add: word_less_nat_alt)
  ultimately show ?case
    by (subst flush_loop.simps) (simp add: issue_def line_starts_Suc algebra_simps)
qed

lemma flush_loop_lines:
  assumes "unat start + unat len \<le> 2 ^ 32 - 32"
  shows "flush_loop instr 32 start (start + len) s =
    returns (start + of_nat (32 * line_count len),
      s\<lparr>cache_ops := cache_ops s @ map instr (line_starts start (line_count len))\<rparr>)"
proof -
  have "unat (start + len) = unat start + unat len" using assms by (subst unat_add_lem[THEN iffD1]) simp_all
  then show ?thesis using assms
    by (intro flush_loop_run) (simp_all add: line_count_def, linarith+)
qed

text \<open>The lines a routine flushes: one more when the region is not aligned.\<close>

definition flushed :: "cint \<Rightarrow> cint \<Rightarrow> cint list" where
  "flushed start len = line_starts start (line_count len + (if unat start mod 32 = 0 then 0 else 1))"

lemma misaligned: "(x :: cint) AND 31 \<noteq> 0 \<longleftrightarrow> unat x mod 32 \<noteq> 0"
proof -
  have "x AND 31 = take_bit 5 x" by (simp add: take_bit_eq_mask mask_numeral)
  then have "unat (x AND 31) = unat x mod 32" by (simp add: take_bit_eq_mod unat_mod_distrib)
  then show ?thesis by (metis unat_eq_zero)
qed

lemma line_starts_last: "line_starts start (Suc n) = line_starts start n @ [start + of_nat (32 * n)]"
  by (simp add: line_starts_def)

lemma alt_dcache_flush_run:
  assumes "unat start + unat len \<le> 2 ^ 32 - 32"
  shows "alt_dcache_flush start len s = returns (s\<lparr>cache_ops := cache_ops s @ map Flushda (flushed start len)\<rparr>)"
  using assms
  by (simp add: alt_dcache_flush_def NIOS2_DCACHE_LINE_SIZE_def flush_loop_lines misaligned flushed_def line_starts_last issue_def)

lemma alt_dcache_flush_no_writeback_run:
  assumes "unat start + unat len \<le> 2 ^ 32 - 32"
  shows "alt_dcache_flush_no_writeback start len s =
    returns (s\<lparr>cache_ops := cache_ops s @ map Initda (flushed start len)\<rparr>)"
  using assms
  by (simp add: alt_dcache_flush_no_writeback_def NIOS2_DCACHE_LINE_SIZE_def flush_loop_lines misaligned flushed_def
    line_starts_last issue_def)

definition clipped :: "cint \<Rightarrow> cint" where
  "clipped len = (if NIOS2_ICACHE_SIZE < len then NIOS2_ICACHE_SIZE else len)"

lemma alt_icache_flush_run:
  assumes "unat start + unat (clipped len) \<le> 2 ^ 32 - 32"
  shows "alt_icache_flush start len s =
    returns (s\<lparr>cache_ops := cache_ops s @ map Flushi (flushed start (clipped len)) @ [Flushp]\<rparr>)"
  using assms
  by (simp add: alt_icache_flush_def NIOS2_ICACHE_LINE_SIZE_def flush_loop_lines misaligned flushed_def
    line_starts_last issue_def flip: clipped_def)

lemma unat_small: "m < 2 ^ 32 \<Longrightarrow> unat (of_nat m :: cint) = m"
  by (simp add: unat_of_nat)

lemma len_num: "LENGTH(32) = 32"
  by simp

lemma flushed_nth:
  assumes "unat start + unat len \<le> 2 ^ 32 - 32" and "k < length (flushed start len)"
  shows "unat (flushed start len ! k) = unat start + 32 * k"
proof -
  have "32 * k \<le> unat len + 31" using assms(2) by (simp add: flushed_def line_starts_def line_count_def split: if_splits)
  then have lt: "unat start + 32 * k < 2 ^ 32" using assms(1) by simp
  then have k: "unat (of_nat (32 * k) :: cint) = 32 * k" by (intro unat_small) linarith
  have "unat (start + of_nat (32 * k)) = unat start + unat (of_nat (32 * k) :: cint)"
    by (rule unat_add_lem[THEN iffD1]) (use lt in \<open>simp only: k len_num\<close>)
  then have "unat (start + of_nat (32 * k)) = unat start + 32 * k" by (simp only: k)
  then show ?thesis using assms(2) by (simp add: flushed_def line_starts_def)
qed

lemma flushed_length: "length (flushed start len) = line_count len + (if unat start mod 32 = 0 then 0 else 1)"
  by (simp add: flushed_def line_starts_def)

lemma flushed_covers:
  assumes "unat start + unat len \<le> 2 ^ 32 - 32" and "unat start \<le> unat a" and "unat a < unat start + unat len"
  shows "\<exists>i\<in>set (flushed start len). unat i div 32 = unat (a :: cint) div 32"
proof -
  define k where "k = unat a div 32 - unat start div 32"
  have "unat start div 32 \<le> unat a div 32" using assms(2) by (rule div_le_mono)
  then have a: "unat a div 32 = unat start div 32 + k" by (simp add: k_def)
  have s: "unat start = 32 * (unat start div 32) + unat start mod 32" by simp
  have "32 * (unat a div 32) \<le> unat a" by simp
  then have k: "32 * k \<le> unat a - 32 * (unat start div 32)" unfolding a by simp
  have "k < length (flushed start len)"
  proof (cases "unat start mod 32 = 0")
    case True
    then have "32 * k < unat len" using k s assms(2,3) by linarith
    then have "32 * Suc k \<le> unat len + 31" by simp
    then show ?thesis using True by (simp add: flushed_length line_count_def less_eq_div_iff_mult_less_eq flip: Suc_le_eq)
  next
    case False
    have "unat start mod 32 \<le> 31" using mod_less_divisor[of 32 "unat start"] by simp
    then have "32 * k \<le> unat len + 31" using k s assms(2,3) by linarith
    then show ?thesis using False by (simp add: flushed_length line_count_def less_eq_div_iff_mult_less_eq less_Suc_eq_le)
  qed
  moreover from this have "unat (flushed start len ! k) div 32 = unat a div 32"
    using flushed_nth[OF assms(1)] a by simp
  ultimately show ?thesis using nth_mem by blast
qed

lemma flushed_near:
  assumes "unat start + unat len \<le> 2 ^ 32 - 32" and "i \<in> set (flushed start len)"
  shows "unat start \<le> unat i \<and> unat i < unat start + unat len + 32"
proof -
  obtain k where k: "k < length (flushed start len)" "i = flushed start len ! k" using assms(2) by (metis in_set_conv_nth)
  then have "32 * k < unat len + 32" by (simp add: flushed_length line_count_def split: if_splits)
  then show ?thesis using flushed_nth[OF assms(1) k(1)] k(2) by simp
qed

text \<open>Flushing a region of the data cache executes nothing but flushes, one at least of every
  line in which a byte of the region lies, none of an address a line or more behind its end.\<close>

theorem dcache_flush_covers:
  assumes "unat start + unat len \<le> 2 ^ 32 - 32"
  shows "\<exists>addrs. alt_dcache_flush start len s = returns (s\<lparr>cache_ops := cache_ops s @ map Flushda addrs\<rparr>) \<and>
    (\<forall>a :: cint. unat start \<le> unat a \<and> unat a < unat start + unat len \<longrightarrow> (\<exists>i\<in>set addrs. unat i div 32 = unat a div 32)) \<and>
    (\<forall>i\<in>set addrs. unat start \<le> unat i \<and> unat i < unat start + unat len + 32)"
  using alt_dcache_flush_run[OF assms] flushed_covers[OF assms] flushed_near[OF assms] by blast

text \<open>However long the region, flushing the instruction cache flushes every set of the cache
  (128 lines, selected by the address modulo 4096) that holds code of the region, then the
  pipeline.\<close>

theorem icache_flush_covers:
  assumes "unat start + unat len \<le> 2 ^ 32 - 32"
  shows "\<exists>addrs. alt_icache_flush start len s =
      returns (s\<lparr>cache_ops := cache_ops s @ map Flushi addrs @ [Flushp]\<rparr>) \<and>
    length addrs \<le> 129 \<and>
    (\<forall>a :: cint. unat start \<le> unat a \<and> unat a < unat start + unat len \<longrightarrow>
       (\<exists>i\<in>set addrs. unat i div 32 mod 128 = unat a div 32 mod 128))"
proof -
  have le: "unat (clipped len) \<le> unat len" and at_most: "unat (clipped len) \<le> 4096"
    by (auto simp: clipped_def NIOS2_ICACHE_SIZE_def word_less_nat_alt)
  have b: "unat start + unat (clipped len) \<le> 2 ^ 32 - 32" using assms le by linarith
  have "\<exists>i\<in>set (flushed start (clipped len)). unat i div 32 mod 128 = unat a div 32 mod 128"
    if a: "unat start \<le> unat a" "unat a < unat start + unat len" for a :: cint
  proof (cases "unat a < unat start + unat (clipped len)")
    case True
    then show ?thesis using flushed_covers[OF b a(1)] by metis
  next
    case False
    then have c: "unat (clipped len) = 4096"
      using a(2) by (auto simp: clipped_def NIOS2_ICACHE_SIZE_def split: if_splits)
    define a' where "a' = unat start + (unat a - unat start) mod 4096"
    have a': "unat start \<le> a'" "a' < unat start + 4096" "a' < 2 ^ 32" using b c by (simp_all add: a'_def)
    note u = unat_small[OF a'(3)]
    obtain i where i: "i \<in> set (flushed start (clipped len))" "unat i div 32 = a' div 32"
      using flushed_covers[OF b, of "of_nat a'", unfolded u c, OF a'(1,2)] by blast
    have "unat a = a' + 4096 * ((unat a - unat start) div 4096)"
      using a(1) by (simp add: a'_def)
    then have "unat a = a' + 128 * ((unat a - unat start) div 4096) * 32" by simp
    then have "unat a div 32 = a' div 32 + 128 * ((unat a - unat start) div 4096)" by (metis div_mult_self1 add.commute zero_neq_numeral)
    then show ?thesis using i by (intro bexI[of _ i]) simp_all
  qed
  moreover have "length (flushed start (clipped len)) \<le> 129"
    using div_le_mono[of "unat (clipped len) + 31" 4127 32] at_most by (simp add: flushed_length line_count_def)
  ultimately show ?thesis using alt_icache_flush_run[OF b] by blast
qed

lemma dcache_flush_covers_witness:
  "\<exists>addrs. alt_dcache_flush 0x1001E 4 \<lparr>cache_ops = []\<rparr> = returns \<lparr>cache_ops = map Flushda addrs\<rparr> \<and>
    (\<exists>i\<in>set addrs. unat i div 32 = 0x800) \<and> (\<exists>i\<in>set addrs. unat i div 32 = 0x801)"
proof -
  from dcache_flush_covers[of "0x1001E" 4 "\<lparr>cache_ops = []\<rparr>"] obtain addrs where
    r: "alt_dcache_flush 0x1001E 4 \<lparr>cache_ops = []\<rparr> = returns \<lparr>cache_ops = map Flushda addrs\<rparr>"
      "\<And>a :: cint. 0x1001E \<le> unat a \<Longrightarrow> unat a < 0x10022 \<Longrightarrow> \<exists>i\<in>set addrs. unat i div 32 = unat a div 32"
    by auto
  from r(2)[of "0x1001E"] r(2)[of "0x10020"] show ?thesis using r(1) by auto
qed

lemma icache_flush_covers_witness:
  "\<exists>addrs. alt_icache_flush 0x20004 0x8000 \<lparr>cache_ops = []\<rparr> = returns \<lparr>cache_ops = map Flushi addrs @ [Flushp]\<rparr> \<and>
    length addrs \<le> 129 \<and> (\<exists>i\<in>set addrs. unat i div 32 mod 128 = 0x27ABC div 32 mod 128)"
proof -
  from icache_flush_covers[of "0x20004" "0x8000" "\<lparr>cache_ops = []\<rparr>"] obtain addrs where
    r: "alt_icache_flush 0x20004 0x8000 \<lparr>cache_ops = []\<rparr> = returns \<lparr>cache_ops = map Flushi addrs @ [Flushp]\<rparr>"
      "length addrs \<le> 129"
      "\<And>a :: cint. 0x20004 \<le> unat a \<Longrightarrow> unat a < 0x28004 \<Longrightarrow> \<exists>i\<in>set addrs. unat i div 32 mod 128 = unat a div 32 mod 128"
    by auto
  from r(3)[of "0x27ABC"] show ?thesis using r(1,2) by auto
qed

text \<open>Discarding without write-back has the same loop: a region that starts inside a line and lies
  in that line alone also discards the next line, where no byte of the region is.\<close>

lemma no_writeback_discards_next_line:
  assumes "unat start mod 32 \<noteq> 0" and "0 < unat len" and "unat start mod 32 + unat len \<le> 32"
    and "unat start + unat len \<le> 2 ^ 32 - 32"
  shows "alt_dcache_flush_no_writeback start len s =
    returns (s\<lparr>cache_ops := cache_ops s @ [Initda start, Initda (start + 32)]\<rparr>)"
proof -
  have "line_count len = 1" using assms(2,3) by (simp add: line_count_def)
  then have "flushed start len = [start, start + 32]" using assms(1) by (simp add: flushed_def line_starts_def)
  then show ?thesis using alt_dcache_flush_no_writeback_run[OF assms(4)] by simp
qed

section \<open>Uncached blocks\<close>

lemma aligned_size_31: "aligned_size sz = (sz + 31) div 32 * 32"
proof -
  have "sz + 32 - 1 = sz + 31" by (simp add: algebra_simps)
  then show ?thesis by (simp only: aligned_size_def ALT_CPU_DCACHE_LINE_SIZE_def Let_def)
qed

lemma aligned_size_enough:
  assumes "unat sz \<le> 2 ^ 32 - 32"
  shows "unat (aligned_size sz) = 32 * line_count sz \<and> unat sz \<le> unat (aligned_size sz)"
proof -
  have "unat (sz + 31) = unat sz + 31" using assms by (subst unat_add_lem[THEN iffD1]) simp_all
  then have n: "unat ((sz + 31) div 32) = line_count sz" by (simp add: line_count_def unat_div_distrib)
  have "32 * line_count sz < 2 ^ 32" using assms by (simp add: line_count_def)
  then have "unat ((sz + 31) div 32 * 32) = 32 * line_count sz" using n by (subst unat_mult_lem[THEN iffD1]) simp_all
  then show ?thesis by (simp only: aligned_size_31) (simp add: line_count_def)
qed

lemma bypass_bit:
  assumes "unat (p :: cint) < 2 ^ 31"
  shows "p AND NOT ALT_CPU_DCACHE_BYPASS_MASK = p" "(p OR ALT_CPU_DCACHE_BYPASS_MASK) AND NOT ALT_CPU_DCACHE_BYPASS_MASK = p"
proof -
  have m: "NOT ALT_CPU_DCACHE_BYPASS_MASK = mask 31" "take_bit 31 ALT_CPU_DCACHE_BYPASS_MASK = 0"
    by (simp_all add: ALT_CPU_DCACHE_BYPASS_MASK_def mask_eq_exp_minus_1)
  have "take_bit 31 p = p" using assms by (simp add: take_bit_eq_mod word_mod_less_divisor word_less_nat_alt mod_word_less)
  then show "p AND NOT ALT_CPU_DCACHE_BYPASS_MASK = p" "(p OR ALT_CPU_DCACHE_BYPASS_MASK) AND NOT ALT_CPU_DCACHE_BYPASS_MASK = p"
    unfolding m(1) by (simp_all add: m(2) flip: take_bit_eq_mask)
qed

text \<open>When memalign grants a block as documented (at a line boundary, below the uncached half of the
  address space), alt_uncached_malloc returns its uncached alias after flushing exactly the lines
  of the block, which has room for the request; and alt_uncached_free gives free the very
  address that memalign returned.\<close>

theorem uncached_roundtrip:
  assumes "malign 32 (aligned_size sz) (heap s) = (p, h)" and "p \<noteq> 0" and "unat p mod 32 = 0"
    and "unat p + unat (aligned_size sz) \<le> 2 ^ 31" and "unat sz \<le> 2 ^ 32 - 32" and "0 < unat sz"
  shows "\<exists>q s'. alt_uncached_malloc malign sz s = returns (q, s') \<and> bit q 31 \<and> unat sz \<le> unat (aligned_size sz) \<and>
    cache_ops s' = cache_ops s @ map Flushda (line_starts p (line_count sz)) \<and> heap s' = h \<and>
    heap (alt_uncached_free release q s') = release p h"
proof -
  note size = aligned_size_enough[OF assms(5)]
  have small: "unat p < 2 ^ 31" using assms(4,6) size by linarith
  have "line_count (aligned_size sz) = line_count sz" using size by (simp add: line_count_def)
  then have "flushed p (aligned_size sz) = line_starts p (line_count sz)" using assms(3) by (simp add: flushed_def)
  then have "alt_uncached_malloc malign sz s = returns (p OR ALT_CPU_DCACHE_BYPASS_MASK,
      s\<lparr>heap := h, cache_ops := cache_ops s @ map Flushda (line_starts p (line_count sz))\<rparr>)"
    using assms(1,2,4) by (simp add: alt_uncached_malloc_def alt_dcache_flush_run ALT_CPU_DCACHE_LINE_SIZE_def Let_def)
  moreover have "bit (p OR ALT_CPU_DCACHE_BYPASS_MASK) 31"
    by (simp add: bit_simps ALT_CPU_DCACHE_BYPASS_MASK_def)
  ultimately show ?thesis using size bypass_bit[OF small] by (simp add: alt_uncached_free_def)
qed

text \<open>A request of more than \<open>2 ^ 32 - 32\<close> bytes becomes one of none.\<close>

lemma aligned_size_wraps:
  assumes "2 ^ 32 - 32 < unat sz"
  shows "aligned_size sz = 0"
proof -
  have "unat (sz + 31) = (unat sz + 31) mod 2 ^ 32" by (simp add: unat_word_ariths)
  also have "\<dots> = unat sz + 31 - 2 ^ 32" using assms unat_bound[of sz] by (simp add: le_mod_geq)
  finally have "unat (sz + 31) < 32" using assms unat_bound[of sz] by simp
  then have "unat ((sz + 31) div 32) = 0" by (simp add: unat_div_distrib)
  then have "(sz + 31) div 32 = 0" by (simp only: unat_eq_zero)
  then show ?thesis by (simp only: aligned_size_31) simp
qed

lemma uncached_roundtrip_witness:
  "\<exists>q s'. alt_uncached_malloc (\<lambda>al n h. (h, h + n)) 33 \<lparr>cache_ops = [], heap = 0x30000\<rparr> = returns (q, s') \<and> bit q 31 \<and>
    cache_ops s' = [Flushda 0x30000, Flushda 0x30020] \<and> heap s' = 0x30040 \<and>
    heap (alt_uncached_free (\<lambda>p h. p) q s') = 0x30000"
proof -
  have "aligned_size 33 = 64" by (simp add: aligned_size_def ALT_CPU_DCACHE_LINE_SIZE_def)
  moreover have "line_starts 0x30000 (line_count 33) = [0x30000, 0x30020]"
    by (simp add: line_starts_def line_count_def upt_rec)
  ultimately show ?thesis
    using uncached_roundtrip[of "\<lambda>al n h. (h, h + n)" 33 "\<lparr>cache_ops = [], heap = 0x30000\<rparr>" "0x30000" "0x30040" "\<lambda>p h. p"]
    by auto
qed

end
