(* ===== verification/Load.thy ===== *)
theory Load
  imports Cache
begin

text \<open>
  The loader of alt_load.h and alt_load.c: when the program executes from flash, the sections that
  must be in RAM are copied there word by word, then both caches are flushed.  Memory is a map from
  the addresses of words to words; the addresses of the sections are the symbols of the linker.
\<close>

section \<open>Model\<close>

record loader = caches +
  memory :: "cint \<Rightarrow> cint"

text \<open>\<open>*to++ = *from++\<close> until the pointers meet.\<close>

partial_function (option) load_words :: "cint \<Rightarrow> cint \<Rightarrow> cint \<Rightarrow> 'a loader_scheme \<Rightarrow> 'a loader_scheme outcome" where
  "load_words src dst stop s =
     (if dst \<noteq> stop then load_words (src + 4) (dst + 4) stop (s\<lparr>memory := (memory s)(dst := memory s src)\<rparr>)
      else returns s)"

definition alt_load_section :: "cint \<Rightarrow> cint \<Rightarrow> cint \<Rightarrow> 'a loader_scheme \<Rightarrow> 'a loader_scheme outcome" where
  "alt_load_section src dst stop s = (if dst \<noteq> src then load_words src dst stop s else returns s)"

record load_map =
  flash_rwdata_start :: cint
  ram_rwdata_start :: cint
  ram_rwdata_end :: cint
  flash_rodata_start :: cint
  ram_rodata_start :: cint
  ram_rodata_end :: cint
  flash_exceptions_start :: cint
  ram_exceptions_start :: cint
  ram_exceptions_end :: cint

definition alt_load :: "load_map \<Rightarrow> 'a loader_scheme \<Rightarrow> 'a loader_scheme outcome" where
  "alt_load m s =
     and_then (alt_load_section (flash_rwdata_start m) (ram_rwdata_start m) (ram_rwdata_end m) s) (\<lambda>s.
     and_then (alt_load_section (flash_exceptions_start m) (ram_exceptions_start m) (ram_exceptions_end m) s) (\<lambda>s.
     and_then (alt_load_section (flash_rodata_start m) (ram_rodata_start m) (ram_rodata_end m) s) (\<lambda>s.
     and_then (alt_dcache_flush_all s) alt_icache_flush_all)))"

section \<open>One section\<close>

definition block :: "cint \<Rightarrow> nat \<Rightarrow> cint set" where
  "block a n = (\<lambda>k. a + of_nat (4 * k)) ` {..<n}"

definition word_count :: "cint \<Rightarrow> cint \<Rightarrow> nat" where
  "word_count dst stop = unat (stop - dst) div 4"

definition copied :: "cint \<Rightarrow> cint \<Rightarrow> nat \<Rightarrow> (cint \<Rightarrow> cint) \<Rightarrow> cint \<Rightarrow> cint" where
  "copied src dst n m a = (if a \<in> block dst n then m (src + (a - dst)) else m a)"

lemma block_Suc: "block a (Suc n) = insert a (block (a + 4) n)"
proof -
  have "{..<Suc n} = insert 0 (Suc ` {..<n})" by (rule lessThan_Suc_eq_insert_0)
  then show ?thesis by (simp add: block_def image_image algebra_simps)
qed

lemma not_in_rest:
  assumes "4 * Suc n < 2 ^ 32"
  shows "a \<notin> block (a + 4) n"
proof
  assume "a \<in> block (a + 4) n"
  then obtain k where k: "k < n" "a = a + 4 + of_nat (4 * k)" by (auto simp: block_def)
  then have "of_nat (4 * Suc k) = (0 :: cint)" by (simp add: algebra_simps)
  moreover have "unat (of_nat (4 * Suc k) :: cint) = 4 * Suc k" using k(1) assms by (intro unat_small) simp
  ultimately show False by simp
qed

lemma load_words_copies:
  "stop = dst + of_nat (4 * n) \<Longrightarrow> 4 * n < 2 ^ 32 \<Longrightarrow> block src n \<inter> block dst n = {} \<Longrightarrow>
   load_words src dst stop s = returns (s\<lparr>memory := copied src dst n (memory s)\<rparr>)"
proof (induction n arbitrary: src dst s)
  case 0
  have "copied src dst 0 m = m" for m by (rule ext) (simp add: copied_def block_def)
  then show ?case using 0 by (subst load_words.simps) simp
next
  case (Suc n)
  let ?m = "(memory s)(dst := memory s src)"
  have "stop = dst + 4 + of_nat (4 * n)" using Suc.prems(1) by (simp add: algebra_simps)
  moreover have "4 * n < 2 ^ 32" using Suc.prems(2) by simp
  moreover have "block (src + 4) n \<inter> block (dst + 4) n = {}" using Suc.prems(3) by (auto simp: block_Suc)
  ultimately have IH: "load_words (src + 4) (dst + 4) stop (s\<lparr>memory := m\<rparr>) =
      returns (s\<lparr>memory := copied (src + 4) (dst + 4) n m\<rparr>)" for m
    using Suc.IH[of "dst + 4" "src + 4" "s\<lparr>memory := m\<rparr>"] by simp
  have "unat (of_nat (4 * Suc n) :: cint) = 4 * Suc n" using Suc.prems(2) by (rule unat_small)
  then have ne: "dst \<noteq> stop" using Suc.prems(1) by (metis add_cancel_left_right nat.distinct(1) mult_is_0 unsigned_0 zero_neq_numeral)
  have "copied (src + 4) (dst + 4) n ?m = copied src dst (Suc n) (memory s)"
  proof
    fix a
    have "src + 4 + (a - (dst + 4)) \<noteq> dst" if "a \<in> block (dst + 4) n"
    proof
      assume e: "src + 4 + (a - (dst + 4)) = dst"
      from that obtain k where "k < n" "a = dst + 4 + of_nat (4 * k)" by (auto simp: block_def)
      then have "dst \<in> block (src + 4) n" using e by (auto simp: block_def)
      then show False using Suc.prems(3) by (auto simp: block_Suc)
    qed
    then show "copied (src + 4) (dst + 4) n ?m a = copied src dst (Suc n) (memory s) a"
      using not_in_rest[OF Suc.prems(2), of dst] by (auto simp: copied_def block_Suc algebra_simps)
  qed
  moreover have "load_words src dst stop s = load_words (src + 4) (dst + 4) stop (s\<lparr>memory := ?m\<rparr>)"
    using ne by (subst load_words.simps) simp
  ultimately show ?case by (simp only: IH)
qed

text \<open>A section whose end is not a whole number of words from its start is copied for ever.\<close>

lemma load_words_never_ends:
  assumes "\<not> 4 dvd unat (stop - dst)"
  shows "load_words src dst stop s = None"
proof (rule ccontr)
  assume "load_words src dst stop s \<noteq> None"
  then obtain y where "load_words src dst stop s = Some y" by blast
  then have "4 dvd unat (stop - dst)"
  proof (induction rule: load_words.raw_induct[rotated, consumes 1, case_names turn])
    case (turn loop src dst stop s y)
    show ?case
    proof (cases "dst = stop")
      case False
      then have "4 dvd unat (stop - (dst + 4))" using turn by (metis (no_types, lifting))
      moreover have "stop - dst = stop - (dst + 4) + 4" by simp
      then have "unat (stop - dst) = (unat (stop - (dst + 4)) + 4) mod 2 ^ 32" by (simp only: unat_word_ariths) simp
      ultimately show ?thesis by (simp add: dvd_mod)
    qed simp
  qed
  then show False using assms by simp
qed

lemma load_words_ends:
  "stop = dst + of_nat (4 * n) \<Longrightarrow> 4 * n < 2 ^ 32 \<Longrightarrow> \<exists>s'. load_words src dst stop s = returns s'"
proof (induction n arbitrary: src dst s)
  case 0
  then show ?case by (subst load_words.simps) simp
next
  case (Suc n)
  have "stop = dst + 4 + of_nat (4 * n)" using Suc.prems(1) by (simp add: algebra_simps)
  then show ?case using Suc.IH[of "dst + 4"] Suc.prems(2) by (subst load_words.simps) auto
qed

lemma stop_words:
  assumes "4 dvd unat (stop - dst)"
  shows "stop = dst + of_nat (4 * word_count dst stop)" "4 * word_count dst stop < 2 ^ 32"
proof -
  have "4 * word_count dst stop = unat (stop - dst)" using assms by (simp add: word_count_def)
  then show "stop = dst + of_nat (4 * word_count dst stop)" "4 * word_count dst stop < 2 ^ 32"
    using unat_bound[of "stop - dst"] by simp_all
qed

text \<open>C34. A section is loaded in finite time exactly when it stays where it is or its length is a
  multiple of four; otherwise the loader never returns.\<close>

theorem load_section_ends:
  "(\<exists>s'. alt_load_section src dst stop s = returns s') = (src = dst \<or> 4 dvd unat (stop - dst)) \<and>
   (alt_load_section src dst stop s = None) = (src \<noteq> dst \<and> \<not> 4 dvd unat (stop - dst))"
proof (cases "src = dst")
  case True
  then show ?thesis by (simp add: alt_load_section_def)
next
  case False
  then have e: "alt_load_section src dst stop s = load_words src dst stop s" by (simp add: alt_load_section_def)
  show ?thesis
  proof (cases "4 dvd unat (stop - dst)")
    case True
    then obtain s' where "load_words src dst stop s = returns s'" using load_words_ends[OF stop_words] by blast
    then show ?thesis using False True e by simp
  next
    case no: False
    then have "load_words src dst stop s = None" by (rule load_words_never_ends)
    then show ?thesis using False no e by (auto simp: returns_def)
  qed
qed

section \<open>All sections\<close>

definition sections :: "load_map \<Rightarrow> (cint \<times> cint \<times> cint) list" where
  "sections m = [(flash_rwdata_start m, ram_rwdata_start m, ram_rwdata_end m),
     (flash_exceptions_start m, ram_exceptions_start m, ram_exceptions_end m),
     (flash_rodata_start m, ram_rodata_start m, ram_rodata_end m)]"

fun load_list :: "(cint \<times> cint \<times> cint) list \<Rightarrow> 'a loader_scheme \<Rightarrow> 'a loader_scheme outcome" where
  "load_list [] s = returns s"
| "load_list ((src, dst, stop) # xs) s = and_then (alt_load_section src dst stop s) (load_list xs)"

fun target :: "cint \<times> cint \<times> cint \<Rightarrow> cint set" where
  "target (src, dst, stop) = block dst (word_count dst stop)"

fun origin :: "cint \<times> cint \<times> cint \<Rightarrow> cint set" where
  "origin (src, dst, stop) = block src (word_count dst stop)"

fun moved :: "cint \<times> cint \<times> cint \<Rightarrow> bool" where
  "moved (src, dst, stop) \<longleftrightarrow> src \<noteq> dst"

text \<open>The linker places whole words, the sections in RAM apart from one another and from what is
  still to be copied.\<close>

definition layout_ok :: "(cint \<times> cint \<times> cint) list \<Rightarrow> bool" where
  "layout_ok L \<longleftrightarrow> (\<forall>(src, dst, stop)\<in>set L. 4 dvd unat (stop - dst)) \<and>
     sorted_wrt (\<lambda>x y. target x \<inter> target y = {}) L \<and>
     (\<forall>x\<in>set L. \<forall>y\<in>set L. moved x \<longrightarrow> origin x \<inter> target y = {})"

definition loaded :: "(cint \<times> cint \<times> cint) list \<Rightarrow> (cint \<Rightarrow> cint) \<Rightarrow> (cint \<Rightarrow> cint) \<Rightarrow> bool" where
  "loaded L m m' \<longleftrightarrow>
     (\<forall>(src, dst, stop)\<in>set L. \<forall>k<word_count dst stop. m' (dst + of_nat (4 * k)) = m (src + of_nat (4 * k))) \<and>
     (\<forall>a. (\<forall>x\<in>set L. a \<notin> target x) \<longrightarrow> m' a = m a)"

lemma in_block: "k < n \<Longrightarrow> a + of_nat (4 * k) \<in> block a n"
  by (auto simp: block_def)

lemma section_loaded:
  assumes "4 dvd unat (stop - dst)" and "src \<noteq> dst \<longrightarrow> block src (word_count dst stop) \<inter> block dst (word_count dst stop) = {}"
  shows "alt_load_section src dst stop s = returns (s\<lparr>memory := copied src dst (word_count dst stop) (memory s)\<rparr>)"
proof (cases "src = dst")
  case True
  then have "copied src dst (word_count dst stop) (memory s) = memory s" by (intro ext) (simp add: copied_def)
  then show ?thesis using True by (simp add: alt_load_section_def)
next
  case False
  then show ?thesis using load_words_copies[OF stop_words[OF assms(1)]] assms(2) by (simp add: alt_load_section_def)
qed

lemma load_list_loads:
  "layout_ok L \<Longrightarrow> \<exists>m'. load_list L s = returns (s\<lparr>memory := m'\<rparr>) \<and> loaded L (memory s) m'"
proof (induction L arbitrary: s)
  case Nil
  then show ?case by (intro exI[of _ "memory s"]) (simp add: loaded_def)
next
  case (Cons x L)
  obtain src dst stop where x: "x = (src, dst, stop)" by (metis prod.exhaust)
  let ?n = "word_count dst stop"
  let ?m = "copied src dst ?n (memory s)"
  have ok: "layout_ok L" using Cons.prems by (auto simp: layout_ok_def)
  have apart: "target x \<inter> target y = {}" if "y \<in> set L" for y using Cons.prems that by (auto simp: layout_ok_def)
  have "4 dvd unat (stop - dst)" using Cons.prems by (auto simp: layout_ok_def x)
  moreover have "src \<noteq> dst \<longrightarrow> block src ?n \<inter> block dst ?n = {}"
  proof -
    have "moved x \<longrightarrow> origin x \<inter> target x = {}" using Cons.prems by (simp add: layout_ok_def)
    then show ?thesis by (simp add: x)
  qed
  ultimately have head: "alt_load_section src dst stop s = returns (s\<lparr>memory := ?m\<rparr>)" by (rule section_loaded)
  obtain m' where m': "load_list L (s\<lparr>memory := ?m\<rparr>) = returns (s\<lparr>memory := m'\<rparr>)" "loaded L ?m m'"
    using Cons.IH[OF ok, of "s\<lparr>memory := ?m\<rparr>"] by auto
  have untouched: "?m a = memory s a" if "a \<notin> target x" for a using that by (simp add: copied_def x)
  have "loaded (x # L) (memory s) m'"
    unfolding loaded_def
  proof (intro conjI ballI allI impI)
    fix y assume y: "y \<in> set (x # L)"
    show "case y of (src, dst, stop) \<Rightarrow> \<forall>k<word_count dst stop. m' (dst + of_nat (4 * k)) = memory s (src + of_nat (4 * k))"
    proof (cases "y \<in> set L")
      case True
      obtain a b c where abc: "y = (a, b, c)" by (metis prod.exhaust)
      have "m' (b + of_nat (4 * k)) = memory s (a + of_nat (4 * k))" if k: "k < word_count b c" for k
      proof -
        have "a + of_nat (4 * k) \<notin> target x"
        proof (cases "moved y")
          case True
          then have "origin y \<inter> target x = {}" using Cons.prems y by (auto simp: layout_ok_def)
          then show ?thesis using in_block[OF k, of a] by (auto simp: abc)
        next
          case False
          then show ?thesis using in_block[OF k, of b] apart[OF \<open>y \<in> set L\<close>] by (auto simp: abc)
        qed
        then show ?thesis using m'(2) True k untouched by (auto simp: loaded_def abc)
      qed
      then show ?thesis by (simp add: abc)
    next
      case False
      then have "y = x" using y by simp
      moreover have "m' (dst + of_nat (4 * k)) = memory s (src + of_nat (4 * k))" if k: "k < ?n" for k
      proof -
        have "\<forall>z\<in>set L. dst + of_nat (4 * k) \<notin> target z" using apart in_block[OF k, of dst] by (auto simp: x)
        then have "m' (dst + of_nat (4 * k)) = ?m (dst + of_nat (4 * k))" using m'(2) by (simp add: loaded_def)
        then show ?thesis using in_block[OF k, of dst] by (simp add: copied_def)
      qed
      ultimately show ?thesis by (simp add: x)
    qed
  next
    fix a assume "\<forall>y\<in>set (x # L). a \<notin> target y"
    then show "m' a = memory s a" using m'(2) untouched by (simp add: loaded_def)
  qed
  then show ?case using head m'(1) by (intro exI[of _ m']) (simp add: x)
qed

lemma alt_load_list: "alt_load m s = and_then (load_list (sections m) s) (\<lambda>s. and_then (alt_dcache_flush_all s) alt_icache_flush_all)"
  by (simp add: alt_load_def sections_def and_then_assoc)

lemma flush_all_run:
  "alt_dcache_flush_all s = returns (s\<lparr>cache_ops := cache_ops s @ map Flushd (line_starts 0 64)\<rparr>)"
  "alt_icache_flush_all s = returns (s\<lparr>cache_ops := cache_ops s @ map Flushi (line_starts 0 128) @ [Flushp]\<rparr>)"
proof -
  have "flush_loop Flushd 32 0 2048 s =
      returns (0 + of_nat (32 * 64), s\<lparr>cache_ops := cache_ops s @ map Flushd (line_starts 0 64)\<rparr>)"
    by (rule flush_loop_run) simp_all
  then show "alt_dcache_flush_all s = returns (s\<lparr>cache_ops := cache_ops s @ map Flushd (line_starts 0 64)\<rparr>)"
    by (simp add: alt_dcache_flush_all_def cache_sizes)
  have "clipped 4096 = 4096" by (simp add: clipped_def NIOS2_ICACHE_SIZE_def)
  moreover have "flushed 0 4096 = line_starts 0 128" by (simp add: flushed_def line_count_def)
  ultimately show "alt_icache_flush_all s = returns (s\<lparr>cache_ops := cache_ops s @ map Flushi (line_starts 0 128) @ [Flushp]\<rparr>)"
    using alt_icache_flush_run[of 0 4096 s] by (simp add: alt_icache_flush_all_def NIOS2_ICACHE_SIZE_def)
qed

text \<open>C23. With the sections placed as the linker does, alt_load puts every word of every section
  where it is executed or accessed, changes no other word, and then flushes all 64 lines of the
  data cache, all 128 of the instruction cache and the pipeline, in this order.\<close>

theorem alt_load_loads:
  assumes "layout_ok (sections m)"
  shows "\<exists>s'. alt_load m s = returns s' \<and> loaded (sections m) (memory s) (memory s') \<and>
    cache_ops s' = cache_ops s @ map Flushd (line_starts 0 64) @ map Flushi (line_starts 0 128) @ [Flushp]"
proof -
  obtain m' where "load_list (sections m) s = returns (s\<lparr>memory := m'\<rparr>)" "loaded (sections m) (memory s) m'"
    using load_list_loads[OF assms] by blast
  then show ?thesis by (simp add: alt_load_list flush_all_run)
qed

definition small_program :: load_map where
  "small_program = \<lparr>flash_rwdata_start = 0x100, ram_rwdata_start = 0x1000, ram_rwdata_end = 0x1008,
     flash_rodata_start = 0x2000, ram_rodata_start = 0x2000, ram_rodata_end = 0x2004,
     flash_exceptions_start = 0x108, ram_exceptions_start = 0x20, ram_exceptions_end = 0x24\<rparr>"

lemma alt_load_loads_witness:
  "\<exists>s'. alt_load small_program \<lparr>cache_ops = [], memory = \<lambda>a. a\<rparr> = returns s' \<and>
    memory s' 0x1000 = 0x100 \<and> memory s' 0x1004 = 0x104 \<and> memory s' 0x20 = 0x108 \<and> memory s' 0x2000 = 0x2000"
proof -
  have s: "sections small_program = [(0x100, 0x1000, 0x1008), (0x108, 0x20, 0x24), (0x2000, 0x2000, 0x2004)]"
    by (simp add: sections_def small_program_def)
  have n: "word_count 0x1000 0x1008 = 2" "word_count 0x20 0x24 = 1" "word_count 0x2000 0x2004 = 1"
    by (simp_all add: word_count_def)
  have b: "block a (Suc 0) = {a}" "block a 2 = {a, a + 4}" for a
    by (auto simp: block_def numeral_2_eq_2 lessThan_Suc)
  have "layout_ok (sections small_program)" by (simp add: layout_ok_def s n b)
  from alt_load_loads[OF this, of "\<lparr>cache_ops = [], memory = \<lambda>a. a\<rparr>"] obtain s' where
    s': "alt_load small_program \<lparr>cache_ops = [], memory = \<lambda>a. a\<rparr> = returns s'"
      "loaded (sections small_program) (\<lambda>a. a) (memory s')" by auto
  have w: "memory s' (dst + of_nat (4 * k)) = src + of_nat (4 * k)"
    if "(src, dst, stop) \<in> set (sections small_program)" "k < word_count dst stop" for src dst stop k
    using s'(2) that unfolding loaded_def by blast
  have "memory s' 0x1000 = 0x100" using w[of "0x100" "0x1000" "0x1008" 0] by (simp add: s n)
  moreover have "memory s' 0x1004 = 0x104" using w[of "0x100" "0x1000" "0x1008" 1] by (simp add: s n)
  moreover have "memory s' 0x20 = 0x108" using w[of "0x108" "0x20" "0x24" 0] by (simp add: s n)
  moreover have "memory s' 0x2000 = 0x2000" using w[of "0x2000" "0x2000" "0x2004" 0] by (simp add: s n)
  ultimately show ?thesis using s'(1) by blast
qed

end
