(* ===== verification/Startup.thy ===== *)
theory Startup
  imports Load
begin

text \<open>
  The start-up code of crt0.S, from the reset address to the call of \<open>alt_main\<close>, for the processor of
  system.h: both caches without ECC, no shadow register sets, code at the reset address allowed and
  alt_load called (linker.h).  The symbols of the linker are a record; the registers that keep a
  meaning afterwards are part of the state.  The logging macros are empty in this build.
\<close>

section \<open>State\<close>

record startup = loader +
  start_sp :: cint
  start_gp :: cint
  start_et :: cint

text \<open>\<open>stack_limit_at\<close> is the address of \<open>alt_stack_limit_value\<close> in a build with ALT_STACK_CHECK.\<close>

record start_symbols =
  stack_top :: cint
  gp_value :: cint
  bss_start :: cint
  bss_end :: cint
  stack_limit_at :: "cint option"
  load_sections :: load_map

section \<open>The code\<close>

text \<open>Both caches are initialised from their size downwards; \<open>bgt\<close> compares signed.\<close>

partial_function (option) init_loop ::
  "(cint \<Rightarrow> cache_op) \<Rightarrow> cint \<Rightarrow> cint \<Rightarrow> 'a caches_scheme \<Rightarrow> 'a caches_scheme outcome" where
  "init_loop instr line r2 s =
     (let s = issue (instr r2) s; r2 = r2 - line
      in if 0 < sint r2 then init_loop instr line r2 s else returns s)"

definition reset_entry :: "'a caches_scheme \<Rightarrow> 'a caches_scheme outcome" where
  "reset_entry s = init_loop Initi NIOS2_ICACHE_LINE_SIZE NIOS2_ICACHE_SIZE s"

definition init_dcache :: "'a caches_scheme \<Rightarrow> 'a caches_scheme outcome" where
  "init_dcache s = init_loop Initd NIOS2_DCACHE_LINE_SIZE NIOS2_DCACHE_SIZE s"

partial_function (option) clear_words :: "cint \<Rightarrow> cint \<Rightarrow> 'a loader_scheme \<Rightarrow> 'a loader_scheme outcome" where
  "clear_words r2 r3 s =
     (let s = s\<lparr>memory := (memory s)(r2 := 0)\<rparr>; r2 = r2 + 4
      in if r2 < r3 then clear_words r2 r3 s else returns s)"

definition clear_bss :: "cint \<Rightarrow> cint \<Rightarrow> 'a loader_scheme \<Rightarrow> 'a loader_scheme outcome" where
  "clear_bss r2 r3 s = (if r2 = r3 then returns s else clear_words r2 r3 s)"

definition start_entry :: "start_symbols \<Rightarrow> startup \<Rightarrow> startup outcome" where
  "start_entry sy s =
     and_then (init_dcache s) (\<lambda>s.
     (let s = s\<lparr>start_sp := stack_top sy, start_gp := gp_value sy\<rparr>
      in and_then (clear_bss (bss_start sy) (bss_end sy) s) (\<lambda>s.
         (let s = (if stack_limit_at sy = None then s else s\<lparr>start_et := 0\<rparr>)
          in and_then (alt_load (load_sections sy) s) (\<lambda>s.
             returns (case stack_limit_at sy of None \<Rightarrow> s | Some a \<Rightarrow> s\<lparr>start_et := memory s a\<rparr>))))))"

text \<open>Behind the call of \<open>alt_main\<close> stands an endless loop.\<close>

definition crt0 :: "start_symbols \<Rightarrow> (startup \<Rightarrow> 'a outcome) \<Rightarrow> startup \<Rightarrow> 'b outcome" where
  "crt0 sy alt_main s =
     and_then (reset_entry s) (\<lambda>s. and_then (start_entry sy s) (\<lambda>s. and_then (alt_main s) (\<lambda>_. None)))"

section \<open>The caches\<close>

definition lines_down :: "nat \<Rightarrow> cint list" where
  "lines_down n = map (\<lambda>k. of_nat (32 * k)) (rev [1..<Suc n])"

lemma lines_down_Suc: "lines_down (Suc n) = of_nat (32 * Suc n) # lines_down n"
  by (simp add: lines_down_def)

lemma init_loop_run:
  "0 < n \<Longrightarrow> n < 2 ^ 26 \<Longrightarrow>
   init_loop instr 32 (of_nat (32 * n)) s = returns (s\<lparr>cache_ops := cache_ops s @ map instr (lines_down n)\<rparr>)"
proof (induction n arbitrary: s)
  case (Suc n)
  have step: "of_nat (32 * Suc n) - 32 = (of_nat (32 * n) :: cint)" by (simp add: algebra_simps)
  have pos: "0 < sint (of_nat (32 * n) :: cint) \<longleftrightarrow> 0 < n"
    using Suc.prems(2) by (subst sint_of_nat_small) simp_all
  show ?case
  proof (cases "n = 0")
    case True
    then show ?thesis by (subst init_loop.simps) (simp add: issue_def lines_down_def)
  next
    case False
    then have "init_loop instr 32 (of_nat (32 * n)) (issue (instr (of_nat (32 * Suc n))) s) =
        returns (s\<lparr>cache_ops := cache_ops s @ map instr (lines_down (Suc n))\<rparr>)"
      using Suc.IH[of "issue (instr (of_nat (32 * Suc n))) s"] Suc.prems(2)
      by (simp add: issue_def lines_down_Suc)
    then show ?thesis
      by (subst init_loop.simps) (simp only: Let_def step pos False neq0_conv[symmetric] not_False_eq_True if_True)
  qed
qed simp

text \<open>Counting down, the set with number 0 is reached through the address behind the cache.\<close>

lemma every_set_initialised:
  assumes "n < 2 ^ 26" "0 < n"
  shows "map (\<lambda>a. unat a div 32 mod n) (lines_down n) = 0 # rev [1..<n]"
proof -
  have "unat (of_nat (32 * k) :: cint) = 32 * k" if "k \<le> n" for k
    using that assms(1) by (intro unat_small) simp
  then have "map (\<lambda>a. unat a div 32 mod n) (lines_down n) = map (\<lambda>k. k mod n) (rev [1..<Suc n])"
    by (simp add: lines_down_def o_def del: upt_Suc of_nat_mult)
  also have "\<dots> = 0 # map (\<lambda>k. k mod n) (rev [1..<n])" using assms(2) by simp
  also have "map (\<lambda>k. k mod n) (rev [1..<n]) = rev [1..<n]" by (intro map_idI) auto
  finally show ?thesis .
qed

lemma caches_initialised:
  "reset_entry s = returns (s\<lparr>cache_ops := cache_ops s @ map Initi (lines_down 128)\<rparr>)"
  "init_dcache s = returns (s\<lparr>cache_ops := cache_ops s @ map Initd (lines_down 64)\<rparr>)"
  using init_loop_run[of 128 Initi s] init_loop_run[of 64 Initd s]
  by (simp_all add: reset_entry_def init_dcache_def cache_sizes)

section \<open>The BSS\<close>

definition cleared :: "cint \<Rightarrow> nat \<Rightarrow> (cint \<Rightarrow> cint) \<Rightarrow> cint \<Rightarrow> cint" where
  "cleared start n m a = (if a \<in> block start n then 0 else m a)"

lemma clear_words_run:
  "unat r2 + 4 * n < 2 ^ 32 \<Longrightarrow> unat r2 + 4 * (n - 1) < unat r3 \<Longrightarrow> unat r3 \<le> unat r2 + 4 * n \<Longrightarrow> 0 < n \<Longrightarrow>
   clear_words r2 r3 s = returns (s\<lparr>memory := cleared r2 n (memory s)\<rparr>)"
proof (induction n arbitrary: r2 s)
  case (Suc n)
  have r2: "unat (r2 + 4) = unat r2 + 4" using Suc.prems(1) by (subst unat_add_lem[THEN iffD1]) simp_all
  have less: "r2 + 4 < r3 \<longleftrightarrow> 0 < n" using Suc.prems r2 by (cases n) (simp_all add: word_less_nat_alt)
  have one: "cleared (r2 + 4) n ((memory s)(r2 := 0)) = cleared r2 (Suc n) (memory s)"
    by (rule ext) (simp add: cleared_def block_Suc)
  show ?case
  proof (cases "0 < n")
    case True
    then have "clear_words (r2 + 4) r3 (s\<lparr>memory := (memory s)(r2 := 0)\<rparr>) =
        returns (s\<lparr>memory := cleared (r2 + 4) n ((memory s)(r2 := 0))\<rparr>)"
      using Suc.prems r2 by (subst Suc.IH) (simp_all add: Suc_diff_le diff_mult_distrib2)
    then show ?thesis using True by (subst clear_words.simps) (simp add: less one)
  next
    case False
    then have "(memory s)(r2 := 0) = cleared r2 (Suc n) (memory s)"
      by (intro ext) (auto simp: cleared_def block_def)
    then show ?thesis using False by (subst clear_words.simps) (simp add: less)
  qed
qed simp

text \<open>The words that the loop clears: the last one reaches behind an end that is not aligned.\<close>

definition bss_words :: "cint \<Rightarrow> cint \<Rightarrow> nat" where
  "bss_words start stop = (unat stop - unat start + 3) div 4"

lemma clear_bss_run:
  assumes "r2 \<le> r3" "unat r3 + 3 < 2 ^ 32"
  shows "clear_bss r2 r3 s = returns (s\<lparr>memory := cleared r2 (bss_words r2 r3) (memory s)\<rparr>)"
proof (cases "r2 = r3")
  case True
  then have "cleared r2 (bss_words r2 r3) (memory s) = memory s"
    by (intro ext) (simp add: cleared_def bss_words_def block_def)
  then show ?thesis using True by (simp add: clear_bss_def)
next
  case False
  then have "unat r2 < unat r3" using assms(1) by (simp add: word_less_nat_alt flip: word_less_nat_alt)
  moreover have "bss_words r2 r3 * 4 \<le> unat r3 - unat r2 + 3" "unat r3 - unat r2 \<le> 4 * bss_words r2 r3"
    by (simp_all add: bss_words_def)
  ultimately have "clear_words r2 r3 s = returns (s\<lparr>memory := cleared r2 (bss_words r2 r3) (memory s)\<rparr>)"
    using assms(2) by (intro clear_words_run) linarith+
  then show ?thesis using False by (simp add: clear_bss_def)
qed

text \<open>With the symbols the wrong way round one word is cleared.\<close>

lemma clear_bss_backwards:
  "r3 < r2 \<Longrightarrow> r2 \<le> r2 + 4 \<Longrightarrow>
   clear_bss r2 r3 s = returns (s\<lparr>memory := (memory s)(r2 := 0)\<rparr>)"
  by (subst clear_bss_def, subst clear_words.simps) (auto simp: Let_def dest: order.strict_trans2)

section \<open>What alt_main finds\<close>

text \<open>Only the memory is an argument of loading, and only the memory and the cache instructions change.\<close>

lemma alt_load_run:
  assumes "layout_ok (sections m)"
  obtains m' where "loaded (sections m) (memory s) m'"
    and "alt_load m s = returns (s\<lparr>memory := m', cache_ops := cache_ops s @
      map Flushd (line_starts 0 64) @ map Flushi (line_starts 0 128) @ [Flushp]\<rparr>)"
proof -
  obtain m' where "load_list (sections m) s = returns (s\<lparr>memory := m'\<rparr>)" "loaded (sections m) (memory s) m'"
    using load_list_loads[OF assms] by blast
  then show thesis by (intro that[of m']) (simp_all add: alt_load_list flush_all_run)
qed

abbreviation bss :: "start_symbols \<Rightarrow> cint set" where
  "bss sy \<equiv> block (bss_start sy) (bss_words (bss_start sy) (bss_end sy))"

definition boot_cache_ops :: "cache_op list" where
  "boot_cache_ops = map Initi (lines_down 128) @ map Initd (lines_down 64) @
     map Flushd (line_starts 0 64) @ map Flushi (line_starts 0 128) @ [Flushp]"

text \<open>C21. When the linker has placed the BSS and the sections apart and in whole words, the start-up
  code reaches \<open>alt_main\<close> with the stack and global pointers set, every word of the BSS zero,
  every section loaded as it stood in memory at reset, no other word changed, and with stack checking the
  limit read after loading; before that it has initialised every line of both caches, and flushed
  them after loading.  If \<open>alt_main\<close> returns, the code loops for ever.\<close>

theorem start_reaches_main:
  assumes layout: "layout_ok (sections (load_sections sy))"
    and bss_ordered: "bss_start sy \<le> bss_end sy" "unat (bss_end sy) + 3 < 2 ^ 32"
    and apart: "\<forall>x \<in> set (sections (load_sections sy)). bss sy \<inter> (origin x \<union> target x) = {}"
  shows "\<exists>s'. crt0 sy alt_main s = and_then (alt_main s') (\<lambda>_. None) \<and>
    start_sp s' = stack_top sy \<and> start_gp s' = gp_value sy \<and>
    start_et s' = (case stack_limit_at sy of None \<Rightarrow> start_et s | Some a \<Rightarrow> memory s' a) \<and>
    (\<forall>a \<in> bss sy. memory s' a = 0) \<and>
    (\<forall>(src, dst, stop) \<in> set (sections (load_sections sy)). \<forall>k < word_count dst stop.
       memory s' (dst + of_nat (4 * k)) = memory s (src + of_nat (4 * k))) \<and>
    (\<forall>a. a \<notin> bss sy \<and> (\<forall>x \<in> set (sections (load_sections sy)). a \<notin> target x) \<longrightarrow> memory s' a = memory s a) \<and>
    cache_ops s' = cache_ops s @ boot_cache_ops"
proof -
  let ?L = "sections (load_sections sy)"
  let ?m = "cleared (bss_start sy) (bss_words (bss_start sy) (bss_end sy)) (memory s)"
  let ?s = "s\<lparr>cache_ops := cache_ops s @ map Initi (lines_down 128) @ map Initd (lines_down 64),
    start_sp := stack_top sy, start_gp := gp_value sy, memory := ?m,
    start_et := (if stack_limit_at sy = None then start_et s else 0)\<rparr>"
  obtain m' where m': "loaded ?L (memory ?s) m'" and load: "alt_load (load_sections sy) ?s =
      returns (?s\<lparr>memory := m', cache_ops := cache_ops ?s @ map Flushd (line_starts 0 64) @
        map Flushi (line_starts 0 128) @ [Flushp]\<rparr>)"
    by (rule alt_load_run[OF layout])
  let ?s' = "?s\<lparr>memory := m', cache_ops := cache_ops ?s @ map Flushd (line_starts 0 64) @
    map Flushi (line_starts 0 128) @ [Flushp],
    start_et := (case stack_limit_at sy of None \<Rightarrow> start_et s | Some a \<Rightarrow> m' a)\<rparr>"
  have run: "crt0 sy alt_main s = and_then (alt_main ?s') (\<lambda>_. None)"
    using load
    by (cases "stack_limit_at sy")
      (simp_all add: crt0_def start_entry_def caches_initialised clear_bss_run[OF bss_ordered] Let_def)
  have zero: "memory ?s' a = 0" if "a \<in> bss sy" for a
    using m' apart that by (simp add: loaded_def cleared_def disjoint_iff)
  have sections: "memory ?s' (dst + of_nat (4 * k)) = memory s (src + of_nat (4 * k))"
    if x: "(src, dst, stop) \<in> set ?L" and k: "k < word_count dst stop" for src dst stop k
  proof -
    have "src + of_nat (4 * k) \<notin> bss sy" using apart x in_block[OF k, of src] by fastforce
    moreover have "m' (dst + of_nat (4 * k)) = ?m (src + of_nat (4 * k))"
      using m' x k by (auto simp: loaded_def)
    ultimately show ?thesis by (simp add: cleared_def)
  qed
  have rest: "memory ?s' a = memory s a" if "a \<notin> bss sy" "\<forall>x \<in> set ?L. a \<notin> target x" for a
    using m' that by (simp add: loaded_def cleared_def)
  have "start_sp ?s' = stack_top sy" "start_gp ?s' = gp_value sy"
    "start_et ?s' = (case stack_limit_at sy of None \<Rightarrow> start_et s | Some a \<Rightarrow> memory ?s' a)"
    "cache_ops ?s' = cache_ops s @ boot_cache_ops"
    by (simp_all add: boot_cache_ops_def split: option.split)
  then show ?thesis
    using run zero sections rest by (intro exI[of _ ?s'] conjI) (assumption | fast)+
qed

text \<open>Two words of BSS behind the loaded data of \<open>small_program\<close>.\<close>

definition small_start :: start_symbols where
  "small_start = \<lparr>stack_top = 0x3C200, gp_value = 0x9000, bss_start = 0x1008, bss_end = 0x1010,
     stack_limit_at = Some 0x1004, load_sections = small_program\<rparr>"

definition checks_start :: "startup \<Rightarrow> unit outcome" where
  "checks_start s =
     (if start_sp s = 0x3C200 \<and> memory s 0x1008 = 0 \<and> memory s 0x100C = 0 \<and> memory s 0x1004 = 0x105 \<and>
         start_et s = 0x105 \<and> memory s 0x1010 = 0x1011 then returns () else undefined_run)"

lemma start_reaches_main_witness:
  "crt0 small_start checks_start
     \<lparr>cache_ops = [], memory = \<lambda>a. a + 1, start_sp = 0, start_gp = 0, start_et = 0\<rparr> = (None :: unit outcome)"
proof -
  have s: "sections small_program = [(0x100, 0x1000, 0x1008), (0x108, 0x20, 0x24), (0x2000, 0x2000, 0x2004)]"
    by (simp add: sections_def small_program_def)
  have n: "word_count 0x1000 0x1008 = 2" "word_count 0x20 0x24 = 1" "word_count 0x2000 0x2004 = 1"
    "bss_words 0x1008 0x1010 = 2"
    by (simp_all add: word_count_def bss_words_def)
  have b: "block a (Suc 0) = {a}" "block a 2 = {a, a + 4}" for a
    by (auto simp: block_def numeral_2_eq_2 lessThan_Suc)
  have sy: "load_sections small_start = small_program" "bss small_start = {0x1008, 0x100C}"
    "bss_start small_start = 0x1008" "bss_end small_start = 0x1010" "stack_top small_start = 0x3C200"
    "stack_limit_at small_start = Some 0x1004"
    by (simp_all add: small_start_def n b)
  have 1: "layout_ok (sections (load_sections small_start))" by (simp add: layout_ok_def s n b sy)
  have 2: "bss_start small_start \<le> bss_end small_start" "unat (bss_end small_start) + 3 < 2 ^ 32"
    by (simp_all add: sy)
  have 3: "\<forall>x \<in> set (sections (load_sections small_start)). bss small_start \<inter> (origin x \<union> target x) = {}"
    unfolding sy s by (simp add: n b)
  obtain s' where s': "crt0 small_start checks_start
      \<lparr>cache_ops = [], memory = \<lambda>a. a + 1, start_sp = 0, start_gp = 0, start_et = 0\<rparr> =
        (and_then (checks_start s') (\<lambda>_. None) :: unit outcome)"
    "start_sp s' = 0x3C200" "start_et s' = memory s' 0x1004" "\<forall>a \<in> {0x1008, 0x100C}. memory s' a = 0"
    "\<forall>(src, dst, stop) \<in> set (sections small_program). \<forall>k < word_count dst stop.
       memory s' (dst + of_nat (4 * k)) = src + of_nat (4 * k) + 1"
    "\<forall>a. a \<notin> {0x1008, 0x100C} \<and> (\<forall>x \<in> set (sections small_program). a \<notin> target x) \<longrightarrow> memory s' a = a + 1"
    using start_reaches_main[OF 1 2 3, of checks_start
      "\<lparr>cache_ops = [], memory = \<lambda>a. a + 1, start_sp = 0, start_gp = 0, start_et = 0\<rparr>"]
    unfolding sy n b by auto
  have "\<forall>k < 2. memory s' (0x1000 + of_nat (4 * k)) = 0x100 + of_nat (4 * k) + 1" using s'(5) by (simp add: s n)
  then have "memory s' (0x1000 + of_nat (4 * 1)) = 0x100 + of_nat (4 * 1) + 1" by (rule allE[of _ 1]) simp
  then have "memory s' 0x1004 = 0x105" by simp
  moreover have "memory s' 0x1010 = 0x1011" using s'(6) by (simp add: s n b)
  ultimately have "checks_start s' = returns ()" using s'(2-4) by (simp add: checks_start_def)
  then show ?thesis using s'(1) by simp
qed

end
