(* ===== verification/Exceptions.thy ===== *)
theory Exceptions
  imports Irq
begin

text \<open>
  Exceptions: alt_exceptions.h, the C entry for exceptions of instructions, and the code of
  alt_exception_entry.S and alt_irq_entry.S around it, which tells interrupts from exceptions of
  instructions and decides where the program continues.  The processor has the registers EXCEPTION
  and BADADDR and a debug stub (system.h); the emulation of instructions and the trap handler are
  not linked (public.mk).

  What the registered handler \<open>f\<close> does is the parameter \<open>K\<close>, as \<open>H\<close> for interrupts.
\<close>

section \<open>alt_exceptions.h\<close>

datatype alt_exception_cause =
    NIOS2_EXCEPTION_CAUSE_NOT_PRESENT
  | NIOS2_EXCEPTION_RESET
  | NIOS2_EXCEPTION_CPU_ONLY_RESET_REQUEST
  | NIOS2_EXCEPTION_INTERRUPT
  | NIOS2_EXCEPTION_TRAP_INST
  | NIOS2_EXCEPTION_UNIMPLEMENTED_INST
  | NIOS2_EXCEPTION_ILLEGAL_INST
  | NIOS2_EXCEPTION_MISALIGNED_DATA_ADDR
  | NIOS2_EXCEPTION_MISALIGNED_TARGET_PC
  | NIOS2_EXCEPTION_DIVISION_ERROR
  | NIOS2_EXCEPTION_SUPERVISOR_ONLY_INST_ADDR
  | NIOS2_EXCEPTION_SUPERVISOR_ONLY_INST
  | NIOS2_EXCEPTION_SUPERVISOR_ONLY_DATA_ADDR
  | NIOS2_EXCEPTION_TLB_MISS
  | NIOS2_EXCEPTION_TLB_EXECUTE_PERM_VIOLATION
  | NIOS2_EXCEPTION_TLB_READ_PERM_VIOLATION
  | NIOS2_EXCEPTION_TLB_WRITE_PERM_VIOLATION
  | NIOS2_EXCEPTION_MPU_INST_REGION_VIOLATION
  | NIOS2_EXCEPTION_MPU_DATA_REGION_VIOLATION
  | NIOS2_EXCEPTION_ECC_TLB_ERR
  | NIOS2_EXCEPTION_ECC_FETCH_ERR
  | NIOS2_EXCEPTION_ECC_REGISTER_FILE_ERR
  | NIOS2_EXCEPTION_ECC_DATA_ERR
  | NIOS2_EXCEPTION_ECC_DATA_CACHE_WRITEBACK_ERR

definition cause_value :: "alt_exception_cause \<Rightarrow> cint" where
  "cause_value c = (case c of
       NIOS2_EXCEPTION_CAUSE_NOT_PRESENT \<Rightarrow> - 1 |
       NIOS2_EXCEPTION_RESET \<Rightarrow> 0 |
       NIOS2_EXCEPTION_CPU_ONLY_RESET_REQUEST \<Rightarrow> 1 |
       NIOS2_EXCEPTION_INTERRUPT \<Rightarrow> 2 |
       NIOS2_EXCEPTION_TRAP_INST \<Rightarrow> 3 |
       NIOS2_EXCEPTION_UNIMPLEMENTED_INST \<Rightarrow> 4 |
       NIOS2_EXCEPTION_ILLEGAL_INST \<Rightarrow> 5 |
       NIOS2_EXCEPTION_MISALIGNED_DATA_ADDR \<Rightarrow> 6 |
       NIOS2_EXCEPTION_MISALIGNED_TARGET_PC \<Rightarrow> 7 |
       NIOS2_EXCEPTION_DIVISION_ERROR \<Rightarrow> 8 |
       NIOS2_EXCEPTION_SUPERVISOR_ONLY_INST_ADDR \<Rightarrow> 9 |
       NIOS2_EXCEPTION_SUPERVISOR_ONLY_INST \<Rightarrow> 10 |
       NIOS2_EXCEPTION_SUPERVISOR_ONLY_DATA_ADDR \<Rightarrow> 11 |
       NIOS2_EXCEPTION_TLB_MISS \<Rightarrow> 12 |
       NIOS2_EXCEPTION_TLB_EXECUTE_PERM_VIOLATION \<Rightarrow> 13 |
       NIOS2_EXCEPTION_TLB_READ_PERM_VIOLATION \<Rightarrow> 14 |
       NIOS2_EXCEPTION_TLB_WRITE_PERM_VIOLATION \<Rightarrow> 15 |
       NIOS2_EXCEPTION_MPU_INST_REGION_VIOLATION \<Rightarrow> 16 |
       NIOS2_EXCEPTION_MPU_DATA_REGION_VIOLATION \<Rightarrow> 17 |
       NIOS2_EXCEPTION_ECC_TLB_ERR \<Rightarrow> 18 |
       NIOS2_EXCEPTION_ECC_FETCH_ERR \<Rightarrow> 19 |
       NIOS2_EXCEPTION_ECC_REGISTER_FILE_ERR \<Rightarrow> 20 |
       NIOS2_EXCEPTION_ECC_DATA_ERR \<Rightarrow> 21 |
       NIOS2_EXCEPTION_ECC_DATA_CACHE_WRITEBACK_ERR \<Rightarrow> 22)"

definition NIOS2_EXCEPTION_RETURN_REISSUE_INST :: cint where "NIOS2_EXCEPTION_RETURN_REISSUE_INST = 0"
definition NIOS2_EXCEPTION_RETURN_SKIP_INST :: cint where "NIOS2_EXCEPTION_RETURN_SKIP_INST = 1"
definition NIOS2_EXCEPTION_REG_CAUSE_MASK :: cint where "NIOS2_EXCEPTION_REG_CAUSE_MASK = 0x7c"
definition NIOS2_EXCEPTION_REG_CAUSE_OFST :: nat where "NIOS2_EXCEPTION_REG_CAUSE_OFST = 2"

text \<open>The argument is an \<open>int\<close>; the register may hold a value that the enumeration does not name.\<close>

definition alt_exception_cause_generated_bad_addr :: "cint \<Rightarrow> cint" where
  "alt_exception_cause_generated_bad_addr cause =
     (if cause \<in> cause_value ` {NIOS2_EXCEPTION_SUPERVISOR_ONLY_DATA_ADDR, NIOS2_EXCEPTION_MISALIGNED_DATA_ADDR,
          NIOS2_EXCEPTION_MISALIGNED_TARGET_PC, NIOS2_EXCEPTION_TLB_READ_PERM_VIOLATION,
          NIOS2_EXCEPTION_TLB_WRITE_PERM_VIOLATION, NIOS2_EXCEPTION_MPU_DATA_REGION_VIOLATION,
          NIOS2_EXCEPTION_ECC_DATA_ERR} then 1
      else if cause \<in> cause_value ` {NIOS2_EXCEPTION_TLB_MISS, NIOS2_EXCEPTION_ECC_TLB_ERR} then 0
      else 0)"

section \<open>The processor and the registered handler\<close>

record 's cpu =
  interrupts :: "'s irq_sys"
  reg_ea :: cint
  reg_estatus :: cint
  reg_exception :: cint
  reg_badaddr :: cint
  alt_instruction_exception_handler :: "nat option"
  breaks :: nat

type_synonym 's exception_handlers = "nat \<Rightarrow> cint \<Rightarrow> cint \<Rightarrow> cint \<Rightarrow> 's cpu \<Rightarrow> (cint \<times> 's cpu) outcome"

definition alt_instruction_exception_register :: "nat option \<Rightarrow> 's cpu \<Rightarrow> 's cpu" where
  "alt_instruction_exception_register h s = s\<lparr>alt_instruction_exception_handler := h\<rparr>"

definition NIOS2_READ_EXCEPTION :: "'s cpu \<Rightarrow> cint" where
  "NIOS2_READ_EXCEPTION s = reg_exception s"

definition NIOS2_READ_BADADDR :: "'s cpu \<Rightarrow> cint" where
  "NIOS2_READ_BADADDR s = reg_badaddr s"

text \<open>A break enters the debugger, which may let the program go on.\<close>

definition NIOS2_BREAK :: "'s cpu \<Rightarrow> 's cpu" where
  "NIOS2_BREAK s = s\<lparr>breaks := Suc (breaks s)\<rparr>"

definition alt_instruction_exception_entry ::
  "'s exception_handlers \<Rightarrow> cint \<Rightarrow> 's cpu \<Rightarrow> (cint \<times> 's cpu) outcome" where
  "alt_instruction_exception_entry K exception_pc s =
     (let cause = NIOS2_READ_EXCEPTION s;
          cause = drop_bit NIOS2_EXCEPTION_REG_CAUSE_OFST (cause AND NIOS2_EXCEPTION_REG_CAUSE_MASK);
          badaddr = NIOS2_READ_BADADDR s
      in case alt_instruction_exception_handler s of
           Some f \<Rightarrow> K f cause exception_pc badaddr s
         | None \<Rightarrow> returns (NIOS2_EXCEPTION_RETURN_REISSUE_INST, NIOS2_BREAK s))"

section \<open>Entry and exit\<close>

text \<open>The code saves estatus and the address to continue at on the stack and restores them from
  there; \<open>resume\<close> and \<open>saved\<close> are these slots.  The result is the program counter after eret.\<close>

definition exception_exit :: "cint \<Rightarrow> cint \<Rightarrow> 's cpu \<Rightarrow> cint \<times> 's cpu" where
  "exception_exit resume saved s =
     (let s = s\<lparr>reg_estatus := saved, reg_ea := resume\<rparr>
      in (reg_ea s, s\<lparr>interrupts := (interrupts s)\<lparr>ctl_status := reg_estatus s\<rparr>\<rparr>))"

definition alt_exception ::
  "('s \<Rightarrow> cint) \<Rightarrow> (nat \<Rightarrow> nat \<Rightarrow> 's irq_sys \<Rightarrow> 's irq_sys outcome) \<Rightarrow> 's exception_handlers \<Rightarrow>
   's cpu \<Rightarrow> (cint \<times> 's cpu) outcome" where
  "alt_exception lines H K s =
     (let saved = reg_estatus s;
          ea = reg_ea s;
          resume = ea - 4;
          ipending = alt_irq_pending lines (interrupts s)
      in if saved AND 1 = 0 \<or> ipending = 0 then
           (let resume = ea
            in and_then (alt_instruction_exception_entry K (ea - 4) s) (\<lambda>(r, s).
               (let resume = (if r \<noteq> 0 then resume else ea - 4)
                in returns (exception_exit resume saved s))))
         else
           and_then (alt_irq_handler lines H (interrupts s)) (\<lambda>i.
             returns (exception_exit resume saved (s\<lparr>interrupts := i\<rparr>))))"

section \<open>Where the program continues\<close>

definition cause_field :: "cint \<Rightarrow> nat" where
  "cause_field w = unat w div 4 mod 32"

lemma cause_bits: "drop_bit 2 (w AND 0x7c :: cint) = of_nat (cause_field w)"
proof -
  have "drop_bit 2 (w AND 0x7c) = take_bit 5 (drop_bit 2 w)"
    by (simp add: drop_bit_and take_bit_eq_mask mask_numeral)
  then have "unat (drop_bit 2 (w AND 0x7c)) = unat (drop_bit 2 w) mod 32" by (simp add: take_bit_eq_mod unat_mod_distrib)
  moreover have "unat (drop_bit 2 w) = unat w div 4" by (simp only: unat_drop_bit_eq drop_bit_eq_div[where 'a=nat]) simp
  ultimately have "unat (drop_bit 2 (w AND 0x7c)) = cause_field w" by (simp only: cause_field_def)
  then show ?thesis by (metis word_of_nat_eq_iff of_nat_unat ucast_id)
qed

lemma exception_entry:
  "alt_instruction_exception_entry K pc s =
     (case alt_instruction_exception_handler s of
        Some f \<Rightarrow> K f (of_nat (cause_field (reg_exception s))) pc (reg_badaddr s) s
      | None \<Rightarrow> returns (0, s\<lparr>breaks := Suc (breaks s)\<rparr>))"
  by (simp only: alt_instruction_exception_entry_def NIOS2_READ_EXCEPTION_def NIOS2_READ_BADADDR_def Let_def
    NIOS2_BREAK_def NIOS2_EXCEPTION_RETURN_REISSUE_INST_def NIOS2_EXCEPTION_REG_CAUSE_MASK_def
    NIOS2_EXCEPTION_REG_CAUSE_OFST_def cause_bits)

text \<open>C32. An interrupt while interrupts were enabled: when every handler silences its own line, the
  handlers of all pending lines are called in ascending order, and the program continues at the
  instruction that was interrupted, with the status register as it was.\<close>

theorem interrupt_resumes:
  assumes "bit (reg_estatus s) 0" and "alt_irq_pending lines (interrupts s) \<noteq> 0" and "J (interrupts s)"
    and "\<And>k i. lowest_line (alt_irq_pending lines i) k \<Longrightarrow> J i \<Longrightarrow>
      \<exists>i'. call_handler H (of_nat k) i = returns i' \<and> J i' \<and> served (devices i') = served (devices i) @ [k] \<and>
        alt_irq_pending lines i' = alt_irq_pending lines i AND NOT (2 ^ k)"
  shows "\<exists>s'. alt_exception lines H K s = returns (reg_ea s - 4, s') \<and>
    served (devices (interrupts s')) =
      served (devices (interrupts s)) @ lines_of (alt_irq_pending lines (interrupts s)) \<and>
    alt_irq_pending lines (interrupts s') = 0 \<and> ctl_status (interrupts s') = reg_estatus s"
proof -
  obtain i where i: "alt_irq_handler lines H (interrupts s) = returns i" "alt_irq_pending lines i = 0"
      "served (devices i) = served (devices (interrupts s)) @ lines_of (alt_irq_pending lines (interrupts s))"
    using irq_handler_loop_serves[where served = "\<lambda>i. served (devices i)", OF assms(4) assms(2,3)]
    by (auto simp: alt_irq_handler_def)
  have "reg_estatus s AND 1 \<noteq> 0" using assms(1) by (simp add: and_one_eq odd_iff_mod_2_eq_one bit_0)
  then show ?thesis using i assms(2)
    by (simp add: alt_exception_def exception_exit_def alt_irq_pending_def Let_def)
qed

text \<open>C33. Any other exception: the registered handler gets the five cause bits, the address of the
  instruction and BADADDR, and its result says whether the program continues behind the
  instruction or, when it is 0, at the instruction again; without a handler there is one break and
  the instruction again.  The status register is as it was.\<close>

theorem instruction_exception_resumes:
  assumes "\<not> bit (reg_estatus s) 0 \<or> alt_irq_pending lines (interrupts s) = 0"
  shows "(alt_instruction_exception_handler s = None \<longrightarrow>
      (\<exists>s'. alt_exception lines H K s = returns (reg_ea s - 4, s') \<and> breaks s' = Suc (breaks s) \<and>
        ctl_status (interrupts s') = reg_estatus s)) \<and>
    (\<forall>f r t. alt_instruction_exception_handler s = Some f \<and>
        K f (of_nat (cause_field (reg_exception s))) (reg_ea s - 4) (reg_badaddr s) s = returns (r, t) \<longrightarrow>
      (\<exists>s'. alt_exception lines H K s = returns (if r = 0 then reg_ea s - 4 else reg_ea s, s') \<and>
        ctl_status (interrupts s') = reg_estatus s \<and> devices (interrupts s') = devices (interrupts t)))"
proof -
  have "reg_estatus s AND 1 = 0 \<or> alt_irq_pending lines (interrupts s) = 0"
    using assms by (auto simp: and_one_eq odd_iff_mod_2_eq_one bit_0 even_iff_mod_2_eq_zero)
  then show ?thesis
    by (auto simp: alt_exception_def exception_exit_def exception_entry Let_def)
qed

text \<open>A handler that skips misaligned accesses and stops everything else.\<close>

definition skip_misaligned :: "nat \<Rightarrow> cint \<Rightarrow> cint \<Rightarrow> cint \<Rightarrow> 's cpu \<Rightarrow> (cint \<times> 's cpu) outcome" where
  "skip_misaligned f cause pc badaddr s = (if cause = 6 then returns (1, s) else None)"

definition cpu_at :: "'s irq_sys \<Rightarrow> nat option \<Rightarrow> 's cpu" where
  "cpu_at i h = \<lparr>interrupts = i, reg_ea = 0x20104, reg_estatus = 1, reg_exception = 0x18, reg_badaddr = 0x30001,
     alt_instruction_exception_handler = h, breaks = 0\<rparr>"

lemma instruction_exception_resumes_witness:
  "\<exists>s'. alt_exception fst log_handler skip_misaligned (cpu_at (irq_reset (0, [])) (Some 9)) = returns (0x20104, s') \<and>
    ctl_status (interrupts s') = 1"
proof -
  let ?s = "cpu_at (irq_reset (0, [])) (Some 9)"
  have "\<not> bit (reg_estatus ?s) 0 \<or> alt_irq_pending fst (interrupts ?s) = 0"
    by (simp add: cpu_at_def irq_reset_def alt_irq_pending_def)
  from instruction_exception_resumes[OF this, of log_handler skip_misaligned]
  show ?thesis
    by (auto simp: cpu_at_def skip_misaligned_def cause_field_def)
qed

lemma interrupt_resumes_witness:
  "\<exists>s'. alt_exception fst log_handler skip_misaligned (cpu_at three_lines None) = returns (0x20100, s') \<and>
    snd (devices (interrupts s')) = [0, 3, 17] \<and> ctl_status (interrupts s') = 1"
proof -
  let ?s = "cpu_at three_lines None"
  let ?J = "\<lambda>s :: (cint \<times> nat list) irq_sys. alt_irq s = alt_irq three_lines \<and> ctl_ienable s = - 1"
  have i: "interrupts ?s = three_lines" by (simp add: cpu_at_def)
  have "\<exists>s'. alt_exception fst log_handler skip_misaligned ?s = returns (reg_ea ?s - 4, s') \<and>
    snd (devices (interrupts s')) = snd (devices (interrupts ?s)) @ lines_of (alt_irq_pending fst (interrupts ?s)) \<and>
    alt_irq_pending fst (interrupts s') = 0 \<and> ctl_status (interrupts s') = reg_estatus ?s"
  proof (rule interrupt_resumes[where J = ?J and served = snd])
    show "bit (reg_estatus ?s) 0" by (simp add: cpu_at_def)
    show "alt_irq_pending fst (interrupts ?s) \<noteq> 0" "?J (interrupts ?s)"
      unfolding i by (simp_all add: three_lines_def alt_irq_pending_def irq_reset_def)
    show "\<exists>i'. call_handler log_handler (of_nat k) i = returns i' \<and> ?J i' \<and> snd (devices i') = snd (devices i) @ [k] \<and>
        alt_irq_pending fst i' = alt_irq_pending fst i AND NOT (2 ^ k)"
      if "lowest_line (alt_irq_pending fst i) k" "?J i" for k and i :: "(cint \<times> nat list) irq_sys"
      using log_handler_serves[OF that] .
  qed
  moreover have "lines_of (alt_irq_pending fst three_lines) = [0, 3, 17]" by code_simp
  moreover have "snd (devices three_lines) = []" by (simp add: three_lines_def irq_reset_def)
  ultimately show ?thesis unfolding i by (auto simp: cpu_at_def)
qed

end
