(* ===== verification/Muldiv.thy ===== *)
theory Muldiv
  imports CBase
begin

text \<open>
  The emulation of instructions the processor lacks: alt_exception_muldiv.S.  The exception entry
  runs it for every exception of an instruction; it decodes the instruction, finds the operands
  among the registers saved on the stack, multiplies or divides bit by bit and stores the result
  in the slot of the destination, from which the exit restores the registers.

  Registers are a map from their numbers to words, and the stack frame a map from slots (offset
  from sp divided by four) to words.  Variables carry the names of the registers that hold them.
\<close>

section \<open>Fields of the instruction\<close>

definition roli :: "cint \<Rightarrow> nat \<Rightarrow> cint" where
  "roli x n = word_rotl n x"

text \<open>Offsets of the operands A, B and C, the signed immediate, and OP; slot k holds register k XOR 16.\<close>

definition split_fields :: "cint \<Rightarrow> cint \<times> cint \<times> cint \<times> cint \<times> cint" where
  "split_fields r2 =
     (let r3 = roli r2 7;
          r4 = roli r3 3;
          r6 = roli r4 2;
          r4 = c_sar r4 16;
          r6 = r6 XOR 0x42;
          r7 = roli r6 5;
          r5 = r2 AND 0x3f;
          r3 = r3 XOR 0x40;
          r3 = r3 AND 0x7c;
          r6 = r6 AND 0x7c;
          r7 = r7 AND 0x7c
      in (r3, r4, r5, r6, r7))"

section \<open>The stack frame\<close>

text \<open>What the entry and the emulation have saved when the operands are read.  The slots of et, bt, ea
  and ba are not written: \<open>junk\<close> is what the stack holds there.  The slot of sp gets the stack pointer
  of the handler, 136 bytes below that of the program.\<close>

definition saved_frame :: "(nat \<Rightarrow> cint) \<Rightarrow> (nat \<Rightarrow> cint) \<Rightarrow> nat \<Rightarrow> cint" where
  "saved_frame junk rg k =
     (if k < 8 then rg (16 + k)
      else if k = 10 then rg 26
      else if k = 11 then rg 27 - 136
      else if k = 12 then rg 28
      else if k = 15 then rg 31
      else if k = 16 then 0
      else if 17 \<le> k \<and> k \<le> 31 then rg (k - 16)
      else junk k)"

definition restored :: "(nat \<Rightarrow> cint) \<Rightarrow> (nat \<Rightarrow> cint) \<Rightarrow> nat \<Rightarrow> cint" where
  "restored frame rg i =
     (if 16 \<le> i \<and> i < 24 then frame (i - 16)
      else if i = 28 then frame 12
      else if i = 31 then frame 15
      else if 1 \<le> i \<and> i < 16 then frame (16 + i)
      else rg i)"

section \<open>Division\<close>

primrec divide_loop :: "nat \<Rightarrow> cint \<Rightarrow> cint \<times> cint \<Rightarrow> cint \<times> cint" where
  "divide_loop 0 r6 s = s"
| "divide_loop (Suc r14) r6 s =
     (case s of (r13, r3) \<Rightarrow>
        (let r13 = push_bit 1 r13;
             r15 = (if sint r3 < 0 then 1 else 0);
             r13 = r13 OR r15;
             r3 = push_bit 1 r3
         in divide_loop r14 r6 (if r13 < r6 then (r13, r3) else (r13 - r6, r3 OR 1))))"

definition divide :: "cint \<Rightarrow> cint \<Rightarrow> cint \<Rightarrow> cint" where
  "divide r4 r3 r6 =
     (case (if r4 XOR 0x25 \<noteq> 0 then (0, r3, r6)
            else (r3 XOR r6, if 0 \<le> sint r3 then r3 else - r3, if 0 \<le> sint r6 then r6 else - r6)) of
        (r17, r3, r6) \<Rightarrow>
        (let r9 = snd (divide_loop 32 r6 (0, r3))
         in if 0 \<le> sint r17 then r9 else - r9))"

section \<open>Multiplication\<close>

primrec multiply_loop :: "nat \<Rightarrow> cint \<Rightarrow> cint \<times> cint \<times> cint \<times> cint \<Rightarrow> cint \<times> cint \<times> cint \<times> cint" where
  "multiply_loop 0 r3 s = s"
| "multiply_loop (Suc r14) r3 s =
     (case s of (r6, r9, r10, r12) \<Rightarrow>
        (let r9 = push_bit 1 r9;
             r15 = r12 AND 1
         in case (if r15 = 0 then (r10, r15)
                  else (r10 + r3, word_rotr 1 (if r10 + r3 < r3 then 1 else 0))) of (r10, r15) \<Rightarrow>
            (let r9 = (if 0 \<le> sint r6 then r9 else r9 + r3);
                 r10 = drop_bit 1 r10 OR r15;
                 r6 = push_bit 1 r6;
                 r12 = drop_bit 1 r12
             in multiply_loop r14 r3 (r6, r9, r10, r12))))"

definition multiply :: "cint \<Rightarrow> cint \<Rightarrow> cint \<Rightarrow> cint" where
  "multiply r4 r3 r6 =
     (let r11 = r6
      in case multiply_loop 32 r3 (r6, 0, 0, r6) of (_, r9, r10, _) \<Rightarrow>
         if r4 XOR 0x27 = 0 then r9
         else
           (let r9 = r10
            in if r4 XOR 0x07 = 0 then r9
               else
                 (let r9 = (if 0 \<le> sint r3 then r9 else r9 - r11)
                  in if r4 XOR 0x17 = 0 then r9
                     else if 0 \<le> sint r11 then r9 else r9 - r3)))"

section \<open>The handler\<close>

text \<open>None when the instruction is not one of these and the handler passes it on.\<close>

definition muldiv :: "(nat \<Rightarrow> cint) \<Rightarrow> cint \<Rightarrow> (nat \<Rightarrow> cint) \<Rightarrow> (nat \<Rightarrow> cint) option" where
  "muldiv junk r2 rg =
     (case split_fields r2 of (r3, r4, r5, r6, r7) \<Rightarrow>
        (let frame = saved_frame junk rg;
             r3 = frame (unat r3 div 4);
             store = (\<lambda>r7 r9. Some (restored (frame(unat r7 div 4 := r9)) rg))
         in if r5 = 0x24 then store r6 (multiply 0x27 r3 r4)
            else
              (let r6 = frame (unat r6 div 4);
                   r4 = drop_bit 5 r4;
                   r4 = r4 AND 0x3f
               in if r5 \<noteq> 0x3a then None
                  else if r4 = 0x24 then store r7 (divide r4 r3 r6)
                  else if r4 = 0x27 \<or> r4 = 0x07 \<or> r4 = 0x17 \<or> r4 = 0x1f then store r7 (multiply r4 r3 r6)
                  else if r4 \<noteq> 0x25 then None
                  else store r7 (divide r4 r3 r6))))"

section \<open>The loops\<close>

lemma top_bit: "sint (x :: cint) < 0 \<longleftrightarrow> 2 ^ 31 \<le> unat x"
proof -
  have "sint x < 0 \<longleftrightarrow> bit x 31" using bit_last_iff[of x] by simp
  also have "\<dots> \<longleftrightarrow> odd (unat x div 2 ^ 31)" using bit_unsigned_iff[of x 31, where 'a = nat] by (simp add: bit_iff_odd)
  also have "\<dots> \<longleftrightarrow> 2 ^ 31 \<le> unat x"
  proof -
    have d: "unat x div 2 ^ 31 < 2" using unat_bound[of x] by (simp add: less_mult_imp_div_less)
    then have "odd (unat x div 2 ^ 31) \<longleftrightarrow> 0 < unat x div 2 ^ 31" by (auto simp: less_2_cases_iff)
    also have "\<dots> \<longleftrightarrow> 2 ^ 31 \<le> unat x" by (simp only: div_greater_zero_iff) simp
    finally show ?thesis .
  qed
  finally show ?thesis .
qed

text \<open>Restoring division: \<open>r\<close> is the remainder, \<open>t\<close> the dividend's bits to come, \<open>q\<close> the quotient's
  bits so far.\<close>

lemma divide_loop_step:
  fixes b :: cint
  assumes "r < unat b" and "r < 2 ^ (31 - n)" and "n < 32" and "t < 2 ^ Suc n" and "q < 2 ^ (31 - n)"
  defines "r' \<equiv> 2 * r + t div 2 ^ n"
  shows "divide_loop (Suc n) b (of_nat r, of_nat (t * 2 ^ (31 - n) + q)) =
    divide_loop n b (if r' < unat b then (of_nat r', of_nat (t mod 2 ^ n * 2 ^ (32 - n) + 2 * q))
                     else (of_nat (r' - unat b), of_nat (t mod 2 ^ n * 2 ^ (32 - n) + (2 * q + 1))))"
proof -
  define c u where "c = t div 2 ^ n" and "u = t mod 2 ^ n"
  have t: "t = c * 2 ^ n + u" and u: "u < 2 ^ n" by (simp_all only: c_def u_def div_mult_mod_eq) simp
  have c: "c < 2" using assms(4) by (simp add: c_def less_mult_imp_div_less)
  have split: "t * 2 ^ (31 - n) = c * 2 ^ 31 + u * 2 ^ (31 - n)"
    using assms(3) by (simp add: t algebra_simps flip: power_add)
  have low: "u * 2 ^ (31 - n) + q < 2 ^ 31"
  proof -
    have "u * 2 ^ (31 - n) + q < (u + 1) * 2 ^ (31 - n)" using assms(5) by simp
    also have "\<dots> \<le> 2 ^ n * 2 ^ (31 - n)" using u by (intro mult_right_mono) simp_all
    finally show ?thesis using assms(3) by (simp flip: power_add)
  qed
  let ?x = "of_nat (t * 2 ^ (31 - n) + q) :: cint"
  have "t * 2 ^ (31 - n) + q < 2 ^ LENGTH(32)" using low c by (auto simp: split less_2_cases_iff)
  from of_nat_eq_iff_unat[OF this, of ?x]
  have ux: "unat ?x = c * 2 ^ 31 + (u * 2 ^ (31 - n) + q)" by (simp add: split)
  have top: "sint ?x < 0 \<longleftrightarrow> c = 1"
    unfolding top_bit ux using low c by (auto simp: less_2_cases_iff)
  have half: "2 * 2 ^ (31 - n) = (2 :: nat) ^ (32 - n)"
    using assms(3) by (simp add: Suc_diff_le flip: power_Suc)
  have shift: "push_bit 1 ?x = of_nat (u * 2 ^ (32 - n) + 2 * q)"
  proof -
    have "push_bit 1 ?x = of_nat (2 * (c * 2 ^ 31 + (u * 2 ^ (31 - n) + q)))"
      by (simp add: push_bit_eq_mult split algebra_simps)
    also have "2 * (c * 2 ^ 31 + (u * 2 ^ (31 - n) + q)) = c * 2 ^ 32 + (u * 2 ^ (32 - n) + 2 * q)"
      by (simp add: algebra_simps flip: half)
    also have "(of_nat \<dots> :: cint) = of_nat c * of_nat (2 ^ 32) + of_nat (u * 2 ^ (32 - n) + 2 * q)" by simp
    also have "of_nat (2 ^ 32) = (0 :: cint)" by (simp only: of_nat_power of_nat_numeral) (rule exp_eq_zero_iff[THEN iffD2], simp)
    finally show ?thesis by simp
  qed
  have rem: "push_bit 1 (of_nat r) OR (if sint ?x < 0 then 1 else 0) = (of_nat r' :: cint)"
  proof -
    have "push_bit 1 (of_nat r :: cint) OR of_bool (c = 1) = of_nat (2 * r) + of_nat c"
      using c by (auto simp: push_bit_eq_mult less_2_cases_iff or_one_eq)
    then show ?thesis unfolding top by (simp add: r'_def c_def[symmetric] of_bool_def split: if_splits)
  qed
  have r': "r' < 2 ^ 32"
  proof -
    have "r' \<le> 2 * r + 1" using c by (simp add: r'_def c_def[symmetric])
    also have "\<dots> < 2 * 2 ^ (31 - n)" using assms(2) by simp
    also have "\<dots> \<le> 2 ^ 32" unfolding half by (rule power_increasing) simp_all
    finally show ?thesis .
  qed
  then have less: "of_nat r' < b \<longleftrightarrow> r' < unat b" by (simp add: word_less_nat_alt unat_of_nat)
  have diff: "of_nat r' - b = of_nat (r' - unat b)" if "unat b \<le> r'"
    using that by (simp add: of_nat_diff)
  have one: "(of_nat (u * 2 ^ (32 - n) + 2 * q) :: cint) OR 1 = of_nat (u * 2 ^ (32 - n) + (2 * q + 1))"
  proof -
    have "even (u * 2 ^ (32 - n) + 2 * q)" using assms(3) by simp
    then have "(u * 2 ^ (32 - n) + 2 * q) OR 1 = u * 2 ^ (32 - n) + (2 * q + 1)"
      using or_Suc_0_eq[of "u * 2 ^ (32 - n) + 2 * q"] by simp
    then show ?thesis by (metis of_nat_1 of_nat_or_eq)
  qed
  show ?thesis
    using diff unfolding divide_loop.simps prod.case Let_def rem shift less one by (simp add: u_def[symmetric])
qed

lemma divide_loop_quotient:
  fixes b :: cint
  assumes "r < unat b" and "r < 2 ^ (32 - n)" and "n \<le> 32" and "t < 2 ^ n" and "q < 2 ^ (32 - n)"
  shows "snd (divide_loop n b (of_nat r, of_nat (t * 2 ^ (32 - n) + q))) =
    of_nat (q * 2 ^ n + (r * 2 ^ n + t) div unat b)"
  using assms
proof (induction n arbitrary: r t q)
  case 0
  then show ?case by simp
next
  case (Suc n)
  define r' u where "r' = 2 * r + t div 2 ^ n" and "u = t mod 2 ^ n"
  have n: "n < 32" "32 - Suc n = 31 - n" using Suc.prems(3) by simp_all
  have half: "2 * 2 ^ (31 - n) = (2 :: nat) ^ (32 - n)" using n by (simp add: Suc_diff_le flip: power_Suc)
  have u: "u < 2 ^ n" by (simp add: u_def)
  have c: "t div 2 ^ n < 2" using Suc.prems(4) by (simp add: less_mult_imp_div_less)
  have whole: "r * 2 ^ Suc n + t = r' * 2 ^ n + u"
    using div_mult_mod_eq[of t "2 ^ n"] by (simp add: r'_def u_def algebra_simps)
  have r': "r' < 2 ^ (32 - n)" using Suc.prems(2) c half by (simp add: r'_def n)
  note step = divide_loop_step[of r b n t q, folded r'_def u_def]
  show ?case
  proof (cases "r' < unat b")
    case True
    then have "snd (divide_loop (Suc n) b (of_nat r, of_nat (t * 2 ^ (32 - Suc n) + q))) =
        of_nat (2 * q * 2 ^ n + (r' * 2 ^ n + u) div unat b)"
      using step Suc.prems n u r' half Suc.IH[of r' u "2 * q"] by simp
    then show ?thesis unfolding whole by (simp add: algebra_simps)
  next
    case False
    then have "r' - unat b < unat b" using Suc.prems(1) c by (simp add: r'_def)
    then have "snd (divide_loop (Suc n) b (of_nat r, of_nat (t * 2 ^ (32 - Suc n) + q))) =
        of_nat ((2 * q + 1) * 2 ^ n + ((r' - unat b) * 2 ^ n + u) div unat b)"
      using False step Suc.prems n u r' half Suc.IH[of "r' - unat b" u "2 * q + 1"] by simp
    moreover have "(r' * 2 ^ n + u) div unat b = 2 ^ n + ((r' - unat b) * 2 ^ n + u) div unat b"
    proof -
      obtain d where "r' = unat b + d" using False le_iff_add[of "unat b" r'] by auto
      then have "r' * 2 ^ n + u = (r' - unat b) * 2 ^ n + u + 2 ^ n * unat b" by (simp add: algebra_simps)
      then show ?thesis using Suc.prems(1) by (simp only: div_mult_self1)
    qed
    ultimately show ?thesis unfolding whole by (simp add: algebra_simps)
  qed
qed

text \<open>The product's lower half, from the multiplier's upper bits, and the upper half, from its lower ones.\<close>

lemma unat_double: "unat (push_bit 1 x :: cint) = 2 * (unat x mod 2 ^ 31)"
proof -
  have "unat (push_bit 1 x) = 2 * unat x mod 2 ^ 32" by (simp add: push_bit_eq_mult unat_word_ariths mult.commute)
  also have "\<dots> = 2 * (unat x mod 2 ^ 31)" using mult_mod_right[of 2 "unat x" "2 ^ 31"] by simp
  finally show ?thesis .
qed

lemma unat_half: "unat (drop_bit 1 x :: cint) = unat x div 2"
  by (simp only: unat_drop_bit_eq) (simp add: drop_bit_eq_div)

lemma multiply_loop_step:
  "multiply_loop (Suc n) a (r6, r9, r10, r12) =
     multiply_loop n a (push_bit 1 r6, if 0 \<le> sint r6 then push_bit 1 r9 else push_bit 1 r9 + a,
       if r12 AND 1 = 0 then drop_bit 1 r10 OR (r12 AND 1)
       else drop_bit 1 (r10 + a) OR word_rotr 1 (if r10 + a < a then 1 else 0), drop_bit 1 r12)"
  by (simp only: multiply_loop.simps prod.case Let_def if_split_eq1 split: if_split prod.split) simp

lemma multiply_loop_low:
  "n \<le> 32 \<Longrightarrow> fst (snd (multiply_loop n a (r6, r9, r10, r12))) = r9 * 2 ^ n + a * of_nat (unat r6 div 2 ^ (32 - n))"
proof (induction n arbitrary: r6 r9 r10 r12)
  case 0
  then show ?case using unat_bound[of r6] by simp
next
  case (Suc n)
  define t where "t = unat r6 div 2 ^ 31"
  have t: "t < 2" using unat_bound[of r6] by (simp add: t_def less_mult_imp_div_less)
  have "0 \<le> sint r6 \<longleftrightarrow> t = 0" using top_bit[of r6] by (simp add: t_def not_less[symmetric] div_eq_0_iff)
  then have r9: "(if 0 \<le> sint r6 then push_bit 1 r9 else push_bit 1 r9 + a) = 2 * r9 + a * of_nat t"
    using t by (auto simp: push_bit_eq_mult less_2_cases_iff)
  have e: "(2 :: nat) ^ 31 = 2 ^ n * 2 ^ (31 - n)" using Suc.prems by (simp flip: power_add)
  have half: "(2 :: nat) ^ (32 - n) = 2 * 2 ^ (31 - n)" using Suc.prems by (simp add: Suc_diff_le flip: power_Suc)
  have "unat r6 = t * 2 ^ n * 2 ^ (31 - n) + unat r6 mod 2 ^ 31"
    using div_mult_mod_eq[of "unat r6" "2 ^ 31", folded t_def] e by (simp add: mult.assoc)
  then have "unat r6 div 2 ^ (31 - n) = t * 2 ^ n + (unat r6 mod 2 ^ 31) div 2 ^ (31 - n)"
    by (metis add.commute div_mult_self1 power_not_zero zero_neq_numeral)
  moreover have "unat (push_bit 1 r6) div 2 ^ (32 - n) = (unat r6 mod 2 ^ 31) div 2 ^ (31 - n)"
    unfolding unat_double half by simp
  moreover have "fst (snd (multiply_loop (Suc n) a (r6, r9, r10, r12))) =
      (2 * r9 + a * of_nat t) * 2 ^ n + a * of_nat (unat (push_bit 1 r6) div 2 ^ (32 - n))"
    using Suc.prems Suc.IH[of "push_bit 1 r6" "2 * r9 + a * of_nat t"]
    by (simp only: multiply_loop_step r9)
  ultimately show ?case by (simp add: algebra_simps)
qed

lemma half_diff: "4294967296 \<le> z \<Longrightarrow> (z - 4294967296) div 2 = z div 2 - (2147483648 :: nat)"
  by presburger

lemma half_sum:
  fixes x y :: cint
  shows "unat (drop_bit 1 (x + y) OR word_rotr 1 (if x + y < y then 1 else 0)) = (unat x + unat y) div 2"
proof -
  have carry: "x + y < y \<longleftrightarrow> 2 ^ 32 \<le> unat x + unat y"
    by (simp add: word_less_nat_alt unat_word_ariths) (use unat_bound[of x] unat_bound[of y] in \<open>auto simp: mod_if\<close>)
  have top: "word_rotr 1 (1 :: cint) = 2 ^ 31" by code_simp
  show ?thesis
  proof (cases "x + y < y")
    case True
    then have s: "unat (x + y) = unat x + unat y - 2 ^ 32"
      using carry unat_bound[of x] unat_bound[of y] by (simp add: unat_word_ariths mod_if)
    then have "unat (drop_bit 1 (x + y)) = (unat x + unat y) div 2 - 2 ^ 31"
      using half_diff[of "unat x + unat y"] carry True unfolding unat_half s by simp
    moreover have "unat (drop_bit 1 (x + y) OR 2 ^ 31) = unat (drop_bit 1 (x + y)) + 2 ^ 31"
    proof -
      have "drop_bit 1 (x + y) AND 2 ^ 31 = 0"
        by (rule word_eqI_bits)
           (auto simp only: bit_and_iff bit_drop_bit_eq bit_exp_iff bit_0_eq bot_apply bot_bool_def dest!: bit_imp_le_length,
            auto dest: bit_imp_le_length)
      then have "drop_bit 1 (x + y) OR 2 ^ 31 = drop_bit 1 (x + y) + 2 ^ 31" by (simp add: disjunctive_add_eq_or)
      then show ?thesis using \<open>unat (drop_bit 1 (x + y)) = _\<close> unat_bound[of x] unat_bound[of y]
        by (simp add: unat_word_ariths)
    qed
    ultimately show ?thesis using True carry by (simp add: top[unfolded One_nat_def])
  next
    case False
    then have "unat (x + y) = unat x + unat y" using carry by (simp add: unat_word_ariths)
    then show ?thesis using False by (simp add: unat_half[unfolded One_nat_def])
  qed
qed

lemma multiply_loop_high:
  "unat (fst (snd (snd (multiply_loop n a (r6, r9, r10, r12))))) = (unat r10 + unat a * (unat r12 mod 2 ^ n)) div 2 ^ n"
proof (induction n arbitrary: r6 r9 r10 r12)
  case 0
  then show ?case by simp
next
  case (Suc n)
  define b where "b = unat r12 mod 2"
  define r where "r = (if r12 AND 1 = 0 then drop_bit 1 r10 OR (r12 AND 1)
    else drop_bit 1 (r10 + a) OR word_rotr 1 (if r10 + a < a then 1 else 0))"
  have b: "r12 AND 1 = 0 \<longleftrightarrow> b = 0" "b < 2"
    using bit_unsigned_iff[of r12 0, where 'a = nat]
    by (auto simp: b_def and_one_eq bit_0 mod_2_eq_odd)
  have "unat r = (unat r10 + unat a * b) div 2"
    using half_sum[of r10 a] b by (auto simp: r_def less_2_cases_iff unat_half unat_half[unfolded One_nat_def])
  moreover have "\<exists>r6' r9'. multiply_loop (Suc n) a (r6, r9, r10, r12) = multiply_loop n a (r6', r9', r, drop_bit 1 r12)"
    unfolding multiply_loop_step r_def by blast
  moreover have "unat r12 mod 2 ^ Suc n = b + 2 * (unat r12 div 2 mod 2 ^ n)"
    by (simp add: b_def mod_mult2_eq)
  moreover have "(unat r + unat a * (unat r12 div 2 mod 2 ^ n)) div 2 ^ n =
      (unat r10 + unat a * (unat r12 mod 2 ^ Suc n)) div 2 ^ Suc n" if "unat r = (unat r10 + unat a * b) div 2"
      "unat r12 mod 2 ^ Suc n = b + 2 * (unat r12 div 2 mod 2 ^ n)"
  proof -
    have "unat r10 + unat a * (unat r12 mod 2 ^ Suc n) = unat r10 + unat a * b + unat a * (unat r12 div 2 mod 2 ^ n) * 2"
      unfolding that(2) by (simp add: algebra_simps)
    then have "(unat r10 + unat a * (unat r12 mod 2 ^ Suc n)) div 2 = unat r + unat a * (unat r12 div 2 mod 2 ^ n)"
      by (simp add: that(1))
    then show ?thesis by (simp only: power_Suc div_mult2_eq)
  qed
  ultimately show ?case using Suc.IH[of _ _ r "drop_bit 1 r12"] unfolding unat_half by metis
qed

section \<open>What the processor would have computed\<close>

datatype muldiv_op = Divu | Div | Mul | Mulxuu | Mulxsu | Mulxss

text \<open>The instructions' definitions: the product's lower word, or its upper word with each factor
  taken as unsigned or signed, and the quotients, rounded towards zero.\<close>

fun instruction :: "muldiv_op \<Rightarrow> cint \<Rightarrow> cint \<Rightarrow> cint" where
  "instruction Divu a b = a div b"
| "instruction Div a b = word_of_int (sint a sdiv sint b)"
| "instruction Mul a b = a * b"
| "instruction Mulxuu a b = word_of_int (uint a * uint b div 2 ^ 32)"
| "instruction Mulxsu a b = word_of_int (sint a * uint b div 2 ^ 32)"
| "instruction Mulxss a b = word_of_int (sint a * sint b div 2 ^ 32)"

lemma multiply_low: "multiply 0x27 a b = a * b"
  using multiply_loop_low[of 32 a b 0 0 b]
  by (cases "multiply_loop 32 a (b, 0, 0, b)") (simp add: multiply_def)

lemma divide_unsigned:
  assumes "b \<noteq> 0"
  shows "snd (divide_loop 32 b (0, a)) = a div b"
  using divide_loop_quotient[of 0 b 32 "unat a" 0] assms unat_bound[of a]
  by (simp add: unat_gt_0 word_arith_nat_div)

lemma uint_neg:
  assumes "sint (x :: cint) < 0"
  shows "uint x = sint x + 2 ^ 32"
proof -
  have "uint x = sint x mod 2 ^ 32" by (simp only: uint_sint[of x] take_bit_eq_mod) simp
  also have "\<dots> = (sint x + 2 ^ 32) mod 2 ^ 32" by simp
  also have "\<dots> = sint x + 2 ^ 32"
    using assms sint_ge[of x] by (intro mod_pos_pos_trivial) simp_all
  finally show ?thesis .
qed

lemma multiply_high:
  "multiply 0x07 a b = instruction Mulxuu a b" "multiply 0x17 a b = instruction Mulxsu a b"
  "multiply 0x1f a b = instruction Mulxss a b"
proof -
  obtain p q r s where loop: "multiply_loop 32 a (b, 0, 0, b) = (p, q, r, s)" by (cases "multiply_loop 32 a (b, 0, 0, b)")
  have "unat r = unat a * unat b div 2 ^ 32"
    using multiply_loop_high[of 32 a b 0 0 b] unat_bound[of b] by (simp add: loop)
  then have "(of_nat (unat r) :: cint) = of_nat (unat a * unat b div 2 ^ 32)" by (rule arg_cong)
  then have "r = of_nat (unat a * unat b div 2 ^ 32)" by (simp del: of_nat_mult)
  then have "r = of_int (int (unat a * unat b div 2 ^ 32))" by (simp only: of_int_of_nat_eq)
  also have "int (unat a * unat b div 2 ^ 32) = uint a * uint b div 2 ^ 32" by (simp add: zdiv_int)
  finally have uu: "r = word_of_int (uint a * uint b div 2 ^ 32)" .
  have su: "sint a * uint b div 2 ^ 32 = uint a * uint b div 2 ^ 32 - (if 0 \<le> sint a then 0 else uint b)"
  proof (cases "0 \<le> sint a")
    case False
    then have "sint a * uint b = uint a * uint b + (- uint b) * 2 ^ 32" by (simp add: uint_neg algebra_simps)
    then show ?thesis using False by (simp only: div_mult_self1) simp
  qed (simp add: uint_sint_nonneg)
  have ss: "sint a * sint b div 2 ^ 32 = sint a * uint b div 2 ^ 32 - (if 0 \<le> sint b then 0 else sint a)"
  proof (cases "0 \<le> sint b")
    case False
    then have "sint a * sint b = sint a * uint b + (- sint a) * 2 ^ 32" by (simp add: uint_neg algebra_simps)
    then show ?thesis using False by (simp only: div_mult_self1) simp
  qed (simp add: uint_sint_nonneg)
  show "multiply 0x07 a b = instruction Mulxuu a b" by (simp add: multiply_def loop uu)
  show "multiply 0x17 a b = instruction Mulxsu a b"
    by (simp only: instruction.simps su) (simp add: multiply_def loop uu)
  show "multiply 0x1f a b = instruction Mulxss a b"
    by (simp only: instruction.simps ss su) (simp add: multiply_def loop uu)
qed

lemma unat_magnitude: "unat (if 0 \<le> sint a then a else - a) = nat \<bar>sint (a :: cint)\<bar>"
proof (cases "0 \<le> sint a")
  case True
  then show ?thesis using uint_sint_nonneg[OF True] by (simp add: unat_eq_nat_uint)
next
  case False
  then show ?thesis using negated[of a] by (simp add: minus_eq_not_plus_1)
qed

lemma sign_xor: "0 \<le> sint (a XOR b :: cint) \<longleftrightarrow> (0 \<le> sint a \<longleftrightarrow> 0 \<le> sint b)"
  using bit_last_iff[of "a XOR b"] bit_last_iff[of a] bit_last_iff[of b]
  by (simp add: bit_xor_iff) linarith

lemma divide_signed:
  assumes "b \<noteq> 0"
  shows "divide 0x25 a b = instruction Div a b"
proof -
  define x y where "x = (if 0 \<le> sint a then a else - a)" and "y = (if 0 \<le> sint b then b else - b)"
  have "y \<noteq> 0" using assms by (simp add: y_def)
  then have "snd (divide_loop 32 y (0, x)) = x div y" by (rule divide_unsigned)
  also have "\<dots> = of_nat (nat \<bar>sint a\<bar> div nat \<bar>sint b\<bar>)"
    by (simp add: word_arith_nat_div x_def y_def unat_magnitude)
  also have "\<dots> = of_int (int (nat \<bar>sint a\<bar> div nat \<bar>sint b\<bar>))" by (simp only: of_int_of_nat_eq)
  also have "int (nat \<bar>sint a\<bar> div nat \<bar>sint b\<bar>) = \<bar>sint a\<bar> div \<bar>sint b\<bar>" by (simp add: zdiv_int)
  finally have q: "snd (divide_loop 32 y (0, x)) = word_of_int (\<bar>sint a\<bar> div \<bar>sint b\<bar>)" .
  have "divide 0x25 a b = (if 0 \<le> sint (a XOR b) then word_of_int (\<bar>sint a\<bar> div \<bar>sint b\<bar>)
      else - word_of_int (\<bar>sint a\<bar> div \<bar>sint b\<bar>))"
    unfolding q[symmetric] x_def y_def
    by (simp only: divide_def Let_def xor_self_eq not_True_eq_False if_False simp_thms prod.case)
  also have "\<dots> = word_of_int (sint a sdiv sint b)"
    by (cases "sint a = 0") (auto simp: sign_xor signed_divide_int_def sgn_if)
  finally show ?thesis by simp
qed

section \<open>Decoding\<close>

definition reg_at :: "cint \<Rightarrow> nat \<Rightarrow> nat" where
  "reg_at i n = unat (take_bit 5 (drop_bit n i))"

text \<open>Bit and register numbers, one by one.\<close>

lemma below_32:
  fixes n :: nat
  assumes "n < 32" and "\<forall>k\<in>set [0..<32]. P k"
  shows "P n"
  using assms by auto

lemma bit_number:
  "n < LENGTH(32) \<Longrightarrow> n \<in> {0, 1, 2, 3, 4, 5, 6, 7, 8, 9, 10, 11, 12, 13, 14, 15, 16, 17, 18, 19, 20, 21, 22, 23, 24,
     25, 26, 27, 28, 29, 30, 31 :: nat}"
  by (simp, presburger)

lemma offset_bits:
  "split_fields i =
    (push_bit 2 (take_bit 5 (drop_bit 27 i) XOR 16), scast (ucast (drop_bit 6 i) :: u16), take_bit 6 i,
     push_bit 2 (take_bit 5 (drop_bit 22 i) XOR 16), push_bit 2 (take_bit 5 (drop_bit 17 i) XOR 16))"
  unfolding split_fields_def Let_def prod.inject roli_def c_sar_def
  by (intro conjI; rule word_eqI_bits; drule bit_number; elim insertE emptyE; simp add: bit_simps)

lemma opx_bits: "drop_bit 5 (scast (ucast (drop_bit 6 i) :: u16)) AND 0x3f = take_bit 6 (drop_bit 11 (i :: cint))"
  by (rule word_eqI_bits; drule bit_number; elim insertE emptyE; simp add: bit_simps)

definition slot :: "nat \<Rightarrow> nat" where
  "slot k = (if k < 16 then k + 16 else k - 16)"

lemma offset_slot: "unat (push_bit 2 (take_bit 5 w XOR 16 :: cint)) div 4 = slot (unat (take_bit 5 w))"
proof -
  have "\<forall>k\<in>set [0..<32]. unat (push_bit 2 ((of_nat k :: cint) XOR 16)) div 4 = slot k" by code_simp
  moreover have "unat (take_bit 5 w) < 32"
    unfolding unsigned_take_bit_eq using take_bit_nat_less_exp[of 5 "unat w"] by simp
  ultimately have "unat (push_bit 2 ((of_nat (unat (take_bit 5 w)) :: cint) XOR 16)) div 4 = slot (unat (take_bit 5 w))"
    using below_32[where P = "\<lambda>k. unat (push_bit 2 ((of_nat k :: cint) XOR 16)) div 4 = slot k"] by blast
  then show ?thesis by simp
qed

lemma saved_operand:
  assumes "rg 0 = 0" and "k < 32" and "k \<notin> {24, 25, 27, 29, 30}"
  shows "saved_frame junk rg (slot k) = rg k"
proof -
  have "k < 16 \<or> (\<exists>d<8. k = 16 + d) \<or> k = 26 \<or> k = 28 \<or> k = 31"
  proof (cases "16 \<le> k \<and> k < 24")
    case True
    then have "k - 16 < 8 \<and> k = 16 + (k - 16)" by auto
    then show ?thesis by blast
  qed (use assms(2,3) in auto)
  then show ?thesis using assms(1) by (elim disjE) (auto simp: saved_frame_def slot_def)
qed

section \<open>The handler against the instructions\<close>

definition op_of :: "cint \<Rightarrow> muldiv_op option" where
  "op_of opx =
     (if opx = 0x24 then Some Divu else if opx = 0x25 then Some Div else if opx = 0x27 then Some Mul
      else if opx = 0x07 then Some Mulxuu else if opx = 0x17 then Some Mulxsu else if opx = 0x1f then Some Mulxss
      else None)"

text \<open>r0 stays zero.\<close>

definition set_reg :: "nat \<Rightarrow> cint \<Rightarrow> (nat \<Rightarrow> cint) \<Rightarrow> nat \<Rightarrow> cint" where
  "set_reg k v rg = (if k = 0 then rg else rg(k := v))"

definition execute :: "cint \<Rightarrow> (nat \<Rightarrow> cint) \<Rightarrow> (nat \<Rightarrow> cint) option" where
  "execute i rg =
     (let A = reg_at i 27; B = reg_at i 22; C = reg_at i 17
      in if take_bit 6 i = 0x24 then Some (set_reg B (rg A * scast (ucast (drop_bit 6 i) :: u16)) rg)
         else if take_bit 6 i = 0x3a then
           map_option (\<lambda>op. set_reg C (instruction op (rg A) (rg B)) rg) (op_of (take_bit 6 (drop_bit 11 i)))
         else None)"

text \<open>No operand is et, bt, sp, ea or ba; the destination is not gp either; the divisor is not 0.\<close>

definition source_ok :: "nat \<Rightarrow> bool" where "source_ok k \<longleftrightarrow> k \<notin> {24, 25, 27, 29, 30}"
definition target_ok :: "nat \<Rightarrow> bool" where "target_ok k \<longleftrightarrow> k \<notin> {24, 25, 26, 27, 29, 30}"

definition operands_ok :: "cint \<Rightarrow> (nat \<Rightarrow> cint) \<Rightarrow> bool" where
  "operands_ok i rg \<longleftrightarrow>
     source_ok (reg_at i 27) \<and>
     (if take_bit 6 i = 0x24 then target_ok (reg_at i 22)
      else source_ok (reg_at i 22) \<and> target_ok (reg_at i 17) \<and>
        (op_of (take_bit 6 (drop_bit 11 i)) \<in> {Some Div, Some Divu} \<longrightarrow> rg (reg_at i 22) \<noteq> 0))"

lemma reg_at_lt: "reg_at i n < 32"
  unfolding reg_at_def unsigned_take_bit_eq using take_bit_nat_less_exp[of 5 "unat (drop_bit n i)"] by simp

lemma saved_source: "rg 0 = 0 \<Longrightarrow> source_ok (reg_at i n) \<Longrightarrow> saved_frame junk rg (slot (reg_at i n)) = rg (reg_at i n)"
  using saved_operand[of rg "reg_at i n" junk] reg_at_lt[of i n] by (simp add: source_ok_def)

lemma restored_slots:
  assumes "j < 32"
  shows "restored f rg j = (if 1 \<le> j \<and> j < 24 \<or> j = 28 \<or> j = 31 then f (slot j) else rg j)"
  by (auto simp: restored_def slot_def add.commute)

lemma slot_inject: "a < 32 \<Longrightarrow> b < 32 \<Longrightarrow> slot a = slot b \<longleftrightarrow> a = b"
  by (auto simp: slot_def)

lemma restored_other:
  assumes "rg 0 = 0" and "j < 32" and "k < 32" and "j \<noteq> k"
  shows "restored ((saved_frame junk rg)(slot k := v)) rg j = rg j"
proof (cases "1 \<le> j \<and> j < 24 \<or> j = 28 \<or> j = 31")
  case True
  then have "saved_frame junk rg (slot j) = rg j" using assms(1,2) by (intro saved_operand) auto
  then show ?thesis using True assms slot_inject[of j k] by (simp add: restored_slots)
next
  case False
  then show ?thesis using assms(2) by (simp only: restored_slots if_False)
qed

lemma restored_target:
  assumes "rg 0 = 0" and "target_ok (reg_at i n)"
  shows "restored ((saved_frame junk rg)(slot (reg_at i n) := v)) rg = set_reg (reg_at i n) v rg"
proof
  fix j
  note k = reg_at_lt[of i n]
  consider "32 \<le> j" | "j < 32" "j \<noteq> reg_at i n" | "j = reg_at i n" by linarith
  then show "restored ((saved_frame junk rg)(slot (reg_at i n) := v)) rg j = set_reg (reg_at i n) v rg j"
  proof cases
    case 1
    then show ?thesis using k by (simp add: restored_def set_reg_def)
  next
    case 2
    then show ?thesis using restored_other[of rg j "reg_at i n"] assms(1) k by (simp add: set_reg_def)
  next
    case 3
    have "1 \<le> j \<and> j < 24 \<or> j = 28 \<or> j = 31" if "j \<noteq> 0"
      using that assms(2) k unfolding 3 target_ok_def by (auto simp: not_less)
    then show ?thesis using 3 k assms(1) by (simp add: restored_slots set_reg_def)
  qed
qed

lemma muldiv_fields:
  "muldiv junk i rg =
     (let frame = saved_frame junk rg;
          a = frame (slot (reg_at i 27));
          b = frame (slot (reg_at i 22));
          opx = take_bit 6 (drop_bit 11 i);
          store = (\<lambda>n v. Some (restored (frame(slot (reg_at i n) := v)) rg))
      in if take_bit 6 i = 0x24 then store 22 (multiply 0x27 a (scast (ucast (drop_bit 6 i) :: u16)))
         else if take_bit 6 i \<noteq> 0x3a then None
         else if opx = 0x24 then store 17 (divide opx a b)
         else if opx = 0x27 \<or> opx = 0x07 \<or> opx = 0x17 \<or> opx = 0x1f then store 17 (multiply opx a b)
         else if opx \<noteq> 0x25 then None
         else store 17 (divide opx a b))"
  unfolding muldiv_def offset_bits prod.case Let_def opx_bits offset_slot reg_at_def ..

lemma divide_unsigned_op: "b \<noteq> 0 \<Longrightarrow> divide 0x24 a b = a div b"
  using divide_unsigned[of b a] by (simp add: divide_def Let_def)

text \<open>C11. The emulation computes what the processor would have: for every instruction word, on operands
  the emulation supports, it multiplies and divides as the instructions are defined (low and high
  products, signed or not; quotients rounded towards zero), changes the destination register only, and
  passes every other instruction on.\<close>

theorem muldiv_emulates:
  assumes "rg 0 = 0" and "operands_ok i rg"
  shows "muldiv junk i rg = execute i rg"
proof -
  let ?opx = "take_bit 6 (drop_bit 11 i)"
  have a: "saved_frame junk rg (slot (reg_at i 27)) = rg (reg_at i 27)"
    using assms by (simp add: saved_source operands_ok_def)
  show ?thesis
  proof (cases "take_bit 6 i = 0x24")
    case True
    then show ?thesis
      using assms by (simp add: muldiv_fields execute_def Let_def a multiply_low restored_target operands_ok_def)
  next
    case False
    then have b: "saved_frame junk rg (slot (reg_at i 22)) = rg (reg_at i 22)"
      and nz: "op_of ?opx \<in> {Some Div, Some Divu} \<Longrightarrow> rg (reg_at i 22) \<noteq> 0"
      using assms by (simp_all add: saved_source operands_ok_def)
    have c: "restored ((saved_frame junk rg)(slot (reg_at i 17) := v)) rg = set_reg (reg_at i 17) v rg" for v
      using False assms by (simp add: restored_target operands_ok_def)
    have "?opx = 0x24 \<Longrightarrow> divide ?opx x (rg (reg_at i 22)) = instruction Divu x (rg (reg_at i 22))"
      and "?opx = 0x25 \<Longrightarrow> divide ?opx x (rg (reg_at i 22)) = instruction Div x (rg (reg_at i 22))" for x
      using nz by (simp_all add: op_of_def divide_unsigned_op divide_signed del: instruction.simps(2))
    then show ?thesis
      using False by (auto simp: muldiv_fields execute_def Let_def a b c op_of_def multiply_low multiply_high
          simp del: instruction.simps(2,4-6))
  qed
qed

text \<open>div r2, r3, r4 with -7 and 2.\<close>

lemma muldiv_emulates_witness:
  "\<exists>rg. muldiv (\<lambda>_. 0xDEAD) 0x1905283A ((\<lambda>_. 0)(3 := - 7, 4 := 2)) = Some rg \<and> rg 2 = - 3 \<and> rg 3 = - 7"
proof -
  let ?rg = "(\<lambda>_. 0)(3 := - 7, 4 := 2) :: nat \<Rightarrow> cint"
  have f: "reg_at 0x1905283A 27 = 3" "reg_at 0x1905283A 22 = 4" "reg_at 0x1905283A 17 = 2"
    "take_bit 6 (0x1905283A :: cint) = 0x3a" "op_of (take_bit 6 (drop_bit 11 0x1905283A)) = Some Div"
    by code_simp+
  have "muldiv (\<lambda>_. 0xDEAD) 0x1905283A ?rg = execute 0x1905283A ?rg"
    by (rule muldiv_emulates) (simp_all add: operands_ok_def f source_ok_def target_ok_def)
  also have "\<dots> = Some (?rg(2 := word_of_int (sint (- 7 :: cint) sdiv sint (2 :: cint))))"
    unfolding execute_def Let_def f by (simp add: f set_reg_def)
  also have "word_of_int (sint (- 7 :: cint) sdiv sint (2 :: cint)) = (- 3 :: cint)" by code_simp
  finally show ?thesis by (intro exI[of _ "?rg(2 := - 3)"] conjI) (assumption, simp_all)
qed

section \<open>Operands that are not supported\<close>

text \<open>muli with sp as its source reads the handler's stack pointer, and with gp as its destination
  changes nothing.\<close>

lemma sp_operand_off:
  assumes "take_bit 6 i = 0x24" and "reg_at i 27 = 27" and "reg_at i 22 = 2"
  shows "\<exists>rg'. muldiv junk i rg = Some rg' \<and> rg' 2 = (rg 27 - 136) * scast (ucast (drop_bit 6 i) :: u16)"
  using assms by (simp add: muldiv_fields Let_def multiply_low restored_def saved_frame_def slot_def)

lemma gp_destination_lost:
  assumes "take_bit 6 i = 0x24" and "reg_at i 22 = 26"
  shows "\<exists>rg'. muldiv junk i rg = Some rg' \<and> rg' 26 = rg 26"
  using assms by (simp add: muldiv_fields Let_def restored_def)

end
