(* ===== verification/Channels.thy ===== *)
theory Channels
  imports Fd
begin

text \<open>
  The application and driver interfaces of DMA channels and flash devices: sys/alt_dma.h,
  sys/alt_dma_dev.h, alt_dma_*chan_open.c, sys/alt_flash.h, sys/alt_flash_dev.h and alt_flash_dev.c.
  The BSP has no driver of either kind; the structures a driver would register are parameters,
  their functions act on the state \<open>'s\<close>.  A channel is the number of its structure, \<open>None\<close> for NULL.
\<close>

section \<open>Devices\<close>

text \<open>A call of a function pointer that may be NULL.\<close>

definition call_ptr :: "'f option \<Rightarrow> 'f outcome" where
  "call_ptr p = defined_or_trap p"

text \<open>Requests carry the address of the data, its length, the callback and its handle.\<close>

record 's alt_dma_txchan_dev =
  tx_name :: "string option"
  tx_space :: "(nat \<Rightarrow> 's \<Rightarrow> (cint \<times> 's) outcome) option"
  tx_send :: "(nat \<Rightarrow> cint \<Rightarrow> cint \<Rightarrow> nat \<Rightarrow> cint \<Rightarrow> 's \<Rightarrow> (cint \<times> 's) outcome) option"
  tx_ioctl :: "(nat \<Rightarrow> cint \<Rightarrow> cint \<Rightarrow> 's \<Rightarrow> (cint \<times> 's) outcome) option"

record 's alt_dma_rxchan_dev =
  rx_name :: "string option"
  rx_depth :: cint
  rx_prepare :: "(nat \<Rightarrow> cint \<Rightarrow> cint \<Rightarrow> nat \<Rightarrow> cint \<Rightarrow> 's \<Rightarrow> (cint \<times> 's) outcome) option"
  rx_ioctl :: "(nat \<Rightarrow> cint \<Rightarrow> cint \<Rightarrow> 's \<Rightarrow> (cint \<times> 's) outcome) option"

record flash_region =
  offset :: cint
  region_size :: cint
  number_of_blocks :: cint
  block_size :: cint

record 's alt_flash_dev =
  flash_name :: "string option"
  flash_open :: "(nat \<Rightarrow> string \<Rightarrow> 's \<Rightarrow> (nat option \<times> 's) outcome) option"
  flash_close :: "(nat \<Rightarrow> 's \<Rightarrow> (cint \<times> 's) outcome) option"
  flash_write :: "(nat \<Rightarrow> cint \<Rightarrow> u8 list \<Rightarrow> cint \<Rightarrow> 's \<Rightarrow> (cint \<times> 's) outcome) option"
  flash_read :: "(nat \<Rightarrow> cint \<Rightarrow> cint \<Rightarrow> 's \<Rightarrow> (cint \<times> u8 list \<times> 's) outcome) option"
  flash_get_info :: "(nat \<Rightarrow> 's \<Rightarrow> (cint \<times> flash_region list \<times> cint \<times> 's) outcome) option"
  flash_erase_block :: "(nat \<Rightarrow> cint \<Rightarrow> 's \<Rightarrow> (cint \<times> 's) outcome) option"
  flash_write_block :: "(nat \<Rightarrow> cint \<Rightarrow> cint \<Rightarrow> u8 list \<Rightarrow> cint \<Rightarrow> 's \<Rightarrow> (cint \<times> 's) outcome) option"
  flash_lock :: "(nat \<Rightarrow> cint \<Rightarrow> 's \<Rightarrow> (cint \<times> 's) outcome) option"

record 's channels =
  alt_dma_txchan_list :: "nat list"
  alt_dma_rxchan_list :: "nat list"
  alt_flash_dev_list :: "nat list"
  chan_errno :: cint
  chan_world :: 's

definition channels_init :: "'s \<Rightarrow> 's channels" where
  "channels_init s = \<lparr>alt_dma_txchan_list = [], alt_dma_rxchan_list = [], alt_flash_dev_list = [],
     chan_errno = 0, chan_world = s\<rparr>"

text \<open>The lists are searched through the common head of the structures, the links and the name.\<close>

definition named :: "(nat \<Rightarrow> string option) \<Rightarrow> nat \<Rightarrow> unit alt_dev" where
  "named N n = alt_dev_null\<lparr>dev_name := N n\<rparr>"

definition insert_errno :: "cint option \<Rightarrow> 's channels \<Rightarrow> 's channels" where
  "insert_errno err c = (case err of None \<Rightarrow> c | Some e \<Rightarrow> c\<lparr>chan_errno := e\<rparr>)"

section \<open>DMA\<close>

definition alt_dma_txchan_reg :: "(nat \<Rightarrow> 's alt_dma_txchan_dev) \<Rightarrow> nat option \<Rightarrow> 's channels \<Rightarrow> cint \<times> 's channels" where
  "alt_dma_txchan_reg T chan c =
     (case alt_dev_llist_insert (named (tx_name \<circ> T)) chan (alt_dma_txchan_list c) of
        (rc, err, list) \<Rightarrow> (rc, insert_errno err (c\<lparr>alt_dma_txchan_list := list\<rparr>)))"

definition alt_dma_rxchan_reg :: "(nat \<Rightarrow> 's alt_dma_rxchan_dev) \<Rightarrow> nat option \<Rightarrow> 's channels \<Rightarrow> cint \<times> 's channels" where
  "alt_dma_rxchan_reg R chan c =
     (case alt_dev_llist_insert (named (rx_name \<circ> R)) chan (alt_dma_rxchan_list c) of
        (rc, err, list) \<Rightarrow> (rc, insert_errno err (c\<lparr>alt_dma_rxchan_list := list\<rparr>)))"

definition alt_dma_txchan_open :: "(nat \<Rightarrow> 's alt_dma_txchan_dev) \<Rightarrow> string \<Rightarrow> 's channels \<Rightarrow> (nat option \<times> 's channels) outcome" where
  "alt_dma_txchan_open T name c =
     and_then (defined_or_trap (alt_find_dev (named (tx_name \<circ> T)) name (alt_dma_txchan_list c))) (\<lambda>chan.
     returns (chan, if chan = None then c\<lparr>chan_errno := ENODEV\<rparr> else c))"

definition alt_dma_rxchan_open :: "(nat \<Rightarrow> 's alt_dma_rxchan_dev) \<Rightarrow> string \<Rightarrow> 's channels \<Rightarrow> (nat option \<times> 's channels) outcome" where
  "alt_dma_rxchan_open R name c =
     and_then (defined_or_trap (alt_find_dev (named (rx_name \<circ> R)) name (alt_dma_rxchan_list c))) (\<lambda>chan.
     returns (chan, if chan = None then c\<lparr>chan_errno := ENODEV\<rparr> else c))"

definition alt_dma_txchan_close :: "nat option \<Rightarrow> 's channels \<Rightarrow> cint \<times> 's channels" where
  "alt_dma_txchan_close dma c = (0, c)"

definition alt_dma_rxchan_close :: "nat option \<Rightarrow> 's channels \<Rightarrow> cint \<times> 's channels" where
  "alt_dma_rxchan_close dma c = (0, c)"

definition on_world :: "('s \<Rightarrow> ('a \<times> 's) outcome) \<Rightarrow> 's channels \<Rightarrow> ('a \<times> 's channels) outcome" where
  "on_world f c = and_then (f (chan_world c)) (\<lambda>(rc, s). returns (rc, c\<lparr>chan_world := s\<rparr>))"

definition alt_dma_txchan_send ::
  "(nat \<Rightarrow> 's alt_dma_txchan_dev) \<Rightarrow> nat option \<Rightarrow> cint \<Rightarrow> cint \<Rightarrow> nat \<Rightarrow> cint \<Rightarrow> 's channels \<Rightarrow> (cint \<times> 's channels) outcome" where
  "alt_dma_txchan_send T dma src len d h c =
     (case dma of
        Some n \<Rightarrow> and_then (call_ptr (tx_send (T n))) (\<lambda>f. on_world (f n src len d h) c)
      | None \<Rightarrow> returns (- ENODEV, c))"

definition alt_dma_txchan_space :: "(nat \<Rightarrow> 's alt_dma_txchan_dev) \<Rightarrow> nat option \<Rightarrow> 's channels \<Rightarrow> (cint \<times> 's channels) outcome" where
  "alt_dma_txchan_space T dma c =
     (case dma of
        Some n \<Rightarrow> and_then (call_ptr (tx_space (T n))) (\<lambda>f. on_world (f n) c)
      | None \<Rightarrow> returns (- ENODEV, c))"

definition alt_dma_txchan_ioctl ::
  "(nat \<Rightarrow> 's alt_dma_txchan_dev) \<Rightarrow> nat option \<Rightarrow> cint \<Rightarrow> cint \<Rightarrow> 's channels \<Rightarrow> (cint \<times> 's channels) outcome" where
  "alt_dma_txchan_ioctl T dma req arg c =
     (case dma of
        Some n \<Rightarrow> and_then (call_ptr (tx_ioctl (T n))) (\<lambda>f. on_world (f n req arg) c)
      | None \<Rightarrow> returns (- ENODEV, c))"

definition alt_dma_rxchan_prepare ::
  "(nat \<Rightarrow> 's alt_dma_rxchan_dev) \<Rightarrow> nat option \<Rightarrow> cint \<Rightarrow> cint \<Rightarrow> nat \<Rightarrow> cint \<Rightarrow> 's channels \<Rightarrow> (cint \<times> 's channels) outcome" where
  "alt_dma_rxchan_prepare R dma data len d h c =
     (case dma of
        Some n \<Rightarrow> and_then (call_ptr (rx_prepare (R n))) (\<lambda>f. on_world (f n data len d h) c)
      | None \<Rightarrow> returns (- ENODEV, c))"

definition alt_dma_rxchan_ioctl ::
  "(nat \<Rightarrow> 's alt_dma_rxchan_dev) \<Rightarrow> nat option \<Rightarrow> cint \<Rightarrow> cint \<Rightarrow> 's channels \<Rightarrow> (cint \<times> 's channels) outcome" where
  "alt_dma_rxchan_ioctl R dma req arg c =
     (case dma of
        Some n \<Rightarrow> and_then (call_ptr (rx_ioctl (R n))) (\<lambda>f. on_world (f n req arg) c)
      | None \<Rightarrow> returns (- ENODEV, c))"

text \<open>Here the pointer is not tested.\<close>

definition alt_dma_rxchan_depth :: "(nat \<Rightarrow> 's alt_dma_rxchan_dev) \<Rightarrow> nat option \<Rightarrow> cint outcome" where
  "alt_dma_rxchan_depth R dma = defined_or_trap (map_option (rx_depth \<circ> R) dma)"

section \<open>Flash\<close>

definition alt_flash_device_register :: "(nat \<Rightarrow> 's alt_flash_dev) \<Rightarrow> nat option \<Rightarrow> 's channels \<Rightarrow> cint \<times> 's channels" where
  "alt_flash_device_register F fd c =
     (case alt_dev_llist_insert (named (flash_name \<circ> F)) fd (alt_flash_dev_list c) of
        (rc, err, list) \<Rightarrow> (rc, insert_errno err (c\<lparr>alt_flash_dev_list := list\<rparr>)))"

definition alt_flash_open_dev :: "(nat \<Rightarrow> 's alt_flash_dev) \<Rightarrow> string \<Rightarrow> 's channels \<Rightarrow> (nat option \<times> 's channels) outcome" where
  "alt_flash_open_dev F name c =
     and_then (defined_or_trap (alt_find_dev (named (flash_name \<circ> F)) name (alt_flash_dev_list c))) (\<lambda>chan.
     case chan of
       Some n \<Rightarrow> (case flash_open (F n) of Some f \<Rightarrow> on_world (f n name) c | None \<Rightarrow> returns (chan, c))
     | None \<Rightarrow> returns (chan, c))"

definition alt_flash_close_dev :: "(nat \<Rightarrow> 's alt_flash_dev) \<Rightarrow> nat option \<Rightarrow> 's channels \<Rightarrow> 's channels outcome" where
  "alt_flash_close_dev F fd c =
     (case fd of
        Some n \<Rightarrow> (case flash_close (F n) of
                      Some f \<Rightarrow> and_then (on_world (f n) c) (\<lambda>(_, c). returns c)
                    | None \<Rightarrow> returns c)
      | None \<Rightarrow> returns c)"

text \<open>The other routines call through the pointer without testing it.\<close>

definition alt_lock_flash :: "(nat \<Rightarrow> 's alt_flash_dev) \<Rightarrow> nat option \<Rightarrow> cint \<Rightarrow> 's channels \<Rightarrow> (cint \<times> 's channels) outcome" where
  "alt_lock_flash F fd sectors c =
     and_then (defined_or_trap fd) (\<lambda>n. and_then (call_ptr (flash_lock (F n))) (\<lambda>f. on_world (f n sectors) c))"

definition alt_write_flash ::
  "(nat \<Rightarrow> 's alt_flash_dev) \<Rightarrow> nat option \<Rightarrow> cint \<Rightarrow> u8 list \<Rightarrow> cint \<Rightarrow> 's channels \<Rightarrow> (cint \<times> 's channels) outcome" where
  "alt_write_flash F fd off src len c =
     and_then (defined_or_trap fd) (\<lambda>n. and_then (call_ptr (flash_write (F n))) (\<lambda>f. on_world (f n off src len) c))"

definition alt_read_flash ::
  "(nat \<Rightarrow> 's alt_flash_dev) \<Rightarrow> nat option \<Rightarrow> cint \<Rightarrow> cint \<Rightarrow> 's channels \<Rightarrow> ((cint \<times> u8 list) \<times> 's channels) outcome" where
  "alt_read_flash F fd off len c =
     and_then (defined_or_trap fd) (\<lambda>n. and_then (call_ptr (flash_read (F n))) (\<lambda>f.
       and_then (f n off len (chan_world c)) (\<lambda>(rc, bs, s). returns ((rc, bs), c\<lparr>chan_world := s\<rparr>))))"

definition alt_get_flash_info ::
  "(nat \<Rightarrow> 's alt_flash_dev) \<Rightarrow> nat option \<Rightarrow> 's channels \<Rightarrow> ((cint \<times> flash_region list \<times> cint) \<times> 's channels) outcome" where
  "alt_get_flash_info F fd c =
     and_then (defined_or_trap fd) (\<lambda>n. and_then (call_ptr (flash_get_info (F n))) (\<lambda>f.
       and_then (f n (chan_world c)) (\<lambda>(rc, info, k, s). returns ((rc, info, k), c\<lparr>chan_world := s\<rparr>))))"

definition alt_erase_flash_block ::
  "(nat \<Rightarrow> 's alt_flash_dev) \<Rightarrow> nat option \<Rightarrow> cint \<Rightarrow> cint \<Rightarrow> 's channels \<Rightarrow> (cint \<times> 's channels) outcome" where
  "alt_erase_flash_block F fd off len c =
     and_then (defined_or_trap fd) (\<lambda>n. and_then (call_ptr (flash_erase_block (F n))) (\<lambda>f. on_world (f n off) c))"

definition alt_write_flash_block ::
  "(nat \<Rightarrow> 's alt_flash_dev) \<Rightarrow> nat option \<Rightarrow> cint \<Rightarrow> cint \<Rightarrow> u8 list \<Rightarrow> cint \<Rightarrow> 's channels \<Rightarrow> (cint \<times> 's channels) outcome" where
  "alt_write_flash_block F fd block off data len c =
     and_then (defined_or_trap fd) (\<lambda>n. and_then (call_ptr (flash_write_block (F n))) (\<lambda>f. on_world (f n block off data len) c))"

section \<open>Registering and opening\<close>

definition c_string :: "string \<Rightarrow> bool" where
  "c_string s \<longleftrightarrow> CHR 0x00 \<notin> set s"

lemma memcmp_equal_iff:
  assumes "c_string a" and "c_string b"
  shows "memcmp_equal a b (length b + 1) \<longleftrightarrow> a = b"
proof
  assume eq: "memcmp_equal a b (length b + 1)"
  then have t: "take (length b + 1) (a @ [CHR 0x00]) = b @ [CHR 0x00]" by (simp add: memcmp_equal_def c_str_def)
  show "a = b"
  proof (cases "length a \<le> length b")
    case True
    then have "a @ [CHR 0x00] = b @ [CHR 0x00]" using t by simp
    then show ?thesis by simp
  next
    case False
    then have "(a @ [CHR 0x00]) ! length b = a ! length b" "length b < length a" by (simp_all add: nth_append)
    moreover have "(take (length b + 1) (a @ [CHR 0x00])) ! length b = (a @ [CHR 0x00]) ! length b" by (rule nth_take) simp
    ultimately have "CHR 0x00 = a ! length b" unfolding t by (simp add: nth_append)
    then show ?thesis using assms(1) False by (metis c_string_def not_le nth_mem)
  qed
qed (simp add: memcmp_equal_def)

definition all_named :: "(nat \<Rightarrow> string option) \<Rightarrow> nat list \<Rightarrow> bool" where
  "all_named N l \<longleftrightarrow> (\<forall>n\<in>set l. \<exists>s. N n = Some s \<and> c_string s)"

lemma alt_find_dev_first:
  "all_named N l \<Longrightarrow> c_string name \<Longrightarrow> alt_find_dev (named N) name l = Some (find (\<lambda>n. N n = Some name) l)"
proof (induction l)
  case (Cons n l)
  then obtain s where "N n = Some s" "c_string s" by (auto simp: all_named_def)
  then show ?case using Cons memcmp_equal_iff[of s name] by (simp add: named_def all_named_def)
qed simp

text \<open>A DMA channel that has been registered is the one that opening its name yields, until a
  later one takes the name; opening another name yields what it did before, or NULL with ENODEV;
  and nothing else changes.  The same for a flash device without an open routine.\<close>

theorem register_open:
  assumes "all_named (tx_name \<circ> T) (alt_dma_txchan_list c)" and "tx_name (T n) = Some name" and "c_string name"
    and "all_named (flash_name \<circ> F) (alt_flash_dev_list c)" and "flash_name (F k) = Some name" and "flash_open (F k) = None"
    and "c_string other" and "other \<noteq> name"
  shows "\<exists>c1 c2. alt_dma_txchan_reg T (Some n) c = (0, c1) \<and> alt_dma_txchan_open T name c1 = returns (Some n, c1) \<and>
    (\<exists>d. alt_dma_txchan_open T other c = returns (d, if d = None then c\<lparr>chan_errno := ENODEV\<rparr> else c) \<and>
         alt_dma_txchan_open T other c1 = returns (d, if d = None then c1\<lparr>chan_errno := ENODEV\<rparr> else c1)) \<and>
    alt_flash_device_register F (Some k) c = (0, c2) \<and> alt_flash_open_dev F name c2 = returns (Some k, c2) \<and>
    c1 = c\<lparr>alt_dma_txchan_list := n # alt_dma_txchan_list c\<rparr> \<and> c2 = c\<lparr>alt_flash_dev_list := k # alt_flash_dev_list c\<rparr>"
proof -
  have "all_named (tx_name \<circ> T) (n # alt_dma_txchan_list c)" "all_named (flash_name \<circ> F) (k # alt_flash_dev_list c)"
    using assms by (simp_all add: all_named_def)
  then show ?thesis using assms
    by (simp add: alt_dma_txchan_reg_def alt_flash_device_register_def alt_dev_llist_insert_def named_def[of _ n]
      named_def[of _ k] insert_errno_def alt_dma_txchan_open_def alt_flash_open_dev_def alt_find_dev_first del: alt_find_dev.simps)
qed

text \<open>A NULL channel is refused by every routine but one.\<close>

lemma null_channel:
  "alt_dma_txchan_send T None src len d h c = returns (- ENODEV, c)"
  "alt_dma_rxchan_prepare R None src len d h c = returns (- ENODEV, c)"
  "alt_dma_rxchan_depth R None = undefined_run"
  by (simp_all add: alt_dma_txchan_send_def alt_dma_rxchan_prepare_def alt_dma_rxchan_depth_def defined_or_trap_def)

definition dma_0 :: "unit alt_dma_txchan_dev" where
  "dma_0 = \<lparr>tx_name = Some ''/dev/dma_0'', tx_space = None, tx_send = None, tx_ioctl = None\<rparr>"

definition flash_0 :: "unit alt_flash_dev" where
  "flash_0 = \<lparr>flash_name = Some ''/dev/dma_0'', flash_open = None, flash_close = None, flash_write = None, flash_read = None,
     flash_get_info = None, flash_erase_block = None, flash_write_block = None, flash_lock = None\<rparr>"

lemma register_open_witness:
  "\<exists>c1. alt_dma_txchan_reg (\<lambda>n. dma_0) (Some 0) (channels_init ()) = (0, c1) \<and>
    alt_dma_txchan_open (\<lambda>n. dma_0) ''/dev/dma_0'' c1 = returns (Some 0, c1)"
  using register_open[of "\<lambda>n. dma_0" "channels_init ()" 0 "''/dev/dma_0''" "\<lambda>n. flash_0" 0 "''/dev/x''"]
  by (auto simp: dma_0_def flash_0_def channels_init_def all_named_def c_string_def)

end
