(* ===== verification/Putbuf.thy ===== *)
theory Putbuf
  imports Bus
begin

text \<open>
  The buffer of alt_putcharbuf.c, with which alt_printf collects characters for semihosting; the
  file is empty in a build without it.  \<open>W\<close> is the \<open>write\<close> to the standard output of that build.
\<close>

section \<open>alt_putcharbuf.c\<close>

definition ALT_PUTBUF_SIZE :: nat where "ALT_PUTBUF_SIZE = 64"

record 's putbuf =
  put_buf :: "u8 list"
  fill_index :: cint
  put_world :: 's

definition putbuf_init :: "'s \<Rightarrow> 's putbuf" where
  "putbuf_init s = \<lparr>put_buf = replicate ALT_PUTBUF_SIZE 0, fill_index = 0, put_world = s\<rparr>"

definition alt_putbufflush :: "(u8 list \<Rightarrow> 's \<Rightarrow> cint \<times> 's) \<Rightarrow> 's putbuf \<Rightarrow> cint \<times> 's putbuf" where
  "alt_putbufflush W b =
     (case W (take (unat (fill_index b)) (put_buf b)) (put_world b) of (results, s) \<Rightarrow>
        (results, b\<lparr>put_world := s, fill_index := 0\<rparr>))"

definition alt_putcharbuf :: "(u8 list \<Rightarrow> 's \<Rightarrow> cint \<times> 's) \<Rightarrow> cint \<Rightarrow> 's putbuf \<Rightarrow> (cint \<times> 's putbuf) outcome" where
  "alt_putcharbuf W c b =
     and_then (defined_or_trap (arr_set (put_buf b) (unat (fill_index b)) (ucast (c AND 0xff)))) (\<lambda>xs.
       (let b = b\<lparr>put_buf := xs, fill_index := fill_index b + 1\<rparr>;
            b = (if of_nat ALT_PUTBUF_SIZE \<le> fill_index b then snd (alt_putbufflush W b) else b)
        in returns (c, b)))"

section \<open>Nothing is lost\<close>

text \<open>The specification: what has reached the host, and what is waiting.\<close>

definition pending :: "'s putbuf \<Rightarrow> u8 list" where
  "pending b = take (unat (fill_index b)) (put_buf b)"

definition putbuf_ok :: "'s putbuf \<Rightarrow> bool" where
  "putbuf_ok b \<longleftrightarrow> length (put_buf b) = ALT_PUTBUF_SIZE \<and> unat (fill_index b) < ALT_PUTBUF_SIZE"

fun putchars :: "(u8 list \<Rightarrow> 's \<Rightarrow> cint \<times> 's) \<Rightarrow> cint list \<Rightarrow> 's putbuf \<Rightarrow> 's putbuf outcome" where
  "putchars W [] b = returns b"
| "putchars W (c # cs) b = and_then (alt_putcharbuf W c b) (\<lambda>(_, b). putchars W cs b)"

lemma low_byte: "(ucast (c AND 0xff :: cint) :: u8) = ucast c"
proof -
  have m: "(0xff :: cint) = mask 8" by (simp add: mask_numeral)
  show ?thesis unfolding m by (rule word_eqI_bits) (simp add: bit_simps)
qed

text \<open>\<open>sent\<close> is what a write adds to.\<close>

lemma putchar_step:
  assumes "putbuf_ok b" and sends: "\<And>bs s. sent (snd (W bs s)) = sent s @ bs"
  shows "\<exists>b'. alt_putcharbuf W c b = returns (c, b') \<and> putbuf_ok b' \<and>
    sent (put_world b') @ pending b' = sent (put_world b) @ pending b @ [ucast c]"
proof -
  let ?n = "unat (fill_index b)"
  have n: "?n < 64" "length (put_buf b) = 64" using assms by (simp_all add: putbuf_ok_def ALT_PUTBUF_SIZE_def)
  then have u: "unat (fill_index b + 1) = ?n + 1" by (subst unat_add_lem[THEN iffD1]) simp_all
  let ?b = "b\<lparr>put_buf := (put_buf b)[?n := ucast c], fill_index := fill_index b + 1\<rparr>"
  have p: "pending ?b = pending b @ [ucast c]" using n u by (simp add: pending_def take_Suc_conv_app_nth)
  have run: "alt_putcharbuf W c b =
      returns (c, if 64 \<le> fill_index b + 1 then snd (alt_putbufflush W ?b) else ?b)"
    using n by (simp add: alt_putcharbuf_def low_byte ALT_PUTBUF_SIZE_def Let_def)
  have le: "64 \<le> fill_index b + 1 \<longleftrightarrow> 64 \<le> ?n + 1" using u by (simp add: word_le_nat_alt)
  show ?thesis
  proof (cases "64 \<le> ?n + 1")
    case True
    obtain rc s where w: "W (pending ?b) (put_world b) = (rc, s)" by fastforce
    then have "snd (alt_putbufflush W ?b) = ?b\<lparr>put_world := s, fill_index := 0\<rparr>"
      by (simp add: alt_putbufflush_def pending_def)
    then show ?thesis using run True le n sends[of "pending b @ [ucast c]" "put_world b"] w p
      by (simp add: putbuf_ok_def ALT_PUTBUF_SIZE_def pending_def)
  next
    case False
    then show ?thesis using run le n u p by (simp add: putbuf_ok_def ALT_PUTBUF_SIZE_def)
  qed
qed

lemma putchars_all:
  assumes sends: "\<And>bs s. sent (snd (W bs s)) = sent s @ bs"
  shows "putbuf_ok b \<Longrightarrow> \<exists>b'. putchars W cs b = returns b' \<and> putbuf_ok b' \<and>
    sent (put_world b') @ pending b' = sent (put_world b) @ pending b @ map ucast cs"
proof (induction cs arbitrary: b)
  case (Cons c cs)
  from putchar_step[where sent = sent and W = W, OF Cons.prems sends, of c] obtain b1 where
    b1: "alt_putcharbuf W c b = returns (c, b1)" "putbuf_ok b1"
      "sent (put_world b1) @ pending b1 = sent (put_world b) @ pending b @ [ucast c]" by blast
  from Cons.IH[OF b1(2)] obtain b' where
    b': "putchars W cs b1 = returns b'" "putbuf_ok b'"
      "sent (put_world b') @ pending b' = (sent (put_world b1) @ pending b1) @ map ucast cs" by auto
  then have "sent (put_world b') @ pending b' = sent (put_world b) @ pending b @ map ucast (c # cs)"
    unfolding b1(3) by simp
  then show ?case using b1(1) b'(1,2) by (intro exI[of _ b']) simp
qed simp

text \<open>The buffer loses and reorders nothing: after any characters, what write has been given
  followed by what waits in the buffer are the characters' low bytes in order, at most 63 of them
  waiting; and flushing sends the rest.\<close>

theorem putbuf_delivers:
  assumes "\<And>bs s. sent (snd (W bs s)) = sent s @ bs" and "sent s = []"
  shows "\<exists>b. putchars W cs (putbuf_init s) = returns b \<and>
    sent (put_world b) @ pending b = map ucast cs \<and> length (pending b) < 64 \<and>
    sent (put_world (snd (alt_putbufflush W b))) = map ucast cs \<and> pending (snd (alt_putbufflush W b)) = []"
proof -
  have "putbuf_ok (putbuf_init s)" "pending (putbuf_init s) = []"
    by (simp_all add: putbuf_ok_def putbuf_init_def pending_def ALT_PUTBUF_SIZE_def)
  then obtain b where b: "putchars W cs (putbuf_init s) = returns b" "putbuf_ok b"
      "sent (put_world b) @ pending b = map ucast cs"
    using putchars_all[where sent = sent and W = W, OF assms(1), of "putbuf_init s" cs] assms(2)
    by (auto simp: putbuf_init_def)
  have "sent (put_world (snd (alt_putbufflush W b))) = sent (put_world b) @ pending b"
    using assms(1)[of "pending b" "put_world b"] by (simp add: alt_putbufflush_def pending_def case_prod_beta)
  moreover have "pending (snd (alt_putbufflush W b)) = []"
    by (simp add: alt_putbufflush_def pending_def case_prod_beta)
  moreover have "length (pending b) < 64" using b(2) by (simp add: putbuf_ok_def pending_def ALT_PUTBUF_SIZE_def)
  ultimately show ?thesis using b by auto
qed

lemma putbuf_delivers_witness:
  "\<exists>b. putchars (\<lambda>bs s. (of_nat (length bs), s @ bs)) [72, 0x169] (putbuf_init []) = returns b \<and>
    put_world (snd (alt_putbufflush (\<lambda>bs s. (of_nat (length bs), s @ bs)) b)) = [72, 105]"
  using putbuf_delivers[of "\<lambda>s. s" "\<lambda>bs s. (of_nat (length bs), s @ bs)" "[]" "[72, 0x169]"] by auto

end
