(* ===== verification/Constructor.thy ===== *)
theory Constructor
  imports Ip_Core
begin

text \<open>
  package_constructor.vhd clock cycle by clock cycle: the state machine that regroups the bits the
  decoder delivers into packages of 26 bits with their count, and writes them to the receive FIFO.
  Around it stand the FIFO's write side and the decoder's three outputs as registers: a pulse
  \<open>data_ready\<close> with the bit on \<open>data_in\<close>, and \<open>eop\<close>, which stays set until \<open>clr_eop\<close>.  All processes
  read what the registers held before the clock edge.
\<close>

section \<open>The state machine\<close>

datatype constructor_state =
  C_wait | C_send_package | C_new_bit | C_inc_mask | C_clear | C_send_void_package |
  C_check_mask_overflow | C_check_eop

record constructor =
  state_contructor :: constructor_state
  data :: "26 word"
  mask_integer :: nat
  write_request_out :: bool
  clr_eop :: bool

definition constructor_init :: constructor where
  "constructor_init = \<lparr>state_contructor = C_wait, data = 0, mask_integer = 0,
     write_request_out = False, clr_eop = False\<rparr>"

text \<open>\<open>data & mask\<close>, the mask in six bits.\<close>

definition data_out :: "constructor \<Rightarrow> cint" where
  "data_out c = push_bit 6 (ucast (data c)) OR take_bit 6 (of_nat (mask_integer c))"

definition contructor :: "bool \<Rightarrow> bool \<Rightarrow> bool \<Rightarrow> constructor \<Rightarrow> constructor" where
  "contructor ready bit_in ended c =
     (case state_contructor c of
        C_wait \<Rightarrow>
          (let c = c\<lparr>clr_eop := False, write_request_out := False\<rparr>
           in if ready then c\<lparr>state_contructor := C_new_bit\<rparr>
              else if ended then c\<lparr>state_contructor := C_check_eop\<rparr>
              else c)
      | C_new_bit \<Rightarrow>
          c\<lparr>data := (if bit_in then set_bit (mask_integer c) (data c) else unset_bit (mask_integer c) (data c)),
            state_contructor := C_inc_mask\<rparr>
      | C_inc_mask \<Rightarrow> c\<lparr>mask_integer := mask_integer c + 1, state_contructor := C_check_mask_overflow\<rparr>
      | C_check_mask_overflow \<Rightarrow>
          (if mask_integer c = 26 then c\<lparr>state_contructor := C_send_package, write_request_out := True\<rparr>
           else c\<lparr>state_contructor := C_check_eop\<rparr>)
      | C_send_package \<Rightarrow> c\<lparr>write_request_out := False, state_contructor := C_clear\<rparr>
      | C_clear \<Rightarrow> c\<lparr>mask_integer := 0, data := 0, state_contructor := C_wait\<rparr>
      | C_check_eop \<Rightarrow>
          (if ended then
             (if mask_integer c = 0 then c\<lparr>state_contructor := C_send_void_package\<rparr>
              else c\<lparr>state_contructor := C_send_package, write_request_out := True\<rparr>)
           else c\<lparr>state_contructor := C_wait\<rparr>)
      | C_send_void_package \<Rightarrow>
          c\<lparr>clr_eop := True, data := 0, mask_integer := 0, write_request_out := True,
            state_contructor := C_wait\<rparr>)"

section \<open>Between decoder and FIFO\<close>

datatype decoded = Quiet | Bit bool | Eop

record rx_path =
  builder :: constructor
  data_ready :: bool
  data_in :: bool
  eop_flag :: bool
  received_words :: "cint list"

definition rx_clock :: "decoded \<Rightarrow> rx_path \<Rightarrow> rx_path" where
  "rx_clock e s =
     \<lparr>builder = contructor (data_ready s) (data_in s) (eop_flag s) (builder s),
      data_ready = (e \<notin> {Quiet, Eop}),
      data_in = (case e of Bit b \<Rightarrow> b | _ \<Rightarrow> data_in s),
      eop_flag = (e = Eop \<or> eop_flag s \<and> \<not> clr_eop (builder s)),
      received_words = (if write_request_out (builder s) then received_words s @ [data_out (builder s)]
                        else received_words s)\<rparr>"

fun rx_clocks :: "decoded list \<Rightarrow> rx_path \<Rightarrow> rx_path" where
  "rx_clocks [] s = s"
| "rx_clocks (e # es) s = rx_clocks es (rx_clock e s)"

text \<open>The bits of a message, each with the quiet cycles after it, and its end.\<close>

definition signal :: "(bool \<times> nat) list \<Rightarrow> nat \<Rightarrow> decoded list" where
  "signal bs g = concat (map (\<lambda>(b, n). Bit b # replicate n Quiet) bs) @ Eop # replicate g Quiet"

definition rx_idle :: "cint list \<Rightarrow> rx_path" where
  "rx_idle q = \<lparr>builder = constructor_init, data_ready = False, data_in = False, eop_flag = False, received_words = q\<rparr>"

section \<open>What is received\<close>

text \<open>Waiting for the next bit with the bits \<open>ps\<close> collected; the line \<open>data_in\<close> keeps its last value \<open>d\<close>.\<close>

definition collecting :: "bool list \<Rightarrow> bool \<Rightarrow> cint list \<Rightarrow> rx_path" where
  "collecting ps d q =
     \<lparr>builder = \<lparr>state_contructor = C_wait, data = horner_sum of_bool 2 ps, mask_integer = length ps,
        write_request_out = False, clr_eop = False\<rparr>,
      data_ready = False, data_in = d, eop_flag = False, received_words = q\<rparr>"

lemma rx_clocks_append: "rx_clocks (es @ fs) s = rx_clocks fs (rx_clocks es s)"
  by (induction es arbitrary: s) simp_all

lemma quiet_idle: "rx_clocks (replicate n Quiet) (collecting ps d q) = collecting ps d q"
proof (induction n)
  case (Suc n)
  have "rx_clock Quiet (collecting ps d q) = collecting ps d q"
    by (simp add: collecting_def rx_clock_def contructor_def)
  then show ?case using Suc by simp
qed simp

lemma add_bit:
  "(if b then set_bit (length ps) (horner_sum of_bool 2 ps) else unset_bit (length ps) (horner_sum of_bool 2 ps)) =
    (horner_sum of_bool 2 (ps @ [b]) :: 26 word)"
  by (rule word_eqI_bits)
     (auto simp: bit_horner_sum_bit_word_iff bit_set_bit_iff bit_unset_bit_iff nth_append)

lemma data_out_pack:
  assumes "length ps \<le> 26"
  shows "push_bit 6 (ucast (horner_sum of_bool 2 ps :: 26 word)) OR take_bit 6 (of_nat (length ps)) = pack_bits ps"
proof -
  have "ucast (horner_sum of_bool 2 ps :: 26 word) = (horner_sum of_bool 2 ps :: cint)"
    using assms by (intro word_eqI_bits) (auto simp: bit_ucast_iff bit_horner_sum_bit_word_iff)
  moreover have "take_bit 6 (of_nat (length ps) :: cint) = of_nat (take_bit 6 (length ps))" by (simp add: take_bit_of_nat)
  moreover have "take_bit 6 (length ps) = length ps" using assms by (simp add: take_bit_nat_eq_self)
  ultimately show ?thesis by (simp add: pack_bits_def)
qed

abbreviation waiting :: "26 word \<Rightarrow> nat \<Rightarrow> bool \<Rightarrow> cint list \<Rightarrow> rx_path" where
  "waiting D m d q \<equiv>
     \<lparr>builder = \<lparr>state_contructor = C_wait, data = D, mask_integer = m, write_request_out = False, clr_eop = False\<rparr>,
      data_ready = False, data_in = d, eop_flag = False, received_words = q\<rparr>"

lemma quiet_cycles:
  "replicate 6 Quiet = [Quiet, Quiet, Quiet, Quiet, Quiet, Quiet]"
  "replicate 9 Quiet = [Quiet, Quiet, Quiet, Quiet, Quiet, Quiet, Quiet, Quiet, Quiet]"
  by (simp_all add: eval_nat_numeral)

lemma bit_taken:
  "m \<noteq> 25 \<Longrightarrow> rx_clocks [Bit b, Quiet, Quiet, Quiet, Quiet, Quiet, Quiet] (waiting D m d q) =
    waiting (if b then set_bit m D else unset_bit m D) (m + 1) b q"
  by (simp add: rx_clock_def contructor_def)

lemma last_bit_taken:
  "rx_clocks [Bit b, Quiet, Quiet, Quiet, Quiet, Quiet, Quiet] (waiting D 25 d q) =
    waiting 0 0 b (q @ [data_out \<lparr>state_contructor = C_send_package,
      data = (if b then set_bit 25 D else unset_bit 25 D), mask_integer = 26,
      write_request_out = True, clr_eop = False\<rparr>])"
  by (simp add: rx_clock_def contructor_def)

lemma end_taken:
  "0 < m \<Longrightarrow> rx_clocks [Eop, Quiet, Quiet, Quiet, Quiet, Quiet, Quiet, Quiet, Quiet, Quiet] (waiting D m d q) =
    waiting 0 0 d (q @ [data_out \<lparr>state_contructor = C_send_package, data = D, mask_integer = m,
      write_request_out = True, clr_eop = False\<rparr>, data_out \<lparr>state_contructor = C_wait, data = 0,
      mask_integer = 0, write_request_out = True, clr_eop = True\<rparr>])"
  by (simp add: rx_clock_def contructor_def)

lemma void_end_taken:
  "rx_clocks [Eop, Quiet, Quiet, Quiet, Quiet, Quiet, Quiet, Quiet, Quiet, Quiet] (waiting D 0 d q) =
    waiting 0 0 d (q @ [data_out \<lparr>state_contructor = C_wait, data = 0,
      mask_integer = 0, write_request_out = True, clr_eop = True\<rparr>])"
  by (simp add: rx_clock_def contructor_def)

text \<open>Six cycles after a bit, and nine after the end, the machine waits again.\<close>

lemma bit_collected:
  assumes "length ps \<noteq> 25"
  shows "rx_clocks (Bit b # replicate 6 Quiet) (collecting ps d q) = collecting (ps @ [b]) b q"
  unfolding quiet_cycles collecting_def bit_taken[OF assms] add_bit by simp

lemma package_collected:
  assumes "length ps = 25"
  shows "rx_clocks (Bit b # replicate 6 Quiet) (collecting ps d q) = collecting [] b (q @ [pack_bits (ps @ [b])])"
proof -
  have "data_out \<lparr>state_contructor = C_send_package, data = horner_sum of_bool 2 (ps @ [b]), mask_integer = 26,
      write_request_out = True, clr_eop = False\<rparr> = pack_bits (ps @ [b])"
    using data_out_pack[of "ps @ [b]"] assms by (simp add: data_out_def)
  then show ?thesis
    unfolding quiet_cycles collecting_def assms last_bit_taken add_bit[of b ps, unfolded assms] by simp
qed

lemma message_ends:
  assumes "length ps < 26"
  shows "rx_clocks (Eop # replicate 9 Quiet) (collecting ps d q) =
    collecting [] d (q @ (if ps = [] then [0] else [pack_bits ps, 0]))"
proof -
  have void: "data_out \<lparr>state_contructor = C_wait, data = 0, mask_integer = 0, write_request_out = True,
      clr_eop = True\<rparr> = 0"
    by (simp add: data_out_def)
  show ?thesis
  proof (cases "ps = []")
    case True
    then show ?thesis unfolding quiet_cycles collecting_def by (simp only: list.size void_end_taken void) simp
  next
    case False
    then have pos: "0 < length ps" by simp
    have "data_out \<lparr>state_contructor = C_send_package, data = horner_sum of_bool 2 ps, mask_integer = length ps,
        write_request_out = True, clr_eop = False\<rparr> = pack_bits ps"
      using data_out_pack[of ps] assms by (simp add: data_out_def)
    with False show ?thesis unfolding quiet_cycles collecting_def end_taken[OF pos] void by simp
  qed
qed

section \<open>A whole message\<close>

lemma constructor_rest:
  "length ps < 26 \<Longrightarrow> package_constructor ps = (if ps = [] then [0] else [pack_bits ps, 0])"
  by (subst package_constructor.simps) simp

lemma constructor_full:
  "length ps = 26 \<Longrightarrow> package_constructor (ps @ qs) = pack_bits ps # package_constructor qs"
  by (subst package_constructor.simps) auto

lemma quiet_split: "k \<le> n \<Longrightarrow> replicate n e = replicate k e @ replicate (n - k) e"
  by (simp flip: replicate_add)

lemma bit_then_quiet:
  assumes "length ps < 26" "6 \<le> n"
  shows "rx_clocks (Bit b # replicate n Quiet) (collecting ps d q) =
    (if length ps = 25 then collecting [] b (q @ [pack_bits (ps @ [b])]) else collecting (ps @ [b]) b q)"
proof -
  have "rx_clocks (Bit b # replicate n Quiet) (collecting ps d q) =
      rx_clocks (replicate (n - 6) Quiet) (rx_clocks (Bit b # replicate 6 Quiet) (collecting ps d q))"
    unfolding quiet_split[OF assms(2)] rx_clocks_append[symmetric] by simp
  also have "\<dots> = (if length ps = 25 then collecting [] b (q @ [pack_bits (ps @ [b])]) else collecting (ps @ [b]) b q)"
  proof (cases "length ps = 25")
    case True
    show ?thesis unfolding package_collected[OF True] quiet_idle True by simp
  next
    case False
    show ?thesis unfolding bit_collected[OF False] quiet_idle using False by simp
  qed
  finally show ?thesis .
qed

lemma message_collected:
  assumes "length ps < 26" "\<forall>(b, n) \<in> set bs. 6 \<le> n" "9 \<le> g"
  shows "rx_clocks (signal bs g) (collecting ps d q) =
    collecting [] (List.last (d # map fst bs)) (q @ package_constructor (ps @ map fst bs))"
  using assms(1,2)
proof (induction bs arbitrary: ps d q)
  case Nil
  have "rx_clocks (signal [] g) (collecting ps d q) =
      rx_clocks (replicate (g - 9) Quiet) (rx_clocks (Eop # replicate 9 Quiet) (collecting ps d q))"
    unfolding signal_def quiet_split[OF assms(3)] rx_clocks_append[symmetric] by simp
  also have "\<dots> = collecting [] d (q @ (if ps = [] then [0] else [pack_bits ps, 0]))"
    unfolding message_ends[OF Nil.prems(1)] quiet_idle ..
  finally show ?case using Nil by (simp add: constructor_rest)
next
  case (Cons x bs)
  obtain b n where x: "x = (b, n)" by (cases x)
  have "signal ((b, n) # bs) g = (Bit b # replicate n Quiet) @ signal bs g"
    by (simp add: signal_def)
  then have *: "rx_clocks (signal ((b, n) # bs) g) (collecting ps d q) = rx_clocks (signal bs g)
      (if length ps = 25 then collecting [] b (q @ [pack_bits (ps @ [b])]) else collecting (ps @ [b]) b q)"
    using Cons.prems x by (simp only: rx_clocks_append) (subst bit_then_quiet, auto)
  show ?case
  proof (cases "length ps = 25")
    case True
    then show ?thesis
      using Cons.IH[of "[]" b "q @ [pack_bits (ps @ [b])]"] Cons.prems constructor_full[of "ps @ [b]" "map fst bs"]
      by (simp add: * x)
  next
    case False
    then show ?thesis
      using Cons.IH[of "ps @ [b]" b q] Cons.prems by (simp add: * x)
  qed
qed

lemma collecting_idle: "collecting [] d q = rx_idle q\<lparr>data_in := d\<rparr>"
  by (simp add: collecting_def rx_idle_def constructor_init_def)

text \<open>C20. The state machine of package_constructor.vhd implements the regrouping the other theories
  use: whatever the bits and however far apart the decoder delivers them, at least six clock cycles
  of silence after a bit and nine after the end of the message, it writes exactly the packages of
  \<open>package_constructor\<close> to the receive FIFO, in order, and ends as it began.\<close>

theorem constructor_refines:
  assumes "\<forall>(b, n) \<in> set bs. 6 \<le> n" "9 \<le> g"
  shows "rx_clocks (signal bs g) (rx_idle q) =
    (rx_idle (q @ package_constructor (map fst bs)))\<lparr>data_in := List.last (False # map fst bs)\<rparr>"
proof -
  have "rx_idle q = collecting [] False q" by (simp add: collecting_def rx_idle_def constructor_init_def)
  then show ?thesis using message_collected[OF _ assms, of "[]" False q] by (simp add: collecting_idle)
qed

lemma constructor_refines_witness:
  "received_words (rx_clocks (signal [(True, 6), (False, 8), (True, 7)] 9) (rx_idle [])) = [0x143, 0]"
proof -
  have "received_words (rx_clocks (signal [(True, 6), (False, 8), (True, 7)] 9) (rx_idle [])) =
      package_constructor [True, False, True]"
    by (subst constructor_refines) (simp_all add: rx_idle_def)
  then show ?thesis by (simp add: constructor_rest pack_bits_def)
qed

section \<open>Any input\<close>

text \<open>\<open>mask_integer\<close> indexes the 26 bits of \<open>data\<close> in \<open>C_new_bit\<close>, so it must be below 26 there.\<close>

definition index_ok :: "constructor \<Rightarrow> bool" where
  "index_ok c \<longleftrightarrow>
     (if state_contructor c \<in> {C_check_mask_overflow, C_send_package, C_clear} then mask_integer c \<le> 26
      else mask_integer c < 26)"

definition count_ok :: "cint \<Rightarrow> bool" where
  "count_ok w \<longleftrightarrow> unat (take_bit 6 w) \<le> 26"

lemma contructor_index_ok: "index_ok c \<Longrightarrow> index_ok (contructor ready b ended c)"
  by (cases "state_contructor c") (auto simp: index_ok_def contructor_def Let_def)

lemma data_out_count:
  assumes "index_ok c"
  shows "count_ok (data_out c)"
proof -
  have "take_bit 6 (data_out c) = take_bit 6 (of_nat (mask_integer c))"
    by (simp add: data_out_def take_bit_push_bit)
  then have "unat (take_bit 6 (data_out c)) = take_bit 6 (take_bit 32 (mask_integer c))"
    by (simp add: unsigned_take_bit_eq unsigned_of_nat)
  also have "\<dots> \<le> mask_integer c" by (simp add: take_bit_nat_def)
  finally show ?thesis using assms by (simp add: count_ok_def index_ok_def split: if_splits)
qed

lemma rx_clock_ok:
  "index_ok (builder s) \<and> list_all count_ok (received_words s) \<Longrightarrow>
   index_ok (builder (rx_clock e s)) \<and> list_all count_ok (received_words (rx_clock e s))"
  by (auto simp: rx_clock_def contructor_index_ok data_out_count)

lemma rx_clocks_ok:
  "index_ok (builder s) \<and> list_all count_ok (received_words s) \<Longrightarrow>
   index_ok (builder (rx_clocks es s)) \<and> list_all count_ok (received_words (rx_clocks es s))"
  by (induction es arbitrary: s) (auto simp: rx_clock_ok)

text \<open>C25. Whatever the decoder delivers, bits in any clock cycle and ends at any time, the index into
  the 26 bits of \<open>data\<close> stays in range and no word that is written to the FIFO claims more than 26 bits.\<close>

theorem constructor_in_range:
  "index_ok (builder (rx_clocks es (rx_idle []))) \<and> list_all count_ok (received_words (rx_clocks es (rx_idle [])))"
  by (rule rx_clocks_ok) (simp add: rx_idle_def constructor_init_def index_ok_def)

end
