(* ===== verification/Decoder.thy ===== *)
theory Decoder
  imports Constructor
begin

text \<open>
  FM0_decoder.vhd clock cycle by clock cycle, enabled and out of reset: its two state machines and the
  counter.  The line is a list of levels, one per clock cycle.  A symbol of the FM0 code is one run of
  a level (bit 1) or two (bit 0); the tolerances of the code decide which lengths are which.
\<close>

section \<open>State\<close>

datatype decoder_controller_state = Ctl_wait | Ctl_decode

datatype decoder_state =
  D_wait | D_start_counter | D_start_counter2 | D_wait_counter | D_wait_counter2 | D_check_counter |
  D_check_counter2 | D_continue_counter | D_error | D_pass_1_01_tari | D_counter_cs | D_end

record decoder =
  state_controller :: decoder_controller_state
  state_decoder :: decoder_state
  was_one :: bool
  prev_bit_c :: bool
  prev_bit_d :: bool
  data_receiver_start :: bool
  data_receiver_end :: bool
  clock_start :: bool
  clear_counter :: bool
  clocks_counted :: nat
  dec_data_ready :: bool
  dec_data_out :: bool
  dec_eop :: bool
  dec_err :: bool

text \<open>The four boundaries as the firmware writes them, and the six values derived from them.\<close>

record boundaries =
  tari_101 :: u16
  tari_099 :: u16
  tari_1616 :: u16
  tari_1584 :: u16

definition tari_1616_value :: "boundaries \<Rightarrow> nat" where "tari_1616_value c = unat (tari_1616 c)"
definition tari_1584_value :: "boundaries \<Rightarrow> nat" where "tari_1584_value c = unat (tari_1584 c)"
definition tari_1010_value :: "boundaries \<Rightarrow> nat" where "tari_1010_value c = unat (tari_101 c)"
definition tari_0990_value :: "boundaries \<Rightarrow> nat" where "tari_0990_value c = unat (tari_099 c)"
definition tari_0505_value :: "boundaries \<Rightarrow> nat" where "tari_0505_value c = unat (drop_bit 1 (tari_101 c))"
definition tari_0495_value :: "boundaries \<Rightarrow> nat" where "tari_0495_value c = unat (drop_bit 1 (tari_099 c))"

section \<open>One clock cycle\<close>

text \<open>Each process reads what the signals held before the edge.\<close>

definition decoder_controller :: "bool \<Rightarrow> decoder \<Rightarrow> decoder_controller_state \<times> bool \<times> bool" where
  "decoder_controller din d =
     (case state_controller d of
        Ctl_wait \<Rightarrow>
          if prev_bit_c d \<noteq> din then (Ctl_decode, din, True)
          else (Ctl_wait, prev_bit_c d, data_receiver_start d)
      | Ctl_decode \<Rightarrow>
          if data_receiver_end d then (Ctl_wait, prev_bit_d d, False)
          else (Ctl_decode, prev_bit_d d, data_receiver_start d))"

definition decoder_data :: "boundaries \<Rightarrow> bool \<Rightarrow> bool \<Rightarrow> bool \<Rightarrow> decoder \<Rightarrow> decoder" where
  "decoder_data c din clrr clre d =
     (case state_decoder d of
        D_wait \<Rightarrow>
          (let d' = d\<lparr>dec_data_ready := False, data_receiver_end := False, clear_counter := True,
                dec_eop := dec_eop d \<and> \<not> clre\<rparr>
           in if data_receiver_start d then d'\<lparr>prev_bit_d := din, state_decoder := D_start_counter\<rparr> else d')
      | D_start_counter \<Rightarrow> d\<lparr>clock_start := True, clear_counter := False, state_decoder := D_wait_counter\<rparr>
      | D_wait_counter \<Rightarrow>
          (if tari_1010_value c < clocks_counted d then d\<lparr>was_one := True, state_decoder := D_pass_1_01_tari\<rparr>
           else if din \<noteq> prev_bit_d d then d\<lparr>prev_bit_d := din, state_decoder := D_check_counter\<rparr>
           else d)
      | D_check_counter \<Rightarrow>
          (if tari_0495_value c \<le> clocks_counted d \<and> clocks_counted d \<le> tari_0505_value c then
             d\<lparr>prev_bit_d := din, state_decoder := D_wait_counter2\<rparr>
           else if tari_0990_value c \<le> clocks_counted d \<and> clocks_counted d \<le> tari_1010_value c then
             d\<lparr>clear_counter := True, clock_start := False, dec_data_out := True, dec_data_ready := True,
               state_decoder := D_wait\<rparr>
           else d\<lparr>clock_start := False, clear_counter := True, state_decoder := D_error\<rparr>)
      | D_wait_counter2 \<Rightarrow>
          (if tari_1010_value c < clocks_counted d then d\<lparr>was_one := False, state_decoder := D_pass_1_01_tari\<rparr>
           else if din \<noteq> prev_bit_d d then
             d\<lparr>clock_start := False, prev_bit_d := din, state_decoder := D_check_counter2\<rparr>
           else d)
      | D_check_counter2 \<Rightarrow>
          (if tari_0990_value c \<le> clocks_counted d \<and> clocks_counted d \<le> tari_1010_value c then
             d\<lparr>clear_counter := True, clock_start := False, dec_data_out := False, dec_data_ready := True,
               state_decoder := D_wait\<rparr>
           else d\<lparr>clock_start := False, clear_counter := True, state_decoder := D_error\<rparr>)
      | D_error \<Rightarrow>
          (let d' = d\<lparr>clock_start := False\<rparr>
           in if clrr then d'\<lparr>dec_err := False, state_decoder := D_wait\<rparr> else d'\<lparr>dec_err := True\<rparr>)
      | D_pass_1_01_tari \<Rightarrow>
          (if din then d\<lparr>state_decoder := D_error\<rparr>
           else d\<lparr>state_decoder := D_counter_cs, dec_data_out := was_one d, dec_data_ready := True,
             clear_counter := True\<rparr>)
      | D_counter_cs \<Rightarrow>
          (let d' = d\<lparr>dec_data_ready := False, clear_counter := False\<rparr>
           in if tari_1584_value c < clocks_counted d \<and> clocks_counted d < tari_1616_value c then
                d'\<lparr>state_decoder := D_end, dec_eop := True, data_receiver_end := True\<rparr>
              else if din \<noteq> prev_bit_d d then d'\<lparr>state_decoder := D_error\<rparr>
              else d')
      | D_end \<Rightarrow>
          d\<lparr>clock_start := False, state_decoder := D_wait, dec_eop := dec_eop d \<and> \<not> clre,
            data_receiver_end := False\<rparr>
      | _ \<Rightarrow> d\<lparr>state_decoder := D_wait\<rparr>)"

text \<open>Of two assignments to the counter in one cycle the later one counts: it only clears while stopped.\<close>

definition counter :: "decoder \<Rightarrow> nat" where
  "counter d =
     (if clock_start d then clocks_counted d + 1 else if clear_counter d then 0 else clocks_counted d)"

definition decoder_clock :: "boundaries \<Rightarrow> bool \<Rightarrow> bool \<Rightarrow> bool \<Rightarrow> decoder \<Rightarrow> decoder" where
  "decoder_clock c din clrr clre d =
     (case decoder_controller din d of (st, prev, start) \<Rightarrow>
        (decoder_data c din clrr clre d)\<lparr>state_controller := st, prev_bit_c := prev,
          data_receiver_start := start, clocks_counted := counter d\<rparr>)"

section \<open>What it delivers\<close>

text \<open>What the cycle signals to the package constructor: a bit, or the end of the message.\<close>

definition decoded_event :: "boundaries \<Rightarrow> bool \<Rightarrow> decoder \<Rightarrow> decoded" where
  "decoded_event c din d =
     (case state_decoder d of
        D_check_counter \<Rightarrow>
          (if tari_0495_value c \<le> clocks_counted d \<and> clocks_counted d \<le> tari_0505_value c then Quiet
           else if tari_0990_value c \<le> clocks_counted d \<and> clocks_counted d \<le> tari_1010_value c then Bit True
           else Quiet)
      | D_check_counter2 \<Rightarrow>
          (if tari_0990_value c \<le> clocks_counted d \<and> clocks_counted d \<le> tari_1010_value c then Bit False else Quiet)
      | D_pass_1_01_tari \<Rightarrow> (if din then Quiet else Bit (was_one d))
      | D_counter_cs \<Rightarrow>
          (if tari_1584_value c < clocks_counted d \<and> clocks_counted d < tari_1616_value c then Eop else Quiet)
      | _ \<Rightarrow> Quiet)"

text \<open>The output registers as the constructor sees them.\<close>

definition ready_ok :: "decoder \<Rightarrow> bool" where
  "ready_ok d \<longleftrightarrow> (dec_data_ready d \<longrightarrow> state_decoder d = D_wait \<or> state_decoder d = D_counter_cs)"

lemma outputs_follow_events:
  assumes "ready_ok d" and "clre \<and> dec_eop d \<longrightarrow> state_decoder d = D_wait \<or> state_decoder d = D_end"
  shows "dec_data_ready (decoder_clock c din clrr clre d) = (decoded_event c din d \<notin> {Quiet, Eop})"
    and "dec_data_out (decoder_clock c din clrr clre d) =
      (case decoded_event c din d of Bit b \<Rightarrow> b | _ \<Rightarrow> dec_data_out d)"
    and "dec_eop (decoder_clock c din clrr clre d) =
      (decoded_event c din d = Eop \<or> dec_eop d \<and> \<not> clre)"
    and "ready_ok (decoder_clock c din clrr clre d)"
  using assms
  by (cases "state_decoder d";
      auto simp: decoder_clock_def decoder_data_def decoded_event_def ready_ok_def Let_def split: prod.split)+

section \<open>The receiver\<close>

text \<open>Decoder, package constructor and the words written to the FIFO (receiver.vhd); \<open>clr_err\<close> is a bit
  of the status register that rfid.vhd leaves undriven.\<close>

record receiver =
  dec :: decoder
  pack :: constructor
  fifo_in :: "cint list"

definition receiver_clock :: "boundaries \<Rightarrow> bool \<Rightarrow> receiver \<Rightarrow> receiver" where
  "receiver_clock c din s =
     \<lparr>dec = decoder_clock c din False (clr_eop (pack s)) (dec s),
      pack = contructor (dec_data_ready (dec s)) (dec_data_out (dec s)) (dec_eop (dec s)) (pack s),
      fifo_in = (if write_request_out (pack s) then fifo_in s @ [data_out (pack s)] else fifo_in s)\<rparr>"

fun receive :: "boundaries \<Rightarrow> bool list \<Rightarrow> receiver \<Rightarrow> receiver" where
  "receive c [] s = s"
| "receive c (x # w) s = receive c w (receiver_clock c x s)"

fun events :: "boundaries \<Rightarrow> bool list \<Rightarrow> receiver \<Rightarrow> decoded list" where
  "events c [] s = []"
| "events c (x # w) s = decoded_event c x (dec s) # events c w (receiver_clock c x s)"

section \<open>Phases\<close>

text \<open>On the line \<open>w\<close> a decoder with \<open>P\<close> delivers \<open>es\<close> and ends with \<open>Q\<close>, whatever the constructor does.\<close>

definition phase ::
  "boundaries \<Rightarrow> (decoder \<Rightarrow> bool) \<Rightarrow> bool list \<Rightarrow> decoded list \<Rightarrow> (decoder \<Rightarrow> bool) \<Rightarrow> bool" where
  "phase c P w es Q \<longleftrightarrow> (\<forall>s. P (dec s) \<longrightarrow> events c w s = es \<and> Q (dec (receive c w s)))"

lemma receive_append: "receive c (v @ w) s = receive c w (receive c v s)"
  by (induction v arbitrary: s) simp_all

lemma events_append: "events c (v @ w) s = events c v s @ events c w (receive c v s)"
  by (induction v arbitrary: s) simp_all

lemma phase_seq: "phase c P v es Q \<Longrightarrow> phase c Q w fs R \<Longrightarrow> phase c P (v @ w) (es @ fs) R"
  by (simp add: phase_def receive_append events_append)

lemma phase_nil: "phase c P [] [] P"
  by (simp add: phase_def)

lemma phase_step:
  "(\<And>clre d. P d \<Longrightarrow> decoded_event c x d = e \<and> Q (decoder_clock c x False clre d)) \<Longrightarrow> phase c P [x] [e] Q"
  by (simp add: phase_def receiver_clock_def)

lemma phase_cons: "phase c P [x] [e] Q \<Longrightarrow> phase c Q w es R \<Longrightarrow> phase c P (x # w) (e # es) R"
  using phase_seq[of c P "[x]" "[e]" Q w es R] by simp

text \<open>The decoder running in a state, the counter at \<open>k\<close> and the level \<open>lv\<close> seen last.\<close>

definition running :: "decoder_state \<Rightarrow> bool \<Rightarrow> nat \<Rightarrow> decoder \<Rightarrow> bool" where
  "running st lv k d \<longleftrightarrow> state_controller d = Ctl_decode \<and> state_decoder d = st \<and> clock_start d \<and>
     \<not> clear_counter d \<and> clocks_counted d = k \<and> prev_bit_d d = lv \<and> data_receiver_start d \<and> \<not> data_receiver_end d"

text \<open>With the counter stopped: a symbol has just ended.\<close>

definition stopped :: "decoder_state \<Rightarrow> bool \<Rightarrow> decoder \<Rightarrow> bool" where
  "stopped st lv d \<longleftrightarrow> state_controller d = Ctl_decode \<and> state_decoder d = st \<and> \<not> clock_start d \<and>
     clear_counter d \<and> prev_bit_d d = lv \<and> data_receiver_start d \<and> \<not> data_receiver_end d"

text \<open>Waiting for the first edge on a low line, with the levels of both processes low.\<close>

definition idle :: "decoder \<Rightarrow> bool" where
  "idle d \<longleftrightarrow> state_controller d = Ctl_wait \<and> state_decoder d = D_wait \<and> \<not> clock_start d \<and> clear_counter d \<and>
     \<not> prev_bit_c d \<and> \<not> prev_bit_d d \<and> \<not> data_receiver_start d \<and> \<not> data_receiver_end d"

lemmas step_defs = decoder_clock_def decoder_controller_def decoder_data_def decoded_event_def counter_def Let_def
  running_def stopped_def idle_def

lemma wait_steps:
  "k \<le> tari_1010_value c \<Longrightarrow> phase c (running D_wait_counter lv k) [lv] [Quiet] (running D_wait_counter lv (k + 1))"
  "k \<le> tari_1010_value c \<Longrightarrow> phase c (running D_wait_counter2 lv k) [lv] [Quiet] (running D_wait_counter2 lv (k + 1))"
  by (rule phase_step; simp add: step_defs)+

lemma phase_replicate:
  assumes "\<And>j. j < n \<Longrightarrow> phase c (P (k + j)) [lv] [Quiet] (P (k + j + 1))"
  shows "phase c (P k) (replicate n lv) (replicate n Quiet) (P (k + n))"
  using assms
proof (induction n)
  case 0
  then show ?case by (simp add: phase_nil)
next
  case (Suc n)
  then have "phase c (P k) (replicate n lv @ [lv]) (replicate n Quiet @ [Quiet]) (P (k + n + 1))"
    by (intro phase_seq[of _ _ _ _ "P (k + n)"]) auto
  then show ?case by (simp flip: replicate_append_same)
qed

lemma wait_full:
  "k + n \<le> tari_1010_value c + 1 \<Longrightarrow>
   phase c (running D_wait_counter lv k) (replicate n lv) (replicate n Quiet) (running D_wait_counter lv (k + n))"
  by (rule phase_replicate, rule wait_steps, simp)

lemma wait_half:
  "k + n \<le> tari_1010_value c + 1 \<Longrightarrow>
   phase c (running D_wait_counter2 lv k) (replicate n lv) (replicate n Quiet) (running D_wait_counter2 lv (k + n))"
  by (rule phase_replicate, rule wait_steps, simp)

text \<open>After a symbol two cycles pass before the counter starts again.\<close>

lemma restart: "phase c (stopped D_wait lv) [lv', lv'] [Quiet, Quiet] (running D_wait_counter lv' 0)"
proof (rule phase_cons)
  show "phase c (stopped D_wait lv) [lv'] [Quiet] (\<lambda>d. stopped D_start_counter lv' d \<and> clocks_counted d = 0)"
    by (rule phase_step) (simp add: step_defs)
  show "phase c (\<lambda>d. stopped D_start_counter lv' d \<and> clocks_counted d = 0) [lv'] [Quiet] (running D_wait_counter lv' 0)"
    by (rule phase_step) (simp add: step_defs)
qed

lemma full_edge:
  assumes "tari_0505_value c < k + 1" "tari_0990_value c \<le> k + 1" "k + 1 \<le> tari_1010_value c"
  shows "phase c (running D_wait_counter lv k) [\<not> lv, \<not> lv] [Quiet, Bit True] (stopped D_wait (\<not> lv))"
proof (rule phase_cons)
  show "phase c (running D_wait_counter lv k) [\<not> lv] [Quiet] (running D_check_counter (\<not> lv) (k + 1))"
    using assms by (intro phase_step) (auto simp: step_defs)
  show "phase c (running D_check_counter (\<not> lv) (k + 1)) [\<not> lv] [Bit True] (stopped D_wait (\<not> lv))"
    using assms by (intro phase_step) (simp add: step_defs)
qed

lemma half_edge:
  assumes "tari_0495_value c \<le> k + 1" "k + 1 \<le> tari_0505_value c" "k \<le> tari_1010_value c"
  shows "phase c (running D_wait_counter lv k) [\<not> lv, \<not> lv] [Quiet, Quiet] (running D_wait_counter2 (\<not> lv) (k + 2))"
proof (rule phase_cons)
  show "phase c (running D_wait_counter lv k) [\<not> lv] [Quiet] (running D_check_counter (\<not> lv) (k + 1))"
    using assms by (intro phase_step) (auto simp: step_defs)
  show "phase c (running D_check_counter (\<not> lv) (k + 1)) [\<not> lv] [Quiet] (running D_wait_counter2 (\<not> lv) (k + 2))"
    using assms by (intro phase_step) (simp add: step_defs)
qed

text \<open>The second half is measured from the start of the symbol; the counter stops with the edge.\<close>

lemma second_edge:
  assumes "tari_0990_value c \<le> k + 1" "k + 1 \<le> tari_1010_value c"
  shows "phase c (running D_wait_counter2 lv k) [\<not> lv, \<not> lv] [Quiet, Bit False] (stopped D_wait (\<not> lv))"
proof (rule phase_cons)
  let ?Q = "\<lambda>d. state_controller d = Ctl_decode \<and> state_decoder d = D_check_counter2 \<and> \<not> clock_start d \<and>
    \<not> clear_counter d \<and> clocks_counted d = k + 1 \<and> prev_bit_d d = (\<not> lv) \<and> data_receiver_start d \<and> \<not> data_receiver_end d"
  show "phase c (running D_wait_counter2 lv k) [\<not> lv] [Quiet] ?Q"
    using assms by (intro phase_step) (auto simp: step_defs)
  show "phase c ?Q [\<not> lv] [Bit False] (stopped D_wait (\<not> lv))"
    using assms by (intro phase_step) (simp add: step_defs)
qed

section \<open>Symbols\<close>

datatype symbol = One nat | Zero nat nat

fun wave :: "bool \<Rightarrow> symbol list \<Rightarrow> bool list" where
  "wave lv [] = []"
| "wave lv (One n # xs) = replicate n lv @ wave (\<not> lv) xs"
| "wave lv (Zero a b # xs) = replicate a lv @ replicate b (\<not> lv) @ wave lv xs"

fun level_after :: "bool \<Rightarrow> symbol list \<Rightarrow> bool" where
  "level_after lv [] = lv"
| "level_after lv (One n # xs) = level_after (\<not> lv) xs"
| "level_after lv (Zero a b # xs) = level_after lv xs"

fun symbol_bit :: "symbol \<Rightarrow> bool" where
  "symbol_bit (One n) = True"
| "symbol_bit (Zero a b) = False"

fun duration :: "symbol \<Rightarrow> nat" where
  "duration (One n) = n"
| "duration (Zero a b) = a + b"

text \<open>What the decoder counts is short of a length by the cycles \<open>l\<close> it takes before it starts counting,
  less one.\<close>

fun in_time :: "boundaries \<Rightarrow> nat \<Rightarrow> symbol \<Rightarrow> bool" where
  "in_time c l (One n) \<longleftrightarrow> l \<le> n \<and> tari_0990_value c + l \<le> n + 1 \<and> n + 1 \<le> tari_1010_value c + l"
| "in_time c l (Zero a b) \<longleftrightarrow> l \<le> a \<and> 2 \<le> b \<and> tari_0495_value c + l \<le> a + 1 \<and> a + 1 \<le> tari_0505_value c + l \<and>
     tari_0990_value c + l \<le> a + b + 1 \<and> a + b + 1 \<le> tari_1010_value c + l"

definition boundaries_ok :: "boundaries \<Rightarrow> bool" where
  "boundaries_ok c \<longleftrightarrow> 4 \<le> tari_0990_value c \<and> tari_0505_value c < tari_0990_value c \<and>
     tari_0990_value c \<le> tari_1010_value c \<and> tari_1010_value c + 8 \<le> tari_1584_value c \<and>
     tari_1584_value c + 1 < tari_1616_value c"

lemma one_phase:
  assumes "boundaries_ok c" "in_time c l (One n)"
  shows "phase c (running D_wait_counter lv 0) (replicate (n - l) lv @ replicate 4 (\<not> lv))
    (replicate (n - l + 1) Quiet @ [Bit True, Quiet, Quiet]) (running D_wait_counter (\<not> lv) 0)"
proof -
  have n: "n - l + 1 \<le> tari_1010_value c" "tari_0990_value c \<le> n - l + 1" using assms(2) by auto
  have "phase c (running D_wait_counter lv 0) (replicate (n - l) lv) (replicate (n - l) Quiet)
      (running D_wait_counter lv (0 + (n - l)))"
    using assms n by (intro wait_full) simp
  moreover have "phase c (running D_wait_counter lv (0 + (n - l))) [\<not> lv, \<not> lv] [Quiet, Bit True] (stopped D_wait (\<not> lv))"
    using assms n by (intro full_edge) (simp_all add: boundaries_ok_def)
  ultimately have "phase c (running D_wait_counter lv 0) (replicate (n - l) lv @ [\<not> lv, \<not> lv] @ [\<not> lv, \<not> lv])
      (replicate (n - l) Quiet @ [Quiet, Bit True] @ [Quiet, Quiet]) (running D_wait_counter (\<not> lv) 0)"
    by (intro phase_seq[OF _ phase_seq[OF _ restart]])
  then show ?thesis by (simp add: numeral_Bit0 replicate_append_same[symmetric] del: replicate_append_same)
qed

lemma zero_phase:
  assumes "boundaries_ok c" "in_time c l (Zero a b)"
  shows "phase c (running D_wait_counter lv 0) (replicate (a - l) lv @ replicate b (\<not> lv) @ replicate 4 lv)
    (replicate (a + b - l + 1) Quiet @ [Bit False, Quiet, Quiet]) (running D_wait_counter lv 0)"
proof -
  let ?k = "a - l"
  have full: "?k + b \<le> tari_1010_value c" "tari_0990_value c \<le> ?k + b + 1" "?k + b + 1 \<le> tari_1010_value c"
    and half: "tari_0495_value c \<le> ?k + 1" "?k + 1 \<le> tari_0505_value c" and b: "2 \<le> b"
    and k: "a + b - l + 1 = ?k + 2 + (b - 2) + 1"
    using assms(2) by auto
  have 1: "phase c (running D_wait_counter lv 0) (replicate ?k lv) (replicate ?k Quiet) (running D_wait_counter lv (0 + ?k))"
    using full by (intro wait_full) simp
  have 2: "phase c (running D_wait_counter lv (0 + ?k)) [\<not> lv, \<not> lv] [Quiet, Quiet] (running D_wait_counter2 (\<not> lv) (?k + 2))"
    using half full half_edge[of c ?k lv] by simp
  have 3: "phase c (running D_wait_counter2 (\<not> lv) (?k + 2)) (replicate (b - 2) (\<not> lv)) (replicate (b - 2) Quiet)
      (running D_wait_counter2 (\<not> lv) (?k + b))"
  proof -
    have e: "?k + 2 + (b - 2) = ?k + b" using b by simp
    show ?thesis by (rule wait_half[of "?k + 2" "b - 2" c "\<not> lv", unfolded e]) (use full in simp)
  qed
  have 4: "phase c (running D_wait_counter2 (\<not> lv) (?k + b)) [lv, lv] [Quiet, Bit False] (stopped D_wait lv)"
    using second_edge[of c "?k + b" "\<not> lv"] full by simp
  have "phase c (running D_wait_counter lv 0)
      (replicate ?k lv @ [\<not> lv, \<not> lv] @ replicate (b - 2) (\<not> lv) @ [lv, lv] @ [lv, lv])
      (replicate ?k Quiet @ [Quiet, Quiet] @ replicate (b - 2) Quiet @ [Quiet, Bit False] @ [Quiet, Quiet])
      (running D_wait_counter lv 0)"
    by (rule phase_seq[OF 1 phase_seq[OF 2 phase_seq[OF 3 phase_seq[OF 4 restart]]]])
  moreover have "replicate b (\<not> lv) = [\<not> lv, \<not> lv] @ replicate (b - 2) (\<not> lv)"
    using b by (simp add: quiet_split[of 2 b] numeral_2_eq_2)
  moreover have "replicate (a + b - l + 1) Quiet = replicate ?k Quiet @ [Quiet, Quiet] @ replicate (b - 2) Quiet @ [Quiet]"
    unfolding k by (simp add: replicate_add numeral_2_eq_2 replicate_app_Cons_same)
  ultimately show ?thesis by (simp add: numeral_Bit0)
qed

section \<open>The end of a message\<close>

lemma counting_cs:
  assumes "k + n \<le> tari_1584_value c + 1"
  shows "phase c (running D_counter_cs False k) (replicate n False) (replicate n Quiet) (running D_counter_cs False (k + n))"
proof (rule phase_replicate)
  fix j assume "j < n"
  then show "phase c (running D_counter_cs False (k + j)) [False] [Quiet] (running D_counter_cs False (k + j + 1))"
    using assms by (intro phase_step) (simp add: step_defs)
qed

text \<open>The decoder \<open>n\<close> cycles after it has seen the end.\<close>

fun after_end :: "nat \<Rightarrow> decoder \<Rightarrow> bool" where
  "after_end 0 d \<longleftrightarrow> state_controller d = Ctl_decode \<and> state_decoder d = D_end \<and> \<not> clear_counter d \<and>
     \<not> prev_bit_d d \<and> data_receiver_start d \<and> data_receiver_end d"
| "after_end (Suc 0) d \<longleftrightarrow> state_controller d = Ctl_wait \<and> state_decoder d = D_wait \<and> \<not> clock_start d \<and>
     \<not> prev_bit_c d \<and> \<not> prev_bit_d d \<and> \<not> data_receiver_start d \<and> \<not> data_receiver_end d"
| "after_end (Suc (Suc n)) d \<longleftrightarrow> idle d"

lemma after_end_step: "phase c (after_end n) [False] [Quiet] (after_end (n + 1))"
  by (rule phase_step; cases n rule: after_end.cases[of "(_, undefined)", simplified]; simp add: step_defs)

lemma after_end_state: "after_end n d \<Longrightarrow> state_decoder d = D_wait \<or> state_decoder d = D_end"
  by (cases "(n, d)" rule: after_end.cases) (simp_all add: idle_def)

lemma after_end_stays: "phase c (after_end n) (replicate g False) (replicate g Quiet) (after_end (n + g))"
  by (rule phase_replicate, rule after_end_step)

lemma after_end_idle: "2 \<le> n \<Longrightarrow> after_end n d = idle d"
  by (cases "(n, d)" rule: after_end.cases) simp_all

text \<open>A low line for longer than a symbol: the bit in progress, and then the end of the message.\<close>

definition cs_length :: "boundaries \<Rightarrow> nat" where
  "cs_length c = tari_1584_value c - tari_1010_value c - 3"

lemma end_phase:
  assumes ok: "boundaries_ok c" and st: "st = D_wait_counter \<and> b \<or> st = D_wait_counter2 \<and> \<not> b"
  shows "phase c (running st False (tari_1010_value c + 1))
    (replicate (cs_length c + 4) False) (Quiet # Bit b # replicate (cs_length c + 1) Quiet @ [Eop]) (after_end 0)"
proof -
  let ?T = "tari_1010_value c"
  let ?pass = "\<lambda>d. running D_pass_1_01_tari False (?T + 2) d \<and> was_one d = b"
  let ?first = "\<lambda>d. state_controller d = Ctl_decode \<and> state_decoder d = D_counter_cs \<and> clock_start d \<and>
    clear_counter d \<and> clocks_counted d = ?T + 3 \<and> \<not> prev_bit_d d \<and> data_receiver_start d \<and> \<not> data_receiver_end d"
  have bounds: "?T + 4 + cs_length c = tari_1584_value c + 1" "?T + 3 \<le> tari_1584_value c"
    "tari_1584_value c + 1 < tari_1616_value c"
    using ok by (simp_all add: boundaries_ok_def cs_length_def)
  have 1: "phase c (running st False (?T + 1)) [False] [Quiet] ?pass"
    using st by (intro phase_step) (auto simp: step_defs)
  have 2: "phase c ?pass [False] [Bit b] ?first"
    by (rule phase_step) (simp add: step_defs)
  have 3: "phase c ?first [False] [Quiet] (running D_counter_cs False (?T + 4))"
    using bounds by (intro phase_step) (simp add: step_defs)
  have 4: "phase c (running D_counter_cs False (?T + 4)) (replicate (cs_length c) False) (replicate (cs_length c) Quiet)
      (running D_counter_cs False (tari_1584_value c + 1))"
    using counting_cs[of "?T + 4" "cs_length c" c] bounds by simp
  have 5: "phase c (running D_counter_cs False (tari_1584_value c + 1)) [False] [Eop] (after_end 0)"
    using bounds by (intro phase_step) (simp add: step_defs)
  have "phase c (running st False (?T + 1))
      ([False] @ [False] @ [False] @ replicate (cs_length c) False @ [False])
      ([Quiet] @ [Bit b] @ [Quiet] @ replicate (cs_length c) Quiet @ [Eop]) (after_end 0)"
    by (rule phase_seq[OF 1 phase_seq[OF 2 phase_seq[OF 3 phase_seq[OF 4 5]]]])
  then show ?thesis by (simp add: replicate_app_Cons_same eval_nat_numeral)
qed

section \<open>A whole message\<close>

text \<open>After the last edge the line is low, either at once or after \<open>a\<close> more cycles of high: a last
  bit 1, or a last bit 0, whose second half runs into the silence.\<close>

datatype closing = Low | High nat

fun closing_wave :: "closing \<Rightarrow> nat \<Rightarrow> bool list" where
  "closing_wave Low g = replicate g False"
| "closing_wave (High a) g = replicate a True @ replicate g False"

fun closing_bit :: "closing \<Rightarrow> bool" where
  "closing_bit Low = True"
| "closing_bit (High a) = False"

fun closing_ok :: "boundaries \<Rightarrow> bool \<Rightarrow> closing \<Rightarrow> bool" where
  "closing_ok c lv Low \<longleftrightarrow> \<not> lv"
| "closing_ok c lv (High a) \<longleftrightarrow> lv \<and> 4 \<le> a \<and> tari_0495_value c + 4 \<le> a + 1 \<and> a + 1 \<le> tari_0505_value c + 4"

text \<open>The first symbol is counted after three cycles, every other one after four.\<close>

fun timely :: "boundaries \<Rightarrow> nat \<Rightarrow> symbol list \<Rightarrow> bool" where
  "timely c l [] \<longleftrightarrow> True"
| "timely c l (x # xs) \<longleftrightarrow> in_time c l x \<and> timely c 4 xs"

fun heard :: "nat \<Rightarrow> symbol list \<Rightarrow> decoded list" where
  "heard l [] = []"
| "heard l (x # xs) = replicate (duration x - l + 1) Quiet @ [Bit (symbol_bit x), Quiet, Quiet] @ heard 4 xs"

lemma starts_with:
  assumes "timely c 4 xs"
  shows "wave lv xs @ replicate 4 (level_after lv xs) =
    replicate 4 lv @ drop 4 (wave lv xs @ replicate 4 (level_after lv xs))"
proof -
  have "take 4 (wave lv xs @ replicate 4 (level_after lv xs)) = replicate 4 lv"
    using assms by (cases "(lv, xs)" rule: wave.cases) auto
  then show ?thesis by (metis append_take_drop_id)
qed

lemma start_phase: "phase c idle [True, True, True] [Quiet, Quiet, Quiet] (running D_wait_counter True 0)"
proof (rule phase_cons)
  let ?Q = "\<lambda>d. state_controller d = Ctl_decode \<and> state_decoder d = D_wait \<and> \<not> clock_start d \<and> clear_counter d \<and>
    data_receiver_start d \<and> \<not> data_receiver_end d"
  show "phase c idle [True] [Quiet] ?Q" by (rule phase_step) (simp add: step_defs)
  show "phase c ?Q [True, True] [Quiet, Quiet] (running D_wait_counter True 0)"
  proof (rule phase_cons)
    show "phase c ?Q [True] [Quiet] (\<lambda>d. stopped D_start_counter True d \<and> clocks_counted d = 0)"
      by (rule phase_step) (simp add: step_defs)
    show "phase c (\<lambda>d. stopped D_start_counter True d \<and> clocks_counted d = 0) [True] [Quiet] (running D_wait_counter True 0)"
      by (rule phase_step) (simp add: step_defs)
  qed
qed

lemma symbols_phase:
  assumes "boundaries_ok c" "timely c l xs" "xs = [] \<longrightarrow> l = 4"
  shows "phase c (running D_wait_counter lv 0) (drop l (wave lv xs @ replicate 4 (level_after lv xs))) (heard l xs)
    (running D_wait_counter (level_after lv xs) 0)"
  using assms(2,3)
proof (induction xs arbitrary: l lv)
  case Nil
  then show ?case by (simp add: phase_nil)
next
  case (Cons x xs)
  show ?case
  proof (cases x)
    case (One n)
    have "phase c (running D_wait_counter lv 0)
      ((replicate (n - l) lv @ replicate 4 (\<not> lv)) @ drop 4 (wave (\<not> lv) xs @ replicate 4 (level_after (\<not> lv) xs)))
      ((replicate (n - l + 1) Quiet @ [Bit True, Quiet, Quiet]) @ heard 4 xs)
      (running D_wait_counter (level_after (\<not> lv) xs) 0)"
      using Cons One assms(1) by (intro phase_seq[OF one_phase Cons.IH]) auto
    then show ?thesis using Cons.prems One starts_with[of c xs "\<not> lv"] by simp
  next
    case (Zero a b)
    have "phase c (running D_wait_counter lv 0)
      ((replicate (a - l) lv @ replicate b (\<not> lv) @ replicate 4 lv) @ drop 4 (wave lv xs @ replicate 4 (level_after lv xs)))
      ((replicate (a + b - l + 1) Quiet @ [Bit False, Quiet, Quiet]) @ heard 4 xs)
      (running D_wait_counter (level_after lv xs) 0)"
      using Cons Zero assms(1) by (intro phase_seq[OF zero_phase Cons.IH]) auto
    then show ?thesis using Cons.prems Zero starts_with[of c xs lv] by simp
  qed
qed

text \<open>What is left of the last bit and the silence after the first four cycles, up to the end signal.\<close>

fun closing_body :: "boundaries \<Rightarrow> closing \<Rightarrow> bool list" where
  "closing_body c Low = replicate (tari_1010_value c + 1) False @ replicate (cs_length c + 4) False"
| "closing_body c (High a) = replicate (a - 4) True @ [False, False] @ replicate (tari_1010_value c + 3 - a) False @
     replicate (cs_length c + 4) False"

definition last_events :: "boundaries \<Rightarrow> closing \<Rightarrow> decoded list" where
  "last_events c z = replicate (tari_1010_value c + 2) Quiet @ Bit (closing_bit z) # replicate (cs_length c + 1) Quiet"

lemma closing_split:
  assumes "boundaries_ok c" "closing_ok c lv z" "tari_1584_value c + 15 \<le> g"
  obtains h where "9 \<le> h" "closing_wave z g = replicate 4 lv @ closing_body c z @ replicate h False"
proof (cases z)
  case Low
  have "g = 4 + (tari_1010_value c + 1 + (cs_length c + 4) + (g - 6 - tari_1584_value c))"
    using assms by (simp add: boundaries_ok_def cs_length_def)
  then have "replicate g False = replicate 4 False @ closing_body c z @ replicate (g - 6 - tari_1584_value c) False"
    unfolding closing_body.simps Low append_assoc replicate_add[symmetric] by (rule arg_cong)
  then show ?thesis using that assms Low by simp
next
  case (High a)
  have a: "4 \<le> a" "a \<le> tari_1010_value c + 3" "a = 4 + (a - 4)" using assms High by (auto simp: boundaries_ok_def)
  let ?h = "g + a - tari_1584_value c - 6"
  have "g = 2 + (tari_1010_value c + 3 - a + (cs_length c + 4 + (g + a - tari_1584_value c - 6)))"
    using assms a by (simp add: boundaries_ok_def cs_length_def)
  then have "replicate g False = replicate 2 False @ replicate (tari_1010_value c + 3 - a) False @
      replicate (cs_length c + 4) False @ replicate ?h False"
    unfolding replicate_add[symmetric] by (rule arg_cong)
  moreover have "replicate a True = replicate 4 True @ replicate (a - 4) True"
    using quiet_split[OF a(1)] .
  ultimately have "closing_wave z g = replicate 4 lv @ closing_body c z @ replicate ?h False"
    using assms High by (simp add: numeral_2_eq_2)
  moreover have "9 \<le> ?h" using assms(3) a(1) by arith
  ultimately show ?thesis using that by blast
qed

lemma closing_phase:
  assumes ok: "boundaries_ok c" and cl: "closing_ok c lv z"
  shows "phase c (running D_wait_counter lv 0) (closing_body c z) (last_events c z @ [Eop]) (after_end 0)"
proof (cases z)
  case Low
  have "phase c (running D_wait_counter False 0)
      (replicate (tari_1010_value c + 1) False @ replicate (cs_length c + 4) False)
      (replicate (tari_1010_value c + 1) Quiet @ Quiet # Bit True # replicate (cs_length c + 1) Quiet @ [Eop]) (after_end 0)"
    using wait_full[of 0 "tari_1010_value c + 1"] by (intro phase_seq[OF _ end_phase[OF ok, of D_wait_counter True]]) simp_all
  then show ?thesis using cl Low by (simp add: last_events_def replicate_app_Cons_same)
next
  case (High a)
  let ?k = "a - 4" and ?r = "tari_1010_value c + 3 - a"
  have a: "?k + 1 \<le> tari_0505_value c" "tari_0495_value c \<le> ?k + 1" "?k \<le> tari_1010_value c"
    and r: "?k + 2 + ?r = tari_1010_value c + 1" and lv: "lv = True"
    using assms High by (auto simp: boundaries_ok_def)
  have 1: "phase c (running D_wait_counter True 0) (replicate ?k True) (replicate ?k Quiet) (running D_wait_counter True (0 + ?k))"
    using a by (intro wait_full) simp
  have 2: "phase c (running D_wait_counter True (0 + ?k)) [False, False] [Quiet, Quiet] (running D_wait_counter2 False (?k + 2))"
    using half_edge[of c ?k True] a by simp
  have 3: "phase c (running D_wait_counter2 False (?k + 2)) (replicate ?r False) (replicate ?r Quiet)
      (running D_wait_counter2 False (tari_1010_value c + 1))"
    by (rule wait_half[of "?k + 2" ?r c False, unfolded r]) simp
  have 4: "phase c (running D_wait_counter2 False (tari_1010_value c + 1)) (replicate (cs_length c + 4) False)
      (Quiet # Bit False # replicate (cs_length c + 1) Quiet @ [Eop]) (after_end 0)"
    by (rule end_phase[OF ok]) simp
  have "phase c (running D_wait_counter True 0) (closing_body c z)
      (replicate ?k Quiet @ [Quiet, Quiet] @ replicate ?r Quiet @ Quiet # Bit False # replicate (cs_length c + 1) Quiet @ [Eop])
      (after_end 0)"
    unfolding High closing_body.simps by (rule phase_seq[OF 1 phase_seq[OF 2 phase_seq[OF 3 4]]])
  moreover have "replicate (tari_1010_value c + 2) Quiet = replicate ?k Quiet @ [Quiet, Quiet] @ replicate ?r Quiet @ [Quiet]"
    using arg_cong[OF r, of "\<lambda>n. replicate (n + 1) Quiet"] by (simp add: replicate_add numeral_2_eq_2 replicate_app_Cons_same)
  ultimately show ?thesis by (simp add: last_events_def High lv)
qed

text \<open>From the first edge to the end signal.\<close>

lemma message_phase:
  assumes ok: "boundaries_ok c" and t: "timely c 3 xs" "xs \<noteq> []" and cl: "closing_ok c (level_after True xs) z"
  shows "phase c idle (wave True xs @ replicate 4 (level_after True xs) @ closing_body c z)
    ([Quiet, Quiet, Quiet] @ heard 3 xs @ last_events c z @ [Eop]) (after_end 0)"
proof -
  have "take 3 (wave True xs @ replicate 4 (level_after True xs)) = replicate 3 True"
    using t by (cases "(True, xs)" rule: wave.cases) auto
  then have "wave True xs @ replicate 4 (level_after True xs) =
      [True, True, True] @ drop 3 (wave True xs @ replicate 4 (level_after True xs))"
    by (metis append_take_drop_id numeral_3_eq_3 replicate_Suc replicate_0)
  moreover have "phase c idle
      ([True, True, True] @ drop 3 (wave True xs @ replicate 4 (level_after True xs)) @ closing_body c z)
      ([Quiet, Quiet, Quiet] @ heard 3 xs @ last_events c z @ [Eop]) (after_end 0)"
    using t by (intro phase_seq[OF start_phase phase_seq[OF symbols_phase[OF ok] closing_phase[OF ok cl]]]) simp_all
  ultimately show ?thesis by (metis append_assoc)
qed

section \<open>Decoder and constructor together\<close>

definition rx_path_of :: "receiver \<Rightarrow> rx_path" where
  "rx_path_of s = \<lparr>builder = pack s, data_ready = dec_data_ready (dec s), data_in = dec_data_out (dec s),
     eop_flag = dec_eop (dec s), received_words = fifo_in s\<rparr>"

text \<open>A cycle in which the end flag is cleared only where the decoder looks at \<open>clr_eop\<close>.\<close>

definition clears_seen :: "receiver \<Rightarrow> bool" where
  "clears_seen s \<longleftrightarrow> (clr_eop (pack s) \<and> dec_eop (dec s) \<longrightarrow>
     state_decoder (dec s) = D_wait \<or> state_decoder (dec s) = D_end)"

fun always_seen :: "boundaries \<Rightarrow> bool list \<Rightarrow> receiver \<Rightarrow> bool" where
  "always_seen c [] s \<longleftrightarrow> True"
| "always_seen c (x # w) s \<longleftrightarrow> clears_seen s \<and> always_seen c w (receiver_clock c x s)"

lemma receiver_clock_refines:
  assumes "ready_ok (dec s)" "clears_seen s"
  shows "rx_path_of (receiver_clock c x s) = rx_clock (decoded_event c x (dec s)) (rx_path_of s)"
    and "ready_ok (dec (receiver_clock c x s))"
proof -
  have "clr_eop (pack s) \<and> dec_eop (dec s) \<longrightarrow> state_decoder (dec s) = D_wait \<or> state_decoder (dec s) = D_end"
    using assms(2) by (simp add: clears_seen_def)
  note out = outputs_follow_events[OF assms(1) this, of c x False]
  show "rx_path_of (receiver_clock c x s) = rx_clock (decoded_event c x (dec s)) (rx_path_of s)"
    unfolding rx_path_of_def rx_clock_def receiver_clock_def receiver.simps rx_path.simps out by simp
  show "ready_ok (dec (receiver_clock c x s))"
    using out(4) by (simp add: receiver_clock_def)
qed

lemma receive_refines:
  "ready_ok (dec s) \<Longrightarrow> always_seen c w s \<Longrightarrow>
   rx_path_of (receive c w s) = rx_clocks (events c w s) (rx_path_of s) \<and> ready_ok (dec (receive c w s))"
  by (induction w arbitrary: s) (simp_all add: receiver_clock_refines)

lemma always_seen_append: "always_seen c (v @ w) s \<longleftrightarrow> always_seen c v s \<and> always_seen c w (receive c v s)"
  by (induction v arbitrary: s) simp_all

text \<open>Before the end nothing is cleared, after it the decoder looks in every cycle.\<close>

lemma seen_before:
  assumes "ready_ok (dec s)" "\<not> dec_eop (dec s)" "Eop \<notin> set (butlast (events c w s))"
  shows "always_seen c w s"
  using assms
proof (induction w arbitrary: s)
  case (Cons x w)
  have "clears_seen s" using Cons.prems by (simp add: clears_seen_def)
  moreover have "always_seen c w (receiver_clock c x s)"
  proof (cases w)
    case (Cons y v)
    then have "decoded_event c x (dec s) \<noteq> Eop" and "Eop \<notin> set (butlast (events c w (receiver_clock c x s)))"
      using Cons.prems by auto
    moreover have "\<not> dec_eop (dec (receiver_clock c x s))"
      using calculation outputs_follow_events(3)[of "dec s" "clr_eop (pack s)" c x False] Cons.prems
      by (simp add: receiver_clock_def)
    ultimately show ?thesis
      using Cons.IH receiver_clock_refines[OF Cons.prems(1) \<open>clears_seen s\<close>] by simp
  qed simp
  ultimately show ?case by simp
qed simp

lemma seen_after: "after_end n (dec s) \<Longrightarrow> always_seen c (replicate g False) s"
proof (induction g arbitrary: n s)
  case (Suc g)
  then have "after_end (n + 1) (dec (receiver_clock c False s))"
    using after_end_step[of c n] by (simp add: phase_def)
  then show ?case using Suc after_end_state[of n "dec s"] by (auto simp: clears_seen_def)
qed simp

text \<open>The bits heard are far enough apart for the constructor.\<close>

lemma heard_signal:
  assumes "boundaries_ok c" "timely c l xs" "4 \<le> j" "\<forall>(b, n) \<in> set cs. 6 \<le> n"
  shows "\<exists>m bs. heard l xs @ replicate j Quiet @ signal cs g = replicate m Quiet @ signal bs g \<and> 4 \<le> m \<and>
    map fst bs = map symbol_bit xs @ map fst cs \<and> (\<forall>(b, n) \<in> set bs. 6 \<le> n)"
  using assms(2)
proof (induction xs arbitrary: l)
  case Nil
  then show ?case using assms(3,4) by (intro exI[of _ j] exI[of _ cs]) simp
next
  case (Cons x xs)
  then obtain m bs where IH: "heard 4 xs @ replicate j Quiet @ signal cs g = replicate m Quiet @ signal bs g"
    "4 \<le> m" "map fst bs = map symbol_bit xs @ map fst cs" "\<forall>(b, n) \<in> set bs. 6 \<le> n"
    unfolding timely.simps by blast
  have "4 \<le> duration x - l + 1"
    using Cons.prems assms(1) by (cases x) (auto simp: boundaries_ok_def)
  moreover have "heard l (x # xs) @ replicate j Quiet @ signal cs g =
      replicate (duration x - l + 1) Quiet @ signal ((symbol_bit x, m + 2) # bs) g"
    using IH(1) by (simp add: signal_def)
  ultimately show ?case
    using IH by (intro exI[of _ "duration x - l + 1"] exI[of _ "(symbol_bit x, m + 2) # bs"]) simp
qed

definition receiver_ready :: "receiver \<Rightarrow> bool" where
  "receiver_ready s \<longleftrightarrow> idle (dec s) \<and> \<not> dec_data_ready (dec s) \<and> \<not> dec_eop (dec s) \<and> pack s = constructor_init"

lemma rx_path_of_ready:
  "receiver_ready s \<Longrightarrow> rx_path_of s = collecting [] (dec_data_out (dec s)) (fifo_in s)"
  by (simp add: receiver_ready_def rx_path_of_def collecting_def constructor_init_def)

lemma message_heard:
  assumes "receiver_ready s" "boundaries_ok c" "xs \<noteq> []" "timely c 3 xs"
    "closing_ok c (level_after True xs) z" "tari_1584_value c + 15 \<le> g"
  defines "w \<equiv> wave True xs @ closing_wave z g"
  obtains m bs h where "events c w s = replicate m Quiet @ signal bs h" "9 \<le> h"
    "map fst bs = map symbol_bit xs @ [closing_bit z]" "\<forall>(b, n) \<in> set bs. 6 \<le> n"
    "always_seen c w s" "idle (dec (receive c w s))"
proof -
  define lv where "lv = level_after True xs"
  obtain h where h: "9 \<le> h" "closing_wave z g = replicate 4 lv @ closing_body c z @ replicate h False"
    using closing_split[OF assms(2,5,6)] lv_def by blast
  define v where "v = wave True xs @ replicate 4 lv @ closing_body c z"
  let ?s = "receive c v s" and ?w = "replicate h False"
  have wv: "w = v @ ?w" by (simp add: w_def v_def h)
  have idle: "idle (dec s)" and ready: "ready_ok (dec s)" "\<not> dec_eop (dec s)"
    using assms(1) by (auto simp: receiver_ready_def ready_ok_def)
  have ev: "events c v s = [Quiet, Quiet, Quiet] @ heard 3 xs @ last_events c z @ [Eop]" and e: "after_end 0 (dec ?s)"
    using message_phase[OF assms(2,4,3,5)] idle by (simp_all add: phase_def v_def lv_def)
  have ew: "events c ?w ?s = replicate h Quiet" and i: "after_end h (dec (receive c ?w ?s))"
    using after_end_stays[of c 0 h] e by (simp_all add: phase_def)
  have "Eop \<notin> set (heard l xs)" for l by (induction xs arbitrary: l) auto
  then have "always_seen c v s"
    using ready by (intro seen_before) (auto simp: ev butlast_append last_events_def)
  then have seen: "always_seen c w s" using seen_after[OF e] by (simp add: wv always_seen_append)
  have "events c w s = replicate 3 Quiet @ heard 3 xs @ replicate (tari_1010_value c + 2) Quiet @
      signal [(closing_bit z, cs_length c + 1)] h"
    by (simp add: wv events_append ev ew signal_def last_events_def numeral_3_eq_3)
  moreover have "6 \<le> cs_length c + 1" "4 \<le> tari_1010_value c + 2"
    using assms(2) by (auto simp: boundaries_ok_def cs_length_def)
  then obtain m bs where "heard 3 xs @ replicate (tari_1010_value c + 2) Quiet @ signal [(closing_bit z, cs_length c + 1)] h =
      replicate m Quiet @ signal bs h" and bs: "map fst bs = map symbol_bit xs @ [closing_bit z]" "\<forall>(b, n) \<in> set bs. 6 \<le> n"
    using heard_signal[OF assms(2,4), of "tari_1010_value c + 2" "[(closing_bit z, cs_length c + 1)]" h] by auto
  ultimately have "events c w s = replicate (3 + m) Quiet @ signal bs h"
    by (simp only: replicate_add append_assoc)
  moreover have "idle (dec (receive c w s))" using i h(1) by (simp add: wv receive_append after_end_idle)
  ultimately show ?thesis using that h(1) bs seen by blast
qed

lemma receiver_hears:
  assumes "receiver_ready s" "boundaries_ok c" "xs \<noteq> []" "timely c 3 xs"
    "closing_ok c (level_after True xs) z" "tari_1584_value c + 15 \<le> g"
  shows "fifo_in (receive c (wave True xs @ closing_wave z g) s) =
      fifo_in s @ package_constructor (map symbol_bit xs @ [closing_bit z]) \<and>
    receiver_ready (receive c (wave True xs @ closing_wave z g) s)"
proof -
  let ?w = "wave True xs @ closing_wave z g"
  obtain m bs h where ev: "events c ?w s = replicate m Quiet @ signal bs h" and h: "9 \<le> h"
    and bits: "map fst bs = map symbol_bit xs @ [closing_bit z]" and gaps: "\<forall>(b, n) \<in> set bs. 6 \<le> n"
    and seen: "always_seen c ?w s" and idle: "idle (dec (receive c ?w s))"
    using message_heard[OF assms] .
  have "ready_ok (dec s)" using assms(1) by (simp add: receiver_ready_def ready_ok_def)
  then have "rx_path_of (receive c ?w s) = rx_clocks (events c ?w s) (rx_path_of s)"
    using receive_refines seen by blast
  also have "\<dots> = collecting [] (List.last (dec_data_out (dec s) # map fst bs))
      (fifo_in s @ package_constructor (map fst bs))"
    using message_collected[OF _ gaps h, of "[]"] by (simp add: ev rx_path_of_ready assms(1) rx_clocks_append quiet_idle)
  finally show ?thesis
    using idle bits by (simp add: rx_path_of_def receiver_ready_def collecting_def constructor_init_def)
qed

text \<open>Power-up, and one cycle of a low line.\<close>

definition receiver_init :: "cint list \<Rightarrow> receiver" where
  "receiver_init q =
     \<lparr>dec = \<lparr>state_controller = Ctl_wait, state_decoder = D_wait, was_one = False, prev_bit_c = False,
        prev_bit_d = False, data_receiver_start = False, data_receiver_end = False, clock_start = False,
        clear_counter = False, clocks_counted = 0, dec_data_ready = False, dec_data_out = False,
        dec_eop = False, dec_err = False\<rparr>,
      pack = constructor_init, fifo_in = q\<rparr>"

lemma receiver_ready_init: "receiver_ready (receiver_clock c False (receiver_init q))"
  by (simp add: receiver_ready_def receiver_clock_def receiver_init_def step_defs contructor_def constructor_init_def)

definition boundaries_500 :: boundaries where
  "boundaries_500 = \<lparr>tari_101 = 505, tari_099 = 495, tari_1616 = 808, tari_1584 = 792\<rparr>"

lemma boundaries_500:
  "tari_1010_value boundaries_500 = 505" "tari_0990_value boundaries_500 = 495" "tari_1616_value boundaries_500 = 808"
  "tari_1584_value boundaries_500 = 792" "tari_0505_value boundaries_500 = 252" "tari_0495_value boundaries_500 = 247"
  by (simp_all add: boundaries_500_def tari_1010_value_def tari_0990_value_def tari_1616_value_def tari_1584_value_def
      tari_0505_value_def tari_0495_value_def)

lemma boundaries_500_ok: "boundaries_ok boundaries_500"
  by (simp add: boundaries_ok_def boundaries_500)

text \<open>C19. The decoder of FM0_decoder.vhd and the constructor behind it receive what the line encodes: from
  a ready receiver, a message whose symbols keep the tolerances (less the cycles the decoder needs to
  start counting) and whose last bit ends in at least 1.584 tari and 15 cycles of low line puts exactly
  the packages of its bits into the receive FIFO, and the receiver is ready again.\<close>

theorem receiver_decodes:
  assumes "receiver_ready s" "boundaries_ok c" "xs \<noteq> []" "timely c 3 xs"
    "closing_ok c (level_after True xs) z" "tari_1584_value c + 15 \<le> g"
  shows "fifo_in (receive c (wave True xs @ closing_wave z g) s) =
      fifo_in s @ package_constructor (map symbol_bit xs @ [closing_bit z]) \<and>
    receiver_ready (receive c (wave True xs @ closing_wave z g) s)"
  using assms by (rule receiver_hears)

lemma receiver_decodes_witness:
  "fifo_in (receive boundaries_500 (wave True [One 500, Zero 252 249, One 501] @ closing_wave (High 253) 900)
     (receiver_clock boundaries_500 False (receiver_init []))) = [0x144, 0]"
proof -
  have "fifo_in (receive boundaries_500 (wave True [One 500, Zero 252 249, One 501] @ closing_wave (High 253) 900)
     (receiver_clock boundaries_500 False (receiver_init []))) =
      fifo_in (receiver_clock boundaries_500 False (receiver_init [])) @ package_constructor [True, False, True, False]"
    using receiver_decodes[OF receiver_ready_init[of boundaries_500 "[]"] boundaries_500_ok,
        where xs = "[One 500, Zero 252 249, One 501]" and z = "High 253" and g = 900]
    by (simp add: boundaries_500)
  then show ?thesis
    by (simp add: receiver_clock_def receiver_init_def constructor_init_def constructor_rest pack_bits_def)
qed

end
