(* ===== verification/Encoder.thy ===== *)
theory Encoder
  imports Decoder
begin

text \<open>
  FM0_encoder.vhd clock cycle by clock cycle, enabled and out of reset, behind its FIFO
  (fifo_fm0.vhd): the controller, the sender with its two symbol timers, and the timer of the pause
  after a command.  The FIFO shows its first word on \<open>q\<close>; what it shows when empty is a parameter.
\<close>

section \<open>State\<close>

datatype encoder_controller_state =
  E_wait | E_wait_send | E_request | E_wait_tari_CS | E_start_send | E_wait_request

datatype sender_state =
  S_wait | S_send_s1 | S_send_s2 | S_send_s2_part2 | S_send_s3 | S_send_s3_part2 | S_send_s4 | S_end

record encoder =
  enc_controller :: encoder_controller_state
  state_sender :: sender_state
  data_sender_start :: bool
  data_sender_end :: bool
  half_tari_start :: bool
  half_tari_end :: bool
  full_tari_start :: bool
  full_tari_end :: bool
  tari_CS_start :: bool
  tari_CS_end :: bool
  index_bit :: nat
  last_state_bit :: sender_state
  half_count :: nat
  full_count :: nat
  CS_count :: nat
  request_new_data :: bool
  enc_finished :: bool
  enc_out :: bool

text \<open>\<open>mask_value\<close>, and bit \<open>k\<close> of \<open>data\<close>; both are zero exactly for the word 0.\<close>

definition mask_value :: "cint \<Rightarrow> nat" where "mask_value w = unat (w AND 0x3F)"
definition data_bit :: "cint \<Rightarrow> nat \<Rightarrow> bool" where "data_bit w k = bit w (k + 6)"

section \<open>One clock cycle\<close>

definition fm0_controller :: "cint \<Rightarrow> bool \<Rightarrow> encoder \<Rightarrow> encoder" where
  "fm0_controller w is_fifo_empty e =
     (case enc_controller e of
        E_wait \<Rightarrow>
          (let e' = e\<lparr>data_sender_start := False, enc_finished := False, request_new_data := False\<rparr>
           in if \<not> is_fifo_empty then
                (if w = 0 then e'\<lparr>request_new_data := True, enc_controller := E_wait_request\<rparr>
                 else e'\<lparr>enc_controller := E_start_send\<rparr>)
              else e')
      | E_start_send \<Rightarrow> e\<lparr>data_sender_start := True, request_new_data := False, enc_controller := E_wait_send\<rparr>
      | E_wait_send \<Rightarrow>
          (let e' = e\<lparr>request_new_data := False, data_sender_start := False\<rparr>
           in if data_sender_end e then e'\<lparr>enc_controller := E_request\<rparr> else e')
      | E_request \<Rightarrow> e\<lparr>request_new_data := True, data_sender_start := False, enc_controller := E_wait_request\<rparr>
      | E_wait_request \<Rightarrow>
          (let e' = e\<lparr>request_new_data := False\<rparr>
           in if w = 0 \<and> data_sender_end e then e'\<lparr>tari_CS_start := True, enc_controller := E_wait_tari_CS\<rparr>
              else e'\<lparr>enc_controller := E_start_send\<rparr>)
      | E_wait_tari_CS \<Rightarrow>
          (let e' = e\<lparr>request_new_data := False\<rparr>
           in if tari_CS_end e then e'\<lparr>tari_CS_start := False, enc_controller := E_wait, enc_finished := True\<rparr>
              else e'))"

text \<open>The state that sends a bit when the line was left at the level that makes \<open>lv\<close> the next one.\<close>

definition symbol_state :: "bool \<Rightarrow> bool \<Rightarrow> sender_state" where
  "symbol_state b lv = (if b then (if lv then S_send_s1 else S_send_s4) else (if lv then S_send_s2 else S_send_s3))"

definition after_bit :: "cint \<Rightarrow> bool \<Rightarrow> encoder \<Rightarrow> encoder" where
  "after_bit w lv e =
     (let k = index_bit e + 1; e = e\<lparr>index_bit := k\<rparr>
      in if mask_value w \<le> k then e\<lparr>state_sender := S_end\<rparr>
         else if data_bit w k then e\<lparr>full_tari_start := True, state_sender := symbol_state True lv\<rparr>
         else e\<lparr>half_tari_start := True, state_sender := symbol_state False lv\<rparr>)"

definition first_bit :: "cint \<Rightarrow> encoder \<Rightarrow> encoder" where
  "first_bit w e =
     (let e = e\<lparr>index_bit := 0\<rparr>;
          e = e\<lparr>state_sender := (case last_state_bit e of
                  S_send_s1 \<Rightarrow> symbol_state (data_bit w 0) False
                | S_send_s2 \<Rightarrow> symbol_state (data_bit w 0) True
                | S_send_s3 \<Rightarrow> symbol_state (data_bit w 0) False
                | S_send_s4 \<Rightarrow> symbol_state (data_bit w 0) True
                | _ \<Rightarrow> state_sender e)\<rparr>
      in if data_bit w 0 then e\<lparr>full_tari_start := True\<rparr> else e\<lparr>half_tari_start := True\<rparr>)"

definition data_sender :: "cint \<Rightarrow> encoder \<Rightarrow> encoder" where
  "data_sender w e =
     (case state_sender e of
        S_wait \<Rightarrow>
          (if w = 0 then e\<lparr>last_state_bit := S_send_s2, enc_out := False, data_sender_end := True\<rparr>
           else if data_sender_start e then first_bit w (e\<lparr>data_sender_end := False\<rparr>)
           else e\<lparr>data_sender_end := False\<rparr>)
      | S_send_s1 \<Rightarrow>
          (let e' = e\<lparr>enc_out := True, last_state_bit := S_send_s1\<rparr>
           in if full_tari_end e then after_bit w False e' else e')
      | S_send_s2 \<Rightarrow>
          (let e' = e\<lparr>last_state_bit := S_send_s2, enc_out := True\<rparr>
           in if half_tari_end e then e'\<lparr>half_tari_start := True, state_sender := S_send_s2_part2\<rparr> else e')
      | S_send_s2_part2 \<Rightarrow>
          (let e' = e\<lparr>enc_out := False\<rparr>
           in if half_tari_end e then after_bit w True (e'\<lparr>half_tari_start := False\<rparr>) else e')
      | S_send_s3 \<Rightarrow>
          (let e' = e\<lparr>last_state_bit := S_send_s3, enc_out := False\<rparr>
           in if half_tari_end e then e'\<lparr>half_tari_start := True, state_sender := S_send_s3_part2\<rparr> else e')
      | S_send_s3_part2 \<Rightarrow>
          (let e' = e\<lparr>enc_out := True\<rparr>
           in if half_tari_end e then after_bit w False (e'\<lparr>half_tari_start := False\<rparr>) else e')
      | S_send_s4 \<Rightarrow>
          (let e' = e\<lparr>last_state_bit := S_send_s4, enc_out := False\<rparr>
           in if full_tari_end e then after_bit w True (e'\<lparr>full_tari_start := False\<rparr>) else e')
      | S_end \<Rightarrow>
          e\<lparr>half_tari_start := False, full_tari_start := False, index_bit := 0, state_sender := S_wait,
            data_sender_end := True\<rparr>)"

text \<open>The three timers have one pattern: count while started, signal and begin again at the limit.\<close>

definition timer :: "nat \<Rightarrow> bool \<Rightarrow> nat \<Rightarrow> nat \<times> bool" where
  "timer limit start i = (if start then (if i + 1 = limit then (0, True) else (i + 1, False)) else (i, False))"

text \<open>All processes read what the signals held before the edge; controller and sender write different ones.\<close>

definition encoder_clock :: "nat \<Rightarrow> cint \<Rightarrow> bool \<Rightarrow> encoder \<Rightarrow> encoder" where
  "encoder_clock tari_value w is_fifo_empty e =
     (let c = fm0_controller w is_fifo_empty e;
          s = data_sender w e;
          (i, half_end) = timer (tari_value div 2) (half_tari_start e) (half_count e);
          (i2, full_end) = timer tari_value (full_tari_start e) (full_count e);
          (i3, CS_end) = timer (tari_value + tari_value) (tari_CS_start e) (CS_count e)
      in s\<lparr>enc_controller := enc_controller c, data_sender_start := data_sender_start c,
           request_new_data := request_new_data c, enc_finished := enc_finished c, tari_CS_start := tari_CS_start c,
           half_count := i, half_tari_end := half_end, full_count := i2, full_tari_end := full_end,
           CS_count := i3, tari_CS_end := CS_end\<rparr>)"

section \<open>With its FIFO\<close>

record transmitter =
  enc :: encoder
  words :: "cint list"

definition fifo_q :: "cint \<Rightarrow> cint list \<Rightarrow> cint" where
  "fifo_q stale q = (case q of [] \<Rightarrow> stale | w # _ \<Rightarrow> w)"

definition transmitter_clock :: "cint \<Rightarrow> nat \<Rightarrow> transmitter \<Rightarrow> transmitter" where
  "transmitter_clock stale tari_value s =
     \<lparr>enc = encoder_clock tari_value (fifo_q stale (words s)) (words s = []) (enc s),
      words = (if request_new_data (enc s) then tl (words s) else words s)\<rparr>"

text \<open>The levels of the next \<open>n\<close> cycles, and the state after them.\<close>

fun transmit :: "cint \<Rightarrow> nat \<Rightarrow> nat \<Rightarrow> transmitter \<Rightarrow> bool list \<times> transmitter" where
  "transmit stale tari_value 0 s = ([], s)"
| "transmit stale tari_value (Suc n) s =
     (let s = transmitter_clock stale tari_value s; (w, t) = transmit stale tari_value n s
      in (enc_out (enc s) # w, t))"

section \<open>Phases\<close>

text \<open>In the next \<open>k\<close> cycles the command does not end.\<close>

fun busy :: "cint \<Rightarrow> nat \<Rightarrow> nat \<Rightarrow> transmitter \<Rightarrow> bool" where
  "busy c n 0 s \<longleftrightarrow> True"
| "busy c n (Suc k) s \<longleftrightarrow> \<not> enc_finished (enc s) \<and> busy c n k (transmitter_clock c n s)"

text \<open>From a state with \<open>P\<close> the levels \<open>w\<close> are sent, and only then \<open>Q\<close> holds.\<close>

definition sends ::
  "cint \<Rightarrow> nat \<Rightarrow> (transmitter \<Rightarrow> bool) \<Rightarrow> bool list \<Rightarrow> (transmitter \<Rightarrow> bool) \<Rightarrow> bool" where
  "sends c n P w Q \<longleftrightarrow> (\<forall>s. P s \<longrightarrow>
     fst (transmit c n (length w) s) = w \<and> Q (snd (transmit c n (length w) s)) \<and> busy c n (length w) s)"

lemma transmit_add:
  "transmit c n (j + k) s =
     (fst (transmit c n j s) @ fst (transmit c n k (snd (transmit c n j s))),
      snd (transmit c n k (snd (transmit c n j s))))"
  by (induction j arbitrary: s) (simp_all add: Let_def split: prod.split)

lemma busy_add: "busy c n (j + k) s \<longleftrightarrow> busy c n j s \<and> busy c n k (snd (transmit c n j s))"
  by (induction j arbitrary: s) (simp_all add: Let_def split: prod.split)

lemma sends_seq: "sends c n P v Q \<Longrightarrow> sends c n Q w R \<Longrightarrow> sends c n P (v @ w) R"
  by (simp add: sends_def transmit_add busy_add)

lemma sends_nil: "sends c n P [] P"
  by (simp add: sends_def)

lemma sends_step:
  "(\<And>s. P s \<Longrightarrow> enc_out (enc (transmitter_clock c n s)) = x \<and> Q (transmitter_clock c n s) \<and>
      \<not> enc_finished (enc s)) \<Longrightarrow> sends c n P [x] Q"
  by (simp add: sends_def Let_def)

lemma sends_replicate:
  assumes "\<And>j. j < m \<Longrightarrow> sends c n (P (k + j)) [lv] (P (k + j + 1))"
  shows "sends c n (P k) (replicate m lv) (P (k + m))"
  using assms
proof (induction m)
  case 0
  then show ?case by (simp add: sends_nil)
next
  case (Suc m)
  then have "sends c n (P k) (replicate m lv @ [lv]) (P (k + m + 1))"
    by (intro sends_seq[of _ _ _ _ "P (k + m)"]) auto
  then show ?case by (simp flip: replicate_append_same)
qed

section \<open>Symbols\<close>

text \<open>While a package is sent: the controller waits, and the word stays at the front of the FIFO.\<close>

definition sending :: "cint \<Rightarrow> cint list \<Rightarrow> nat \<Rightarrow> transmitter \<Rightarrow> bool" where
  "sending w ws k s \<longleftrightarrow> words s = w # ws \<and> enc_controller (enc s) = E_wait_send \<and> index_bit (enc s) = k \<and>
     \<not> data_sender_start (enc s) \<and> \<not> data_sender_end (enc s) \<and> \<not> request_new_data (enc s) \<and>
     \<not> tari_CS_start (enc s) \<and> \<not> enc_finished (enc s) \<and> CS_count (enc s) \<le> 1"

text \<open>A bit 1: the full timer runs, the other one is stopped.\<close>

definition full_symbol :: "cint \<Rightarrow> cint list \<Rightarrow> nat \<Rightarrow> bool \<Rightarrow> nat \<Rightarrow> nat \<Rightarrow> transmitter \<Rightarrow> bool" where
  "full_symbol w ws k lv h p s \<longleftrightarrow> sending w ws k s \<and> state_sender (enc s) = symbol_state True lv \<and>
     full_tari_start (enc s) \<and> \<not> full_tari_end (enc s) \<and> full_count (enc s) = p \<and>
     \<not> half_tari_start (enc s) \<and> half_count (enc s) = h"

definition full_ended :: "cint \<Rightarrow> cint list \<Rightarrow> nat \<Rightarrow> bool \<Rightarrow> nat \<Rightarrow> transmitter \<Rightarrow> bool" where
  "full_ended w ws k lv h s \<longleftrightarrow> sending w ws k s \<and> state_sender (enc s) = symbol_state True lv \<and>
     full_tari_start (enc s) \<and> full_tari_end (enc s) \<and> full_count (enc s) = 0 \<and>
     \<not> half_tari_start (enc s) \<and> half_count (enc s) = h"

text \<open>The two halves of a bit 0: the half timer runs; the full timer may run on behind it.\<close>

definition half_state :: "bool \<Rightarrow> bool \<Rightarrow> sender_state" where
  "half_state second lv =
     (if second then (if lv then S_send_s2_part2 else S_send_s3_part2) else symbol_state False lv)"

definition half_symbol ::
  "cint \<Rightarrow> cint list \<Rightarrow> nat \<Rightarrow> bool \<Rightarrow> bool \<Rightarrow> bool \<Rightarrow> nat \<Rightarrow> bool \<Rightarrow> nat \<Rightarrow> transmitter \<Rightarrow> bool" where
  "half_symbol w ws k second lv ended h fs p s \<longleftrightarrow> sending w ws k s \<and> state_sender (enc s) = half_state second lv \<and>
     (second \<longrightarrow> last_state_bit (enc s) = symbol_state False lv) \<and>
     half_tari_start (enc s) \<and> half_tari_end (enc s) = ended \<and> half_count (enc s) = h \<and>
     full_tari_start (enc s) = fs \<and> full_count (enc s) = p"

text \<open>Where the full timer stands \<open>j\<close> cycles later.\<close>

definition advanced :: "nat \<Rightarrow> bool \<Rightarrow> nat \<Rightarrow> nat \<Rightarrow> nat" where
  "advanced n fs p j = (if fs then (p + j) mod n else p)"

text \<open>Between two bits: what the timers of the bits before may have left behind.\<close>

definition bit_starts :: "cint \<Rightarrow> cint list \<Rightarrow> nat \<Rightarrow> bool \<Rightarrow> transmitter \<Rightarrow> bool" where
  "bit_starts w ws k lv s \<longleftrightarrow>
     (let h = half_count (enc s); p = full_count (enc s); fs = full_tari_start (enc s)
      in h \<le> 1 \<and> p \<le> 3 \<and>
         (if data_bit w k then full_symbol w ws k lv h p s
          else (fs \<longrightarrow> 1 \<le> p \<and> p \<le> h + 1) \<and> half_symbol w ws k False lv False h fs p s))"

definition package_ends :: "cint \<Rightarrow> cint list \<Rightarrow> bool \<Rightarrow> transmitter \<Rightarrow> bool" where
  "package_ends w ws lv s \<longleftrightarrow> (\<exists>k. sending w ws k s) \<and> state_sender (enc s) = S_end \<and>
     \<not> half_tari_start (enc s) \<and> half_count (enc s) \<le> 1 \<and>
     full_count (enc s) + of_bool (full_tari_start (enc s)) \<le> 3 \<and> enc_out (enc s) = (\<not> lv) \<and>
     last_state_bit (enc s) \<in> (if lv then {S_send_s2, S_send_s4} else {S_send_s1, S_send_s3})"

definition bit_ends :: "cint \<Rightarrow> cint list \<Rightarrow> nat \<Rightarrow> bool \<Rightarrow> transmitter \<Rightarrow> bool" where
  "bit_ends w ws k lv s \<longleftrightarrow>
     (if k + 1 < mask_value w then bit_starts w ws (k + 1) lv s else package_ends w ws lv s)"

lemmas clock_defs = transmitter_clock_def encoder_clock_def fm0_controller_def data_sender_def Let_def fifo_q_def
  timer_def sending_def

lemma full_step:
  "p + 1 < n \<Longrightarrow> sends c n (full_symbol w ws k lv h p) [lv] (full_symbol w ws k lv h (p + 1))"
  by (rule sends_step; cases lv; simp add: full_symbol_def clock_defs symbol_state_def)

lemma full_end:
  "p + 1 = n \<Longrightarrow> sends c n (full_symbol w ws k lv h p) [lv] (full_ended w ws k lv h)"
  by (rule sends_step; cases lv; simp add: full_symbol_def full_ended_def clock_defs symbol_state_def)

lemma full_exit:
  assumes "3 < n" "h \<le> 1"
  shows "sends c n (full_ended w ws k lv h) [lv] (bit_ends w ws k (\<not> lv))"
proof (rule sends_step)
  fix s assume "full_ended w ws k lv h s"
  then show "enc_out (enc (transmitter_clock c n s)) = lv \<and> bit_ends w ws k (\<not> lv) (transmitter_clock c n s) \<and>
      \<not> enc_finished (enc s)"
    using assms
    by (cases lv; cases "k + 1 < mask_value w"; cases "data_bit w (k + 1)")
       (simp_all add: full_ended_def full_symbol_def half_symbol_def half_state_def bit_ends_def bit_starts_def
          package_ends_def clock_defs symbol_state_def after_bit_def)
qed

lemma half_step:
  assumes "h + 1 < n div 2" "p < n"
  shows "sends c n (half_symbol w ws k second lv False h fs p) [lv \<noteq> second]
    (half_symbol w ws k second lv False (h + 1) fs (advanced n fs p 1))"
  by (rule sends_step; cases lv; cases second)
     (use assms in \<open>auto simp: half_symbol_def half_state_def clock_defs symbol_state_def advanced_def\<close>)

lemma half_end:
  assumes "h + 1 = n div 2" "p < n"
  shows "sends c n (half_symbol w ws k second lv False h fs p) [lv \<noteq> second]
    (half_symbol w ws k second lv True 0 fs (advanced n fs p 1))"
  by (rule sends_step; cases lv; cases second)
     (use assms in \<open>auto simp: half_symbol_def half_state_def clock_defs symbol_state_def advanced_def\<close>)

lemma half_next:
  assumes "1 < n div 2" "p < n"
  shows "sends c n (half_symbol w ws k False lv True 0 fs p) [lv]
    (half_symbol w ws k True lv False 1 fs (advanced n fs p 1))"
  by (rule sends_step; cases lv)
     (use assms in \<open>auto simp: half_symbol_def half_state_def clock_defs symbol_state_def advanced_def\<close>)

lemma half_exit:
  assumes "1 < n div 2" "p + 1 < n" "advanced n fs p 1 \<le> 3" "fs \<longrightarrow> 1 \<le> p + 1 \<and> p + 1 \<le> 2"
  shows "sends c n (half_symbol w ws k True lv True 0 fs p) [\<not> lv] (bit_ends w ws k lv)"
proof (rule sends_step)
  fix s assume "half_symbol w ws k True lv True 0 fs p s"
  then show "enc_out (enc (transmitter_clock c n s)) = (\<not> lv) \<and> bit_ends w ws k lv (transmitter_clock c n s) \<and>
      \<not> enc_finished (enc s)"
    using assms
    by (cases lv; cases fs; cases "k + 1 < mask_value w"; cases "data_bit w (k + 1)")
       (simp_all add: full_symbol_def half_symbol_def half_state_def bit_ends_def bit_starts_def
          package_ends_def clock_defs symbol_state_def after_bit_def advanced_def)
qed

lemma full_sent:
  assumes "p \<le> 3" "3 < n" "h \<le> 1"
  shows "sends c n (full_symbol w ws k lv h p) (replicate (n - p + 1) lv) (bit_ends w ws k (\<not> lv))"
proof -
  have 1: "sends c n (full_symbol w ws k lv h p) (replicate (n - p - 1) lv) (full_symbol w ws k lv h (p + (n - p - 1)))"
    by (rule sends_replicate, rule full_step) simp
  have "sends c n (full_symbol w ws k lv h p) (replicate (n - p - 1) lv @ [lv] @ [lv]) (bit_ends w ws k (\<not> lv))"
    by (rule sends_seq[OF 1 sends_seq[OF full_end full_exit]]) (use assms in auto)
  moreover have "n - p + 1 = n - p - 1 + 2" using assms by simp
  ultimately show ?thesis by (simp only: replicate_add) (simp add: numeral_2_eq_2)
qed

lemma advanced_simps:
  "p < n \<Longrightarrow> advanced n fs p 0 = p"
  "advanced n fs (advanced n fs p i) j = advanced n fs p (i + j)"
  "p < n \<Longrightarrow> advanced n fs p i < n"
  by (auto simp: advanced_def add.assoc mod_add_left_eq)

lemma half_run:
  assumes "h + m < n div 2" "p < n"
  shows "sends c n (half_symbol w ws k second lv False h fs p) (replicate m (lv \<noteq> second))
    (half_symbol w ws k second lv False (h + m) fs (advanced n fs p m))"
proof -
  let ?P = "\<lambda>j. half_symbol w ws k second lv False (h + j) fs (advanced n fs p j)"
  have "sends c n (?P 0) (replicate m (lv \<noteq> second)) (?P (0 + m))"
  proof (rule sends_replicate)
    fix j assume "j < m"
    then show "sends c n (?P (0 + j)) [lv \<noteq> second] (?P (0 + j + 1))"
      using half_step[of "h + j" n "advanced n fs p j" c w ws k second lv fs] assms by (simp add: advanced_simps)
  qed
  then show ?thesis using assms by (simp add: advanced_simps)
qed

lemma half_sent:
  assumes n: "even n" "6 < n" and h: "h \<le> 1" and p: "p \<le> 3" "fs \<longrightarrow> 1 \<le> p \<and> p \<le> h + 1"
  shows "sends c n (half_symbol w ws k False lv False h fs p) (replicate (n div 2 - h + 1) lv @ replicate (n div 2) (\<not> lv))
    (bit_ends w ws k lv)"
proof -
  let ?m = "n div 2 - h - 1" and ?a = "advanced n fs p"
  have b: "h + ?m < n div 2" "h + ?m + 1 = n div 2" "1 < n div 2" "p < n" "Suc (Suc (n div 2 - 2)) = n div 2"
    using assms by auto
  have m: "?m + 2 + (n div 2 - 2) + 1 = n - h" using n h by (auto elim!: evenE)
  have 1: "sends c n (half_symbol w ws k False lv False h fs p) (replicate ?m lv)
      (half_symbol w ws k False lv False (h + ?m) fs (?a ?m))"
    using half_run[of h ?m n p c w ws k False lv fs] b by simp
  have 2: "sends c n (half_symbol w ws k False lv False (h + ?m) fs (?a ?m)) [lv] (half_symbol w ws k False lv True 0 fs (?a (?m + 1)))"
    using half_end[of "h + ?m" n "?a ?m" c w ws k False lv fs] b by (simp add: advanced_simps)
  have 3: "sends c n (half_symbol w ws k False lv True 0 fs (?a (?m + 1))) [lv] (half_symbol w ws k True lv False 1 fs (?a (?m + 2)))"
    using half_next[of n "?a (?m + 1)" c w ws k lv fs] b by (simp add: advanced_simps)
  have 4: "sends c n (half_symbol w ws k True lv False 1 fs (?a (?m + 2))) (replicate (n div 2 - 2) (\<not> lv))
      (half_symbol w ws k True lv False (1 + (n div 2 - 2)) fs (?a (?m + 2 + (n div 2 - 2))))"
    using half_run[of 1 "n div 2 - 2" n "?a (?m + 2)" c w ws k True lv fs] b by (simp add: advanced_simps)
  have 5: "sends c n (half_symbol w ws k True lv False (1 + (n div 2 - 2)) fs (?a (?m + 2 + (n div 2 - 2)))) [\<not> lv]
      (half_symbol w ws k True lv True 0 fs (?a (n - h)))"
    using half_end[of "1 + (n div 2 - 2)" n "?a (?m + 2 + (n div 2 - 2))" c w ws k True lv fs] b m
    by (simp add: advanced_simps)
  have a: "?a (n - h) = (if fs then p - h else p)"
  proof (cases fs)
    case True
    then have "p + (n - h) = p - h + n" using p n h by auto
    moreover have "p - h < n" using b by simp
    ultimately show ?thesis using True by (simp add: advanced_def)
  qed (simp add: advanced_def)
  have 6: "sends c n (half_symbol w ws k True lv True 0 fs (?a (n - h))) [\<not> lv] (bit_ends w ws k lv)"
    unfolding a by (rule half_exit) (use n h p b in \<open>auto simp: advanced_def\<close>)
  have "sends c n (half_symbol w ws k False lv False h fs p)
      (replicate ?m lv @ [lv] @ [lv] @ replicate (n div 2 - 2) (\<not> lv) @ [\<not> lv] @ [\<not> lv]) (bit_ends w ws k lv)"
    by (rule sends_seq[OF 1 sends_seq[OF 2 sends_seq[OF 3 sends_seq[OF 4 sends_seq[OF 5 6]]]]])
  moreover have "n div 2 - h + 1 = ?m + 2" "n div 2 = n div 2 - 2 + 2" using b h by auto
  then have "replicate (n div 2 - h + 1) lv = replicate ?m lv @ [lv, lv]"
    "replicate (n div 2) (\<not> lv) = replicate (n div 2 - 2) (\<not> lv) @ [\<not> lv, \<not> lv]"
    by (metis replicate_add numeral_2_eq_2 replicate_Suc replicate_0)+
  ultimately show ?thesis by simp
qed

section \<open>Between packages\<close>

text \<open>The sender idles with the level \<open>\<not> lv\<close> on the line; the timers stand where the last bit left them.\<close>

definition pausing :: "cint list \<Rightarrow> bool \<Rightarrow> encoder_controller_state \<Rightarrow> bool \<Rightarrow> bool \<Rightarrow> transmitter \<Rightarrow> bool" where
  "pausing q lv ctl start req s \<longleftrightarrow> words s = q \<and> enc_controller (enc s) = ctl \<and> state_sender (enc s) = S_wait \<and>
     data_sender_start (enc s) = start \<and> request_new_data (enc s) = req \<and>
     \<not> half_tari_start (enc s) \<and> \<not> full_tari_start (enc s) \<and> half_count (enc s) \<le> 1 \<and> full_count (enc s) \<le> 3 \<and>
     enc_out (enc s) = (\<not> lv) \<and>
     last_state_bit (enc s) \<in> (if lv then {S_send_s2, S_send_s4} else {S_send_s1, S_send_s3})"

definition no_pause_timer :: "transmitter \<Rightarrow> bool" where
  "no_pause_timer s \<longleftrightarrow> \<not> tari_CS_start (enc s) \<and> CS_count (enc s) \<le> 1 \<and> \<not> enc_finished (enc s)"

definition ending :: "bool \<Rightarrow> transmitter \<Rightarrow> bool" where
  "ending b s \<longleftrightarrow> data_sender_end (enc s) = b \<and> no_pause_timer s"

lemmas pause_defs = pausing_def ending_def no_pause_timer_def clock_defs

text \<open>After the last bit of a package four cycles pass until the next word is seen.\<close>

lemma package_left:
  assumes "w \<noteq> 0" "3 < n"
  shows "sends c n (package_ends w (w' # ws) lv) (replicate 4 (\<not> lv))
    (\<lambda>s. pausing (w' # ws) lv E_start_send False False s \<and> ending False s)"
proof -
  let ?P = "\<lambda>q ctl req e s. pausing q lv ctl False req s \<and> ending e s"
  have 1: "sends c n (package_ends w (w' # ws) lv) [\<not> lv] (?P (w # w' # ws) E_wait_send False True)"
    by (rule sends_step; cases lv) (use assms in \<open>auto simp: package_ends_def pause_defs\<close>)
  have 2: "sends c n (?P (w # w' # ws) E_wait_send False True) [\<not> lv] (?P (w # w' # ws) E_request False False)"
    by (rule sends_step) (use assms in \<open>simp add: pause_defs\<close>)
  have 3: "sends c n (?P (w # w' # ws) E_request False False) [\<not> lv] (?P (w # w' # ws) E_wait_request True False)"
    by (rule sends_step) (use assms in \<open>simp add: pause_defs\<close>)
  have 4: "sends c n (?P (w # w' # ws) E_wait_request True False) [\<not> lv] (?P (w' # ws) E_start_send False False)"
    by (rule sends_step) (use assms in \<open>simp add: pause_defs\<close>)
  show ?thesis using sends_seq[OF 1 sends_seq[OF 2 sends_seq[OF 3 4]]] by (simp add: eval_nat_numeral)
qed

text \<open>Two more until its first bit begins.\<close>

lemma package_begins:
  assumes "w \<noteq> 0" "3 < n"
  shows "sends c n (\<lambda>s. pausing (w # ws) lv E_start_send False False s \<and> ending False s) [\<not> lv, \<not> lv] (bit_starts w ws 0 lv)"
proof -
  let ?P = "\<lambda>s. pausing (w # ws) lv E_wait_send True False s \<and> ending False s"
  have 1: "sends c n (\<lambda>s. pausing (w # ws) lv E_start_send False False s \<and> ending False s) [\<not> lv] ?P"
    by (rule sends_step) (use assms in \<open>simp add: pause_defs\<close>)
  have 2: "sends c n ?P [\<not> lv] (bit_starts w ws 0 lv)"
  proof (rule sends_step)
    fix s assume P: "?P s"
    then have "last_state_bit (enc s) \<in> (if lv then {S_send_s2, S_send_s4} else {S_send_s1, S_send_s3})"
      by (simp add: pausing_def)
    with P show "enc_out (enc (transmitter_clock c n s)) = (\<not> lv) \<and> bit_starts w ws 0 lv (transmitter_clock c n s) \<and>
        \<not> enc_finished (enc s)"
      using assms
      by (cases lv; cases "data_bit w 0")
         (auto simp: bit_starts_def full_symbol_def half_symbol_def half_state_def first_bit_def symbol_state_def pause_defs)
  qed
  show ?thesis using sends_seq[OF 1 2] by simp
qed

text \<open>Ready for a command: \<open>q\<close> waits in the FIFO.\<close>

definition transmitter_ready :: "cint list \<Rightarrow> transmitter \<Rightarrow> bool" where
  "transmitter_ready q s \<longleftrightarrow> pausing q True E_wait False False s \<and> \<not> tari_CS_start (enc s) \<and> CS_count (enc s) \<le> 1"

lemma command_begins:
  assumes "w \<noteq> 0" "3 < n"
  shows "sends c n (\<lambda>s. transmitter_ready (w # ws) s \<and> \<not> enc_finished (enc s)) [False, False, False]
    (bit_starts w ws 0 True)"
proof -
  have 1: "sends c n (\<lambda>s. transmitter_ready (w # ws) s \<and> \<not> enc_finished (enc s)) [False] (\<lambda>s. pausing (w # ws) True E_start_send False False s \<and> ending False s)"
    by (rule sends_step) (use assms in \<open>simp add: transmitter_ready_def pause_defs\<close>)
  show ?thesis using sends_seq[OF 1 package_begins[OF assms, of c ws True]] by simp
qed

text \<open>The void word: the line goes low and stays low for about two tari and five cycles.\<close>

definition in_pause :: "nat \<Rightarrow> transmitter \<Rightarrow> bool" where
  "in_pause k s \<longleftrightarrow> pausing [] True E_wait_tari_CS False False s \<and> tari_CS_start (enc s) \<and> CS_count (enc s) = k \<and>
     \<not> tari_CS_end (enc s) \<and> \<not> enc_finished (enc s)"

lemma pause_counts:
  assumes "k + m < n + n"
  shows "sends c n (in_pause k) (replicate m False) (in_pause (k + m))"
proof (rule sends_replicate)
  fix j assume "j < m"
  then show "sends c n (in_pause (k + j)) [False] (in_pause (k + j + 1))"
    using assms by (intro sends_step) (auto simp: in_pause_def pause_defs)
qed

lemma command_ends:
  assumes "3 < n" "k \<le> 1"
  shows "sends c n (\<lambda>s. pausing [0] lv E_start_send False False s \<and> ending False s \<and> CS_count (enc s) = k)
    (replicate (n + n + 5 - k) False) (\<lambda>s. transmitter_ready [] s \<and> enc_finished (enc s))"
proof -
  let ?P = "\<lambda>ctl start req s. pausing [0] True ctl start req s \<and> ending True s \<and> CS_count (enc s) = k"
  have 1: "sends c n (\<lambda>s. pausing [0] lv E_start_send False False s \<and> ending False s \<and> CS_count (enc s) = k) [False]
      (?P E_wait_send True False)"
    by (rule sends_step) (use assms in \<open>simp add: pause_defs\<close>)
  have 2: "sends c n (?P E_wait_send True False) [False] (?P E_request False False)"
    by (rule sends_step) (use assms in \<open>simp add: pause_defs\<close>)
  have 3: "sends c n (?P E_request False False) [False] (?P E_wait_request False True)"
    by (rule sends_step) (use assms in \<open>simp add: pause_defs\<close>)
  have 4: "sends c n (?P E_wait_request False True) [False] (in_pause k)"
    by (rule sends_step) (use assms in \<open>simp add: pause_defs in_pause_def\<close>)
  have 5: "sends c n (in_pause k) (replicate (n + n - 1 - k) False) (in_pause (n + n - 1))"
    using pause_counts[of k "n + n - 1 - k" n c] assms by simp
  let ?E = "\<lambda>s. pausing [] True E_wait_tari_CS False False s \<and> tari_CS_start (enc s) \<and> CS_count (enc s) = 0 \<and> tari_CS_end (enc s) \<and>
    \<not> enc_finished (enc s)"
  have 6: "sends c n (in_pause (n + n - 1)) [False] ?E"
    by (rule sends_step) (use assms in \<open>auto simp: in_pause_def pause_defs\<close>)
  have 7: "sends c n ?E [False] (\<lambda>s. transmitter_ready [] s \<and> enc_finished (enc s))"
    by (rule sends_step) (use assms in \<open>auto simp: transmitter_ready_def pause_defs\<close>)
  have "n + n + 5 - k = 4 + (n + n - 1 - k) + 2" using assms by simp
  then have "replicate (n + n + 5 - k) False = [False, False, False, False] @ replicate (n + n - 1 - k) False @ [False, False]"
    by (simp only: replicate_add append_assoc) (simp add: eval_nat_numeral)
  then show ?thesis
    using sends_seq[OF 1 sends_seq[OF 2 sends_seq[OF 3 sends_seq[OF 4 sends_seq[OF 5 sends_seq[OF 6 7]]]]]] by simp
qed

section \<open>A whole command\<close>

definition yields :: "cint \<Rightarrow> nat \<Rightarrow> transmitter \<Rightarrow> bool list \<Rightarrow> transmitter \<Rightarrow> bool" where
  "yields c n s w t \<longleftrightarrow> transmit c n (length w) s = (w, t) \<and> busy c n (length w) s"

lemma yields_append: "yields c n s v t \<Longrightarrow> yields c n t w u \<Longrightarrow> yields c n s (v @ w) u"
  by (simp add: yields_def transmit_add busy_add)

lemma sends_yields:
  assumes "sends c n P w Q" "P s"
  obtains t where "yields c n s w t" "Q t"
  using assms by (simp add: sends_def yields_def) (metis prod.collapse)

text \<open>How far the length of a symbol may be from \<open>n\<close> cycles.\<close>

fun near :: "nat \<Rightarrow> nat \<Rightarrow> symbol \<Rightarrow> bool" where
  "near n e (One m) \<longleftrightarrow> n \<le> m + 2 \<and> m \<le> n + 1 + e"
| "near n e (Zero a b) \<longleftrightarrow> n div 2 \<le> a \<and> a \<le> n div 2 + 1 \<and> n div 2 \<le> b \<and> b \<le> n div 2 + e"

lemma near_mono: "near n e x \<Longrightarrow> e \<le> e' \<Longrightarrow> near n e' x"
  by (cases x) auto

lemma bit_sent:
  assumes "bit_starts w ws k lv s" "even n" "6 < n"
  obtains x t where "yields c n s (wave lv [x]) t" "symbol_bit x = data_bit w k" "near n 0 x"
    "bit_ends w ws k (level_after lv [x]) t"
proof (cases "data_bit w k")
  case True
  then have full: "full_symbol w ws k lv (half_count (enc s)) (full_count (enc s)) s"
    and p: "half_count (enc s) \<le> 1" "full_count (enc s) \<le> 3"
    using assms(1) by (auto simp: bit_starts_def Let_def)
  then obtain t where "yields c n s (replicate (n - full_count (enc s) + 1) lv) t" "bit_ends w ws k (\<not> lv) t"
    using sends_yields[OF full_sent[OF p(2) _ p(1)] full, of n c] assms(3) by auto
  then show ?thesis using that[of "One (n - full_count (enc s) + 1)" t] True p assms by simp
next
  case False
  then have half: "half_symbol w ws k False lv False (half_count (enc s)) (full_tari_start (enc s)) (full_count (enc s)) s"
    and p: "half_count (enc s) \<le> 1" "full_count (enc s) \<le> 3"
    "full_tari_start (enc s) \<longrightarrow> 1 \<le> full_count (enc s) \<and> full_count (enc s) \<le> half_count (enc s) + 1"
    using assms(1) by (auto simp: bit_starts_def Let_def)
  obtain t where "yields c n s (replicate (n div 2 - half_count (enc s) + 1) lv @ replicate (n div 2) (\<not> lv)) t"
    "bit_ends w ws k lv t"
    using sends_yields[OF half_sent[OF assms(2,3) p] half] .
  then show ?thesis using that[of "Zero (n div 2 - half_count (enc s) + 1) (n div 2)" t] False p assms by auto
qed

lemma wave_append: "wave lv (xs @ ys) = wave lv xs @ wave (level_after lv xs) ys"
  by (induction lv xs rule: wave.induct) simp_all

lemma level_after_append: "level_after lv (xs @ ys) = level_after (level_after lv xs) ys"
  by (induction lv xs rule: level_after.induct) simp_all

lemma package_sent:
  assumes "bit_starts w ws k lv s" "k < max 1 (mask_value w)" "even n" "6 < n"
  shows "\<exists>xs t. yields c n s (wave lv xs) t \<and> map symbol_bit xs = map (data_bit w) [k..<max 1 (mask_value w)] \<and>
    list_all (near n 0) xs \<and> xs \<noteq> [] \<and> package_ends w ws (level_after lv xs) t"
  using assms(1,2)
proof (induction "mask_value w - k" arbitrary: k lv s rule: less_induct)
  case less
  obtain x u where x: "yields c n s (wave lv [x]) u" "symbol_bit x = data_bit w k" "near n 0 x"
    "bit_ends w ws k (level_after lv [x]) u"
    using bit_sent[OF less.prems(1) assms(3,4)] .
  show ?case
  proof (cases "k + 1 < mask_value w")
    case True
    then have "bit_starts w ws (k + 1) (level_after lv [x]) u" using x(4) by (simp add: bit_ends_def)
    moreover have "mask_value w - (k + 1) < mask_value w - k" "k + 1 < max 1 (mask_value w)" using True by simp_all
    ultimately obtain xs t where xs: "yields c n u (wave (level_after lv [x]) xs) t" "list_all (near n 0) xs"
      "map symbol_bit xs = map (data_bit w) [k + 1..<max 1 (mask_value w)]"
      "package_ends w ws (level_after (level_after lv [x]) xs) t"
      using less.hyps by blast
    have "[k..<max 1 (mask_value w)] = k # [k + 1..<max 1 (mask_value w)]"
      using less.prems(2) by (simp add: upt_conv_Cons)
    then have "map symbol_bit (x # xs) = map (data_bit w) [k..<max 1 (mask_value w)]" using x(2) xs(3) by simp
    moreover have "yields c n s (wave lv (x # xs)) t"
      using yields_append[OF x(1) xs(1)] wave_append[of lv "[x]" xs] by simp
    moreover have "package_ends w ws (level_after lv (x # xs)) t"
      using xs(4) level_after_append[of lv "[x]" xs] by simp
    ultimately show ?thesis using x(3) xs(2) by (intro exI[of _ "x # xs"] exI[of _ t]) simp
  next
    case False
    then have "[k..<max 1 (mask_value w)] = [k]" using less.prems(2) by (simp add: upt_conv_Cons)
    then show ?thesis using x False by (intro exI[of _ "[x]"] exI[of _ u]) (simp add: bit_ends_def)
  qed
qed

text \<open>The pause after a package only makes its last symbol longer.\<close>

lemma extended:
  assumes "xs \<noteq> []" "list_all (near n e) xs"
  obtains ys where "wave lv ys = wave lv xs @ replicate d (\<not> level_after lv xs)" "map symbol_bit ys = map symbol_bit xs"
    "level_after lv ys = level_after lv xs" "list_all (near n (e + d)) ys" "ys \<noteq> []"
proof -
  obtain zs x where xs: "xs = zs @ [x]" using assms(1) by (cases xs rule: rev_cases) auto
  define y where "y = (case x of One m \<Rightarrow> One (m + d) | Zero a b \<Rightarrow> Zero a (b + d))"
  have "list_all (near n (e + d)) zs" using assms(2) xs near_mono by (auto simp: list_all_iff)
  then show ?thesis
    using that[of "zs @ [y]"] assms(2) xs
    by (cases x) (simp_all add: y_def wave_append level_after_append replicate_add)
qed

lemma package_bits_data: "package_bits w = map (data_bit w) [0..<max 1 (mask_value w)]"
  by (simp add: package_bits_def data_bit_def mask_value_def)

lemma whole_package_sent:
  assumes "bit_starts w ws 0 lv s" "even n" "6 < n"
  obtains xs t where "yields c n s (wave lv xs) t" "map symbol_bit xs = package_bits w" "list_all (near n 0) xs"
    "xs \<noteq> []" "package_ends w ws (level_after lv xs) t"
proof -
  have "0 < max 1 (mask_value w)" by (simp add: less_max_iff_disj)
  from package_sent[OF assms(1) this assms(2,3), of c] show ?thesis
    unfolding package_bits_data[symmetric] using that by blast
qed

text \<open>All packages up to the void word, and the four cycles after the last bit.\<close>

lemma packages_sent:
  assumes "bit_starts w (ws @ [0]) 0 lv s" "0 \<notin> set (w # ws)" "even n" "6 < n"
  shows "\<exists>xs t. yields c n s (wave lv xs) t \<and> map symbol_bit xs = concat (map package_bits (w # ws)) \<and>
    list_all (near n 6) xs \<and> xs \<noteq> [] \<and> pausing [0] (level_after lv xs) E_start_send False False t \<and> ending False t"
  using assms(1,2)
proof (induction ws arbitrary: w lv s)
  case Nil
  obtain xs u where xs: "yields c n s (wave lv xs) u" "map symbol_bit xs = package_bits w" "list_all (near n 0) xs"
    "xs \<noteq> []" "package_ends w [0] (level_after lv xs) u"
    using whole_package_sent[OF Nil.prems(1)[simplified] assms(3,4)] .
  obtain t where t: "yields c n u (replicate 4 (\<not> level_after lv xs)) t"
    "pausing [0] (level_after lv xs) E_start_send False False t \<and> ending False t"
    using sends_yields[OF package_left xs(5), of n c] Nil.prems(2) assms(4) by auto
  obtain ys where "wave lv ys = wave lv xs @ replicate 4 (\<not> level_after lv xs)" "map symbol_bit ys = map symbol_bit xs"
    "level_after lv ys = level_after lv xs" "list_all (near n (0 + 4)) ys" "ys \<noteq> []"
    using extended[OF xs(4,3)] by blast
  then show ?case
    using yields_append[OF xs(1) t(1)] xs(2) t(2)
    by (intro exI[of _ ys] exI[of _ t]) (auto simp: list_all_iff intro: near_mono)
next
  case (Cons w' ws)
  obtain xs u where xs: "yields c n s (wave lv xs) u" "map symbol_bit xs = package_bits w" "list_all (near n 0) xs"
    "xs \<noteq> []" "package_ends w (w' # ws @ [0]) (level_after lv xs) u"
    using whole_package_sent[OF Cons.prems(1)[simplified] assms(3,4)] .
  have "sends c n (package_ends w (w' # ws @ [0]) (level_after lv xs))
      (replicate 4 (\<not> level_after lv xs) @ [\<not> level_after lv xs, \<not> level_after lv xs])
      (bit_starts w' (ws @ [0]) 0 (level_after lv xs))"
    by (rule sends_seq[OF package_left package_begins]) (use Cons.prems(2) assms(4) in auto)
  then obtain t where t: "yields c n u (replicate 6 (\<not> level_after lv xs)) t" "bit_starts w' (ws @ [0]) 0 (level_after lv xs) t"
    using xs(5) by (auto simp: eval_nat_numeral elim!: sends_yields)
  obtain ys where ys: "wave lv ys = wave lv xs @ replicate 6 (\<not> level_after lv xs)" "map symbol_bit ys = map symbol_bit xs"
    "level_after lv ys = level_after lv xs" "list_all (near n (0 + 6)) ys" "ys \<noteq> []"
    using extended[OF xs(4,3)] by blast
  obtain zs v where "yields c n t (wave (level_after lv xs) zs) v"
    "map symbol_bit zs = concat (map package_bits (w' # ws))" "list_all (near n 6) zs"
    "pausing [0] (level_after (level_after lv xs) zs) E_start_send False False v" "ending False v"
    using Cons.IH[OF t(2)] Cons.prems(2) by auto
  then show ?case
    using yields_append[OF yields_append[OF xs(1) t(1)]] ys xs(2)
    by (intro exI[of _ "ys @ zs"] exI[of _ v]) (simp add: wave_append level_after_append)
qed

theorem encoder_sends:
  assumes "transmitter_ready (ps @ [0]) s" "\<not> enc_finished (enc s)" "ps \<noteq> []" "0 \<notin> set ps" "even n" "6 < n"
  shows "\<exists>xs g t. yields c n s ([False, False, False] @ wave True xs @ replicate g False) t \<and>
    transmitter_ready [] t \<and> enc_finished (enc t) \<and> map symbol_bit xs = concat (map package_bits ps) \<and>
    list_all (near n 6) xs \<and> n + n + 4 \<le> g"
proof -
  obtain w ws where ps: "ps = w # ws" using assms(3) by (cases ps) auto
  obtain u where u: "yields c n s [False, False, False] u" "bit_starts w (ws @ [0]) 0 True u"
    using sends_yields[OF command_begins, of w n "ws @ [0]" s c] assms ps by auto
  obtain xs v where xs: "yields c n u (wave True xs) v" "map symbol_bit xs = concat (map package_bits ps)"
    "list_all (near n 6) xs" "pausing [0] (level_after True xs) E_start_send False False v" "ending False v"
    using packages_sent[OF u(2) _ assms(5,6), of c] assms(4) ps by blast
  let ?k = "CS_count (enc v)"
  have k: "?k \<le> 1" "3 < n" using xs(5) assms(6) by (simp_all add: ending_def no_pause_timer_def)
  obtain t where "yields c n v (replicate (n + n + 5 - ?k) False) t" "transmitter_ready [] t \<and> enc_finished (enc t)"
    using sends_yields[OF command_ends[OF k(2,1), of c "level_after True xs"]] xs(4,5) by blast
  then show ?thesis
    using yields_append[OF u(1) yields_append[OF xs(1)]] xs(2,3) k
    by (intro exI[of _ xs] exI[of _ "n + n + 5 - ?k"] exI[of _ t]) auto
qed

end
