(* ===== verification/Generator.thy ===== *)
theory Generator
  imports CBase
begin

text \<open>
  signal_generator.vhd clock cycle by clock cycle, enabled and out of reset: the delimiter and the
  calibration pulses in front of a command, a preamble or a frame-sync.
\<close>

section \<open>The state machine\<close>

datatype generator_state =
  G_wait | G_delimiter | G_data0 | G_data0_PW | G_RTcal | G_RTcal_PW | G_TRcal | G_TRcal_PW

record generator =
  state_generator :: generator_state
  gen_counter :: nat
  gen_out :: bool
  gen_ended :: bool
  gen_error :: bool

text \<open>
  The counter is a variable of the range 0 to 2000.  Counting beyond 2000 is an error of the run: a
  simulation stops there, and a synthesised counter holds nothing that the source fixes.  The model
  records it in \<open>gen_error\<close>, and a generator with an error does nothing any more.
\<close>

definition COUNTER_HIGH :: nat where "COUNTER_HIGH = 2000"

text \<open>The five times, as \<open>to_integer\<close> gives them.\<close>

record times =
  tari_time :: u16
  pw_time :: u16
  delimiter_time :: u16
  RTcal_time :: u16
  TRcal_time :: u16

text \<open>One clock of a pulse: at the limit on to the next state.  The limits are \<open>x - pw\<close>, compared as integers:
  one below 0 is never met.\<close>

definition pulse :: "bool \<Rightarrow> bool \<Rightarrow> generator_state \<Rightarrow> generator \<Rightarrow> generator" where
  "pulse level met st g =
     (if met then g\<lparr>gen_out := level, gen_counter := 0, state_generator := st\<rparr>
      else if gen_counter g < COUNTER_HIGH then g\<lparr>gen_out := level, gen_counter := gen_counter g + 1\<rparr>
      else g\<lparr>gen_error := True\<rparr>)"

definition limit_met :: "u16 \<Rightarrow> u16 \<Rightarrow> generator \<Rightarrow> bool" where
  "limit_met x pw g \<longleftrightarrow> gen_counter g + unat pw = unat x"

definition generator_clock :: "times \<Rightarrow> bool \<Rightarrow> bool \<Rightarrow> generator \<Rightarrow> generator" where
  "generator_clock t start_send is_preamble g =
     (if gen_error g then g
      else case state_generator g of
        G_wait \<Rightarrow>
          (let g = g\<lparr>gen_counter := 0, gen_out := False, gen_ended := False\<rparr>
           in if start_send then g\<lparr>state_generator := G_delimiter\<rparr> else g)
      | G_delimiter \<Rightarrow> pulse False (limit_met (delimiter_time t) 0 g) G_data0 g
      | G_data0 \<Rightarrow> pulse True (limit_met (tari_time t) (pw_time t) g) G_data0_PW g
      | G_data0_PW \<Rightarrow> pulse False (limit_met (pw_time t) 0 g) G_RTcal g
      | G_RTcal \<Rightarrow> pulse True (limit_met (RTcal_time t) (pw_time t) g) G_RTcal_PW g
      | G_RTcal_PW \<Rightarrow>
          (let met = limit_met (pw_time t) 0 g
           in if is_preamble then pulse False met G_TRcal g
              else (pulse False met G_wait g)\<lparr>gen_ended := gen_ended g \<or> met\<rparr>)
      | G_TRcal \<Rightarrow> pulse True (limit_met (TRcal_time t) (pw_time t) g) G_TRcal_PW g
      | G_TRcal_PW \<Rightarrow>
          (let met = limit_met (pw_time t) 0 g
           in (pulse False met G_wait g)\<lparr>gen_ended := gen_ended g \<or> met\<rparr>))"

fun generate :: "times \<Rightarrow> bool \<Rightarrow> nat \<Rightarrow> generator \<Rightarrow> bool list \<times> generator" where
  "generate t is_preamble 0 g = ([], g)"
| "generate t is_preamble (Suc n) g =
     (let g = generator_clock t False is_preamble g; (w, g') = generate t is_preamble n g in (gen_out g # w, g'))"

section \<open>The wave\<close>

text \<open>Every pulse lasts one clock cycle longer than its time.\<close>

definition generator_wave :: "times \<Rightarrow> bool \<Rightarrow> bool list" where
  "generator_wave t is_preamble =
     (let d = unat (delimiter_time t); pw = unat (pw_time t);
          high = (\<lambda>x. replicate (unat x - pw + 1) True @ replicate (pw + 1) False)
      in replicate (d + 1) False @ high (tari_time t) @ high (RTcal_time t) @
         (if is_preamble then high (TRcal_time t) else []))"

definition at_pulse :: "generator_state \<Rightarrow> nat \<Rightarrow> generator \<Rightarrow> bool" where
  "at_pulse st k g \<longleftrightarrow> state_generator g = st \<and> gen_counter g = k \<and> \<not> gen_ended g \<and> \<not> gen_error g"

definition produces :: "times \<Rightarrow> bool \<Rightarrow> (generator \<Rightarrow> bool) \<Rightarrow> bool list \<Rightarrow> (generator \<Rightarrow> bool) \<Rightarrow> bool" where
  "produces t p P w Q \<longleftrightarrow> (\<forall>g. P g \<longrightarrow> fst (generate t p (length w) g) = w \<and> Q (snd (generate t p (length w) g)))"

lemma generate_add:
  "generate t p (j + k) g =
     (fst (generate t p j g) @ fst (generate t p k (snd (generate t p j g))), snd (generate t p k (snd (generate t p j g))))"
  by (induction j arbitrary: g) (simp_all add: Let_def split: prod.split)

lemma produces_seq: "produces t p P v Q \<Longrightarrow> produces t p Q w R \<Longrightarrow> produces t p P (v @ w) R"
  by (simp add: produces_def generate_add)

lemma produces_step:
  "(\<And>g. P g \<Longrightarrow> gen_out (generator_clock t False p g) = x \<and> Q (generator_clock t False p g)) \<Longrightarrow> produces t p P [x] Q"
  by (simp add: produces_def Let_def)

text \<open>A pulse that ends at the limit \<open>m\<close>.\<close>

lemma produces_pulse:
  assumes "\<And>k. k < m \<Longrightarrow> produces t p (at_pulse st k) [x] (at_pulse st (k + 1))"
    and "produces t p (at_pulse st m) [x] Q"
  shows "produces t p (at_pulse st 0) (replicate (m + 1) x) Q"
proof -
  have "produces t p (at_pulse st 0) (replicate k x) (at_pulse st k)" if "k \<le> m" for k
    using that
  proof (induction k)
    case 0
    then show ?case by (simp add: produces_def)
  next
    case (Suc k)
    then have "produces t p (at_pulse st 0) (replicate k x @ [x]) (at_pulse st (k + 1))"
      by (intro produces_seq[OF Suc.IH assms(1)]) simp_all
    then show ?case by (simp flip: replicate_append_same)
  qed
  then have "produces t p (at_pulse st 0) (replicate m x @ [x]) Q" using assms(2) by (intro produces_seq) auto
  then show ?thesis by (simp add: replicate_append_same)
qed

lemma limit_met_iff:
  "limit_met x 0 g \<longleftrightarrow> gen_counter g = unat x"
  "pw \<le> x \<Longrightarrow> limit_met x pw g \<longleftrightarrow> gen_counter g = unat x - unat pw"
  unfolding limit_met_def word_le_nat_alt by auto

lemmas pulse_defs = at_pulse_def generator_clock_def pulse_def COUNTER_HIGH_def Let_def

text \<open>No limit beyond the range of the counter.\<close>

definition times_in_range :: "times \<Rightarrow> bool \<Rightarrow> bool" where
  "times_in_range t is_preamble \<longleftrightarrow>
     unat (delimiter_time t) \<le> 2000 \<and> unat (pw_time t) \<le> 2000 \<and>
     unat (tari_time t) - unat (pw_time t) \<le> 2000 \<and> unat (RTcal_time t) - unat (pw_time t) \<le> 2000 \<and>
     (is_preamble \<longrightarrow> unat (TRcal_time t) - unat (pw_time t) \<le> 2000)"

lemma delimiter_sent:
  assumes "unat (delimiter_time t) \<le> 2000"
  shows "produces t p (at_pulse G_delimiter 0) (replicate (unat (delimiter_time t) + 1) False) (at_pulse G_data0 0)"
  by (rule produces_pulse; rule produces_step; use assms in \<open>simp add: pulse_defs limit_met_iff\<close>)

lemma data0_sent:
  assumes "pw_time t \<le> tari_time t" "unat (tari_time t) - unat (pw_time t) \<le> 2000" "unat (pw_time t) \<le> 2000"
  shows "produces t p (at_pulse G_data0 0)
    (replicate (unat (tari_time t) - unat (pw_time t) + 1) True @ replicate (unat (pw_time t) + 1) False) (at_pulse G_RTcal 0)"
  by (rule produces_seq[of _ _ _ _ "at_pulse G_data0_PW 0"]; rule produces_pulse; rule produces_step)
     (use assms in \<open>simp_all add: pulse_defs limit_met_iff\<close>)

definition generator_done :: "generator \<Rightarrow> bool" where
  "generator_done g \<longleftrightarrow> state_generator g = G_wait \<and> gen_ended g \<and> \<not> gen_error g"

lemma RTcal_high:
  assumes "pw_time t \<le> RTcal_time t" "unat (RTcal_time t) - unat (pw_time t) \<le> 2000"
  shows "produces t p (at_pulse G_RTcal 0) (replicate (unat (RTcal_time t) - unat (pw_time t) + 1) True)
    (at_pulse G_RTcal_PW 0)"
  by (rule produces_pulse; rule produces_step; use assms in \<open>simp add: pulse_defs limit_met_iff\<close>)

lemma RTcal_low:
  assumes "unat (pw_time t) \<le> 2000"
  shows "produces t True (at_pulse G_RTcal_PW 0) (replicate (unat (pw_time t) + 1) False) (at_pulse G_TRcal 0)"
  "produces t False (at_pulse G_RTcal_PW 0) (replicate (unat (pw_time t) + 1) False) generator_done"
  by (rule produces_pulse; rule produces_step; use assms in \<open>simp add: pulse_defs limit_met_iff generator_done_def\<close>)+

lemmas RTcal_sent = produces_seq[OF RTcal_high RTcal_low(1)] produces_seq[OF RTcal_high RTcal_low(2)]

lemma TRcal_sent:
  assumes "pw_time t \<le> TRcal_time t" "unat (TRcal_time t) - unat (pw_time t) \<le> 2000" "unat (pw_time t) \<le> 2000"
  shows "produces t p (at_pulse G_TRcal 0)
    (replicate (unat (TRcal_time t) - unat (pw_time t) + 1) True @ replicate (unat (pw_time t) + 1) False) generator_done"
  by (rule produces_seq[of _ _ _ _ "at_pulse G_TRcal_PW 0"]; rule produces_pulse; rule produces_step)
     (use assms in \<open>simp_all add: pulse_defs limit_met_iff generator_done_def\<close>)

lemma wave_sent:
  assumes "pw_time t \<le> tari_time t" "pw_time t \<le> RTcal_time t" "p \<longrightarrow> pw_time t \<le> TRcal_time t"
    "times_in_range t p"
  shows "produces t p (at_pulse G_delimiter 0) (generator_wave t p) generator_done"
proof (cases p)
  case True
  then show ?thesis
    using produces_seq[OF delimiter_sent produces_seq[OF data0_sent produces_seq[OF RTcal_sent(1) TRcal_sent]], of t] True assms
    by (simp add: generator_wave_def times_in_range_def Let_def)
next
  case False
  then show ?thesis
    using produces_seq[OF delimiter_sent produces_seq[OF data0_sent RTcal_sent(2)], of t] False assms
    by (simp add: generator_wave_def times_in_range_def Let_def)
qed

text \<open>C26. From its waiting state and a start pulse the generator puts a delimiter of low, a 0, an RTcal and, for a
  preamble, a TRcal pulse on the line, each high part \<open>x - pw + 1\<close> and each low part \<open>pw + 1\<close> cycles long, and
  signals the end in the last of these cycles, without an error of its counter.  This holds where no time is below
  \<open>pw\<close> and no part of a pulse is configured longer than the 2000 cycles the counter can count.\<close>

theorem generator_sends_wave:
  assumes "state_generator g = G_wait" "\<not> gen_error g" "times_in_range t p"
    "pw_time t \<le> tari_time t" "pw_time t \<le> RTcal_time t" "p \<longrightarrow> pw_time t \<le> TRcal_time t"
  shows "fst (generate t p (length (generator_wave t p)) (generator_clock t True p g)) = generator_wave t p \<and>
    generator_done (snd (generate t p (length (generator_wave t p)) (generator_clock t True p g)))"
proof -
  have "at_pulse G_delimiter 0 (generator_clock t True p g)"
    using assms(1,2) by (simp add: pulse_defs)
  then show ?thesis using wave_sent[OF assms(4-6,3)] by (simp add: produces_def)
qed

lemma generator_sends_wave_witness:
  "fst (generate \<lparr>tari_time = 5, pw_time = 2, delimiter_time = 4, RTcal_time = 6, TRcal_time = 0\<rparr> False 20
     (generator_clock \<lparr>tari_time = 5, pw_time = 2, delimiter_time = 4, RTcal_time = 6, TRcal_time = 0\<rparr> True False
       \<lparr>state_generator = G_wait, gen_counter = 7, gen_out = True, gen_ended = True, gen_error = False\<rparr>)) =
   replicate 5 False @ replicate 4 True @ replicate 3 False @ replicate 5 True @ replicate 3 False"
proof -
  let ?t = "\<lparr>tari_time = 5, pw_time = 2, delimiter_time = 4, RTcal_time = 6, TRcal_time = 0\<rparr>"
  have "generator_wave ?t False = replicate 5 False @ replicate 4 True @ replicate 3 False @ replicate 5 True @ replicate 3 False"
    by (simp add: generator_wave_def) (simp add: eval_nat_numeral)
  then show ?thesis
    using generator_sends_wave[of "\<lparr>state_generator = G_wait, gen_counter = 7, gen_out = True, gen_ended = True, gen_error = False\<rparr>" ?t False]
    by (simp add: times_in_range_def)
qed

section \<open>The range of the counter\<close>

definition counter_in_range :: "generator \<Rightarrow> bool" where
  "counter_in_range g \<longleftrightarrow> gen_counter g \<le> COUNTER_HIGH"

lemma generator_clock_in_range: "counter_in_range g \<Longrightarrow> counter_in_range (generator_clock t start p g)"
  by (auto simp: counter_in_range_def generator_clock_def pulse_def Let_def split: generator_state.split)

lemma delimiter_counts:
  "k \<le> unat (delimiter_time t) \<Longrightarrow> k \<le> 2000 \<Longrightarrow>
   produces t p (at_pulse G_delimiter 0) (replicate k False) (at_pulse G_delimiter k)"
proof (induction k)
  case 0
  then show ?case by (simp add: produces_def)
next
  case (Suc k)
  then have "produces t p (at_pulse G_delimiter k) [False] (at_pulse G_delimiter (Suc k))"
    by (intro produces_step) (simp add: pulse_defs limit_met_iff)
  with Suc have "produces t p (at_pulse G_delimiter 0) (replicate k False @ [False]) (at_pulse G_delimiter (Suc k))"
    by (intro produces_seq[OF Suc.IH]) simp_all
  then show ?case by (simp flip: replicate_append_same)
qed

text \<open>With a delimiter of more than 2000 clock cycles it runs into the error after 2001 cycles, at the time
  the programs configure (62.5 us at 50 MHz) as well, and nothing of the preamble after it is sent.\<close>

lemma generate_error: "gen_error g \<Longrightarrow> generate t p n g = (replicate n (gen_out g), g)"
  by (induction n) (simp_all add: generator_clock_def)

lemma long_delimiter_out_of_range:
  assumes "state_generator g = G_wait" "\<not> gen_error g" "2000 < unat (delimiter_time t)" "2001 \<le> n"
  shows "gen_error (snd (generate t p n (generator_clock t True p g)))"
proof -
  let ?g = "snd (generate t p 2000 (generator_clock t True p g))"
  have "at_pulse G_delimiter 0 (generator_clock t True p g)"
    using assms(1,2) by (simp add: pulse_defs)
  moreover have "produces t p (at_pulse G_delimiter 0) (replicate 2000 False) (at_pulse G_delimiter 2000)"
    using assms(3) by (intro delimiter_counts) simp_all
  ultimately have at: "at_pulse G_delimiter 2000 ?g" by (simp add: produces_def)
  have "gen_error (generator_clock t False p ?g)"
    using at assms(3) by (simp add: pulse_defs limit_met_iff)
  moreover have "n = 2000 + (1 + (n - 2001))" using assms(4) by simp
  then have "snd (generate t p n (generator_clock t True p g)) = snd (generate t p (1 + (n - 2001)) ?g)"
    by (metis generate_add snd_conv)
  ultimately show ?thesis by (simp add: generate_error Let_def split: prod.split)
qed

end
