(* ===== verification/Fm0_Loop.thy ===== *)
theory Fm0_Loop
  imports Encoder Generator
begin

text \<open>
  sender.vhd (sender_controller.vhd, the generator, the encoder with its FIFO, and the selection of the
  output) with its output wired to the receiver, as rfid.vhd does in loopback, clock cycle by clock
  cycle, both halves enabled and out of reset.
\<close>

section \<open>The sender\<close>

datatype sender_controller_state = Sc_wait | Sc_wait_generator | Sc_wait_encoder

record sender_ctl =
  sc_state :: sender_controller_state
  mux :: bool
  sender_finished :: bool
  start_encoder :: bool
  start_generator :: bool

definition sender_controller :: "bool \<Rightarrow> bool \<Rightarrow> bool \<Rightarrow> bool \<Rightarrow> bool \<Rightarrow> sender_ctl \<Rightarrow> sender_ctl" where
  "sender_controller start has_gen generator_ended encoder_ended clr_finished s =
     (let s' = (case sc_state s of
          Sc_wait \<Rightarrow>
            (let s = s\<lparr>start_encoder := False, start_generator := False\<rparr>
             in if start then
                  (if has_gen then s\<lparr>sc_state := Sc_wait_generator, start_generator := True\<rparr>
                   else s\<lparr>sc_state := Sc_wait_encoder, start_encoder := True\<rparr>)
                else s)
        | Sc_wait_generator \<Rightarrow>
            (let s = s\<lparr>mux := False, start_generator := False\<rparr>
             in if generator_ended then s\<lparr>sc_state := Sc_wait_encoder, start_encoder := True\<rparr> else s)
        | Sc_wait_encoder \<Rightarrow>
            (let s = s\<lparr>mux := True\<rparr>
             in if encoder_ended then s\<lparr>sc_state := Sc_wait, start_encoder := False, sender_finished := True\<rparr> else s))
      in if clr_finished then s'\<lparr>sender_finished := False\<rparr> else s')"

text \<open>Without \<open>enable\<close> only the bit sender goes on, and only while it signals its end.\<close>

definition transmitter_step :: "cint \<Rightarrow> nat \<Rightarrow> bool \<Rightarrow> transmitter \<Rightarrow> transmitter" where
  "transmitter_step stale tari_value enable s =
     (if enable then transmitter_clock stale tari_value s
      else \<lparr>enc = (if data_sender_end (enc s) then data_sender (fifo_q stale (words s)) (enc s) else enc s),
            words = (if request_new_data (enc s) then tl (words s) else words s)\<rparr>)"

record sender =
  ctl :: sender_ctl
  tx :: transmitter
  gen :: generator

definition sender_q :: "sender \<Rightarrow> bool" where
  "sender_q s = (if mux (ctl s) then enc_out (enc (tx s)) else gen_out (gen s))"

definition sender_clock :: "cint \<Rightarrow> times \<Rightarrow> bool \<Rightarrow> bool \<Rightarrow> bool \<Rightarrow> bool \<Rightarrow> sender \<Rightarrow> sender" where
  "sender_clock stale t start has_gen is_preamble clr_finished s =
     \<lparr>ctl = sender_controller start has_gen (gen_ended (gen s)) (enc_finished (enc (tx s))) clr_finished (ctl s),
      tx = transmitter_step stale (unat (tari_time t)) (start_encoder (ctl s)) (tx s),
      gen = generator_clock t (start_generator (ctl s)) is_preamble (gen s)\<rparr>"

section \<open>In loopback\<close>

record radio =
  snd_part :: sender
  rcv_part :: receiver

text \<open>Without preamble, the start bit of the settings as input.\<close>

definition radio_clock :: "cint \<Rightarrow> times \<Rightarrow> boundaries \<Rightarrow> bool \<Rightarrow> radio \<Rightarrow> radio" where
  "radio_clock stale t c start r =
     \<lparr>snd_part = sender_clock stale t start False False False (snd_part r),
      rcv_part = receiver_clock c (sender_q (snd_part r)) (rcv_part r)\<rparr>"

fun radio_clocks :: "cint \<Rightarrow> times \<Rightarrow> boundaries \<Rightarrow> bool list \<Rightarrow> radio \<Rightarrow> radio" where
  "radio_clocks stale t c [] r = r"
| "radio_clocks stale t c (b # bs) r = radio_clocks stale t c bs (radio_clock stale t c b r)"

section \<open>What the receiver sees\<close>

text \<open>While the encoder runs, the receiver sees its output one cycle later.\<close>

definition encoding :: "sender \<Rightarrow> bool" where
  "encoding s \<longleftrightarrow> sc_state (ctl s) = Sc_wait_encoder \<and> start_encoder (ctl s) \<and> \<not> start_generator (ctl s) \<and>
     state_generator (gen s) = G_wait \<and> \<not> gen_out (gen s) \<and> (mux (ctl s) \<or> \<not> enc_out (enc (tx s)))"

lemma encoding_q: "encoding s \<Longrightarrow> sender_q s = enc_out (enc (tx s))"
  by (auto simp: encoding_def sender_q_def)

lemma encoding_step:
  assumes "encoding (snd_part r)" "\<not> enc_finished (enc (tx (snd_part r)))"
  shows "encoding (snd_part (radio_clock stale t c b r))"
    "tx (snd_part (radio_clock stale t c b r)) = transmitter_clock stale (unat (tari_time t)) (tx (snd_part r))"
    "rcv_part (radio_clock stale t c b r) = receiver_clock c (enc_out (enc (tx (snd_part r)))) (rcv_part r)"
  using assms encoding_q[OF assms(1)]
  by (simp_all add: radio_clock_def sender_clock_def encoding_def sender_controller_def transmitter_step_def
      generator_clock_def Let_def)

lemma encoding_steps:
  assumes "encoding (snd_part r)" "busy stale (unat (tari_time t)) (length bs) (tx (snd_part r))"
  shows "encoding (snd_part (radio_clocks stale t c bs r)) \<and>
    tx (snd_part (radio_clocks stale t c bs r)) = snd (transmit stale (unat (tari_time t)) (length bs) (tx (snd_part r))) \<and>
    receiver_clock c (enc_out (enc (snd (transmit stale (unat (tari_time t)) (length bs) (tx (snd_part r))))))
        (rcv_part (radio_clocks stale t c bs r)) =
      receive c (enc_out (enc (tx (snd_part r))) # fst (transmit stale (unat (tari_time t)) (length bs) (tx (snd_part r))))
        (rcv_part r)"
  using assms
proof (induction bs arbitrary: r)
  case (Cons b bs)
  let ?r = "radio_clock stale t c b r"
  have f: "\<not> enc_finished (enc (tx (snd_part r)))" using Cons.prems by simp
  note step = encoding_step[OF Cons.prems(1) f, of stale t c b]
  show ?case
    using Cons.IH[OF step(1)] Cons.prems step
    by (simp add: Let_def case_prod_unfold)
qed simp

text \<open>A low line leaves a ready receiver ready.\<close>

lemma ready_low: "receiver_ready s \<Longrightarrow> receiver_ready (receive c (replicate j False) s) \<and>
    fifo_in (receive c (replicate j False) s) = fifo_in s"
proof (induction j arbitrary: s)
  case (Suc j)
  have "receiver_ready (receiver_clock c False s)" "fifo_in (receiver_clock c False s) = fifo_in s"
    using Suc.prems by (simp_all add: receiver_ready_def receiver_clock_def step_defs contructor_def constructor_init_def)
  then show ?case using Suc.IH by simp
qed simp

section \<open>The tolerances\<close>

text \<open>What the boundaries must leave for a tari of \<open>n\<close> clock cycles: the timers of the encoder are off by up to
  two cycles, the pause between packages adds six, and the decoder starts counting four cycles late.  The counters
  of its timers end at 700.\<close>

definition tari_ok :: "boundaries \<Rightarrow> nat \<Rightarrow> bool" where
  "tari_ok c n \<longleftrightarrow> boundaries_ok c \<and> even n \<and> 6 < n \<and> n \<le> 700 \<and>
     tari_0990_value c + 5 \<le> n \<and> n + 5 \<le> tari_1010_value c \<and>
     tari_0495_value c + 3 \<le> n div 2 \<and> n div 2 \<le> tari_0505_value c + 1 \<and> tari_1584_value c + 12 \<le> n + n"

lemma near_in_time:
  assumes "tari_ok c n" "near n 6 x" "l = 3 \<or> l = 4"
  shows "in_time c l x"
proof (cases x)
  case (One m)
  then show ?thesis using assms by (auto simp: tari_ok_def)
next
  case (Zero a b)
  have "n = n div 2 + n div 2" "4 \<le> n div 2" using assms(1) by (auto simp: tari_ok_def elim!: evenE)
  then show ?thesis using assms Zero by (auto simp: tari_ok_def)
qed

lemma near_timely: "tari_ok c n \<Longrightarrow> list_all (near n 6) xs \<Longrightarrow> l = 3 \<or> l = 4 \<Longrightarrow> timely c l xs"
  by (induction xs arbitrary: l) (simp_all add: near_in_time)

text \<open>Every 1 turns the level over.  A line left high by an odd number of them ends in one more edge.\<close>

definition odd_ones :: "bool list \<Rightarrow> bool" where
  "odd_ones bs \<longleftrightarrow> odd (count_list bs True)"

lemma level_ones: "level_after lv xs \<longleftrightarrow> (lv \<longleftrightarrow> \<not> odd_ones (map symbol_bit xs))"
  by (induction lv xs rule: level_after.induct) (auto simp: odd_ones_def)

lemma closed:
  assumes "tari_ok c n" "list_all (near n 6) xs" "xs \<noteq> []" "map symbol_bit xs \<noteq> [False]"
  obtains ys z h where "wave True xs @ replicate g False = wave True ys @ closing_wave z h" "g \<le> h" "ys \<noteq> []" "timely c 3 ys"
    "closing_ok c (level_after True ys) z" "map symbol_bit ys @ [closing_bit z] = line odd_ones (map symbol_bit xs)"
proof (cases "odd_ones (map symbol_bit xs)")
  case True
  then show ?thesis
    using that[of xs Low g] assms near_timely level_ones[of True xs] by (simp add: line_def)
next
  case False
  obtain ys x where xs: "xs = ys @ [x]" using assms(3) by (cases xs rule: rev_cases) auto
  have t: "timely c 3 ys" and x: "in_time c 4 x"
    using assms(1,2) xs near_timely near_in_time by (auto simp: list_all_iff)
  have level: "level_after True (ys @ [x])" using level_ones[of True xs] False xs by simp
  show ?thesis
  proof (cases x)
    case (One m)
    then show ?thesis
      using that[of ys Low "m + g"] t level False xs
      by (cases "ys = []") (simp_all add: wave_append level_after_append line_def replicate_add)
  next
    case (Zero a b)
    then show ?thesis
      using that[of ys "High a" "b + g"] t x level False xs assms(4)
      by (cases "ys = []") (simp_all add: wave_append level_after_append line_def replicate_add)
  qed
qed

section \<open>A command through the loop\<close>

definition sender_ready :: "cint list \<Rightarrow> sender \<Rightarrow> bool" where
  "sender_ready q s \<longleftrightarrow> sc_state (ctl s) = Sc_wait \<and> \<not> start_encoder (ctl s) \<and> \<not> start_generator (ctl s) \<and>
     state_generator (gen s) = G_wait \<and> \<not> gen_out (gen s) \<and> transmitter_ready q (tx s) \<and> \<not> enc_finished (enc (tx s))"

lemma sender_started:
  assumes "sender_ready (w # ws) (snd_part r)" "w \<noteq> 0"
  shows "encoding (snd_part (radio_clock stale t c True r))"
    "transmitter_ready (w # ws) (tx (snd_part (radio_clock stale t c True r)))"
    "\<not> enc_finished (enc (tx (snd_part (radio_clock stale t c True r))))"
    "\<not> enc_out (enc (tx (snd_part (radio_clock stale t c True r))))"
    "rcv_part (radio_clock stale t c True r) = receiver_clock c False (rcv_part r)"
  using assms
  by (simp_all add: sender_ready_def transmitter_ready_def pausing_def radio_clock_def sender_clock_def encoding_def
      sender_controller_def transmitter_step_def generator_clock_def sender_q_def data_sender_def fifo_q_def Let_def)

lemma sender_stopped:
  assumes "encoding (snd_part r)" "enc_finished (enc (tx (snd_part r)))" "transmitter_ready [] (tx (snd_part r))"
  shows "sender_ready [] (snd_part (radio_clock stale t c b r)) \<and> sender_finished (ctl (snd_part (radio_clock stale t c b r)))"
    "rcv_part (radio_clock stale t c b r) = receiver_clock c (enc_out (enc (tx (snd_part r)))) (rcv_part r)"
  using assms encoding_q[OF assms(1)]
  by (auto simp: sender_ready_def transmitter_ready_def radio_clock_def sender_clock_def encoding_def
      sender_controller_def transmitter_step_def generator_clock_def pause_defs)

lemma radio_clocks_append: "radio_clocks stale t c (as @ bs) r = radio_clocks stale t c bs (radio_clocks stale t c as r)"
  by (induction as arbitrary: r) simp_all

text \<open>The encoder, the line code, the decoder and the constructor together do what the bus model of the peripheral
  assumes of a transmission in loopback, and decide its one open point: from ready parts and a start bit, in a
  number of clock cycles that depends only on the state and the command, the words in the transmit FIFO are
  sent, the end is signalled, and the receive FIFO has got the packages of exactly their bits, with one more bit
  1 if and only if the number of ones sent is odd.\<close>

theorem radio_transmits:
  assumes "sender_ready (ps @ [0]) (snd_part r)" "receiver_ready (rcv_part r)"
    "ps \<noteq> []" "0 \<notin> set ps" "\<forall>p \<in> set ps. mask_value p \<le> 26" "concat (map package_bits ps) \<noteq> [False]"
    "tari_ok c (unat (tari_time t))"
  shows "\<exists>m. \<forall>bs. length bs = m \<longrightarrow>
    (let r' = radio_clocks stale t c (True # bs) r
     in sender_ready [] (snd_part r') \<and> sender_finished (ctl (snd_part r')) \<and> receiver_ready (rcv_part r') \<and>
        fifo_in (rcv_part r') = fifo_in (rcv_part r) @ ip_link odd_ones ps)"
proof -
  let ?n = "unat (tari_time t)" and ?r = "radio_clock stale t c True r"
  have "ps @ [0] = hd ps # tl ps @ [0]" "hd ps \<noteq> 0" using assms(3,4) by (cases ps; simp)+
  note started = sender_started[OF assms(1)[unfolded this(1)] this(2), of stale t c, folded this(1)]
  have n: "even ?n" "6 < ?n" using assms(7) by (simp_all add: tari_ok_def)
  obtain xs g u where sent: "yields stale ?n (tx (snd_part ?r)) ([False, False, False] @ wave True xs @ replicate g False) u"
    "transmitter_ready [] u" "enc_finished (enc u)" and xs: "map symbol_bit xs = concat (map package_bits ps)"
    "list_all (near ?n 6) xs" and g: "?n + ?n + 4 \<le> g"
    using encoder_sends[OF started(2,3) assms(3,4) n, of stale] by blast
  have "concat (map package_bits ps) \<noteq> []" using assms(3) by (cases ps) (auto simp: package_bits_def)
  then have "xs \<noteq> []" using xs(1) by auto
  then obtain ys z h where cl: "wave True xs @ replicate g False = wave True ys @ closing_wave z h" "g \<le> h" "ys \<noteq> []"
    "timely c 3 ys" "closing_ok c (level_after True ys) z"
    "map symbol_bit ys @ [closing_bit z] = line odd_ones (concat (map package_bits ps))"
    using closed[OF assms(7) xs(2)] assms(6) unfolding xs(1) by metis
  define w where "w = [False, False, False] @ wave True xs @ replicate g False"
  have c: "boundaries_ok c" "tari_1584_value c + 15 \<le> h" using assms(7) g cl(2) by (simp_all add: tari_ok_def)
  let ?s = "receive c (replicate 5 False) (rcv_part r)"
  have low: "receiver_ready ?s" "fifo_in ?s = fifo_in (rcv_part r)" using ready_low[OF assms(2)] by blast+
  note heard = receiver_hears[OF low(1) c(1) cl(3,4,5) c(2), unfolded cl(1)[symmetric] cl(6) low(2)]
  show ?thesis
  proof (intro exI[of _ "length w + 1"] allI impI)
    fix bs :: "bool list" assume "length bs = length w + 1"
    then obtain as b where bs: "bs = as @ [b]" "length as = length w" by (cases bs rule: rev_cases) auto
    let ?q = "radio_clocks stale t c as ?r"
    have run: "encoding (snd_part ?q)" "tx (snd_part ?q) = u"
      "receiver_clock c (enc_out (enc u)) (rcv_part ?q) = receive c (False # w) (rcv_part ?r)"
      using encoding_steps[OF started(1), of stale t as c] sent(1) started(4) bs(2) by (simp_all add: yields_def w_def)
    have "False # False # w = replicate 5 False @ wave True xs @ replicate g False"
      by (simp add: w_def eval_nat_numeral)
    then have rx: "rcv_part (radio_clock stale t c b ?q) = receive c (wave True xs @ replicate g False) ?s"
      using sender_stopped(2)[of ?q stale t c b] run sent(2,3) started(5)
      by (metis receive.simps(2) receive_append)
    show "let r' = radio_clocks stale t c (True # bs) r
      in sender_ready [] (snd_part r') \<and> sender_finished (ctl (snd_part r')) \<and> receiver_ready (rcv_part r') \<and>
        fifo_in (rcv_part r') = fifo_in (rcv_part r) @ ip_link odd_ones ps"
      using sender_stopped(1)[of ?q stale t c b] run sent(2,3) heard rx
      by (simp add: bs(1) radio_clocks_append Let_def ip_link_def)
  qed
qed

text \<open>Power-up, \<open>q\<close> in the transmit FIFO, one cycle of low line seen by the receiver.\<close>

definition encoder_init :: encoder where
  "encoder_init = \<lparr>enc_controller = E_wait, state_sender = S_wait, data_sender_start = False, data_sender_end = False,
     half_tari_start = False, half_tari_end = False, full_tari_start = False, full_tari_end = False,
     tari_CS_start = False, tari_CS_end = False, index_bit = 0, last_state_bit = S_send_s2, half_count = 0,
     full_count = 0, CS_count = 0, request_new_data = False, enc_finished = False, enc_out = False\<rparr>"

definition radio_init :: "boundaries \<Rightarrow> cint list \<Rightarrow> radio" where
  "radio_init c q =
     \<lparr>snd_part =
        \<lparr>ctl = \<lparr>sc_state = Sc_wait, mux = False, sender_finished = False, start_encoder = False, start_generator = False\<rparr>,
         tx = \<lparr>enc = encoder_init, words = q\<rparr>,
         gen = \<lparr>state_generator = G_wait, gen_counter = 0, gen_out = False, gen_ended = False, gen_error = False\<rparr>\<rparr>,
      rcv_part = receiver_clock c False (receiver_init [])\<rparr>"

lemma radio_init_ready: "sender_ready q (snd_part (radio_init c q)) \<and> receiver_ready (rcv_part (radio_init c q))"
  by (simp add: radio_init_def sender_ready_def transmitter_ready_def pausing_def encoder_init_def receiver_ready_init)

lemma radio_init_empty: "fifo_in (rcv_part (radio_init c q)) = []"
  by (simp add: radio_init_def receiver_clock_def receiver_init_def constructor_init_def)

text \<open>The times and boundaries of the programs satisfy every condition, six of them with nothing to spare.\<close>

definition times_500 :: times where
  "times_500 = \<lparr>tari_time = 500, pw_time = 250, delimiter_time = 3125, RTcal_time = 6750, TRcal_time = 6750\<rparr>"

lemma tari_500_ok: "tari_ok boundaries_500 (unat (tari_time times_500))"
  by (simp add: tari_ok_def boundaries_500_ok boundaries_500 times_500_def)

end
