(* ===== verification/Rfid_Vhd.thy ===== *)
theory Rfid_Vhd
  imports Fm0_Loop
begin

text \<open>
  rfid.vhd clock cycle by clock cycle: the registers behind the Avalon slave, the strobes that write
  the transmit FIFO and read the receive FIFO once per request, the FIFOs with their 256 words, the
  resets and enables of both halves, and the loopback.  Status bits that nothing drives are 0.
\<close>

section \<open>State\<close>

text \<open>A cycle of the slave: nothing, a read or a write of a register.\<close>

datatype access = Avs_idle | Avs_read nat | Avs_write nat cint

record rfid =
  settings :: cint
  send_tari :: u16
  send_tari_101 :: u16
  send_tari_099 :: u16
  send_tari_1616 :: u16
  send_tari_1584 :: u16
  send_pw :: u16
  send_delimiter :: u16
  send_RTcal :: u16
  send_TRcal :: u16
  readdata :: cint
  fifo_data_in :: cint
  fifo_write_req :: bool
  fifo_write :: bool
  already_seted :: bool
  rdreq_pulse :: bool
  read_requested :: bool
  sender_half :: sender
  receiver_half :: receiver

definition rfid_boundaries :: "rfid \<Rightarrow> boundaries" where
  "rfid_boundaries s = \<lparr>tari_101 = send_tari_101 s, tari_099 = send_tari_099 s, tari_1616 = send_tari_1616 s,
     tari_1584 = send_tari_1584 s\<rparr>"

definition rfid_times :: "rfid \<Rightarrow> times" where
  "rfid_times s = \<lparr>tari_time = send_tari s, pw_time = send_pw s, delimiter_time = send_delimiter s,
     RTcal_time = send_RTcal s, TRcal_time = send_TRcal s\<rparr>"

section \<open>The registers\<close>

definition status :: "rfid \<Rightarrow> cint" where
  "status s =
     (if fifo_depth \<le> length (words (tx (sender_half s))) then 1 else 0) OR
     (if sender_finished (ctl (sender_half s)) then 8 else 0) OR
     (if dec_err (dec (receiver_half s)) then 0x200 else 0) OR
     (if fifo_in (receiver_half s) = [] then 0x2000 else 0) OR
     (if fifo_depth \<le> length (fifo_in (receiver_half s)) then 0x4000 else 0)"

definition read_register :: "cint \<Rightarrow> rfid \<Rightarrow> nat \<Rightarrow> cint" where
  "read_register stale s a =
     (if a = 0 then settings s
      else if a = 1 then low_bits 16 (readdata s) (ucast (send_tari s))
      else if a = 3 then status s
      else if a = 4 then fifo_q stale (fifo_in (receiver_half s))
      else if a = 5 then low_bits 8 (readdata s) (of_nat (length (words (tx (sender_half s)))))
      else if a = 6 then low_bits 8 (readdata s) (of_nat (length (fifo_in (receiver_half s))))
      else if a = 7 then 0xFF0055FF
      else readdata s)"

definition write_register :: "nat \<Rightarrow> cint \<Rightarrow> rfid \<Rightarrow> rfid" where
  "write_register a v s =
     (if a = 0 then s\<lparr>settings := v\<rparr>
      else if a = 1 then s\<lparr>send_tari := ucast v\<rparr>
      else if a = 2 then s\<lparr>fifo_data_in := v, fifo_write_req := True\<rparr>
      else if a = 3 then s\<lparr>send_tari_101 := ucast v\<rparr>
      else if a = 4 then s\<lparr>send_tari_099 := ucast v\<rparr>
      else if a = 5 then s\<lparr>send_tari_1616 := ucast v\<rparr>
      else if a = 6 then s\<lparr>send_tari_1584 := ucast v\<rparr>
      else if a = 7 then s\<lparr>send_pw := ucast v\<rparr>
      else if a = 8 then s\<lparr>send_delimiter := ucast v\<rparr>
      else if a = 9 then s\<lparr>send_RTcal := ucast v\<rparr>
      else if a = 10 then s\<lparr>send_TRcal := ucast v\<rparr>
      else s)"

definition registers :: "cint \<Rightarrow> bool \<Rightarrow> access \<Rightarrow> rfid \<Rightarrow> rfid" where
  "registers stale rst x s =
     (if rst then s\<lparr>settings := 0, fifo_write_req := False\<rparr>
      else (let s' = s\<lparr>fifo_write_req := False\<rparr>
            in case x of
                 Avs_write a v \<Rightarrow> write_register a v s'
               | Avs_read a \<Rightarrow> s'\<lparr>readdata := read_register stale s a\<rparr>
               | Avs_idle \<Rightarrow> s'))"

section \<open>The strobes\<close>

text \<open>Both give one pulse per request, however many cycles it lasts: the new pulse and the new memory of it.\<close>

definition write_strobe :: "bool \<Rightarrow> bool \<Rightarrow> bool \<times> bool" where
  "write_strobe req seted = (if req \<and> \<not> seted then (True, True) else (False, req \<and> seted))"

definition pulse_generator :: "bool \<Rightarrow> bool \<Rightarrow> bool \<Rightarrow> bool \<times> bool" where
  "pulse_generator rst rdreq requested =
     (if rst then (False, False)
      else if rdreq \<and> \<not> requested then (True, True)
      else (False, rdreq \<and> requested))"

text \<open>The FIFO macro: clear, read and write requests, the last refused when it is full.\<close>

definition fifo_step :: "bool \<Rightarrow> bool \<Rightarrow> bool \<Rightarrow> cint \<Rightarrow> cint list \<Rightarrow> cint list" where
  "fifo_step sclr rdreq wrreq d q =
     (if sclr then []
      else (if rdreq then tl q else q) @ (if wrreq \<and> length q < fifo_depth then [d] else []))"

section \<open>Resets and enables\<close>

definition controller_edge :: "bool \<Rightarrow> bool \<Rightarrow> bool \<Rightarrow> bool \<Rightarrow> bool \<Rightarrow> bool \<Rightarrow> bool \<Rightarrow> sender_ctl \<Rightarrow> sender_ctl" where
  "controller_edge rst enable start has_gen generator_ended encoder_ended clr_finished s =
     (if \<not> rst \<and> enable then sender_controller start has_gen generator_ended encoder_ended clr_finished s
      else (let s = (if rst then s\<lparr>sc_state := Sc_wait\<rparr> else s)
            in if clr_finished then s\<lparr>sender_finished := False\<rparr> else s))"

definition generator_edge :: "times \<Rightarrow> bool \<Rightarrow> bool \<Rightarrow> bool \<Rightarrow> bool \<Rightarrow> generator \<Rightarrow> generator" where
  "generator_edge t rst enable start is_preamble g =
     (if rst then g\<lparr>state_generator := G_wait, gen_counter := 0, gen_out := False, gen_ended := False\<rparr>
      else if enable then generator_clock t start is_preamble g
      else g)"

definition encoder_reset :: "encoder \<Rightarrow> encoder" where
  "encoder_reset e = e\<lparr>data_sender_start := False, enc_controller := E_wait, enc_finished := False,
     request_new_data := False, state_sender := S_wait, half_tari_start := False, full_tari_start := False,
     enc_out := False, last_state_bit := S_send_s2, half_count := 0, half_tari_end := False, full_count := 0,
     full_tari_end := False, CS_count := 0, tari_CS_end := False\<rparr>"

definition encoder_edge :: "nat \<Rightarrow> bool \<Rightarrow> bool \<Rightarrow> cint \<Rightarrow> bool \<Rightarrow> encoder \<Rightarrow> encoder" where
  "encoder_edge tari_value rst enable w is_fifo_empty e =
     (if rst then encoder_reset e
      else if enable then encoder_clock tari_value w is_fifo_empty e
      else if data_sender_end e then data_sender w e
      else e)"

definition decoder_edge :: "boundaries \<Rightarrow> bool \<Rightarrow> bool \<Rightarrow> bool \<Rightarrow> bool \<Rightarrow> decoder \<Rightarrow> decoder" where
  "decoder_edge c rst enable din clre d =
     (if rst then d\<lparr>state_controller := Ctl_wait, state_decoder := D_wait, clocks_counted := 0\<rparr>
      else if enable then decoder_clock c din False clre d
      else d\<lparr>clocks_counted := counter d\<rparr>)"

definition constructor_edge :: "bool \<Rightarrow> bool \<Rightarrow> bool \<Rightarrow> bool \<Rightarrow> constructor \<Rightarrow> constructor" where
  "constructor_edge rst ready bit_in ended c =
     (if rst then c\<lparr>state_contructor := C_wait, mask_integer := 0, data := 0\<rparr>
      else contructor ready bit_in ended c)"

section \<open>One clock cycle\<close>

definition sender_edge :: "cint \<Rightarrow> rfid \<Rightarrow> sender" where
  "sender_edge stale s =
     (let h = sender_half s; w = words (tx h); v = settings s; rst = bit v 0
      in \<lparr>ctl = controller_edge rst (bit v 1) (bit v 6) (bit v 5) (gen_ended (gen h)) (enc_finished (enc (tx h)))
            (bit v 10) (ctl h),
          tx = \<lparr>enc = encoder_edge (unat (send_tari s)) rst (start_encoder (ctl h)) (fifo_q stale w) (w = []) (enc (tx h)),
                words = fifo_step (bit v 2) (request_new_data (enc (tx h))) (fifo_write s) (fifo_data_in s) w\<rparr>,
          gen = generator_edge (rfid_times s) rst (bit v 1) (start_generator (ctl h)) (bit v 7) (gen h)\<rparr>)"

definition receiver_edge :: "bool \<Rightarrow> rfid \<Rightarrow> receiver" where
  "receiver_edge pin_rx s =
     (let h = receiver_half s; v = settings s; rst = bit v 11
      in \<lparr>dec = decoder_edge (rfid_boundaries s) rst (bit v 4) pin_rx (clr_eop (pack h)) (dec h),
          pack = constructor_edge rst (dec_data_ready (dec h)) (dec_data_out (dec h)) (dec_eop (dec h)) (pack h),
          fifo_in = fifo_step False (rdreq_pulse s) (write_request_out (pack h)) (data_out (pack h)) (fifo_in h)\<rparr>)"

definition pin_rx :: "bool \<Rightarrow> rfid \<Rightarrow> bool" where
  "pin_rx rfid_rx s = (if bit (settings s) 8 then sender_q (sender_half s) else rfid_rx)"

definition rfid_clock :: "cint \<Rightarrow> bool \<Rightarrow> bool \<Rightarrow> access \<Rightarrow> rfid \<Rightarrow> rfid" where
  "rfid_clock stale rst rfid_rx x s =
     (let (wr, seted) = write_strobe (fifo_write_req s) (already_seted s);
          (rd, requested) = pulse_generator (bit (settings s) 11) (bit (settings s) 12) (read_requested s)
      in (registers stale rst x s)\<lparr>fifo_write := wr, already_seted := seted, rdreq_pulse := rd, read_requested := requested,
           sender_half := sender_edge stale s, receiver_half := receiver_edge (pin_rx rfid_rx s) s\<rparr>)"

text \<open>A run: the level of the input pin and the access of every cycle.\<close>

fun rfid_clocks :: "cint \<Rightarrow> (bool \<times> access) list \<Rightarrow> rfid \<Rightarrow> rfid" where
  "rfid_clocks stale [] s = s"
| "rfid_clocks stale ((p, x) # xs) s = rfid_clocks stale xs (rfid_clock stale False p x s)"

section \<open>The clocked registers over the loop of Fm0_Loop\<close>

text \<open>Enabled, in loopback and out of reset, with or without the start bit, and no strobe on its way.\<close>

definition looped :: "rfid \<Rightarrow> bool" where
  "looped s \<longleftrightarrow> (settings s = 0x112 \<or> settings s = 0x152) \<and> \<not> fifo_write_req s \<and> \<not> fifo_write s \<and> \<not> rdreq_pulse s"

text \<open>What the firmware does meanwhile: poll, or set and clear the start bit.\<close>

fun polling :: "access \<Rightarrow> bool" where
  "polling Avs_idle \<longleftrightarrow> True"
| "polling (Avs_read a) \<longleftrightarrow> True"
| "polling (Avs_write a v) \<longleftrightarrow> a = 0 \<and> (v = 0x112 \<or> v = 0x152)"

definition halves :: "rfid \<Rightarrow> radio" where
  "halves s = \<lparr>snd_part = sender_half s, rcv_part = receiver_half s\<rparr>"

lemma halves_simps [simp]: "snd_part (halves s) = sender_half s" "rcv_part (halves s) = receiver_half s"
  by (simp_all add: halves_def)

lemma settings_bits:
  assumes "v = (0x112 :: cint) \<or> v = 0x152"
  shows "\<not> bit v 0" "bit v 1" "\<not> bit v 2" "bit v 4" "\<not> bit v 5" "\<not> bit v 7" "bit v 8" "\<not> bit v 10" "\<not> bit v 11"
    "\<not> bit v 12" "bit v 6 \<longleftrightarrow> v = 0x152"
  using assms by auto

lemma registers_polling:
  assumes "looped s" "polling x"
  shows "looped (rfid_clock stale False p x s)"
    "rfid_times (rfid_clock stale False p x s) = rfid_times s"
    "rfid_boundaries (rfid_clock stale False p x s) = rfid_boundaries s"
    "settings (rfid_clock stale False p x s) = (case x of Avs_write a v \<Rightarrow> v | _ \<Rightarrow> settings s)"
  using assms settings_bits[of "settings s"]
  by (cases x; auto simp: looped_def rfid_clock_def registers_def write_register_def write_strobe_def pulse_generator_def
      rfid_times_def rfid_boundaries_def)+

lemma halves_clock:
  assumes "looped s" "write_request_out (pack (receiver_half s)) \<longrightarrow> length (fifo_in (receiver_half s)) < fifo_depth"
  shows "halves (rfid_clock stale False p x s) =
    radio_clock stale (rfid_times s) (rfid_boundaries s) (bit (settings s) 6) (halves s)"
proof -
  have v: "settings s = 0x112 \<or> settings s = 0x152" and f: "\<not> fifo_write s" "\<not> rdreq_pulse s"
    using assms(1) by (auto simp: looped_def)
  have snd: "sender_edge stale s = sender_clock stale (rfid_times s) (bit (settings s) 6) False False False (sender_half s)"
    using settings_bits[OF v] f
    by (simp add: sender_edge_def sender_clock_def controller_edge_def generator_edge_def encoder_edge_def
        transmitter_step_def transmitter_clock_def fifo_step_def rfid_times_def Let_def)
  have rcv: "receiver_edge q s = receiver_clock (rfid_boundaries s) q (receiver_half s)" for q
    using settings_bits[OF v] f assms(2)
    by (simp add: receiver_edge_def receiver_clock_def decoder_edge_def constructor_edge_def fifo_step_def Let_def)
  show ?thesis
    using settings_bits(7)[OF v]
    by (simp add: halves_def rfid_clock_def radio_clock_def snd rcv pin_rx_def split: prod.split)
qed

text \<open>The start bits of a run.\<close>

fun starts :: "cint \<Rightarrow> (bool \<times> access) list \<Rightarrow> rfid \<Rightarrow> bool list" where
  "starts stale [] s = []"
| "starts stale ((p, x) # xs) s = bit (settings s) 6 # starts stale xs (rfid_clock stale False p x s)"

lemma length_starts: "length (starts stale xs s) = length xs"
  by (induction xs arbitrary: s) auto

lemma fifo_grows:
  "length (fifo_in (rcv_part r)) + of_bool (write_request_out (pack (rcv_part r))) \<le>
     length (fifo_in (rcv_part (radio_clock stale t c b r)))"
  by (simp add: radio_clock_def receiver_clock_def)

lemma fifo_grows_on: "length (fifo_in (rcv_part r)) \<le> length (fifo_in (rcv_part (radio_clocks stale t c bs r)))"
proof (induction bs arbitrary: r)
  case (Cons b bs)
  show ?case using fifo_grows[of r stale t c b] Cons[of "radio_clock stale t c b r"] by simp
qed simp

lemma halves_clocks:
  assumes "looped s" "list_all (polling \<circ> snd) xs"
    "length (fifo_in (rcv_part (radio_clocks stale (rfid_times s) (rfid_boundaries s) (starts stale xs s) (halves s)))) \<le> fifo_depth"
  shows "halves (rfid_clocks stale xs s) =
    radio_clocks stale (rfid_times s) (rfid_boundaries s) (starts stale xs s) (halves s)"
  using assms
proof (induction xs arbitrary: s)
  case (Cons y xs)
  obtain p x where y: "y = (p, x)" by (cases y)
  let ?s = "rfid_clock stale False p x s"
  let ?r = "radio_clock stale (rfid_times s) (rfid_boundaries s) (bit (settings s) 6) (halves s)"
  have x: "polling x" using Cons.prems(2) y by simp
  note later = registers_polling[OF Cons.prems(1) x, of stale p]
  have "length (fifo_in (rcv_part ?r)) \<le> fifo_depth"
    using order_trans[OF fifo_grows_on Cons.prems(3)[unfolded y starts.simps radio_clocks.simps]] .
  then have step: "halves ?s = ?r"
    using fifo_grows[of "halves s" stale "rfid_times s" "rfid_boundaries s" "bit (settings s) 6"] Cons.prems(1)
    by (intro halves_clock) (auto simp: halves_def)
  show ?case
    using Cons.IH[OF later(1)] Cons.prems(2,3) by (simp add: y later step)
qed simp

text \<open>Before the start bit is seen nothing moves.\<close>

lemma waits_for_start:
  fixes stale :: cint and t :: times and c :: boundaries
  assumes "sender_ready (w # ws) (snd_part r)" "w \<noteq> 0" "receiver_ready (rcv_part r)"
  defines "r' \<equiv> radio_clock stale t c False r"
  shows "sender_ready (w # ws) (snd_part r')" "receiver_ready (rcv_part r')" "fifo_in (rcv_part r') = fifo_in (rcv_part r)"
proof -
  have q: "\<not> sender_q (snd_part r)"
    using assms(1) by (auto simp: sender_q_def sender_ready_def transmitter_ready_def pausing_def)
  show "sender_ready (w # ws) (snd_part r')"
    using assms(1,2)
    by (simp add: r'_def sender_ready_def transmitter_ready_def pausing_def radio_clock_def sender_clock_def
        sender_controller_def transmitter_step_def generator_clock_def data_sender_def fifo_q_def Let_def)
  show "receiver_ready (rcv_part r')" "fifo_in (rcv_part r') = fifo_in (rcv_part r)"
    using ready_low[OF assms(3), of c 1] q by (simp_all add: r'_def radio_clock_def)
qed

section \<open>A transmission by registers\<close>

lemma transmits:
  assumes "looped s" "settings s = 0x112" "sender_ready (ps @ [0]) (sender_half s)" "receiver_ready (receiver_half s)"
    "ps \<noteq> []" "0 \<notin> set ps" "\<forall>p \<in> set ps. mask_value p \<le> 26" "concat (map package_bits ps) \<noteq> [False]"
    "tari_ok (rfid_boundaries s) (unat (send_tari s))"
    "length (fifo_in (receiver_half s)) + length (ip_link odd_ones ps) \<le> fifo_depth"
  obtains m where "\<And>p xs. length xs = m \<Longrightarrow> list_all (polling \<circ> snd) xs \<Longrightarrow>
    (let s' = rfid_clocks stale ((p, Avs_write 0 0x152) # xs) s
     in looped s' \<and> sender_ready [] (sender_half s') \<and> sender_finished (ctl (sender_half s')) \<and>
        receiver_ready (receiver_half s') \<and> fifo_in (receiver_half s') = fifo_in (receiver_half s) @ ip_link odd_ones ps)"
proof -
  let ?t = "rfid_times s" and ?c = "rfid_boundaries s"
  let ?r = "radio_clock stale ?t ?c False (halves s)"
  have ps: "ps @ [0] = hd ps # tl ps @ [0]" "hd ps \<noteq> 0" using assms(5,6) by (cases ps; simp)+
  have "sender_ready (hd ps # tl ps @ [0]) (snd_part (halves s))" "receiver_ready (rcv_part (halves s))"
    using assms(3,4) ps(1) by (simp_all add: halves_def)
  note waits = waits_for_start[OF this(1) ps(2) this(2), of stale ?t ?c, folded ps(1)]
  have "tari_ok ?c (unat (tari_time ?t))" using assms(9) by (simp add: rfid_times_def)
  then obtain m where m: "\<forall>bs. length bs = m \<longrightarrow> (let r' = radio_clocks stale ?t ?c (True # bs) ?r
     in sender_ready [] (snd_part r') \<and> sender_finished (ctl (snd_part r')) \<and> receiver_ready (rcv_part r') \<and>
        fifo_in (rcv_part r') = fifo_in (rcv_part ?r) @ ip_link odd_ones ps)"
    using radio_transmits[OF waits(1,2) assms(5-8)] by blast
  show ?thesis
  proof (rule that[of "m + 1"])
    fix p and xs :: "(bool \<times> access) list" assume xs: "length xs = m + 1" "list_all (polling \<circ> snd) xs"
    define s1 where "s1 = rfid_clock stale False p (Avs_write 0 0x152) s"
    have s1: "looped s1" "rfid_times s1 = ?t" "rfid_boundaries s1 = ?c" "settings s1 = 0x152"
      unfolding s1_def by (simp_all add: registers_polling assms(1))
    have h1: "halves s1 = ?r"
      using halves_clock[OF assms(1)] assms(2,4) unfolding s1_def by (simp add: receiver_ready_def constructor_init_def)
    obtain y ys where y: "xs = y # ys" "length ys = m" using xs(1) by (cases xs) auto
    then have st: "starts stale xs s1 = True # starts stale ys (rfid_clock stale False (fst y) (snd y) s1)"
      using s1(4) by (cases y) simp
    define r' where "r' = radio_clocks stale ?t ?c (starts stale xs s1) (halves s1)"
    have r': "sender_ready [] (snd_part r') \<and> sender_finished (ctl (snd_part r')) \<and> receiver_ready (rcv_part r')"
      "fifo_in (rcv_part r') = fifo_in (receiver_half s) @ ip_link odd_ones ps"
      using m[rule_format, of "starts stale ys (rfid_clock stale False (fst y) (snd y) s1)"] y(2) waits(3)
      unfolding r'_def h1 st length_starts Let_def by simp_all
    have "halves (rfid_clocks stale xs s1) = r'"
      using halves_clocks[OF s1(1) xs(2)] r'(2) assms(10) by (simp add: s1(2,3) r'_def)
    moreover have "looped (rfid_clocks stale xs s1)"
      using s1(1) xs(2)
    proof (induction xs arbitrary: s1)
      case (Cons z zs)
      then show ?case by (cases z) (simp add: registers_polling)
    qed simp
    ultimately show "let s' = rfid_clocks stale ((p, Avs_write 0 0x152) # xs) s
      in looped s' \<and> sender_ready [] (sender_half s') \<and> sender_finished (ctl (sender_half s')) \<and>
        receiver_ready (receiver_half s') \<and> fifo_in (receiver_half s') = fifo_in (receiver_half s) @ ip_link odd_ones ps"
      using r' halves_simps[of "rfid_clocks stale xs s1"] by (simp add: s1_def Let_def)
  qed
qed

section \<open>Writing the transmit FIFO\<close>

text \<open>Nothing is being sent or received, the words \<open>q\<close> are queued.\<close>

definition resting :: "cint list \<Rightarrow> rfid \<Rightarrow> bool" where
  "resting q s \<longleftrightarrow> settings s = 0x112 \<and> \<not> rdreq_pulse s \<and> sender_ready q (sender_half s) \<and> receiver_ready (receiver_half s)"

text \<open>Accesses that change no register but that of the FIFO.\<close>

fun queueing :: "access \<Rightarrow> bool" where
  "queueing (Avs_write a v) \<longleftrightarrow> a = 2"
| "queueing x \<longleftrightarrow> True"

fun to_fifo :: "access \<Rightarrow> cint option" where
  "to_fifo (Avs_write a v) = (if a = 2 then Some v else None)"
| "to_fifo x = None"

lemma sender_rests:
  assumes "settings s = 0x112" "sender_ready q (sender_half s)"
  shows "sender_ready (q @ (if fifo_write s \<and> length q < fifo_depth then [fifo_data_in s] else [])) (sender_edge stale s)"
  using assms
  by (simp add: sender_ready_def transmitter_ready_def pausing_def sender_edge_def controller_edge_def generator_edge_def
      encoder_edge_def sender_controller_def generator_clock_def data_sender_def fifo_step_def Let_def)

lemma receiver_rests:
  assumes "resting q s"
  shows "receiver_ready (receiver_edge (pin_rx p s) s)" "fifo_in (receiver_edge (pin_rx p s) s) = fifo_in (receiver_half s)"
proof -
  have "\<not> pin_rx p s"
    using assms by (auto simp: resting_def pin_rx_def sender_ready_def transmitter_ready_def pausing_def sender_q_def)
  then have "receiver_edge (pin_rx p s) s = receiver_clock (rfid_boundaries s) False (receiver_half s)"
    using assms
    by (simp add: resting_def receiver_edge_def receiver_clock_def decoder_edge_def constructor_edge_def fifo_step_def
        receiver_ready_def constructor_init_def Let_def)
  then show "receiver_ready (receiver_edge (pin_rx p s) s)" "fifo_in (receiver_edge (pin_rx p s) s) = fifo_in (receiver_half s)"
    using ready_low[of "receiver_half s" "rfid_boundaries s" 1] assms by (simp_all add: resting_def)
qed

lemma resting_clock:
  assumes "resting q s" "queueing x"
  shows "resting (q @ (if fifo_write s \<and> length q < fifo_depth then [fifo_data_in s] else [])) (rfid_clock stale False p x s)"
    "fifo_in (receiver_half (rfid_clock stale False p x s)) = fifo_in (receiver_half s)"
    "rfid_times (rfid_clock stale False p x s) = rfid_times s"
    "rfid_boundaries (rfid_clock stale False p x s) = rfid_boundaries s"
    "fifo_write (rfid_clock stale False p x s) = (fifo_write_req s \<and> \<not> already_seted s)"
    "already_seted (rfid_clock stale False p x s) = fifo_write_req s"
    "fifo_write_req (rfid_clock stale False p x s) = (to_fifo x \<noteq> None)"
    "fifo_data_in (rfid_clock stale False p x s) = (case to_fifo x of Some v \<Rightarrow> v | None \<Rightarrow> fifo_data_in s)"
proof -
  have v: "settings s = 0x112" "sender_ready q (sender_half s)" using assms(1) by (simp_all add: resting_def)
  have clock: "sender_half (rfid_clock stale False p x s) = sender_edge stale s"
    "receiver_half (rfid_clock stale False p x s) = receiver_edge (pin_rx p s) s"
    "settings (rfid_clock stale False p x s) = 0x112" "\<not> rdreq_pulse (rfid_clock stale False p x s)"
    using assms(2) v(1)
    by (cases x; simp add: rfid_clock_def registers_def write_register_def write_strobe_def pulse_generator_def)+
  show "resting (q @ (if fifo_write s \<and> length q < fifo_depth then [fifo_data_in s] else [])) (rfid_clock stale False p x s)"
    using sender_rests[OF v, of stale] receiver_rests[OF assms(1), of p] by (simp add: resting_def clock)
  show "fifo_in (receiver_half (rfid_clock stale False p x s)) = fifo_in (receiver_half s)"
    using receiver_rests[OF assms(1)] by (simp add: clock)
qed (use assms(2) in \<open>cases x; auto simp: rfid_clock_def registers_def write_register_def write_strobe_def
    rfid_times_def rfid_boundaries_def split: prod.split\<close>)+

definition no_strobe :: "rfid \<Rightarrow> bool" where
  "no_strobe s \<longleftrightarrow> \<not> fifo_write_req s \<and> \<not> fifo_write s \<and> \<not> already_seted s"

definition same_setup :: "rfid \<Rightarrow> rfid \<Rightarrow> bool" where
  "same_setup s t \<longleftrightarrow> fifo_in (receiver_half t) = fifo_in (receiver_half s) \<and> rfid_times t = rfid_times s \<and>
     rfid_boundaries t = rfid_boundaries s"

lemma rfid_clocks_append: "rfid_clocks stale (xs @ ys) s = rfid_clocks stale ys (rfid_clocks stale xs s)"
  by (induction stale xs s rule: rfid_clocks.induct) simp_all

text \<open>Between two writes the firmware reads, or does something else.\<close>

definition gap :: "(bool \<times> access) list \<Rightarrow> bool" where
  "gap g \<longleftrightarrow> list_all (\<lambda>(p, x). queueing x \<and> to_fifo x = None) g"

lemma gap_rests:
  assumes "resting q s" "no_strobe s" "gap g"
  shows "resting q (rfid_clocks stale g s) \<and> no_strobe (rfid_clocks stale g s) \<and> same_setup s (rfid_clocks stale g s)"
  using assms
proof (induction g arbitrary: s)
  case (Cons y g)
  obtain p x where y: "y = (p, x)" by (cases y)
  then have x: "queueing x" "to_fifo x = None" "gap g" using Cons.prems(3) by (simp_all add: gap_def)
  note step = resting_clock[OF Cons.prems(1) x(1), of stale p]
  have "resting q (rfid_clock stale False p x s)" "no_strobe (rfid_clock stale False p x s)"
    "same_setup s (rfid_clock stale False p x s)"
    using step x(2) Cons.prems(2) by (simp_all add: no_strobe_def same_setup_def)
  then show ?case using Cons.IH[OF _ _ x(3)] y by (simp add: same_setup_def)
qed (simp add: same_setup_def)

text \<open>A word written to register 2 is in the FIFO two cycles later.\<close>

lemma word_queued:
  assumes "resting q s" "no_strobe s" "length q < fifo_depth" "gap g" "2 \<le> length g"
  shows "resting (q @ [v]) (rfid_clocks stale ((p, Avs_write 2 v) # g) s) \<and>
    no_strobe (rfid_clocks stale ((p, Avs_write 2 v) # g) s) \<and> same_setup s (rfid_clocks stale ((p, Avs_write 2 v) # g) s)"
proof -
  obtain p1 x1 p2 x2 g' where g: "g = (p1, x1) # (p2, x2) # g'"
    using assms(5) by (cases g; cases "tl g") auto
  then have x: "queueing x1" "to_fifo x1 = None" "queueing x2" "to_fifo x2 = None" "gap g'"
    using assms(4) by (simp_all add: gap_def)
  define s1 where "s1 = rfid_clock stale False p (Avs_write 2 v) s"
  define s2 where "s2 = rfid_clock stale False p1 x1 s1"
  define s3 where "s3 = rfid_clock stale False p2 x2 s2"
  have q: "queueing (Avs_write 2 v)" by simp
  have 1: "resting q s1" "same_setup s s1" "fifo_write_req s1" "fifo_data_in s1 = v" "\<not> fifo_write s1" "\<not> already_seted s1"
    using resting_clock[OF assms(1) q, of stale p] assms(2) by (simp_all add: s1_def no_strobe_def same_setup_def)
  have 2: "resting q s2" "same_setup s s2" "\<not> fifo_write_req s2" "fifo_data_in s2 = v" "fifo_write s2" "already_seted s2"
    using resting_clock[OF 1(1) x(1), of stale p1] 1 x(2) by (simp_all add: s2_def same_setup_def)
  have 3: "resting (q @ [v]) s3" "same_setup s s3" "no_strobe s3"
    using resting_clock[OF 2(1) x(3), of stale p2] 2 x(4) assms(3) by (simp_all add: s3_def same_setup_def no_strobe_def)
  show ?thesis
    using gap_rests[OF 3(1,3) x(5), of stale] 3(2) by (simp add: g s1_def s2_def s3_def same_setup_def)
qed

fun queue_accesses :: "(bool \<times> cint \<times> (bool \<times> access) list) list \<Rightarrow> (bool \<times> access) list" where
  "queue_accesses [] = []"
| "queue_accesses ((p, v, g) # vs) = ((p, Avs_write 2 v) # g) @ queue_accesses vs"

lemma words_queued:
  assumes "resting q s" "no_strobe s" "length q + length vs \<le> fifo_depth" "\<forall>(p, v, g) \<in> set vs. gap g \<and> 2 \<le> length g"
  shows "resting (q @ map (fst \<circ> snd) vs) (rfid_clocks stale (queue_accesses vs) s) \<and>
    no_strobe (rfid_clocks stale (queue_accesses vs) s) \<and> same_setup s (rfid_clocks stale (queue_accesses vs) s)"
  using assms
proof (induction vs arbitrary: q s)
  case (Cons y vs)
  obtain p v g where y: "y = (p, v, g)" by (cases y)
  let ?s = "rfid_clocks stale ((p, Avs_write 2 v) # g) s"
  have "length q < fifo_depth" "gap g" "2 \<le> length g" using Cons.prems(3,4) y by auto
  note word = word_queued[OF Cons.prems(1,2) this, of v stale p]
  have "resting ((q @ [v]) @ map (fst \<circ> snd) vs) (rfid_clocks stale (queue_accesses vs) ?s) \<and>
    no_strobe (rfid_clocks stale (queue_accesses vs) ?s) \<and> same_setup ?s (rfid_clocks stale (queue_accesses vs) ?s)"
    using word Cons.prems(3,4) by (intro Cons.IH) auto
  moreover have "rfid_clocks stale (queue_accesses (y # vs)) s = rfid_clocks stale (queue_accesses vs) ?s"
    unfolding y queue_accesses.simps by (rule rfid_clocks_append)
  ultimately show ?case using word y by (simp add: same_setup_def comp_def)
qed (simp add: same_setup_def)

text \<open>A write in the cycle after another replaces its word, because the strobe sees one long request.\<close>

lemma consecutive_write_lost:
  assumes "resting q s" "no_strobe s" "length q < fifo_depth"
  shows "resting (q @ [w]) (rfid_clocks stale [(p, Avs_write 2 v), (p, Avs_write 2 w), (p, Avs_idle), (p, Avs_idle)] s)"
proof -
  define s1 where "s1 = rfid_clock stale False p (Avs_write 2 v) s"
  define s2 where "s2 = rfid_clock stale False p (Avs_write 2 w) s1"
  define s3 where "s3 = rfid_clock stale False p Avs_idle s2"
  have x: "queueing (Avs_write 2 v)" "queueing (Avs_write 2 w)" "queueing Avs_idle" by simp_all
  have 1: "resting q s1" "fifo_write_req s1" "\<not> fifo_write s1" "\<not> already_seted s1"
    using resting_clock[OF assms(1) x(1), of stale p] assms(2) by (simp_all add: s1_def no_strobe_def)
  have 2: "resting q s2" "fifo_write_req s2" "fifo_data_in s2 = w" "fifo_write s2" "already_seted s2"
    using resting_clock[OF 1(1) x(2), of stale p] 1 by (simp_all add: s2_def)
  have 3: "resting (q @ [w]) s3" "\<not> fifo_write s3"
    using resting_clock[OF 2(1) x(3), of stale p] 2 assms(3) by (simp_all add: s3_def)
  show ?thesis
    using resting_clock(1)[OF 3(1) x(3), of stale p] 3(2) by (simp add: s1_def s2_def s3_def)
qed

section \<open>A command by registers\<close>

lemma status_finished: "bit (status s) 3 \<longleftrightarrow> sender_finished (ctl (sender_half s))"
  by (simp add: status_def bit_or_iff)

text \<open>C3. The whole peripheral of fpga/RTL at the level of clock cycles, driven by its registers as the firmware does
  it: from rest, the words of a command and the void word are written to register 2, with at least two cycles
  of reading or nothing after each, then the start bit is set in the settings; whatever is read and whenever the
  start bit is cleared meanwhile, after a number of cycles that depends only on the command the status says
  that sending has finished, and the receive FIFO has grown by exactly the packages of the bits that were sent,
  with one more bit 1 if and only if the number of ones sent is odd.  Registers, strobes, FIFOs, controller,
  encoder, line code, decoder and constructor together do what the bus model assumes of a transmission.\<close>

theorem command_through_registers:
  assumes "resting [] s" "no_strobe s" "tari_ok (rfid_boundaries s) (unat (send_tari s))"
    "map (fst \<circ> snd) vs = ps @ [0]" "\<forall>(p, v, g) \<in> set vs. gap g \<and> 2 \<le> length g"
    "ps \<noteq> []" "0 \<notin> set ps" "\<forall>p \<in> set ps. mask_value p \<le> 26" "concat (map package_bits ps) \<noteq> [False]"
    "length ps < fifo_depth" "length (fifo_in (receiver_half s)) + length (ip_link odd_ones ps) \<le> fifo_depth"
  shows "\<exists>m. \<forall>p xs. length xs = m \<and> list_all (polling \<circ> snd) xs \<longrightarrow>
    (let s' = rfid_clocks stale (queue_accesses vs @ (p, Avs_write 0 0x152) # xs) s
     in bit (status s') 3 \<and> fifo_in (receiver_half s') = fifo_in (receiver_half s) @ ip_link odd_ones ps \<and>
        sender_ready [] (sender_half s') \<and> receiver_ready (receiver_half s'))"
proof -
  let ?s = "rfid_clocks stale (queue_accesses vs) s"
  have "length vs = length ps + 1" using arg_cong[OF assms(4), of length] by simp
  then have q: "resting (ps @ [0]) ?s" "no_strobe ?s" "same_setup s ?s"
    using words_queued[OF assms(1,2) _ assms(5), of stale] assms(4,10) by auto
  have a: "looped ?s" "settings ?s = 0x112" "sender_ready (ps @ [0]) (sender_half ?s)" "receiver_ready (receiver_half ?s)"
    using q by (simp_all add: looped_def resting_def no_strobe_def)
  have "send_tari ?s = send_tari s" using q(3) by (simp add: same_setup_def rfid_times_def)
  then have b: "tari_ok (rfid_boundaries ?s) (unat (send_tari ?s))" and f: "fifo_in (receiver_half ?s) = fifo_in (receiver_half s)"
    using assms(3) q(3) by (simp_all add: same_setup_def)
  obtain m where m: "\<And>p xs. length xs = m \<Longrightarrow> list_all (polling \<circ> snd) xs \<Longrightarrow>
    (let s' = rfid_clocks stale ((p, Avs_write 0 0x152) # xs) ?s
     in looped s' \<and> sender_ready [] (sender_half s') \<and> sender_finished (ctl (sender_half s')) \<and>
        receiver_ready (receiver_half s') \<and> fifo_in (receiver_half s') = fifo_in (receiver_half ?s) @ ip_link odd_ones ps)"
    using transmits[OF a assms(6-9) b assms(11)[folded f], of stale] by metis
  show ?thesis
  proof (intro exI[of _ m] allI impI)
    fix p and xs :: "(bool \<times> access) list" assume "length xs = m \<and> list_all (polling \<circ> snd) xs"
    then show "let s' = rfid_clocks stale (queue_accesses vs @ (p, Avs_write 0 0x152) # xs) s
      in bit (status s') 3 \<and> fifo_in (receiver_half s') = fifo_in (receiver_half s) @ ip_link odd_ones ps \<and>
        sender_ready [] (sender_half s') \<and> receiver_ready (receiver_half s')"
      using m[of xs p] unfolding rfid_clocks_append status_finished Let_def f by blast
  qed
qed

text \<open>After the reset and the writes of the programs, one cycle of low line seen.\<close>

definition configured :: rfid where
  "configured =
     \<lparr>settings = 0x112, send_tari = 500, send_tari_101 = 505, send_tari_099 = 495, send_tari_1616 = 808,
      send_tari_1584 = 792, send_pw = 250, send_delimiter = 3125, send_RTcal = 6750, send_TRcal = 6750,
      readdata = 0, fifo_data_in = 0, fifo_write_req = False, fifo_write = False, already_seted = False,
      rdreq_pulse = False, read_requested = False, sender_half = snd_part (radio_init boundaries_500 []),
      receiver_half = rcv_part (radio_init boundaries_500 [])\<rparr>"

lemma configured_rests: "resting [] configured" "no_strobe configured" "rfid_boundaries configured = boundaries_500"
  using radio_init_ready[of "[]" boundaries_500]
  by (simp_all add: resting_def no_strobe_def configured_def rfid_boundaries_def boundaries_500_def)

text \<open>101 and then a single 1: the number of ones is odd, so 10111 arrives.\<close>

lemma command_through_registers_witness:
  "\<exists>m. \<forall>xs. length xs = m \<and> list_all (polling \<circ> snd) xs \<longrightarrow>
     fifo_in (receiver_half (rfid_clocks 0 (queue_accesses
         [(False, 0x143, [(False, Avs_idle), (True, Avs_read 3)]), (True, 0x41, [(False, Avs_idle), (False, Avs_idle)]),
          (False, 0, [(False, Avs_read 3), (False, Avs_read 5)])] @ (False, Avs_write 0 0x152) # xs) configured)) =
       [0x745, 0]"
proof -
  let ?vs = "[(False, 0x143 :: cint, [(False, Avs_idle), (True, Avs_read 3)]), (True, 0x41, [(False, Avs_idle), (False, Avs_idle)]),
          (False, 0, [(False, Avs_read 3), (False, Avs_read 5)])]"
  have bits: "map package_bits [0x143, 0x41] = [[True, False, True], [True]]"
    by (simp add: package_bits_def upt_conv_Cons)
  have "ip_link odd_ones [0x143, 0x41] = package_constructor [True, False, True, True, True]"
    by (simp add: ip_link_def bits[simplified] line_def odd_ones_def)
  also have "\<dots> = [0x745, 0]" by (simp add: constructor_rest pack_bits_def)
  finally have link: "ip_link odd_ones [0x143, 0x41] = [0x745, 0]" .
  have empty: "fifo_in (receiver_half configured) = []" by (simp add: configured_def radio_init_empty)
  have tari: "tari_ok (rfid_boundaries configured) (unat (send_tari configured))"
    using tari_500_ok by (simp add: configured_rests) (simp add: configured_def times_500_def)
  have vs: "map (fst \<circ> snd) ?vs = [0x143, 0x41] @ [0]" "\<forall>(p, v, g) \<in> set ?vs. gap g \<and> 2 \<le> length g"
    by (simp_all add: gap_def)
  obtain m where "\<forall>p xs. length xs = m \<and> list_all (polling \<circ> snd) xs \<longrightarrow>
    (let s' = rfid_clocks 0 (queue_accesses ?vs @ (p, Avs_write 0 0x152) # xs) configured
     in bit (status s') 3 \<and> fifo_in (receiver_half s') = fifo_in (receiver_half configured) @ ip_link odd_ones [0x143, 0x41] \<and>
        sender_ready [] (sender_half s') \<and> receiver_ready (receiver_half s'))"
    using command_through_registers[OF configured_rests(1,2) tari vs, of 0] bits
    by (auto simp: mask_value_def link empty fifo_depth_def)
  then show ?thesis unfolding Let_def link empty by auto
qed

end
