(* ===== verification/Soc.thy ===== *)
theory Soc
  imports Loopback Boot
begin

text \<open>
  The whole system: the address ranges of system.h and linker.h, and the bus that leads every access
  to the slave whose range holds its address.  On that bus stand the RFID peripheral of Ip_Core, the
  JTAG UART with its host, the system id and the memory.  Both the contract of the radio loops and
  the one of the UART driver hold on it, each with the other device's part left alone.
\<close>

section \<open>system.h and linker.h\<close>

definition ONCHIP_MEMORY2_0_BASE :: cint where "ONCHIP_MEMORY2_0_BASE = 0x20000"
definition ONCHIP_MEMORY2_0_SPAN :: cint where "ONCHIP_MEMORY2_0_SPAN = 115200"
definition SYSID_QSYS_0_BASE :: cint where "SYSID_QSYS_0_BASE = 0x41040"
definition SYSID_QSYS_0_SPAN :: cint where "SYSID_QSYS_0_SPAN = 8"
definition SYSID_QSYS_0_ID :: cint where "SYSID_QSYS_0_ID = 255"
definition SYSID_QSYS_0_TIMESTAMP :: cint where "SYSID_QSYS_0_TIMESTAMP = 1635443510"
definition JTAG_UART_0_SPAN :: cint where "JTAG_UART_0_SPAN = 8"
definition ALT_CPU_RESET_ADDR :: cint where "ALT_CPU_RESET_ADDR = 0x00020000"
definition ALT_CPU_EXCEPTION_ADDR :: cint where "ALT_CPU_EXCEPTION_ADDR = 0x00020020"
definition ALT_CPU_DATA_ADDR_WIDTH :: nat where "ALT_CPU_DATA_ADDR_WIDTH = 0x13"
definition ONCHIP_MEMORY2_0_REGION_BASE :: cint where "ONCHIP_MEMORY2_0_REGION_BASE = 0x20020"
definition ONCHIP_MEMORY2_0_REGION_SPAN :: cint where "ONCHIP_MEMORY2_0_REGION_SPAN = 115168"
definition RESET_REGION_BASE :: cint where "RESET_REGION_BASE = 0x20000"
definition RESET_REGION_SPAN :: cint where "RESET_REGION_SPAN = 32"

lemmas map_defs = ONCHIP_MEMORY2_0_BASE_def ONCHIP_MEMORY2_0_SPAN_def SYSID_QSYS_0_BASE_def SYSID_QSYS_0_SPAN_def
  JTAG_UART_0_BASE_def JTAG_UART_0_SPAN_def NIOS_RFID_PERIPHERAL_0_BASE_def NIOS_RFID_PERIPHERAL_0_SPAN_def
  ALT_CPU_RESET_ADDR_def ALT_CPU_EXCEPTION_ADDR_def ALT_CPU_DATA_ADDR_WIDTH_def ONCHIP_MEMORY2_0_REGION_BASE_def
  ONCHIP_MEMORY2_0_REGION_SPAN_def RESET_REGION_BASE_def RESET_REGION_SPAN_def

datatype slave = Onchip_memory | Rfid_peripheral | Sysid | Jtag_uart

fun slave_range :: "slave \<Rightarrow> cint \<times> cint" where
  "slave_range Onchip_memory = (ONCHIP_MEMORY2_0_BASE, ONCHIP_MEMORY2_0_SPAN)"
| "slave_range Rfid_peripheral = (NIOS_RFID_PERIPHERAL_0_BASE, NIOS_RFID_PERIPHERAL_0_SPAN)"
| "slave_range Sysid = (SYSID_QSYS_0_BASE, SYSID_QSYS_0_SPAN)"
| "slave_range Jtag_uart = (JTAG_UART_0_BASE, JTAG_UART_0_SPAN)"

definition in_range :: "cint \<times> cint \<Rightarrow> cint \<Rightarrow> bool" where
  "in_range r a \<longleftrightarrow> fst r \<le> a \<and> a < fst r + snd r"

definition slaves_at :: "cint \<Rightarrow> slave list" where
  "slaves_at a = filter (\<lambda>s. in_range (slave_range s) a) [Onchip_memory, Rfid_peripheral, Sysid, Jtag_uart]"

section \<open>The system id (altera_avalon_sysid_qsys.c)\<close>

text \<open>
  The routine is compiled only when SYSID_BASE is defined, which system.h does not do: the macros
  SYSID_BASE, SYSID_TIMESTAMP and SYSID_ID are arguments.
\<close>

definition alt_avalon_sysid_qsys_test :: "'d bus \<Rightarrow> cint \<Rightarrow> cint \<Rightarrow> cint \<Rightarrow> 'd \<Rightarrow> cint \<times> 'd" where
  "alt_avalon_sysid_qsys_test b sysid_base sysid_timestamp sysid_id d =
     (case IORD b sysid_base 0 d of (hardware_id, d) \<Rightarrow>
      case IORD b sysid_base 1 d of (hardware_timestamp, d) \<Rightarrow>
        if sysid_timestamp = hardware_timestamp \<and> sysid_id = hardware_id then (0, d)
        else (if 0 < sint (hardware_timestamp - sysid_timestamp) then 1 else - 1, d))"

section \<open>The system\<close>

record soc =
  radio :: ip
  uart :: jtag_core
  ram :: "cint \<Rightarrow> cint"

text \<open>The radio sees time pass with every access; the others act on their own ones only.\<close>

definition soc_read :: "(bool list \<Rightarrow> bool) \<Rightarrow> soc \<Rightarrow> cint \<Rightarrow> cint \<times> soc" where
  "soc_read dummy s a =
     (case ip_read dummy (radio s) a of (v, d) \<Rightarrow>
        (let s = s\<lparr>radio := d\<rparr>
         in case slaves_at a of
              [Rfid_peripheral] \<Rightarrow> (v, s)
            | [Jtag_uart] \<Rightarrow> (case core_read JTAG_UART_0_BASE (uart s) a of (v, u) \<Rightarrow> (v, s\<lparr>uart := u\<rparr>))
            | [Sysid] \<Rightarrow> (if a = SYSID_QSYS_0_BASE then SYSID_QSYS_0_ID else SYSID_QSYS_0_TIMESTAMP, s)
            | [Onchip_memory] \<Rightarrow> (ram s a, s)
            | _ \<Rightarrow> (0, s)))"

definition soc_write :: "(bool list \<Rightarrow> bool) \<Rightarrow> soc \<Rightarrow> cint \<Rightarrow> cint \<Rightarrow> soc" where
  "soc_write dummy s a v =
     (let s = s\<lparr>radio := ip_write dummy (radio s) a v\<rparr>
      in case slaves_at a of
           [Jtag_uart] \<Rightarrow> s\<lparr>uart := core_write JTAG_UART_0_BASE (uart s) a v\<rparr>
         | [Onchip_memory] \<Rightarrow> s\<lparr>ram := (ram s)(a := v)\<rparr>
         | _ \<Rightarrow> s)"

definition soc_bus :: "(bool list \<Rightarrow> bool) \<Rightarrow> soc bus" where
  "soc_bus dummy = \<lparr>ldwio = soc_read dummy, stwio = soc_write dummy\<rparr>"

section \<open>The address map\<close>

lemma in_range_unat:
  assumes "unat (fst r) + unat (snd r) < 2 ^ 32"
  shows "in_range r a \<longleftrightarrow> unat (fst r) \<le> unat a \<and> unat a < unat (fst r) + unat (snd r)"
proof -
  have "unat (fst r + snd r) = unat (fst r) + unat (snd r)"
    using assms by (subst unat_add_lem[THEN iffD1]) simp_all
  then show ?thesis by (simp add: in_range_def word_le_nat_alt word_less_nat_alt)
qed

lemma slave_ranges:
  "in_range (slave_range Onchip_memory) a \<longleftrightarrow> 0x20000 \<le> unat a \<and> unat a < 0x3C200"
  "in_range (slave_range Rfid_peripheral) a \<longleftrightarrow> 0x41000 \<le> unat a \<and> unat a < 0x41040"
  "in_range (slave_range Sysid) a \<longleftrightarrow> 0x41040 \<le> unat a \<and> unat a < 0x41048"
  "in_range (slave_range Jtag_uart) a \<longleftrightarrow> 0x41048 \<le> unat a \<and> unat a < 0x41050"
  by (subst in_range_unat; simp add: map_defs)+

lemma region_ranges:
  "in_range (RESET_REGION_BASE, RESET_REGION_SPAN) a \<longleftrightarrow> 0x20000 \<le> unat a \<and> unat a < 0x20020"
  "in_range (ONCHIP_MEMORY2_0_REGION_BASE, ONCHIP_MEMORY2_0_REGION_SPAN) a \<longleftrightarrow> 0x20020 \<le> unat a \<and> unat a < 0x3C200"
  by (subst in_range_unat; simp add: map_defs)+

text \<open>No address belongs to two slaves or lies outside the processor's address width; the two
  regions of the linker divide the memory between them, the reset vector in the first and the
  exception vector at the start of the second.\<close>

lemma address_map:
  "length (slaves_at a) \<le> 1"
  "slaves_at a \<noteq> [] \<Longrightarrow> unat a < 2 ^ ALT_CPU_DATA_ADDR_WIDTH"
  by (auto simp: slaves_at_def slave_ranges ALT_CPU_DATA_ADDR_WIDTH_def simp del: slave_range.simps split: if_splits)

lemma memory_regions:
  "in_range (slave_range Onchip_memory) a \<longleftrightarrow>
     in_range (RESET_REGION_BASE, RESET_REGION_SPAN) a \<noteq>
     in_range (ONCHIP_MEMORY2_0_REGION_BASE, ONCHIP_MEMORY2_0_REGION_SPAN) a"
  "ALT_CPU_RESET_ADDR = RESET_REGION_BASE" "ALT_CPU_EXCEPTION_ADDR = ONCHIP_MEMORY2_0_REGION_BASE"
  unfolding slave_ranges region_ranges by (auto simp: map_defs)

lemma slaves_selected:
  "slaves_at 0x41000 = [Rfid_peripheral]" "slaves_at 0x41008 = [Rfid_peripheral]"
  "slaves_at 0x4100C = [Rfid_peripheral]" "slaves_at 0x41010 = [Rfid_peripheral]"
  "slaves_at 0x41040 = [Sysid]" "slaves_at 0x41044 = [Sysid]"
  "slaves_at 0x41048 = [Jtag_uart]" "slaves_at 0x4104C = [Jtag_uart]"
  by (simp_all add: slaves_at_def slave_ranges del: slave_range.simps)

section \<open>The system id\<close>

lemma sysid_verdict:
  assumes "\<And>r d. IORD b base r d = ((if r = 0 then hw_id else hw_time), d)"
    and "unat hw_time < unat sw_time + 0x80000000" "unat sw_time \<le> unat hw_time + 0x80000000"
  shows "alt_avalon_sysid_qsys_test b base sw_time sw_id d =
    (if hw_time = sw_time \<and> hw_id = sw_id then 0 else if sw_time < hw_time then 1 else - 1, d)"
proof -
  have u: "int (unat x) = uint x" for x :: cint by simp
  have "sint (hw_time - sw_time) = sint (of_int (uint hw_time - uint sw_time) :: cint)" by simp
  also have "\<dots> = signed_take_bit 31 (uint hw_time - uint sw_time)" by (simp only: signed_of_int) simp
  also have "\<dots> = uint hw_time - uint sw_time"
  proof (rule signed_take_bit_int_eq_self)
    have "- 0x80000000 \<le> uint hw_time - uint sw_time \<and> uint hw_time - uint sw_time < 0x80000000"
      unfolding u[symmetric] using assms(2,3) by linarith
    then show "- (2 ^ 31) \<le> uint hw_time - uint sw_time" "uint hw_time - uint sw_time < 2 ^ 31" by simp_all
  qed
  finally have "0 < sint (hw_time - sw_time) \<longleftrightarrow> sw_time < hw_time" by (simp add: word_less_def)
  then show ?thesis by (auto simp: alt_avalon_sysid_qsys_test_def assms(1))
qed

text \<open>With build times further apart than that the verdict is the wrong way round.\<close>

lemma sysid_wraps:
  "fst (alt_avalon_sysid_qsys_test \<lparr>ldwio = \<lambda>d a. (if a = 0 then 255 else 0x80000001, d), stwio = \<lambda>d a v. d\<rparr> 0 0 255 ()) = - 1"
  by (simp add: alt_avalon_sysid_qsys_test_def IORD_def IO_CALC_ADDRESS_NATIVE_def)

lemma sysid_of_soc:
  "fst (alt_avalon_sysid_qsys_test (soc_bus dummy) SYSID_QSYS_0_BASE SYSID_QSYS_0_TIMESTAMP SYSID_QSYS_0_ID s) = 0"
  by (simp add: alt_avalon_sysid_qsys_test_def IORD_def IO_CALC_ADDRESS_NATIVE_def soc_bus_def soc_read_def
      slaves_selected SYSID_QSYS_0_BASE_def Let_def split: prod.split)

section \<open>Accesses to one device\<close>

lemma soc_read_radio:
  assumes "slaves_at a = [Rfid_peripheral]" "ldwio (soc_bus dummy) s a = (v, s')"
  shows "ldwio (ip_bus dummy) (radio s) a = (v, radio s')" "uart s' = uart s" "ram s' = ram s"
  using assms by (auto simp: soc_bus_def ip_bus_def soc_read_def Let_def split: prod.splits)

lemma soc_write_radio:
  assumes "slaves_at a = [Rfid_peripheral]"
  shows "stwio (soc_bus dummy) s a v = s\<lparr>radio := stwio (ip_bus dummy) (radio s) a v\<rparr>"
  using assms by (simp add: soc_bus_def ip_bus_def soc_write_def Let_def)

lemma radio_unselected:
  "\<not> ip_selected a \<Longrightarrow> ip_read dummy d a = (0, ip_tick dummy d)"
  "\<not> ip_selected a \<Longrightarrow> ip_write dummy d a v = ip_tick dummy d"
  by (simp_all add: ip_read_def ip_write_def Let_def)

lemma uart_addresses:
  "\<not> ip_selected 0x41048" "\<not> ip_selected 0x4104C"
  "IO_CALC_ADDRESS_NATIVE JTAG_UART_0_BASE DATA_REG = 0x41048"
  "IO_CALC_ADDRESS_NATIVE JTAG_UART_0_BASE CONTROL_REG = 0x4104C"
  by (simp_all add: ip_selected_def config_defs IO_CALC_ADDRESS_NATIVE_def JTAG_UART_0_BASE_def DATA_REG_def
      CONTROL_REG_def)

lemma soc_control:
  "IORD_CONTROL (soc_bus dummy) JTAG_UART_0_BASE s = (v, s') \<Longrightarrow>
   IORD_CONTROL (core_bus JTAG_UART_0_BASE) JTAG_UART_0_BASE (uart s) = (v, uart s') \<and>
   radio s' = ip_tick dummy (radio s) \<and> ram s' = ram s"
  by (auto simp: IORD_CONTROL_def IORD_def soc_bus_def core_bus_def soc_read_def uart_addresses slaves_selected
      radio_unselected Let_def split: prod.splits)

lemma soc_data:
  "IOWR_DATA (soc_bus dummy) JTAG_UART_0_BASE x s =
   s\<lparr>radio := ip_tick dummy (radio s), uart := IOWR_DATA (core_bus JTAG_UART_0_BASE) JTAG_UART_0_BASE x (uart s)\<rparr>"
  by (simp add: IOWR_DATA_def IOWR_def soc_bus_def core_bus_def soc_write_def uart_addresses slaves_selected
      radio_unselected Let_def)

section \<open>Both contracts\<close>

text \<open>For the radio loops the whole system is the peripheral; nothing they do reaches the UART or the
  memory, which keep the state \<open>u\<close> and \<open>m\<close>.\<close>

lemmas radio_read = soc_read_radio[OF slaves_selected(3)] soc_read_radio[OF slaves_selected(4)]
lemmas radio_write = soc_write_radio[OF slaves_selected(1)] soc_write_radio[OF slaves_selected(2)]

interpretation soc_radio: rfid_link "soc_bus dummy" "\<lambda>s. ip_inv dummy (radio s) \<and> uart s = u \<and> ram s = m"
  "\<lambda>s. ip_txq (radio s)" "\<lambda>s. ip_arrivals dummy (radio s)" "\<lambda>s. ip_ready (radio s)" "\<lambda>s. ip_started (radio s)"
  "\<lambda>s. ip_delay (radio s)" "ip_link dummy" fifo_depth for dummy u m
proof unfold_locales
  fix d d' :: soc and v :: cint
  assume inv: "ip_inv dummy (radio d) \<and> uart d = u \<and> ram d = m" and r: "ldwio (soc_bus dummy) d 0x4100C = (v, d')"
  note i = conjunct1[OF inv] and a = radio_read(1-3)[OF r]
  show "(ip_inv dummy (radio d') \<and> uart d' = u \<and> ram d' = m) \<and> ip_txq (radio d') = ip_txq (radio d) \<and>
      ip_arrivals dummy (radio d') = ip_arrivals dummy (radio d) \<and>
      (ip_ready (radio d) \<longrightarrow> ip_ready (radio d')) \<and> (ip_started (radio d) \<longrightarrow> ip_started (radio d'))"
    using ip.status_keeps[OF i a(1)] a inv by simp
  show "fifo_depth \<le> length (ip_txq (radio d))" if "ip_arrivals dummy (radio d) = []" "bit v 0"
    using ip.status_full[OF i a(1) that] .
  show "ip_delay (radio d') < ip_delay (radio d)" if "ip_arrivals dummy (radio d) \<noteq> []" "bit v 13"
    using ip.status_empty[OF i a(1) that] .
  show "ip_ready (radio d')" if "\<not> bit v 13" using ip.status_nonempty[OF i a(1) that] .
  show "ip_delay (radio d') < ip_delay (radio d)" if "ip_started (radio d)" "\<not> bit v 3"
    using ip.status_finish[OF i a(1) that] .
next
  fix d d' :: soc and v :: cint
  assume inv: "ip_inv dummy (radio d) \<and> uart d = u \<and> ram d = m" and ready: "ip_ready (radio d)"
    and r: "ldwio (soc_bus dummy) d 0x41010 = (v, d')"
  note a = radio_read(4-6)[OF r]
  show "(ip_inv dummy (radio d') \<and> uart d' = u \<and> ram d' = m) \<and> ip_txq (radio d') = ip_txq (radio d) \<and>
      ip_arrivals dummy (radio d') = ip_arrivals dummy (radio d) \<and> ip_ready (radio d') \<and>
      ip_arrivals dummy (radio d) \<noteq> [] \<and> v = hd (ip_arrivals dummy (radio d))"
    using ip.data_read[OF conjunct1[OF inv] ready a(1)] a inv by simp
next
  fix d d' :: soc
  assume inv: "ip_inv dummy (radio d) \<and> uart d = u \<and> ram d = m" and ready: "ip_ready (radio d)"
    and d': "d' = stwio (soc_bus dummy) (stwio (soc_bus dummy) d 0x41000 0x1112) 0x41000 0x112"
  show "(ip_inv dummy (radio d') \<and> uart d' = u \<and> ram d' = m) \<and> ip_txq (radio d') = ip_txq (radio d) \<and>
      ip_arrivals dummy (radio d') = tl (ip_arrivals dummy (radio d))"
    using ip.read_request[OF conjunct1[OF inv] ready refl] inv by (simp add: d' radio_write)
next
  fix d d' :: soc and p :: cint
  assume inv: "ip_inv dummy (radio d) \<and> uart d = u \<and> ram d = m" and q: "ip_arrivals dummy (radio d) = []"
    and len: "length (ip_txq (radio d)) < fifo_depth" and d': "d' = stwio (soc_bus dummy) d 0x41008 p"
  show "(ip_inv dummy (radio d') \<and> uart d' = u \<and> ram d' = m) \<and> ip_txq (radio d') = ip_txq (radio d) @ [p] \<and>
      ip_arrivals dummy (radio d') = []"
    using ip.fifo_write[OF conjunct1[OF inv] q len refl] inv by (simp add: d' radio_write)
next
  fix d d' :: soc and ps
  assume inv: "ip_inv dummy (radio d) \<and> uart d = u \<and> ram d = m" and q: "ip_arrivals dummy (radio d) = []"
    and ps: "ip_txq (radio d) = ps @ [0]" "0 \<notin> set ps" "ps \<noteq> []" and len: "length (ip_link dummy ps) \<le> fifo_depth"
    and d': "d' = stwio (soc_bus dummy) (stwio (soc_bus dummy) d 0x41000 0x152) 0x41000 0x112"
  show "(ip_inv dummy (radio d') \<and> uart d' = u \<and> ram d' = m) \<and> ip_txq (radio d') = [] \<and>
      ip_arrivals dummy (radio d') = ip_link dummy ps \<and> ip_started (radio d')"
    using ip.start[OF conjunct1[OF inv] q ps len refl] inv by (simp add: d' radio_write)
next
  fix d d' :: soc
  assume inv: "ip_inv dummy (radio d) \<and> uart d = u \<and> ram d = m" and d': "d' = stwio (soc_bus dummy) d 0x41000 0x112"
  show "(ip_inv dummy (radio d') \<and> uart d' = u \<and> ram d' = m) \<and> ip_txq (radio d') = ip_txq (radio d) \<and>
      ip_arrivals dummy (radio d') = ip_arrivals dummy (radio d)"
    using ip.steady_write[OF conjunct1[OF inv] refl] inv by (simp add: d' radio_write)
qed

text \<open>For the UART driver the system is the core; the radio goes on meanwhile, and neither what it has
  to send (\<open>t\<close>) nor what arrives (\<open>r\<close>) changes.\<close>

definition uart_ready :: "(bool list \<Rightarrow> bool) \<Rightarrow> cint list \<Rightarrow> cint list \<Rightarrow> (cint \<Rightarrow> cint) \<Rightarrow> soc \<Rightarrow> bool" where
  "uart_ready dummy t r m s \<longleftrightarrow> core_ready (uart s) \<and> ip_inv dummy (radio s) \<and> ip_txq (radio s) = t \<and>
     ip_arrivals dummy (radio s) = r \<and> ram s = m"

interpretation soc_uart: jtag_port "soc_bus dummy" JTAG_UART_0_BASE "uart_ready dummy t r m"
  "\<lambda>s. core_emitted (uart s)" "\<lambda>s. host_idle (uart s)" for dummy t r m
proof unfold_locales
  fix d d' :: soc and v x :: cint
  assume ready: "uart_ready dummy t r m d" and c: "IORD_CONTROL (soc_bus dummy) JTAG_UART_0_BASE d = (v, d')"
  note a = soc_control[OF c] and k = ip_tick_keeps[of dummy "radio d"] and kept = uart_ready_def
  have core: "core_ready (uart d)" using ready by (simp add: kept)
  note on_core = conjunct1[OF a]
  show "uart_ready dummy t r m d' \<and> core_emitted (uart d') = core_emitted (uart d)"
    using core.control_keeps[OF core on_core] a k ready by (simp add: kept)
  show "host_idle (uart d') < host_idle (uart d)"
    if "v AND CONTROL_WSPACE_MSK = 0"
    using core.host_reads[OF core on_core that] .
  show "uart_ready dummy t r m (IOWR_DATA (soc_bus dummy) JTAG_UART_0_BASE x d') \<and>
      core_emitted (uart (IOWR_DATA (soc_bus dummy) JTAG_UART_0_BASE x d')) = core_emitted (uart d') @ [ucast x]"
    if "v AND CONTROL_WSPACE_MSK \<noteq> 0"
    using core.write_emits_byte[OF core on_core that, of x] a k ip_tick_keeps[of dummy "radio d'"] ready
    by (simp add: kept soc_data)
qed

section \<open>A program on the system\<close>

text \<open>A write to the standard output of a booted program, on the system.\<close>

lemma soc_stdout:
  assumes "Boot.booted s" and "uart_ready dummy t r m d" and "0 \<le> sint len" and "nat (sint len) \<le> length ptr"
  shows "\<exists>d'. alt_write (board_devices (soc_bus dummy)) 1 ptr len ((hal_part s)\<lparr>world := d\<rparr>) =
      returns (len, (hal_part s)\<lparr>world := d'\<rparr>) \<and> uart_ready dummy t r m d' \<and>
    core_emitted (uart d') = core_emitted (uart d) @ take (nat (sint len)) ptr"
proof -
  let ?h = "(hal_part s)\<lparr>world := d\<rparr>"
  have "fd_flags (alt_fd_list ?h ! 1) AND O_ACCMODE \<noteq> O_RDONLY" "1 < length (alt_fd_list ?h)"
    "fdev (alt_fd_list ?h ! 1) = Some 1"
    using assms(1) by (simp_all add: Boot.booted_def flag_defs)
  moreover have "dev_write (board_devices (soc_bus dummy) 1) =
      Some (altera_avalon_jtag_uart_write_fd (soc_bus dummy) JTAG_UART_0_BASE)"
    by (simp add: board_devices_def jtag_uart_dev_def)
  moreover have "1 < ALT_MAX_FD" "uart_ready dummy t r m (world ?h)" using assms(2) by (simp_all add: ALT_MAX_FD_def)
  ultimately have "\<exists>d'. alt_write (board_devices (soc_bus dummy)) (of_nat 1) ptr len ?h =
      returns (len, ?h\<lparr>world := d'\<rparr>) \<and> uart_ready dummy t r m d' \<and>
    core_emitted (uart d') = core_emitted (uart (world ?h)) @ take (nat (sint len)) ptr"
    using assms(3,4) by (intro soc_uart.alt_write_emits)
  then show ?thesis by (simp only: of_nat_1) simp
qed

definition soc_idle :: "(bool list \<Rightarrow> bool) \<Rightarrow> soc \<Rightarrow> bool" where
  "soc_idle dummy s \<longleftrightarrow> ip_idle dummy (radio s) \<and> core_ready (uart s)"

lemma soc_send:
  assumes "soc_idle dummy (dev w)" and "csize c = of_nat n" "n mod 26 \<noteq> 0" "n mod 26 \<noteq> 25" "n < 64"
  shows "\<exists>d. sender_send_command (soc_bus dummy) stack c w = returns (w\<lparr>dev := d\<rparr>) \<and>
    uart_ready dummy [] (map (word_of (line_size dummy n (result_data c))
      (line_data dummy n (result_data c))) [0..<n_packages n] @ [0]) (ram (dev w)) d \<and> uart d = uart (dev w)"
proof -
  have "n_packages n < 4" using assms(5) by (simp add: n_packages_def)
  then show ?thesis
    using soc_radio.sender_send_command_returns[where dummy = dummy and w = w and c = c and n = n and stack = stack
        and u = "uart (dev w)" and m = "ram (dev w)"]
      assms ip_link_packages[OF assms(3-5), of dummy "result_data c"]
    by (simp add: soc_idle_def ip_idle_def fifo_depth_def uart_ready_def) (elim exE conjE, rule exI, intro conjI, assumption, simp_all)
qed

text \<open>C17. Radio and console do not disturb each other on the whole system.  A command of n < 64 bits, where n modulo
  26 is neither 0 nor 25 and no chunk is zero, is sent; then, while its packages are arriving, any text is
  written to the standard output of a booted program; then the packages are received.  The write returns the
  length of the text and the host has been sent exactly the text; the receiver returns 0 with the chunks and the
  size of the line, as in C2, as if nothing had been written; the memory is untouched, and both devices are idle again.\<close>

theorem output_while_receiving:
  assumes "soc_idle dummy (dev w)" and "Boot.booted s"
    and "csize c = of_nat n" and "n mod 26 \<noteq> 0" and "n mod 26 \<noteq> 25" and "n < 64"
    and "\<forall>k < n_packages n. chunk n (result_data c) k \<noteq> 0"
    and "n_packages n \<le> length vec" and "int (n_packages n) \<le> sint quant" and "length msg < 2 ^ 31"
  shows "\<exists>d1 d2 d3. sender_send_command (soc_bus dummy) stack c w = returns (w\<lparr>dev := d1\<rparr>) \<and>
    alt_write (board_devices (soc_bus dummy)) 1 msg (of_nat (length msg)) ((hal_part s)\<lparr>world := d1\<rparr>) =
      returns (of_nat (length msg), (hal_part s)\<lparr>world := d2\<rparr>) \<and>
    receiver_get_package (soc_bus dummy) vec quant (w\<lparr>dev := d2\<rparr>) =
      returns (0, chunks (line_size dummy n (result_data c)) (line_data dummy n (result_data c)) @
                  drop (n_packages n) vec,
               of_nat (line_size dummy n (result_data c)), c_printf msg_eop [] (w\<lparr>dev := d3\<rparr>)) \<and>
    soc_idle dummy d3 \<and> core_emitted (uart d3) = core_emitted (uart (dev w)) @ msg \<and> ram d3 = ram (dev w)"
proof -
  let ?m = "line_size dummy n (result_data c)" and ?rd = "line_data dummy n (result_data c)"
  let ?ws = "map (word_of ?m ?rd) [0..<n_packages n]" and ?len = "of_nat (length msg) :: cint"
  note m = n_packages_line_size[OF assms(5), of dummy "result_data c"]
  obtain d where d: "sender_send_command (soc_bus dummy) stack c w = returns (w\<lparr>dev := d\<rparr>)"
      "uart_ready dummy [] (?ws @ [0]) (ram (dev w)) d" "uart d = uart (dev w)"
    using soc_send[OF assms(1,3-6), of stack] by blast
  have len: "sint ?len = int (length msg)" using assms(10) by (simp add: sint_of_nat_small)
  obtain e where e: "alt_write (board_devices (soc_bus dummy)) 1 msg ?len ((hal_part s)\<lparr>world := d\<rparr>) =
      returns (?len, (hal_part s)\<lparr>world := e\<rparr>)" "uart_ready dummy [] (?ws @ [0]) (ram (dev w)) e"
      "core_emitted (uart e) = core_emitted (uart d) @ msg"
    using soc_stdout[OF assms(2) d(2), of ?len msg] len by auto
  have data: "map package_data ?ws = chunks ?m ?rd"
    by (simp add: chunks_def m package_data_word_of comp_def)
  have size: "sum_list (map package_mask_value ?ws) = of_nat ?m"
    using sum_mask_values[of ?m ?rd] by (simp only: m)
  have "\<forall>p \<in> set ?ws. package_data p \<noteq> 0"
    using assms(6,7) by (auto simp: package_data_word_of chunk_line_nonzero)
  then obtain d' where "receiver_get_package (soc_bus dummy) vec quant (w\<lparr>dev := e\<rparr>) =
      returns (0, chunks ?m ?rd @ drop (n_packages n) vec, of_nat ?m,
        c_printf msg_eop [] (w\<lparr>dev := d'\<rparr>))"
      "ip_inv dummy (radio d')" "uart d' = uart e" "ram d' = ram e" "ip_txq (radio d') = []" "ip_arrivals dummy (radio d') = []"
    using soc_radio.receiver_loop_returns[where w = "w\<lparr>dev := e\<rparr>" and dummy = dummy and ws = ?ws and z = 0
        and rest = "[]" and i = 0 and vec = vec and q = quant and ?p0.0 = 1 and sz = 0 and u = "uart e" and m = "ram e"]
      assms(8,9) e(2)
    unfolding receiver_get_package_def data size uart_ready_def by auto
  then show ?thesis
    using d e by (intro exI[of _ d] exI[of _ e] exI[of _ d']) (auto simp: soc_idle_def ip_idle_def uart_ready_def)
qed

definition soc_start :: soc where
  "soc_start = \<lparr>radio = ip_configured, uart = core_at_reset [], ram = \<lambda>_. 0\<rparr>"

text \<open>32 bits are sent over a line that adds a bit: the two chunks and the size 33 arrive.\<close>

lemma output_while_receiving_witness:
  "\<exists>s d1 d2 d3. alt_boot (soc_bus (\<lambda>_. True)) (power_on soc_start) = returns s \<and>
    sender_send_command (soc_bus (\<lambda>_. True)) (\<lambda>_. 0) \<lparr>csize = 32, result_data = 0x92345678\<rparr>
      \<lparr>dev = soc_start, stdout = [], crc_table = crc_table_bss\<rparr> = returns \<lparr>dev = d1, stdout = [], crc_table = crc_table_bss\<rparr> \<and>
    alt_write (board_devices (soc_bus (\<lambda>_. True))) 1 [104, 105] 2 ((hal_part s)\<lparr>world := d1\<rparr>) =
      returns (2, (hal_part s)\<lparr>world := d2\<rparr>) \<and>
    receiver_get_package (soc_bus (\<lambda>_. True)) [7, 7, 7] 2 \<lparr>dev = d2, stdout = [], crc_table = crc_table_bss\<rparr> =
      returns (0, [0x2345678, 0x64, 7], 33, c_printf msg_eop [] \<lparr>dev = d3, stdout = [], crc_table = crc_table_bss\<rparr>) \<and>
    core_emitted (uart d3) = [104, 105]"
proof -
  obtain s where s: "alt_boot (soc_bus (\<lambda>_. True)) (power_on soc_start) = returns s" "Boot.booted s"
    using alt_boot_booted[of "soc_bus (\<lambda>_. True)" soc_start] by (elim exE conjE)
  let ?w = "\<lparr>dev = soc_start, stdout = [], crc_table = crc_table_bss\<rparr>"
  have e: "core_emitted (uart soc_start) = []" by (simp add: soc_start_def core_emitted_def)
  have "soc_idle (\<lambda>_. True) (dev ?w)"
    using ip_idle_configured by (simp add: soc_idle_def soc_start_def core_ready_def)
  moreover have "\<forall>k < n_packages 32. chunk 32 0x92345678 k \<noteq> 0" by code_simp
  moreover have l: "line_size (\<lambda>_. True) 32 0x92345678 = 33"
    "chunks 33 (line_data (\<lambda>_. True) 32 0x92345678) = [0x2345678, 0x64]" by code_simp+
  ultimately have "\<exists>d1 d2 d3. sender_send_command (soc_bus (\<lambda>_. True)) (\<lambda>_. 0) \<lparr>csize = 32, result_data = 0x92345678\<rparr> ?w =
      returns (?w\<lparr>dev := d1\<rparr>) \<and>
    alt_write (board_devices (soc_bus (\<lambda>_. True))) 1 [104, 105] 2 ((hal_part s)\<lparr>world := d1\<rparr>) =
      returns (2, (hal_part s)\<lparr>world := d2\<rparr>) \<and>
    receiver_get_package (soc_bus (\<lambda>_. True)) [7, 7, 7] 2 (?w\<lparr>dev := d2\<rparr>) =
      returns (0, [0x2345678, 0x64, 7], 33, c_printf msg_eop [] (?w\<lparr>dev := d3\<rparr>)) \<and>
    core_emitted (uart d3) = core_emitted (uart soc_start) @ [104, 105]"
    using output_while_receiving[of "\<lambda>_. True" ?w s "\<lparr>csize = 32, result_data = 0x92345678\<rparr>" 32
        "[7, 7, 7]" 2 "[104, 105]" "\<lambda>_. 0"] s(2) by (auto simp: l n_packages_def)
  then show ?thesis using s(1) by (simp add: e)
qed

end
