(* ===== verification/Logger.thy ===== *)
theory Logger
  imports Print Alarm
begin

text \<open>
  The configuration of the logger and its macros in alt_log_printf.h, for a build with
  ALT_LOG_ENABLE on a system with a JTAG UART.  \<open>flags\<close> is ALT_LOG_FLAGS (0 when it is not defined, as in
  the preprocessor's arithmetic) and \<open>given\<close> the value of the setting itself when the build defines it.
  The periodic report of the JTAG UART is an alarm of the theory Alarm, whose state holds the logger as
  what is outside the timer.
\<close>

section \<open>Settings\<close>

definition ALT_LOG_BOOT_ON_FLAG_SETTING :: "cint option \<Rightarrow> int \<Rightarrow> cint" where
  "ALT_LOG_BOOT_ON_FLAG_SETTING given flags =
     (case given of Some v \<Rightarrow> v
      | None \<Rightarrow>
          if flags = 1 then 1 else if flags = 2 then 1 else if flags = 3 then 1
          else if flags = - 1 then 0 else 1)"

definition ALT_LOG_SYS_CLK_ON_FLAG_SETTING :: "cint option \<Rightarrow> int \<Rightarrow> cint" where
  "ALT_LOG_SYS_CLK_ON_FLAG_SETTING given flags =
     (case given of Some v \<Rightarrow> v
      | None \<Rightarrow>
          if flags = 1 then 1 else if flags = 2 then 1 else if flags = 3 then 1
          else if flags = - 1 then 0 else 0)"

definition ALT_LOG_WRITE_ON_FLAG_SETTING :: "cint option \<Rightarrow> int \<Rightarrow> cint" where
  "ALT_LOG_WRITE_ON_FLAG_SETTING given flags =
     (case given of Some v \<Rightarrow> v
      | None \<Rightarrow>
          if flags = 1 then 0 else if flags = 2 then 1 else if flags = 3 then 1
          else if flags = - 1 then 0 else 0)"

definition ALT_LOG_JTAG_UART_ALARM_ON_FLAG_SETTING :: "cint option \<Rightarrow> int \<Rightarrow> cint" where
  "ALT_LOG_JTAG_UART_ALARM_ON_FLAG_SETTING given flags =
     (case given of Some v \<Rightarrow> v
      | None \<Rightarrow>
          if flags = 1 then 0 else if flags = 2 then 1 else if flags = 3 then 1
          else if flags = - 1 then 0 else 0)"

definition ALT_LOG_JTAG_UART_STARTUP_INFO_ON_FLAG_SETTING :: "cint option \<Rightarrow> int \<Rightarrow> cint" where
  "ALT_LOG_JTAG_UART_STARTUP_INFO_ON_FLAG_SETTING given flags =
     (case given of Some v \<Rightarrow> v
      | None \<Rightarrow>
          if flags = 1 then 1 else if flags = 2 then 1 else if flags = 3 then 1
          else if flags = - 1 then 0 else 0)"

definition ALT_LOG_JTAG_UART_ISR_ON_FLAG_SETTING :: "cint option \<Rightarrow> int \<Rightarrow> cint" where
  "ALT_LOG_JTAG_UART_ISR_ON_FLAG_SETTING given flags =
     (case given of Some v \<Rightarrow> v
      | None \<Rightarrow>
          if flags = 1 then 0 else if flags = 2 then 0 else if flags = 3 then 1
          else if flags = - 1 then 0 else 0)"

lemmas setting_defs = ALT_LOG_BOOT_ON_FLAG_SETTING_def ALT_LOG_SYS_CLK_ON_FLAG_SETTING_def
  ALT_LOG_WRITE_ON_FLAG_SETTING_def ALT_LOG_JTAG_UART_ALARM_ON_FLAG_SETTING_def
  ALT_LOG_JTAG_UART_STARTUP_INFO_ON_FLAG_SETTING_def ALT_LOG_JTAG_UART_ISR_ON_FLAG_SETTING_def

section \<open>State\<close>

text \<open>The flags that only the macros read, and the rest of the logger.\<close>

record 'd logger =
  alt_log_boot_on_flag :: cint
  alt_log_jtag_uart_startup_info_on_flag :: u8
  logging :: "'d log_sys"

text \<open>What the build's settings leave in the variables of alt_log_printf.c; \<open>buf\<close> is the buffer of the write echo.\<close>

definition logger_init :: "int \<Rightarrow> u8 list \<Rightarrow> 'd \<Rightarrow> 'd logger" where
  "logger_init flags buf d =
     \<lparr>alt_log_boot_on_flag = ALT_LOG_BOOT_ON_FLAG_SETTING None flags,
      alt_log_jtag_uart_startup_info_on_flag = ucast (ALT_LOG_JTAG_UART_STARTUP_INFO_ON_FLAG_SETTING None flags),
      logging =
        \<lparr>alt_log_write_on_flag = ucast (ALT_LOG_WRITE_ON_FLAG_SETTING None flags),
         alt_log_sys_clk_on_flag = ucast (ALT_LOG_SYS_CLK_ON_FLAG_SETTING None flags),
         alt_log_jtag_uart_alarm_on_flag = ucast (ALT_LOG_JTAG_UART_ALARM_ON_FLAG_SETTING None flags),
         alt_log_jtag_uart_isr_on_flag = ucast (ALT_LOG_JTAG_UART_ISR_ON_FLAG_SETTING None flags),
         alt_log_sys_clk_count = 0, alt_system_clock_in_sec = 0, alt_log_write_buf = buf, log_dev = d\<rparr>\<rparr>"

section \<open>Macros\<close>

definition log_through :: "('d log_sys \<Rightarrow> 'd log_sys outcome) \<Rightarrow> 'd logger \<Rightarrow> 'd logger outcome" where
  "log_through f s = and_then (f (logging s)) (\<lambda>l. returns (s\<lparr>logging := l\<rparr>))"

definition ALT_LOG_PRINT_BOOT :: "'d bus \<Rightarrow> cint \<Rightarrow> u8 list \<Rightarrow> arg list \<Rightarrow> 'd logger \<Rightarrow> 'd logger outcome" where
  "ALT_LOG_PRINT_BOOT b port fmt args s =
     (if alt_log_boot_on_flag s = 1 then log_through (log_print b port fmt args) s else returns s)"

definition ALT_LOG_JTAG_UART_TICKS :: "'s timer \<Rightarrow> cint" where
  "ALT_LOG_JTAG_UART_TICKS s = alt_ticks_per_second s div ALT_LOG_JTAG_UART_TICKS_DIVISOR"

text \<open>\<open>alarm\<close> is the address of \<open>alt_log_jtag_uart_alarm_1\<close>, \<open>report\<close> the number of the callback and \<open>state\<close>
  the context, the state of the driver.  The result of \<open>alt_alarm_start\<close> is not looked at.\<close>

definition ALT_LOG_JTAG_UART_ALARM_REGISTER ::
  "'d bus \<Rightarrow> cint \<Rightarrow> cint \<Rightarrow> nat \<Rightarrow> nat \<Rightarrow> nat \<Rightarrow> 'd logger timer \<Rightarrow> 'd logger timer outcome" where
  "ALT_LOG_JTAG_UART_ALARM_REGISTER b port base alarm report state s =
     and_then
       (if alt_log_jtag_uart_alarm_on_flag (logging (outside s)) = 1 then
          and_then (alt_alarm_start alarm (ALT_LOG_JTAG_UART_TICKS s) report state s) (\<lambda>(rc, s). returns s)
        else returns s) (\<lambda>s.
     if alt_log_jtag_uart_startup_info_on_flag (outside s) = 1 then
       and_then (log_through (alt_log_jtag_uart_startup_info b port base) (outside s)) (\<lambda>l. returns (s\<lparr>outside := l\<rparr>))
     else returns s)"

section \<open>What the levels turn on\<close>

definition settings :: "int \<Rightarrow> cint list" where
  "settings flags =
     [ALT_LOG_BOOT_ON_FLAG_SETTING None flags, ALT_LOG_SYS_CLK_ON_FLAG_SETTING None flags,
      ALT_LOG_JTAG_UART_STARTUP_INFO_ON_FLAG_SETTING None flags, ALT_LOG_WRITE_ON_FLAG_SETTING None flags,
      ALT_LOG_JTAG_UART_ALARM_ON_FLAG_SETTING None flags, ALT_LOG_JTAG_UART_ISR_ON_FLAG_SETTING None flags]"

lemma settings_levels:
  "settings (- 1) = [0, 0, 0, 0, 0, 0]" "settings 0 = [1, 0, 0, 0, 0, 0]" "settings 1 = [1, 1, 1, 0, 0, 0]"
  "settings 2 = [1, 1, 1, 1, 1, 0]" "settings 3 = [1, 1, 1, 1, 1, 1]"
  by (simp_all add: settings_def setting_defs)

text \<open>A higher level turns nothing off, up to the highest that the comment names; beyond it only the boot
  messages are left.\<close>

lemma settings_monotone:
  assumes "- 1 \<le> f" "f \<le> g" "g \<le> 3"
  shows "list_all2 (\<le>) (settings f) (settings g)"
proof -
  have "f \<in> {- 1, 0, 1, 2, 3}" "g \<in> {- 1, 0, 1, 2, 3}" using assms by auto
  then show ?thesis using assms(2) by (auto simp: settings_levels)
qed

lemma settings_beyond: "3 < f \<Longrightarrow> settings f = settings 0"
  by (simp add: settings_def setting_defs)

text \<open>At level -1 nothing is printed and no alarm is started, whatever the program does.\<close>

lemma silent_level:
  fixes buf and d :: 'd
  defines "l \<equiv> logger_init (- 1) buf d"
  shows "ALT_LOG_PRINT_BOOT b port fmt args l = returns l"
    and "alt_log_write b port ptr len (logging l) = returns (logging l)"
    and "alt_log_system_clock b port rate (logging l) = returns (logging l)"
    and "alt_log_jtag_uart_isr_proc b port base (logging l) = returns (logging l)"
    and "outside s = l \<Longrightarrow> ALT_LOG_JTAG_UART_ALARM_REGISTER b port base alarm report state s = returns s"
  by (simp_all add: l_def logger_init_def setting_defs ALT_LOG_PRINT_BOOT_def alt_log_write_def
      alt_log_system_clock_def alt_log_jtag_uart_isr_proc_def ALT_LOG_JTAG_UART_ALARM_REGISTER_def)

text \<open>With fewer than ten ticks in a second the report's period is rounded to 0, which is also what the
  callback returns to be taken out of the list.\<close>

lemma slow_clock_period:
  assumes "unat (tick_rate s) < 10"
  shows "ALT_LOG_JTAG_UART_TICKS s = 0"
proof -
  have "unat (tick_rate s div 10) = 0" using assms by (simp add: unat_div)
  then show ?thesis
    by (simp add: ALT_LOG_JTAG_UART_TICKS_def alt_ticks_per_second_def ALT_LOG_JTAG_UART_TICKS_DIVISOR_def unat_eq_0)
qed

text \<open>With at least ten the first report comes one tick after a tenth of a second, and it is the only thing
  that changes the logger until then.\<close>

lemma report_due:
  assumes "ring s alt_alarm_list []" and "a \<noteq> 0" and "a \<noteq> alt_alarm_list" and "tick_rate s \<noteq> 0"
    and "alt_log_jtag_uart_alarm_on_flag (logging (outside s)) = 1"
    and "alt_log_jtag_uart_startup_info_on_flag (outside s) \<noteq> 1"
  shows "\<exists>s0. ALT_LOG_JTAG_UART_ALARM_REGISTER b port base a f x s = returns s0 \<and>
    (\<forall>k \<le> unat (tick_rate s) div 10. \<exists>s'. ticks (quiet F) k s0 = returns s' \<and> outside s' = outside s) \<and>
    (\<exists>s'. ticks (quiet F) (unat (tick_rate s) div 10 + 1) s0 = returns s' \<and> outside s' = snd (F f x (outside s)))"
proof -
  let ?n = "ALT_LOG_JTAG_UART_TICKS s"
  have n: "unat ?n = unat (tick_rate s) div 10"
    by (simp add: ALT_LOG_JTAG_UART_TICKS_def alt_ticks_per_second_def ALT_LOG_JTAG_UART_TICKS_DIVISOR_def unat_div)
  then have "unat ?n < 2 ^ 32 - 1" using unat_bound[of "tick_rate s"] by simp
  then obtain s0 where s0: "alt_alarm_start a ?n f x s = returns (0, s0)"
      "\<forall>k \<le> unat ?n. \<exists>s'. ticks (quiet F) k s0 = returns s' \<and> outside s' = outside s"
      "\<exists>s'. ticks (quiet F) (unat ?n + 1) s0 = returns s' \<and> outside s' = snd (F f x (outside s))"
    using alarm_first[OF assms(1-4), of ?n f x F] by blast
  have "outside s0 = outside s" using s0(2) by (auto dest!: spec[of _ 0])
  then have "ALT_LOG_JTAG_UART_ALARM_REGISTER b port base a f x s = returns s0"
    using s0(1) assms(5,6) by (simp add: ALT_LOG_JTAG_UART_ALARM_REGISTER_def)
  then show ?thesis using s0(2,3) by (simp add: n)
qed

end
