(* ===== verification/Spec2Isabelle.thy ===== *)
theory Spec2Isabelle
  imports Handshake Calls Clock Jtag_Block Log_Proof Gmon_Graph Startup Exceptions Muldiv Channels Putbuf Rfid_Vhd Soc Logger
begin

text \<open>
  The firmware of the RFID conformance tester.

  The tester is a Nios II system on an FPGA.  Its program (fpga/software/rfid_test and
  fpga/examples_of_main) builds the commands of the EPC Gen2 protocol, sends them through an RFID
  peripheral (fpga/RTL), receives the bits on the line and says which command they are.  It stands
  on the board support package (fpga/software/rfid_test_bsp), which gives it the start-up code,
  the interrupts, the clock, the file descriptors and the driver of the JTAG UART on which
  everything it prints is seen.  Paths below are relative to the two software directories.

  The program and the peripheral

    CBase       the C of the target: \<open>int\<close> as a 32-bit word, shifts that C leaves undefined as None,
                arrays whose access out of range is None
    Config      helpers/config.h, addresses of system.h
    Crc         helpers/crc.c; the table is state, since crc_16_ccitt reads it whether or not
                crc_16_ccitt_init has run
    Commands    helpers/commands: \<open>struct command\<close>, constants, the builders
    Validate    helpers/commands: the validators; rfid_check_command and
                rfid_create_mask_from_value of functions/rfid.c
    Bus         HAL/inc/io.h: the Avalon bus.  The device behind it is a parameter \<open>'d bus\<close> (how a
                read and a write of a register act on its state); a \<open>machine\<close> is that state with
                the CRC table and the calls of printf made so far
    Sender      functions/sender.c: registers of the sender, splitting into packages, sending
    Receiver    functions/receiver.c: registers of the receiver, receiver_get_package
    Rfid, Tari  functions/rfid.c: set-up; times to clock periods in \<open>double\<close>
    Programs    main.c and the four programs of examples_of_main
    Packages    what a package carries, and that building and reading it are inverse
    Link        the contract between the polling loops and the peripheral, as the locale
                \<open>rfid_link\<close>: what a read and a write of a register do to the transmit queue, the
                arrivals and the well-formedness invariant of the device
    Ip_Core     fpga/RTL at the level of bus transactions, with its loopback bit set: the
                register file of rfid.vhd, the two FIFOs, the bit order of FM0_encoder.vhd, the
                regrouping of package_constructor.vhd; it interprets \<open>rfid_link\<close>
    Constructor package_constructor.vhd clock cycle by clock cycle, and that it does the regrouping
                Ip_Core describes
    Decoder     FM0_decoder.vhd clock cycle by clock cycle, its tolerances, and with the constructor behind
                it (receiver.vhd) what is received of a message with given lengths of its symbols
    Encoder     FM0_encoder.vhd behind its FIFO (fifo_fm0.vhd), clock cycle by clock cycle: the symbols it
                sends for the words in the FIFO, with bounds on their lengths
    Generator   signal_generator.vhd: the pulses of preamble and frame-sync, and the error of the run when its
                counter is to leave its declared range
    Fm0_Loop    sender_controller.vhd and sender.vhd, wired to the receiver as rfid.vhd does in loopback
    Rfid_Vhd    rfid.vhd: registers, strobes, FIFOs, resets and enables around both halves; a command
                written to the registers as the firmware does it, which Ip_Core describes per transaction
    Loopback    a command sent and received back: the two loops composed on the peripheral
    Classify    \<open>label_of\<close>, the specification of the classifier on the bits of a message, and
                that rfid_check_command refines it
    Builders    each builder composed with the line and the classifier, and with the loops that send and
                receive
    Handshake   the programs on the peripheral in loopback

  A message travels like this.  A builder fills a \<open>command\<close>; sender_send_command cuts
  \<open>result_data\<close> into packages of 26 data bits and a mask value and writes them to the peripheral;
  the peripheral puts the bits on the line, lowest first, and regroups what it hears into packages;
  receiver_get_package polls them into an array; rfid_check_command labels them.  The
  property \<open>commands_received\<close> of Builders composes all five steps for every command, \<open>loopback_transport\<close> the
  three in the middle, and \<open>handshake_ends\<close> all of them six times in the order of loopback_handshake.c.

  The board support package

    Fd          HAL/src: alt_dev, alt_get_fd, alt_open, alt_close, alt_read, alt_write, alt_ioctl,
                alt_fcntl, alt_fd_lock and their neighbours.  A driver is a record of optional
                functions as in \<open>alt_dev_s\<close>; the descriptor pool, the device list and the file
                system list are one record.  The locale \<open>char_device\<close> is a driver on which alt_write
                delivers what it is given
    Jtag        drivers: the polled driver, with which this BSP is built.  \<open>jtag_port\<close> and
                \<open>jtag_duplex\<close> are the contracts of the core's two registers for writing and for both
                directions; a port is a \<open>char_device\<close>; the core, with a FIFO that loses what is
                written to it when full and a host that takes bytes on an arbitrary schedule of
                finite pauses, interprets them
    Irq         alt_irq_register.c, alt_iic.c, alt_irq_handler.c, alt_irq.h: the control registers,
                the table of handlers, the dispatcher.  The devices behind the 32 lines are a
                parameter
    Boot        alt_main.c, alt_sys_init.c, alt_do_ctors.c: from reset to the exit of \<open>main\<close>
    Llist       sys/alt_llist.h: doubly linked lists on a heap of links
    Alarm       alt_alarm_start.c, alt_tick.c: the ring of alarms and the tick
    Clock       alt_gettod.c, alt_settod.c, alt_times.c, alt_busy_sleep.c, alt_usleep.c
    Ring        the circular buffers of the interrupt-driven driver as queues
    Jtag_Fast   drivers: the interrupt-driven driver in the other branch of the same files.  Its
                state is \<open>altera_avalon_jtag_uart_state\<close> with both buffers, the interrupt system, the
                alarms and the core.  The loops that wait for the interrupt routine take a
                parameter \<open>env\<close>, what the interrupts do in one turn
    Jtag_Queue  write and read as operations on the two queues
    Jtag_Stream what the interrupt routine does to the queues, under the contract \<open>jtag_fifo\<close>
    Jtag_Runs   the step relation \<open>fast_step\<close>, in which the write routine and the read routine, one
                memory access at a time, the interrupt routine and the timeout routine take turns;
                a core with its interrupt bits, which interprets \<open>jtag_fifo\<close>
    Jtag_Block  the blocking write and close while the interrupt routine runs, under
                \<open>jtag_fifo_live\<close>, which adds to \<open>jtag_fifo\<close> a host that reads
    Digits      numerals in a base: the specification of printed numbers
    Print       alt_printf.c, alt_putchar.c, alt_putstr.c, alt_log_printf.c, alt_log_printf.h
    Logger      the levels of ALT_LOG_FLAGS and the macros of alt_log_printf.h; the periodic report of the
                JTAG UART as an alarm of Alarm
    Sbrk        alt_sbrk.c, sys/alt_stack.h: the end of the heap
    Gmon        alt_gmon.c, alt_mcount.S: the profiler; memory is a map per field of its structures
    Gmon_Graph  the call graph as an association list per bucket, and that mcount refines it
    Cache       the flushing routines, uncached memory, the handler of ECC errors: the state holds
                the cache instructions executed so far
    Load        alt_load.c, alt_load.h: copying sections to where they are executed
    Startup     crt0.S: from the reset address to the call of alt_main
    Soc         the address map of system.h and linker.h, the system id test, and the bus of the whole
                system, on which the peripheral of Ip_Core and the core of Jtag stand side by side;
                it interprets \<open>rfid_link\<close> and \<open>jtag_port\<close>, each with the other device left alone
    Exceptions  alt_instruction_exception_entry.c, alt_exceptions.h, and the parts of
                alt_exception_entry.S and alt_irq_entry.S that say who is called and where the
                program continues; interrupts are those of Irq
    Muldiv      alt_exception_muldiv.S: the emulation of multiply and divide instructions
    Posix       alt_getpid.c, alt_fork.c, alt_kill.c, alt_exit.c, alt_stat.c and their neighbours
    Calls       sequences of system calls; the locale \<open>drivers\<close> (what a driver keeps of the
                descriptor pool) is interpreted by the devices of the board
    Channels    sys/alt_dma.h, alt_dma_dev.h, alt_flash.h, alt_flash_dev.h and their C files;
                the drivers, of which the system has none, are parameters
    Putbuf      alt_putcharbuf.c
    Print_Proof, Log_Proof
                formats as lists of items and the text each item stands for; the locale \<open>char_out\<close>
                (putting one character appends it to what was emitted) is interpreted by both
                printers on every \<open>jtag_port\<close>

  What the lemmas show

    CRC           the table-driven routine equals bit-serial division for every byte string, and
                  messages that differ within sixteen bits have different checksums (Crc)
    Transport     packages and messages are inverse, sending and receiving terminate and preserve
                  messages none of whose packages is zero; what happens with one package too many
                  and with a package of zeros (Packages, Link, Loopback)
    Labels        the classifier against its specification, its array bounds, and which builder's
                  command gets which label; some get none, which is stated too (Classify,
                  Builders)
    Programs      the order and values of all register writes of the configuration; the handshake
                  ends, the reader with the loopback bit hears itself, the tag waits for ever
                  when nothing comes (Handshake)
    Descriptors   least free entry, exhaustion, open and close, the exclusive lock and the
                  descriptor it misses (Fd)
    Output        alt_main, whatever \<open>main\<close> and the constructors are; what is written to the standard streams
                  reaches the host through the descriptor, the driver and the core (Jtag, Boot)
    System        on one bus, sending a command, writing to the standard output while its packages arrive
                  and receiving them do not disturb each other (Soc)
    Regrouping    the state machine of the receiver refines the function on bit lists when bits are
                  six clock cycles apart, and keeps its index and counts in range for any input
                  (Constructor)
    Line          a sequence of phases with what each signals: from a ready encoder and decoder, at a tari the
                  boundaries allow (the programs' is one, with nothing to spare), exactly the bits sent are
                  received, and one bit 1 more just when the number of ones sent is odd (Decoder, Encoder,
                  Fm0_Loop); the same from register writes to the receive FIFO (Rfid_Vhd); the wave of
                  the generator for times within the range of its counter (Generator)
    Start-up      what alt_main finds in registers, memory and caches (Startup)
    Interrupts    the dispatcher serves pending lines in the order of their numbers and returns
                  when the handlers clear them (Irq)
    Alarms        the ring holds the list of alarms, a tick is a fold over that list, and an alarm
                  of n ticks goes off at tick n + 1 among any others whose callbacks leave clock and
                  alarms alone, wrap of the counter included (Llist, Alarm)
    Streams       in every run of the interrupt-driven driver the bytes given to write are the bytes
                  emitted, then those queued, then those of the call in progress, in that order, and
                  likewise for read; indices stay inside the arrays; the interrupt routine returns
                  in every reachable state; a blocking write returns its count and a blocking close
                  returns with everything sent (Jtag_Queue, Jtag_Stream, Jtag_Runs, Jtag_Block)
    Text          what both printers emit for every format, and that printed hexadecimal reads back
                  as the number (Digits, Print_Proof, Log_Proof)
    Memory        blocks of the heap are disjoint and inside it when no request is negative (Sbrk); sections arrive whole and
                  nothing else changes, exactly when their lengths are multiples of four (Load);
                  flushing reaches every line of a region (Cache)
    Profiling     the lists of the profiler hold the number of calls of every pair, whatever the
                  calls (Gmon_Graph); the histogram counts samples, and where it overruns (Gmon)
    Exceptions    which handlers run on an exception and where the program goes on (Exceptions); the
                  emulated instructions against their definitions (Muldiv)
    System calls  no sequence of calls that are defined and return spoils the descriptor pool (Calls)

  Conventions

  An operation that touches a device returns an \<open>outcome\<close>: None when it never returns, \<open>Inl\<close> when C
  leaves its behaviour undefined (a store outside an array, a shift by too much, a missing
  argument), \<open>Inr\<close> with the result and the new state.  Loops that poll are \<open>partial_function
  (option)\<close>, so no fuel is chosen anywhere; that such a loop returns is a theorem of its own (by
  induction on what is left to send or receive, or on the number of turns until the core is ready,
  which the locale's \<open>ready\<close> bounds), and that tag.c does not, nor a tick whose callback stops the next
  alarm, is a theorem as well.  Loops that count down from a constant, as in Muldiv, recurse on the count.  Bounds are those of
  the code: 32 descriptors, 32 interrupt lines, buffers of 2048 bytes
  of which 2047 are used, FIFOs of 256 words in the peripheral and of 64 bytes in the JTAG UART,
  and 32-bit counters that wrap.  Memory that C leaves uninitialised is a parameter
  (\<open>stack\<close> in Programs).  An enumeration or structure keeps the names of the source; a name that
  clashes carries a suffix.

  Where the code differs from what its comments or its own tests say, the property states what the
  code does: the shifts of five builders that C leaves undefined, the labels no message can get, a
  Req_RN validator that depends on the table, crc5 that ignores its message, the flag that
  the clear operation does not clear, the lock that misses a descriptor, and the clock that is
  wrong once tick count times tick length exceeds 32 bits.

  Not modelled

    Of the peripheral: the FIFO macro of the vendor, which is a queue of 256 words here; what it shows when
    empty is the parameter \<open>stale\<close>.  The programs run on the transaction level of Ip_Core, for every rule
    \<open>dummy\<close> by which the line may add one bit 1 to a command, not on the clock level of Rfid_Vhd, which
    proves the rule \<open>odd_ones\<close>.  Two boards on one line are not composed; the programs run in loopback or alone.
    The \<open>printf\<close> of the programs comes from the C library, which is not in the repository: what
    they print is the list of the calls.
    Of the board support package: the saving and restoring of registers around an
    exception (assembler); what newlib does (malloc, stdio) beyond the calls it makes here; the
    8-bit and 16-bit bus accesses, which have no caller; alt_getchar, which calls getchar; the
    time stamp driver (there is no timer).  The system id test is modelled with its macros as
    arguments, because it is guarded by SYSID_BASE, while system.h defines SYSID_QSYS_0_BASE.
    Also left out are drivers under an operating system (the semaphores and flags are empty
    macros in this configuration).
\<close>

end
